(* ===== verification/Prelude.thy ===== *)
theory Prelude
  imports Main "HOL-Library.Word" "HOL-Library.Char_ord" "HOL-Library.List_Lexorder"
begin

text \<open>
  Shared vocabulary of the development: C++ character classes on bytes, the parts of
  \<^verbatim>\<open>std::string\<close>, \<^verbatim>\<open>std::to_string\<close> and \<^verbatim>\<open>std::from_chars\<close> that HomeDeck's sources call,
  fixed-width integer conversions, bounded FIFO queues, and the generic list and option
  lemmas the component theories rely on.

  A \<^verbatim>\<open>std::string\<close> is a \<^typ>\<open>string\<close> whose elements are bytes, so \<^const>\<open>length\<close> counts bytes
  as \<^verbatim>\<open>size()\<close> does. Times and durations are \<^typ>\<open>int\<close> milliseconds. A 32-bit counter that
  wraps is a \<^typ>\<open>32 word\<close>.
\<close>

section \<open>Named theorem collections\<close>

named_theorems cpp_class \<open>definitions of the C character classes\<close>
named_theorems frame_simps \<open>fields an operation leaves unchanged\<close>

type_synonym ms = int
type_synonym u8 = "8 word"
type_synonym u32 = "32 word"
type_synonym u64 = "64 word"

lemma unat_u8_less [simp]: "unat (b :: u8) < 256"
  using unsigned_less [of b, where ?'a = nat] by simp

section \<open>Characters as bytes\<close>

definition byte :: "char \<Rightarrow> nat" where
  "byte c = of_char c"

lemma byte_less_256 [simp]: "byte c < 256"
proof -
  have "byte c = byte c mod 256" by (simp add: byte_def)
  then show ?thesis using mod_less_divisor [of 256 "byte c"] by simp
qed

lemma byte_inject [simp]: "byte c = byte d \<longleftrightarrow> c = d"
  by (simp add: byte_def)

lemma char_of_byte [simp]: "char_of (byte c) = c"
  by (simp add: byte_def)

lemma byte_char_of: "n < 256 \<Longrightarrow> byte (char_of n) = n"
  by (simp add: byte_def)

definition c_isdigit :: "char \<Rightarrow> bool" where
  [cpp_class]: "c_isdigit c \<longleftrightarrow> 48 \<le> byte c \<and> byte c \<le> 57"

definition c_isupper :: "char \<Rightarrow> bool" where
  [cpp_class]: "c_isupper c \<longleftrightarrow> 65 \<le> byte c \<and> byte c \<le> 90"

definition c_islower :: "char \<Rightarrow> bool" where
  [cpp_class]: "c_islower c \<longleftrightarrow> 97 \<le> byte c \<and> byte c \<le> 122"

definition c_isalnum :: "char \<Rightarrow> bool" where
  [cpp_class]: "c_isalnum c \<longleftrightarrow> c_isdigit c \<or> c_isupper c \<or> c_islower c"

definition c_isxdigit :: "char \<Rightarrow> bool" where
  [cpp_class]: "c_isxdigit c \<longleftrightarrow> c_isdigit c \<or> (65 \<le> byte c \<and> byte c \<le> 70) \<or> (97 \<le> byte c \<and> byte c \<le> 102)"

definition c_isspace :: "char \<Rightarrow> bool" where
  [cpp_class]: "c_isspace c \<longleftrightarrow> byte c = 32 \<or> (9 \<le> byte c \<and> byte c \<le> 13)"

definition c_tolower :: "char \<Rightarrow> nat" where
  [cpp_class]: "c_tolower c = (if c_isupper c then byte c + 32 else byte c)"

text \<open>The value of a hexadecimal digit, written as the sources write it.\<close>

definition hex_value :: "char \<Rightarrow> nat" where
  "hex_value c = (if c_isdigit c then byte c - 48 else c_tolower c - 97 + 10)"

definition hex_digit :: "nat \<Rightarrow> char" where
  "hex_digit d = (if d < 10 then char_of (48 + d) else char_of (97 + (d - 10)))"

definition hex_digit_upper :: "nat \<Rightarrow> char" where
  "hex_digit_upper d = (if d < 10 then char_of (48 + d) else char_of (65 + (d - 10)))"

lemma hex_value_bound: "c_isxdigit c \<Longrightarrow> hex_value c < 16"
  by (auto simp: cpp_class hex_value_def)

lemma hex_value_hex_digit [simp]: "d < 16 \<Longrightarrow> hex_value (hex_digit d) = d"
  by (auto simp: hex_value_def hex_digit_def cpp_class byte_char_of)

lemma hex_value_hex_digit_upper [simp]: "d < 16 \<Longrightarrow> hex_value (hex_digit_upper d) = d"
  by (auto simp: hex_value_def hex_digit_upper_def cpp_class byte_char_of)

lemma c_isxdigit_hex_digit [simp]: "d < 16 \<Longrightarrow> c_isxdigit (hex_digit d)"
  by (auto simp: hex_digit_def cpp_class byte_char_of)

lemma c_isxdigit_hex_digit_upper [simp]: "d < 16 \<Longrightarrow> c_isxdigit (hex_digit_upper d)"
  by (auto simp: hex_digit_upper_def cpp_class byte_char_of)

lemma byte_hex_digit: "d < 16 \<Longrightarrow> byte (hex_digit d) = (if d < 10 then 48 + d else 87 + d)"
  by (auto simp: hex_digit_def byte_char_of)

section \<open>Fixed-width integers\<close>

text \<open>\<^verbatim>\<open>static_cast<int>\<close> and \<^verbatim>\<open>get<long long>\<close> of a wider value: modulo \<open>2^w\<close>, two's complement.\<close>

definition to_int32 :: "int \<Rightarrow> int" where
  "to_int32 x = (x + 2 ^ 31) mod 2 ^ 32 - 2 ^ 31"

definition to_int64 :: "int \<Rightarrow> int" where
  "to_int64 x = (x + 2 ^ 63) mod 2 ^ 64 - 2 ^ 63"

lemma to_int32_range: "- (2 ^ 31) \<le> to_int32 x \<and> to_int32 x < 2 ^ 31"
proof -
  have "0 \<le> (x + 2 ^ 31) mod (2 ^ 32 :: int)" "(x + 2 ^ 31) mod (2 ^ 32 :: int) < 2 ^ 32"
    by simp_all
  then show ?thesis unfolding to_int32_def by simp
qed

lemma to_int32_id [simp]: "- (2 ^ 31) \<le> x \<Longrightarrow> x < 2 ^ 31 \<Longrightarrow> to_int32 x = x"
  by (simp add: to_int32_def)

lemma to_int64_range: "- (2 ^ 63) \<le> to_int64 x \<and> to_int64 x < 2 ^ 63"
proof -
  have "0 \<le> (x + 2 ^ 63) mod (2 ^ 64 :: int)" "(x + 2 ^ 63) mod (2 ^ 64 :: int) < 2 ^ 64"
    by simp_all
  then show ?thesis unfolding to_int64_def by simp
qed

lemma to_int64_id [simp]: "- (2 ^ 63) \<le> x \<Longrightarrow> x < 2 ^ 63 \<Longrightarrow> to_int64 x = x"
  by (simp add: to_int64_def)

text \<open>\<^verbatim>\<open>std::clamp\<close>.\<close>

definition clamp :: "'a::linorder \<Rightarrow> 'a \<Rightarrow> 'a \<Rightarrow> 'a" where
  "clamp x lo hi = (if x < lo then lo else if hi < x then hi else x)"

lemma clamp_bounds: "lo \<le> hi \<Longrightarrow> lo \<le> clamp x lo hi \<and> clamp x lo hi \<le> hi"
  by (auto simp: clamp_def)

lemma clamp_id [simp]: "lo \<le> x \<Longrightarrow> x \<le> hi \<Longrightarrow> clamp x lo hi = x"
  by (auto simp: clamp_def)

lemma clamp_mono: "lo \<le> hi \<Longrightarrow> x \<le> y \<Longrightarrow> clamp x lo hi \<le> clamp y lo hi"
  by (auto simp: clamp_def)

text \<open>\<^verbatim>\<open>c_str()\<close>, as a label shows it: up to the first NUL byte.\<close>

definition label_text :: "string \<Rightarrow> string" where
  "label_text s = takeWhile (\<lambda>c. c \<noteq> CHR 0x00) s"

section \<open>Decimal numbers\<close>

definition dec_digit :: "nat \<Rightarrow> char" where
  "dec_digit d = char_of (48 + d)"

fun dec_of_nat :: "nat \<Rightarrow> string" where
  "dec_of_nat n = (if n < 10 then [dec_digit n] else dec_of_nat (n div 10) @ [dec_digit (n mod 10)])"

declare dec_of_nat.simps [simp del]

text \<open>\<^verbatim>\<open>std::to_string\<close> of an integer.\<close>

definition to_string :: "int \<Rightarrow> string" where
  "to_string i = (if i < 0 then CHR ''-'' # dec_of_nat (nat (- i)) else dec_of_nat (nat i))"

fun nat_of_dec :: "string \<Rightarrow> nat \<Rightarrow> nat" where
  "nat_of_dec [] acc = acc"
| "nat_of_dec (c # cs) acc = nat_of_dec cs (10 * acc + (byte c - 48))"

text \<open>
  \<^verbatim>\<open>std::from_chars\<close> in base 10: an optional minus sign (signed types only), then the longest run of
  digits. \<^const>\<open>None\<close> is an error code (no digits, or out of the type's range); otherwise the
  value and the characters after \<^verbatim>\<open>ptr\<close>.
\<close>

definition from_chars :: "bool \<Rightarrow> int \<Rightarrow> int \<Rightarrow> string \<Rightarrow> (int \<times> string) option" where
  "from_chars sgnd lo hi s =
     (let neg = (sgnd \<and> s \<noteq> [] \<and> hd s = CHR ''-'');
          t = (if neg then tl s else s);
          ds = takeWhile c_isdigit t;
          v = (if neg then - int (nat_of_dec ds 0) else int (nat_of_dec ds 0))
      in if ds = [] \<or> v < lo \<or> hi < v then None else Some (v, dropWhile c_isdigit t))"

definition from_chars_int32 :: "string \<Rightarrow> (int \<times> string) option" where
  "from_chars_int32 = from_chars True (- (2 ^ 31)) (2 ^ 31 - 1)"

definition from_chars_uint32 :: "string \<Rightarrow> (int \<times> string) option" where
  "from_chars_uint32 = from_chars False 0 (2 ^ 32 - 1)"

lemma byte_dec_digit [simp]: "d < 10 \<Longrightarrow> byte (dec_digit d) = 48 + d"
  by (simp add: dec_digit_def byte_char_of)

lemma c_isdigit_dec_digit [simp]: "d < 10 \<Longrightarrow> c_isdigit (dec_digit d)"
  by (simp add: cpp_class)

lemma dec_of_nat_digits: "\<forall>c \<in> set (dec_of_nat n). c_isdigit c"
proof (induction n rule: dec_of_nat.induct)
  case (1 n)
  then show ?case by (subst dec_of_nat.simps) auto
qed

lemma dec_of_nat_not_Nil [simp]: "dec_of_nat n \<noteq> []"
  by (subst dec_of_nat.simps) simp

lemma nat_of_dec_append: "nat_of_dec (xs @ ys) acc = nat_of_dec ys (nat_of_dec xs acc)"
  by (induction xs arbitrary: acc) simp_all

lemma nat_of_dec_of_nat: "nat_of_dec (dec_of_nat n) 0 = n"
proof (induction n rule: dec_of_nat.induct)
  case (1 n)
  then show ?case
    by (subst dec_of_nat.simps) (auto simp: nat_of_dec_append)
qed

lemma dec_of_nat_hd_not_minus: "hd (dec_of_nat n) \<noteq> CHR ''-''"
proof -
  have "hd (dec_of_nat n) \<in> set (dec_of_nat n)" by simp
  then have "c_isdigit (hd (dec_of_nat n))" using dec_of_nat_digits by blast
  moreover have "\<not> c_isdigit CHR ''-''" by (simp add: cpp_class byte_def)
  ultimately show ?thesis by metis
qed

lemma takeWhile_dec_of_nat [simp]: "takeWhile c_isdigit (dec_of_nat n) = dec_of_nat n"
  using dec_of_nat_digits by (simp add: takeWhile_eq_all_conv)

lemma dropWhile_dec_of_nat [simp]: "dropWhile c_isdigit (dec_of_nat n) = []"
  using dec_of_nat_digits by (simp add: dropWhile_eq_Nil_conv)

lemma from_chars_to_string:
  assumes "lo \<le> v" "v \<le> hi" "0 \<le> v \<or> sgnd"
  shows "from_chars sgnd lo hi (to_string v) = Some (v, [])"
proof (cases "v < 0")
  case True
  with assms show ?thesis by (simp add: from_chars_def to_string_def nat_of_dec_of_nat Let_def)
next
  case False
  with assms show ?thesis
    by (simp add: from_chars_def to_string_def nat_of_dec_of_nat Let_def dec_of_nat_hd_not_minus)
qed

lemma to_string_chars: "c \<in> set (to_string v) \<Longrightarrow> c_isdigit c \<or> c = CHR ''-''"
  using dec_of_nat_digits by (auto simp: to_string_def split: if_splits)

lemma from_chars_range: "from_chars sgnd lo hi s = Some (v, r) \<Longrightarrow> lo \<le> v \<and> v \<le> hi"
  by (auto simp: from_chars_def Let_def split: if_splits)

section \<open>Searching strings\<close>

text \<open>\<^verbatim>\<open>s.find(c)\<close>: the first index, \<^const>\<open>None\<close> for \<^verbatim>\<open>npos\<close>.\<close>

fun find_char :: "char \<Rightarrow> string \<Rightarrow> nat option" where
  "find_char c [] = None"
| "find_char c (d # s) = (if c = d then Some 0 else map_option Suc (find_char c s))"

text \<open>\<^verbatim>\<open>s.find(needle) != npos\<close>.\<close>

fun has_infix :: "string \<Rightarrow> string \<Rightarrow> bool" where
  "has_infix needle [] = (needle = [])"
| "has_infix needle (d # s) = (take (length needle) (d # s) = needle \<or> has_infix needle s)"

lemma find_char_None: "find_char c s = None \<longleftrightarrow> c \<notin> set s"
  by (induction s) auto

lemma find_char_Some:
  "find_char c s = Some i \<Longrightarrow> i < length s \<and> s ! i = c \<and> c \<notin> set (take i s)"
  by (induction s arbitrary: i) (auto split: if_splits)

lemma find_char_append: "c \<notin> set xs \<Longrightarrow> find_char c (xs @ c # ys) = Some (length xs)"
  by (induction xs) auto

lemma find_char_split:
  "find_char c s = Some i \<Longrightarrow> s = take i s @ c # drop (Suc i) s"
  using find_char_Some [of c s i] id_take_nth_drop [of i s] by metis

lemma has_infix_set: "has_infix needle s \<Longrightarrow> set needle \<subseteq> set s"
proof (induction s)
  case (Cons d s)
  from Cons.prems consider "take (length needle) (d # s) = needle" | "has_infix needle s" by auto
  then show ?case
  proof cases
    case 1
    then show ?thesis using set_take_subset by metis
  next
    case 2
    with Cons.IH show ?thesis by auto
  qed
qed simp

text \<open>Cutting at the first separator.\<close>

lemma takeWhile_until [simp]: "c \<notin> set a \<Longrightarrow> takeWhile (\<lambda>x. x \<noteq> c) (a @ c # r) = a"
  by (induction a) auto

lemma dropWhile_until [simp]: "c \<notin> set a \<Longrightarrow> dropWhile (\<lambda>x. x \<noteq> c) (a @ c # r) = c # r"
  by (induction a) auto

lemma takeWhile_no_sep [simp]: "c \<notin> set a \<Longrightarrow> takeWhile (\<lambda>x. x \<noteq> c) a = a"
  by (induction a) auto

lemma dropWhile_no_sep [simp]: "c \<notin> set a \<Longrightarrow> dropWhile (\<lambda>x. x \<noteq> c) a = []"
  by (induction a) auto

section \<open>Bounded FIFO queues\<close>

text \<open>
  Four sources push to the back of a \<^verbatim>\<open>std::deque\<close> and then pop the front while the size exceeds a
  cap (\<open>EnqueueCommand\<close> of both modules, \<open>EnqueueLibraryRequest\<close>, \<open>WebSocketMessageAssembler::Add\<close>).
\<close>

fun drop_front_while :: "nat \<Rightarrow> 'a list \<Rightarrow> 'a list" where
  "drop_front_while cap [] = []"
| "drop_front_while cap (x # xs) = (if cap < length (x # xs) then drop_front_while cap xs else x # xs)"

definition push_bounded :: "nat \<Rightarrow> 'a \<Rightarrow> 'a list \<Rightarrow> 'a list" where
  "push_bounded cap x q = drop_front_while cap (q @ [x])"

lemma drop_front_while_eq: "drop_front_while cap xs = drop (length xs - cap) xs"
proof (induction xs)
  case (Cons x xs)
  show ?case
  proof (cases "cap < length (x # xs)")
    case True
    then have "length (x # xs) - cap = Suc (length xs - cap)" by simp
    with True Cons.IH show ?thesis by simp
  next
    case False
    then show ?thesis by simp
  qed
qed simp

lemma length_push_bounded: "length (push_bounded cap x q) = min cap (Suc (length q))"
  by (simp add: push_bounded_def drop_front_while_eq)

lemma length_push_bounded_le: "length (push_bounded cap x q) \<le> cap"
  by (simp add: length_push_bounded)

lemma push_bounded_room: "length q < cap \<Longrightarrow> push_bounded cap x q = q @ [x]"
  by (simp add: push_bounded_def drop_front_while_eq)

lemma push_bounded_full: "length q = cap \<Longrightarrow> 0 < cap \<Longrightarrow> push_bounded cap x q = tl q @ [x]"
  by (cases q) (simp_all add: push_bounded_def drop_front_while_eq)

lemma push_bounded_last: "0 < cap \<Longrightarrow> last (push_bounded cap x q) = x \<and> push_bounded cap x q \<noteq> []"
  by (simp add: push_bounded_def drop_front_while_eq)

lemma set_push_bounded: "set (push_bounded cap x q) \<subseteq> insert x (set q)"
  using set_drop_subset by (fastforce simp: push_bounded_def drop_front_while_eq)

text \<open>Folding pushes over a burst keeps exactly the newest \<open>cap\<close> entries, in order.\<close>

lemma fold_push_bounded:
  assumes "length q \<le> cap"
  shows "fold (push_bounded cap) xs q = drop (length q + length xs - cap) (q @ xs)"
  using assms
proof (induction xs arbitrary: q)
  case (Cons x xs)
  let ?q = "push_bounded cap x q"
  have len: "length ?q \<le> cap" by (rule length_push_bounded_le)
  have "fold (push_bounded cap) (x # xs) q = drop (length ?q + length xs - cap) (?q @ xs)"
    using Cons.IH [OF len] by simp
  also have "\<dots> = drop (length q + length (x # xs) - cap) (q @ x # xs)"
  proof (cases "length q < cap")
    case True
    then show ?thesis by (simp add: push_bounded_room)
  next
    case False
    with Cons.prems have eq: "length q = cap" by simp
    show ?thesis
    proof (cases "cap = 0")
      case True
      then show ?thesis using eq by (simp add: push_bounded_def drop_front_while_eq)
    next
      case False
      then have "?q = tl q @ [x]" using eq by (simp add: push_bounded_full)
      moreover have "q \<noteq> []" using False eq by auto
      ultimately show ?thesis using eq by (cases q) simp_all
    qed
  qed
  finally show ?case .
qed simp

text \<open>
  The interface those four share: a push operation on a component's state, a view of its queue and a
  cap. What a client may rely on is proved once here.
\<close>

locale bounded_fifo =
  fixes push :: "'a \<Rightarrow> 's \<Rightarrow> 's" and items :: "'s \<Rightarrow> 'a list" and cap :: nat
  assumes items_push: "items (push x s) = push_bounded cap x (items s)"
begin

lemma items_bound: "length (items (push x s)) \<le> cap"
  by (simp add: items_push length_push_bounded_le)

lemma items_room: "length (items s) < cap \<Longrightarrow> items (push x s) = items s @ [x]"
  by (simp add: items_push push_bounded_room)

lemma items_burst_fold: "items (fold push xs s) = fold (push_bounded cap) xs (items s)"
  by (induction xs arbitrary: s) (simp_all add: items_push)

lemma items_burst:
  "length (items s) \<le> cap \<Longrightarrow>
   items (fold push xs s) = drop (length (items s) + length xs - cap) (items s @ xs)"
  by (simp add: items_burst_fold fold_push_bounded)

lemma newest_kept: "0 < cap \<Longrightarrow> items (push x s) \<noteq> [] \<and> last (items (push x s)) = x"
  by (simp add: items_push push_bounded_last)

end

end
