(* ===== verification/Json.thy ===== *)
theory Json
  imports Prelude Complex_Main
begin

text \<open>
  JSON values as HomeDeck's sources use them, and \<^verbatim>\<open>src/core/json_request.h\<close>.

  The JSON library itself (vendored \<^verbatim>\<open>nlohmann::json\<close>) is a parameter: a record with a parser,
  whose \<^const>\<open>None\<close> is a discarded value, and a serialiser. A JSON object is an association list
  in key order, as \<^verbatim>\<open>std::map\<close> keeps it. Integers are mathematical integers; the sources'
  \<^verbatim>\<open>get<long long>\<close> and \<^verbatim>\<open>get<int>\<close> conversions are \<^const>\<open>to_int64\<close> and \<^const>\<open>to_int32\<close>.
  A floating-point number is a real number.
\<close>

section \<open>Values\<close>

datatype json =
    JNull
  | JBool bool
  | JInt int
  | JFloat real
  | JStr string
  | JArr "json list"
  | JObj "(string \<times> json) list"

record json_lib =
  json_parse :: "string \<Rightarrow> json option"
  json_dump :: "json \<Rightarrow> string"

fun kv_put :: "string \<Rightarrow> 'v \<Rightarrow> (string \<times> 'v) list \<Rightarrow> (string \<times> 'v) list" where
  "kv_put k v [] = [(k, v)]"
| "kv_put k v ((k', v') # m) =
     (if k < k' then (k, v) # (k', v') # m
      else if k = k' then (k, v) # m
      else (k', v') # kv_put k v m)"

lemma map_of_kv_put [simp]: "map_of (kv_put k v m) = (map_of m)(k \<mapsto> v)"
  by (induction m rule: kv_put.induct) (auto simp: fun_eq_iff)

text \<open>A braced initialiser list of key/value pairs.\<close>

definition jobj :: "(string \<times> json) list \<Rightarrow> json" where
  "jobj kvs = JObj (fold (\<lambda>(k, v). kv_put k v) kvs [])"

text \<open>\<^verbatim>\<open>j[key] = value\<close> and \<^verbatim>\<open>j.erase(key)\<close> on an object.\<close>

fun json_set :: "string \<Rightarrow> json \<Rightarrow> json \<Rightarrow> json" where
  "json_set k v (JObj m) = JObj (kv_put k v m)"
| "json_set k v j = j"

fun json_erase :: "string \<Rightarrow> json \<Rightarrow> json" where
  "json_erase k (JObj m) = JObj (filter (\<lambda>(k', _). k' \<noteq> k) m)"
| "json_erase k j = j"

section \<open>Type tests and lookups\<close>

fun is_object :: "json \<Rightarrow> bool" where
  "is_object (JObj m) = True"
| "is_object j = False"

fun is_array :: "json \<Rightarrow> bool" where
  "is_array (JArr a) = True"
| "is_array j = False"

fun is_string :: "json \<Rightarrow> bool" where
  "is_string (JStr s) = True"
| "is_string j = False"

fun is_number_integer :: "json \<Rightarrow> bool" where
  "is_number_integer (JInt i) = True"
| "is_number_integer j = False"

fun is_number :: "json \<Rightarrow> bool" where
  "is_number (JInt i) = True"
| "is_number (JFloat r) = True"
| "is_number j = False"

fun is_boolean :: "json \<Rightarrow> bool" where
  "is_boolean (JBool b) = True"
| "is_boolean j = False"

text \<open>\<^verbatim>\<open>j.find(key)\<close>: \<^const>\<open>None\<close> is \<^verbatim>\<open>end()\<close>, also for a value that is not an object.\<close>

fun json_find :: "string \<Rightarrow> json \<Rightarrow> json option" where
  "json_find k (JObj m) = map_of m k"
| "json_find k j = None"

fun elements :: "json \<Rightarrow> json list" where
  "elements (JArr a) = a"
| "elements j = []"

text \<open>
  Fallible accessors: \<^const>\<open>None\<close> when the key is absent or its value has another type, which is
  the condition every source tests before it extracts a field.
\<close>

definition find_string :: "string \<Rightarrow> json \<Rightarrow> string option" where
  "find_string k j = (case json_find k j of Some (JStr s) \<Rightarrow> Some s | _ \<Rightarrow> None)"

definition find_int :: "string \<Rightarrow> json \<Rightarrow> int option" where
  "find_int k j = (case json_find k j of Some (JInt i) \<Rightarrow> Some i | _ \<Rightarrow> None)"

definition find_bool :: "string \<Rightarrow> json \<Rightarrow> bool option" where
  "find_bool k j = (case json_find k j of Some (JBool b) \<Rightarrow> Some b | _ \<Rightarrow> None)"

definition find_array :: "string \<Rightarrow> json \<Rightarrow> json list option" where
  "find_array k j = (case json_find k j of Some (JArr a) \<Rightarrow> Some a | _ \<Rightarrow> None)"

definition find_object :: "string \<Rightarrow> json \<Rightarrow> json option" where
  "find_object k j = (case json_find k j of Some (JObj m) \<Rightarrow> Some (JObj m) | _ \<Rightarrow> None)"

text \<open>\<^verbatim>\<open>get<double>\<close> of a number; \<open>rnd\<close> is the rounding of an integer to the nearest double.\<close>

definition find_number :: "(real \<Rightarrow> real) \<Rightarrow> string \<Rightarrow> json \<Rightarrow> real option" where
  "find_number rnd k j =
     (case json_find k j of
        Some (JInt i) \<Rightarrow> Some (rnd (of_int i))
      | Some (JFloat r) \<Rightarrow> Some r
      | _ \<Rightarrow> None)"

lemma is_object_iff: "is_object j \<longleftrightarrow> (\<exists>m. j = JObj m)"
  by (cases j) auto

lemma find_object_Some: "find_object k j = Some d \<Longrightarrow> is_object d \<and> json_find k j = Some d"
  by (auto simp: find_object_def split: option.splits json.splits)

lemma map_of_fold_kv_put:
  "map_of (fold (\<lambda>(k, v). kv_put k v) kvs m) k =
     (case map_of (rev kvs) k of None \<Rightarrow> map_of m k | Some v \<Rightarrow> Some v)"
  by (induction kvs arbitrary: m) (auto simp: map_add_def split: option.splits)

lemma json_find_jobj: "json_find k (jobj kvs) = map_of (rev kvs) k"
  by (auto simp: jobj_def map_of_fold_kv_put split: option.splits)

lemma json_find_set [simp]:
  "is_object j \<Longrightarrow> json_find k (json_set k' v j) = (if k = k' then Some v else json_find k j)"
  by (cases j) auto

lemma is_object_jobj [simp]: "is_object (jobj kvs)"
  by (simp add: jobj_def)

section \<open>The nesting bound (json_request.h)\<close>

definition kMaxJsonNestingDepth :: int where
  "kMaxJsonNestingDepth = 32"

text \<open>
  The pre-scan's loop: the current depth, whether the scan is inside a string literal, and the
  rest of the text. Inside a string a backslash skips the following byte.
\<close>

fun nesting_scan :: "int \<Rightarrow> int \<Rightarrow> bool \<Rightarrow> string \<Rightarrow> bool" where
  "nesting_scan max_depth depth in_string [] = False"
| "nesting_scan max_depth depth True (c # cs) =
     (if c = CHR 0x5C then
        (case cs of [] \<Rightarrow> False | _ # cs' \<Rightarrow> nesting_scan max_depth depth True cs')
      else if c = CHR 0x22 then nesting_scan max_depth depth False cs
      else nesting_scan max_depth depth True cs)"
| "nesting_scan max_depth depth False (c # cs) =
     (if c = CHR 0x22 then nesting_scan max_depth depth True cs
      else if c = CHR ''{'' \<or> c = CHR ''['' then
        (if max_depth < depth + 1 then True else nesting_scan max_depth (depth + 1) False cs)
      else if c = CHR ''}'' \<or> c = CHR '']'' then nesting_scan max_depth (depth - 1) False cs
      else nesting_scan max_depth depth False cs)"

definition ExceedsJsonNestingDepth :: "string \<Rightarrow> int \<Rightarrow> bool" where
  "ExceedsJsonNestingDepth text max_depth = nesting_scan max_depth 0 False text"

definition ParseBoundedJson :: "json_lib \<Rightarrow> string \<Rightarrow> json option" where
  "ParseBoundedJson L text =
     (if ExceedsJsonNestingDepth text kMaxJsonNestingDepth then None else json_parse L text)"

definition TryParseJsonObject :: "json_lib \<Rightarrow> string \<Rightarrow> json option" where
  "TryParseJsonObject L body =
     (case ParseBoundedJson L body of
        None \<Rightarrow> None
      | Some parsed \<Rightarrow> if is_object parsed then Some parsed else None)"

lemma TryParseJsonObject_Some:
  "TryParseJsonObject L body = Some j \<Longrightarrow> is_object j \<and> json_parse L body = Some j"
  by (auto simp: TryParseJsonObject_def ParseBoundedJson_def split: option.splits if_splits)

section \<open>A reference serialisation\<close>

text \<open>
  A compact serialisation used to state what the pre-scan means for real documents: \<open>num\<close> renders
  numbers. The nesting depth of a value is the number of open containers on its deepest path.
\<close>

fun escape :: "string \<Rightarrow> string" where
  "escape [] = []"
| "escape (c # cs) =
     (if c = CHR 0x22 \<or> c = CHR 0x5C then CHR 0x5C # c # escape cs else c # escape cs)"

definition quoted :: "string \<Rightarrow> string" where
  "quoted s = CHR 0x22 # escape s @ [CHR 0x22]"

fun comma_sep :: "string list \<Rightarrow> string" where
  "comma_sep [] = []"
| "comma_sep [x] = x"
| "comma_sep (x # y # zs) = x @ CHR '','' # comma_sep (y # zs)"

fun render :: "(json \<Rightarrow> string) \<Rightarrow> json \<Rightarrow> string" where
  "render num JNull = ''null''"
| "render num (JBool b) = (if b then ''true'' else ''false'')"
| "render num (JInt i) = num (JInt i)"
| "render num (JFloat r) = num (JFloat r)"
| "render num (JStr s) = quoted s"
| "render num (JArr a) = CHR ''['' # comma_sep (map (render num) a) @ '']''"
| "render num (JObj m) =
     CHR ''{'' # comma_sep (map (\<lambda>(k, v). quoted k @ CHR '':'' # render num v) m) @ ''}''"

fun json_depth :: "json \<Rightarrow> int" where
  "json_depth (JArr a) = 1 + fold max (map json_depth a) 0"
| "json_depth (JObj m) = 1 + fold max (map (\<lambda>(k, v). json_depth v) m) 0"
| "json_depth j = 0"

text \<open>Texts the scan passes over without a net change: \<open>need\<close> is how deep they reach.\<close>

definition scans_to :: "int \<Rightarrow> string \<Rightarrow> bool" where
  "scans_to need t \<longleftrightarrow>
     (\<forall>md d rest. nesting_scan md d False (t @ rest) =
        (if 0 < need \<and> md < d + need then True else nesting_scan md d False rest))"

lemma scans_toD:
  "scans_to need t \<Longrightarrow> nesting_scan md d False (t @ rest) =
     (if 0 < need \<and> md < d + need then True else nesting_scan md d False rest)"
  by (simp add: scans_to_def)

definition plain_text :: "string \<Rightarrow> bool" where
  "plain_text t \<longleftrightarrow> (\<forall>c \<in> set t. c \<notin> {CHR 0x22, CHR ''{'', CHR ''['', CHR ''}'', CHR '']''})"

lemma scans_to_plain: "plain_text t \<Longrightarrow> scans_to 0 t"
  by (induction t) (auto simp: scans_to_def plain_text_def)

lemma nesting_scan_escape:
  "nesting_scan md d True (escape s @ CHR 0x22 # rest) = nesting_scan md d False rest"
  by (induction s) auto

lemma scans_to_quoted: "scans_to 0 (quoted s)"
  by (simp add: scans_to_def quoted_def nesting_scan_escape)

lemma scans_to_append:
  assumes "scans_to a s" "scans_to b t" "0 \<le> a" "0 \<le> b"
  shows "scans_to (max a b) (s @ t)"
  using assms unfolding scans_to_def by (auto simp: max_def)

lemma scans_to_comma: "scans_to 0 '',''" and scans_to_colon: "scans_to 0 '':''"
  by (simp_all add: scans_to_def)

lemma fold_max_ge: "(a::int) \<le> fold max xs a \<and> (\<forall>x \<in> set xs. x \<le> fold max xs a)"
proof (induction xs arbitrary: a)
  case (Cons x xs)
  from Cons.IH [of "max x a"] show ?case by auto
qed simp

lemma fold_max_shift: "fold max xs (max (a::int) b) = max a (fold max xs b)"
proof (induction xs arbitrary: b)
  case (Cons x xs)
  have "max x (max a b) = max a (max x b)" by (rule max.left_commute)
  with Cons.IH [of "max x b"] show ?case by simp
qed simp

lemma fold_max_Cons: "0 \<le> x \<Longrightarrow> fold max (x # xs) (0::int) = max x (fold max xs 0)"
  using fold_max_shift [of xs x 0] by (simp add: max_absorb1)

lemma json_depth_nonneg: "0 \<le> json_depth j"
proof (cases j)
  case (JArr a)
  have "0 \<le> fold max (map json_depth a) 0" using fold_max_ge by blast
  with JArr show ?thesis by simp
next
  case (JObj m)
  have "0 \<le> fold max (map (\<lambda>(k, v). json_depth v) m) 0" using fold_max_ge by blast
  with JObj show ?thesis by simp
qed auto

lemma scans_to_comma_sep:
  assumes "\<And>x. x \<in> set xs \<Longrightarrow> scans_to (f x) (g x) \<and> 0 \<le> f x"
  shows "scans_to (fold max (map f xs) 0) (comma_sep (map g xs)) \<and> 0 \<le> fold max (map f xs) 0"
  using assms
proof (induction xs rule: induct_list012)
  case 1
  show ?case by (simp add: scans_to_def)
next
  case (2 x)
  then show ?case by (simp add: max_absorb1)
next
  case (3 x y zs)
  let ?n = "fold max (map f (y # zs)) 0"
  have tail: "scans_to ?n (comma_sep (map g (y # zs))) \<and> 0 \<le> ?n"
    using 3 by simp
  have hd: "scans_to (f x) (g x)" "0 \<le> f x" using 3 by auto
  have "scans_to (max (f x) (max 0 ?n)) (g x @ '','' @ comma_sep (map g (y # zs)))"
    using tail hd by (intro scans_to_append scans_to_comma) auto
  moreover have "fold max (map f (x # y # zs)) 0 = max (f x) (max 0 ?n)"
    using tail hd fold_max_Cons [of "f x" "map f (y # zs)"] by (simp add: max_absorb2)
  ultimately show ?case using hd tail by simp
qed

lemma scans_to_wrap:
  assumes "scans_to n t" "0 \<le> n" "(l = CHR ''['' \<and> r = CHR '']'') \<or> (l = CHR ''{'' \<and> r = CHR ''}'')"
  shows "scans_to (1 + n) (l # t @ [r])"
  using assms unfolding scans_to_def by auto

lemma scans_to_render:
  assumes "\<And>x. plain_text (num x)"
  shows "scans_to (json_depth j) (render num j)"
proof (induction j)
  case (JArr a)
  have "scans_to (fold max (map json_depth a) 0) (comma_sep (map (render num) a)) \<and>
        0 \<le> fold max (map json_depth a) 0"
    by (rule scans_to_comma_sep) (use JArr json_depth_nonneg in auto)
  then show ?case using scans_to_wrap by simp
next
  case (JObj m)
  have "scans_to (fold max (map (\<lambda>(k, v). json_depth v) m) 0)
          (comma_sep (map (\<lambda>(k, v). quoted k @ CHR '':'' # render num v) m)) \<and>
        0 \<le> fold max (map (\<lambda>(k, v). json_depth v) m) 0"
  proof (rule scans_to_comma_sep)
    fix x assume x: "x \<in> set m"
    obtain k v where kv: "x = (k, v)" by force
    have "scans_to (json_depth v) (render num v)" using JObj x kv by fastforce
    then have "scans_to (max 0 (max 0 (json_depth v))) (quoted k @ '':'' @ render num v)"
      by (intro scans_to_append scans_to_quoted scans_to_colon) (auto simp: json_depth_nonneg)
    then show "scans_to (case x of (k, v) \<Rightarrow> json_depth v)
        (case x of (k, v) \<Rightarrow> quoted k @ CHR '':'' # render num v) \<and>
        0 \<le> (case x of (k, v) \<Rightarrow> json_depth v)"
      using kv json_depth_nonneg by (simp add: max_absorb2)
  qed
  then show ?case using scans_to_wrap by simp
next
  case JNull
  show ?case using scans_to_plain [of "''null''"] by (simp add: plain_text_def)
next
  case (JBool b)
  show ?case using scans_to_plain [of "''true''"] scans_to_plain [of "''false''"]
    by (simp add: plain_text_def)
qed (use assms scans_to_plain scans_to_quoted in auto)

section \<open>Properties\<close>

text \<open>
  The pre-scan in front of the recursive parser is exact on real documents: it refuses the
  serialisation of a value if and only if the value nests deeper than the bound, whatever brackets,
  quotes and backslashes its strings contain; so nothing within the bound is refused and the
  parser's recursion is bounded.
\<close>

lemma nesting_scan_exact:
  assumes "\<forall>x. plain_text (num x)" "0 \<le> max_depth"
  shows "ExceedsJsonNestingDepth (render num j) max_depth \<longleftrightarrow> max_depth < json_depth j"
proof -
  have "scans_to (json_depth j) (render num j)" using assms(1) by (intro scans_to_render) simp
  from scans_toD [OF this, of max_depth 0 "[]"] assms(2) show ?thesis
    by (auto simp: ExceedsJsonNestingDepth_def)
qed

text \<open>Values the JSON library writes and reads back, with brackets that match the value's nesting.\<close>

definition json_reads_back :: "json_lib \<Rightarrow> json \<Rightarrow> bool" where
  "json_reads_back L j \<longleftrightarrow> json_parse L (json_dump L j) = Some j \<and> scans_to (json_depth j) (json_dump L j)"

lemma TryParse_reads_back:
  assumes "json_reads_back L j" "is_object j" "json_depth j \<le> 32"
  shows "TryParseJsonObject L (json_dump L j) = Some j"
proof -
  have "nesting_scan 32 0 False (json_dump L j @ []) = False"
    using assms by (simp add: json_reads_back_def scans_to_def del: append_Nil2)
  then show ?thesis
    using assms by (simp add: TryParseJsonObject_def ParseBoundedJson_def ExceedsJsonNestingDepth_def kMaxJsonNestingDepth_def
        json_reads_back_def)
qed

end
