(* ===== verification/Url.thy ===== *)
theory Url
  imports Prelude
begin

text \<open>
  Untrusted text at the network boundary: \<^verbatim>\<open>src/core/host_validation.h\<close>,
  \<^verbatim>\<open>src/core/url_codec.cpp\<close>, the \<open>UrlEncode\<close> helper of \<^verbatim>\<open>src/core/weather_routes.cpp\<close> and
  \<^verbatim>\<open>src/core/wifi_credentials.h\<close>, with a reference URL splitter and a reference form parser to
  state their correctness against.
\<close>

section \<open>Host and label validation (host_validation.h)\<close>

definition HasUnsafeHostChars :: "string \<Rightarrow> bool \<Rightarrow> bool" where
  "HasUnsafeHostChars value allow_colon =
     (if has_infix ''://'' value then True
      else if list_ex (\<lambda>c. c_isspace c \<or> 0x80 \<le> byte c \<or> byte c < 0x20 \<or> byte c = 0x7F) value then True
      else if list_ex (\<lambda>c. c \<in> set ''/#?@'') value then True
      else if \<not> allow_colon \<and> find_char CHR '':'' value \<noteq> None then True
      else False)"

definition IsValidHostnameLabel :: "string \<Rightarrow> bool" where
  "IsValidHostnameLabel label =
     (if label = [] \<or> 63 < length label then False
      else if hd label = CHR ''-'' \<or> last label = CHR ''-'' then False
      else list_all (\<lambda>c. c_isalnum c \<or> c = CHR ''-'') label)"

section \<open>Form and query decoding (url_codec.cpp)\<close>

fun UrlDecode :: "string \<Rightarrow> string" where
  "UrlDecode [] = []"
| "UrlDecode (c # cs) =
     (case cs of
        a # b # rest \<Rightarrow>
          if c = CHR ''%'' \<and> c_isxdigit a \<and> c_isxdigit b
          then char_of (hex_value a * 16 + hex_value b) # UrlDecode rest
          else (if c = CHR ''+'' then CHR '' '' else c) # UrlDecode cs
      | _ \<Rightarrow> (if c = CHR ''+'' then CHR '' '' else c) # UrlDecode cs)"

text \<open>\<^verbatim>\<open>s.find(needle, pos)\<close>.\<close>

fun find_at :: "string \<Rightarrow> string \<Rightarrow> nat \<Rightarrow> nat option" where
  "find_at needle [] i = (if needle = [] then Some i else None)"
| "find_at needle (d # s) i =
     (if take (length needle) (d # s) = needle then Some i else find_at needle s (Suc i))"

definition find_from :: "string \<Rightarrow> string \<Rightarrow> nat \<Rightarrow> nat option" where
  "find_from needle s pos = (if length s < pos then None else find_at needle (drop pos s) pos)"

lemma find_at_bounds: "find_at needle s i = Some p \<Longrightarrow> i \<le> p \<and> p \<le> i + length s"
  by (induction s arbitrary: i) (fastforce split: if_splits)+

lemma find_from_bounds: "find_from needle s pos = Some p \<Longrightarrow> pos \<le> p \<and> p \<le> length s"
  using find_at_bounds by (fastforce simp: find_from_def split: if_splits)

text \<open>The field value that starts at \<open>start\<close>: up to the next ampersand.\<close>

definition field_value :: "string \<Rightarrow> nat \<Rightarrow> string" where
  "field_value form_data start =
     (case find_from ''&'' form_data start of
        None \<Rightarrow> drop start form_data
      | Some e \<Rightarrow> take (e - start) (drop start form_data))"

function parse_form_loop :: "string \<Rightarrow> string \<Rightarrow> nat \<Rightarrow> string option" where
  "parse_form_loop form_data prefix pos =
     (case find_from prefix form_data pos of
        None \<Rightarrow> None
      | Some p \<Rightarrow>
          if p = 0 \<or> form_data ! (p - 1) = CHR ''&''
          then Some (UrlDecode (field_value form_data (p + length prefix)))
          else parse_form_loop form_data prefix (p + 1))"
  by pat_completeness auto
termination
  by (relation "measure (\<lambda>(s, _, pos). Suc (length s) - pos)") (auto dest: find_from_bounds)

declare parse_form_loop.simps [simp del]

definition ParseFormField :: "string \<Rightarrow> string \<Rightarrow> string option" where
  "ParseFormField form_data key = parse_form_loop form_data (key @ ''='') 0"

section \<open>Percent encoding (weather_routes.cpp)\<close>

definition url_unreserved :: "char \<Rightarrow> bool" where
  "url_unreserved c \<longleftrightarrow> c_isalnum c \<or> c \<in> set ''-_.~''"

fun UrlEncode :: "string \<Rightarrow> string" where
  "UrlEncode [] = []"
| "UrlEncode (c # cs) =
     (if url_unreserved c then c # UrlEncode cs
      else CHR ''%'' # hex_digit_upper (byte c div 16) # hex_digit_upper (byte c mod 16) # UrlEncode cs)"

section \<open>Wi-Fi credentials (wifi_credentials.h)\<close>

definition kMaxWifiSsidBytes :: nat where "kMaxWifiSsidBytes = 31"
definition kMaxWifiPasswordBytes :: nat where "kMaxWifiPasswordBytes = 63"

definition IsValidWifiCredentials :: "string \<Rightarrow> string \<Rightarrow> bool" where
  "IsValidWifiCredentials ssid password \<longleftrightarrow>
     ssid \<noteq> [] \<and> length ssid \<le> kMaxWifiSsidBytes \<and> length password \<le> kMaxWifiPasswordBytes"

section \<open>What host validation promises\<close>

text \<open>
  A reference splitter for \<^verbatim>\<open>scheme://authority/...\<close>: the authority ends at the first slash,
  question mark or hash; user information ends at an at sign; a bracketed host ends at the closing
  bracket; any other host ends at the first colon.
\<close>

fun after_scheme :: "string \<Rightarrow> string" where
  "after_scheme [] = []"
| "after_scheme (c # cs) = (if take 3 (c # cs) = ''://'' then drop 3 (c # cs) else after_scheme cs)"

definition url_authority :: "string \<Rightarrow> string" where
  "url_authority url = takeWhile (\<lambda>c. c \<notin> {CHR ''/'', CHR ''?'', CHR ''#''}) (after_scheme url)"

definition url_hostport :: "string \<Rightarrow> string" where
  "url_hostport url =
     (let a = url_authority url in
      if CHR ''@'' \<in> set a then drop 1 (dropWhile (\<lambda>c. c \<noteq> CHR ''@'') a) else a)"

definition url_host :: "string \<Rightarrow> string" where
  "url_host url =
     (let a = url_hostport url in
      if a \<noteq> [] \<and> hd a = CHR ''['' then takeWhile (\<lambda>c. c \<noteq> CHR '']'') (tl a)
      else takeWhile (\<lambda>c. c \<noteq> CHR '':'') a)"

definition url_port :: "string \<Rightarrow> string" where
  "url_port url =
     (let a = url_hostport url in
      if a \<noteq> [] \<and> hd a = CHR ''['' then drop 2 (dropWhile (\<lambda>c. c \<noteq> CHR '']'') (tl a))
      else drop 1 (dropWhile (\<lambda>c. c \<noteq> CHR '':'') a))"

lemma HasUnsafeHostChars_iff:
  "\<not> HasUnsafeHostChars h allow_colon \<longleftrightarrow>
     \<not> has_infix ''://'' h \<and>
     (\<forall>c \<in> set h. \<not> c_isspace c \<and> byte c < 0x80 \<and> 0x20 \<le> byte c \<and> byte c \<noteq> 0x7F) \<and>
     (\<forall>c \<in> set h. c \<notin> set ''/#?@'') \<and> (allow_colon \<or> CHR '':'' \<notin> set h)"
proof -
  have "HasUnsafeHostChars h allow_colon \<longleftrightarrow>
      has_infix ''://'' h \<or>
      (\<exists>c \<in> set h. c_isspace c \<or> 0x80 \<le> byte c \<or> byte c < 0x20 \<or> byte c = 0x7F) \<or>
      (\<exists>c \<in> set h. c \<in> set ''/#?@'') \<or> (\<not> allow_colon \<and> CHR '':'' \<in> set h)"
    unfolding HasUnsafeHostChars_def list_ex_iff find_char_None not_not by argo
  then show ?thesis unfolding not_le [symmetric] by blast
qed

lemma safe_host_chars:
  assumes "\<not> HasUnsafeHostChars h allow_colon" "c \<in> set h"
  shows "c \<notin> set ''/#?@''" "\<not> allow_colon \<Longrightarrow> c \<noteq> CHR '':''"
  using assms unfolding HasUnsafeHostChars_iff by auto

lemma takeWhile_append_stop:
  "(\<And>x. x \<in> set xs \<Longrightarrow> P x) \<Longrightarrow> \<not> P y \<Longrightarrow> takeWhile P (xs @ y # ys) = xs"
  by (induction xs) auto

lemma dropWhile_append_stop:
  "(\<And>x. x \<in> set xs \<Longrightarrow> P x) \<Longrightarrow> \<not> P y \<Longrightarrow> dropWhile P (xs @ y # ys) = y # ys"
  by (induction xs) auto

lemma after_scheme_letters:
  "CHR '':'' \<notin> set sch \<Longrightarrow> after_scheme (sch @ '':'' @ ''//'' @ rest) = rest"
  by (induction sch) (auto simp: numeral_eq_Suc)

text \<open>Anything safe between the scheme and a slash is the whole authority, with no user info.\<close>

lemma url_hostport_safe:
  assumes "CHR '':'' \<notin> set sch" "\<And>c. c \<in> set hp \<Longrightarrow> c \<notin> set ''/#?@''"
  shows "url_hostport (sch @ ''://'' @ hp @ ''/'' @ path) = hp"
proof -
  have "after_scheme (sch @ ''://'' @ hp @ ''/'' @ path) = hp @ CHR ''/'' # path"
    using after_scheme_letters [OF assms(1), of "hp @ ''/'' @ path"] by simp
  moreover have "takeWhile (\<lambda>c. c \<notin> {CHR ''/'', CHR ''?'', CHR ''#''}) (hp @ CHR ''/'' # path) = hp"
    using assms(2) by (intro takeWhile_append_stop) auto
  ultimately have "url_authority (sch @ ''://'' @ hp @ ''/'' @ path) = hp"
    by (simp add: url_authority_def)
  moreover have "CHR ''@'' \<notin> set hp" using assms(2) by auto
  ultimately show ?thesis by (simp add: url_hostport_def)
qed

lemma url_host_port_plain:
  assumes "CHR '':'' \<notin> set sch" "\<not> HasUnsafeHostChars h False" "h = [] \<or> hd h \<noteq> CHR ''[''"
    and "\<And>c. c \<in> set port \<Longrightarrow> c_isdigit c"
  shows "url_host (sch @ ''://'' @ (h @ '':'' @ port) @ ''/'' @ path) = h \<and>
         url_port (sch @ ''://'' @ (h @ '':'' @ port) @ ''/'' @ path) = port"
proof -
  have digits: "c \<notin> set ''/#?@''" if "c \<in> set port" for c
    using assms(4) [OF that] by (auto simp: cpp_class byte_def)
  have "url_hostport (sch @ ''://'' @ (h @ '':'' @ port) @ ''/'' @ path) = h @ CHR '':'' # port"
    using url_hostport_safe [OF assms(1), of "h @ '':'' @ port" path] safe_host_chars(1) [OF assms(2)] digits
    by auto
  moreover have "\<And>c. c \<in> set h \<Longrightarrow> c \<noteq> CHR '':''" using safe_host_chars(2) [OF assms(2)] by auto
  moreover have "hd (h @ CHR '':'' # port) \<noteq> CHR ''[''" using assms(3) by (cases h) auto
  ultimately show ?thesis
    by (simp add: url_host_def url_port_def takeWhile_append_stop dropWhile_append_stop)
qed

section \<open>Percent encoding round trip\<close>

lemma url_unreserved_plain: "url_unreserved c \<Longrightarrow> c \<noteq> CHR ''%'' \<and> c \<noteq> CHR ''+'' \<and> c \<noteq> CHR ''&''"
  by (auto simp: url_unreserved_def cpp_class byte_def)

lemma UrlDecode_plain:
  "c \<noteq> CHR ''%'' \<Longrightarrow> c \<noteq> CHR ''+'' \<Longrightarrow> UrlDecode (c # cs) = c # UrlDecode cs"
  by (cases cs rule: list.exhaust; cases "tl cs") auto

lemma UrlDecode_escape:
  "c_isxdigit a \<Longrightarrow> c_isxdigit b \<Longrightarrow>
     UrlDecode (CHR ''%'' # a # b # cs) = char_of (hex_value a * 16 + hex_value b) # UrlDecode cs"
  by simp

declare UrlDecode.simps [simp del]

lemma UrlDecode_Nil [simp]: "UrlDecode [] = []"
  by (simp add: UrlDecode.simps)

lemma UrlDecode_UrlEncode_append: "UrlDecode (UrlEncode s @ rest) = s @ UrlDecode rest"
proof (induction s)
  case (Cons c s)
  show ?case
  proof (cases "url_unreserved c")
    case True
    with Cons show ?thesis by (simp add: UrlDecode_plain url_unreserved_plain)
  next
    case False
    have "byte c div 16 < 16" using byte_less_256 [of c] by (simp add: less_mult_imp_div_less)
    moreover have "byte c div 16 * 16 + byte c mod 16 = byte c" by simp
    ultimately show ?thesis using False Cons by (simp add: UrlDecode_escape)
  qed
qed simp

lemma UrlEncode_chars: "c \<in> set (UrlEncode s) \<Longrightarrow> c_isalnum c \<or> c \<in> set ''-_.~%''"
proof (induction s)
  case (Cons d s)
  have hex: "c_isalnum (hex_digit_upper n)" if "n < 16" for n
    using that by (auto simp: hex_digit_upper_def cpp_class byte_char_of)
  have "byte d div 16 < 16" using byte_less_256 [of d] by (simp add: less_mult_imp_div_less)
  with Cons hex [of "byte d div 16"] hex [of "byte d mod 16"] show ?case
    by (auto simp: url_unreserved_def split: if_splits)
qed simp

section \<open>Form fields against a reference parser\<close>

text \<open>The reference: split at ampersands, take the first field that starts with \<open>key=\<close>.\<close>

fun form_fields :: "string \<Rightarrow> string list" where
  "form_fields [] = [[]]"
| "form_fields (c # cs) =
     (if c = CHR ''&'' then [] # form_fields cs
      else (case form_fields cs of [] \<Rightarrow> [[c]] | f # fs \<Rightarrow> (c # f) # fs))"

definition lookup_field :: "string list \<Rightarrow> string \<Rightarrow> string option" where
  "lookup_field fs key =
     map_option (drop (Suc (length key)))
       (List.find (\<lambda>f. take (Suc (length key)) f = key @ ''='') fs)"

text \<open>A single left-to-right scan that remembers whether it stands at a field boundary.\<close>

fun boundary_scan :: "string \<Rightarrow> bool \<Rightarrow> string \<Rightarrow> string option" where
  "boundary_scan prefix b [] =
     (if b \<and> prefix = [] then Some [] else None)"
| "boundary_scan prefix b (c # cs) =
     (if b \<and> take (length prefix) (c # cs) = prefix
      then Some (takeWhile (\<lambda>c. c \<noteq> CHR ''&'') (drop (length prefix) (c # cs)))
      else boundary_scan prefix (c = CHR ''&'') cs)"

lemma form_fields_not_Nil: "form_fields s \<noteq> []"
  by (cases s) (auto split: list.splits)

lemma form_fields_split:
  "form_fields s = takeWhile (\<lambda>c. c \<noteq> CHR ''&'') s #
     (case dropWhile (\<lambda>c. c \<noteq> CHR ''&'') s of [] \<Rightarrow> [] | _ # r \<Rightarrow> form_fields r)"
  by (induction s) auto

lemma take_takeWhile_prefix:
  assumes "\<And>c. c \<in> set p \<Longrightarrow> P c"
  shows "take (length p) (takeWhile P s) = p \<longleftrightarrow> take (length p) s = p"
  using assms
proof (induction p arbitrary: s)
  case (Cons x p)
  then show ?case by (cases s) auto
qed simp

lemma drop_takeWhile_prefix:
  assumes "\<And>c. c \<in> set p \<Longrightarrow> P c" "take (length p) s = p"
  shows "drop (length p) (takeWhile P s) = takeWhile P (drop (length p) s)"
  using assms
proof (induction p arbitrary: s)
  case (Cons x p)
  then show ?case by (cases s) auto
qed simp

lemma boundary_scan_skip:
  "boundary_scan prefix False s =
     (case dropWhile (\<lambda>c. c \<noteq> CHR ''&'') s of [] \<Rightarrow> None | _ # r \<Rightarrow> boundary_scan prefix True r)"
  by (induction s) auto

lemma boundary_scan_fields:
  assumes "CHR ''&'' \<notin> set key"
  shows "boundary_scan (key @ ''='') True s = lookup_field (form_fields s) key"
proof (induction s rule: length_induct)
  case (1 s)
  let ?p = "key @ ''=''" and ?P = "\<lambda>c. c \<noteq> CHR ''&''"
  have ok: "\<And>c. c \<in> set ?p \<Longrightarrow> ?P c" using assms by auto
  have len: "length ?p = Suc (length key)" by simp
  show ?case
  proof (cases "take (length ?p) s = ?p")
    case True
    then have "boundary_scan ?p True s = Some (takeWhile ?P (drop (length ?p) s))" by (cases s) auto
    moreover have "lookup_field (form_fields s) key = Some (drop (length ?p) (takeWhile ?P s))"
      using True take_takeWhile_prefix [where P = ?P and p = ?p and s = s, OF ok] len
      by (subst form_fields_split) (simp add: lookup_field_def)
    ultimately show ?thesis using drop_takeWhile_prefix [where P = ?P and p = ?p and s = s, OF ok True] by simp
  next
    case False
    then have step: "boundary_scan ?p True s = boundary_scan ?p False s"
      by (cases s) auto
    have no: "take (Suc (length key)) (takeWhile ?P s) \<noteq> ?p"
      using False take_takeWhile_prefix [where P = ?P and p = ?p and s = s, OF ok] len by metis
    show ?thesis
    proof (cases "dropWhile ?P s")
      case Nil
      have "lookup_field (form_fields s) key = None"
        unfolding form_fields_split [of s] Nil using no by (simp add: lookup_field_def)
      then show ?thesis unfolding step boundary_scan_skip Nil by simp
    next
      case (Cons c r)
      have "length r < length s" using Cons length_dropWhile_le [of ?P s] by simp
      with 1 have "boundary_scan ?p True r = lookup_field (form_fields r) key" by blast
      with Cons no show ?thesis using step boundary_scan_skip [of ?p s]
        by (subst form_fields_split) (simp add: lookup_field_def)
    qed
  qed
qed

lemma find_at_char: "find_at [c] s i = map_option (\<lambda>k. i + k) (find_char c s)"
proof (induction s arbitrary: i)
  case (Cons d s)
  then show ?case by (cases "find_char c s") auto
qed simp

lemma field_value_eq:
  assumes "start \<le> length s"
  shows "field_value s start = takeWhile (\<lambda>c. c \<noteq> CHR ''&'') (drop start s)"
proof (cases "find_char CHR ''&'' (drop start s)")
  case None
  then have "takeWhile (\<lambda>c. c \<noteq> CHR ''&'') (drop start s) = drop start s"
    unfolding takeWhile_eq_all_conv find_char_None by metis
  moreover have "field_value s start = drop start s"
    using None assms by (simp add: field_value_def find_from_def find_at_char)
  ultimately show ?thesis by metis
next
  case (Some i)
  let ?t = "drop start s"
  have no: "CHR ''&'' \<notin> set (take i ?t)" using find_char_Some [OF Some] by simp
  have "takeWhile (\<lambda>c. c \<noteq> CHR ''&'') ?t =
        takeWhile (\<lambda>c. c \<noteq> CHR ''&'') (take i ?t @ CHR ''&'' # drop (Suc i) ?t)"
    by (rule arg_cong [OF find_char_split [OF Some]])
  also have "\<dots> = take i ?t" using no by (intro takeWhile_append_stop) auto
  finally have "takeWhile (\<lambda>c. c \<noteq> CHR ''&'') ?t = take i ?t" .
  moreover have "field_value s start = take i ?t"
    using Some assms by (simp add: field_value_def find_from_def find_at_char)
  ultimately show ?thesis by metis
qed

lemma find_at_match:
  "find_at needle s i = Some p \<Longrightarrow> needle \<noteq> [] \<Longrightarrow> take (length needle) (drop (p - i) s) = needle"
proof (induction s arbitrary: i)
  case (Cons d s)
  show ?case
  proof (cases "take (length needle) (d # s) = needle")
    case False
    with Cons have "find_at needle s (Suc i) = Some p" by simp
    moreover from this have "Suc i \<le> p" using find_at_bounds by blast
    ultimately show ?thesis using Cons.IH [of "Suc i"] Cons.prems(2) by (simp add: Suc_diff_le drop_Cons')
  qed (use Cons in auto)
qed simp

lemma boundary_scan_find_None:
  "find_at prefix t i = None \<Longrightarrow> boundary_scan prefix b t = None"
  by (induction t arbitrary: i b) (auto split: if_splits)

lemma boundary_scan_find_Some:
  assumes "find_at prefix t i = Some p"
  shows "boundary_scan prefix b t =
           boundary_scan prefix (if p = i then b else t ! (p - i - 1) = CHR ''&'') (drop (p - i) t)"
  using assms
proof (induction t arbitrary: i b)
  case (Cons c t)
  show ?case
  proof (cases "take (length prefix) (c # t) = prefix")
    case False
    with Cons.prems have f: "find_at prefix t (Suc i) = Some p" by simp
    then have le: "Suc i \<le> p" using find_at_bounds by blast
    have "boundary_scan prefix b (c # t) = boundary_scan prefix (c = CHR ''&'') t"
      using False by simp
    also have "\<dots> = boundary_scan prefix (if p = Suc i then c = CHR ''&''
        else t ! (p - Suc i - 1) = CHR ''&'') (drop (p - Suc i) t)"
      by (rule Cons.IH [OF f])
    finally show ?thesis using le by (auto simp: drop_Cons' nth_Cons' Suc_diff_Suc)
  qed (use Cons in auto)
qed (auto split: if_splits)

lemma parse_form_loop_scan:
  assumes "prefix \<noteq> []" "pos \<le> length s"
  shows "parse_form_loop s prefix pos =
    map_option UrlDecode (boundary_scan prefix (pos = 0 \<or> s ! (pos - 1) = CHR ''&'') (drop pos s))"
  using assms
proof (induction s prefix pos rule: parse_form_loop.induct)
  case (1 s prefix pos)
  let ?b = "pos = 0 \<or> s ! (pos - 1) = CHR ''&''"
  show ?case
  proof (cases "find_from prefix s pos")
    case None
    then have "find_at prefix (drop pos s) pos = None" using "1.prems" by (simp add: find_from_def)
    then show ?thesis using None by (simp add: parse_form_loop.simps [of s] boundary_scan_find_None)
  next
    case (Some p)
    then have at: "find_at prefix (drop pos s) pos = Some p" using "1.prems" by (simp add: find_from_def)
    have le: "pos \<le> p" "p \<le> length s" using find_from_bounds [OF Some] by auto
    have m: "take (length prefix) (drop p s) = prefix"
      using find_at_match [OF at "1.prems"(1)] le by simp
    have lt: "p < length s"
    proof (rule ccontr)
      assume "\<not> p < length s"
      then have "drop p s = []" by simp
      with m "1.prems"(1) show False by simp
    qed
    have flag: "(if p = pos then ?b else drop pos s ! (p - pos - 1) = CHR ''&'') =
        (p = 0 \<or> s ! (p - 1) = CHR ''&'')" using le lt by (auto simp: nth_drop)
    have scan: "boundary_scan prefix ?b (drop pos s) =
        boundary_scan prefix (p = 0 \<or> s ! (p - 1) = CHR ''&'') (drop p s)"
      using boundary_scan_find_Some [OF at, of ?b] le unfolding flag by simp
    obtain c cs where cs: "drop p s = c # cs" using lt by (cases "drop p s") auto
    have len: "length prefix \<le> length (drop p s)" using m by (metis length_take min.cobounded1)
    show ?thesis
    proof (cases "p = 0 \<or> s ! (p - 1) = CHR ''&''")
      case True
      have "boundary_scan prefix True (drop p s) =
          Some (takeWhile (\<lambda>c. c \<noteq> CHR ''&'') (drop (length prefix) (drop p s)))"
        using m cs by simp
      moreover have "field_value s (p + length prefix) =
          takeWhile (\<lambda>c. c \<noteq> CHR ''&'') (drop (length prefix) (drop p s))"
        using len lt field_value_eq [of "p + length prefix" s] by (simp add: add.commute)
      ultimately show ?thesis
        unfolding scan using Some True by (simp add: parse_form_loop.simps [of s])
    next
      case False
      have "boundary_scan prefix False (drop p s) = boundary_scan prefix (s ! p = CHR ''&'') (drop (Suc p) s)"
        using cs lt by (simp add: Cons_nth_drop_Suc [symmetric])
      then show ?thesis
        unfolding scan using Some False "1.IH" [OF Some False "1.prems"(1)] lt
        by (simp add: parse_form_loop.simps [of s prefix pos])
    qed
  qed
qed

lemma ParseFormField_reference:
  assumes "CHR ''&'' \<notin> set key"
  shows "ParseFormField form_data key = map_option UrlDecode (lookup_field (form_fields form_data) key)"
  using parse_form_loop_scan [of "key @ ''=''" 0 form_data] boundary_scan_fields [OF assms]
  by (simp add: ParseFormField_def)

section \<open>Form submissions\<close>

text \<open>The body a browser posts for a form: \<open>key=value\<close> pairs joined by ampersands, values percent-encoded.\<close>

fun form_text :: "(string \<times> string) list \<Rightarrow> string" where
  "form_text [] = []"
| "form_text [(k, v)] = k @ CHR ''='' # UrlEncode v"
| "form_text ((k, v) # p # ps) = (k @ CHR ''='' # UrlEncode v) @ CHR ''&'' # form_text (p # ps)"

definition plain_key :: "string \<Rightarrow> bool" where
  "plain_key k \<longleftrightarrow> CHR ''&'' \<notin> set k \<and> CHR ''='' \<notin> set k"

lemma amp_notin_UrlEncode: "CHR ''&'' \<notin> set (UrlEncode s)"
  using UrlEncode_chars [of "CHR ''&''" s] by (auto simp: cpp_class byte_def)

lemma form_fields_text:
  "ps \<noteq> [] \<Longrightarrow> list_all (plain_key \<circ> fst) ps \<Longrightarrow>
   form_fields (form_text ps) = map (\<lambda>(k, v). k @ CHR ''='' # UrlEncode v) ps"
proof (induction ps rule: form_text.induct)
  case (2 k v)
  then have "CHR ''&'' \<notin> set (k @ CHR ''='' # UrlEncode v)"
    using amp_notin_UrlEncode by (auto simp: plain_key_def)
  then show ?case by (subst form_fields_split) simp
next
  case (3 k v p ps)
  then have "CHR ''&'' \<notin> set (k @ CHR ''='' # UrlEncode v)"
    using amp_notin_UrlEncode by (auto simp: plain_key_def)
  from takeWhile_until [OF this] dropWhile_until [OF this] show ?case
    using 3 by (subst form_fields_split) (simp del: takeWhile_until dropWhile_until)
qed simp

lemma key_prefix:
  "plain_key k \<Longrightarrow> plain_key key \<Longrightarrow>
   take (Suc (length key)) (k @ CHR ''='' # r) = key @ ''='' \<longleftrightarrow> k = key"
proof
  assume plain: "plain_key k" "plain_key key" and eq: "take (Suc (length key)) (k @ CHR ''='' # r) = key @ ''=''"
  have "k @ CHR ''='' # r = key @ CHR ''='' # drop (Suc (length key)) (k @ CHR ''='' # r)"
    using eq append_take_drop_id [of "Suc (length key)" "k @ CHR ''='' # r"] by simp
  from arg_cong [OF this, of "takeWhile (\<lambda>c. c \<noteq> CHR ''='')"] plain show "k = key"
    by (simp add: plain_key_def)
qed simp

text \<open>
  Submitting a form and reading a field back is lossless: for any values (ampersands, percent signs,
  non-ASCII bytes) and keys free of separators, \<open>ParseFormField\<close> returns the decoded value of the
  first pair with that key and nothing when there is none; a key that is a suffix of another never
  matches it.
\<close>

lemma form_submission_round_trip:
  assumes "ps \<noteq> []" "list_all (plain_key \<circ> fst) ps" "plain_key key"
  shows "ParseFormField (form_text ps) key = map_of ps key"
proof -
  have "CHR ''&'' \<notin> set key" using assms(3) by (simp add: plain_key_def)
  then have "ParseFormField (form_text ps) key =
      map_option UrlDecode (lookup_field (map (\<lambda>(k, v). k @ CHR ''='' # UrlEncode v) ps) key)"
    using ParseFormField_reference form_fields_text [OF assms(1,2)] by simp
  also have "\<dots> = map_of ps key"
    using assms(2)
  proof (induction ps)
    case (Cons p ps)
    obtain k v where p: "p = (k, v)" by force
    have "UrlDecode (UrlEncode v) = v" using UrlDecode_UrlEncode_append [of v "[]"] by simp
    then show ?case
      using Cons key_prefix [of k key "UrlEncode v"] assms(3) p by (auto simp: lookup_field_def)
  qed (simp add: lookup_field_def)
  finally show ?thesis .
qed

end
