(* ===== verification/Storage.thy ===== *)
theory Storage
  imports Prelude
begin

text \<open>
  Persistent storage: \<^verbatim>\<open>src/platform/store_key_validation.h\<close>, the three host back ends
  (\<^verbatim>\<open>src/platform/host/\<close> settings, secret and cache store over \<^verbatim>\<open>file_backed_store.cpp\<close>) and
  Core's \<^verbatim>\<open>src/core/storage.cpp\<close> with its schema-version envelope and reserved-key guard.

  A back end's directory tree is an association list from (namespace, key) to file content, in the
  order the directory iteration yields it. The file system's faults are part of the state: what
  happens to a write of a path, and whether a removal of a path reports an error.
\<close>

section \<open>Key validation (store_key_validation.h)\<close>

definition kMaxStoreSegmentLength :: nat where
  "kMaxStoreSegmentLength = 15"

definition IsValidStoreSegment :: "string \<Rightarrow> bool" where
  "IsValidStoreSegment segment =
     (if segment = [] \<or> segment = ''.'' \<or> segment = ''..'' \<or> kMaxStoreSegmentLength < length segment
      then False
      else \<not> list_ex (\<lambda>c. c = CHR ''/'' \<or> c = CHR 0x5C) segment \<and> find_char (CHR 0x00) segment = None)"

lemma IsValidStoreSegment_iff:
  "IsValidStoreSegment s \<longleftrightarrow>
     s \<noteq> [] \<and> s \<noteq> ''.'' \<and> s \<noteq> ''..'' \<and> length s \<le> 15 \<and>
     CHR ''/'' \<notin> set s \<and> CHR 0x5C \<notin> set s \<and> CHR 0x00 \<notin> set s"
  unfolding IsValidStoreSegment_def kMaxStoreSegmentLength_def find_char_None list_ex_iff by auto

section \<open>Files (host/file_backed_store.cpp)\<close>

text \<open>What the file system does with one write: \<open>IoShort n\<close> truncates the file and stores \<open>n\<close> bytes.\<close>

datatype io = IoOk | IoDirError | IoOpenError | IoShort nat

record host_store =
  files :: "((string \<times> string) \<times> string) list"
  write_io :: "string \<Rightarrow> string \<Rightarrow> io"
  erase_error :: "string \<Rightarrow> string \<Rightarrow> bool"

fun alist_put :: "'k \<Rightarrow> 'v \<Rightarrow> ('k \<times> 'v) list \<Rightarrow> ('k \<times> 'v) list" where
  "alist_put k v [] = [(k, v)]"
| "alist_put k v ((k', v') # m) = (if k = k' then (k, v) # m else (k', v') # alist_put k v m)"

lemma map_of_alist_put [simp]: "map_of (alist_put k v m) = (map_of m)(k \<mapsto> v)"
  by (induction m rule: alist_put.induct) (auto simp: fun_eq_iff)

lemma keys_alist_put: "fst ` set (alist_put k v m) = insert k (fst ` set m)"
  by (induction m rule: alist_put.induct) auto

lemma list_all_alist_put: "list_all P m \<Longrightarrow> P (k, v) \<Longrightarrow> list_all P (alist_put k v m)"
  by (induction m rule: alist_put.induct) auto

lemma distinct_alist_put: "distinct (map fst m) \<Longrightarrow> distinct (map fst (alist_put k v m))"
proof (induction m rule: alist_put.induct)
  case (2 k v k' v' m)
  have "fst ` set (alist_put k v m) = insert k (fst ` set m)" by (rule keys_alist_put)
  with 2 show ?case by auto
qed simp

definition WriteFile :: "host_store \<Rightarrow> string \<Rightarrow> string \<Rightarrow> string \<Rightarrow> bool \<times> host_store" where
  "WriteFile st ns key content =
     (case write_io st ns key of
        IoDirError \<Rightarrow> (False, st)
      | IoOpenError \<Rightarrow> (False, st)
      | IoShort n \<Rightarrow> (False, st\<lparr>files := alist_put (ns, key) (take n content) (files st)\<rparr>)
      | IoOk \<Rightarrow> (True, st\<lparr>files := alist_put (ns, key) content (files st)\<rparr>))"

definition ReadFile :: "host_store \<Rightarrow> string \<Rightarrow> string \<Rightarrow> string option" where
  "ReadFile st ns key = map_of (files st) (ns, key)"

definition EraseFile :: "host_store \<Rightarrow> string \<Rightarrow> string \<Rightarrow> bool \<times> host_store" where
  "EraseFile st ns key =
     (if erase_error st ns key then (False, st)
      else (True, st\<lparr>files := filter (\<lambda>(p, _). p \<noteq> (ns, key)) (files st)\<rparr>))"

lemma map_of_filter_key: "map_of (filter (\<lambda>(p, _). p \<noteq> k) m) = (map_of m)(k := None)"
  by (induction m) (auto simp: fun_eq_iff)

section \<open>The three host back ends\<close>

definition HostSettingsStore_Set :: "host_store \<Rightarrow> string \<Rightarrow> string \<Rightarrow> string \<Rightarrow> bool \<times> host_store" where
  "HostSettingsStore_Set st ns key value =
     (if \<not> IsValidStoreSegment ns \<or> \<not> IsValidStoreSegment key then (False, st)
      else WriteFile st ns key value)"

definition HostSettingsStore_Get :: "host_store \<Rightarrow> string \<Rightarrow> string \<Rightarrow> string option" where
  "HostSettingsStore_Get st ns key =
     (if \<not> IsValidStoreSegment ns \<or> \<not> IsValidStoreSegment key then None else ReadFile st ns key)"

definition HostSettingsStore_Erase :: "host_store \<Rightarrow> string \<Rightarrow> string \<Rightarrow> bool \<times> host_store" where
  "HostSettingsStore_Erase st ns key =
     (if \<not> IsValidStoreSegment ns \<or> \<not> IsValidStoreSegment key then (False, st)
      else EraseFile st ns key)"

definition HostSettingsStore_ListAll :: "host_store \<Rightarrow> (string \<times> string \<times> string) list" where
  "HostSettingsStore_ListAll st = map (\<lambda>((ns, key), value). (ns, key, value)) (files st)"

definition HostSecretStore_Set :: "host_store \<Rightarrow> string \<Rightarrow> string \<Rightarrow> string \<Rightarrow> bool \<times> host_store" where
  "HostSecretStore_Set st ns key value =
     (if \<not> IsValidStoreSegment ns \<or> \<not> IsValidStoreSegment key then (False, st)
      else WriteFile st ns key value)"

definition HostSecretStore_Get :: "host_store \<Rightarrow> string \<Rightarrow> string \<Rightarrow> string option" where
  "HostSecretStore_Get st ns key =
     (if \<not> IsValidStoreSegment ns \<or> \<not> IsValidStoreSegment key then None else ReadFile st ns key)"

definition HostSecretStore_Erase :: "host_store \<Rightarrow> string \<Rightarrow> string \<Rightarrow> bool \<times> host_store" where
  "HostSecretStore_Erase st ns key =
     (if \<not> IsValidStoreSegment ns \<or> \<not> IsValidStoreSegment key then (False, st)
      else EraseFile st ns key)"

definition HostCacheStore_Write :: "host_store \<Rightarrow> string \<Rightarrow> string \<Rightarrow> string \<Rightarrow> bool \<times> host_store" where
  "HostCacheStore_Write st ns key content =
     (if \<not> IsValidStoreSegment ns \<or> \<not> IsValidStoreSegment key then (False, st)
      else WriteFile st ns key content)"

definition HostCacheStore_Read :: "host_store \<Rightarrow> string \<Rightarrow> string \<Rightarrow> string option" where
  "HostCacheStore_Read st ns key =
     (if \<not> IsValidStoreSegment ns \<or> \<not> IsValidStoreSegment key then None else ReadFile st ns key)"

definition HostCacheStore_Erase :: "host_store \<Rightarrow> string \<Rightarrow> string \<Rightarrow> bool \<times> host_store" where
  "HostCacheStore_Erase st ns key =
     (if \<not> IsValidStoreSegment ns \<or> \<not> IsValidStoreSegment key then (False, st)
      else EraseFile st ns key)"

lemmas host_store_defs =
  HostSettingsStore_Set_def HostSettingsStore_Get_def HostSettingsStore_Erase_def
  HostSecretStore_Set_def HostSecretStore_Get_def HostSecretStore_Erase_def
  HostCacheStore_Write_def HostCacheStore_Read_def HostCacheStore_Erase_def
  WriteFile_def ReadFile_def EraseFile_def

section \<open>The version envelope (storage.cpp)\<close>

record versioned_value =
  schema_version :: int
  vv_value :: string

definition Encode :: "int \<Rightarrow> string \<Rightarrow> string" where
  "Encode version value = to_string version @ [CHR 0x0A] @ value"

definition Decode :: "string \<Rightarrow> versioned_value option" where
  "Decode raw =
     (case find_char (CHR 0x0A) raw of
        None \<Rightarrow> None
      | Some separator \<Rightarrow>
          (case from_chars_int32 (take separator raw) of
             None \<Rightarrow> None
           | Some (v, rest) \<Rightarrow>
               if rest \<noteq> [] then None
               else Some \<lparr>schema_version = v, vv_value = drop (separator + 1) raw\<rparr>))"

definition DecodeIfPresent :: "string option \<Rightarrow> versioned_value option" where
  "DecodeIfPresent raw = (case raw of None \<Rightarrow> None | Some r \<Rightarrow> Decode r)"

definition int32_range :: "int \<Rightarrow> bool" where
  "int32_range v \<longleftrightarrow> - (2 ^ 31) \<le> v \<and> v \<le> 2 ^ 31 - 1"

lemma newline_not_in_number: "CHR 0x0A \<notin> set (to_string v)"
  using to_string_chars [of "CHR 0x0A" v] by (auto simp: cpp_class byte_def)

lemma Decode_Encode:
  assumes "int32_range v"
  shows "Decode (Encode v x) = Some \<lparr>schema_version = v, vv_value = x\<rparr>"
proof -
  have "find_char (CHR 0x0A) (Encode v x) = Some (length (to_string v))"
    using find_char_append [OF newline_not_in_number, of v x] by (simp add: Encode_def)
  moreover have "from_chars_int32 (to_string v) = Some (v, [])"
    unfolding from_chars_int32_def using assms by (intro from_chars_to_string) (auto simp: int32_range_def)
  ultimately show ?thesis by (simp add: Decode_def Encode_def)
qed

lemma Decode_version_range: "Decode raw = Some vv \<Longrightarrow> int32_range (schema_version vv)"
  by (auto simp: Decode_def from_chars_int32_def int32_range_def split: option.splits if_splits
      dest!: from_chars_range)

section \<open>The contract of a back end\<close>

text \<open>
  What Core relies on: a successful write is read back, no operation on one key changes what another
  key reads, and an invalid segment is refused. The versioned layer on top is proved once against this
  contract. A store whose successful erase also makes the key absent satisfies the full contract.
\<close>

locale kv_writes =
  fixes put :: "'s \<Rightarrow> string \<Rightarrow> string \<Rightarrow> string \<Rightarrow> bool \<times> 's"
    and get :: "'s \<Rightarrow> string \<Rightarrow> string \<Rightarrow> string option"
    and erase :: "'s \<Rightarrow> string \<Rightarrow> string \<Rightarrow> bool \<times> 's"
  assumes get_put: "put st ns k v = (True, st') \<Longrightarrow> get st' ns k = Some v"
    and get_put_other: "(ns', k') \<noteq> (ns, k) \<Longrightarrow> get (snd (put st ns k v)) ns' k' = get st ns' k'"
    and get_erase_other: "(ns', k') \<noteq> (ns, k) \<Longrightarrow> get (snd (erase st ns k)) ns' k' = get st ns' k'"
    and put_invalid: "\<not> IsValidStoreSegment ns \<or> \<not> IsValidStoreSegment k \<Longrightarrow> put st ns k v = (False, st)"
begin

lemma versioned_round_trip:
  assumes "int32_range ver" "put st ns k (Encode ver v) = (True, st')"
  shows "DecodeIfPresent (get st' ns k) = Some \<lparr>schema_version = ver, vv_value = v\<rparr>"
  using get_put [OF assms(2)] Decode_Encode [OF assms(1)] by (simp add: DecodeIfPresent_def)

lemma versioned_other:
  assumes "(ns', k') \<noteq> (ns, k)"
  shows "DecodeIfPresent (get (snd (put st ns k raw)) ns' k') = DecodeIfPresent (get st ns' k')"
  using get_put_other [OF assms] by simp

lemma put_success_valid:
  "fst (put st ns k v) \<Longrightarrow> IsValidStoreSegment ns \<and> IsValidStoreSegment k"
  using put_invalid by (metis fst_conv)

end

locale kv_store = kv_writes +
  assumes get_erase: "erase st ns k = (True, st') \<Longrightarrow> get st' ns k = None"

interpretation settings_kv: kv_store HostSettingsStore_Set HostSettingsStore_Get HostSettingsStore_Erase
  by unfold_locales
     (auto simp: host_store_defs map_of_filter_key split: if_splits io.splits)

interpretation secret_kv: kv_store HostSecretStore_Set HostSecretStore_Get HostSecretStore_Erase
  by unfold_locales
     (auto simp: host_store_defs map_of_filter_key split: if_splits io.splits)

interpretation cache_kv: kv_store HostCacheStore_Write HostCacheStore_Read HostCacheStore_Erase
  by unfold_locales
     (auto simp: host_store_defs map_of_filter_key split: if_splits io.splits)

section \<open>Core storage (storage.cpp)\<close>

definition auth_kModuleId :: string where "auth_kModuleId = ''core''"
definition kPasswordKey :: string where "kPasswordKey = ''admin_pw_hash''"

definition IsReservedSettingsKey :: "string \<Rightarrow> string \<Rightarrow> bool" where
  "IsReservedSettingsKey module_id key \<longleftrightarrow> module_id = auth_kModuleId \<and> key = kPasswordKey"

record setting_entry =
  se_module_id :: string
  se_key :: string
  se_schema_version :: int
  se_value :: string

record storage =
  settings_store :: host_store
  cache_store :: host_store
  secret_store :: host_store

definition SetSetting :: "storage \<Rightarrow> string \<Rightarrow> string \<Rightarrow> int \<Rightarrow> string \<Rightarrow> bool \<times> storage" where
  "SetSetting s module_id key version value =
     (if IsReservedSettingsKey module_id key then (False, s)
      else let (ok, st) = HostSettingsStore_Set (settings_store s) module_id key (Encode version value)
           in (ok, s\<lparr>settings_store := st\<rparr>))"

definition GetSetting :: "storage \<Rightarrow> string \<Rightarrow> string \<Rightarrow> versioned_value option" where
  "GetSetting s module_id key = DecodeIfPresent (HostSettingsStore_Get (settings_store s) module_id key)"

definition EraseSetting :: "storage \<Rightarrow> string \<Rightarrow> string \<Rightarrow> bool \<times> storage" where
  "EraseSetting s module_id key =
     (if IsReservedSettingsKey module_id key then (False, s)
      else let (ok, st) = HostSettingsStore_Erase (settings_store s) module_id key
           in (ok, s\<lparr>settings_store := st\<rparr>))"

fun list_settings_loop :: "(string \<times> string \<times> string) list \<Rightarrow> setting_entry list" where
  "list_settings_loop [] = []"
| "list_settings_loop ((ns, key, value) # raws) =
     (if IsReservedSettingsKey ns key then list_settings_loop raws
      else (case Decode value of
              None \<Rightarrow> list_settings_loop raws
            | Some d \<Rightarrow>
                \<lparr>se_module_id = ns, se_key = key, se_schema_version = schema_version d,
                 se_value = vv_value d\<rparr> # list_settings_loop raws))"

definition ListAllSettings :: "storage \<Rightarrow> setting_entry list" where
  "ListAllSettings s = list_settings_loop (HostSettingsStore_ListAll (settings_store s))"

definition SetSecret :: "storage \<Rightarrow> string \<Rightarrow> string \<Rightarrow> int \<Rightarrow> string \<Rightarrow> bool \<times> storage" where
  "SetSecret s module_id key version value =
     (let (ok, st) = HostSecretStore_Set (secret_store s) module_id key (Encode version value)
      in (ok, s\<lparr>secret_store := st\<rparr>))"

definition GetSecret :: "storage \<Rightarrow> string \<Rightarrow> string \<Rightarrow> versioned_value option" where
  "GetSecret s module_id key = DecodeIfPresent (HostSecretStore_Get (secret_store s) module_id key)"

definition EraseSecret :: "storage \<Rightarrow> string \<Rightarrow> string \<Rightarrow> bool \<times> storage" where
  "EraseSecret s module_id key =
     (let (ok, st) = HostSecretStore_Erase (secret_store s) module_id key
      in (ok, s\<lparr>secret_store := st\<rparr>))"

definition WriteCache :: "storage \<Rightarrow> string \<Rightarrow> string \<Rightarrow> int \<Rightarrow> string \<Rightarrow> bool \<times> storage" where
  "WriteCache s module_id key version value =
     (let (ok, st) = HostCacheStore_Write (cache_store s) module_id key (Encode version value)
      in (ok, s\<lparr>cache_store := st\<rparr>))"

definition ReadCache :: "storage \<Rightarrow> string \<Rightarrow> string \<Rightarrow> versioned_value option" where
  "ReadCache s module_id key = DecodeIfPresent (HostCacheStore_Read (cache_store s) module_id key)"

definition EraseCache :: "storage \<Rightarrow> string \<Rightarrow> string \<Rightarrow> bool \<times> storage" where
  "EraseCache s module_id key =
     (let (ok, st) = HostCacheStore_Erase (cache_store s) module_id key
      in (ok, s\<lparr>cache_store := st\<rparr>))"

section \<open>Facts about Core storage\<close>

lemma SetSetting_frame [frame_simps]:
  "secret_store (snd (SetSetting s m k v x)) = secret_store s"
  "cache_store (snd (SetSetting s m k v x)) = cache_store s"
  by (auto simp: SetSetting_def split: prod.splits)

lemma EraseSetting_frame [frame_simps]:
  "secret_store (snd (EraseSetting s m k)) = secret_store s"
  "cache_store (snd (EraseSetting s m k)) = cache_store s"
  by (auto simp: EraseSetting_def split: prod.splits)

lemma SetSecret_frame [frame_simps]:
  "settings_store (snd (SetSecret s m k v x)) = settings_store s"
  "cache_store (snd (SetSecret s m k v x)) = cache_store s"
  by (auto simp: SetSecret_def split: prod.splits)

lemma WriteCache_frame [frame_simps]:
  "settings_store (snd (WriteCache s m k v x)) = settings_store s"
  "secret_store (snd (WriteCache s m k v x)) = secret_store s"
  by (auto simp: WriteCache_def split: prod.splits)

lemma GetSetting_SetSetting:
  assumes "int32_range v" "SetSetting s m k v x = (True, s')"
  shows "GetSetting s' m k = Some \<lparr>schema_version = v, vv_value = x\<rparr>"
  using assms settings_kv.versioned_round_trip [OF assms(1)]
  by (auto simp: SetSetting_def GetSetting_def split: if_splits prod.splits)

lemma GetSetting_SetSetting_other:
  "(m', k') \<noteq> (m, k) \<Longrightarrow> GetSetting (snd (SetSetting s m k v x)) m' k' = GetSetting s m' k'"
  using settings_kv.versioned_other [of m' k' m k "settings_store s" "Encode v x"]
  by (auto simp: SetSetting_def GetSetting_def split: prod.splits)

lemma GetSecret_SetSecret:
  assumes "int32_range v" "SetSecret s m k v x = (True, s')"
  shows "GetSecret s' m k = Some \<lparr>schema_version = v, vv_value = x\<rparr>"
  using assms secret_kv.versioned_round_trip [OF assms(1)]
  by (auto simp: SetSecret_def GetSecret_def split: prod.splits)

lemma ReadCache_WriteCache:
  assumes "int32_range v" "WriteCache s m k v x = (True, s')"
  shows "ReadCache s' m k = Some \<lparr>schema_version = v, vv_value = x\<rparr>"
  using assms cache_kv.versioned_round_trip [OF assms(1)]
  by (auto simp: WriteCache_def ReadCache_def split: prod.splits)

lemma ReadCache_WriteCache_other:
  "(m', k') \<noteq> (m, k) \<Longrightarrow> ReadCache (snd (WriteCache s m k v x)) m' k' = ReadCache s m' k'"
  using cache_kv.versioned_other [of m' k' m k "cache_store s" "Encode v x"]
  by (auto simp: WriteCache_def ReadCache_def split: prod.splits)

lemma list_settings_loop_iff:
  "e \<in> set (list_settings_loop raws) \<longleftrightarrow>
     (\<exists>value. (se_module_id e, se_key e, value) \<in> set raws \<and>
        \<not> IsReservedSettingsKey (se_module_id e) (se_key e) \<and>
        Decode value = Some \<lparr>schema_version = se_schema_version e, vv_value = se_value e\<rparr>)"
proof (induction raws rule: list_settings_loop.induct)
  case (2 ns key raw raws)
  show ?case
  proof (cases "IsReservedSettingsKey ns key")
    case True
    with 2 show ?thesis by auto
  next
    case False
    show ?thesis
    proof (cases "Decode raw")
      case None
      with False 2 show ?thesis by auto
    next
      case (Some d)
      have "e = \<lparr>se_module_id = ns, se_key = key, se_schema_version = schema_version d, se_value = vv_value d\<rparr> \<longleftrightarrow>
            se_module_id e = ns \<and> se_key e = key \<and>
            d = \<lparr>schema_version = se_schema_version e, vv_value = se_value e\<rparr>"
        by (cases e; cases d) auto
      with Some False 2 show ?thesis by auto
    qed
  qed
qed simp

section \<open>Properties\<close>

text \<open>
  A setting that was written successfully is read back with its version and value, byte for byte;
  every other setting and the secret and cache stores are untouched; and success means that both
  name segments were valid and the key is not the reserved password key.
\<close>

lemma setting_round_trip:
  assumes "int32_range v" "SetSetting s m k v x = (True, s')"
  shows "GetSetting s' m k = Some \<lparr>schema_version = v, vv_value = x\<rparr> \<and>
         (\<forall>m' k'. (m', k') \<noteq> (m, k) \<longrightarrow> GetSetting s' m' k' = GetSetting s m' k') \<and>
         secret_store s' = secret_store s \<and> cache_store s' = cache_store s \<and>
         IsValidStoreSegment m \<and> IsValidStoreSegment k \<and> \<not> IsReservedSettingsKey m k"
proof -
  have s': "s' = snd (SetSetting s m k v x)" using assms(2) by simp
  have "fst (HostSettingsStore_Set (settings_store s) m k (Encode v x))" "\<not> IsReservedSettingsKey m k"
    using assms(2) by (auto simp: SetSetting_def split: if_splits prod.splits)
  then show ?thesis
    using GetSetting_SetSetting [OF assms] GetSetting_SetSetting_other [of _ _ m k s v x]
      settings_kv.put_success_valid by (auto simp: s' SetSetting_frame)
qed

definition sample_storage :: storage where
  "sample_storage = (let st = \<lparr>files = [], write_io = \<lambda>_ _. IoOk, erase_error = \<lambda>_ _. False\<rparr>
     in \<lparr>settings_store = st, cache_store = st, secret_store = st\<rparr>)"

text \<open>Directory trees the back end itself can have written: valid names, one file per name.\<close>

definition store_ok :: "host_store \<Rightarrow> bool" where
  "store_ok st \<longleftrightarrow> distinct (map fst (files st)) \<and>
     list_all (\<lambda>((ns, k), _). IsValidStoreSegment ns \<and> IsValidStoreSegment k) (files st)"

lemma store_ok_Set: "store_ok st \<Longrightarrow> store_ok (snd (HostSettingsStore_Set st ns k v))"
proof -
  assume ok: "store_ok st"
  have "list_all (\<lambda>((ns, k), _). IsValidStoreSegment ns \<and> IsValidStoreSegment k) (alist_put (ns, k) x (files st))"
    if "IsValidStoreSegment ns" "IsValidStoreSegment k" for x
    using ok that by (intro list_all_alist_put) (simp_all add: store_ok_def)
  then show ?thesis
    using ok distinct_alist_put [of "files st"]
    by (auto simp: HostSettingsStore_Set_def WriteFile_def store_ok_def split: io.splits)
qed

text \<open>
  The settings listing (what a backup exports) is exact: an entry is listed if and only if it is not
  the reserved password key and reading it back yields just that version and value. In particular
  the password record never appears in it, and neither a write nor an erase through the settings
  interface touches that key.
\<close>

lemma ListAllSettings_exact:
  assumes "store_ok (settings_store s)"
  shows "e \<in> set (ListAllSettings s) \<longleftrightarrow>
     \<not> IsReservedSettingsKey (se_module_id e) (se_key e) \<and>
     GetSetting s (se_module_id e) (se_key e) =
       Some \<lparr>schema_version = se_schema_version e, vv_value = se_value e\<rparr>"
proof -
  let ?m = "se_module_id e" and ?k = "se_key e" and ?st = "settings_store s"
  have mem: "(?m, ?k, v) \<in> set (HostSettingsStore_ListAll ?st) \<longleftrightarrow> map_of (files ?st) (?m, ?k) = Some v" for v
    using assms by (force simp: HostSettingsStore_ListAll_def store_ok_def)
  have "IsValidStoreSegment ?m \<and> IsValidStoreSegment ?k" if "map_of (files ?st) (?m, ?k) = Some v" for v
    using map_of_SomeD [OF that] assms by (auto simp: store_ok_def list_all_iff)
  then have "HostSettingsStore_Get ?st ?m ?k = map_of (files ?st) (?m, ?k)"
    by (cases "map_of (files ?st) (?m, ?k)") (auto simp: HostSettingsStore_Get_def ReadFile_def)
  then show ?thesis
    unfolding ListAllSettings_def list_settings_loop_iff mem GetSetting_def DecodeIfPresent_def
    by (auto split: option.splits)
qed

end
