(* ===== verification/Http.thy ===== *)
theory Http
  imports Json
begin

text \<open>
  The HTTP surface shared by every route: requests, responses and status phrases of
  \<^verbatim>\<open>src/platform/http_server.h\<close>, client responses of \<^verbatim>\<open>src/platform/http_client.h\<close>, and the static
  files of \<^verbatim>\<open>src/platform/static_assets.cpp\<close>. A handler is a function of the request and the state
  it closes over, returning the response and the new state.
\<close>

datatype http_method = kGet | kPost

record http_request =
  req_path :: string
  req_query :: string
  req_body :: string
  cookie_header :: "string option"

record http_response =
  status_code :: int
  content_type :: string
  resp_body :: string
  extra_headers :: "(string \<times> string) list"

record http_client_response =
  cr_success :: bool
  cr_status_code :: int
  cr_body :: string

type_synonym 's handler = "http_request \<Rightarrow> 's \<Rightarrow> http_response \<times> 's"

type_synonym 's routes = "(http_method \<times> string) \<Rightarrow> 's handler option"

definition HttpReasonPhrase :: "int \<Rightarrow> string" where
  "HttpReasonPhrase code =
     (if code = 200 then ''OK''
      else if code = 400 then ''Bad Request''
      else if code = 401 then ''Unauthorized''
      else if code = 403 then ''Forbidden''
      else if code = 404 then ''Not Found''
      else if code = 405 then ''Method Not Allowed''
      else if code = 409 then ''Conflict''
      else if code = 429 then ''Too Many Requests''
      else if code = 500 then ''Internal Server Error''
      else if code = 502 then ''Bad Gateway''
      else ''Unknown'')"

definition json_response :: "int \<Rightarrow> string \<Rightarrow> http_response" where
  "json_response code body =
     \<lparr>status_code = code, content_type = ''application/json'', resp_body = body, extra_headers = []\<rparr>"

definition with_header :: "string \<Rightarrow> string \<Rightarrow> http_response \<Rightarrow> http_response" where
  "with_header name v r = r\<lparr>extra_headers := extra_headers r @ [(name, v)]\<rparr>"

lemma json_response_simps [simp]:
  "status_code (json_response c b) = c" "resp_body (json_response c b) = b"
  "extra_headers (json_response c b) = []" "content_type (json_response c b) = ''application/json''"
  by (simp_all add: json_response_def)

lemma with_header_simps [simp]:
  "status_code (with_header n v r) = status_code r" "resp_body (with_header n v r) = resp_body r"
  "extra_headers (with_header n v r) = extra_headers r @ [(n, v)]"
  by (simp_all add: with_header_def)

section \<open>Static files (static_assets.cpp)\<close>

record static_asset =
  asset_path :: string
  asset_content_type :: string
  asset_body :: string

fun ServeStaticFiles :: "'s routes \<Rightarrow> static_asset list \<Rightarrow> 's routes" where
  "ServeStaticFiles server [] = server"
| "ServeStaticFiles server (asset # assets) =
     ServeStaticFiles
       (server((kGet, asset_path asset) \<mapsto>
          (\<lambda>_ s. (\<lparr>status_code = 200, content_type = asset_content_type asset,
                   resp_body = asset_body asset, extra_headers = []\<rparr>, s)))) assets"

end
