(* ===== verification/Auth.thy ===== *)
theory Auth
  imports Storage Http
begin

text \<open>
  The Web UI's admin authentication, \<^verbatim>\<open>src/core/admin_auth_service.cpp\<close>: hex codec, constant-time
  comparison, the stored-hash format, cookie extraction, the service's operations and the four
  \<^verbatim>\<open>/api/auth\<close> routes.

  The random generator and the key derivation function (mbedtls) are parameters. The clock is read
  once per call of \<^verbatim>\<open>Now()\<close>: each operation takes the readings it makes as arguments. \<open>Login\<close> holds
  the service's mutex in two separate sections, so it is split into \<open>login_begin\<close>, the unlocked
  \<open>login_verify\<close> and \<open>login_finish\<close>; theory \<open>Auth_Concurrency\<close> interleaves them.
\<close>

section \<open>Constants\<close>

definition kPasswordSchemaVersion :: int where "kPasswordSchemaVersion = 1"
definition kPbkdf2Iterations :: int where "kPbkdf2Iterations = 25000"
definition kMaxStoredPbkdf2Iterations :: int where "kMaxStoredPbkdf2Iterations = 1000000"
definition kSaltBytes :: nat where "kSaltBytes = 16"
definition kHashBytes :: nat where "kHashBytes = 32"
definition kSessionTokenBytes :: nat where "kSessionTokenBytes = 32"
definition kSessionLifetime :: ms where "kSessionLifetime = 24 * 60 * 60 * 1000"
definition kSessionLifetimeSeconds :: int where "kSessionLifetimeSeconds = 24 * 60 * 60"
definition kMinPasswordLength :: nat where "kMinPasswordLength = 8"
definition kMaxPasswordLength :: nat where "kMaxPasswordLength = 256"
definition kMaxFailedLoginAttempts :: int where "kMaxFailedLoginAttempts = 5"
definition kLoginLockoutDuration :: ms where "kLoginLockoutDuration = 60 * 1000"

section \<open>Hexadecimal text\<close>

fun ToHex :: "u8 list \<Rightarrow> string" where
  "ToHex [] = []"
| "ToHex (b # bs) = hex_digit (unat b div 16) # hex_digit (unat b mod 16) # ToHex bs"

text \<open>
  \<^verbatim>\<open>sscanf(s, "%2x", &byte)\<close>: skips white space, then reads at most two characters that form an
  optional sign and hexadecimal digits. \<open>0x\<close> alone is a matching failure.
\<close>

definition sscanf_2x :: "string \<Rightarrow> nat option" where
  "sscanf_2x s =
     (case take 2 (dropWhile c_isspace s) of
        [] \<Rightarrow> None
      | c # r \<Rightarrow>
          if c = CHR ''+'' \<or> c = CHR ''-'' then
            (case r of
               d # _ \<Rightarrow> if c_isxdigit d
                        then Some (if c = CHR ''-'' then (256 - hex_value d) mod 256 else hex_value d)
                        else None
             | [] \<Rightarrow> None)
          else if \<not> c_isxdigit c then None
          else (case r of
                  [] \<Rightarrow> Some (hex_value c)
                | d # _ \<Rightarrow> if c_isxdigit d then Some (16 * hex_value c + hex_value d)
                           else if c = CHR ''0'' \<and> (d = CHR ''x'' \<or> d = CHR ''X'') then None
                           else Some (hex_value c)))"

fun from_hex_loop :: "nat \<Rightarrow> string \<Rightarrow> u8 list option" where
  "from_hex_loop 0 s = Some []"
| "from_hex_loop (Suc n) s =
     (case sscanf_2x s of
        None \<Rightarrow> None
      | Some b \<Rightarrow> map_option ((#) (word_of_nat b)) (from_hex_loop n (drop 2 s)))"

definition FromHex :: "string \<Rightarrow> u8 list option" where
  "FromHex hex = (if hex = [] \<or> length hex mod 2 \<noteq> 0 then None else from_hex_loop (length hex div 2) hex)"

section \<open>Constant-time comparison\<close>

unbundle bit_operations_syntax

fun diff_loop :: "u8 \<Rightarrow> u8 list \<Rightarrow> u8 list \<Rightarrow> u8" where
  "diff_loop diff (a # as) (b # bs) = diff_loop (diff OR (a XOR b)) as bs"
| "diff_loop diff _ _ = diff"

definition ConstantTimeEquals :: "u8 list \<Rightarrow> u8 list \<Rightarrow> bool" where
  "ConstantTimeEquals a b = (if length a \<noteq> length b then False else diff_loop 0 a b = 0)"

definition ConstantTimeEquals_string :: "string \<Rightarrow> string \<Rightarrow> bool" where
  "ConstantTimeEquals_string a b =
     (if length a \<noteq> length b then False
      else diff_loop 0 (map (\<lambda>c. word_of_nat (byte c)) a) (map (\<lambda>c. word_of_nat (byte c)) b) = 0)"

section \<open>The stored hash\<close>

record stored_password_hash =
  sp_iterations :: int
  sp_salt :: "u8 list"
  sp_hash :: "u8 list"

text \<open>\<^verbatim>\<open>std::getline(stream, field, '$')\<close>: the field and what is left in the stream.\<close>

definition getline_dollar :: "string \<Rightarrow> string \<times> string" where
  "getline_dollar s = (takeWhile (\<lambda>c. c \<noteq> CHR ''$'') s, drop 1 (dropWhile (\<lambda>c. c \<noteq> CHR ''$'') s))"

definition ParseStoredPasswordHash :: "versioned_value option \<Rightarrow> stored_password_hash option" where
  "ParseStoredPasswordHash stored =
     (case stored of
        None \<Rightarrow> None
      | Some vv \<Rightarrow>
          (let (algorithm, r1) = getline_dollar (vv_value vv);
               (iterations_str, r2) = getline_dollar r1;
               (salt_hex, r3) = getline_dollar r2;
               (hash_hex, _) = getline_dollar r3
           in if algorithm \<noteq> ''pbkdf2-sha256'' \<or> salt_hex = [] \<or> hash_hex = [] then None
              else (case from_chars_uint32 iterations_str of
                      None \<Rightarrow> None
                    | Some (iterations, rest) \<Rightarrow>
                        if rest \<noteq> [] \<or> iterations = 0 \<or> kMaxStoredPbkdf2Iterations < iterations then None
                        else (case (FromHex salt_hex, FromHex hash_hex) of
                                (Some salt, Some hash) \<Rightarrow>
                                  Some \<lparr>sp_iterations = iterations, sp_salt = salt, sp_hash = hash\<rparr>
                              | _ \<Rightarrow> None))))"

section \<open>Cookies\<close>

lemma tl_dropWhile_shorter: "dropWhile P xs \<noteq> [] \<Longrightarrow> length (tl (dropWhile P xs)) < length xs"
  using length_dropWhile_le [of P xs] by (cases "dropWhile P xs") auto

lemma length_pred_dropWhile: "xs \<noteq> [] \<Longrightarrow> length (dropWhile P xs) - Suc 0 < length xs"
  using length_dropWhile_le [of P xs] by (cases xs) auto

function ExtractCookie :: "string \<Rightarrow> string \<Rightarrow> string option" where
  "ExtractCookie header name =
     (if header = [] then None
      else
        (let pair = takeWhile (\<lambda>c. c \<noteq> CHR '';'') header;
             rest = dropWhile (\<lambda>c. c \<noteq> CHR '';'') header;
             continue = (if rest = [] then None else ExtractCookie (tl rest) name)
         in case find_char CHR ''='' pair of
              None \<Rightarrow> continue
            | Some eq \<Rightarrow>
                (let raw = take eq pair;
                     trimmed = dropWhile (\<lambda>c. c = CHR '' '') raw;
                     key = (if trimmed = [] then raw else trimmed)
                 in if key = name then Some (drop (eq + 1) pair) else continue)))"
  by pat_completeness auto
termination
  by (relation "measure (\<lambda>(h, _). length h)") (simp_all add: length_pred_dropWhile)

declare ExtractCookie.simps [simp del]

section \<open>The service\<close>

record auth_env =
  drbg_random :: "nat \<Rightarrow> nat \<Rightarrow> u8 list option"
  pbkdf2_hmac :: "string \<Rightarrow> u8 list \<Rightarrow> int \<Rightarrow> u8 list option"

text \<open>\<open>drbg_random n len\<close> is the outcome of the \<open>n\<close>-th draw; \<^const>\<open>None\<close> is a non-zero mbedtls result.\<close>

record auth =
  auth_storage :: storage
  sessions :: "(string \<times> ms) list"
  failed_login_attempts :: int
  locked_until :: ms
  rng_draws :: nat

definition GenerateSalt :: "auth_env \<Rightarrow> 'x auth_scheme \<Rightarrow> u8 list option \<times> 'x auth_scheme" where
  "GenerateSalt E s = (drbg_random E (rng_draws s) kSaltBytes, s\<lparr>rng_draws := Suc (rng_draws s)\<rparr>)"

definition GenerateSessionToken :: "auth_env \<Rightarrow> 'x auth_scheme \<Rightarrow> string option \<times> 'x auth_scheme" where
  "GenerateSessionToken E s =
     (map_option ToHex (drbg_random E (rng_draws s) kSessionTokenBytes),
      s\<lparr>rng_draws := Suc (rng_draws s)\<rparr>)"

definition HashPasswordHex :: "auth_env \<Rightarrow> string \<Rightarrow> u8 list \<Rightarrow> int \<Rightarrow> string option" where
  "HashPasswordHex E password salt iterations = map_option ToHex (pbkdf2_hmac E password salt iterations)"

definition SweepExpiredSessions :: "ms \<Rightarrow> 'x auth_scheme \<Rightarrow> 'x auth_scheme" where
  "SweepExpiredSessions now s = s\<lparr>sessions := filter (\<lambda>(_, expiry). \<not> expiry \<le> now) (sessions s)\<rparr>"

definition IsPasswordSet :: "'x auth_scheme \<Rightarrow> bool" where
  "IsPasswordSet s \<longleftrightarrow> GetSecret (auth_storage s) auth_kModuleId kPasswordKey \<noteq> None"

definition ActiveSessionCountForTesting :: "'x auth_scheme \<Rightarrow> nat" where
  "ActiveSessionCountForTesting s = length (sessions s)"

text \<open>The tail both entry points share: sweep, draw a token, record its expiry.\<close>

definition issue_session :: "auth_env \<Rightarrow> ms \<Rightarrow> ms \<Rightarrow> 'x auth_scheme \<Rightarrow> string option \<times> 'x auth_scheme" where
  "issue_session E t_sweep t_issue s =
     (let (token, s2) = GenerateSessionToken E (SweepExpiredSessions t_sweep s)
      in case token of
           None \<Rightarrow> (None, s2)
         | Some tok \<Rightarrow> (Some tok, s2\<lparr>sessions := alist_put tok (t_issue + kSessionLifetime) (sessions s2)\<rparr>))"

definition encode_password_record :: "u8 list \<Rightarrow> string \<Rightarrow> string" where
  "encode_password_record salt hash_hex =
     ''pbkdf2-sha256$'' @ to_string kPbkdf2Iterations @ ''$'' @ ToHex salt @ ''$'' @ hash_hex"

definition SetInitialPassword ::
  "auth_env \<Rightarrow> ms \<Rightarrow> ms \<Rightarrow> string \<Rightarrow> 'x auth_scheme \<Rightarrow> string option \<times> 'x auth_scheme" where
  "SetInitialPassword E t_sweep t_issue password s =
     (if GetSecret (auth_storage s) auth_kModuleId kPasswordKey \<noteq> None then (None, s)
      else
        (let (salt_opt, s1) = GenerateSalt E s in
         case salt_opt of
           None \<Rightarrow> (None, s1)
         | Some salt \<Rightarrow>
             (case HashPasswordHex E password salt kPbkdf2Iterations of
                None \<Rightarrow> (None, s1)
              | Some hash_hex \<Rightarrow>
                  (let (ok, st) = SetSecret (auth_storage s1) auth_kModuleId kPasswordKey
                                    kPasswordSchemaVersion (encode_password_record salt hash_hex);
                       s2 = s1\<lparr>auth_storage := st\<rparr>
                   in if \<not> ok then (None, s2) else issue_session E t_sweep t_issue s2))))"

text \<open>
  Login's first locked section: \<open>t1\<close> is the reading compared with the lockout, \<open>t2\<close> the one a new
  lockout is counted from. \<^const>\<open>None\<close> is a call rejected while locked out; \<open>Some h\<close> is an
  admitted attempt that goes on to hash against \<open>h\<close>.
\<close>

definition login_begin ::
  "ms \<Rightarrow> ms \<Rightarrow> 'x auth_scheme \<Rightarrow> stored_password_hash option option \<times> 'x auth_scheme" where
  "login_begin t1 t2 s =
     (if t1 < locked_until s then (None, s)
      else
        (let n = failed_login_attempts s + 1;
             s1 = s\<lparr>failed_login_attempts := n\<rparr>;
             s2 = (if kMaxFailedLoginAttempts \<le> n
                   then s1\<lparr>locked_until := t2 + kLoginLockoutDuration\<rparr> else s1)
         in (Some (ParseStoredPasswordHash (GetSecret (auth_storage s2) auth_kModuleId kPasswordKey)), s2)))"

text \<open>The unlocked hash and compare.\<close>

definition login_verify :: "auth_env \<Rightarrow> string \<Rightarrow> stored_password_hash option \<Rightarrow> bool" where
  "login_verify E password stored =
     (case stored of
        None \<Rightarrow> False
      | Some h \<Rightarrow>
          (case HashPasswordHex E password (sp_salt h) (sp_iterations h) of
             None \<Rightarrow> False
           | Some hash_hex \<Rightarrow>
               (case FromHex hash_hex of
                  None \<Rightarrow> False
                | Some computed \<Rightarrow> ConstantTimeEquals computed (sp_hash h))))"

text \<open>Login's second locked section.\<close>

definition login_finish ::
  "auth_env \<Rightarrow> ms \<Rightarrow> ms \<Rightarrow> bool \<Rightarrow> 'x auth_scheme \<Rightarrow> string option \<times> 'x auth_scheme" where
  "login_finish E t_sweep t_issue authenticated s =
     (if \<not> authenticated then (None, s)
      else issue_session E t_sweep t_issue (s\<lparr>failed_login_attempts := 0, locked_until := 0\<rparr>))"

definition Login ::
  "auth_env \<Rightarrow> ms \<Rightarrow> ms \<Rightarrow> ms \<Rightarrow> ms \<Rightarrow> string \<Rightarrow> 'x auth_scheme \<Rightarrow> string option \<times> 'x auth_scheme" where
  "Login E t1 t2 t3 t4 password s =
     (let (started, s1) = login_begin t1 t2 s in
      case started of
        None \<Rightarrow> (None, s1)
      | Some stored \<Rightarrow> login_finish E t3 t4 (login_verify E password stored) s1)"

definition IsLoginLockedOut :: "ms \<Rightarrow> 'x auth_scheme \<Rightarrow> bool" where
  "IsLoginLockedOut now s \<longleftrightarrow> now < locked_until s"

text \<open>The linear scan: the verdict and the table, with the entry erased when it has expired.\<close>

fun validate_loop :: "ms \<Rightarrow> string \<Rightarrow> (string \<times> ms) list \<Rightarrow> bool \<times> (string \<times> ms) list" where
  "validate_loop now token [] = (False, [])"
| "validate_loop now token ((tok, expiry) # rest) =
     (if \<not> ConstantTimeEquals_string tok token
      then (let (v, rest') = validate_loop now token rest in (v, (tok, expiry) # rest'))
      else if expiry \<le> now then (False, rest)
      else (True, (tok, expiry) # rest))"

definition ValidateSession :: "ms \<Rightarrow> string \<Rightarrow> 'x auth_scheme \<Rightarrow> bool \<times> 'x auth_scheme" where
  "ValidateSession now token s =
     (let (v, ss) = validate_loop now token (sessions s) in (v, s\<lparr>sessions := ss\<rparr>))"

definition Logout :: "string \<Rightarrow> 'x auth_scheme \<Rightarrow> 'x auth_scheme" where
  "Logout token s = s\<lparr>sessions := filter (\<lambda>(tok, _). tok \<noteq> token) (sessions s)\<rparr>"

definition RequireAuth :: "ms \<Rightarrow> 'x auth_scheme handler \<Rightarrow> 'x auth_scheme handler" where
  "RequireAuth now inner request s =
     (if \<not> IsPasswordSet s then (json_response 403 ''{\"error\":\"setup_required\"}'', s)
      else
        (let token = (case cookie_header request of
                        None \<Rightarrow> None
                      | Some h \<Rightarrow> ExtractCookie h ''session'');
             (valid, s1) = (case token of None \<Rightarrow> (False, s) | Some t \<Rightarrow> ValidateSession now t s)
         in if \<not> valid then (json_response 401 ''{\"error\":\"unauthenticated\"}'', s1)
            else inner request s1))"

section \<open>Routes\<close>

definition SetCookieHeader :: "string \<Rightarrow> int \<Rightarrow> string" where
  "SetCookieHeader token max_age_seconds =
     ''session='' @ token @ ''; HttpOnly; SameSite=Strict; Path=/; Max-Age='' @ to_string max_age_seconds"

definition ReadPasswordField :: "json_lib \<Rightarrow> string \<Rightarrow> string option" where
  "ReadPasswordField L body =
     (case TryParseJsonObject L body of
        None \<Rightarrow> None
      | Some parsed \<Rightarrow> find_string ''password'' parsed)"

definition auth_status_route :: "json_lib \<Rightarrow> ms \<Rightarrow> 'x auth_scheme handler" where
  "auth_status_route L now request s =
     (let (authenticated, s1) =
            (case cookie_header request of
               None \<Rightarrow> (False, s)
             | Some h \<Rightarrow> (case ExtractCookie h ''session'' of
                             None \<Rightarrow> (False, s)
                           | Some t \<Rightarrow> ValidateSession now t s));
          body = jobj [(''passwordSet'', JBool (IsPasswordSet s1)), (''authenticated'', JBool authenticated)]
      in (json_response 200 (json_dump L body), s1))"

definition auth_setup_route :: "auth_env \<Rightarrow> json_lib \<Rightarrow> ms \<Rightarrow> ms \<Rightarrow> 'x auth_scheme handler" where
  "auth_setup_route E L t_sweep t_issue request s =
     (if IsPasswordSet s then (json_response 409 ''{\"error\":\"already_set\"}'', s)
      else
        (case ReadPasswordField L (req_body request) of
           None \<Rightarrow> (json_response 400 ''{\"error\":\"invalid_request\"}'', s)
         | Some password \<Rightarrow>
             if length password < kMinPasswordLength
             then (json_response 400 ''{\"error\":\"password_too_short\"}'', s)
             else if kMaxPasswordLength < length password
             then (json_response 400 ''{\"error\":\"password_too_long\"}'', s)
             else
               (let (token, s1) = SetInitialPassword E t_sweep t_issue password s in
                case token of
                  None \<Rightarrow>
                    if IsPasswordSet s1 then (json_response 409 ''{\"error\":\"already_set\"}'', s1)
                    else (json_response 500 ''{\"error\":\"storage_write_failed\"}'', s1)
                | Some tok \<Rightarrow>
                    (with_header ''Set-Cookie'' (SetCookieHeader tok kSessionLifetimeSeconds)
                       (json_response 200 ''{\"ok\":true}''), s1))))"

definition auth_login_route ::
  "auth_env \<Rightarrow> json_lib \<Rightarrow> ms \<Rightarrow> ms \<Rightarrow> ms \<Rightarrow> ms \<Rightarrow> ms \<Rightarrow> 'x auth_scheme handler" where
  "auth_login_route E L t0 t1 t2 t3 t4 request s =
     (if IsLoginLockedOut t0 s then (json_response 429 ''{\"error\":\"too_many_attempts\"}'', s)
      else
        (case ReadPasswordField L (req_body request) of
           None \<Rightarrow> (json_response 400 ''{\"error\":\"invalid_request\"}'', s)
         | Some password \<Rightarrow>
             if kMaxPasswordLength < length password
             then (json_response 400 ''{\"error\":\"password_too_long\"}'', s)
             else
               (let (token, s1) = Login E t1 t2 t3 t4 password s in
                case token of
                  None \<Rightarrow> (json_response 401 ''{\"error\":\"invalid_credentials\"}'', s1)
                | Some tok \<Rightarrow>
                    (with_header ''Set-Cookie'' (SetCookieHeader tok kSessionLifetimeSeconds)
                       (json_response 200 ''{\"ok\":true}''), s1))))"

definition auth_logout_route :: "'x auth_scheme handler" where
  "auth_logout_route request s =
     (let s1 = (case cookie_header request of
                  None \<Rightarrow> s
                | Some h \<Rightarrow> (case ExtractCookie h ''session'' of None \<Rightarrow> s | Some t \<Rightarrow> Logout t s))
      in (with_header ''Set-Cookie'' (SetCookieHeader '''' 0) (json_response 200 ''{\"ok\":true}''), s1))"

section \<open>Hex round trip\<close>

lemma not_space_hex_digit: "d < 16 \<Longrightarrow> \<not> c_isspace (hex_digit d)"
  by (auto simp: cpp_class byte_hex_digit)

lemma hex_digit_not_sign: "d < 16 \<Longrightarrow> hex_digit d \<noteq> CHR ''+'' \<and> hex_digit d \<noteq> CHR ''-''"
  using byte_hex_digit [of d] by (auto simp: byte_def split: if_splits)

lemma sscanf_2x_hex:
  "a < 16 \<Longrightarrow> b < 16 \<Longrightarrow> sscanf_2x (hex_digit a # hex_digit b # s) = Some (16 * a + b)"
  by (simp add: sscanf_2x_def not_space_hex_digit hex_digit_not_sign)

lemma length_ToHex [simp]: "length (ToHex bs) = 2 * length bs"
  by (induction bs) simp_all

lemma u8_high_nibble: "unat (b :: u8) div 16 < 16"
  using unat_u8_less [of b] by (simp add: less_mult_imp_div_less)

lemma from_hex_loop_ToHex: "from_hex_loop (length bs) (ToHex bs) = Some bs"
proof (induction bs)
  case (Cons b bs)
  have "16 * (unat b div 16) + unat b mod 16 = unat b" by simp
  with u8_high_nibble [of b] show ?case using Cons sscanf_2x_hex [of "unat b div 16" "unat b mod 16" "ToHex bs"] by simp
qed simp

lemma FromHex_ToHex: "bs \<noteq> [] \<Longrightarrow> FromHex (ToHex bs) = Some bs"
proof -
  assume "bs \<noteq> []"
  then have "ToHex bs \<noteq> []" by (cases bs) simp_all
  then show ?thesis using from_hex_loop_ToHex [of bs] by (simp add: FromHex_def)
qed

lemma hex_digit_not_dollar: "d < 16 \<Longrightarrow> hex_digit d \<noteq> CHR ''$''"
  using byte_hex_digit [of d] by (auto simp: byte_def split: if_splits)

lemma dollar_notin_ToHex: "CHR ''$'' \<notin> set (ToHex bs)"
proof (induction bs)
  case (Cons b bs)
  from Cons u8_high_nibble [of b] hex_digit_not_dollar [of "unat b div 16"] hex_digit_not_dollar [of "unat b mod 16"]
  show ?case by auto
qed simp

section \<open>Constant-time comparison is equality\<close>

lemma word_xor_eq_0: "(a XOR b = 0) \<longleftrightarrow> a = (b :: 'a::len word)"
  by (metis bit.xor_self xor.left_neutral xor.assoc bit.xor_cancel_left)

lemma diff_loop_zero:
  "length a = length b \<Longrightarrow> diff_loop d a b = 0 \<longleftrightarrow> d = 0 \<and> a = b"
proof (induction d a b rule: diff_loop.induct)
  case (1 diff a as b bs)
  have "diff OR (a XOR b) = 0 \<longleftrightarrow> diff = 0 \<and> a = b"
    by (simp add: or_eq_0_iff word_xor_eq_0)
  with 1 show ?case by auto
qed auto

lemma ConstantTimeEquals_iff: "ConstantTimeEquals a b \<longleftrightarrow> a = b"
  by (auto simp: ConstantTimeEquals_def diff_loop_zero)

lemma word_of_byte_inject: "(word_of_nat (byte c) :: u8) = word_of_nat (byte d) \<longleftrightarrow> c = d"
proof
  assume "(word_of_nat (byte c) :: u8) = word_of_nat (byte d)"
  then have "unat (word_of_nat (byte c) :: u8) = unat (word_of_nat (byte d) :: u8)" by simp
  then show "c = d" by (simp add: unat_of_nat)
qed simp

lemma ConstantTimeEquals_string_iff: "ConstantTimeEquals_string a b \<longleftrightarrow> a = b"
proof -
  have "map (\<lambda>c. word_of_nat (byte c) :: u8) a = map (\<lambda>c. word_of_nat (byte c)) b \<longleftrightarrow> a = b"
    by (rule inj_map_eq_map) (simp add: inj_def word_of_byte_inject)
  then show ?thesis by (auto simp: ConstantTimeEquals_string_def diff_loop_zero)
qed

section \<open>The stored hash round trip\<close>

lemma getline_dollar_sep: "CHR ''$'' \<notin> set a \<Longrightarrow> getline_dollar (a @ CHR ''$'' # r) = (a, r)"
  by (simp add: getline_dollar_def)

lemma getline_dollar_last: "CHR ''$'' \<notin> set a \<Longrightarrow> getline_dollar a = (a, [])"
  by (simp add: getline_dollar_def)

lemma dollar_notin_to_string: "CHR ''$'' \<notin> set (to_string v)"
  using to_string_chars [of "CHR ''$''" v] by (auto simp: cpp_class byte_def)

lemma ToHex_eq_Nil [simp]: "ToHex bs = [] \<longleftrightarrow> bs = []"
  by (cases bs) simp_all

lemma from_chars_kPbkdf2: "from_chars_uint32 (to_string kPbkdf2Iterations) = Some (kPbkdf2Iterations, [])"
  unfolding from_chars_uint32_def by (intro from_chars_to_string) (simp_all add: kPbkdf2Iterations_def)

lemma Parse_encode_password_record:
  assumes "salt \<noteq> []" "hash \<noteq> []" "vv_value vv = encode_password_record salt (ToHex hash)"
  shows "ParseStoredPasswordHash (Some vv) =
    Some \<lparr>sp_iterations = kPbkdf2Iterations, sp_salt = salt, sp_hash = hash\<rparr>"
proof -
  let ?alg = "''pbkdf2-sha256''"
  have "vv_value vv = ?alg @ CHR ''$'' # to_string kPbkdf2Iterations @ CHR ''$'' #
          ToHex salt @ CHR ''$'' # ToHex hash"
    using assms(3) by (simp add: encode_password_record_def)
  moreover have "CHR ''$'' \<notin> set ?alg" by simp
  ultimately show ?thesis
    using assms(1,2) from_chars_kPbkdf2
    by (simp add: ParseStoredPasswordHash_def getline_dollar_sep getline_dollar_last
        dollar_notin_to_string dollar_notin_ToHex FromHex_ToHex del: append_Cons append.simps)
       (simp add: kPbkdf2Iterations_def kMaxStoredPbkdf2Iterations_def)
qed

section \<open>Operations, fact by fact\<close>

text \<open>What the code relies on of mbedtls: a successful call fills the buffer it was given.\<close>

definition drbg_fills :: "auth_env \<Rightarrow> bool" where
  "drbg_fills E \<longleftrightarrow> (\<forall>n len bs. drbg_random E n len = Some bs \<longrightarrow> length bs = len)"

definition pbkdf2_fills :: "auth_env \<Rightarrow> bool" where
  "pbkdf2_fills E \<longleftrightarrow> (\<forall>pw salt it h. pbkdf2_hmac E pw salt it = Some h \<longrightarrow> length h = kHashBytes)"

definition live_session :: "ms \<Rightarrow> string \<Rightarrow> 'x auth_scheme \<Rightarrow> bool" where
  "live_session now tok s \<longleftrightarrow> (\<exists>e. map_of (sessions s) tok = Some e \<and> now < e)"

definition sessions_ok :: "'x auth_scheme \<Rightarrow> bool" where
  "sessions_ok s \<longleftrightarrow> distinct (map fst (sessions s))"

definition stored_password :: "'x auth_scheme \<Rightarrow> versioned_value option" where
  "stored_password s = GetSecret (auth_storage s) auth_kModuleId kPasswordKey"

lemma IsPasswordSet_iff: "IsPasswordSet s \<longleftrightarrow> stored_password s \<noteq> None"
  by (simp add: IsPasswordSet_def stored_password_def)

lemma issue_session_cases:
  "issue_session E a b s =
     (case drbg_random E (rng_draws s) kSessionTokenBytes of
        None \<Rightarrow> (None, (SweepExpiredSessions a s)\<lparr>rng_draws := Suc (rng_draws s)\<rparr>)
      | Some bs \<Rightarrow>
          (Some (ToHex bs),
           (SweepExpiredSessions a s)
             \<lparr>rng_draws := Suc (rng_draws s),
              sessions := alist_put (ToHex bs) (b + kSessionLifetime) (sessions (SweepExpiredSessions a s))\<rparr>))"
  by (auto simp: issue_session_def GenerateSessionToken_def SweepExpiredSessions_def Let_def
      split: option.splits)

lemma issue_session_frame [frame_simps]:
  "auth_storage (snd (issue_session E a b s)) = auth_storage s"
  "failed_login_attempts (snd (issue_session E a b s)) = failed_login_attempts s"
  "locked_until (snd (issue_session E a b s)) = locked_until s"
  by (auto simp: issue_session_cases SweepExpiredSessions_def split: option.splits)

lemma validate_loop_fst:
  "distinct (map fst ss) \<Longrightarrow> fst (validate_loop now tok ss) \<longleftrightarrow> (\<exists>e. map_of ss tok = Some e \<and> now < e)"
proof (induction now tok ss rule: validate_loop.induct)
  case (2 now token tok expiry rest)
  then show ?case by (auto simp: ConstantTimeEquals_string_iff Let_def split: prod.splits)
qed simp

lemma validate_loop_snd:
  "distinct (map fst ss) \<Longrightarrow>
   snd (validate_loop now tok ss) = filter (\<lambda>(t, e). t = tok \<longrightarrow> now < e) ss"
proof (induction now tok ss rule: validate_loop.induct)
  case (2 now token tok expiry rest)
  have keep: "token \<notin> fst ` set rest \<Longrightarrow> filter (\<lambda>(t, e). t = token \<longrightarrow> now < e) rest = rest"
    by (auto simp: filter_id_conv image_iff)
  show ?case
    using 2 keep by (auto simp: ConstantTimeEquals_string_iff Let_def split: prod.splits)
qed simp

lemma validate_loop_live: "fst (validate_loop now tok ss) \<Longrightarrow> snd (validate_loop now tok ss) = ss"
  by (induction now tok ss rule: validate_loop.induct) (auto simp: Let_def split: prod.splits if_splits)

lemma ValidateSession_valid:
  "sessions_ok s \<Longrightarrow> fst (ValidateSession now tok s) \<longleftrightarrow> live_session now tok s"
  by (simp add: ValidateSession_def live_session_def sessions_ok_def validate_loop_fst case_prod_beta)

lemma ValidateSession_state:
  "fst (ValidateSession now tok s) \<Longrightarrow> snd (ValidateSession now tok s) = s"
  by (simp add: ValidateSession_def validate_loop_live case_prod_beta)

lemma ValidateSession_frame [frame_simps]:
  "auth_storage (snd (ValidateSession now tok s)) = auth_storage s"
  "failed_login_attempts (snd (ValidateSession now tok s)) = failed_login_attempts s"
  "locked_until (snd (ValidateSession now tok s)) = locked_until s"
  by (simp_all add: ValidateSession_def case_prod_beta)

lemma Logout_frame [frame_simps]:
  "auth_storage (Logout tok s) = auth_storage s"
  "failed_login_attempts (Logout tok s) = failed_login_attempts s"
  "locked_until (Logout tok s) = locked_until s"
  by (simp_all add: Logout_def)

lemma login_begin_frame [frame_simps]:
  "auth_storage (snd (login_begin t1 t2 s)) = auth_storage s"
  "sessions (snd (login_begin t1 t2 s)) = sessions s"
  "rng_draws (snd (login_begin t1 t2 s)) = rng_draws s"
  by (simp_all add: login_begin_def Let_def)

lemma login_finish_frame [frame_simps]:
  "auth_storage (snd (login_finish E t3 t4 ok s)) = auth_storage s"
  by (simp add: login_finish_def issue_session_frame)

lemma Login_frame [frame_simps]: "auth_storage (snd (Login E t1 t2 t3 t4 pw s)) = auth_storage s"
  using login_begin_frame(1) [of t1 t2 s]
  by (auto simp: Login_def login_finish_frame split: prod.splits option.splits)

section \<open>The session table stays a table\<close>

lemma sessions_ok_issue: "sessions_ok s \<Longrightarrow> sessions_ok (snd (issue_session E a b s))"
  by (auto simp: sessions_ok_def issue_session_cases SweepExpiredSessions_def distinct_map_filter
      intro!: distinct_alist_put split: option.splits)

lemma sessions_ok_ValidateSession: "sessions_ok s \<Longrightarrow> sessions_ok (snd (ValidateSession now tok s))"
  by (simp add: sessions_ok_def ValidateSession_def case_prod_beta validate_loop_snd distinct_map_filter)

lemma sessions_ok_Logout: "sessions_ok s \<Longrightarrow> sessions_ok (Logout tok s)"
  by (simp add: sessions_ok_def Logout_def distinct_map_filter)

lemma sessions_ok_login_begin: "sessions_ok s \<Longrightarrow> sessions_ok (snd (login_begin t1 t2 s))"
  by (simp add: sessions_ok_def frame_simps)

lemma sessions_ok_login_finish: "sessions_ok s \<Longrightarrow> sessions_ok (snd (login_finish E t3 t4 ok s))"
  by (auto simp: login_finish_def sessions_ok_def intro!: sessions_ok_issue [unfolded sessions_ok_def])

lemma SetInitialPassword_cases:
  "SetInitialPassword E a b pw s =
     (if IsPasswordSet s then (None, s)
      else case drbg_random E (rng_draws s) kSaltBytes of
          None \<Rightarrow> (None, s\<lparr>rng_draws := Suc (rng_draws s)\<rparr>)
        | Some salt \<Rightarrow>
            (case pbkdf2_hmac E pw salt kPbkdf2Iterations of
               None \<Rightarrow> (None, s\<lparr>rng_draws := Suc (rng_draws s)\<rparr>)
             | Some h \<Rightarrow>
                 (let (ok, st) = SetSecret (auth_storage s) auth_kModuleId kPasswordKey
                        kPasswordSchemaVersion (encode_password_record salt (ToHex h));
                      s2 = s\<lparr>rng_draws := Suc (rng_draws s), auth_storage := st\<rparr>
                  in if ok then issue_session E a b s2 else (None, s2))))"
  by (auto simp: SetInitialPassword_def IsPasswordSet_def GenerateSalt_def HashPasswordHex_def Let_def
      split: option.splits prod.splits)

lemma sessions_ok_SetInitialPassword:
  "sessions_ok s \<Longrightarrow> sessions_ok (snd (SetInitialPassword E a b pw s))"
  unfolding SetInitialPassword_cases
  by (auto simp: Let_def sessions_ok_def split: option.splits prod.splits
      intro!: sessions_ok_issue [unfolded sessions_ok_def])

section \<open>Cookie headers\<close>

text \<open>The header a browser sends for a list of cookies (RFC 6265): pairs joined by a semicolon and a blank.\<close>

fun cookie_text :: "(string \<times> string) list \<Rightarrow> string" where
  "cookie_text [] = []"
| "cookie_text [(k, v)] = k @ CHR ''='' # v"
| "cookie_text ((k, v) # p # ps) = (k @ CHR ''='' # v) @ CHR '';'' # CHR '' '' # cookie_text (p # ps)"

definition cookie_pair_ok :: "string \<times> string \<Rightarrow> bool" where
  "cookie_pair_ok p \<longleftrightarrow>
     fst p \<noteq> [] \<and> hd (fst p) \<noteq> CHR '' '' \<and> CHR ''='' \<notin> set (fst p) \<and> CHR '';'' \<notin> set (fst p) \<and>
     CHR '';'' \<notin> set (snd p)"

lemma dropWhile_blanks:
  "k \<noteq> [] \<Longrightarrow> hd k \<noteq> CHR '' '' \<Longrightarrow> set sp \<subseteq> {CHR '' ''} \<Longrightarrow> dropWhile (\<lambda>c. c = CHR '' '') (sp @ k) = k"
  by (induction sp) (auto simp: neq_Nil_conv)

lemma ExtractCookie_one:
  assumes "cookie_pair_ok (k, v)" "set sp \<subseteq> {CHR '' ''}"
  shows "ExtractCookie (sp @ k @ CHR ''='' # v) name = (if k = name then Some v else None)"
    and "ExtractCookie (sp @ (k @ CHR ''='' # v) @ CHR '';'' # rest) name =
           (if k = name then Some v else ExtractCookie rest name)"
proof -
  have eq: "CHR ''='' \<notin> set (sp @ k)" and semi: "CHR '';'' \<notin> set (sp @ k @ CHR ''='' # v)"
    using assms by (auto simp: cookie_pair_ok_def)
  have find: "find_char CHR ''='' (sp @ k @ CHR ''='' # v) = Some (length (sp @ k))"
    using find_char_append [OF eq, of v] by simp
  have key: "dropWhile (\<lambda>c. c = CHR '' '') (sp @ k) = k" and ne: "k \<noteq> []"
    using assms by (auto simp: cookie_pair_ok_def dropWhile_blanks)
  have cut: "take (length (sp @ k)) (sp @ k @ CHR ''='' # v) = sp @ k"
    "drop (length (sp @ k) + 1) (sp @ k @ CHR ''='' # v) = v" by simp_all
  show "ExtractCookie (sp @ k @ CHR ''='' # v) name = (if k = name then Some v else None)"
    unfolding ExtractCookie.simps [of "sp @ k @ CHR ''='' # v"] takeWhile_no_sep [OF semi]
      dropWhile_no_sep [OF semi] Let_def find option.case cut key
    using ne by simp
  have t: "takeWhile (\<lambda>c. c \<noteq> CHR '';'') (sp @ (k @ CHR ''='' # v) @ CHR '';'' # rest) = sp @ k @ CHR ''='' # v"
    "dropWhile (\<lambda>c. c \<noteq> CHR '';'') (sp @ (k @ CHR ''='' # v) @ CHR '';'' # rest) = CHR '';'' # rest"
    using takeWhile_until [OF semi, of rest] dropWhile_until [OF semi, of rest] by simp_all
  show "ExtractCookie (sp @ (k @ CHR ''='' # v) @ CHR '';'' # rest) name =
           (if k = name then Some v else ExtractCookie rest name)"
    unfolding ExtractCookie.simps [of "sp @ (k @ CHR ''='' # v) @ CHR '';'' # rest"] t
      Let_def find option.case cut key
    using ne by simp
qed

lemma ExtractCookie_text_blank:
  "list_all cookie_pair_ok ps \<Longrightarrow> set sp \<subseteq> {CHR '' ''} \<Longrightarrow>
   ExtractCookie (sp @ cookie_text ps) name = map_of ps name"
proof (induction ps arbitrary: sp rule: cookie_text.induct)
  case 1
  then show ?case
  proof (cases sp)
    case (Cons c sp')
    with 1 have "CHR ''='' \<notin> set sp" "CHR '';'' \<notin> set sp" by auto
    then show ?thesis by (subst ExtractCookie.simps) (simp add: Let_def find_char_None [THEN iffD2])
  qed (simp add: ExtractCookie.simps)
next
  case (2 k v)
  then show ?case using ExtractCookie_one(1) [of k v sp name] by simp
next
  case (3 k v p ps)
  have "ExtractCookie (CHR '' '' # cookie_text (p # ps)) name = map_of (p # ps) name"
    using 3 by (metis append_Cons append_Nil insert_is_Un list.pred_inject(2) list.set(1,2) subset_refl)
  with 3 show ?case
    using ExtractCookie_one(2) [of k v sp "CHR '' '' # cookie_text (p # ps)" name]
    by (auto simp del: append_assoc)
qed

text \<open>
  Looking a cookie up in any well-formed Cookie header finds the first pair of that name and nothing
  else: \<open>ExtractCookie\<close> is the association-list lookup, so another cookie in front of, or a name
  that merely contains, \<open>session\<close> never shadows the session token.
\<close>

lemma ExtractCookie_text:
  assumes "list_all cookie_pair_ok ps"
  shows "ExtractCookie (cookie_text ps) name = map_of ps name"
  using ExtractCookie_text_blank [OF assms, of "[]" name] by simp

section \<open>Authentication\<close>

lemma login_verify_iff:
  "login_verify E pw stored \<longleftrightarrow>
     (\<exists>h. stored = Some h \<and> sp_hash h \<noteq> [] \<and> pbkdf2_hmac E pw (sp_salt h) (sp_iterations h) = Some (sp_hash h))"
proof -
  have "FromHex (ToHex x) = (if x = [] then None else Some x)" for x
    by (cases "x = []") (simp_all add: FromHex_ToHex, simp add: FromHex_def)
  then show ?thesis
    by (auto simp: login_verify_def HashPasswordHex_def ConstantTimeEquals_iff split: option.splits)
qed

text \<open>
  A login succeeds exactly when the service is not locked out, the stored record parses, the key
  derived from the submitted password with the record's own salt and iteration count equals the
  stored hash, and the generator delivers a token; the token returned is that draw in hexadecimal.
\<close>

lemma Login_succeeds_iff:
  "fst (Login E t1 t2 t3 t4 pw s) = Some tok \<longleftrightarrow>
     locked_until s \<le> t1 \<and>
     (\<exists>h. ParseStoredPasswordHash (stored_password s) = Some h \<and> sp_hash h \<noteq> [] \<and>
          pbkdf2_hmac E pw (sp_salt h) (sp_iterations h) = Some (sp_hash h)) \<and>
     (\<exists>bs. drbg_random E (rng_draws s) kSessionTokenBytes = Some bs \<and> tok = ToHex bs)"
  unfolding Login_def login_begin_def login_finish_def
  by (auto simp: Let_def login_verify_iff issue_session_cases stored_password_def split: option.splits if_splits)

lemma SetInitialPassword_success:
  assumes "SetInitialPassword E a b pw s = (Some tok, s1)"
  obtains salt h where "\<not> IsPasswordSet s" "drbg_random E (rng_draws s) kSaltBytes = Some salt"
    "pbkdf2_hmac E pw salt kPbkdf2Iterations = Some h"
    "fst (SetSecret (auth_storage s) auth_kModuleId kPasswordKey kPasswordSchemaVersion
        (encode_password_record salt (ToHex h)))"
    "auth_storage s1 = snd (SetSecret (auth_storage s) auth_kModuleId kPasswordKey
        kPasswordSchemaVersion (encode_password_record salt (ToHex h)))"
proof -
  from assms obtain salt h ok st where *: "\<not> IsPasswordSet s" "drbg_random E (rng_draws s) kSaltBytes = Some salt"
    "pbkdf2_hmac E pw salt kPbkdf2Iterations = Some h"
    "SetSecret (auth_storage s) auth_kModuleId kPasswordKey kPasswordSchemaVersion
        (encode_password_record salt (ToHex h)) = (ok, st)" "ok"
    "issue_session E a b (s\<lparr>rng_draws := Suc (rng_draws s), auth_storage := st\<rparr>) = (Some tok, s1)"
    unfolding SetInitialPassword_cases by (auto simp: Let_def split: if_splits option.splits prod.splits)
  moreover have "auth_storage s1 = st"
    using *(6) issue_session_frame(1) by (metis snd_conv auth.surjective auth.update_convs auth.select_convs(1))
  ultimately show ?thesis using that by simp
qed

lemma setup_record:
  assumes "drbg_fills E" "pbkdf2_fills E" "SetInitialPassword E a b pw s = (Some tok, s1)"
  obtains h where "ParseStoredPasswordHash (stored_password s1) = Some h" "sp_hash h \<noteq> []"
    "pbkdf2_hmac E pw (sp_salt h) (sp_iterations h) = Some (sp_hash h)"
proof -
  obtain salt h where *: "drbg_random E (rng_draws s) kSaltBytes = Some salt"
    "pbkdf2_hmac E pw salt kPbkdf2Iterations = Some h"
    "fst (SetSecret (auth_storage s) auth_kModuleId kPasswordKey kPasswordSchemaVersion
        (encode_password_record salt (ToHex h)))"
    "auth_storage s1 = snd (SetSecret (auth_storage s) auth_kModuleId kPasswordKey
        kPasswordSchemaVersion (encode_password_record salt (ToHex h)))"
    using SetInitialPassword_success [OF assms(3)] by metis
  have "stored_password s1 = Some \<lparr>schema_version = kPasswordSchemaVersion,
      vv_value = encode_password_record salt (ToHex h)\<rparr>"
    unfolding stored_password_def *(4)
    by (rule GetSecret_SetSecret) (use *(3) in \<open>auto simp: int32_range_def kPasswordSchemaVersion_def prod_eq_iff\<close>)
  moreover have ne: "salt \<noteq> []" "h \<noteq> []"
    using assms(1,2) *(1,2) by (fastforce simp: drbg_fills_def pbkdf2_fills_def kSaltBytes_def kHashBytes_def)+
  ultimately have "ParseStoredPasswordHash (stored_password s1) =
      Some \<lparr>sp_iterations = kPbkdf2Iterations, sp_salt = salt, sp_hash = h\<rparr>"
    by (simp add: Parse_encode_password_record)
  with *(2) ne show ?thesis using that by simp
qed

lemma login_issues_session:
  assumes "fst (Login E t1 t2 t3 t4 pw s) = Some tok" "Login E t1 t2 t3 t4 pw s = (r, s')"
  shows "failed_login_attempts s' = 0 \<and> locked_until s' = 0 \<and>
         map_of (sessions s') tok = Some (t4 + kSessionLifetime)"
  using assms unfolding Login_def login_finish_def issue_session_cases
  by (auto simp: Let_def SweepExpiredSessions_def split: option.splits if_splits prod.splits)

lemma sessions_ok_Login: "sessions_ok s \<Longrightarrow> sessions_ok (snd (Login E t1 t2 t3 t4 pw s))"
  using sessions_ok_login_begin [of s t1 t2]
  by (auto simp: Login_def split: prod.splits option.splits intro: sessions_ok_login_finish)

text \<open>
  C31: First-run setup and login agree. Suppose PBKDF2 and the random generator fill the lengths they are asked for.
  Once \<open>SetInitialPassword\<close> has returned a token, a login with the same password on any later state that
  still has that storage and is not locked out, in which the random generator answers the request for a
  token, returns that token in hexadecimal, resets the failure counter and the lockout, and the token
  validates at every time in the session lifetime.
  (The session table of the later state has one entry per token, which every operation keeps.)
\<close>

theorem setup_then_login:
  assumes "drbg_fills E" "pbkdf2_fills E"
    and "SetInitialPassword E a b pw s = (Some tok, s1)"
    and "auth_storage s' = auth_storage s1" "sessions_ok s'" "locked_until s' \<le> t1"
    and "drbg_random E (rng_draws s') kSessionTokenBytes = Some bs"
    and "t < t4 + kSessionLifetime"
  shows "fst (Login E t1 t2 t3 t4 pw s') = Some (ToHex bs) \<and>
         failed_login_attempts (snd (Login E t1 t2 t3 t4 pw s')) = 0 \<and>
         locked_until (snd (Login E t1 t2 t3 t4 pw s')) = 0 \<and>
         fst (ValidateSession t (ToHex bs) (snd (Login E t1 t2 t3 t4 pw s')))"
proof -
  obtain h where h: "ParseStoredPasswordHash (stored_password s1) = Some h" "sp_hash h \<noteq> []"
    "pbkdf2_hmac E pw (sp_salt h) (sp_iterations h) = Some (sp_hash h)"
    using setup_record [OF assms(1-3)] by metis
  have "stored_password s' = stored_password s1" using assms(4) by (simp add: stored_password_def)
  with h assms(6,7) have ok: "fst (Login E t1 t2 t3 t4 pw s') = Some (ToHex bs)"
    unfolding Login_def login_begin_def login_finish_def
    by (auto simp: Let_def login_verify_iff issue_session_cases stored_password_def split: option.splits)
  note issued = login_issues_session [OF ok prod.collapse [symmetric]]
  have "live_session t (ToHex bs) (snd (Login E t1 t2 t3 t4 pw s'))"
    using issued assms(8) by (simp add: live_session_def)
  with ok issued sessions_ok_Login [OF assms(5)] show ?thesis by (simp add: ValidateSession_valid)
qed

definition req_token :: "http_request \<Rightarrow> string option" where
  "req_token request = (case cookie_header request of None \<Rightarrow> None | Some h \<Rightarrow> ExtractCookie h ''session'')"

text \<open>
  The guard in front of every protected route: the inner handler runs exactly when a password is set
  and the request's session cookie names a session of the table that has not expired, and then on
  the unchanged service state; otherwise the answer is 403 before setup and 401 after it, and the
  only state change is the removal of the presented session when it has expired.
\<close>

lemma RequireAuth_guards:
  assumes "sessions_ok s"
  shows "RequireAuth now inner request s =
    (if \<not> IsPasswordSet s then (json_response 403 ''{\"error\":\"setup_required\"}'', s)
     else case req_token request of
         None \<Rightarrow> (json_response 401 ''{\"error\":\"unauthenticated\"}'', s)
       | Some tok \<Rightarrow>
           if live_session now tok s then inner request s
           else (json_response 401 ''{\"error\":\"unauthenticated\"}'',
                 s\<lparr>sessions := filter (\<lambda>(t, e). t = tok \<longrightarrow> now < e) (sessions s)\<rparr>))"
proof (cases "req_token request")
  case None
  then show ?thesis by (simp add: RequireAuth_def req_token_def split: option.splits)
next
  case (Some tok)
  have v: "ValidateSession now tok s =
      (live_session now tok s, s\<lparr>sessions := filter (\<lambda>(t, e). t = tok \<longrightarrow> now < e) (sessions s)\<rparr>)"
    using assms by (simp add: ValidateSession_def case_prod_beta validate_loop_fst validate_loop_snd
        sessions_ok_def live_session_def)
  have keep: "live_session now tok s \<Longrightarrow> snd (ValidateSession now tok s) = s"
    using ValidateSession_state ValidateSession_valid [OF assms] by blast
  show ?thesis
    using Some v keep by (auto simp: RequireAuth_def req_token_def Let_def split: option.splits)
qed

section \<open>A concrete service\<close>

text \<open>A generator and a key derivation function that can be evaluated, and a fresh service over empty stores.\<close>

definition sample_env :: auth_env where
  "sample_env =
     \<lparr>drbg_random = \<lambda>n len. Some (replicate len (word_of_nat n)),
      pbkdf2_hmac = \<lambda>pw salt it. Some (take kHashBytes (map (\<lambda>c. word_of_nat (byte c)) pw @ replicate kHashBytes 7))\<rparr>"

definition empty_store :: host_store where
  "empty_store = \<lparr>files = [], write_io = \<lambda>_ _. IoOk, erase_error = \<lambda>_ _. False\<rparr>"

definition empty_storage :: storage where
  "empty_storage = \<lparr>settings_store = empty_store, cache_store = empty_store, secret_store = empty_store\<rparr>"

definition fresh_auth :: auth where
  "fresh_auth = \<lparr>auth_storage = empty_storage, sessions = [], failed_login_attempts = 0, locked_until = 0,
                 rng_draws = 0\<rparr>"

lemma sample_env_fills: "drbg_fills sample_env \<and> pbkdf2_fills sample_env"
  by (auto simp: sample_env_def drbg_fills_def pbkdf2_fills_def kHashBytes_def)

lemma valid_password_segments: "IsValidStoreSegment auth_kModuleId \<and> IsValidStoreSegment kPasswordKey"
  by (simp add: IsValidStoreSegment_iff auth_kModuleId_def kPasswordKey_def)

lemma fresh_not_set: "\<not> IsPasswordSet fresh_auth"
  by (simp add: IsPasswordSet_def fresh_auth_def empty_storage_def empty_store_def GetSecret_def
      DecodeIfPresent_def host_store_defs)

lemma fresh_setup: "fst (SetInitialPassword sample_env a b pw fresh_auth) = Some (ToHex (replicate 32 1))"
  using fresh_not_set valid_password_segments
  by (simp add: SetInitialPassword_cases SetSecret_def HostSecretStore_Set_def WriteFile_def sample_env_def
      fresh_auth_def empty_storage_def empty_store_def issue_session_cases kSessionTokenBytes_def Let_def)

lemma fresh_setup_sessions_ok: "sessions_ok (snd (SetInitialPassword sample_env a b pw fresh_auth))"
  by (rule sessions_ok_SetInitialPassword) (simp add: sessions_ok_def fresh_auth_def)

lemma fresh_setup_unlocked: "locked_until (snd (SetInitialPassword sample_env a b pw fresh_auth)) = 0"
  by (auto simp: SetInitialPassword_cases fresh_auth_def issue_session_frame Let_def split: option.splits prod.splits)

definition after_setup :: auth where
  "after_setup = snd (SetInitialPassword sample_env 0 0 ''correct horse'' fresh_auth)"

lemma after_setup_eq: "SetInitialPassword sample_env 0 0 ''correct horse'' fresh_auth = (Some (ToHex (replicate 32 1)), after_setup)"
  using fresh_setup [of 0 0 "''correct horse''"] by (simp add: after_setup_def prod_eq_iff)

theorem setup_then_login_witness:
  "\<exists>bs. fst (Login sample_env 10 20 30 40 ''correct horse'' after_setup) = Some (ToHex bs) \<and>
        fst (ValidateSession 86400039 (ToHex bs) (snd (Login sample_env 10 20 30 40 ''correct horse'' after_setup)))"
  using setup_then_login [of sample_env 0 0 "''correct horse''" fresh_auth "ToHex (replicate 32 1)" after_setup
      after_setup 10 "replicate kSessionTokenBytes (word_of_nat (rng_draws after_setup))" 86400039 40 20 30]
    sample_env_fills after_setup_eq fresh_setup_sessions_ok [of 0 0 "''correct horse''"]
    fresh_setup_unlocked [of 0 0 "''correct horse''"]
  by (auto simp: after_setup_def sample_env_def kSessionLifetime_def)

lemma after_setup_password: "IsPasswordSet after_setup"
  using setup_record [OF _ _ after_setup_eq] sample_env_fills
  by (fastforce simp: IsPasswordSet_iff ParseStoredPasswordHash_def)

section \<open>Setup happens once\<close>

text \<open>
  The first-run setup route never replaces a password: once one is stored it answers 409 and leaves
  the whole state alone, whatever the request says; and when it answers 200 there was no password
  before and there is one after.
\<close>

lemma setup_route_once:
  assumes "auth_setup_route E L a b request s = (resp, s')"
  shows "(IsPasswordSet s \<longrightarrow> status_code resp = 409 \<and> s' = s) \<and>
         (status_code resp = 200 \<longrightarrow> drbg_fills E \<and> pbkdf2_fills E \<longrightarrow> \<not> IsPasswordSet s \<and> IsPasswordSet s')"
proof (intro conjI impI)
  show "status_code resp = 409" "s' = s" if "IsPasswordSet s"
    using assms that by (auto simp: auth_setup_route_def)
  assume ok: "status_code resp = 200" "drbg_fills E \<and> pbkdf2_fills E"
  then obtain pw tok where set: "SetInitialPassword E a b pw s = (Some tok, s')"
    using assms by (auto simp: auth_setup_route_def split: if_splits option.splits prod.splits)
  then show "\<not> IsPasswordSet s" by (auto simp: SetInitialPassword_cases split: if_splits)
  show "IsPasswordSet s'"
    using setup_record [OF _ _ set] ok by (fastforce simp: IsPasswordSet_iff ParseStoredPasswordHash_def)
qed

end
