(* ===== verification/Auth_Concurrency.thy ===== *)
theory Auth_Concurrency
  imports Auth
begin

text \<open>
  The admin-auth service under concurrent HTTP workers. Each locked section of
  \<^verbatim>\<open>src/core/admin_auth_service.cpp\<close> is one atomic step; a login is two steps with the hash in
  between, so any number of logins can be in flight. The clock never runs backwards and every reading
  a section makes is at least the previous one.

  The world carries two pieces of bookkeeping the code does not have: the logins between their two
  sections, and the times of the attempts admitted since the last successful login.
\<close>

record auth_world =
  svc :: auth
  clock :: ms
  in_flight :: "(string \<times> stored_password_hash option) list"
  admitted :: "ms list"

inductive auth_step :: "auth_env \<Rightarrow> auth_world \<Rightarrow> auth_world \<Rightarrow> bool" for E where
  tick: "clock w \<le> t \<Longrightarrow> auth_step E w (w\<lparr>clock := t\<rparr>)"
| login_admitted:
    "clock w \<le> t1 \<Longrightarrow> t1 \<le> t2 \<Longrightarrow> login_begin t1 t2 (svc w) = (Some h, s') \<Longrightarrow>
     auth_step E w (w\<lparr>svc := s', clock := t2, in_flight := (pw, h) # in_flight w,
                      admitted := admitted w @ [t1]\<rparr>)"
| login_rejected:
    "clock w \<le> t1 \<Longrightarrow> login_begin t1 t2 (svc w) = (None, s') \<Longrightarrow>
     auth_step E w (w\<lparr>svc := s', clock := t1\<rparr>)"
| login_failed:
    "p \<in> set (in_flight w) \<Longrightarrow> \<not> login_verify E (fst p) (snd p) \<Longrightarrow>
     login_finish E t3 t4 False (svc w) = (r, s') \<Longrightarrow>
     auth_step E w (w\<lparr>svc := s', in_flight := remove1 p (in_flight w)\<rparr>)"
| login_succeeded:
    "p \<in> set (in_flight w) \<Longrightarrow> login_verify E (fst p) (snd p) \<Longrightarrow>
     clock w \<le> t3 \<Longrightarrow> t3 \<le> t4 \<Longrightarrow> login_finish E t3 t4 True (svc w) = (r, s') \<Longrightarrow>
     auth_step E w (w\<lparr>svc := s', clock := t4, in_flight := remove1 p (in_flight w), admitted := []\<rparr>)"
| set_password:
    "clock w \<le> t3 \<Longrightarrow> t3 \<le> t4 \<Longrightarrow> SetInitialPassword E t3 t4 pw (svc w) = (r, s') \<Longrightarrow>
     auth_step E w (w\<lparr>svc := s', clock := t4\<rparr>)"
| validate:
    "clock w \<le> t \<Longrightarrow> ValidateSession t tok (svc w) = (v, s') \<Longrightarrow>
     auth_step E w (w\<lparr>svc := s', clock := t\<rparr>)"
| logout: "auth_step E w (w\<lparr>svc := Logout tok (svc w)\<rparr>)"

definition auth_initial :: "auth_world \<Rightarrow> bool" where
  "auth_initial w \<longleftrightarrow>
     sessions (svc w) = [] \<and> failed_login_attempts (svc w) = 0 \<and> locked_until (svc w) = 0 \<and>
     in_flight w = [] \<and> admitted w = []"

definition auth_reachable :: "auth_env \<Rightarrow> auth_world \<Rightarrow> bool" where
  "auth_reachable E w \<longleftrightarrow> (\<exists>w0. auth_initial w0 \<and> (auth_step E)\<^sup>*\<^sup>* w0 w)"

section \<open>Spaced times\<close>

text \<open>Consecutive entries lie at least \<open>d\<close> apart.\<close>

fun spaced :: "int \<Rightarrow> int list \<Rightarrow> bool" where
  "spaced d [] = True"
| "spaced d [x] = True"
| "spaced d (x # y # zs) = (x + d \<le> y \<and> spaced d (y # zs))"

lemma spaced_tl: "spaced d (x # xs) \<Longrightarrow> spaced d xs"
  by (cases xs) auto

lemma spaced_lower: "spaced d (x # xs) \<Longrightarrow> 0 \<le> d \<Longrightarrow> y \<in> set xs \<Longrightarrow> x + d \<le> y"
proof (induction xs arbitrary: x)
  case (Cons z zs)
  then show ?case by fastforce
qed simp

lemma spaced_snoc: "spaced d xs \<Longrightarrow> xs = [] \<or> last xs + d \<le> x \<Longrightarrow> spaced d (xs @ [x])"
  by (induction d xs rule: spaced.induct) auto

lemma length_filter_imp:
  "(\<And>x. x \<in> set xs \<Longrightarrow> P x \<Longrightarrow> Q x) \<Longrightarrow> length (filter P xs) \<le> length (filter Q xs)"
  by (induction xs) auto

lemma spaced_window:
  assumes "spaced d xs" "0 < d"
  shows "length (filter (\<lambda>t. a \<le> t \<and> t < a + d * int k) xs) \<le> k"
  using assms(1)
proof (induction xs arbitrary: a k)
  case (Cons x xs)
  have IH: "length (filter (\<lambda>t. b \<le> t \<and> t < b + d * int m) xs) \<le> m" for b m
    using Cons.IH spaced_tl [OF Cons.prems] .
  show ?case
  proof (cases "a \<le> x \<and> x < a + d * int k")
    case False
    then show ?thesis using IH [of a k] by auto
  next
    case True
    then have "0 < k" using assms(2) by (cases k) auto
    then obtain m where k: "k = Suc m" by (cases k) auto
    let ?b = "x + d"
    have "length (filter (\<lambda>t. a \<le> t \<and> t < a + d * int k) xs) \<le>
          length (filter (\<lambda>t. ?b \<le> t \<and> t < ?b + d * int m) xs)"
      by (rule length_filter_imp) (use spaced_lower [OF Cons.prems] True assms(2) in \<open>auto simp: k algebra_simps\<close>)
    with IH [of ?b m] have "length (filter (\<lambda>t. a \<le> t \<and> t < a + d * int k) xs) \<le> m" by simp
    then show ?thesis using True k by simp
  qed
qed simp

section \<open>The invariant\<close>

definition auth_inv :: "auth_world \<Rightarrow> bool" where
  "auth_inv w \<longleftrightarrow>
     sessions_ok (svc w) \<and>
     (\<forall>(tok, e) \<in> set (sessions (svc w)). e \<le> clock w + kSessionLifetime) \<and>
     failed_login_attempts (svc w) = int (length (admitted w)) \<and>
     (5 \<le> length (admitted w) \<longrightarrow> last (admitted w) + kLoginLockoutDuration \<le> locked_until (svc w)) \<and>
     spaced kLoginLockoutDuration (drop 4 (admitted w))"

lemma auth_inv_initial: "auth_initial w \<Longrightarrow> auth_inv w"
  by (simp add: auth_initial_def auth_inv_def sessions_ok_def)

definition expiries_within :: "ms \<Rightarrow> auth \<Rightarrow> bool" where
  "expiries_within t s \<longleftrightarrow> (\<forall>(tok, e) \<in> set (sessions s). e \<le> t + kSessionLifetime)"

lemma expiries_within_mono: "expiries_within t s \<Longrightarrow> t \<le> t' \<Longrightarrow> expiries_within t' s"
  by (fastforce simp: expiries_within_def)

lemma set_alist_put: "set (alist_put k v m) \<subseteq> insert (k, v) (set m)"
  by (induction m rule: alist_put.induct) auto

lemma expiries_issue:
  "expiries_within t s \<Longrightarrow> t \<le> b \<Longrightarrow> expiries_within b (snd (issue_session E a b s))"
  using set_alist_put
  by (fastforce simp: expiries_within_def issue_session_cases SweepExpiredSessions_def split: option.splits)

lemma auth_inv_alt:
  "auth_inv w \<longleftrightarrow> sessions_ok (svc w) \<and> expiries_within (clock w) (svc w) \<and>
     failed_login_attempts (svc w) = int (length (admitted w)) \<and>
     (5 \<le> length (admitted w) \<longrightarrow> last (admitted w) + kLoginLockoutDuration \<le> locked_until (svc w)) \<and>
     spaced kLoginLockoutDuration (drop 4 (admitted w))"
  by (auto simp: auth_inv_def expiries_within_def)


lemma auth_inv_login_admitted:
  assumes inv: "auth_inv w" and t: "clock w \<le> t1" "t1 \<le> t2"
    and lb: "login_begin t1 t2 (svc w) = (Some h, s')"
  shows "auth_inv (w\<lparr>svc := s', clock := t2, in_flight := f, admitted := admitted w @ [t1]\<rparr>)"
proof -
  let ?n = "length (admitted w)"
  have free: "locked_until (svc w) \<le> t1" and fail: "failed_login_attempts s' = int ?n + 1"
    and lock: "5 \<le> Suc ?n \<longrightarrow> locked_until s' = t2 + kLoginLockoutDuration"
    and keep: "sessions s' = sessions (svc w)"
    using lb inv by (auto simp: login_begin_def auth_inv_def Let_def kMaxFailedLoginAttempts_def split: if_splits)
  have "spaced kLoginLockoutDuration (drop 4 (admitted w @ [t1]))"
  proof (cases "5 \<le> ?n")
    case True
    then have "last (drop 4 (admitted w)) + kLoginLockoutDuration \<le> t1"
      using inv free by (simp add: auth_inv_def)
    then show ?thesis using inv True by (simp add: auth_inv_def spaced_snoc)
  next
    case False
    then have "?n \<le> 4" by simp
    then have "drop 4 (admitted w) = []" "length (drop (4 - ?n) [t1]) \<le> 1" by simp_all
    then show ?thesis by (cases "drop (4 - ?n) [t1]") auto
  qed
  moreover have "sessions_ok s'" "expiries_within t2 s'"
    using inv t keep expiries_within_mono [of "clock w" "svc w" t2]
    by (auto simp: auth_inv_alt sessions_ok_def expiries_within_def)
  ultimately show ?thesis using fail lock t by (simp add: auth_inv_alt)
qed

lemma auth_inv_cong:
  assumes "auth_inv w" "sessions_ok s'" "expiries_within t s'"
    "failed_login_attempts s' = failed_login_attempts (svc w)" "locked_until s' = locked_until (svc w)"
  shows "auth_inv (w\<lparr>svc := s', clock := t, in_flight := f\<rparr>)"
  using assms by (simp add: auth_inv_alt)

lemma expiries_within_subset: "expiries_within t s \<Longrightarrow> set (sessions s') \<subseteq> set (sessions s) \<Longrightarrow> expiries_within t s'"
  by (auto simp: expiries_within_def)

lemma SetInitialPassword_frame [frame_simps]:
  "failed_login_attempts (snd (SetInitialPassword E a b pw s)) = failed_login_attempts s"
  "locked_until (snd (SetInitialPassword E a b pw s)) = locked_until s"
  by (auto simp: SetInitialPassword_cases Let_def issue_session_frame split: option.splits prod.splits)

lemma expiries_SetInitialPassword:
  assumes "expiries_within t s" "t \<le> b"
  shows "expiries_within b (snd (SetInitialPassword E a b pw s))"
proof -
  have same: "expiries_within b (s\<lparr>rng_draws := n, auth_storage := st\<rparr>)" "expiries_within b (s\<lparr>rng_draws := n\<rparr>)" for n st
    using expiries_within_mono [OF assms] by (simp_all add: expiries_within_def)
  have "expiries_within b (snd (issue_session E a b (s\<lparr>rng_draws := n, auth_storage := st\<rparr>)))" for n st
    using expiries_issue [OF same(1)] by simp
  with same expiries_within_mono [OF assms] show ?thesis
    by (simp add: SetInitialPassword_cases Let_def split: option.splits prod.splits)
qed

lemma ValidateSession_subset: "sessions_ok s \<Longrightarrow> set (sessions (snd (ValidateSession now tok s))) \<subseteq> set (sessions s)"
  by (auto simp: ValidateSession_def case_prod_beta validate_loop_snd sessions_ok_def)

lemma expiries_Logout: "expiries_within t s \<Longrightarrow> expiries_within t (Logout tok s)"
  by (auto simp: expiries_within_def Logout_def)

lemma auth_inv_step: "auth_step E w w' \<Longrightarrow> auth_inv w \<Longrightarrow> auth_inv w'"
proof (induction rule: auth_step.induct)
  case (tick w t)
  then show ?case using expiries_within_mono by (auto simp: auth_inv_alt)
next
  case (login_admitted w t1 t2 h s' pw)
  then show ?case using auth_inv_login_admitted by blast
next
  case (login_rejected w t1 t2 s')
  then have "s' = svc w" by (auto simp: login_begin_def Let_def split: if_splits)
  with login_rejected show ?case using expiries_within_mono by (auto simp: auth_inv_alt)
next
  case (login_failed p w t3 t4 r s')
  then show ?case by (simp add: login_finish_def auth_inv_alt)
next
  case (login_succeeded p w t3 t4 r s')
  let ?s = "svc w\<lparr>failed_login_attempts := 0, locked_until := 0\<rparr>"
  have s': "s' = snd (issue_session E t3 t4 ?s)" using login_succeeded by (simp add: login_finish_def)
  have "sessions_ok ?s" "expiries_within (clock w) ?s"
    using login_succeeded by (auto simp: auth_inv_alt sessions_ok_def expiries_within_def)
  then have "sessions_ok s'" "expiries_within t4 s'"
    unfolding s' using login_succeeded(3,4) by (auto intro: sessions_ok_issue expiries_issue)
  then show ?case by (simp add: auth_inv_alt s' issue_session_frame)
next
  case (set_password w t3 t4 pw r s')
  then have s': "s' = snd (SetInitialPassword E t3 t4 pw (svc w))" by simp
  have "sessions_ok s'" "expiries_within t4 s'"
    unfolding s' using set_password.hyps(1,2) set_password.prems
    by (simp_all add: auth_inv_alt sessions_ok_SetInitialPassword expiries_SetInitialPassword [of "clock w"])
  then show ?case using set_password.prems by (simp add: auth_inv_alt s' frame_simps)
next
  case (validate w t tok v s')
  then have s': "s' = snd (ValidateSession t tok (svc w))" by simp
  have "sessions_ok s'" "expiries_within t s'"
    unfolding s' using validate.hyps(1) validate.prems
    by (auto simp: auth_inv_alt intro: sessions_ok_ValidateSession
        expiries_within_subset [OF expiries_within_mono ValidateSession_subset])
  then show ?case using validate.prems by (simp add: auth_inv_alt s' frame_simps)
next
  case (logout w tok)
  then show ?case
    by (simp add: auth_inv_alt sessions_ok_Logout frame_simps expiries_Logout)
qed

lemma auth_inv_reachable: "auth_reachable E w \<Longrightarrow> auth_inv w"
proof -
  assume "auth_reachable E w"
  then obtain w0 where "auth_initial w0" "(auth_step E)\<^sup>*\<^sup>* w0 w" by (auto simp: auth_reachable_def)
  from this(2,1) show ?thesis
    by (induction rule: rtranclp_induct) (auto intro: auth_inv_initial auth_inv_step)
qed

text \<open>
  C1: The brute-force throttle holds under any interleaving of concurrent requests: between two
  successful logins, every window of \<open>k\<close> minutes admits at most \<open>k + 4\<close> password guesses, because the
  attempt is charged in the same locked section that checks the lockout. (With \<open>k = 1\<close>: at most five
  guesses in any minute.)
\<close>

theorem login_throttle:
  assumes "auth_reachable E w"
  shows "length (filter (\<lambda>t. a \<le> t \<and> t < a + kLoginLockoutDuration * int k) (admitted w)) \<le> k + 4"
proof -
  let ?P = "\<lambda>t. a \<le> t \<and> t < a + kLoginLockoutDuration * int k"
  have "length (filter ?P (drop 4 (admitted w))) \<le> k"
    using auth_inv_reachable [OF assms] by (intro spaced_window) (simp_all add: auth_inv_def kLoginLockoutDuration_def)
  moreover have "length (filter ?P (take 4 (admitted w))) \<le> 4"
    using length_filter_le [of ?P "take 4 (admitted w)"] by simp
  moreover have "filter ?P (admitted w) = filter ?P (take 4 (admitted w)) @ filter ?P (drop 4 (admitted w))"
    by (metis append_take_drop_id filter_append)
  ultimately show ?thesis by simp
qed


text \<open>
  No sequence of requests, in any interleaving, changes the stored password record once it exists.
\<close>

lemma password_record_stable:
  assumes "(auth_step E)\<^sup>*\<^sup>* w w'" "IsPasswordSet (svc w)"
  shows "stored_password (svc w') = stored_password (svc w)"
  using assms
proof (induction rule: rtranclp_induct)
  case (step w1 w2)
  have set: "IsPasswordSet (svc w1)" using step by (simp add: IsPasswordSet_iff)
  from step.hyps(2) have "stored_password (svc w2) = stored_password (svc w1)"
  proof cases
    case (login_admitted t1 t2 h s' pw)
    then show ?thesis using login_begin_frame(1) [of t1 t2 "svc w1"] by (simp add: stored_password_def)
  next
    case (login_rejected t1 t2 s')
    then show ?thesis using login_begin_frame(1) [of t1 t2 "svc w1"] by (simp add: stored_password_def)
  next
    case (login_failed p t3 t4 r s')
    then show ?thesis by (simp add: login_finish_def)
  next
    case (login_succeeded p t3 t4 r s')
    then show ?thesis using login_finish_frame(1) [of E t3 t4 True "svc w1"] by (simp add: stored_password_def)
  next
    case (set_password t3 t4 pw r s')
    then show ?thesis using set by (simp add: SetInitialPassword_cases)
  next
    case (validate t tok v s')
    then show ?thesis using ValidateSession_frame(1) [of t tok "svc w1"] by (simp add: stored_password_def)
  qed (simp_all add: stored_password_def frame_simps)
  with step show ?case by simp
qed simp

section \<open>A concrete run\<close>

definition fresh_world :: auth_world where
  "fresh_world = \<lparr>svc = fresh_auth, clock = 100, in_flight = [], admitted = []\<rparr>"

lemma fresh_world_reachable: "auth_reachable E fresh_world"
  unfolding auth_reachable_def
  by (rule exI [of _ fresh_world]) (simp add: auth_initial_def fresh_world_def fresh_auth_def)


definition attempted_world :: auth_world where
  "attempted_world = fresh_world\<lparr>svc := fresh_auth\<lparr>failed_login_attempts := 1\<rparr>, clock := 120,
     in_flight := [(''guess'', None)], admitted := [110]\<rparr>"

lemma attempted_world_step: "auth_step sample_env fresh_world attempted_world"
proof -
  have "login_begin 110 120 fresh_auth = (Some None, fresh_auth\<lparr>failed_login_attempts := 1\<rparr>)"
    using fresh_not_set
    by (simp add: login_begin_def fresh_auth_def Let_def kMaxFailedLoginAttempts_def IsPasswordSet_def
        ParseStoredPasswordHash_def)
  from login_admitted [of fresh_world 110 120 None "fresh_auth\<lparr>failed_login_attempts := 1\<rparr>" sample_env "''guess''"] this
  show ?thesis by (simp add: fresh_world_def attempted_world_def)
qed

theorem login_throttle_witness:
  "length (filter (\<lambda>t. 100 \<le> t \<and> t < 100 + kLoginLockoutDuration * int 1) (admitted attempted_world)) \<le> 1 + 4"
proof -
  have "auth_reachable sample_env attempted_world"
    using fresh_world_reachable [of sample_env] attempted_world_step
    by (auto simp: auth_reachable_def intro: rtranclp.rtrancl_into_rtrancl)
  from login_throttle [OF this] show ?thesis by blast
qed

end
