(* ===== verification/Events.thy ===== *)
theory Events
  imports Prelude
begin

text \<open>
  The publish/subscribe bus, \<^verbatim>\<open>src/core/event_bus.cpp\<close> and \<^verbatim>\<open>event_bus.h\<close>.

  The subscriber table, the id counter (64 bits) and the operations follow the class. \<open>PublishImpl\<close>
  copies the list under the lock and delivers without it, so a publish in progress is a value of its
  own (\<open>delivery\<close>): deliveries of several publishers, nested publishes from inside a callback, and
  (un)subscriptions interleave freely. The UI dispatcher is code outside Core; all the bus knows is
  that it keeps closures and runs each of them later, in whatever order it likes, so deferred calls
  are a list from which any entry may be run next. Running one is two steps, since the lock is released
  between them: the lookup of the callback, and the call of the copy (\<open>ui_call\<close>). The UI task is one thread, so
  it holds at most one such copy. \<open>trace\<close> records the callback invocations.
\<close>

record 'c subscriber =
  sub_id :: u64
  sub_is_ui :: bool
  sub_callback :: 'c

record ('t, 'c, 'p) delivery =
  dl_type :: 't
  dl_rest :: "'c subscriber list"
  dl_dispatcher :: bool
  dl_payload :: 'p

record ('t, 'c, 'p) event_bus =
  ui_dispatcher :: bool
  next_id :: u64
  subscribers :: "'t \<Rightarrow> 'c subscriber list"
  deliveries :: "('t, 'c, 'p) delivery list"
  ui_queue :: "('t \<times> u64 \<times> 'p) list"
  ui_call :: "(u64 \<times> 'c \<times> 'p) option"
  trace :: "(bool \<times> u64 \<times> 'c \<times> 'p) list"

section \<open>Operations\<close>

definition SetUiDispatcher :: "bool \<Rightarrow> ('t, 'c, 'p) event_bus \<Rightarrow> ('t, 'c, 'p) event_bus" where
  "SetUiDispatcher present b = b\<lparr>ui_dispatcher := present\<rparr>"

definition SubscribeImpl ::
  "'t \<Rightarrow> bool \<Rightarrow> 'c \<Rightarrow> ('t, 'c, 'p) event_bus \<Rightarrow> u64 \<times> ('t, 'c, 'p) event_bus" where
  "SubscribeImpl type is_ui callback b =
     (let ident = next_id b in
      (ident, b\<lparr>next_id := ident + 1,
            subscribers := (subscribers b)
              (type := subscribers b type @ [\<lparr>sub_id = ident, sub_is_ui = is_ui, sub_callback = callback\<rparr>])\<rparr>))"

definition Unsubscribe :: "'t \<Rightarrow> u64 \<Rightarrow> ('t, 'c, 'p) event_bus \<Rightarrow> ('t, 'c, 'p) event_bus" where
  "Unsubscribe type ident b =
     b\<lparr>subscribers := (subscribers b)(type := filter (\<lambda>s. sub_id s \<noteq> ident) (subscribers b type))\<rparr>"

definition FindCallback :: "'t \<Rightarrow> u64 \<Rightarrow> ('t, 'c, 'p) event_bus \<Rightarrow> 'c option" where
  "FindCallback type ident b = map_option sub_callback (find (\<lambda>s. sub_id s = ident) (subscribers b type))"

text \<open>\<open>PublishImpl\<close>, first half: copy the list and the dispatcher under the lock.\<close>

definition publish_copy :: "'t \<Rightarrow> 'p \<Rightarrow> ('t, 'c, 'p) event_bus \<Rightarrow> ('t, 'c, 'p) delivery" where
  "publish_copy type payload b =
     \<lparr>dl_type = type, dl_rest = subscribers b type, dl_dispatcher = ui_dispatcher b, dl_payload = payload\<rparr>"

text \<open>\<open>PublishImpl\<close>, the loop body for one copied subscriber.\<close>

definition deliver_one ::
  "'t \<Rightarrow> bool \<Rightarrow> 'p \<Rightarrow> 'c subscriber \<Rightarrow> ('t, 'c, 'p) event_bus \<Rightarrow> ('t, 'c, 'p) event_bus" where
  "deliver_one type dispatcher payload s b =
     (if sub_is_ui s then
        (if \<not> dispatcher then b
         else b\<lparr>ui_queue := ui_queue b @ [(type, sub_id s, payload)]\<rparr>)
      else b\<lparr>trace := trace b @ [(False, sub_id s, sub_callback s, payload)]\<rparr>)"

text \<open>\<open>PublishImpl\<close> run to its end with no interleaving.\<close>

definition PublishImpl :: "'t \<Rightarrow> 'p \<Rightarrow> ('t, 'c, 'p) event_bus \<Rightarrow> ('t, 'c, 'p) event_bus" where
  "PublishImpl type payload b =
     (let d = publish_copy type payload b
      in fold (deliver_one (dl_type d) (dl_dispatcher d) (dl_payload d)) (dl_rest d) b)"

text \<open>The deferred closure, when it runs: the callback is looked up again under the lock, then called without it.\<close>

definition run_ui_lookup :: "'t \<times> u64 \<times> 'p \<Rightarrow> ('t, 'c, 'p) event_bus \<Rightarrow> ('t, 'c, 'p) event_bus" where
  "run_ui_lookup task b =
     (case task of (type, ident, payload) \<Rightarrow>
        b\<lparr>ui_call := map_option (\<lambda>callback. (ident, callback, payload)) (FindCallback type ident b)\<rparr>)"

definition run_ui_callback :: "('t, 'c, 'p) event_bus \<Rightarrow> ('t, 'c, 'p) event_bus" where
  "run_ui_callback b =
     (case ui_call b of
        None \<Rightarrow> b
      | Some (ident, callback, payload) \<Rightarrow>
          b\<lparr>ui_call := None, trace := trace b @ [(True, ident, callback, payload)]\<rparr>)"

section \<open>Subscription handles\<close>

text \<open>\<^verbatim>\<open>ScopedSubscription\<close>: \<^const>\<open>None\<close> is a handle whose \<^verbatim>\<open>bus_\<close> is null.\<close>

type_synonym 't scoped_subscription = "('t \<times> u64) option"

definition ScopedSubscription_Reset ::
  "'t scoped_subscription \<Rightarrow> ('t, 'c, 'p) event_bus \<Rightarrow> 't scoped_subscription \<times> ('t, 'c, 'p) event_bus" where
  "ScopedSubscription_Reset h b =
     (case h of None \<Rightarrow> (None, b) | Some (type, ident) \<Rightarrow> (None, Unsubscribe type ident b))"

text \<open>Move assignment: the old target is reset, the source handle is emptied.\<close>

definition ScopedSubscription_move_assign ::
  "'t scoped_subscription \<Rightarrow> 't scoped_subscription \<Rightarrow> ('t, 'c, 'p) event_bus \<Rightarrow>
   't scoped_subscription \<times> 't scoped_subscription \<times> ('t, 'c, 'p) event_bus" where
  "ScopedSubscription_move_assign self other b =
     (let (_, b') = ScopedSubscription_Reset self b in (other, None, b'))"

section \<open>Interleavings\<close>

datatype ('t, 'c, 'p) bus_op =
    OpDispatcher bool
  | OpSubscribe 't bool 'c
  | OpUnsubscribe 't u64
  | OpPublish 't 'p
  | OpDeliver nat
  | OpRunUi nat
  | OpCallUi

definition deliver_next :: "nat \<Rightarrow> ('t, 'c, 'p) event_bus \<Rightarrow> ('t, 'c, 'p) event_bus" where
  "deliver_next i b =
     (if i < length (deliveries b) then
        (let d = deliveries b ! i in
         case dl_rest d of
           [] \<Rightarrow> b
         | s # rest \<Rightarrow>
             deliver_one (dl_type d) (dl_dispatcher d) (dl_payload d) s
               (b\<lparr>deliveries := (deliveries b)[i := d\<lparr>dl_rest := rest\<rparr>]\<rparr>))
      else b)"

definition run_ui_at :: "nat \<Rightarrow> ('t, 'c, 'p) event_bus \<Rightarrow> ('t, 'c, 'p) event_bus" where
  "run_ui_at i b =
     (if i < length (ui_queue b) \<and> ui_call b = None
      then run_ui_lookup (ui_queue b ! i) (b\<lparr>ui_queue := take i (ui_queue b) @ drop (Suc i) (ui_queue b)\<rparr>)
      else b)"

fun bus_step :: "('t, 'c, 'p) bus_op \<Rightarrow> ('t, 'c, 'p) event_bus \<Rightarrow> ('t, 'c, 'p) event_bus" where
  "bus_step (OpDispatcher d) b = SetUiDispatcher d b"
| "bus_step (OpSubscribe t u c) b = snd (SubscribeImpl t u c b)"
| "bus_step (OpUnsubscribe t i) b = Unsubscribe t i b"
| "bus_step (OpPublish t p) b = b\<lparr>deliveries := deliveries b @ [publish_copy t p b]\<rparr>"
| "bus_step (OpDeliver i) b = deliver_next i b"
| "bus_step (OpRunUi i) b = run_ui_at i b"
| "bus_step OpCallUi b = run_ui_callback b"

definition bus_run :: "('t, 'c, 'p) bus_op list \<Rightarrow> ('t, 'c, 'p) event_bus \<Rightarrow> ('t, 'c, 'p) event_bus" where
  "bus_run ops b = fold bus_step ops b"

section \<open>Table facts\<close>

lemma deliver_one_frame [frame_simps]:
  "subscribers (deliver_one t d p s b) = subscribers b"
  "next_id (deliver_one t d p s b) = next_id b"
  "ui_dispatcher (deliver_one t d p s b) = ui_dispatcher b"
  "deliveries (deliver_one t d p s b) = deliveries b"
  by (simp_all add: deliver_one_def)

lemma run_ui_lookup_frame [frame_simps]:
  "subscribers (run_ui_lookup k b) = subscribers b"
  "next_id (run_ui_lookup k b) = next_id b"
  "trace (run_ui_lookup k b) = trace b"
  by (simp_all add: run_ui_lookup_def split: prod.splits)

lemma run_ui_callback_frame [frame_simps]:
  "subscribers (run_ui_callback b) = subscribers b"
  "next_id (run_ui_callback b) = next_id b"
  by (simp_all add: run_ui_callback_def split: prod.splits option.splits)

lemma deliver_next_frame [frame_simps]:
  "subscribers (deliver_next i b) = subscribers b"
  "next_id (deliver_next i b) = next_id b"
  by (simp_all add: deliver_next_def Let_def frame_simps split: list.splits)

lemma run_ui_at_frame [frame_simps]:
  "subscribers (run_ui_at i b) = subscribers b"
  "next_id (run_ui_at i b) = next_id b"
  by (simp_all add: run_ui_at_def frame_simps)

text \<open>Every registered id has been issued, no list holds an id twice and no id is in two lists.\<close>

definition bus_ok :: "('t, 'c, 'p) event_bus \<Rightarrow> bool" where
  "bus_ok b \<longleftrightarrow> (\<forall>t. distinct (map sub_id (subscribers b t)) \<and>
                    (\<forall>s \<in> set (subscribers b t). unat (sub_id s) < unat (next_id b))) \<and>
                (\<forall>t t' s s'. s \<in> set (subscribers b t) \<longrightarrow> s' \<in> set (subscribers b t') \<longrightarrow>
                    sub_id s = sub_id s' \<longrightarrow> t = t')"

text \<open>An id that was issued and is registered nowhere.\<close>

definition retired :: "u64 \<Rightarrow> ('t, 'c, 'p) event_bus \<Rightarrow> bool" where
  "retired ident b \<longleftrightarrow> (\<forall>t. ident \<notin> sub_id ` set (subscribers b t)) \<and> unat ident < unat (next_id b)"

lemma unat_succ: "unat (x :: u64) + 1 < 2 ^ 64 \<Longrightarrow> unat (x + 1) = unat x + 1"
  by (simp add: unat_word_ariths)

lemma bus_ok_step:
  assumes "bus_ok b" "unat (next_id b) + 1 < 2 ^ 64"
  shows "bus_ok (bus_step op b)"
proof (cases op)
  case (OpSubscribe t u c)
  have old: "s \<in> set (subscribers b t') \<Longrightarrow> unat (sub_id s) < unat (next_id b)" for s t'
    using assms(1) unfolding bus_ok_def by blast
  have fresh: "s \<in> set (subscribers b t') \<Longrightarrow> sub_id s \<noteq> next_id b" for s t'
    using old [of s t'] by auto
  have ids: "distinct (map sub_id (subscribers b t'))" for t' using assms(1) by (auto simp: bus_ok_def)
  have one: "s \<in> set (subscribers b t1) \<Longrightarrow> s' \<in> set (subscribers b t2) \<Longrightarrow> sub_id s = sub_id s' \<Longrightarrow> t1 = t2" for s s' t1 t2
    using assms(1) unfolding bus_ok_def by blast
  have sub: "subscribers (bus_step op b) t' =
      subscribers b t' @ (if t' = t then [\<lparr>sub_id = next_id b, sub_is_ui = u, sub_callback = c\<rparr>] else [])" for t'
    by (simp add: OpSubscribe SubscribeImpl_def Let_def)
  have nid: "unat (next_id (bus_step op b)) = unat (next_id b) + 1"
    using assms(2) by (simp add: OpSubscribe SubscribeImpl_def Let_def unat_succ)
  have "distinct (map sub_id (subscribers (bus_step op b) t'))" for t'
  proof -
    have "next_id b \<notin> sub_id ` set (subscribers b t')" using fresh [of _ t'] by force
    then show ?thesis using ids [of t'] by (auto simp: sub)
  qed
  moreover have "s \<in> set (subscribers (bus_step op b) t') \<Longrightarrow> unat (sub_id s) < unat (next_id (bus_step op b))" for s t'
    using old [of s t'] by (auto simp: sub nid split: if_splits)
  moreover have "s \<in> set (subscribers (bus_step op b) t1) \<Longrightarrow> s' \<in> set (subscribers (bus_step op b) t2) \<Longrightarrow>
      sub_id s = sub_id s' \<Longrightarrow> t1 = t2" for s s' t1 t2
    using one [of s t1 s' t2] fresh [of s t1] fresh [of s' t2] by (auto simp: sub split: if_splits)
  ultimately show ?thesis unfolding bus_ok_def by blast
next
  case (OpUnsubscribe t i)
  then show ?thesis using assms(1) by (auto simp: bus_ok_def Unsubscribe_def distinct_map_filter split: if_splits)
qed (use assms in \<open>simp_all add: bus_ok_def SetUiDispatcher_def frame_simps\<close>)

lemma retired_FindCallback: "retired ident b \<Longrightarrow> FindCallback t ident b = None"
  by (auto simp: retired_def FindCallback_def find_None_iff image_iff)

lemma retired_step:
  assumes "retired ident b" "unat (next_id b) + 1 < 2 ^ 64"
  shows "retired ident (bus_step op b) \<and> unat (next_id (bus_step op b)) \<le> unat (next_id b) + 1"
  using assms
  by (cases op) (auto simp: retired_def SubscribeImpl_def SetUiDispatcher_def Unsubscribe_def frame_simps Let_def unat_succ)

definition ui_calls :: "u64 \<Rightarrow> (bool \<times> u64 \<times> 'c \<times> 'p) list \<Rightarrow> (bool \<times> u64 \<times> 'c \<times> 'p) list" where
  "ui_calls ident tr = filter (\<lambda>(ui, i, _, _). ui \<and> i = ident) tr"

text \<open>The call of a subscriber's callback that the UI task has looked up and not made yet.\<close>

definition call_in_hand :: "u64 \<Rightarrow> ('t, 'c, 'p) event_bus \<Rightarrow> (bool \<times> u64 \<times> 'c \<times> 'p) list" where
  "call_in_hand ident b =
     (case ui_call b of None \<Rightarrow> [] | Some (i, c, p) \<Rightarrow> if i = ident then [(True, i, c, p)] else [])"

lemma retired_no_call:
  assumes "retired ident b"
  shows "ui_calls ident (trace (bus_step op b)) @ call_in_hand ident (bus_step op b) =
           ui_calls ident (trace b) @ call_in_hand ident b"
    and "call_in_hand ident (bus_step op b) \<in> {[], call_in_hand ident b}"
proof -
  have lookup: "call_in_hand ident (run_ui_lookup k b') = []"
    if "subscribers b' = subscribers b" for k and b' :: "('a, 'b, 'c) event_bus"
  proof -
    have "FindCallback t ident b' = None" for t
      using retired_FindCallback [OF assms] that by (simp add: FindCallback_def)
    then show ?thesis
      by (auto simp: run_ui_lookup_def call_in_hand_def split: prod.splits option.splits if_splits)
  qed
  have "ui_calls ident (trace (bus_step op b)) @ call_in_hand ident (bus_step op b) =
        ui_calls ident (trace b) @ call_in_hand ident b \<and>
      call_in_hand ident (bus_step op b) \<in> {[], call_in_hand ident b}"
  proof (cases op)
    case (OpRunUi i)
    then show ?thesis using lookup by (simp add: run_ui_at_def frame_simps) (simp add: call_in_hand_def)
  next
    case (OpDeliver i)
    then show ?thesis
      by (auto simp: deliver_next_def deliver_one_def ui_calls_def call_in_hand_def Let_def split: list.splits)
  qed (auto simp: SetUiDispatcher_def SubscribeImpl_def Unsubscribe_def Let_def call_in_hand_def run_ui_callback_def ui_calls_def
      split: option.splits)
  then show "ui_calls ident (trace (bus_step op b)) @ call_in_hand ident (bus_step op b) =
           ui_calls ident (trace b) @ call_in_hand ident b"
    and "call_in_hand ident (bus_step op b) \<in> {[], call_in_hand ident b}" by blast+
qed

lemma retired_run:
  assumes "retired ident b" "unat (next_id b) + length ops < 2 ^ 64"
  shows "ui_calls ident (trace (bus_run ops b)) @ call_in_hand ident (bus_run ops b) =
      ui_calls ident (trace b) @ call_in_hand ident b \<and>
    call_in_hand ident (bus_run ops b) \<in> {[], call_in_hand ident b}"
  using assms
proof (induction ops arbitrary: b)
  case (Cons op ops)
  have r: "retired ident (bus_step op b)" "unat (next_id (bus_step op b)) \<le> unat (next_id b) + 1"
    using retired_step [OF Cons.prems(1), of op] Cons.prems(2) by simp_all
  with Cons.prems(2) have "unat (next_id (bus_step op b)) + length ops < 2 ^ 64" by simp
  from Cons.IH [OF r(1) this] retired_no_call [OF Cons.prems(1), of op] show ?case
    by (auto simp: bus_run_def)
qed (simp add: bus_run_def)

lemma Unsubscribe_retires:
  assumes "bus_ok b" "s \<in> set (subscribers b t)"
  shows "retired (sub_id s) (Unsubscribe t (sub_id s) b)"
  using assms by (auto simp: retired_def Unsubscribe_def bus_ok_def image_iff split: if_splits)

section \<open>Properties\<close>

text \<open>
  C3: A UI subscriber that has unsubscribed is never called again: whatever publishes, deliveries, queued
  UI tasks (in any order) and other subscriptions follow, no deferred call for its id invokes a
  callback, including calls that were queued before it unsubscribed. The one exception is a call whose callback
  the UI task had already looked up at that moment (the lock is not held between the lookup and the call):
  it is still made, once. A subscriber that unsubscribes on the UI task itself leaves no such call. (Ids are
  64 bits wide; the bound says the counter does not wrap.)
\<close>

theorem unsubscribed_ui_never_called:
  assumes "bus_ok b" "s \<in> set (subscribers b t)" "unat (next_id b) + length ops < 2 ^ 64"
  shows "ui_calls (sub_id s) (trace (bus_run ops (Unsubscribe t (sub_id s) b))) \<in>
    {ui_calls (sub_id s) (trace b), ui_calls (sub_id s) (trace b) @ call_in_hand (sub_id s) b}"
proof -
  have "next_id (Unsubscribe t (sub_id s) b) = next_id b" "trace (Unsubscribe t (sub_id s) b) = trace b"
      "call_in_hand (sub_id s) (Unsubscribe t (sub_id s) b) = call_in_hand (sub_id s) b"
    by (simp_all add: Unsubscribe_def call_in_hand_def)
  with retired_run [OF Unsubscribe_retires [OF assms(1,2)], of ops] assms(3) show ?thesis by auto
qed

definition sample_bus :: "(nat, string, nat) event_bus" where
  "sample_bus = \<lparr>ui_dispatcher = True, next_id = 2, subscribers = (\<lambda>_. [])(0 := [\<lparr>sub_id = 1, sub_is_ui = True, sub_callback = ''cb''\<rparr>]),
     deliveries = [], ui_queue = [(0, 1, 7)], ui_call = None, trace = []\<rparr>"

theorem unsubscribed_ui_never_called_witness:
  "ui_calls 1 (trace (bus_run [OpRunUi 0, OpCallUi] (Unsubscribe 0 1 sample_bus))) = []"
  using unsubscribed_ui_never_called [of sample_bus "\<lparr>sub_id = 1, sub_is_ui = True, sub_callback = ''cb''\<rparr>" 0 "[OpRunUi 0, OpCallUi]"]
  by (simp add: sample_bus_def bus_ok_def ui_calls_def call_in_hand_def)

lemma fold_deliver:
  "fold (deliver_one t d p) ss b =
     b\<lparr>trace := trace b @ map (\<lambda>s. (False, sub_id s, sub_callback s, p)) (filter (\<lambda>s. \<not> sub_is_ui s) ss),
       ui_queue := ui_queue b @ (if d then map (\<lambda>s. (t, sub_id s, p)) (filter sub_is_ui ss) else [])\<rparr>"
  by (induction ss arbitrary: b) (simp_all add: deliver_one_def)

text \<open>
  A publish calls every synchronous subscriber of the event's type exactly once, in subscription
  order, and defers exactly one call per UI subscriber, in subscription order, when a dispatcher is
  registered (and none otherwise); no other subscriber and no other part of the bus is touched.
\<close>

lemma PublishImpl_delivers:
  "PublishImpl t p b =
     b\<lparr>trace := trace b @ map (\<lambda>s. (False, sub_id s, sub_callback s, p)) (filter (\<lambda>s. \<not> sub_is_ui s) (subscribers b t)),
       ui_queue := ui_queue b @
         (if ui_dispatcher b then map (\<lambda>s. (t, sub_id s, p)) (filter sub_is_ui (subscribers b t)) else [])\<rparr>"
  by (simp add: PublishImpl_def publish_copy_def fold_deliver)

end
