(* ===== verification/Power_State.thy ===== *)
theory Power_State
  imports Prelude
begin

text \<open>
  Power and battery: the latched monitors (\<^verbatim>\<open>src/core/latched_threshold_monitor.cpp\<close>,
  \<^verbatim>\<open>low_battery_monitor.cpp\<close>, \<^verbatim>\<open>critical_battery_monitor.cpp\<close>, \<^verbatim>\<open>network_status_monitor.cpp\<close>),
  the OTA gate (\<^verbatim>\<open>ota_gate.h\<close>), the power state machine (\<^verbatim>\<open>power_manager.cpp\<close>), and the two
  notification consumers (\<^verbatim>\<open>harmony_notification_bridge.cpp\<close>, \<^verbatim>\<open>notification_sound.cpp\<close>).

  Each subscription callback is a function of the component's state, the event and the readings it
  takes from the platform; what it publishes is returned as a list of events, in order.
\<close>

section \<open>Platform readings and events\<close>

record battery_reading =
  battery_present :: bool
  battery_percent :: int
  external_power :: bool

datatype notification_severity = kDeferred | kAlertPriority

record notification_event =
  ne_message :: string
  ne_severity :: notification_severity

datatype power_state = kActive | kIdle | kSleeping | kUpdating | kError

datatype core_event =
    CriticalBatteryStateChanged bool
  | Notification notification_event
  | WifiConnectivityChanged bool
  | PowerStateChanged power_state

section \<open>Latched threshold monitor\<close>

datatype edge = Entering | Leaving

definition latched_tick :: "bool \<Rightarrow> bool \<Rightarrow> bool \<Rightarrow> edge list \<times> bool" where
  "latched_tick present bad already_bad =
     (if \<not> present then (if already_bad then ([Leaving], False) else ([], already_bad))
      else if bad \<and> \<not> already_bad then ([Entering], True)
      else if \<not> bad \<and> already_bad then ([Leaving], False)
      else ([], already_bad))"

definition kThresholdPercent :: int where "kThresholdPercent = 15"
definition kCriticalThresholdPercent :: int where "kCriticalThresholdPercent = 5"

definition LowBatteryMonitor_tick :: "battery_reading \<Rightarrow> bool \<Rightarrow> core_event list \<times> bool" where
  "LowBatteryMonitor_tick r already =
     (let (es, already') = latched_tick (battery_present r) (battery_percent r < kThresholdPercent) already
      in (concat (map (\<lambda>e. case e of
             Entering \<Rightarrow> [Notification \<lparr>ne_message = ''Battery low'', ne_severity = kDeferred\<rparr>]
           | Leaving \<Rightarrow> []) es), already'))"

definition CriticalBatteryMonitor_tick :: "battery_reading \<Rightarrow> bool \<Rightarrow> core_event list \<times> bool" where
  "CriticalBatteryMonitor_tick r already =
     (let (es, already') =
            latched_tick (battery_present r)
              (battery_percent r < kCriticalThresholdPercent \<and> \<not> external_power r) already
      in (concat (map (\<lambda>e. case e of
             Entering \<Rightarrow> [CriticalBatteryStateChanged True,
                          Notification \<lparr>ne_message = ''Battery critically low'', ne_severity = kAlertPriority\<rparr>]
           | Leaving \<Rightarrow> [CriticalBatteryStateChanged False]) es), already'))"

definition NetworkStatusMonitor_tick :: "bool \<Rightarrow> bool \<Rightarrow> core_event list \<times> bool" where
  "NetworkStatusMonitor_tick connected last_connected =
     (if connected \<noteq> last_connected then ([WifiConnectivityChanged connected], connected)
      else ([], last_connected))"

section \<open>OTA gate\<close>

record ota_gate_status =
  gate_open :: bool
  gate_reason :: string
  gate_battery_percent :: int

definition kMinBatteryPercent :: int where "kMinBatteryPercent = 30"

definition EvaluateOtaGate :: "battery_reading \<Rightarrow> ota_gate_status" where
  "EvaluateOtaGate r =
     (if kMinBatteryPercent \<le> battery_percent r
      then \<lparr>gate_open = True, gate_reason = [], gate_battery_percent = battery_percent r\<rparr>
      else if external_power r
      then \<lparr>gate_open = True, gate_reason = [], gate_battery_percent = battery_percent r\<rparr>
      else \<lparr>gate_open = False,
            gate_reason = ''Battery is below '' @ to_string kMinBatteryPercent @
              ''% and no external power is connected. Connect a charger to update.'',
            gate_battery_percent = battery_percent r\<rparr>)"

section \<open>Power manager\<close>

definition kIdleTimeoutMs :: int where "kIdleTimeoutMs = 30000"
definition kSleepTimeoutMs :: int where "kSleepTimeoutMs = kIdleTimeoutMs + 90000"
definition kDimBrightnessPercent :: int where "kDimBrightnessPercent = 20"
definition kSleepBrightnessPercent :: int where "kSleepBrightnessPercent = 0"
definition kMinActiveBrightnessPercent :: int where "kMinActiveBrightnessPercent = 5"

text \<open>\<open>display\<close> is the last percentage handed to the backlight (\<^const>\<open>None\<close>: none yet).\<close>

record power_manager =
  pm_state :: power_state
  ota_in_progress :: bool
  active_brightness_percent :: int
  sleep_veto_until :: "ms option"
  display :: "int option"
  pm_published :: "power_state list"

definition PowerManager_init :: "int \<Rightarrow> power_manager" where
  "PowerManager_init initial =
     \<lparr>pm_state = kActive, ota_in_progress = False,
      active_brightness_percent = clamp initial kMinActiveBrightnessPercent 100,
      sleep_veto_until = None, display = None, pm_published = []\<rparr>"

definition TransitionTo :: "power_state \<Rightarrow> power_manager \<Rightarrow> power_manager" where
  "TransitionTo new_state p =
     (let brightness =
            (if new_state = kIdle then min kDimBrightnessPercent (active_brightness_percent p)
             else if new_state = kSleeping then kSleepBrightnessPercent
             else active_brightness_percent p)
      in p\<lparr>pm_state := new_state, display := Some brightness,
           pm_published := pm_published p @ [new_state]\<rparr>)"

definition HasActiveSleepVeto :: "ms \<Rightarrow> power_manager \<Rightarrow> bool" where
  "HasActiveSleepVeto now p = (case sleep_veto_until p of None \<Rightarrow> False | Some u \<Rightarrow> now < u)"

definition OnTick :: "int \<Rightarrow> ms \<Rightarrow> power_manager \<Rightarrow> power_manager" where
  "OnTick inactive_ms now p =
     (if pm_state p = kUpdating \<or> pm_state p = kError then p
      else if pm_state p = kActive \<and> kIdleTimeoutMs \<le> inactive_ms then TransitionTo kIdle p
      else if pm_state p = kIdle then
        (if inactive_ms < kIdleTimeoutMs then TransitionTo kActive p
         else if kSleepTimeoutMs \<le> inactive_ms \<and> \<not> HasActiveSleepVeto now p then TransitionTo kSleeping p
         else p)
      else if pm_state p = kSleeping \<and> inactive_ms < kIdleTimeoutMs then TransitionTo kActive p
      else p)"

definition OnOtaUpdateStateChanged :: "bool \<Rightarrow> int \<Rightarrow> ms \<Rightarrow> power_manager \<Rightarrow> power_manager" where
  "OnOtaUpdateStateChanged in_progress inactive_ms now p0 =
     (let p = p0\<lparr>ota_in_progress := in_progress\<rparr> in
      if in_progress then (if pm_state p \<noteq> kError then TransitionTo kUpdating p else p)
      else if pm_state p \<noteq> kError then
        (if kSleepTimeoutMs \<le> inactive_ms \<and> \<not> HasActiveSleepVeto now p then TransitionTo kSleeping p
         else if kIdleTimeoutMs \<le> inactive_ms then TransitionTo kIdle p
         else TransitionTo kActive p)
      else p)"

definition OnCriticalBatteryStateChanged :: "bool \<Rightarrow> power_manager \<Rightarrow> power_manager" where
  "OnCriticalBatteryStateChanged critical p =
     (if critical then TransitionTo kError p
      else if pm_state p = kError then TransitionTo (if ota_in_progress p then kUpdating else kActive) p
      else p)"

definition SetActiveBrightnessPercent :: "int \<Rightarrow> power_manager \<Rightarrow> power_manager" where
  "SetActiveBrightnessPercent percent p =
     (let p1 = p\<lparr>active_brightness_percent := clamp percent kMinActiveBrightnessPercent 100\<rparr>
      in if pm_state p1 = kActive then p1\<lparr>display := Some (active_brightness_percent p1)\<rparr> else p1)"

definition RequestSleepVeto :: "ms \<Rightarrow> ms \<Rightarrow> power_manager \<Rightarrow> power_manager" where
  "RequestSleepVeto now duration p = p\<lparr>sleep_veto_until := Some (now + duration)\<rparr>"

datatype power_input =
    PTick int ms
  | POta bool int ms
  | PCritical bool
  | PSetBrightness int
  | PVeto ms ms

fun power_step :: "power_input \<Rightarrow> power_manager \<Rightarrow> power_manager" where
  "power_step (PTick i now) p = OnTick i now p"
| "power_step (POta b i now) p = OnOtaUpdateStateChanged b i now p"
| "power_step (PCritical c) p = OnCriticalBatteryStateChanged c p"
| "power_step (PSetBrightness n) p = SetActiveBrightnessPercent n p"
| "power_step (PVeto now d) p = RequestSleepVeto now d p"

definition power_run :: "power_input list \<Rightarrow> power_manager \<Rightarrow> power_manager" where
  "power_run is p = fold power_step is p"

section \<open>Notification consumers\<close>

datatype harmony_connection_state = kDisconnected | kConnecting | kConnected | kHubError

text \<open>\<open>kHubError\<close> is the source's \<^verbatim>\<open>HarmonyConnectionState::kError\<close>.\<close>

definition HarmonyBridge_on_state :: "harmony_connection_state \<Rightarrow> bool \<Rightarrow> core_event list \<times> bool" where
  "HarmonyBridge_on_state st already_notified =
     (if st = kHubError then
        (if \<not> already_notified
         then ([Notification \<lparr>ne_message = ''Harmony Hub connection lost'', ne_severity = kDeferred\<rparr>], True)
         else ([], already_notified))
      else if st = kConnected then ([], False)
      else ([], already_notified))"

definition HarmonyBridge_on_config :: "bool \<Rightarrow> bool" where
  "HarmonyBridge_on_config already_notified = False"

record notification_sound =
  ns_pending :: bool
  ns_playing :: bool
  volume_percent :: int
  plays :: "int list"

definition NotificationSound_init :: "int \<Rightarrow> notification_sound" where
  "NotificationSound_init initial =
     \<lparr>ns_pending = False, ns_playing = False, volume_percent = clamp initial 0 100, plays = []\<rparr>"

definition NotificationSound_on_event :: "notification_sound \<Rightarrow> notification_sound" where
  "NotificationSound_on_event n = (if ns_playing n then n else n\<lparr>ns_pending := True\<rparr>)"

text \<open>One round of \<open>PlayLoop\<close>: up to the unlock (with the volume it will play at), then the tail.\<close>

definition PlayLoop_start :: "notification_sound \<Rightarrow> notification_sound option" where
  "PlayLoop_start n =
     (if ns_pending n
      then Some (n\<lparr>ns_pending := False, ns_playing := True, plays := plays n @ [volume_percent n]\<rparr>)
      else None)"

definition PlayLoop_finish :: "notification_sound \<Rightarrow> notification_sound" where
  "PlayLoop_finish n = n\<lparr>ns_playing := False\<rparr>"

definition SetVolumePercent :: "int \<Rightarrow> notification_sound \<Rightarrow> notification_sound" where
  "SetVolumePercent percent n = n\<lparr>volume_percent := clamp percent 0 100\<rparr>"

section \<open>What the latch guarantees\<close>

text \<open>A monitor run over a sequence of (battery present, condition bad) readings: all edges, final latch.\<close>

fun latched_run :: "(bool \<times> bool) list \<Rightarrow> bool \<Rightarrow> edge list \<times> bool" where
  "latched_run [] b = ([], b)"
| "latched_run ((present, bad) # rs) b =
     (let (es, b1) = latched_tick present bad b; (es', b2) = latched_run rs b1 in (es @ es', b2))"

fun alternates :: "edge \<Rightarrow> edge list \<Rightarrow> bool" where
  "alternates e [] = True"
| "alternates e (x # xs) = (x = e \<and> alternates (if e = Entering then Leaving else Entering) xs)"

lemma latched_tick_cases:
  "latched_tick present bad b =
     (if (present \<and> bad) = b then [] else if b then [Leaving] else [Entering], present \<and> bad)"
  by (auto simp: latched_tick_def)

text \<open>
  The latch of the battery monitors: over any sequence of readings the published edges alternate
  strictly, starting with the one the current latch allows, so a sustained condition never
  republishes; and the latch always equals the last evaluated condition, an absent battery counting
  as not bad.
\<close>

lemma latched_run_alternates:
  "alternates (if b then Leaving else Entering) (fst (latched_run rs b)) \<and>
   snd (latched_run rs b) = (if rs = [] then b else (fst (last rs) \<and> snd (last rs)))"
proof (induction rs arbitrary: b)
  case (Cons r rs)
  obtain present bad where r: "r = (present, bad)" by force
  show ?case
    using Cons.IH [of "present \<and> bad"]
    by (cases rs) (auto simp: r latched_tick_cases Let_def split: prod.splits)
qed simp

section \<open>The power state machine\<close>

text \<open>What the last battery and OTA events of a run said.\<close>

fun note_critical :: "power_input \<Rightarrow> bool \<Rightarrow> bool" where
  "note_critical (PCritical c) b = c"
| "note_critical i b = b"

fun note_ota :: "power_input \<Rightarrow> bool \<Rightarrow> bool" where
  "note_ota (POta c i now) b = c"
| "note_ota i b = b"

definition power_inv :: "bool \<Rightarrow> bool \<Rightarrow> power_manager \<Rightarrow> bool" where
  "power_inv critical ota p \<longleftrightarrow>
     ota_in_progress p = ota \<and>
     (pm_state p = kError \<longleftrightarrow> critical) \<and>
     (pm_state p = kUpdating \<longleftrightarrow> ota \<and> \<not> critical) \<and>
     5 \<le> active_brightness_percent p \<and> active_brightness_percent p \<le> 100 \<and>
     (pm_state p = kActive \<longrightarrow> display p = None \<or> display p = Some (active_brightness_percent p)) \<and>
     (pm_state p = kSleeping \<longrightarrow> display p = Some 0) \<and>
     (pm_state p = kIdle \<longrightarrow> (\<exists>d. display p = Some d \<and> 5 \<le> d \<and> d \<le> 20))"

lemmas power_defs = TransitionTo_def OnTick_def OnOtaUpdateStateChanged_def OnCriticalBatteryStateChanged_def
  SetActiveBrightnessPercent_def RequestSleepVeto_def kDimBrightnessPercent_def kSleepBrightnessPercent_def
  kMinActiveBrightnessPercent_def

lemma power_inv_step:
  assumes "power_inv c u p"
  shows "power_inv (note_critical i c) (note_ota i u) (power_step i p)"
proof (cases i)
  case (PTick n now)
  with assms show ?thesis by (auto simp: power_inv_def power_defs Let_def)
next
  case (POta b n now)
  with assms show ?thesis by (auto simp: power_inv_def power_defs Let_def)
next
  case (PCritical b)
  with assms show ?thesis by (auto simp: power_inv_def power_defs Let_def)
next
  case (PSetBrightness n)
  with assms clamp_bounds [of 5 100 n] show ?thesis by (auto simp: power_inv_def power_defs Let_def)
next
  case (PVeto now d)
  with assms show ?thesis by (auto simp: power_inv_def power_defs Let_def)
qed

lemma power_inv_init: "power_inv False False (PowerManager_init b)"
  using clamp_bounds [of 5 100 b] by (simp add: power_inv_def PowerManager_init_def kMinActiveBrightnessPercent_def)

lemma power_inv_run:
  "power_inv c u p \<Longrightarrow> power_inv (fold note_critical is c) (fold note_ota is u) (power_run is p)"
  by (induction "is" arbitrary: c u p) (auto simp: power_run_def power_inv_step)

text \<open>
  Over every sequence of ticks, OTA events, battery events, brightness changes and veto requests: the
  manager is in the error state exactly while the battery is critical, in the updating state exactly
  while a write is in progress and the battery is not critical (so inactivity never dims or sleeps
  during a write), the active brightness stays within 5 to 100 percent, sleeping means the backlight
  is off, and idling means it is on and at most 20 percent.
\<close>

lemma power_run_invariant:
  "power_inv (fold note_critical is False) (fold note_ota is False) (power_run is (PowerManager_init b))"
  by (rule power_inv_run [OF power_inv_init])

text \<open>
  The device falls asleep only after two minutes without activity and with no sleep veto in force,
  and it never leaves a low-power state on a tick without new activity.
\<close>

lemma sleep_needs_inactivity:
  "(pm_state p \<noteq> kSleeping \<and> pm_state (OnTick n now p) = kSleeping \<longrightarrow>
      pm_state p = kIdle \<and> 120000 \<le> n \<and> \<not> HasActiveSleepVeto now p) \<and>
   (pm_state p \<in> {kIdle, kSleeping} \<and> pm_state (OnTick n now p) = kActive \<longrightarrow> n < 30000) \<and>
   (pm_state p = kActive \<longrightarrow> pm_state (OnTick n now p) = (if 30000 \<le> n then kIdle else kActive))"
  by (auto simp: OnTick_def TransitionTo_def kIdleTimeoutMs_def kSleepTimeoutMs_def Let_def split: if_splits)

section \<open>Battery monitor and power manager together\<close>

text \<open>
  The manager's subscriptions are UI subscriptions: a publish from the monitor only queues a call, and the UI
  task makes the queued calls later, in the order they were queued (\<^verbatim>\<open>ui_dispatch.cpp\<close>). \<open>dv_calls\<close> holds the
  queued calls of the manager's critical-battery subscription; its other callbacks and operations are
  inputs of their own, at the moment they run.
\<close>

record device =
  dv_latch :: bool
  dv_calls :: "bool list"
  dv_power :: power_manager

definition device_init :: "int \<Rightarrow> device" where
  "device_init b = \<lparr>dv_latch = False, dv_calls = [], dv_power = PowerManager_init b\<rparr>"

fun deferred_calls :: "core_event list \<Rightarrow> bool list" where
  "deferred_calls [] = []"
| "deferred_calls (CriticalBatteryStateChanged c # es) = c # deferred_calls es"
| "deferred_calls (e # es) = deferred_calls es"

datatype device_input = Battery battery_reading | RunUi | Other power_input

fun device_step :: "device_input \<Rightarrow> device \<Rightarrow> device" where
  "device_step (Battery r) d =
     (let (es, latch) = CriticalBatteryMonitor_tick r (dv_latch d)
      in d\<lparr>dv_latch := latch, dv_calls := dv_calls d @ deferred_calls es\<rparr>)"
| "device_step RunUi d =
     (case dv_calls d of
        [] \<Rightarrow> d
      | c # rest \<Rightarrow> d\<lparr>dv_calls := rest, dv_power := OnCriticalBatteryStateChanged c (dv_power d)\<rparr>)"
| "device_step (Other i) d = d\<lparr>dv_power := power_step i (dv_power d)\<rparr>"

definition critical_reading :: "battery_reading \<Rightarrow> bool" where
  "critical_reading r \<longleftrightarrow> battery_present r \<and> battery_percent r < 5 \<and> \<not> external_power r"

fun note_reading :: "device_input \<Rightarrow> bool \<Rightarrow> bool" where
  "note_reading (Battery r) b = critical_reading r"
| "note_reading i b = b"

fun is_critical_input :: "device_input \<Rightarrow> bool" where
  "is_critical_input (Other (PCritical c)) = True"
| "is_critical_input i = False"

lemma CriticalBatteryMonitor_tick_cases:
  "CriticalBatteryMonitor_tick r b =
     (if critical_reading r = b then []
      else if b then [CriticalBatteryStateChanged False]
      else [CriticalBatteryStateChanged True,
            Notification \<lparr>ne_message = ''Battery critically low'', ne_severity = kAlertPriority\<rparr>],
      critical_reading r)"
  by (auto simp: CriticalBatteryMonitor_tick_def latched_tick_cases critical_reading_def kCriticalThresholdPercent_def)

text \<open>
  The invariant: \<open>e\<close> says whether the manager is in its error state; the queued calls alternate, the first one
  changes \<open>e\<close>, and the last one (or \<open>e\<close> itself) is the monitor's latch.
\<close>

fun flips :: "bool \<Rightarrow> bool list \<Rightarrow> bool" where
  "flips e [] = True"
| "flips e (c # cs) = (c \<noteq> e \<and> flips c cs)"

lemma flips_snoc [simp]: "flips e (cs @ [c]) = (flips e cs \<and> c \<noteq> last (e # cs))"
  by (induction cs arbitrary: e) auto

definition device_inv :: "bool \<Rightarrow> device \<Rightarrow> bool" where
  "device_inv critical d \<longleftrightarrow>
     dv_latch d = critical \<and>
     (\<exists>e u. power_inv e u (dv_power d) \<and> flips e (dv_calls d) \<and> last (e # dv_calls d) = critical)"

lemma device_invI:
  "dv_latch d = critical \<Longrightarrow> power_inv e u (dv_power d) \<Longrightarrow> flips e (dv_calls d) \<Longrightarrow>
     last (e # dv_calls d) = critical \<Longrightarrow> device_inv critical d"
  by (auto simp: device_inv_def)

lemma device_step_inv:
  assumes "device_inv b d" "\<not> is_critical_input i"
  shows "device_inv (note_reading i b) (device_step i d)"
proof -
  obtain e u where e: "dv_latch d = b" "power_inv e u (dv_power d)" "flips e (dv_calls d)" "last (e # dv_calls d) = b"
    using assms(1) by (auto simp: device_inv_def)
  show ?thesis
  proof (cases i)
    case (Battery r)
    then show ?thesis
      using e unfolding device_inv_def by (cases "critical_reading r = b") (auto simp: CriticalBatteryMonitor_tick_cases)
  next
    case RunUi
    have "power_inv c u (OnCriticalBatteryStateChanged c (dv_power d))" for c
      using power_inv_step [OF e(2), of "PCritical c"] by simp
    then show ?thesis using e RunUi assms(1)
      by (cases "dv_calls d") (simp, intro device_invI [where e = "hd (dv_calls d)"], auto)
  next
    case (Other j)
    then have "note_critical j e = e" using assms(2) by (cases j) auto
    then show ?thesis using power_inv_step [OF e(2), of j] e Other by (auto simp: device_inv_def)
  qed
qed

lemma device_run_inv:
  "device_inv b d \<Longrightarrow> \<forall>i \<in> set is. \<not> is_critical_input i \<Longrightarrow> device_inv (fold note_reading is b) (fold device_step is d)"
  by (induction "is" arbitrary: b d) (simp_all add: device_step_inv)

lemma device_init_inv: "device_inv False (device_init b)"
  using power_inv_init [of b] by (auto simp: device_inv_def device_init_def)

lemma device_inv_error:
  "device_inv b d \<Longrightarrow> pm_state (dv_power d) = kError \<longleftrightarrow> (if dv_calls d = [] then b else \<not> hd (dv_calls d))"
  by (cases "dv_calls d") (auto simp: device_inv_def power_inv_def)

fun is_reading :: "device_input \<Rightarrow> bool" where
  "is_reading (Battery r) = True"
| "is_reading i = False"

lemma ui_rounds_drain:
  assumes "\<forall>i \<in> set is. \<not> is_reading i"
  shows "length (dv_calls (fold device_step is d)) = length (dv_calls d) - count_list is RunUi \<and>
    fold note_reading is b = b"
  using assms
proof (induction "is" arbitrary: d)
  case (Cons i "is")
  then show ?case by (cases i) (auto split: list.splits)
qed simp

text \<open>
  C32: Battery monitor, UI queue and power manager composed. The monitor's events reach the manager by deferred
  calls the UI task makes in order (a UI dispatcher being registered), with ticks, OTA events, user
  actions and further readings in any order in between. At every moment the manager is in the error state
  exactly when the last reading was critical (a battery present, below five percent and without external
  power) if no such call is still queued, and otherwise exactly when the next queued call is the one that
  ends it; and once the UI task has made as many calls as were queued, with no reading in between, the
  error state says what the last reading said. So the fault is neither missed nor left behind: the
  manager only ever lags by the queued calls.
\<close>

theorem device_error_iff_critical:
  assumes "\<forall>i \<in> set (is @ later). \<not> is_critical_input i" "d = fold device_step is (device_init b)"
    and "\<forall>i \<in> set later. \<not> is_reading i" "length (dv_calls d) \<le> count_list later RunUi"
  shows "(pm_state (dv_power d) = kError \<longleftrightarrow>
       (if dv_calls d = [] then fold note_reading is False else \<not> hd (dv_calls d))) \<and>
    (pm_state (dv_power (fold device_step later d)) = kError \<longleftrightarrow> fold note_reading is False)"
proof -
  have inv: "device_inv (fold note_reading is False) d"
    unfolding assms(2) using assms(1) by (intro device_run_inv device_init_inv) simp
  have "device_inv (fold note_reading later (fold note_reading is False)) (fold device_step later d)"
    using assms(1) by (intro device_run_inv inv) simp
  then have "device_inv (fold note_reading is False) (fold device_step later d)"
    using ui_rounds_drain [OF assms(3)] by simp
  moreover have "dv_calls (fold device_step later d) = []"
    using ui_rounds_drain [OF assms(3), of d] assms(4) by simp
  ultimately show ?thesis using device_inv_error [OF inv] device_inv_error [of _ "fold device_step later d"] by simp
qed

theorem device_error_iff_critical_witness:
  "pm_state (dv_power (fold device_step
     [Other (POta True 0 0), Battery \<lparr>battery_present = True, battery_percent = 4, external_power = False\<rparr>]
     (device_init 50))) \<noteq> kError \<and>
   pm_state (dv_power (fold device_step
     [Other (POta True 0 0), Battery \<lparr>battery_present = True, battery_percent = 4, external_power = False\<rparr>, RunUi]
     (device_init 50))) = kError"
  using device_error_iff_critical [of "[Other (POta True 0 0),
      Battery \<lparr>battery_present = True, battery_percent = 4, external_power = False\<rparr>]" "[RunUi]" _ 50, OF _ refl]
  by (simp add: critical_reading_def device_init_def CriticalBatteryMonitor_tick_cases)

section \<open>Notification sound\<close>

inductive sound_step :: "notification_sound \<Rightarrow> notification_sound \<Rightarrow> bool" where
  "sound_step n (NotificationSound_on_event n)"
| "PlayLoop_start n = Some n' \<Longrightarrow> \<not> ns_playing n \<Longrightarrow> sound_step n n'"
| "ns_playing n \<Longrightarrow> sound_step n (PlayLoop_finish n)"
| "sound_step n (SetVolumePercent v n)"

text \<open>
  Notifications replace, they do not queue: while a tone is playing nothing is pending, so a burst of
  notifications during a tone never causes another one after it; and every tone is played at a
  volume between 0 and 100.
\<close>

lemma sound_never_queues:
  assumes "sound_step\<^sup>*\<^sup>* (NotificationSound_init v) n"
  shows "\<not> (ns_playing n \<and> ns_pending n) \<and> (\<forall>x \<in> set (plays n). 0 \<le> x \<and> x \<le> 100)"
proof -
  from assms have "\<not> (ns_playing n \<and> ns_pending n) \<and> 0 \<le> volume_percent n \<and> volume_percent n \<le> 100 \<and>
      (\<forall>x \<in> set (plays n). 0 \<le> x \<and> x \<le> 100)"
  proof (induction rule: rtranclp_induct)
    case base
    then show ?case using clamp_bounds [of 0 100 v] by (simp add: NotificationSound_init_def)
  next
    case (step n1 n2)
    from step.hyps(2) step.IH show ?case
      by (cases rule: sound_step.cases)
         (use clamp_bounds [of "0::int" 100] in \<open>auto simp: NotificationSound_on_event_def PlayLoop_start_def
            PlayLoop_finish_def SetVolumePercent_def split: if_splits\<close>)
  qed
  then show ?thesis by blast
qed

end
