(* ===== verification/Net.thy ===== *)
theory Net
  imports Prelude Url
begin

text \<open>
  Connection plumbing: \<^verbatim>\<open>src/core/retry_backoff.h\<close>, \<^verbatim>\<open>connection_wake.h\<close>,
  \<^verbatim>\<open>wifi_reconnect_policy.h\<close>, \<^verbatim>\<open>pending_wifi_credentials.h\<close>,
  \<^verbatim>\<open>src/platform/websocket_message_assembler.h\<close> and \<^verbatim>\<open>src/platform/queue.h\<close>. These classes are
  decision objects with no I/O; a call that takes the class's mutex is one atomic operation.
\<close>

section \<open>Retry backoff\<close>

record retry_backoff =
  initial_delay :: ms
  max_delay :: ms
  current_delay :: ms

definition RetryBackoff_new :: "ms \<Rightarrow> ms \<Rightarrow> retry_backoff" where
  "RetryBackoff_new initial mx = \<lparr>initial_delay = initial, max_delay = mx, current_delay = initial\<rparr>"

definition NextDelay :: "retry_backoff \<Rightarrow> ms \<times> retry_backoff" where
  "NextDelay b = (current_delay b, b\<lparr>current_delay := min (current_delay b * 2) (max_delay b)\<rparr>)"

definition RetryBackoff_ResetAttempts :: "retry_backoff \<Rightarrow> retry_backoff" where
  "RetryBackoff_ResetAttempts b = b\<lparr>current_delay := initial_delay b\<rparr>"

fun nth_delay :: "nat \<Rightarrow> retry_backoff \<Rightarrow> ms" where
  "nth_delay 0 b = fst (NextDelay b)"
| "nth_delay (Suc n) b = nth_delay n (snd (NextDelay b))"

section \<open>Wake channel\<close>

datatype wake_reason = kTimeout | kTriggered | kCommandPending | kStopRequested

definition Wake_Trigger :: "bool \<Rightarrow> bool" where
  "Wake_Trigger requested = True"

definition ClearTriggerLocked :: "bool \<Rightarrow> bool" where
  "ClearTriggerLocked requested = False"

text \<open>
  The end of \<open>Wait\<close>: whether a stop was requested, the trigger flag and the evaluation of
  \<^verbatim>\<open>work_pending\<close> (false when it is empty) as they are when \<^verbatim>\<open>wait_for\<close> returns with the mutex held.
\<close>

definition Wake_Wait :: "bool \<Rightarrow> bool \<Rightarrow> bool \<Rightarrow> wake_reason \<times> bool" where
  "Wake_Wait stop work_pending requested =
     (if stop then (kStopRequested, requested)
      else if requested then (kTriggered, False)
      else if work_pending then (kCommandPending, requested)
      else (kTimeout, requested))"

section \<open>Wi-Fi reconnect policy\<close>

datatype reconnect_decision = kRetry | kGiveUp

record wifi_reconnect_policy =
  max_setup_attempts :: int
  normal_mode_recovery_attempts :: int
  retry_delay_ms :: int
  recovery_ap_retry_delay_ms :: int
  attempts :: int

definition WifiReconnectPolicy_new :: "int \<Rightarrow> int \<Rightarrow> int \<Rightarrow> int \<Rightarrow> wifi_reconnect_policy" where
  "WifiReconnectPolicy_new ms nr rd rr =
     \<lparr>max_setup_attempts = ms, normal_mode_recovery_attempts = nr, retry_delay_ms = rd,
      recovery_ap_retry_delay_ms = rr, attempts = 0\<rparr>"

definition OnDisconnected :: "bool \<Rightarrow> wifi_reconnect_policy \<Rightarrow> reconnect_decision \<times> wifi_reconnect_policy" where
  "OnDisconnected in_setup_mode p =
     (if in_setup_mode \<and> max_setup_attempts p \<le> attempts p then (kGiveUp, p)
      else (kRetry, p\<lparr>attempts := attempts p + 1\<rparr>))"

definition ShouldOfferRecovery :: "bool \<Rightarrow> wifi_reconnect_policy \<Rightarrow> bool" where
  "ShouldOfferRecovery in_setup_mode p \<longleftrightarrow> \<not> in_setup_mode \<and> attempts p = normal_mode_recovery_attempts p"

definition RetryDelayMs :: "bool \<Rightarrow> int \<Rightarrow> wifi_reconnect_policy \<Rightarrow> int option" where
  "RetryDelayMs recovery_ap_up ap_clients p =
     (if \<not> recovery_ap_up \<or> attempts p \<le> max_setup_attempts p then Some (retry_delay_ms p)
      else if 0 < ap_clients then None
      else Some (recovery_ap_retry_delay_ms p))"

definition Wifi_ResetAttempts :: "wifi_reconnect_policy \<Rightarrow> wifi_reconnect_policy" where
  "Wifi_ResetAttempts p = p\<lparr>attempts := 0\<rparr>"

text \<open>A run of disconnects in one mode: the decisions and whether each then offered recovery.\<close>

fun disconnects :: "nat \<Rightarrow> bool \<Rightarrow> wifi_reconnect_policy \<Rightarrow> (reconnect_decision \<times> bool) list" where
  "disconnects 0 setup p = []"
| "disconnects (Suc n) setup p =
     (let (d, p1) = OnDisconnected setup p in (d, ShouldOfferRecovery setup p1) # disconnects n setup p1)"

section \<open>Pending Wi-Fi credentials\<close>

record wifi_credentials =
  wc_ssid :: string
  wc_password :: string

record pending_wifi_credentials =
  pending :: "wifi_credentials option"
  last_id :: u32

definition PendingWifi_new :: pending_wifi_credentials where
  "PendingWifi_new = \<lparr>pending = None, last_id = 0\<rparr>"

definition Submit ::
  "string \<Rightarrow> string \<Rightarrow> pending_wifi_credentials \<Rightarrow> u32 option \<times> pending_wifi_credentials" where
  "Submit ssid password p =
     (if \<not> IsValidWifiCredentials ssid password then (None, p)
      else let n = last_id p + 1
           in (Some n, p\<lparr>pending := Some \<lparr>wc_ssid = ssid, wc_password = password\<rparr>, last_id := n\<rparr>))"

definition Take :: "u32 \<Rightarrow> pending_wifi_credentials \<Rightarrow> wifi_credentials option \<times> pending_wifi_credentials" where
  "Take shown p =
     (if pending p = None \<or> shown \<noteq> last_id p then (None, p)
      else (pending p, p\<lparr>pending := None\<rparr>))"

definition PendingWifi_Clear :: "pending_wifi_credentials \<Rightarrow> pending_wifi_credentials" where
  "PendingWifi_Clear p = p\<lparr>pending := None\<rparr>"

datatype wifi_request_op = WSubmit string string | WTake u32 | WClear

fun wifi_op :: "wifi_request_op \<Rightarrow> pending_wifi_credentials \<Rightarrow> pending_wifi_credentials" where
  "wifi_op (WSubmit s pw) p = snd (Submit s pw p)"
| "wifi_op (WTake i) p = snd (Take i p)"
| "wifi_op WClear p = PendingWifi_Clear p"

section \<open>WebSocket message assembly\<close>

definition kMaxWebSocketMessageBytes :: nat where "kMaxWebSocketMessageBytes = 1024 * 1024"
definition kMaxQueuedWebSocketMessages :: nat where "kMaxQueuedWebSocketMessages = 20"

datatype assembler_result = kPartial | kComplete | kOversized

record assembler =
  asm_queue :: "string list"
  in_progress :: string

definition Assembler_Add :: "string \<Rightarrow> bool \<Rightarrow> bool \<Rightarrow> assembler \<Rightarrow> assembler_result \<times> assembler" where
  "Assembler_Add data fin frame_complete a =
     (if kMaxWebSocketMessageBytes < length (in_progress a) + length data
      then (kOversized, a\<lparr>in_progress := []\<rparr>)
      else
        (let msg = in_progress a @ data in
         if \<not> fin \<or> \<not> frame_complete then (kPartial, a\<lparr>in_progress := msg\<rparr>)
         else (kComplete,
               a\<lparr>asm_queue := push_bounded kMaxQueuedWebSocketMessages msg (asm_queue a), in_progress := []\<rparr>)))"

definition Assembler_Pop :: "assembler \<Rightarrow> string option \<times> assembler" where
  "Assembler_Pop a =
     (case asm_queue a of [] \<Rightarrow> (None, a) | m # ms \<Rightarrow> (Some m, a\<lparr>asm_queue := ms\<rparr>))"

definition HasMessage :: "assembler \<Rightarrow> bool" where
  "HasMessage a \<longleftrightarrow> asm_queue a \<noteq> []"

definition Assembler_Clear :: "assembler \<Rightarrow> assembler" where
  "Assembler_Clear a = a\<lparr>asm_queue := [], in_progress := []\<rparr>"

section \<open>Cross-task queue\<close>

definition Queue_Push :: "'a \<Rightarrow> 'a list \<Rightarrow> 'a list" where
  "Queue_Push item items = items @ [item]"

text \<open>\<open>Pop(stop_token)\<close> once it returns: \<^const>\<open>None\<close> only for a stop with nothing queued.\<close>

definition Queue_Pop :: "bool \<Rightarrow> 'a list \<Rightarrow> ('a option \<times> 'a list) option" where
  "Queue_Pop stop items =
     (case items of x # xs \<Rightarrow> Some (Some x, xs) | [] \<Rightarrow> if stop then Some (None, []) else None)"

definition Queue_TryPop :: "'a list \<Rightarrow> 'a option \<times> 'a list" where
  "Queue_TryPop items = (case items of [] \<Rightarrow> (None, []) | x # xs \<Rightarrow> (Some x, xs))"

section \<open>Backoff facts\<close>

lemma nth_delay_general:
  assumes "0 \<le> current_delay b" "current_delay b \<le> max_delay b"
  shows "nth_delay n b = min (current_delay b * 2 ^ n) (max_delay b)"
  using assms
proof (induction n arbitrary: b)
  case (Suc n)
  let ?b = "snd (NextDelay b)"
  have "nth_delay n ?b = min (current_delay ?b * 2 ^ n) (max_delay ?b)"
    using Suc by (intro Suc.IH) (auto simp: NextDelay_def)
  moreover have "min (min (c * 2) m * 2 ^ n) m = min (c * 2 ^ Suc n) m" if "0 \<le> m" for c m :: int
  proof (cases "c * 2 \<le> m")
    case False
    have "m * 1 \<le> m * 2 ^ n" using that by (intro mult_left_mono) auto
    moreover have "m * 2 ^ n \<le> c * 2 * 2 ^ n" using False by (intro mult_right_mono) auto
    moreover have "c * 2 * 2 ^ n = c * 2 ^ Suc n" by simp
    ultimately show ?thesis using False by linarith
  qed (simp add: min_def mult.assoc)
  ultimately show ?case using Suc.prems by (simp add: NextDelay_def)
qed (simp add: NextDelay_def)

text \<open>
  Exponential backoff: after a reset (or construction) the \<open>n\<close>-th consecutive failure waits
  \<open>initial * 2^n\<close> milliseconds, capped at the maximum, and never less than the initial delay.
\<close>

lemma backoff_delay:
  assumes "0 \<le> initial_delay b" "initial_delay b \<le> max_delay b"
  shows "nth_delay n (RetryBackoff_ResetAttempts b) = min (initial_delay b * 2 ^ n) (max_delay b) \<and>
         initial_delay b \<le> nth_delay n (RetryBackoff_ResetAttempts b)"
proof -
  have "initial_delay b * 1 \<le> initial_delay b * 2 ^ n" using assms(1) by (intro mult_left_mono) auto
  then show ?thesis
    using assms nth_delay_general [of "RetryBackoff_ResetAttempts b" n] by (simp add: RetryBackoff_ResetAttempts_def)
qed

section \<open>Reconnect policy facts\<close>

lemma disconnects_setup:
  "0 \<le> attempts p \<Longrightarrow> attempts p \<le> max_setup_attempts p \<Longrightarrow> i < n \<Longrightarrow>
   fst (disconnects n True p ! i) = (if int i < max_setup_attempts p - attempts p then kRetry else kGiveUp)"
proof (induction n arbitrary: p i)
  case (Suc n)
  show ?case
  proof (cases "max_setup_attempts p \<le> attempts p")
    case True
    then have "disconnects (Suc n) True p = (kGiveUp, False) # disconnects n True p"
      by (simp add: OnDisconnected_def ShouldOfferRecovery_def)
    with True Suc show ?thesis by (cases i) auto
  next
    case False
    then show ?thesis using Suc by (cases i) (auto simp: OnDisconnected_def Let_def)
  qed
qed simp

lemma disconnects_normal:
  "i < n \<Longrightarrow> disconnects n False p ! i =
     (kRetry, attempts p + int i + 1 = normal_mode_recovery_attempts p)"
proof (induction n arbitrary: p i)
  case (Suc n)
  then show ?case by (cases i) (auto simp: OnDisconnected_def ShouldOfferRecovery_def)
qed simp

text \<open>
  Reconnects to a trusted network never give up, and the recovery access point is offered on exactly
  one disconnect of an outage, the one that completes the configured number of attempts; during
  first-time setup exactly the configured number of attempts is made before giving up.
\<close>

lemma reconnect_policy:
  assumes "attempts p = 0" "0 \<le> max_setup_attempts p" "i < n"
  shows "disconnects n False p ! i = (kRetry, int i + 1 = normal_mode_recovery_attempts p) \<and>
         fst (disconnects n True p ! i) = (if int i < max_setup_attempts p then kRetry else kGiveUp)"
  using assms disconnects_normal [of i n p] disconnects_setup [of p i n] by simp

section \<open>Recovery request facts\<close>

lemma wifi_op_last_id:
  "last_id (wifi_op op p) = last_id p \<and> (pending (wifi_op op p) = pending p \<or> pending (wifi_op op p) = None) \<or>
   last_id (wifi_op op p) = last_id p + 1"
  by (cases op) (auto simp: Submit_def Take_def PendingWifi_Clear_def Let_def)

lemma wifi_ops_counter:
  "length ops < 2 ^ 32 \<Longrightarrow> \<exists>k \<le> length ops. last_id (fold wifi_op ops p) = last_id p + word_of_nat k \<and>
     (k = 0 \<longrightarrow> pending (fold wifi_op ops p) = pending p \<or> pending (fold wifi_op ops p) = None)"
proof (induction ops arbitrary: p)
  case (Cons op ops)
  let ?q = "wifi_op op p"
  obtain k where k: "k \<le> length ops" "last_id (fold wifi_op ops ?q) = last_id ?q + word_of_nat k"
    "k = 0 \<longrightarrow> pending (fold wifi_op ops ?q) = pending ?q \<or> pending (fold wifi_op ops ?q) = None"
    using Cons.IH [of ?q] Cons.prems by auto
  from wifi_op_last_id [of op p] show ?case
  proof
    assume "last_id ?q = last_id p \<and> (pending ?q = pending p \<or> pending ?q = None)"
    with k show ?thesis by (intro exI [of _ k]) auto
  next
    assume "last_id ?q = last_id p + 1"
    with k show ?thesis by (intro exI [of _ "Suc k"]) (auto simp: algebra_simps)
  qed
qed auto

text \<open>
  Only the request shown on the device can be approved. If a submission got the id \<open>shown\<close>, then after
  any further submissions, takes and clears (fewer than \<open>2^32\<close>, so that the 32-bit id cannot come
  round), taking \<open>shown\<close> yields either the very credentials submitted with it or nothing; and a
  second take of the same id yields nothing.
\<close>

lemma recovery_request_not_swapped:
  assumes "Submit ssid pw p = (Some shown, p1)" "length ops < 2 ^ 32"
    and "Take shown (fold wifi_op ops p1) = (r, p2)"
  shows "(r = None \<or> r = Some \<lparr>wc_ssid = ssid, wc_password = pw\<rparr>) \<and>
         (r \<noteq> None \<longrightarrow> fst (Take shown p2) = None)"
proof -
  have p1: "last_id p1 = shown" "pending p1 = Some \<lparr>wc_ssid = ssid, wc_password = pw\<rparr>"
    using assms(1) by (auto simp: Submit_def Let_def split: if_splits)
  obtain k where k: "k \<le> length ops" "last_id (fold wifi_op ops p1) = shown + word_of_nat k"
    "k = 0 \<longrightarrow> pending (fold wifi_op ops p1) = pending p1 \<or> pending (fold wifi_op ops p1) = None"
    using wifi_ops_counter [OF assms(2), of p1] p1 by auto
  have "k = 0" if "shown = shown + word_of_nat k"
  proof -
    have "(word_of_nat k :: u32) = 0" using that by simp
    then have "k mod 2 ^ 32 = 0" using unat_of_nat [of k, where 'a = 32] by simp
    then show ?thesis using k(1) assms(2) by simp
  qed
  then have same: "k = 0" if "shown = last_id (fold wifi_op ops p1)" using that k(2) by metis
  have "r = None \<and> p2 = fold wifi_op ops p1 \<or>
        shown = last_id (fold wifi_op ops p1) \<and> r = pending (fold wifi_op ops p1) \<and> pending p2 = None"
    using assms(3) unfolding Take_def by (metis pending_wifi_credentials.select_convs(1)
        pending_wifi_credentials.surjective pending_wifi_credentials.update_convs(1) prod.inject)
  moreover have "pending p2 = None \<Longrightarrow> fst (Take shown p2) = None" by (simp add: Take_def)
  ultimately show ?thesis using same k(3) p1(2) by metis
qed

section \<open>Assembly facts\<close>

definition assembler_inv :: "assembler \<Rightarrow> bool" where
  "assembler_inv a \<longleftrightarrow> length (asm_queue a) \<le> kMaxQueuedWebSocketMessages \<and>
     length (in_progress a) \<le> kMaxWebSocketMessageBytes \<and>
     (\<forall>m \<in> set (asm_queue a). length m \<le> kMaxWebSocketMessageBytes)"

lemma assembler_inv_Add: "assembler_inv a \<Longrightarrow> assembler_inv (snd (Assembler_Add d f c a))"
  using set_push_bounded [of kMaxQueuedWebSocketMessages "in_progress a @ d" "asm_queue a"]
  by (auto simp: assembler_inv_def Assembler_Add_def Let_def length_push_bounded)

lemma assembler_inv_Pop: "assembler_inv a \<Longrightarrow> assembler_inv (snd (Assembler_Pop a))"
  by (auto simp: assembler_inv_def Assembler_Pop_def split: list.splits)

text \<open>The chunks of one message: only the last one ends the final frame.\<close>

fun add_chunks :: "string list \<Rightarrow> assembler \<Rightarrow> assembler" where
  "add_chunks [] a = a"
| "add_chunks [c] a = snd (Assembler_Add c True True a)"
| "add_chunks (c # d # cs) a = add_chunks (d # cs) (snd (Assembler_Add c False True a))"

lemma add_chunks_queue:
  "cs \<noteq> [] \<Longrightarrow> length (in_progress a) + length (concat cs) \<le> kMaxWebSocketMessageBytes \<Longrightarrow>
   add_chunks cs a =
     a\<lparr>asm_queue := push_bounded kMaxQueuedWebSocketMessages (in_progress a @ concat cs) (asm_queue a), in_progress := []\<rparr>"
  by (induction cs a rule: add_chunks.induct) (auto simp: Assembler_Add_def Let_def)

text \<open>
  WebSocket reassembly: a burst of messages, each split into any chunks and none longer than 1 MiB,
  leaves exactly the newest 20 complete messages queued, in order and byte for byte, with nothing
  half-built left over.
\<close>

lemma assembler_reassembles:
  assumes "\<forall>cs \<in> set msgs. cs \<noteq> [] \<and> length (concat cs) \<le> kMaxWebSocketMessageBytes"
    and "in_progress a = []" "length (asm_queue a) \<le> 20"
  shows "asm_queue (fold add_chunks msgs a) =
           drop (length (asm_queue a) + length msgs - 20) (asm_queue a @ map concat msgs) \<and>
         in_progress (fold add_chunks msgs a) = []"
proof -
  have "asm_queue (fold add_chunks msgs a) = fold (push_bounded 20) (map concat msgs) (asm_queue a) \<and>
        in_progress (fold add_chunks msgs a) = []"
    using assms(1,2)
    by (induction msgs arbitrary: a) (auto simp: add_chunks_queue kMaxQueuedWebSocketMessages_def)
  then show ?thesis using fold_push_bounded [OF assms(3), of "map concat msgs"] by simp
qed

section \<open>Wake facts\<close>

text \<open>
  A reconnect request is neither lost nor served twice: a wait after a trigger returns with the trigger
  (or with a stop, which leaves it set), even when work is pending at the same time, and it consumes
  it, so the next wait does not see it again.
\<close>

lemma trigger_consumed_once:
  "Wake_Wait False w (Wake_Trigger r) = (kTriggered, False) \<and>
   Wake_Wait True w (Wake_Trigger r) = (kStopRequested, True) \<and>
   fst (Wake_Wait False w (snd (Wake_Wait False w' (Wake_Trigger r)))) = (if w then kCommandPending else kTimeout)"
  by (simp add: Wake_Wait_def Wake_Trigger_def)

end
