(* ===== verification/Harmony.thy ===== *)
theory Harmony
  imports Net Json Http Storage Power_State "HOL-Library.Sublist"
begin

text \<open>
  The Harmony hub module, \<^verbatim>\<open>src/core/harmony_connection.cpp\<close>: parsing of the hub's configuration,
  the command queue, the handshake and the connection loop.

  Everything outside the module is the environment \<open>'w harmony_env\<close>: the HTTP and WebSocket clients,
  the stop token, the steady clock and the storage the loop reads, each an operation on an abstract
  world of type \<open>'w\<close>. Whenever the loop's thread is inside one of those calls, other threads may
  queue commands or request a reconnect; \<open>arrivals\<close> gives the calls that happened meanwhile.
  \<open>published\<close> is the list of events the module has published and \<open>attempts_log\<close> the texts it handed
  to \<open>SendText\<close> with the outcome.
\<close>

section \<open>Data\<close>

record harmony_command =
  cmd_name :: string
  cmd_label :: string
  cmd_action :: string

record harmony_control_group =
  cg_name :: string
  cg_commands :: "harmony_command list"

record harmony_device =
  dev_id :: string
  dev_label :: string
  dev_control_groups :: "harmony_control_group list"

record harmony_activity =
  act_id :: string
  act_label :: string

record device_command_request =
  dc_action :: string
  dc_status :: string

record pending_command =
  pc_activity_id :: "string option"
  pc_device_command :: "device_command_request option"
  pc_enqueued_at :: ms

datatype harmony_event =
    HStateChanged harmony_connection_state
  | HConfigUpdated
  | HCurrentActivityChanged string
  | HCommandDropped

record 'w harmony =
  hc_state :: harmony_connection_state
  has_config :: bool
  hc_devices :: "harmony_device list"
  hc_activities :: "harmony_activity list"
  current_activity_id :: string
  ws_open :: bool
  hub_id :: string
  last_hub_host :: string
  backoff :: retry_backoff
  requested :: bool
  pending_commands :: "pending_command list"
  published :: "harmony_event list"
  attempts_log :: "(string \<times> bool) list"
  world :: 'w

datatype client_op =
    CStartActivity string ms
  | CDevice string string ms
  | CTrigger

record 'w harmony_env =
  http_post :: "string \<Rightarrow> string \<Rightarrow> (string \<times> string) list \<Rightarrow> 'w \<Rightarrow> http_client_response \<times> 'w"
  ws_connect :: "string \<Rightarrow> 'w \<Rightarrow> bool \<times> 'w"
  ws_send :: "string \<Rightarrow> 'w \<Rightarrow> bool \<times> 'w"
  ws_recv :: "int \<Rightarrow> 'w \<Rightarrow> string option \<times> 'w"
  ws_close :: "'w \<Rightarrow> 'w"
  steady_now :: "'w \<Rightarrow> ms \<times> 'w"
  wait_until_woken :: "ms \<Rightarrow> 'w \<Rightarrow> 'w"
  stop_requested :: "'w \<Rightarrow> bool"
  storage_of :: "'w \<Rightarrow> storage"
  arrivals :: "'w \<Rightarrow> client_op list \<times> 'w"

section \<open>Constants and addresses\<close>

definition harmony_kModuleId :: string where "harmony_kModuleId = ''harmony''"
definition kHubHostKey :: string where "kHubHostKey = ''hub_host''"
definition kMaxPendingCommands :: nat where "kMaxPendingCommands = 20"
definition kMaxDrainIterations :: nat where "kMaxDrainIterations = 20"
definition kConfigFetchTimeoutMs :: int where "kConfigFetchTimeoutMs = 10000"
definition kLivenessProbeTimeoutMs :: int where "kLivenessProbeTimeoutMs = 10000"
definition kUnconfiguredRecheckInterval :: ms where "kUnconfiguredRecheckInterval = 5000"

definition kProvisionInfoRequestBody :: string where
  "kProvisionInfoRequestBody = ''{\"id\":1,\"cmd\":\"setup.account?getProvisionInfo\",\"timeout\":90000}''"

definition kHandshakeOrigin :: string where "kHandshakeOrigin = ''http://sl.dhg.myharmony.com''"

definition HandshakeUrl :: "string \<Rightarrow> string" where
  "HandshakeUrl hub_host = ''http://'' @ hub_host @ '':8088/''"

definition WebSocketUrl :: "string \<Rightarrow> string \<Rightarrow> string" where
  "WebSocketUrl hub_host hub = ''ws://'' @ hub_host @ '':8088/?domain=svcs.myharmony.com&hubId='' @ hub"

definition IsValidHubId :: "string \<Rightarrow> bool" where
  "IsValidHubId v \<longleftrightarrow> v \<noteq> [] \<and> list_all c_isalnum v"

definition IsValidHubHost :: "string \<Rightarrow> bool" where
  "IsValidHubHost v \<longleftrightarrow> \<not> HasUnsafeHostChars v False"

definition IsValidHarmonySetting :: "string \<Rightarrow> string \<Rightarrow> bool" where
  "IsValidHarmonySetting key v \<longleftrightarrow> key \<noteq> kHubHostKey \<or> IsValidHubHost v"

section \<open>Parsing the configuration\<close>

fun NumberOrStringToString :: "json \<Rightarrow> string" where
  "NumberOrStringToString (JStr s) = s"
| "NumberOrStringToString (JInt i) = to_string (to_int64 i)"
| "NumberOrStringToString j = []"

fun ParseIdLabelItems :: "json list \<Rightarrow> harmony_activity list" where
  "ParseIdLabelItems [] = []"
| "ParseIdLabelItems (item # rest) =
     (case (is_object item, json_find ''id'' item, find_string ''label'' item) of
        (True, Some idv, Some label) \<Rightarrow>
          (let ident = NumberOrStringToString idv
           in if ident = [] then ParseIdLabelItems rest
              else \<lparr>act_id = ident, act_label = label\<rparr> # ParseIdLabelItems rest)
      | _ \<Rightarrow> ParseIdLabelItems rest)"

definition ParseIdLabelArray :: "json \<Rightarrow> harmony_activity list" where
  "ParseIdLabelArray j = (if \<not> is_array j then [] else ParseIdLabelItems (elements j))"

fun ParseFunctions :: "json list \<Rightarrow> harmony_command list" where
  "ParseFunctions [] = []"
| "ParseFunctions (item # rest) =
     (case (is_object item, find_string ''name'' item, find_string ''label'' item, find_string ''action'' item) of
        (True, Some n, Some l, Some a) \<Rightarrow>
          \<lparr>cmd_name = n, cmd_label = l, cmd_action = a\<rparr> # ParseFunctions rest
      | _ \<Rightarrow> ParseFunctions rest)"

fun ParseControlGroupItems :: "json list \<Rightarrow> harmony_control_group list" where
  "ParseControlGroupItems [] = []"
| "ParseControlGroupItems (item # rest) =
     (case (is_object item, find_string ''name'' item) of
        (True, Some n) \<Rightarrow>
          \<lparr>cg_name = n,
           cg_commands = (case find_array ''function'' item of None \<Rightarrow> [] | Some fs \<Rightarrow> ParseFunctions fs)\<rparr>
          # ParseControlGroupItems rest
      | _ \<Rightarrow> ParseControlGroupItems rest)"

definition ParseControlGroups :: "json \<Rightarrow> harmony_control_group list" where
  "ParseControlGroups j = (if \<not> is_array j then [] else ParseControlGroupItems (elements j))"

text \<open>\<^verbatim>\<open>item.value(key, json::array())\<close>.\<close>

definition value_or_array :: "string \<Rightarrow> json \<Rightarrow> json" where
  "value_or_array k j = (case json_find k j of None \<Rightarrow> JArr [] | Some v \<Rightarrow> v)"

fun ParseDeviceItems :: "json list \<Rightarrow> harmony_device list" where
  "ParseDeviceItems [] = []"
| "ParseDeviceItems (item # rest) =
     (case (is_object item, json_find ''id'' item, find_string ''label'' item) of
        (True, Some idv, Some label) \<Rightarrow>
          (let ident = NumberOrStringToString idv
           in if ident = [] then ParseDeviceItems rest
              else \<lparr>dev_id = ident, dev_label = label,
                    dev_control_groups = ParseControlGroups (value_or_array ''controlGroup'' item)\<rparr>
                   # ParseDeviceItems rest)
      | _ \<Rightarrow> ParseDeviceItems rest)"

definition ParseDevices :: "json \<Rightarrow> harmony_device list" where
  "ParseDevices j = (if \<not> is_array j then [] else ParseDeviceItems (elements j))"

section \<open>Requests\<close>

definition hbus_request :: "string \<Rightarrow> string \<Rightarrow> json \<Rightarrow> json" where
  "hbus_request hub cmd params =
     jobj [(''hubId'', JStr hub), (''timeout'', JInt 30),
           (''hbus'', jobj [(''cmd'', JStr (''vnd.logitech.harmony/vnd.logitech.harmony.engine?'' @ cmd)),
                            (''id'', JStr ''0''), (''params'', params)])]"

definition config_request :: "string \<Rightarrow> json" where
  "config_request hub = hbus_request hub ''config'' (JObj [])"

definition current_activity_request :: "string \<Rightarrow> json" where
  "current_activity_request hub = hbus_request hub ''getCurrentActivity'' (jobj [(''verb'', JStr ''get'')])"

definition start_activity_request :: "string \<Rightarrow> string \<Rightarrow> json" where
  "start_activity_request hub activity =
     hbus_request hub ''startactivity''
       (jobj [(''async'', JStr ''true''), (''timestamp'', JInt 0),
              (''args'', jobj [(''rule'', JStr ''start'')]), (''activityId'', JStr activity)])"

definition hold_action_request :: "string \<Rightarrow> string \<Rightarrow> string \<Rightarrow> json" where
  "hold_action_request hub action status =
     hbus_request hub ''holdAction''
       (jobj [(''status'', JStr status), (''timestamp'', JStr ''0''), (''verb'', JStr ''render''),
              (''action'', JStr action)])"

section \<open>Commands from other threads\<close>

definition EnqueueCommand :: "pending_command \<Rightarrow> 'w harmony \<Rightarrow> 'w harmony" where
  "EnqueueCommand c s = s\<lparr>pending_commands := push_bounded kMaxPendingCommands c (pending_commands s)\<rparr>"

interpretation harmony_queue: bounded_fifo EnqueueCommand pending_commands kMaxPendingCommands
  by unfold_locales (simp add: EnqueueCommand_def)

definition StartActivity :: "string \<Rightarrow> ms \<Rightarrow> 'w harmony \<Rightarrow> 'w harmony" where
  "StartActivity activity now s =
     EnqueueCommand \<lparr>pc_activity_id = Some activity, pc_device_command = None, pc_enqueued_at = now\<rparr> s"

definition EnqueueDeviceCommand :: "string \<Rightarrow> string \<Rightarrow> ms \<Rightarrow> 'w harmony \<Rightarrow> 'w harmony" where
  "EnqueueDeviceCommand action status now s =
     EnqueueCommand \<lparr>pc_activity_id = None,
       pc_device_command = Some \<lparr>dc_action = action, dc_status = status\<rparr>, pc_enqueued_at = now\<rparr> s"

definition PressDeviceCommand :: "string \<Rightarrow> ms \<Rightarrow> 'w harmony \<Rightarrow> 'w harmony" where
  "PressDeviceCommand action now s = EnqueueDeviceCommand action ''press'' now s"

definition HoldDeviceCommand :: "string \<Rightarrow> ms \<Rightarrow> 'w harmony \<Rightarrow> 'w harmony" where
  "HoldDeviceCommand action now s = EnqueueDeviceCommand action ''hold'' now s"

definition ReleaseDeviceCommand :: "string \<Rightarrow> ms \<Rightarrow> 'w harmony \<Rightarrow> 'w harmony" where
  "ReleaseDeviceCommand action now s = EnqueueDeviceCommand action ''release'' now s"

definition TriggerReconnect :: "'w harmony \<Rightarrow> 'w harmony" where
  "TriggerReconnect s = s\<lparr>requested := Wake_Trigger (requested s)\<rparr>"

fun client_step :: "client_op \<Rightarrow> 'w harmony \<Rightarrow> 'w harmony" where
  "client_step (CStartActivity a now) s = StartActivity a now s"
| "client_step (CDevice a st now) s = EnqueueDeviceCommand a st now s"
| "client_step CTrigger s = TriggerReconnect s"

text \<open>What other threads did while the loop's thread was inside a blocking call.\<close>

definition absorb :: "'w harmony_env \<Rightarrow> 'w harmony \<Rightarrow> 'w harmony" where
  "absorb E s = (let (ops, w') = arrivals E (world s) in fold client_step ops (s\<lparr>world := w'\<rparr>))"

section \<open>Calls into the environment\<close>

definition do_post :: "'w harmony_env \<Rightarrow> string \<Rightarrow> string \<Rightarrow> (string \<times> string) list \<Rightarrow> 'w harmony \<Rightarrow>
    http_client_response \<times> 'w harmony" where
  "do_post E url body hs s =
     (let (r, w') = http_post E url body hs (world s) in (r, absorb E (s\<lparr>world := w'\<rparr>)))"

definition do_connect :: "'w harmony_env \<Rightarrow> string \<Rightarrow> 'w harmony \<Rightarrow> bool \<times> 'w harmony" where
  "do_connect E url s = (let (r, w') = ws_connect E url (world s) in (r, absorb E (s\<lparr>world := w'\<rparr>)))"

definition do_send :: "'w harmony_env \<Rightarrow> string \<Rightarrow> 'w harmony \<Rightarrow> bool \<times> 'w harmony" where
  "do_send E text s =
     (let (r, w') = ws_send E text (world s)
      in (r, absorb E (s\<lparr>world := w', attempts_log := attempts_log s @ [(text, r)]\<rparr>)))"

definition do_recv :: "'w harmony_env \<Rightarrow> int \<Rightarrow> 'w harmony \<Rightarrow> string option \<times> 'w harmony" where
  "do_recv E timeout s = (let (r, w') = ws_recv E timeout (world s) in (r, absorb E (s\<lparr>world := w'\<rparr>)))"

definition do_close :: "'w harmony_env \<Rightarrow> 'w harmony \<Rightarrow> 'w harmony" where
  "do_close E s = s\<lparr>world := ws_close E (world s), ws_open := False\<rparr>"

definition do_now :: "'w harmony_env \<Rightarrow> 'w harmony \<Rightarrow> ms \<times> 'w harmony" where
  "do_now E s = (let (t, w') = steady_now E (world s) in (t, s\<lparr>world := w'\<rparr>))"

definition stopping :: "'w harmony_env \<Rightarrow> 'w harmony \<Rightarrow> bool" where
  "stopping E s = stop_requested E (world s)"

definition hub_host_setting :: "'w harmony_env \<Rightarrow> 'w harmony \<Rightarrow> versioned_value option" where
  "hub_host_setting E s = GetSetting (storage_of E (world s)) harmony_kModuleId kHubHostKey"

text \<open>\<open>Sleep\<close>: block in the wake channel, then read the reason off the channel's state.\<close>

definition Sleep :: "'w harmony_env \<Rightarrow> ms \<Rightarrow> bool \<Rightarrow> 'w harmony \<Rightarrow> wake_reason \<times> 'w harmony" where
  "Sleep E delay watch_commands s =
     (let s1 = absorb E (s\<lparr>world := wait_until_woken E delay (world s)\<rparr>);
          (reason, req) = Wake_Wait (stopping E s1) (watch_commands \<and> pending_commands s1 \<noteq> []) (requested s1)
      in (reason, s1\<lparr>requested := req\<rparr>))"

section \<open>State changes\<close>

definition publish :: "harmony_event \<Rightarrow> 'w harmony \<Rightarrow> 'w harmony" where
  "publish e s = s\<lparr>published := published s @ [e]\<rparr>"

definition SetState :: "harmony_connection_state \<Rightarrow> 'w harmony \<Rightarrow> 'w harmony" where
  "SetState st s = (if hc_state s = st then s else publish (HStateChanged st) (s\<lparr>hc_state := st\<rparr>))"

definition ClearConfigIfPresent :: "bool \<Rightarrow> 'w harmony \<Rightarrow> 'w harmony" where
  "ClearConfigIfPresent force_publish s =
     (let had_config = has_config s;
          s1 = (if had_config
                then s\<lparr>has_config := False, hc_devices := [], hc_activities := [], current_activity_id := []\<rparr>
                else s)
      in if had_config \<or> force_publish then publish HConfigUpdated s1 else s1)"

definition ClearPendingCommandsIfAny :: "'w harmony \<Rightarrow> 'w harmony" where
  "ClearPendingCommandsIfAny s =
     (let had = pending_commands s \<noteq> []; s1 = s\<lparr>pending_commands := []\<rparr>
      in if had then publish HCommandDropped s1 else s1)"

section \<open>Probing\<close>

fun drain_loop :: "nat \<Rightarrow> 'w harmony_env \<Rightarrow> 'w harmony \<Rightarrow> 'w harmony" where
  "drain_loop 0 E s = s"
| "drain_loop (Suc n) E s =
     (let (m, s1) = do_recv E 0 s in case m of None \<Rightarrow> s1 | Some _ \<Rightarrow> drain_loop n E s1)"

definition DrainStaleMessages :: "'w harmony_env \<Rightarrow> 'w harmony \<Rightarrow> 'w harmony" where
  "DrainStaleMessages E s = (if \<not> ws_open s then s else drain_loop kMaxDrainIterations E s)"

datatype activity_fetch_result = kOk | kTransportFailed | kParseFailed

definition parse_activity_response :: "json_lib \<Rightarrow> string \<Rightarrow> string option" where
  "parse_activity_response L text =
     (case ParseBoundedJson L text of
        None \<Rightarrow> None
      | Some response \<Rightarrow>
          (case find_object ''data'' response of
             None \<Rightarrow> None
           | Some data \<Rightarrow>
               (case json_find ''result'' data of
                  None \<Rightarrow> None
                | Some result \<Rightarrow>
                    if is_string result \<or> is_number_integer result
                    then Some (NumberOrStringToString result) else None)))"

definition FetchCurrentActivity ::
  "'w harmony_env \<Rightarrow> json_lib \<Rightarrow> 'w harmony \<Rightarrow> activity_fetch_result \<times> 'w harmony" where
  "FetchCurrentActivity E L s =
     (if \<not> ws_open s then (kTransportFailed, s)
      else
        (let (sent, s1) = do_send E (json_dump L (current_activity_request (hub_id s))) (DrainStaleMessages E s) in
         if \<not> sent then (kTransportFailed, s1)
         else if stopping E s1 then (kTransportFailed, s1)
         else
           (let (text, s2) = do_recv E kLivenessProbeTimeoutMs s1 in
            case text of
              None \<Rightarrow> (kTransportFailed, s2)
            | Some t \<Rightarrow>
                (case parse_activity_response L t of
                   None \<Rightarrow> (kParseFailed, s2)
                 | Some activity \<Rightarrow>
                     (kOk, if current_activity_id s2 \<noteq> activity
                           then publish (HCurrentActivityChanged activity) (s2\<lparr>current_activity_id := activity\<rparr>)
                           else s2)))))"

section \<open>Connecting\<close>

definition parse_remote_id :: "json_lib \<Rightarrow> string \<Rightarrow> string option" where
  "parse_remote_id L body =
     (case ParseBoundedJson L body of
        None \<Rightarrow> None
      | Some parsed \<Rightarrow>
          (case find_object ''data'' parsed of
             None \<Rightarrow> None
           | Some data \<Rightarrow> map_option NumberOrStringToString (json_find ''activeRemoteId'' data)))"

definition parse_config :: "json_lib \<Rightarrow> string \<Rightarrow> (harmony_device list \<times> harmony_activity list) option" where
  "parse_config L text =
     (case ParseBoundedJson L text of
        None \<Rightarrow> None
      | Some response \<Rightarrow>
          (case find_object ''data'' response of
             None \<Rightarrow> None
           | Some data \<Rightarrow>
               Some (ParseDevices (value_or_array ''device'' data),
                     ParseIdLabelArray (value_or_array ''activity'' data))))"

definition ConnectAndFetchConfig ::
  "'w harmony_env \<Rightarrow> json_lib \<Rightarrow> string \<Rightarrow> 'w harmony \<Rightarrow> bool \<times> 'w harmony" where
  "ConnectAndFetchConfig E L hub_host s =
     (let (handshake, s1) = do_post E (HandshakeUrl hub_host) kProvisionInfoRequestBody
                              [(''Origin'', kHandshakeOrigin)] s in
      if \<not> cr_success handshake \<or> cr_status_code handshake \<noteq> 200 then (False, s1)
      else if stopping E s1 then (False, s1)
      else case parse_remote_id L (cr_body handshake) of
        None \<Rightarrow> (False, s1)
      | Some remote \<Rightarrow>
          if \<not> IsValidHubId remote then (False, s1\<lparr>hub_id := []\<rparr>)
          else
            (let (connected, s2) = do_connect E (WebSocketUrl hub_host remote) (s1\<lparr>hub_id := remote\<rparr>) in
             if \<not> connected then (False, s2\<lparr>ws_open := False\<rparr>)
             else
               (let s3 = s2\<lparr>ws_open := True\<rparr> in
                if stopping E s3 then (False, do_close E s3)
                else
                  (let (sent, s4) = do_send E (json_dump L (config_request (hub_id s3))) (DrainStaleMessages E s3) in
                   if \<not> sent then (False, do_close E s4)
                   else if stopping E s4 then (False, do_close E s4)
                   else
                     (let (text, s5) = do_recv E kConfigFetchTimeoutMs s4 in
                      case text of
                        None \<Rightarrow> (False, do_close E s5)
                      | Some t \<Rightarrow>
                          (case parse_config L t of
                             None \<Rightarrow> (False, do_close E s5)
                           | Some (devices, activities) \<Rightarrow>
                               (let (result, s6) = FetchCurrentActivity E L
                                      (s5\<lparr>hc_devices := devices, hc_activities := activities, has_config := True\<rparr>)
                                in if result = kTransportFailed then (False, do_close E s6)
                                   else (True, s6))))))))"

section \<open>Sending queued commands\<close>

definition is_release :: "pending_command \<Rightarrow> bool" where
  "is_release c = (case pc_device_command c of None \<Rightarrow> False | Some d \<Rightarrow> dc_status d = ''release'')"

definition SendHoldAction :: "'w harmony_env \<Rightarrow> json_lib \<Rightarrow> string \<Rightarrow> string \<Rightarrow> 'w harmony \<Rightarrow> bool \<times> 'w harmony" where
  "SendHoldAction E L action status s = do_send E (json_dump L (hold_action_request (hub_id s) action status)) s"

record send_flags =
  started_activity :: bool
  dropped_stale_command :: bool
  transport_failed :: bool

text \<open>The loop over the batch; the first component says a stop request cut it short.\<close>

fun send_loop ::
  "'w harmony_env \<Rightarrow> json_lib \<Rightarrow> ms \<Rightarrow> ms \<Rightarrow> pending_command list \<Rightarrow> send_flags \<Rightarrow> 'w harmony \<Rightarrow>
   bool \<times> send_flags \<times> 'w harmony" where
  "send_loop E L max_age now [] f s = (False, f, s)"
| "send_loop E L max_age now (c # cs) f s =
     (if stopping E s then (True, f, s)
      else if \<not> is_release c \<and> max_age < now - pc_enqueued_at c
      then send_loop E L max_age now cs (f\<lparr>dropped_stale_command := True\<rparr>) s
      else if transport_failed f \<and> \<not> is_release c then send_loop E L max_age now cs f s
      else case pc_activity_id c of
        Some activity \<Rightarrow>
          (let (sent, s1) = do_send E (json_dump L (start_activity_request (hub_id s) activity)) s;
               f1 = (if sent then f\<lparr>started_activity := True\<rparr> else f\<lparr>transport_failed := True\<rparr>)
           in send_loop E L max_age now cs f1 s1)
      | None \<Rightarrow>
          (case pc_device_command c of
             Some d \<Rightarrow>
               (let (sent, s1) = SendHoldAction E L (dc_action d) (dc_status d) s;
                    f1 = (if sent then f else f\<lparr>transport_failed := True\<rparr>)
                in send_loop E L max_age now cs f1 s1)
           | None \<Rightarrow> send_loop E L max_age now cs f s))"

definition SendPendingCommands :: "'w harmony_env \<Rightarrow> json_lib \<Rightarrow> ms \<Rightarrow> 'w harmony \<Rightarrow> bool \<times> 'w harmony" where
  "SendPendingCommands E L max_age s0 =
     (let commands = pending_commands s0; s = s0\<lparr>pending_commands := []\<rparr> in
      if \<not> ws_open s then (False, if commands \<noteq> [] then publish HCommandDropped s else s)
      else
        (let (now, s1) = do_now E s;
             (stopped, f, s2) = send_loop E L max_age now commands
               \<lparr>started_activity = False, dropped_stale_command = False, transport_failed = False\<rparr> s1
         in if stopped then (False, publish HCommandDropped s2)
            else
              (let s3 = (if started_activity f \<and> \<not> stopping E s2 then snd (FetchCurrentActivity E L s2) else s2);
                   s4 = (if dropped_stale_command f \<or> transport_failed f then publish HCommandDropped s3 else s3)
               in (\<not> transport_failed f, s4))))"

section \<open>The connection loop\<close>

record harmony_config =
  liveness_interval :: ms
  max_pending_command_age :: ms

text \<open>Where the loop's thread is: at the outer \<^verbatim>\<open>while\<close>, at the connected inner \<^verbatim>\<open>while\<close>, or returned.\<close>

datatype loop_pc = Outer | Inner | Finished

definition unconfigured_pass :: "'w harmony_env \<Rightarrow> 'w harmony \<Rightarrow> 'w harmony" where
  "unconfigured_pass E s =
     (let s1 = ClearConfigIfPresent False s;
          s2 = (if last_hub_host s1 \<noteq> [] then ClearPendingCommandsIfAny s1 else s1)
      in snd (Sleep E kUnconfiguredRecheckInterval False (SetState kDisconnected s2)))"

definition retarget :: "string \<Rightarrow> 'w harmony \<Rightarrow> 'w harmony" where
  "retarget host s =
     (let s1 = (if host \<noteq> last_hub_host s
                then (let t = ClearConfigIfPresent True s
                      in if last_hub_host t \<noteq> [] then ClearPendingCommandsIfAny t else t)
                else s)
      in s1\<lparr>last_hub_host := host\<rparr>)"

definition post_connect :: "'w harmony_env \<Rightarrow> string \<Rightarrow> 'w harmony \<Rightarrow> 'w harmony" where
  "post_connect E host s =
     (let s1 = publish HConfigUpdated
                 (SetState kConnected (s\<lparr>backoff := RetryBackoff_ResetAttempts (backoff s)\<rparr>));
          unchanged = (case hub_host_setting E s1 of None \<Rightarrow> False | Some v \<Rightarrow> vv_value v = host)
      in if unchanged then s1\<lparr>requested := ClearTriggerLocked (requested s1)\<rparr> else s1)"

definition outer_pass :: "'w harmony_env \<Rightarrow> json_lib \<Rightarrow> 'w harmony \<Rightarrow> loop_pc \<times> 'w harmony" where
  "outer_pass E L s =
     (case hub_host_setting E s of
        None \<Rightarrow> (Outer, unconfigured_pass E s)
      | Some v \<Rightarrow>
          if vv_value v = [] then (Outer, unconfigured_pass E s)
          else
            (let host = vv_value v;
                 (ok, s1) = ConnectAndFetchConfig E L host (SetState kConnecting (retarget host s))
             in if \<not> ok then
                  (let s2 = SetState kHubError s1; (delay, b) = NextDelay (backoff s2)
                   in (Outer, snd (Sleep E delay False (s2\<lparr>backoff := b\<rparr>))))
                else (Inner, post_connect E host s1)))"

definition leave_inner :: "'w harmony_env \<Rightarrow> 'w harmony \<Rightarrow> loop_pc \<times> 'w harmony" where
  "leave_inner E s = (Outer, if ws_open s then do_close E s else s)"

definition inner_pass :: "'w harmony_env \<Rightarrow> json_lib \<Rightarrow> harmony_config \<Rightarrow> 'w harmony \<Rightarrow> loop_pc \<times> 'w harmony" where
  "inner_pass E L cfg s =
     (let (reason, s1) = Sleep E (liveness_interval cfg) True s in
      if reason = kStopRequested then leave_inner E s1
      else
        (let (ok, s2) = SendPendingCommands E L (max_pending_command_age cfg) s1 in
         if \<not> ok then leave_inner E s2
         else if reason = kTriggered then leave_inner E s2
         else if reason = kCommandPending then (Inner, s2)
         else
           (let (r, s3) = FetchCurrentActivity E L s2
            in if r \<noteq> kOk then leave_inner E s3 else (Inner, s3))))"

definition shutdown :: "'w harmony \<Rightarrow> 'w harmony" where
  "shutdown s = SetState kDisconnected (ClearPendingCommandsIfAny s)"

text \<open>
  One visit of the loop head. Other threads may go on enqueueing after the loop has returned: what they enqueue stays
  in the queue. (What arrives between the final drain and the return is an arrival of the first visit after it:
  it touches nothing but the queue and the trigger.)
\<close>

fun loop_step :: "'w harmony_env \<Rightarrow> json_lib \<Rightarrow> harmony_config \<Rightarrow> loop_pc \<times> 'w harmony \<Rightarrow> loop_pc \<times> 'w harmony" where
  "loop_step E L cfg (Outer, s) = (if stopping E s then (Finished, shutdown s) else outer_pass E L s)"
| "loop_step E L cfg (Inner, s) = (if stopping E s then leave_inner E s else inner_pass E L cfg s)"
| "loop_step E L cfg (Finished, s) = (Finished, absorb E s)"

definition harmony_init :: "ms \<Rightarrow> ms \<Rightarrow> 'w \<Rightarrow> 'w harmony" where
  "harmony_init initial_backoff max_backoff w =
     \<lparr>hc_state = kDisconnected, has_config = False, hc_devices = [], hc_activities = [],
      current_activity_id = [], ws_open = False, hub_id = [], last_hub_host = [],
      backoff = RetryBackoff_new initial_backoff max_backoff, requested = False, pending_commands = [],
      published = [], attempts_log = [], world = w\<rparr>"

text \<open>\<open>ConnectionLoop\<close>: the state after any number of loop-head visits.\<close>

definition ConnectionLoop ::
  "'w harmony_env \<Rightarrow> json_lib \<Rightarrow> harmony_config \<Rightarrow> nat \<Rightarrow> 'w harmony \<Rightarrow> loop_pc \<times> 'w harmony" where
  "ConnectionLoop E L cfg n s = (loop_step E L cfg ^^ n) (Outer, s)"

section \<open>What the environment can change\<close>

text \<open>Two states that differ at most in the queue, the trigger, the world and the send log.\<close>

definition quiet :: "'w harmony \<Rightarrow> 'w harmony \<Rightarrow> bool" where
  "quiet s s' \<longleftrightarrow> s' = s\<lparr>requested := requested s', pending_commands := pending_commands s',
                       attempts_log := attempts_log s', world := world s'\<rparr>"

lemma quiet_fields:
  assumes "quiet s s'"
  shows "hc_state s' = hc_state s" "has_config s' = has_config s" "hc_devices s' = hc_devices s"
    "hc_activities s' = hc_activities s" "current_activity_id s' = current_activity_id s"
    "ws_open s' = ws_open s" "hub_id s' = hub_id s" "last_hub_host s' = last_hub_host s"
    "backoff s' = backoff s" "published s' = published s"
  using arg_cong [OF assms [unfolded quiet_def], of hc_state] arg_cong [OF assms [unfolded quiet_def], of has_config]
    arg_cong [OF assms [unfolded quiet_def], of hc_devices] arg_cong [OF assms [unfolded quiet_def], of hc_activities]
    arg_cong [OF assms [unfolded quiet_def], of current_activity_id] arg_cong [OF assms [unfolded quiet_def], of ws_open]
    arg_cong [OF assms [unfolded quiet_def], of hub_id] arg_cong [OF assms [unfolded quiet_def], of last_hub_host]
    arg_cong [OF assms [unfolded quiet_def], of backoff] arg_cong [OF assms [unfolded quiet_def], of published]
  by simp_all

lemma quietI:
  assumes "hc_state s' = hc_state s" "has_config s' = has_config s" "hc_devices s' = hc_devices s"
    "hc_activities s' = hc_activities s" "current_activity_id s' = current_activity_id s"
    "ws_open s' = ws_open s" "hub_id s' = hub_id s" "last_hub_host s' = last_hub_host s"
    "backoff s' = backoff s" "published s' = published s"
  shows "quiet s s'"
  using assms by (simp add: quiet_def)

lemma quiet_refl [simp]: "quiet s s"
  by (simp add: quiet_def)

lemma quiet_trans: "quiet s t \<Longrightarrow> quiet t u \<Longrightarrow> quiet s u"
  by (rule quietI) (simp_all add: quiet_fields)

lemma quiet_client_step: "quiet s (client_step op s)"
  by (rule quietI; cases op)
     (simp_all add: StartActivity_def EnqueueDeviceCommand_def EnqueueCommand_def TriggerReconnect_def)

lemma quiet_clients: "quiet s (fold client_step ops s)"
proof (induction ops arbitrary: s)
  case (Cons op ops)
  then show ?case using quiet_trans [OF quiet_client_step [of s op]] by simp
qed simp

lemma quiet_absorb: "quiet s (absorb E s)"
proof -
  have "quiet s (s\<lparr>world := w\<rparr>)" for w by (rule quietI) simp_all
  then show ?thesis using quiet_trans [OF _ quiet_clients] by (auto simp: absorb_def split: prod.splits)
qed

lemma quiet_world_log: "quiet s (s\<lparr>world := w, attempts_log := l\<rparr>)" "quiet s (s\<lparr>world := w\<rparr>)"
  by (rule quietI; simp)+

lemma quiet_calls:
  "quiet s (snd (do_post E url b hs s))" "quiet s (snd (do_connect E url s))"
  "quiet s (snd (do_send E text s))" "quiet s (snd (do_recv E t s))" "quiet s (snd (do_now E s))"
  by (auto simp: do_post_def do_connect_def do_send_def do_recv_def do_now_def quiet_world_log
      split: prod.splits intro: quiet_trans [OF quiet_world_log(1) quiet_absorb] quiet_trans [OF quiet_world_log(2) quiet_absorb])

lemma quiet_drain_loop: "quiet s (drain_loop n E s)"
proof (induction n arbitrary: s)
  case (Suc n)
  show ?case
    using quiet_calls(4) [of s E 0] Suc quiet_trans
    by (fastforce split: prod.splits option.splits)
qed simp

lemma quiet_DrainStaleMessages: "quiet s (DrainStaleMessages E s)"
  by (simp add: DrainStaleMessages_def quiet_drain_loop)

lemma quiet_Sleep: "quiet s (snd (Sleep E d watch s))"
proof -
  let ?t = "absorb E (s\<lparr>world := wait_until_woken E d (world s)\<rparr>)"
  have "quiet ?t (?t\<lparr>requested := r\<rparr>)" for r by (rule quietI) simp_all
  moreover have "quiet s ?t" by (rule quiet_trans [OF quiet_world_log(2) quiet_absorb])
  ultimately show ?thesis by (simp add: Sleep_def Let_def case_prod_beta) (blast intro: quiet_trans)
qed

lemmas env_fields =
  quiet_fields [OF quiet_calls(1)] quiet_fields [OF quiet_calls(2)] quiet_fields [OF quiet_calls(3)]
  quiet_fields [OF quiet_calls(4)] quiet_fields [OF quiet_calls(5)] quiet_fields [OF quiet_DrainStaleMessages]
  quiet_fields [OF quiet_Sleep]

section \<open>Queue bound and event trace\<close>

text \<open>
  Replaying the published state changes from a given state; \<^const>\<open>None\<close> when one restates the
  current state.
\<close>

fun replay_states :: "harmony_connection_state \<Rightarrow> harmony_event list \<Rightarrow> harmony_connection_state option" where
  "replay_states cur [] = Some cur"
| "replay_states cur (HStateChanged st # es) = (if st = cur then None else replay_states st es)"
| "replay_states cur (e # es) = replay_states cur es"

lemma replay_states_append:
  "replay_states cur (es @ fs) = (case replay_states cur es of None \<Rightarrow> None | Some st \<Rightarrow> replay_states st fs)"
  by (induction cur es rule: replay_states.induct) auto

definition base_inv :: "'w harmony \<Rightarrow> bool" where
  "base_inv s \<longleftrightarrow> length (pending_commands s) \<le> kMaxPendingCommands \<and>
                  replay_states kDisconnected (published s) = Some (hc_state s)"

lemma base_inv_updates [simp]:
  "base_inv (s\<lparr>world := w\<rparr>) = base_inv s" "base_inv (s\<lparr>attempts_log := l\<rparr>) = base_inv s"
  "base_inv (s\<lparr>requested := r\<rparr>) = base_inv s" "base_inv (s\<lparr>hub_id := h\<rparr>) = base_inv s"
  "base_inv (s\<lparr>ws_open := b\<rparr>) = base_inv s" "base_inv (s\<lparr>backoff := bo\<rparr>) = base_inv s"
  "base_inv (s\<lparr>last_hub_host := h\<rparr>) = base_inv s" "base_inv (s\<lparr>current_activity_id := a\<rparr>) = base_inv s"
  "base_inv (s\<lparr>has_config := c\<rparr>) = base_inv s" "base_inv (s\<lparr>hc_devices := ds\<rparr>) = base_inv s"
  "base_inv (s\<lparr>hc_activities := as\<rparr>) = base_inv s"
  "base_inv (s\<lparr>world := w, attempts_log := l\<rparr>) = base_inv s"
  "base_inv (s\<lparr>hc_devices := ds, hc_activities := as, has_config := c\<rparr>) = base_inv s"
  "base_inv (s\<lparr>has_config := c, hc_devices := ds, hc_activities := as, current_activity_id := a\<rparr>) = base_inv s"
  by (simp_all add: base_inv_def)

lemma base_inv_empty_queue: "base_inv s \<Longrightarrow> base_inv (s\<lparr>pending_commands := []\<rparr>)"
  by (simp add: base_inv_def)

lemma base_inv_clients: "base_inv s \<Longrightarrow> base_inv (fold client_step ops s)"
proof (induction ops arbitrary: s)
  case (Cons op ops)
  have "base_inv (client_step op s)"
    using Cons.prems harmony_queue.items_bound
    by (cases op) (auto simp: base_inv_def StartActivity_def EnqueueDeviceCommand_def TriggerReconnect_def EnqueueCommand_def
        length_push_bounded)
  then show ?case using Cons.IH by simp
qed simp

lemma base_inv_absorb: "base_inv s \<Longrightarrow> base_inv (absorb E s)"
  by (auto simp: absorb_def base_inv_clients split: prod.splits)

lemma base_inv_calls:
  assumes "base_inv s"
  shows "base_inv (snd (do_post E url b hs s))" "base_inv (snd (do_connect E url s))"
    "base_inv (snd (do_send E text s))" "base_inv (snd (do_recv E t s))" "base_inv (snd (do_now E s))"
    "base_inv (do_close E s)" "base_inv (snd (Sleep E d watch s))"
  using assms
  by (auto simp: do_post_def do_connect_def do_send_def do_recv_def do_now_def do_close_def Sleep_def Let_def
      split: prod.splits intro!: base_inv_absorb)

lemma base_inv_publish: "base_inv s \<Longrightarrow> \<forall>st. e \<noteq> HStateChanged st \<Longrightarrow> base_inv (publish e s)"
  by (cases e) (auto simp: base_inv_def publish_def replay_states_append)

lemma base_inv_SetState: "base_inv s \<Longrightarrow> base_inv (SetState st s)"
  by (auto simp: base_inv_def SetState_def publish_def replay_states_append)

lemma base_inv_drain_loop: "base_inv s \<Longrightarrow> base_inv (drain_loop n E s)"
proof (induction n arbitrary: s)
  case (Suc n)
  from base_inv_calls(4) [OF Suc.prems, of E 0] Suc.IH show ?case
    by (auto split: prod.splits option.splits)
qed simp

lemma base_inv_Drain: "base_inv s \<Longrightarrow> base_inv (DrainStaleMessages E s)"
  by (simp add: DrainStaleMessages_def base_inv_drain_loop)

lemma base_inv_Clear:
  "base_inv s \<Longrightarrow> base_inv (ClearConfigIfPresent f s)"
  "base_inv s \<Longrightarrow> base_inv (ClearPendingCommandsIfAny s)"
  by (auto simp: ClearConfigIfPresent_def ClearPendingCommandsIfAny_def Let_def
      intro!: base_inv_publish base_inv_empty_queue)

lemma snd_eqI: "f = (a, b) \<Longrightarrow> b = snd f"
  by simp

lemma base_inv_Fetch:
  assumes "base_inv s"
  shows "base_inv (snd (FetchCurrentActivity E L s))"
proof -
  let ?s1 = "snd (do_send E (json_dump L (current_activity_request (hub_id s))) (DrainStaleMessages E s))"
  have 1: "base_inv ?s1" by (intro base_inv_calls base_inv_Drain assms)
  then have 2: "base_inv (snd (do_recv E kLivenessProbeTimeoutMs ?s1))" by (rule base_inv_calls)
  show ?thesis
    using assms 1 2 unfolding FetchCurrentActivity_def Let_def case_prod_beta
    by (auto split: option.splits intro!: base_inv_publish)
qed

lemma base_inv_send_loop: "base_inv s \<Longrightarrow> base_inv (snd (snd (send_loop E L a now cs f s)))"
proof (induction E L a now cs f s rule: send_loop.induct)
  case (2 E L max_age now c cs f s)
  have "base_inv (snd (do_send E t s))" for t using 2(6) by (rule base_inv_calls)
  then show ?case using 2 by (auto simp: SendHoldAction_def case_prod_beta Let_def split: option.splits)
qed simp

lemma base_inv_SendPending: "base_inv s \<Longrightarrow> base_inv (snd (SendPendingCommands E L a s))"
proof -
  assume s: "base_inv s"
  let ?t = "snd (do_now E (s\<lparr>pending_commands := []\<rparr>))"
  have t: "base_inv ?t" by (intro base_inv_calls base_inv_empty_queue s)
  then have "base_inv (snd (snd (send_loop E L a n cs f ?t)))" for n cs f by (rule base_inv_send_loop)
  then show ?thesis
    using s t unfolding SendPendingCommands_def Let_def case_prod_beta
    by (auto intro!: base_inv_publish base_inv_Fetch base_inv_empty_queue)
qed

lemma base_inv_Connect:
  assumes "base_inv s"
  shows "base_inv (snd (ConnectAndFetchConfig E L host s))"
proof -
  have dc: "base_inv t \<Longrightarrow> base_inv (do_close E t)" for t by (rule base_inv_calls)
  show ?thesis
    using assms unfolding ConnectAndFetchConfig_def Let_def case_prod_beta
    by (auto simp: base_inv_calls base_inv_Drain base_inv_Fetch split: option.splits intro!: dc)
qed

lemma base_inv_loop_step: "base_inv (snd p) \<Longrightarrow> base_inv (snd (loop_step E L cfg p))"
proof -
  assume inv: "base_inv (snd p)"
  obtain pc s where p: "p = (pc, s)" by force
  have s: "base_inv s" using inv p by simp
  show ?thesis
  proof (cases pc)
    case Outer
    have "base_inv (retarget h s)" for h
      using s by (auto simp: retarget_def Let_def intro!: base_inv_Clear)
    moreover have "base_inv (unconfigured_pass E s)"
      using s unfolding unconfigured_pass_def Let_def
      by (auto intro!: base_inv_calls base_inv_SetState base_inv_Clear)
    ultimately show ?thesis
      using s unfolding p Outer
      by (auto simp: outer_pass_def shutdown_def post_connect_def Let_def case_prod_beta split: option.splits
          intro!: base_inv_SetState base_inv_Clear base_inv_publish base_inv_Connect base_inv_calls)
  next
    case Inner
    have "base_inv (snd (leave_inner E t))" if "base_inv t" for t
      using that by (simp add: leave_inner_def base_inv_calls)
    moreover have sl: "base_inv (snd (Sleep E d True s))" for d using s by (rule base_inv_calls)
    moreover have "base_inv (snd (SendPendingCommands E L a (snd (Sleep E d True s))))" for a d
      by (rule base_inv_SendPending [OF sl])
    ultimately show ?thesis
      using s unfolding p Inner by (auto simp: inner_pass_def Let_def case_prod_beta base_inv_Fetch)
  next
    case Finished
    then show ?thesis using s p by (simp add: base_inv_absorb)
  qed
qed

section \<open>The socket and the program counter\<close>

lemma Fetch_fields:
  "ws_open (snd (FetchCurrentActivity E L s)) = ws_open s"
  "has_config (snd (FetchCurrentActivity E L s)) = has_config s"
  "hub_id (snd (FetchCurrentActivity E L s)) = hub_id s"
  "hc_state (snd (FetchCurrentActivity E L s)) = hc_state s"
proof -
  let ?s1 = "snd (do_send E (json_dump L (current_activity_request (hub_id s))) (DrainStaleMessages E s))"
  have 1: "quiet s ?s1" by (rule quiet_trans [OF quiet_DrainStaleMessages quiet_calls(3)])
  have 2: "quiet s (snd (do_recv E kLivenessProbeTimeoutMs ?s1))" by (rule quiet_trans [OF 1 quiet_calls(4)])
  note q = quiet_fields [OF 1] quiet_fields [OF 2]
  show "ws_open (snd (FetchCurrentActivity E L s)) = ws_open s"
    "has_config (snd (FetchCurrentActivity E L s)) = has_config s"
    "hub_id (snd (FetchCurrentActivity E L s)) = hub_id s"
    "hc_state (snd (FetchCurrentActivity E L s)) = hc_state s"
    unfolding FetchCurrentActivity_def Let_def case_prod_beta by (auto simp: q publish_def split: option.splits)
qed

lemma quiet_send_loop: "quiet s (snd (snd (send_loop E L a now cs f s)))"
proof (induction cs arbitrary: f s)
  case (Cons c cs)
  have "quiet s (snd (snd (send_loop E L a now cs f' (snd (do_send E t s)))))" for f' t
    by (rule quiet_trans [OF quiet_calls(3) Cons.IH])
  then show ?case using Cons.IH by (auto simp: SendHoldAction_def case_prod_beta Let_def split: option.splits)
qed simp

definition connected_state :: "'w harmony \<Rightarrow> bool" where
  "connected_state s \<longleftrightarrow> ws_open s \<and> has_config s \<and> IsValidHubId (hub_id s) \<and> hc_state s = kConnected"

lemma connected_quiet: "quiet s t \<Longrightarrow> connected_state t = connected_state s"
  by (simp add: connected_state_def quiet_fields)

lemma connected_publish [simp]: "connected_state (publish e s) = connected_state s"
  by (simp add: connected_state_def publish_def)

lemma connected_Fetch [simp]: "connected_state (snd (FetchCurrentActivity E L s)) = connected_state s"
  by (simp add: connected_state_def Fetch_fields)

lemma connected_SendPending: "connected_state s \<Longrightarrow> connected_state (snd (SendPendingCommands E L a s))"
proof -
  assume c: "connected_state s"
  have "quiet s (s\<lparr>pending_commands := []\<rparr>)" by (rule quietI) simp_all
  from quiet_trans [OF this quiet_calls(5)] have "connected_state (snd (do_now E (s\<lparr>pending_commands := []\<rparr>)))"
    using c connected_quiet by blast
  then have "connected_state (snd (snd (send_loop E L a n cs f (snd (do_now E (s\<lparr>pending_commands := []\<rparr>))))))" for n cs f
    using connected_quiet [OF quiet_send_loop] by blast
  moreover have "ws_open s" using c by (simp add: connected_state_def)
  ultimately show ?thesis unfolding SendPendingCommands_def Let_def case_prod_beta by simp
qed

lemma Connect_result:
  assumes "ConnectAndFetchConfig E L host s = (ok, s')" "\<not> ws_open s"
  shows "(ok \<longrightarrow> ws_open s' \<and> has_config s' \<and> IsValidHubId (hub_id s')) \<and> (\<not> ok \<longrightarrow> \<not> ws_open s')"
proof -
  show ?thesis
    using assms unfolding ConnectAndFetchConfig_def Let_def case_prod_beta
    by (auto simp: env_fields do_close_def Fetch_fields split: if_splits option.splits)
qed

definition pc_inv :: "loop_pc \<times> 'w harmony \<Rightarrow> bool" where
  "pc_inv p \<longleftrightarrow> (case fst p of
       Outer \<Rightarrow> \<not> ws_open (snd p)
     | Inner \<Rightarrow> connected_state (snd p)
     | Finished \<Rightarrow> \<not> ws_open (snd p) \<and> hc_state (snd p) = kDisconnected)"

lemma state_change_fields [simp]:
  "ws_open (SetState st s) = ws_open s" "hc_state (SetState st s) = st"
  "ws_open (ClearConfigIfPresent f s) = ws_open s" "ws_open (ClearPendingCommandsIfAny s) = ws_open s"
  "ws_open (retarget h s) = ws_open s" "pending_commands (SetState st s) = pending_commands s"
  "pending_commands (ClearPendingCommandsIfAny s) = []"
  "has_config (SetState st s) = has_config s" "hub_id (SetState st s) = hub_id s"
  by (simp_all add: SetState_def ClearConfigIfPresent_def ClearPendingCommandsIfAny_def retarget_def publish_def Let_def)

lemma pc_inv_leave: "pc_inv (leave_inner E s)"
  by (simp add: pc_inv_def leave_inner_def do_close_def)

lemma pc_inv_outer: "\<not> ws_open s \<Longrightarrow> pc_inv (outer_pass E L s)"
proof -
  assume ws: "\<not> ws_open s"
  have unc: "\<not> ws_open (unconfigured_pass E s)"
    using ws by (simp add: unconfigured_pass_def env_fields Let_def)
  have con: "connected_state (post_connect E h t)" if "ws_open t" "has_config t" "IsValidHubId (hub_id t)" for h t
    using that by (auto simp: post_connect_def connected_state_def publish_def Let_def)
  show ?thesis
  proof (cases "hub_host_setting E s")
    case None
    then show ?thesis using unc by (simp add: outer_pass_def pc_inv_def)
  next
    case (Some v)
    obtain ok t where c: "ConnectAndFetchConfig E L (vv_value v) (SetState kConnecting (retarget (vv_value v) s)) = (ok, t)"
      by force
    have "(ok \<longrightarrow> ws_open t \<and> has_config t \<and> IsValidHubId (hub_id t)) \<and> (\<not> ok \<longrightarrow> \<not> ws_open t)"
      using Connect_result [OF c] ws by simp
    with Some c unc con show ?thesis
      by (auto simp: outer_pass_def pc_inv_def env_fields Let_def split: prod.splits)
  qed
qed

lemma pc_inv_inner: "connected_state s \<Longrightarrow> pc_inv (inner_pass E L cfg s)"
proof -
  assume c: "connected_state s"
  then have "connected_state (snd (Sleep E (liveness_interval cfg) True s))"
    using connected_quiet [OF quiet_Sleep] by blast
  then have "connected_state (snd (SendPendingCommands E L a (snd (Sleep E (liveness_interval cfg) True s))))" for a
    by (rule connected_SendPending)
  then show ?thesis
    unfolding inner_pass_def Let_def case_prod_beta
    by (auto simp: pc_inv_leave) (simp_all add: pc_inv_def)
qed

lemma pc_inv_step: "pc_inv p \<Longrightarrow> pc_inv (loop_step E L cfg p)"
proof -
  assume inv: "pc_inv p"
  obtain pc s where p: "p = (pc, s)" by force
  show ?thesis
    using inv pc_inv_outer [of s E L] pc_inv_inner [of s E L cfg] pc_inv_leave [of E s]
    by (cases pc) (auto simp: p pc_inv_def shutdown_def quiet_fields [OF quiet_absorb])
qed

lemma pass_goes_on: "fst (outer_pass E L s) \<noteq> Finished" "fst (inner_pass E L cfg s) \<noteq> Finished" "fst (leave_inner E s) \<noteq> Finished"
  by (auto simp: outer_pass_def inner_pass_def leave_inner_def Let_def case_prod_beta split: option.splits)

lemma return_drains:
  assumes "fst (loop_step E L cfg p) = Finished" "fst p \<noteq> Finished"
  shows "pending_commands (snd (loop_step E L cfg p)) = []"
  using assms by (cases p; cases "fst p") (auto simp: shutdown_def pass_goes_on split: if_splits)

lemma loop_inv: "pc_inv (ConnectionLoop E L cfg n (harmony_init i m w)) \<and> base_inv (snd (ConnectionLoop E L cfg n (harmony_init i m w)))"
proof (induction n)
  case 0
  then show ?case by (simp add: ConnectionLoop_def harmony_init_def pc_inv_def base_inv_def)
next
  case (Suc n)
  then show ?case by (simp add: ConnectionLoop_def pc_inv_step base_inv_loop_step)
qed

text \<open>
  C4: The Harmony connection loop, against any hub, network, stop request and commands from other threads:
  at every visit of the loop head the command queue holds at most 20 entries and the published
  state-change events, replayed from the initial state, never restate a state and end in the current
  one; the loop is in its connected part only with an open socket, a fetched configuration, a
  validated hub id and the state connected; outside it no socket is left open; once it has returned the
  state is disconnected; and at the moment it returns nothing is queued (a command enqueued after the final
  drain stays in the queue).
\<close>

theorem harmony_loop_invariant:
  assumes "ConnectionLoop E L cfg n (harmony_init i m w) = (pc, s)"
  shows "length (pending_commands s) \<le> 20 \<and>
         replay_states kDisconnected (published s) = Some (hc_state s) \<and>
         (pc = Inner \<longrightarrow> ws_open s \<and> has_config s \<and> IsValidHubId (hub_id s) \<and> hc_state s = kConnected) \<and>
         (pc \<noteq> Inner \<longrightarrow> \<not> ws_open s) \<and>
         (pc = Finished \<longrightarrow> hc_state s = kDisconnected \<and>
            (fst (ConnectionLoop E L cfg (n - 1) (harmony_init i m w)) \<noteq> Finished \<longrightarrow> pending_commands s = []))"
proof -
  have "pending_commands s = []"
    if "pc = Finished" "fst (ConnectionLoop E L cfg (n - 1) (harmony_init i m w)) \<noteq> Finished"
  proof (cases n)
    case (Suc k)
    then show ?thesis using that assms return_drains [of E L cfg "ConnectionLoop E L cfg k (harmony_init i m w)"]
      by (simp add: ConnectionLoop_def)
  qed (use that assms in \<open>simp add: ConnectionLoop_def\<close>)
  then show ?thesis
    using loop_inv [of E L cfg n i m w] assms
    by (cases pc) (auto simp: pc_inv_def base_inv_def connected_state_def kMaxPendingCommands_def)
qed

section \<open>A concrete hub\<close>

text \<open>A hub that answers every request, no stop request, one configured address; the world is a step count.\<close>

definition sample_hub :: "nat harmony_env" where
  "sample_hub =
     \<lparr>http_post = \<lambda>url body hs w. (\<lparr>cr_success = True, cr_status_code = 200, cr_body = ''H''\<rparr>, w + 1),
      ws_connect = \<lambda>url w. (True, w + 1), ws_send = \<lambda>t w. (True, w + 1),
      ws_recv = \<lambda>t w. (if t = 0 then None else Some ''C'', w + 1), ws_close = \<lambda>w. w + 1,
      steady_now = \<lambda>w. (int w, w), wait_until_woken = \<lambda>d w. w + 1, stop_requested = \<lambda>w. False,
      storage_of = \<lambda>w. \<lparr>settings_store = \<lparr>files = [((''harmony'', ''hub_host''), Encode 1 ''hub'')],
          write_io = \<lambda>_ _. IoOk, erase_error = \<lambda>_ _. False\<rparr>,
        cache_store = \<lparr>files = [], write_io = \<lambda>_ _. IoOk, erase_error = \<lambda>_ _. False\<rparr>,
        secret_store = \<lparr>files = [], write_io = \<lambda>_ _. IoOk, erase_error = \<lambda>_ _. False\<rparr>\<rparr>,
      arrivals = \<lambda>w. ([], w)\<rparr>"

definition sample_lib :: json_lib where
  "sample_lib = \<lparr>json_parse = \<lambda>t. Some (JObj [(''data'', JObj [(''activeRemoteId'', JInt 7), (''result'', JStr ''-1'')])]),
     json_dump = \<lambda>j. ''req''\<rparr>"

theorem harmony_loop_invariant_witness:
  "ws_open (snd (ConnectionLoop sample_hub sample_lib \<lparr>liveness_interval = 30000, max_pending_command_age = 5000\<rparr> 0
     (harmony_init 2000 60000 0))) = False"
  using harmony_loop_invariant [of sample_hub sample_lib "\<lparr>liveness_interval = 30000, max_pending_command_age = 5000\<rparr>" 0
      2000 60000 0 Outer "harmony_init 2000 60000 0"]
  by (simp add: ConnectionLoop_def)

section \<open>No silent loss\<close>

lemma client_log: "attempts_log (client_step op s) = attempts_log s"
  by (cases op) (simp_all add: StartActivity_def EnqueueDeviceCommand_def EnqueueCommand_def TriggerReconnect_def)

lemma clients_log: "attempts_log (fold client_step ops s) = attempts_log s"
  by (induction ops arbitrary: s) (simp_all add: client_log)

lemma absorb_log [simp]: "attempts_log (absorb E s) = attempts_log s"
  by (simp add: absorb_def case_prod_beta clients_log)

lemma do_send_log: "attempts_log (snd (do_send E t s)) = attempts_log s @ [(t, fst (do_send E t s))]"
  by (simp add: do_send_def case_prod_beta)

lemma recv_log [simp]: "attempts_log (snd (do_recv E t s)) = attempts_log s"
  by (simp add: do_recv_def case_prod_beta)

lemma drain_log [simp]: "attempts_log (DrainStaleMessages E s) = attempts_log s"
proof -
  have "attempts_log (drain_loop n E s) = attempts_log s" for n s
    by (induction n arbitrary: s) (auto simp: case_prod_beta split: option.splits)
  then show ?thesis by (simp add: DrainStaleMessages_def)
qed

lemma Fetch_log: "\<exists>lg. attempts_log (snd (FetchCurrentActivity E L s)) = attempts_log s @ lg"
  unfolding FetchCurrentActivity_def Let_def case_prod_beta
  by (auto simp: do_send_log publish_def split: option.splits)

lemma Fetch_published:
  "\<exists>new. published (snd (FetchCurrentActivity E L s)) = published s @ new"
  unfolding FetchCurrentActivity_def Let_def case_prod_beta
  by (auto simp: env_fields publish_def split: option.splits)

text \<open>A queued command as the two entry points build it, and the text sent for it.\<close>

definition well_formed :: "pending_command \<Rightarrow> bool" where
  "well_formed c \<longleftrightarrow> (pc_activity_id c = None \<longleftrightarrow> pc_device_command c \<noteq> None)"

definition command_text :: "json_lib \<Rightarrow> string \<Rightarrow> pending_command \<Rightarrow> string" where
  "command_text L hub c =
     json_dump L (case pc_activity_id c of
         Some a \<Rightarrow> start_activity_request hub a
       | None \<Rightarrow> (case pc_device_command c of
                    Some d \<Rightarrow> hold_action_request hub (dc_action d) (dc_status d)
                  | None \<Rightarrow> JNull))"

definition batch_done :: "json_lib \<Rightarrow> string \<Rightarrow> pending_command list \<Rightarrow> send_flags \<Rightarrow> bool \<Rightarrow> send_flags \<Rightarrow>
    (string \<times> bool) list \<Rightarrow> bool" where
  "batch_done L hub cs f stopped f' lg \<longleftrightarrow>
     (transport_failed f \<longrightarrow> transport_failed f') \<and>
     (dropped_stale_command f \<longrightarrow> dropped_stale_command f') \<and>
     (\<not> stopped \<and> \<not> dropped_stale_command f' \<and> \<not> transport_failed f' \<longrightarrow>
        lg = map (\<lambda>c. (command_text L hub c, True)) cs) \<and>
     (\<not> stopped \<longrightarrow> subseq (map (command_text L hub) (filter is_release cs)) (map fst lg))"

lemma batch_done_skip:
  "batch_done L hub cs f1 stopped f' lg \<Longrightarrow> \<not> is_release c \<Longrightarrow>
   transport_failed f1 \<or> dropped_stale_command f1 \<Longrightarrow>
   (transport_failed f \<longrightarrow> transport_failed f1) \<Longrightarrow> (dropped_stale_command f \<longrightarrow> dropped_stale_command f1) \<Longrightarrow>
   batch_done L hub (c # cs) f stopped f' lg"
  by (auto simp: batch_done_def)

lemma batch_done_send:
  "batch_done L hub cs f1 stopped f' lg \<Longrightarrow> (\<not> r \<longrightarrow> transport_failed f1) \<Longrightarrow>
   (transport_failed f \<longrightarrow> transport_failed f1) \<Longrightarrow> (dropped_stale_command f \<longrightarrow> dropped_stale_command f1) \<Longrightarrow>
   batch_done L hub (c # cs) f stopped f' ((command_text L hub c, r) # lg)"
  by (auto simp: batch_done_def)

lemma send_loop_batch:
  assumes "list_all well_formed cs" "send_loop E L a now cs f s = (stopped, f', s')"
  shows "\<exists>lg. attempts_log s' = attempts_log s @ lg \<and> batch_done L (hub_id s) cs f stopped f' lg"
  using assms
proof (induction cs arbitrary: f s)
  case Nil
  then show ?case by (auto simp: batch_done_def)
next
  case (Cons c cs)
  have wf: "well_formed c" "list_all well_formed cs" using Cons.prems(1) by simp_all
  note IH = Cons.IH [OF wf(2)]
  let ?t = "command_text L (hub_id s) c"
  have go: "\<exists>lg. attempts_log s' = attempts_log s @ lg \<and> batch_done L (hub_id s) (c # cs) f stopped f' lg"
    if "send_loop E L a now cs f1 (snd (do_send E ?t s)) = (stopped, f', s')"
      "\<not> fst (do_send E ?t s) \<longrightarrow> transport_failed f1" "transport_failed f \<longrightarrow> transport_failed f1"
      "dropped_stale_command f \<longrightarrow> dropped_stale_command f1" for f1
    using IH [OF that(1)] batch_done_send [OF _ that(2-4)] by (fastforce simp: do_send_log env_fields)
  show ?case
  proof (cases "stopping E s")
    case True
    then show ?thesis using Cons.prems(2) by (auto simp: batch_done_def)
  next
    case run: False
    show ?thesis
    proof (cases "\<not> is_release c \<and> (a < now - pc_enqueued_at c \<or> transport_failed f)")
      case True
      then obtain f1 where "send_loop E L a now cs f1 s = (stopped, f', s')"
        "transport_failed f1 \<or> dropped_stale_command f1"
        "transport_failed f \<longrightarrow> transport_failed f1" "dropped_stale_command f \<longrightarrow> dropped_stale_command f1"
        using Cons.prems(2) run by (auto split: if_splits)
      then show ?thesis using IH batch_done_skip True by blast
    next
      case False
      then obtain f1 where "send_loop E L a now cs f1 (snd (do_send E ?t s)) = (stopped, f', s')"
        "\<not> fst (do_send E ?t s) \<longrightarrow> transport_failed f1" "transport_failed f \<longrightarrow> transport_failed f1"
        "dropped_stale_command f \<longrightarrow> dropped_stale_command f1"
        using Cons.prems(2) run wf(1)
        by (auto simp: well_formed_def command_text_def SendHoldAction_def case_prod_beta Let_def
            split: if_splits option.splits)
      then show ?thesis using go by blast
    qed
  qed
qed

lemma send_loop_runs:
  assumes "\<forall>w. \<not> stop_requested E w"
  shows "\<not> fst (send_loop E L a now cs f s)"
  using assms by (induction cs arbitrary: f s) (auto simp: stopping_def case_prod_beta Let_def split: option.splits)

lemma Fetch_extends:
  "\<exists>lg new. attempts_log (if b then snd (FetchCurrentActivity E L s) else s) = attempts_log s @ lg \<and>
     published (if b then snd (FetchCurrentActivity E L s) else s) = published s @ new"
proof -
  have "\<exists>lg. attempts_log (if b then snd (FetchCurrentActivity E L s) else s) = attempts_log s @ lg"
    "\<exists>new. published (if b then snd (FetchCurrentActivity E L s) else s) = published s @ new"
    using Fetch_log [of E L s] Fetch_published [of E L s] by auto
  then show ?thesis by blast
qed

text \<open>
  C2: Sending the queue never loses a command silently. Of the batch taken from the queue, if no
  command-dropped event is published then every command was handed to the socket in order and every
  send succeeded (and the call reports success); and
  unless a stop request cut the batch short, every release command is attempted, in order, even when
  it is stale or an earlier send already failed, so a held button is always let go.
  (The queue taken is one whose every entry names an activity or a device command and not both, as every
  call that enqueues makes them, and the socket is open when sending begins.)
\<close>

theorem SendPendingCommands_no_silent_loss:
  assumes "ws_open s" "list_all well_formed (pending_commands s)"
    and "SendPendingCommands E L age s = (ok, s')"
  shows "\<exists>new lg. published s' = published s @ new \<and> attempts_log s' = attempts_log s @ lg \<and>
     (HCommandDropped \<notin> set new \<longrightarrow>
        ok \<and> take (length (pending_commands s)) lg =
          map (\<lambda>c. (command_text L (hub_id s) c, True)) (pending_commands s)) \<and>
     ((\<forall>w. \<not> stop_requested E w) \<longrightarrow>
        subseq (map (command_text L (hub_id s)) (filter is_release (pending_commands s))) (map fst lg))"
proof -
  let ?q = "pending_commands s" and ?h = "hub_id s"
  let ?s0 = "s\<lparr>pending_commands := []\<rparr>"
  let ?f0 = "\<lparr>started_activity = False, dropped_stale_command = False, transport_failed = False\<rparr>"
  obtain now s1 where s1: "do_now E ?s0 = (now, s1)" by force
  obtain stopped f s2 where loop: "send_loop E L age now ?q ?f0 s1 = (stopped, f, s2)" by (metis prod_cases3)
  have base: "hub_id s1 = ?h" "attempts_log s1 = attempts_log s" "published s1 = published s"
    using s1 by (auto simp: do_now_def split: prod.splits)
  obtain lg where lg: "attempts_log s2 = attempts_log s @ lg" "batch_done L ?h ?q ?f0 stopped f lg"
    using send_loop_batch [OF assms(2) loop] base by auto
  have pub: "published s2 = published s"
    using quiet_fields(10) [OF quiet_send_loop [of s1 E L age now ?q ?f0]] loop base by simp
  have nostop: "\<not> stopped" if "\<forall>w. \<not> stop_requested E w"
    using send_loop_runs [OF that, of L age now ?q ?f0 s1] loop by simp
  define s3 where "s3 = (if started_activity f \<and> \<not> stopping E s2 then snd (FetchCurrentActivity E L s2) else s2)"
  obtain lg2 new2 where s3: "attempts_log s3 = attempts_log s2 @ lg2" "published s3 = published s2 @ new2"
    using Fetch_extends [of "started_activity f \<and> \<not> stopping E s2" E L s2] unfolding s3_def by blast
  have "SendPendingCommands E L age s = (if stopped then (False, publish HCommandDropped s2)
      else (\<not> transport_failed f, if dropped_stale_command f \<or> transport_failed f then publish HCommandDropped s3 else s3))"
    unfolding SendPendingCommands_def Let_def case_prod_beta s1 fst_conv snd_conv loop s3_def
    using assms(1) by simp
  note res = trans [OF assms(3) [symmetric] this]
  show ?thesis
  proof (cases stopped)
    case True
    then show ?thesis
      using res lg pub nostop
      by (intro exI [of _ "[HCommandDropped]"] exI [of _ lg]) (auto simp: publish_def)
  next
    case False
    let ?lost = "dropped_stale_command f \<or> transport_failed f"
    have "published s' = published s @ new2 @ (if ?lost then [HCommandDropped] else [])"
      "attempts_log s' = attempts_log s @ lg @ lg2" "ok = (\<not> transport_failed f)"
      using res False s3 lg(1) pub by (auto simp: publish_def)
    moreover have "\<not> ?lost \<Longrightarrow> take (length ?q) (lg @ lg2) = map (\<lambda>c. (command_text L ?h c, True)) ?q"
      using lg(2) False by (simp add: batch_done_def)
    moreover have "subseq (map (command_text L ?h) (filter is_release ?q)) (map fst (lg @ lg2))"
      using lg(2) False by (auto simp: batch_done_def intro: subseq_rev_drop_many list_emb_append2)
    ultimately show ?thesis
      by (intro exI [of _ "new2 @ (if ?lost then [HCommandDropped] else [])"] exI [of _ "lg @ lg2"]) auto
  qed
qed

definition sample_session :: "nat harmony" where
  "sample_session = ReleaseDeviceCommand ''vol'' (- 9000) (PressDeviceCommand ''vol'' 0
     ((harmony_init 2000 60000 0)\<lparr>ws_open := True, hub_id := ''7''\<rparr>))"

theorem SendPendingCommands_no_silent_loss_witness:
  "subseq [''req''] (map fst (attempts_log (snd (SendPendingCommands sample_hub sample_lib 5000 sample_session))))"
proof -
  let ?r = "SendPendingCommands sample_hub sample_lib 5000 sample_session"
  have q: "pending_commands sample_session =
      [\<lparr>pc_activity_id = None, pc_device_command = Some \<lparr>dc_action = ''vol'', dc_status = ''press''\<rparr>, pc_enqueued_at = 0\<rparr>,
       \<lparr>pc_activity_id = None, pc_device_command = Some \<lparr>dc_action = ''vol'', dc_status = ''release''\<rparr>, pc_enqueued_at = - 9000\<rparr>]"
    and o: "ws_open sample_session" "attempts_log sample_session = []"
    by (simp_all add: sample_session_def harmony_init_def ReleaseDeviceCommand_def PressDeviceCommand_def
        EnqueueDeviceCommand_def EnqueueCommand_def push_bounded_def kMaxPendingCommands_def)
  have "?r = (fst ?r, snd ?r)" by simp
  with SendPendingCommands_no_silent_loss [of sample_session sample_hub sample_lib 5000 "fst ?r" "snd ?r"] o
  show ?thesis by (auto simp: q well_formed_def is_release_def command_text_def sample_hub_def sample_lib_def)
qed

section \<open>Where the module connects to\<close>

lemma c_isalnum_plain: "c_isalnum c \<Longrightarrow> c \<notin> set ''&#?/@ =:''"
  by (auto simp: cpp_class byte_def)

text \<open>
  A hub address that passed validation (and is not a bracketed literal) cannot redirect the
  connection: both URLs built from it have
  exactly that host and port 8088, and a hub id that passed validation, which comes from an
  unauthenticated response, adds nothing to the query beyond its own value.
\<close>

lemma harmony_urls_hit_the_hub:
  assumes "IsValidHubHost h" "h \<noteq> []" "hd h \<noteq> CHR ''[''" "IsValidHubId hub"
  shows "url_host (HandshakeUrl h) = h \<and> url_port (HandshakeUrl h) = ''8088'' \<and>
         url_host (WebSocketUrl h hub) = h \<and> url_port (WebSocketUrl h hub) = ''8088'' \<and>
         form_fields (drop (length (''ws://'' @ h @ '':8088/?'')) (WebSocketUrl h hub)) =
           [''domain=svcs.myharmony.com'', ''hubId='' @ hub]"
proof -
  have safe: "\<not> HasUnsafeHostChars h False" using assms(1) by (simp add: IsValidHubHost_def)
  have port: "c_isdigit c" if "c \<in> set ''8088''" for c using that by (auto simp: cpp_class byte_def)
  have http: "CHR '':'' \<notin> set ''http''" and ws: "CHR '':'' \<notin> set ''ws''" by simp_all
  have "url_host (HandshakeUrl h) = h \<and> url_port (HandshakeUrl h) = ''8088''"
    using url_host_port_plain [where port = "''8088''" and path = "[]", OF http safe _ port] assms(3) by (simp add: HandshakeUrl_def)
  moreover have "url_host (WebSocketUrl h hub) = h \<and> url_port (WebSocketUrl h hub) = ''8088''"
    using url_host_port_plain [where port = "''8088''" and path = "''?domain=svcs.myharmony.com&hubId='' @ hub", OF ws safe _ port] assms(3)
    by (simp add: WebSocketUrl_def)
  moreover have "drop (length (''ws://'' @ h @ '':8088/?'')) (WebSocketUrl h hub) =
      ''domain=svcs.myharmony.com&hubId='' @ hub"
    by (simp add: WebSocketUrl_def)
  moreover have "CHR ''&'' \<notin> set hub"
    using assms(4) c_isalnum_plain by (fastforce simp: IsValidHubId_def list_all_iff)
  then have "form_fields (''domain=svcs.myharmony.com&hubId='' @ hub) =
      [''domain=svcs.myharmony.com'', ''hubId='' @ hub]"
  proof -
    assume amp: "CHR ''&'' \<notin> set hub"
    have "form_fields hub = [hub]" using amp by (subst form_fields_split) simp
    then show ?thesis by simp
  qed
  ultimately show ?thesis by simp
qed

section \<open>Stopping and retargeting\<close>

text \<open>
  A stop request ends the loop: from any loop head at which it is seen, provided closing the socket
  does not withdraw it, the loop has returned within two more visits, with the state disconnected,
  no socket open, and a command-dropped event published if commands were still queued.
\<close>

lemma stop_ends_loop:
  assumes "pc_inv (pc, s)" "stopping E s" "\<forall>w. stop_requested E w \<longrightarrow> stop_requested E (ws_close E w)"
  shows "\<exists>s'. (loop_step E L cfg ^^ 2) (pc, s) = (Finished, s') \<and> hc_state s' = kDisconnected \<and> \<not> ws_open s' \<and>
     (pc \<noteq> Finished \<and> pending_commands s \<noteq> [] \<longrightarrow> HCommandDropped \<in> set (published s'))"
proof (cases pc)
  case Outer
  then show ?thesis
    using assms by (auto simp: numeral_2_eq_2 quiet_fields [OF quiet_absorb] shutdown_def pc_inv_def SetState_def
        ClearPendingCommandsIfAny_def publish_def Let_def)
next
  case Inner
  let ?t = "do_close E s"
  have "ws_open s" using assms(1) Inner by (simp add: pc_inv_def connected_state_def)
  moreover have "stopping E ?t" using assms(2,3) by (simp add: stopping_def do_close_def)
  ultimately have "(loop_step E L cfg ^^ 2) (pc, s) = (Finished, shutdown ?t)"
    using assms(2) Inner by (simp add: numeral_2_eq_2 leave_inner_def)
  then show ?thesis
    by (auto simp: shutdown_def do_close_def SetState_def ClearPendingCommandsIfAny_def publish_def Let_def)
next
  case Finished
  then show ?thesis using assms(1) by (simp add: numeral_2_eq_2 pc_inv_def quiet_fields [OF quiet_absorb])
qed

text \<open>
  Pointing the module at a different hub discards what belongs to the old one before the new
  connection is tried: the configuration is cleared and announced, and commands queued for the
  previous hub are dropped with an event; commands queued before any hub was ever configured are
  kept; reconnecting to the same hub changes nothing.
\<close>

lemma retarget_discards_old_hub:
  "last_hub_host (retarget h s) = h \<and>
   (h = last_hub_host s \<longrightarrow> retarget h s = s) \<and>
   (h \<noteq> last_hub_host s \<longrightarrow>
      \<not> has_config (retarget h s) \<and> HConfigUpdated \<in> set (drop (length (published s)) (published (retarget h s))) \<and>
      pending_commands (retarget h s) = (if last_hub_host s = [] then pending_commands s else []) \<and>
      (last_hub_host s \<noteq> [] \<and> pending_commands s \<noteq> [] \<longrightarrow>
         HCommandDropped \<in> set (drop (length (published s)) (published (retarget h s)))))"
  by (auto simp: retarget_def ClearConfigIfPresent_def ClearPendingCommandsIfAny_def publish_def Let_def)

end
