(* ===== verification/Kodi_Json.thy ===== *)
theory Kodi_Json
  imports Json
begin

text \<open>
  Kodi's replies, \<^verbatim>\<open>src/core/kodi_json.cpp\<close> and \<^verbatim>\<open>kodi_json.h\<close>: typed field readers that never
  fail on a missing or mistyped field, clamps, and one parser per listing.

  \<open>long long\<close> values are integers reduced to 64 bits where the source reads them, \<open>int\<close> narrowings are
  \<^const>\<open>to_int32\<close>. Doubles are reals; \<open>rnd\<close> is the rounding to the nearest double.
\<close>

section \<open>Published structures (kodi_client.h)\<close>

datatype kodi_playback_state = kInactive | kPlaying | kPaused

record kodi_now_playing =
  np_playback :: kodi_playback_state
  np_speed :: int
  np_title :: string
  np_show_title :: string
  np_season :: int
  np_episode :: int
  np_media_type :: string
  np_position_ms :: int
  np_duration_ms :: int
  np_percent :: real
  np_can_seek :: bool

definition empty_now_playing :: kodi_now_playing where
  "empty_now_playing =
     \<lparr>np_playback = kInactive, np_speed = 0, np_title = [], np_show_title = [], np_season = -1,
      np_episode = -1, np_media_type = [], np_position_ms = 0, np_duration_ms = 0, np_percent = 0,
      np_can_seek = False\<rparr>"

record kodi_movie =
  movieid :: int
  movie_title :: string
  movie_year :: int
  movie_resume_position_ms :: int

record kodi_tv_show =
  tvshowid :: int
  show_name :: string
  show_year :: int
  show_episode_count :: int
  show_watched_episode_count :: int

record kodi_season =
  season_number :: int
  season_label :: string
  season_episode_count :: int
  season_watched_episode_count :: int

record kodi_episode =
  episodeid :: int
  episode_number :: int
  episode_title :: string
  episode_resume_position_ms :: int

record kodi_artist =
  artistid :: int
  artist_name :: string

record kodi_album =
  albumid :: int
  album_title :: string
  album_year :: int

record kodi_song =
  songid :: int
  song_track :: int
  song_title :: string
  song_duration_seconds :: int

record kodi_file_item =
  file_path :: string
  file_label :: string
  file_is_folder :: bool

record kodi_channel_group =
  channelgroupid :: int
  group_label :: string

record kodi_channel =
  channelid :: int
  channel_label :: string

section \<open>Field readers\<close>

definition GetInt :: "json \<Rightarrow> string \<Rightarrow> int \<Rightarrow> int" where
  "GetInt j key fallback =
     (if \<not> is_object j then fallback
      else case find_int key j of Some i \<Rightarrow> to_int64 i | None \<Rightarrow> fallback)"

definition GetDouble :: "(real \<Rightarrow> real) \<Rightarrow> json \<Rightarrow> string \<Rightarrow> real \<Rightarrow> real" where
  "GetDouble rnd j key fallback =
     (if \<not> is_object j then fallback
      else case find_number rnd key j of Some x \<Rightarrow> x | None \<Rightarrow> fallback)"

definition GetBoundedInt :: "json \<Rightarrow> string \<Rightarrow> int \<Rightarrow> int \<Rightarrow> int \<Rightarrow> int" where
  "GetBoundedInt j key fallback lo hi = to_int32 (clamp (GetInt j key fallback) lo hi)"

definition GetString :: "json \<Rightarrow> string \<Rightarrow> string \<Rightarrow> string" where
  "GetString j key fallback =
     (if \<not> is_object j then fallback
      else case find_string key j of Some s \<Rightarrow> s | None \<Rightarrow> fallback)"

definition GetBool :: "json \<Rightarrow> string \<Rightarrow> bool \<Rightarrow> bool" where
  "GetBool j key fallback =
     (if \<not> is_object j then fallback
      else case find_bool key j of Some b \<Rightarrow> b | None \<Rightarrow> fallback)"

definition kMaxVolume :: int where "kMaxVolume = 100"
definition kMaxSpeed :: int where "kMaxSpeed = 1000"
definition kMaxTimeFieldValue :: int where "kMaxTimeFieldValue = 1000000"
definition kMaxSeasonOrEpisode :: int where "kMaxSeasonOrEpisode = 1000000"

definition ClampVolume :: "int \<Rightarrow> int" where
  "ClampVolume v = to_int32 (if v < 0 then 0 else if kMaxVolume < v then kMaxVolume else v)"

definition ClampSpeed :: "int \<Rightarrow> int" where
  "ClampSpeed v = to_int32 (if v < - kMaxSpeed then - kMaxSpeed else if kMaxSpeed < v then kMaxSpeed else v)"

definition MillisFromTimeObject :: "json \<Rightarrow> int" where
  "MillisFromTimeObject t =
     (let field = (\<lambda>key. GetBoundedInt t key 0 0 kMaxTimeFieldValue);
          seconds = field ''hours'' * 3600 + field ''minutes'' * 60 + field ''seconds''
      in seconds * 1000 + field ''milliseconds'')"

definition PlaybackFromSpeed :: "int \<Rightarrow> kodi_playback_state" where
  "PlaybackFromSpeed speed = (if speed = 0 then kPaused else kPlaying)"

definition ResumePositionMs :: "(real \<Rightarrow> real) \<Rightarrow> json \<Rightarrow> int" where
  "ResumePositionMs rnd item =
     (if \<not> is_object item then 0
      else case json_find ''resume'' item of
        None \<Rightarrow> 0
      | Some resume \<Rightarrow>
          (let seconds = clamp (GetDouble rnd resume ''position'' 0) 0 (of_int kMaxTimeFieldValue * 3600)
           in floor (rnd (seconds * 1000))))"

definition TitleOrLabel :: "json \<Rightarrow> string" where
  "TitleOrLabel item =
     (let title = GetString item ''title'' [] in if title \<noteq> [] then title else GetString item ''label'' [])"

section \<open>Listings\<close>

definition ResultArray :: "json option \<Rightarrow> string \<Rightarrow> json list option" where
  "ResultArray parsed key =
     (case parsed of
        None \<Rightarrow> None
      | Some p \<Rightarrow> (case find_object ''result'' p of None \<Rightarrow> None | Some r \<Rightarrow> find_array key r))"

definition ParseList :: "json_lib \<Rightarrow> string \<Rightarrow> string \<Rightarrow> (json \<Rightarrow> 'a) \<Rightarrow> 'a list" where
  "ParseList L text key fill =
     (case ResultArray (ParseBoundedJson L text) key of None \<Rightarrow> [] | Some xs \<Rightarrow> map fill xs)"

definition ParseMovies :: "(real \<Rightarrow> real) \<Rightarrow> json_lib \<Rightarrow> string \<Rightarrow> kodi_movie list" where
  "ParseMovies rnd L text = ParseList L text ''movies'' (\<lambda>m.
     \<lparr>movieid = GetInt m ''movieid'' (-1), movie_title = TitleOrLabel m,
      movie_year = to_int32 (GetInt m ''year'' 0), movie_resume_position_ms = ResumePositionMs rnd m\<rparr>)"

definition ParseTvShows :: "json_lib \<Rightarrow> string \<Rightarrow> kodi_tv_show list" where
  "ParseTvShows L text = ParseList L text ''tvshows'' (\<lambda>s.
     \<lparr>tvshowid = GetInt s ''tvshowid'' (-1), show_name = TitleOrLabel s,
      show_year = to_int32 (GetInt s ''year'' 0), show_episode_count = to_int32 (GetInt s ''episode'' 0),
      show_watched_episode_count = to_int32 (GetInt s ''watchedepisodes'' 0)\<rparr>)"

definition ParseSeasons :: "json_lib \<Rightarrow> string \<Rightarrow> kodi_season list" where
  "ParseSeasons L text = ParseList L text ''seasons'' (\<lambda>s.
     \<lparr>season_number = to_int32 (GetInt s ''season'' 0), season_label = TitleOrLabel s,
      season_episode_count = to_int32 (GetInt s ''episode'' 0),
      season_watched_episode_count = to_int32 (GetInt s ''watchedepisodes'' 0)\<rparr>)"

definition ParseEpisodes :: "(real \<Rightarrow> real) \<Rightarrow> json_lib \<Rightarrow> string \<Rightarrow> kodi_episode list" where
  "ParseEpisodes rnd L text = ParseList L text ''episodes'' (\<lambda>e.
     \<lparr>episodeid = GetInt e ''episodeid'' (-1), episode_number = to_int32 (GetInt e ''episode'' 0),
      episode_title = TitleOrLabel e, episode_resume_position_ms = ResumePositionMs rnd e\<rparr>)"

definition ParseArtists :: "json_lib \<Rightarrow> string \<Rightarrow> kodi_artist list" where
  "ParseArtists L text = ParseList L text ''artists'' (\<lambda>a.
     \<lparr>artistid = GetInt a ''artistid'' (-1),
      artist_name = (let name = GetString a ''artist'' [] in if name \<noteq> [] then name else GetString a ''label'' [])\<rparr>)"

definition ParseAlbums :: "json_lib \<Rightarrow> string \<Rightarrow> kodi_album list" where
  "ParseAlbums L text = ParseList L text ''albums'' (\<lambda>a.
     \<lparr>albumid = GetInt a ''albumid'' (-1), album_title = TitleOrLabel a,
      album_year = to_int32 (GetInt a ''year'' 0)\<rparr>)"

definition ParseSongs :: "json_lib \<Rightarrow> string \<Rightarrow> kodi_song list" where
  "ParseSongs L text = ParseList L text ''songs'' (\<lambda>s.
     \<lparr>songid = GetInt s ''songid'' (-1), song_track = to_int32 (GetInt s ''track'' 0),
      song_title = TitleOrLabel s, song_duration_seconds = to_int32 (GetInt s ''duration'' 0)\<rparr>)"

definition ParseFileItems :: "json_lib \<Rightarrow> string \<Rightarrow> string \<Rightarrow> bool \<Rightarrow> kodi_file_item list" where
  "ParseFileItems L text result_key all_folders = ParseList L text result_key (\<lambda>f.
     \<lparr>file_path = GetString f ''file'' [], file_label = TitleOrLabel f,
      file_is_folder = (all_folders \<or> GetString f ''filetype'' [] = ''directory'')\<rparr>)"

definition ParseChannelGroups :: "json_lib \<Rightarrow> string \<Rightarrow> kodi_channel_group list" where
  "ParseChannelGroups L text = ParseList L text ''channelgroups'' (\<lambda>g.
     \<lparr>channelgroupid = GetInt g ''channelgroupid'' (-1), group_label = TitleOrLabel g\<rparr>)"

definition ParseChannels :: "json_lib \<Rightarrow> string \<Rightarrow> kodi_channel list" where
  "ParseChannels L text = ParseList L text ''channels'' (\<lambda>c.
     \<lparr>channelid = GetInt c ''channelid'' (-1), channel_label = TitleOrLabel c\<rparr>)"

section \<open>Now playing\<close>

definition ApplyItemFields :: "json \<Rightarrow> kodi_now_playing \<Rightarrow> kodi_now_playing" where
  "ApplyItemFields item np =
     (if \<not> is_object item then np
      else
        (let t0 = GetString item ''title'' [];
             title = (if t0 = [] then GetString item ''label'' [] else t0);
             np1 = (if title \<noteq> [] then np\<lparr>np_title := title\<rparr> else np);
             np2 = (case find_string ''showtitle'' item of
                      Some st \<Rightarrow> if st \<noteq> [] then np1\<lparr>np_show_title := st\<rparr> else np1
                    | None \<Rightarrow> np1);
             season = GetBoundedInt item ''season'' (-1) (-1) kMaxSeasonOrEpisode;
             np3 = (if 0 \<le> season then np2\<lparr>np_season := season\<rparr> else np2);
             episode = GetBoundedInt item ''episode'' (-1) (-1) kMaxSeasonOrEpisode;
             np4 = (if 0 \<le> episode then np3\<lparr>np_episode := episode\<rparr> else np3)
         in case find_string ''type'' item of
              Some ty \<Rightarrow> if ty \<noteq> [] \<and> ty \<noteq> ''unknown'' then np4\<lparr>np_media_type := ty\<rparr> else np4
            | None \<Rightarrow> np4))"

section \<open>Bounds\<close>

lemma GetInt_range:
  "- (2 ^ 63) \<le> fallback \<Longrightarrow> fallback < 2 ^ 63 \<Longrightarrow> - (2 ^ 63) \<le> GetInt j k fallback \<and> GetInt j k fallback < 2 ^ 63"
  using to_int64_range by (auto simp: GetInt_def split: option.splits)

lemma GetBoundedInt_range:
  "- (2 ^ 31) \<le> lo \<Longrightarrow> lo \<le> hi \<Longrightarrow> hi < 2 ^ 31 \<Longrightarrow> lo \<le> GetBoundedInt j k fb lo hi \<and> GetBoundedInt j k fb lo hi \<le> hi"
  using clamp_bounds [of lo hi "GetInt j k fb"] by (simp add: GetBoundedInt_def)

lemma ClampVolume_range: "0 \<le> ClampVolume v \<and> ClampVolume v \<le> 100"
  by (simp add: ClampVolume_def kMaxVolume_def)

lemma ClampSpeed_range: "- 1000 \<le> ClampSpeed v \<and> ClampSpeed v \<le> 1000"
  by (simp add: ClampSpeed_def kMaxSpeed_def)

lemma ClampVolume_id: "0 \<le> v \<Longrightarrow> v \<le> 100 \<Longrightarrow> ClampVolume v = v"
  by (simp add: ClampVolume_def kMaxVolume_def)

lemma ClampSpeed_id: "- 1000 \<le> v \<Longrightarrow> v \<le> 1000 \<Longrightarrow> ClampSpeed v = v"
  by (simp add: ClampSpeed_def kMaxSpeed_def)

lemma time_field: "0 \<le> GetBoundedInt t k 0 0 kMaxTimeFieldValue \<and> GetBoundedInt t k 0 0 kMaxTimeFieldValue \<le> 1000000"
  using GetBoundedInt_range [of 0 1000000 t k 0] by (simp add: kMaxTimeFieldValue_def)

text \<open>
  Whatever a (possibly hostile) Kodi sends, a time object yields a non-negative millisecond count
  that fits a 64-bit integer with room to spare, so the arithmetic behind it never overflows; and a
  well-formed object of an hour, minute, second and millisecond count in range is read exactly.
\<close>

lemma MillisFromTimeObject_bounds:
  "0 \<le> MillisFromTimeObject t \<and> MillisFromTimeObject t \<le> 3661001000000 \<and>
   (\<forall>h m s ms. t = jobj [(''hours'', JInt h), (''minutes'', JInt m), (''seconds'', JInt s), (''milliseconds'', JInt ms)] \<and>
      {h, m, s, ms} \<subseteq> {0..1000000} \<longrightarrow>
      MillisFromTimeObject t = ((h * 60 + m) * 60 + s) * 1000 + ms)"
proof (intro conjI allI impI)
  note fields = time_field [of t "''hours''"] time_field [of t "''minutes''"] time_field [of t "''seconds''"]
    time_field [of t "''milliseconds''"]
  show "0 \<le> MillisFromTimeObject t"
    using fields by (simp add: MillisFromTimeObject_def)
  show "MillisFromTimeObject t \<le> 3661001000000"
    unfolding MillisFromTimeObject_def Let_def using fields by simp
next
  fix h m s ms
  assume t: "t = jobj [(''hours'', JInt h), (''minutes'', JInt m), (''seconds'', JInt s), (''milliseconds'', JInt ms)] \<and>
      {h, m, s, ms} \<subseteq> {0..1000000}"
  have "GetBoundedInt t k 0 0 kMaxTimeFieldValue = v" if "find_int k t = Some v" "0 \<le> v" "v \<le> 1000000" for k v
    using t that by (simp add: GetBoundedInt_def GetInt_def kMaxTimeFieldValue_def)
  moreover have "find_int ''hours'' t = Some h" "find_int ''minutes'' t = Some m" "find_int ''seconds'' t = Some s"
    "find_int ''milliseconds'' t = Some ms"
    using t by (simp_all add: find_int_def json_find_jobj)
  ultimately show "MillisFromTimeObject t = ((h * 60 + m) * 60 + s) * 1000 + ms"
    using t by (simp add: MillisFromTimeObject_def Let_def algebra_simps)
qed

end
