(* ===== verification/Kodi_Client.thy ===== *)
theory Kodi_Client
  imports Kodi_Json Net Storage "HOL-Library.Monad_Syntax"
begin

text \<open>
  The Kodi module, \<^verbatim>\<open>src/core/kodi_client.cpp\<close>: discovery, the JSON-RPC call with interleaved
  notifications, library paging, the reconcile poll, the command queues and the connection loop.

  The environment is a record of operations on an abstract world, as in the Harmony model; other
  threads' calls made while the loop's thread blocks are given by \<open>k_arrivals\<close>. A call waits in a
  loop whose end depends on the clock and the peer, so operations that wait are partial:
  \<^const>\<open>None\<close> is a wait that never ends, and it is proved that it does not occur when the peer sends
  finitely many frames. Times are milliseconds.
\<close>

section \<open>Data (kodi_client.h)\<close>

datatype kodi_connection_state = KDisconnected | KConnecting | KConnected | KError

datatype kodi_input =
  kUp | kDown | kLeft | kRight | kSelect | kBack | kHome | kInfo | kContextMenu | kShowOsd

record kodi_discovered_instance =
  kd_name :: string
  kd_host :: string
  kd_uuid :: string

record kodi_snapshot =
  ks_state :: kodi_connection_state
  resolved_host :: string
  target_configured :: bool
  selected_uuid :: string
  discovered :: "kodi_discovered_instance list"
  app_version :: string
  volume :: int
  muted :: bool
  now_playing :: kodi_now_playing
  snap_library_busy :: bool

record mdns_service =
  instance_name :: string
  hostname :: string
  address :: string
  mdns_port :: nat
  txt_records :: "(string \<times> string) list"

record kodi_target =
  target_host :: string
  target_port :: nat

datatype player_kind = kPlayPause | kStop | kSeekPercent | kSeekStep | kSetSpeed

record player_command =
  pl_kind :: player_kind
  pl_value :: real

record kodi_pending_command =
  kp_player_command :: "player_command option"
  kp_method :: string
  kp_params_json :: string
  keep_when_stale :: bool
  kp_enqueued_at :: ms

datatype library_kind =
    kMovies | kTvShows | kSeasons | kEpisodes | kArtists | kAlbums | kSongs | kFileSources
  | kDirectory | kChannelGroups | kChannels

record library_request =
  lr_kind :: library_kind
  lr_parent_id :: int
  lr_season :: int
  lr_path :: string

datatype kodi_event =
    KStateChanged kodi_connection_state
  | KNowPlayingChanged
  | KMoviesFetched "kodi_movie list" bool
  | KTvShowsFetched "kodi_tv_show list" bool
  | KSeasonsFetched int "kodi_season list" bool
  | KEpisodesFetched int int "kodi_episode list" bool
  | KArtistsFetched "kodi_artist list" bool
  | KAlbumsFetched int "kodi_album list" bool
  | KSongsFetched int "kodi_song list" bool
  | KFilesFetched string "kodi_file_item list" bool
  | KChannelGroupsFetched "kodi_channel_group list" bool
  | KChannelsFetched int "kodi_channel list" bool

record 'w kodi =
  k_state :: kodi_snapshot
  k_ws_open :: bool
  next_rpc_id :: int
  last_call_timed_out :: bool
  needs_immediate_poll :: bool
  consecutive_poll_timeouts :: int
  library_busy :: bool
  identity_from_notification :: bool
  player_stop_count :: u32
  k_backoff :: retry_backoff
  no_target_backoff :: retry_backoff
  k_requested :: bool
  k_pending_commands :: "kodi_pending_command list"
  pending_library_requests :: "library_request list"
  k_published :: "kodi_event list"
  k_world :: 'w

datatype kodi_client_op =
    KCommand kodi_pending_command
  | KLibrary library_request
  | KTrigger

record 'w kodi_env =
  k_connect :: "string \<Rightarrow> 'w \<Rightarrow> bool \<times> 'w"
  k_send :: "string \<Rightarrow> 'w \<Rightarrow> bool \<times> 'w"
  k_recv :: "int \<Rightarrow> 'w \<Rightarrow> string option \<times> 'w"
  k_close :: "'w \<Rightarrow> 'w"
  k_is_open :: "'w \<Rightarrow> bool"
  k_now :: "'w \<Rightarrow> ms \<times> 'w"
  k_wait :: "ms \<Rightarrow> 'w \<Rightarrow> 'w"
  k_stop :: "'w \<Rightarrow> bool"
  k_storage :: "'w \<Rightarrow> storage"
  k_browse :: "string \<Rightarrow> ms \<Rightarrow> 'w \<Rightarrow> mdns_service list \<times> 'w"
  k_arrivals :: "'w \<Rightarrow> kodi_client_op list \<times> 'w"

record kodi_config =
  reconcile_interval :: ms
  pump_interval :: ms
  browse_timeout :: ms
  k_max_pending_command_age :: ms
  library_busy_after :: ms
  library_call_timeout :: ms

section \<open>Constants\<close>

definition kodi_kModuleId :: string where "kodi_kModuleId = ''kodi''"
definition kHostKey :: string where "kHostKey = ''host''"
definition kInstanceUuidKey :: string where "kInstanceUuidKey = ''instance_uuid''"
definition kServiceType :: string where "kServiceType = ''_xbmc-jsonrpc._tcp''"
definition kDefaultPort :: nat where "kDefaultPort = 9090"
definition kCallTimeoutMs :: ms where "kCallTimeoutMs = 8000"
definition kBusySliceSlack :: ms where "kBusySliceSlack = 5"
definition kLibraryPageSize :: nat where "kLibraryPageSize = 500"
definition kMaxLibraryItems :: nat where "kMaxLibraryItems = 10000"
definition kNoTargetMaxRecheckInterval :: ms where "kNoTargetMaxRecheckInterval = 30000"
definition kMaxPumpIterations :: nat where "kMaxPumpIterations = 32"
definition kKodiMaxPendingCommands :: nat where "kKodiMaxPendingCommands = 20"
definition kMaxToleratedPollTimeouts :: int where "kMaxToleratedPollTimeouts = 3"
definition kMaxPendingLibraryRequests :: nat where "kMaxPendingLibraryRequests = 8"

section \<open>Discovery helpers\<close>

definition instance_rank :: "mdns_service \<Rightarrow> nat" where
  "instance_rank s =
     (if address s = [] then 0 else if find_char CHR '':'' (address s) = None then 2 else 1)"

definition instance_key :: "mdns_service \<Rightarrow> string" where
  "instance_key s =
     (case map_of (txt_records s) ''uuid'' of
        Some u \<Rightarrow> if u \<noteq> [] then ''u:'' @ u
                  else ''n:'' @ instance_name s @ '':'' @ to_string (int (mdns_port s))
      | None \<Rightarrow> ''n:'' @ instance_name s @ '':'' @ to_string (int (mdns_port s)))"

text \<open>The loop over the browse result: \<open>unique\<close> and \<open>index_by_key\<close>.\<close>

fun dedup_loop :: "mdns_service list \<Rightarrow> mdns_service list \<Rightarrow> (string \<Rightarrow> nat option) \<Rightarrow> mdns_service list" where
  "dedup_loop [] unique index_by_key = unique"
| "dedup_loop (s # rest) unique index_by_key =
     (case index_by_key (instance_key s) of
        None \<Rightarrow> dedup_loop rest (unique @ [s]) (index_by_key(instance_key s \<mapsto> length unique))
      | Some i \<Rightarrow>
          if instance_rank (unique ! i) < instance_rank s then dedup_loop rest (unique[i := s]) index_by_key
          else dedup_loop rest unique index_by_key)"

definition DeduplicateInstances :: "mdns_service list \<Rightarrow> mdns_service list" where
  "DeduplicateInstances instances = dedup_loop instances [] (\<lambda>_. None)"

definition HostPortAuthority :: "string \<Rightarrow> nat \<Rightarrow> string" where
  "HostPortAuthority host port =
     (let authority = (if find_char CHR '':'' host \<noteq> None \<and> hd host \<noteq> CHR ''['' then ''['' @ host @ '']'' else host)
      in authority @ '':'' @ to_string (int port))"

definition Kodi_WebSocketUrl :: "string \<Rightarrow> nat \<Rightarrow> string" where
  "Kodi_WebSocketUrl host port = ''ws://'' @ HostPortAuthority host port @ ''/jsonrpc''"

definition IsValidKodiHost :: "string \<Rightarrow> bool" where
  "IsValidKodiHost v \<longleftrightarrow> \<not> HasUnsafeHostChars v False"

definition IsValidKodiSetting :: "string \<Rightarrow> string \<Rightarrow> bool" where
  "IsValidKodiSetting key v \<longleftrightarrow> key \<noteq> kHostKey \<or> IsValidKodiHost v"

section \<open>Commands from other threads\<close>

definition Kodi_EnqueueCommand :: "kodi_pending_command \<Rightarrow> 'w kodi \<Rightarrow> 'w kodi" where
  "Kodi_EnqueueCommand c s =
     s\<lparr>k_pending_commands := push_bounded kKodiMaxPendingCommands c (k_pending_commands s)\<rparr>"

interpretation kodi_queue: bounded_fifo Kodi_EnqueueCommand k_pending_commands kKodiMaxPendingCommands
  by unfold_locales (simp add: Kodi_EnqueueCommand_def)

definition player_pending :: "player_kind \<Rightarrow> real \<Rightarrow> bool \<Rightarrow> ms \<Rightarrow> kodi_pending_command" where
  "player_pending k v keep now =
     \<lparr>kp_player_command = Some \<lparr>pl_kind = k, pl_value = v\<rparr>, kp_method = [], kp_params_json = [],
      keep_when_stale = keep, kp_enqueued_at = now\<rparr>"

definition method_pending :: "string \<Rightarrow> string \<Rightarrow> bool \<Rightarrow> ms \<Rightarrow> kodi_pending_command" where
  "method_pending m params keep now =
     \<lparr>kp_player_command = None, kp_method = m, kp_params_json = params, keep_when_stale = keep, kp_enqueued_at = now\<rparr>"

definition PlayPause :: "ms \<Rightarrow> 'w kodi \<Rightarrow> 'w kodi" where
  "PlayPause now s = Kodi_EnqueueCommand (player_pending kPlayPause 0 False now) s"

definition StopPlayback :: "ms \<Rightarrow> 'w kodi \<Rightarrow> 'w kodi" where
  "StopPlayback now s = Kodi_EnqueueCommand (player_pending kStop 0 True now) s"

definition SeekPercent :: "real \<Rightarrow> ms \<Rightarrow> 'w kodi \<Rightarrow> 'w kodi" where
  "SeekPercent percent now s = Kodi_EnqueueCommand (player_pending kSeekPercent percent False now) s"

definition SeekStep :: "bool \<Rightarrow> ms \<Rightarrow> 'w kodi \<Rightarrow> 'w kodi" where
  "SeekStep forward now s =
     Kodi_EnqueueCommand (player_pending kSeekStep (if forward then 1 else - 1) False now) s"

definition VolumeStep :: "bool \<Rightarrow> ms \<Rightarrow> 'w kodi \<Rightarrow> 'w kodi" where
  "VolumeStep up now s =
     Kodi_EnqueueCommand (method_pending ''Application.SetVolume''
       (if up then ''{\"volume\":\"increment\"}'' else ''{\"volume\":\"decrement\"}'') False now) s"

definition SetSpeed :: "int \<Rightarrow> ms \<Rightarrow> 'w kodi \<Rightarrow> 'w kodi" where
  "SetSpeed speed now s = Kodi_EnqueueCommand (player_pending kSetSpeed (of_int speed) False now) s"

definition SetVolume :: "json_lib \<Rightarrow> int \<Rightarrow> ms \<Rightarrow> 'w kodi \<Rightarrow> 'w kodi" where
  "SetVolume L v now s =
     Kodi_EnqueueCommand
       (method_pending ''Application.SetVolume'' (json_dump L (jobj [(''volume'', JInt v)])) False now) s"

definition ToggleMute :: "ms \<Rightarrow> 'w kodi \<Rightarrow> 'w kodi" where
  "ToggleMute now s =
     Kodi_EnqueueCommand (method_pending ''Application.SetMute'' ''{\"mute\":\"toggle\"}'' True now) s"

fun InputMethod :: "kodi_input \<Rightarrow> string" where
  "InputMethod kUp = ''Input.Up''"
| "InputMethod kDown = ''Input.Down''"
| "InputMethod kLeft = ''Input.Left''"
| "InputMethod kRight = ''Input.Right''"
| "InputMethod kSelect = ''Input.Select''"
| "InputMethod kBack = ''Input.Back''"
| "InputMethod kHome = ''Input.Home''"
| "InputMethod kInfo = ''Input.Info''"
| "InputMethod kContextMenu = ''Input.ContextMenu''"
| "InputMethod kShowOsd = ''Input.ShowOSD''"

definition SendInput :: "kodi_input \<Rightarrow> ms \<Rightarrow> 'w kodi \<Rightarrow> 'w kodi" where
  "SendInput input now s = Kodi_EnqueueCommand (method_pending (InputMethod input) [] False now) s"

definition OpenLibraryItem :: "json_lib \<Rightarrow> string \<Rightarrow> int \<Rightarrow> bool \<Rightarrow> ms \<Rightarrow> 'w kodi \<Rightarrow> 'w kodi" where
  "OpenLibraryItem L id_field item resume now s =
     (let params = jobj [(''item'', jobj [(id_field, JInt item)])];
          params' = (if resume then json_set ''options'' (jobj [(''resume'', JBool True)]) params else params)
      in Kodi_EnqueueCommand (method_pending ''Player.Open'' (json_dump L params') False now) s)"

definition PlayFile :: "json_lib \<Rightarrow> string \<Rightarrow> ms \<Rightarrow> 'w kodi \<Rightarrow> 'w kodi" where
  "PlayFile L path now s =
     Kodi_EnqueueCommand
       (method_pending ''Player.Open'' (json_dump L (jobj [(''item'', jobj [(''file'', JStr path)])])) False now) s"

definition EnqueueLibraryRequest :: "library_request \<Rightarrow> 'w kodi \<Rightarrow> 'w kodi" where
  "EnqueueLibraryRequest r s =
     (if r \<in> set (pending_library_requests s) then s
      else s\<lparr>pending_library_requests := push_bounded kMaxPendingLibraryRequests r (pending_library_requests s)\<rparr>)"

definition library_request :: "library_kind \<Rightarrow> int \<Rightarrow> int \<Rightarrow> string \<Rightarrow> library_request" where
  "library_request k p se path = \<lparr>lr_kind = k, lr_parent_id = p, lr_season = se, lr_path = path\<rparr>"

definition RequestMovies :: "'w kodi \<Rightarrow> 'w kodi" where
  "RequestMovies s = EnqueueLibraryRequest (library_request kMovies 0 0 []) s"
definition RequestTvShows :: "'w kodi \<Rightarrow> 'w kodi" where
  "RequestTvShows s = EnqueueLibraryRequest (library_request kTvShows 0 0 []) s"
definition RequestSeasons :: "int \<Rightarrow> 'w kodi \<Rightarrow> 'w kodi" where
  "RequestSeasons show s = EnqueueLibraryRequest (library_request kSeasons show 0 []) s"
definition RequestEpisodes :: "int \<Rightarrow> int \<Rightarrow> 'w kodi \<Rightarrow> 'w kodi" where
  "RequestEpisodes show season s = EnqueueLibraryRequest (library_request kEpisodes show season []) s"
definition RequestArtists :: "'w kodi \<Rightarrow> 'w kodi" where
  "RequestArtists s = EnqueueLibraryRequest (library_request kArtists 0 0 []) s"
definition RequestAlbums :: "int \<Rightarrow> 'w kodi \<Rightarrow> 'w kodi" where
  "RequestAlbums artist s = EnqueueLibraryRequest (library_request kAlbums artist 0 []) s"
definition RequestSongs :: "int \<Rightarrow> 'w kodi \<Rightarrow> 'w kodi" where
  "RequestSongs album s = EnqueueLibraryRequest (library_request kSongs album 0 []) s"
definition RequestFileSources :: "'w kodi \<Rightarrow> 'w kodi" where
  "RequestFileSources s = EnqueueLibraryRequest (library_request kFileSources 0 0 []) s"
definition RequestDirectory :: "string \<Rightarrow> 'w kodi \<Rightarrow> 'w kodi" where
  "RequestDirectory path s = EnqueueLibraryRequest (library_request kDirectory 0 0 path) s"
definition RequestChannelGroups :: "'w kodi \<Rightarrow> 'w kodi" where
  "RequestChannelGroups s = EnqueueLibraryRequest (library_request kChannelGroups 0 0 []) s"
definition RequestChannels :: "int \<Rightarrow> 'w kodi \<Rightarrow> 'w kodi" where
  "RequestChannels channel_group s = EnqueueLibraryRequest (library_request kChannels channel_group 0 []) s"

definition Kodi_TriggerReconnect :: "'w kodi \<Rightarrow> 'w kodi" where
  "Kodi_TriggerReconnect s = s\<lparr>k_requested := Wake_Trigger (k_requested s)\<rparr>"

fun kodi_client_step :: "kodi_client_op \<Rightarrow> 'w kodi \<Rightarrow> 'w kodi" where
  "kodi_client_step (KCommand c) s = Kodi_EnqueueCommand c s"
| "kodi_client_step (KLibrary r) s = EnqueueLibraryRequest r s"
| "kodi_client_step KTrigger s = Kodi_TriggerReconnect s"

definition k_absorb :: "'w kodi_env \<Rightarrow> 'w kodi \<Rightarrow> 'w kodi" where
  "k_absorb E s = (let (ops, w') = k_arrivals E (k_world s) in fold kodi_client_step ops (s\<lparr>k_world := w'\<rparr>))"

section \<open>Calls into the environment\<close>

definition kdo_connect :: "'w kodi_env \<Rightarrow> string \<Rightarrow> 'w kodi \<Rightarrow> bool \<times> 'w kodi" where
  "kdo_connect E url s = (let (r, w') = k_connect E url (k_world s) in (r, k_absorb E (s\<lparr>k_world := w'\<rparr>)))"

definition kdo_send :: "'w kodi_env \<Rightarrow> string \<Rightarrow> 'w kodi \<Rightarrow> bool \<times> 'w kodi" where
  "kdo_send E text s = (let (r, w') = k_send E text (k_world s) in (r, k_absorb E (s\<lparr>k_world := w'\<rparr>)))"

definition kdo_recv :: "'w kodi_env \<Rightarrow> int \<Rightarrow> 'w kodi \<Rightarrow> string option \<times> 'w kodi" where
  "kdo_recv E t s = (let (r, w') = k_recv E t (k_world s) in (r, k_absorb E (s\<lparr>k_world := w'\<rparr>)))"

definition kdo_now :: "'w kodi_env \<Rightarrow> 'w kodi \<Rightarrow> ms \<times> 'w kodi" where
  "kdo_now E s = (let (t, w') = k_now E (k_world s) in (t, s\<lparr>k_world := w'\<rparr>))"

definition kdo_browse :: "'w kodi_env \<Rightarrow> ms \<Rightarrow> 'w kodi \<Rightarrow> mdns_service list \<times> 'w kodi" where
  "kdo_browse E t s = (let (r, w') = k_browse E kServiceType t (k_world s) in (r, k_absorb E (s\<lparr>k_world := w'\<rparr>)))"

definition kdo_close :: "'w kodi_env \<Rightarrow> 'w kodi \<Rightarrow> 'w kodi" where
  "kdo_close E s = (if k_ws_open s then s\<lparr>k_world := k_close E (k_world s), k_ws_open := False\<rparr> else s)"

definition k_stopping :: "'w kodi_env \<Rightarrow> 'w kodi \<Rightarrow> bool" where
  "k_stopping E s = k_stop E (k_world s)"

definition k_setting :: "'w kodi_env \<Rightarrow> string \<Rightarrow> 'w kodi \<Rightarrow> versioned_value option" where
  "k_setting E key s = GetSetting (k_storage E (k_world s)) kodi_kModuleId key"

definition Kodi_Sleep :: "'w kodi_env \<Rightarrow> ms \<Rightarrow> bool \<Rightarrow> 'w kodi \<Rightarrow> wake_reason \<times> 'w kodi" where
  "Kodi_Sleep E delay watch s =
     (let s1 = k_absorb E (s\<lparr>k_world := k_wait E delay (k_world s)\<rparr>);
          work = (watch \<and> (k_pending_commands s1 \<noteq> [] \<or> pending_library_requests s1 \<noteq> []));
          (reason, req) = Wake_Wait (k_stopping E s1) work (k_requested s1)
      in (reason, s1\<lparr>k_requested := req\<rparr>))"

section \<open>State changes\<close>

definition k_publish :: "kodi_event \<Rightarrow> 'w kodi \<Rightarrow> 'w kodi" where
  "k_publish e s = s\<lparr>k_published := k_published s @ [e]\<rparr>"

definition Kodi_SetState :: "kodi_connection_state \<Rightarrow> 'w kodi \<Rightarrow> 'w kodi" where
  "Kodi_SetState st s =
     (if ks_state (k_state s) = st then s
      else k_publish (KStateChanged st) (s\<lparr>k_state := (k_state s)\<lparr>ks_state := st\<rparr>\<rparr>))"

definition SetLibraryBusy :: "bool \<Rightarrow> 'w kodi \<Rightarrow> 'w kodi" where
  "SetLibraryBusy busy s =
     (if library_busy s = busy then s
      else k_publish KNowPlayingChanged
             (s\<lparr>library_busy := busy, k_state := (k_state s)\<lparr>snap_library_busy := busy\<rparr>\<rparr>))"

definition publish_if :: "bool \<Rightarrow> 'w kodi \<Rightarrow> 'w kodi" where
  "publish_if changed s = (if changed then k_publish KNowPlayingChanged s else s)"

section \<open>Target resolution\<close>

definition service_host :: "mdns_service \<Rightarrow> string" where
  "service_host s = (if address s \<noteq> [] then address s else hostname s)"

definition usable_service :: "mdns_service \<Rightarrow> bool" where
  "usable_service s \<longleftrightarrow>
     \<not> (service_host s = [] \<or> mdns_port s = 0 \<or> HasUnsafeHostChars (service_host s) True)"

definition choose_instance :: "string \<Rightarrow> mdns_service list \<Rightarrow> mdns_service option" where
  "choose_instance uuid instances =
     (let chosen = (if uuid \<noteq> [] then List.find (\<lambda>s. map_of (txt_records s) ''uuid'' = Some uuid) instances
                    else if length instances = 1 then Some (hd instances) else None)
      in case chosen of None \<Rightarrow> None | Some s \<Rightarrow> if address s = [] then None else Some s)"

definition discovered_entry :: "mdns_service \<Rightarrow> kodi_discovered_instance" where
  "discovered_entry s =
     \<lparr>kd_name = instance_name s, kd_host = service_host s,
      kd_uuid = (case map_of (txt_records s) ''uuid'' of Some u \<Rightarrow> u | None \<Rightarrow> [])\<rparr>"

definition ResolveTarget :: "'w kodi_env \<Rightarrow> kodi_config \<Rightarrow> 'w kodi \<Rightarrow> kodi_target option \<times> 'w kodi" where
  "ResolveTarget E cfg s =
     (let manual = (case k_setting E kHostKey s of
                      Some v \<Rightarrow> if vv_value v \<noteq> [] \<and> IsValidKodiHost (vv_value v) then Some (vv_value v) else None
                    | None \<Rightarrow> None)
      in case manual of
           Some host \<Rightarrow>
             (Some \<lparr>target_host = host, target_port = kDefaultPort\<rparr>,
              s\<lparr>k_state := (k_state s)\<lparr>resolved_host := host, target_configured := True,
                                     selected_uuid := [], discovered := []\<rparr>\<rparr>)
         | None \<Rightarrow>
             (let (found, s1) = kdo_browse E (browse_timeout cfg) s;
                  instances = DeduplicateInstances (filter usable_service found);
                  uuid = (case k_setting E kInstanceUuidKey s1 of Some v \<Rightarrow> vv_value v | None \<Rightarrow> []);
                  chosen = choose_instance uuid instances;
                  target = map_option (\<lambda>c. \<lparr>target_host = address c, target_port = mdns_port c\<rparr>) chosen;
                  resolved = (case chosen of Some c \<Rightarrow> HostPortAuthority (address c) (mdns_port c) | None \<Rightarrow> [])
              in (target,
                  s1\<lparr>k_state := (k_state s1)\<lparr>discovered := map discovered_entry instances, resolved_host := resolved,
                       target_configured := (uuid \<noteq> []), selected_uuid := uuid\<rparr>\<rparr>)))"

section \<open>Notifications\<close>

definition with_np :: "kodi_now_playing \<Rightarrow> 'w kodi \<Rightarrow> 'w kodi" where
  "with_np np s = s\<lparr>k_state := (k_state s)\<lparr>now_playing := np\<rparr>\<rparr>"

definition playing_something :: "'w kodi \<Rightarrow> bool" where
  "playing_something s \<longleftrightarrow>
     np_playback (now_playing (k_state s)) \<noteq> kInactive \<or> np_title (now_playing (k_state s)) \<noteq> []"

definition apply_volume_notification :: "json \<Rightarrow> 'w kodi \<Rightarrow> bool \<times> 'w kodi" where
  "apply_volume_notification data s =
     (let (c1, s1) = (case find_int ''volume'' data of
                        Some v \<Rightarrow> (True, s\<lparr>k_state := (k_state s)\<lparr>volume := ClampVolume (to_int64 v)\<rparr>\<rparr>)
                      | None \<Rightarrow> (False, s))
      in case find_bool ''muted'' data of
           Some m \<Rightarrow> (True, s1\<lparr>k_state := (k_state s1)\<lparr>muted := m\<rparr>\<rparr>)
         | None \<Rightarrow> (c1, s1))"

definition apply_stop_notification :: "'w kodi \<Rightarrow> bool \<times> 'w kodi" where
  "apply_stop_notification s =
     (let s1 = s\<lparr>player_stop_count := player_stop_count s + 1\<rparr>;
          (c, s2) = (if playing_something s1 then (True, with_np empty_now_playing s1) else (False, s1))
      in (c, s2\<lparr>identity_from_notification := False\<rparr>))"

definition apply_player_notification :: "string \<Rightarrow> json \<Rightarrow> 'w kodi \<Rightarrow> bool \<times> 'w kodi" where
  "apply_player_notification meth data s =
     (let s1 = (case json_find ''item'' data of
                  Some item \<Rightarrow>
                    (let np = now_playing (k_state s);
                         np1 = (if meth = ''Player.OnPlay''
                                then np\<lparr>np_title := [], np_show_title := [], np_season := -1, np_episode := -1,
                                        np_media_type := []\<rparr>
                                else np)
                     in (with_np (ApplyItemFields item np1) s)\<lparr>identity_from_notification := True\<rparr>)
                | None \<Rightarrow> s);
          np = now_playing (k_state s1);
          speed = (case find_object ''player'' data of
                     Some p \<Rightarrow> (case find_int ''speed'' p of Some v \<Rightarrow> ClampSpeed (to_int64 v) | None \<Rightarrow> np_speed np)
                   | None \<Rightarrow> np_speed np);
          s2 = with_np (np\<lparr>np_speed := speed, np_playback := PlaybackFromSpeed speed\<rparr>) s1
      in (True, s2\<lparr>needs_immediate_poll := True\<rparr>))"

definition notification_data :: "json \<Rightarrow> json" where
  "notification_data frame =
     (case find_object ''params'' frame of
        None \<Rightarrow> JObj []
      | Some p \<Rightarrow> (case find_object ''data'' p of None \<Rightarrow> JObj [] | Some d \<Rightarrow> d))"

definition HandleNotification :: "json_lib \<Rightarrow> string \<Rightarrow> 'w kodi \<Rightarrow> 'w kodi" where
  "HandleNotification L text s =
     (case TryParseJsonObject L text of
        None \<Rightarrow> s
      | Some frame \<Rightarrow>
          (case find_string ''method'' frame of
             None \<Rightarrow> if find_int ''id'' frame \<noteq> None then SetLibraryBusy False s else s
           | Some meth \<Rightarrow>
               (let data = notification_data frame;
                    (changed, s1) =
                      (if meth = ''Application.OnVolumeChanged'' then apply_volume_notification data s
                       else if meth = ''Player.OnStop'' then apply_stop_notification s
                       else if take 9 meth = ''Player.On'' then apply_player_notification meth data s
                       else (False, s))
                in publish_if changed s1)))"

fun pump_loop :: "nat \<Rightarrow> 'w kodi_env \<Rightarrow> json_lib \<Rightarrow> 'w kodi \<Rightarrow> 'w kodi" where
  "pump_loop 0 E L s = s"
| "pump_loop (Suc n) E L s =
     (let (text, s1) = kdo_recv E 0 s
      in case text of None \<Rightarrow> s1 | Some t \<Rightarrow> pump_loop n E L (HandleNotification L t s1))"

definition PumpNotifications :: "'w kodi_env \<Rightarrow> json_lib \<Rightarrow> 'w kodi \<Rightarrow> 'w kodi" where
  "PumpNotifications E L s = (if \<not> k_ws_open s then s else pump_loop kMaxPumpIterations E L s)"

section \<open>JSON-RPC calls\<close>

definition rpc_request :: "json_lib \<Rightarrow> int \<Rightarrow> string \<Rightarrow> string \<Rightarrow> json" where
  "rpc_request L ident meth params_json =
     (let request = jobj [(''jsonrpc'', JStr ''2.0''), (''id'', JInt ident), (''method'', JStr meth)]
      in if params_json = [] then request
         else case ParseBoundedJson L params_json of
                None \<Rightarrow> request
              | Some params \<Rightarrow> json_set ''params'' params request)"

text \<open>
  What one received frame does to the wait: \<^const>\<open>True\<close> means it is the reply waited for.
\<close>

definition handle_frame :: "json_lib \<Rightarrow> int \<Rightarrow> string \<Rightarrow> 'w kodi \<Rightarrow> bool \<times> 'w kodi" where
  "handle_frame L ident text s =
     (case TryParseJsonObject L text of
        None \<Rightarrow> (False, s)
      | Some frame \<Rightarrow>
          (let (ours, s1) = (case find_int ''id'' frame of
                               Some i \<Rightarrow> (to_int32 i = ident, SetLibraryBusy False s)
                             | None \<Rightarrow> (False, s))
           in if ours then (True, s1)
              else (False, if json_find ''method'' frame \<noteq> None then HandleNotification L text s1 else s1)))"

text \<open>The waiting loop of \<open>Call\<close>.\<close>

partial_function (option) call_loop ::
  "'w kodi_env \<Rightarrow> json_lib \<Rightarrow> int \<Rightarrow> ms \<Rightarrow> ms \<Rightarrow> bool \<Rightarrow> 'w kodi \<Rightarrow> (string option \<times> 'w kodi) option" where
  "call_loop E L ident deadline busy_at report_busy s =
     (if k_stopping E s then Some (None, s)
      else
        (let (now, s1) = kdo_now E s in
         if deadline \<le> now then Some (None, s1\<lparr>last_call_timed_out := k_is_open E (k_world s1)\<rparr>)
         else
           (let wait_until = (if report_busy \<and> \<not> library_busy s1 \<and> now < busy_at then min deadline busy_at else deadline);
                (text, s2) = kdo_recv E (max (wait_until - now) 1) s1
            in case text of
                 None \<Rightarrow>
                   if wait_until < deadline \<and> k_is_open E (k_world s2) then
                     (let (now2, s3) = kdo_now E s2 in
                      if wait_until - kBusySliceSlack \<le> now2
                      then call_loop E L ident deadline busy_at report_busy (SetLibraryBusy True s3)
                      else Some (None, s3\<lparr>last_call_timed_out := k_is_open E (k_world s3)\<rparr>))
                   else Some (None, s2\<lparr>last_call_timed_out := k_is_open E (k_world s2)\<rparr>)
               | Some t \<Rightarrow>
                   (let (ours, s3) = handle_frame L ident t s2
                    in if ours then Some (Some t, s3)
                       else call_loop E L ident deadline busy_at report_busy s3))))"

definition Call :: "'w kodi_env \<Rightarrow> json_lib \<Rightarrow> kodi_config \<Rightarrow> string \<Rightarrow> string \<Rightarrow> ms \<Rightarrow> bool \<Rightarrow> 'w kodi \<Rightarrow>
    (string option \<times> 'w kodi) option" where
  "Call E L cfg meth params_json timeout_ms report_busy s =
     (if \<not> k_ws_open s then Some (None, s)
      else
        (let ident = next_rpc_id s + 1;
             s1 = s\<lparr>last_call_timed_out := False, next_rpc_id := ident\<rparr>;
             (sent, s2) = kdo_send E (json_dump L (rpc_request L ident meth params_json)) s1
         in if \<not> sent then Some (None, s2)
            else
              (let (started, s3) = kdo_now E s2
               in call_loop E L ident (started + timeout_ms) (started + library_busy_after cfg) report_busy s3)))"

section \<open>Sending commands\<close>

definition result_of :: "json_lib \<Rightarrow> string \<Rightarrow> json option" where
  "result_of L text =
     (case ParseBoundedJson L text of None \<Rightarrow> None | Some p \<Rightarrow> json_find ''result'' p)"

definition active_player_id :: "json_lib \<Rightarrow> string \<Rightarrow> int option" where
  "active_player_id L text =
     (case result_of L text of
        Some (JArr (p # ps)) \<Rightarrow> Some (to_int32 (GetInt p ''playerid'' (-1)))
      | _ \<Rightarrow> None)"

definition ResolveActivePlayerId :: "'w kodi_env \<Rightarrow> json_lib \<Rightarrow> kodi_config \<Rightarrow> 'w kodi \<Rightarrow> (int \<times> 'w kodi) option" where
  "ResolveActivePlayerId E L cfg s =
     do {
       (text, s1) \<leftarrow> Call E L cfg ''Player.GetActivePlayers'' [] kCallTimeoutMs False s;
       Some (case text of
               None \<Rightarrow> -1
             | Some t \<Rightarrow> (case active_player_id L t of Some i \<Rightarrow> i | None \<Rightarrow> -1), s1)
     }"

definition player_request :: "int \<Rightarrow> player_command \<Rightarrow> string \<times> json" where
  "player_request player_id pc =
     (let params = jobj [(''playerid'', JInt player_id)] in
      case pl_kind pc of
        kPlayPause \<Rightarrow> (''Player.PlayPause'', params)
      | kStop \<Rightarrow> (''Player.Stop'', params)
      | kSeekPercent \<Rightarrow>
          (''Player.Seek'', json_set ''value'' (jobj [(''percentage'', JFloat (pl_value pc))]) params)
      | kSeekStep \<Rightarrow>
          (''Player.Seek'',
           json_set ''value'' (JStr (if 0 < pl_value pc then ''smallforward'' else ''smallbackward'')) params)
      | kSetSpeed \<Rightarrow>
          (''Player.SetSpeed'', json_set ''speed'' (JInt (to_int32 (if 0 \<le> pl_value pc then floor (pl_value pc) else ceiling (pl_value pc)))) params))"

text \<open>The request a queued command becomes; \<^const>\<open>None\<close> when a player command has no player.\<close>

definition command_request :: "json_lib \<Rightarrow> int \<Rightarrow> kodi_pending_command \<Rightarrow> (string \<times> string) option" where
  "command_request L player_id c =
     (case kp_player_command c of
        Some pc \<Rightarrow>
          if player_id < 0 then None
          else (let (meth, params) = player_request player_id pc in Some (meth, json_dump L params))
      | None \<Rightarrow> Some (kp_method c, kp_params_json c))"

text \<open>The loop over the batch: \<^const>\<open>None\<close> is the early return on a stop request.\<close>

fun kodi_send_loop ::
  "'w kodi_env \<Rightarrow> json_lib \<Rightarrow> ms \<Rightarrow> ms \<Rightarrow> int \<Rightarrow> kodi_pending_command list \<Rightarrow> bool \<Rightarrow> 'w kodi \<Rightarrow>
   bool option \<times> 'w kodi" where
  "kodi_send_loop E L age now player_id [] failed s = (Some failed, s)"
| "kodi_send_loop E L age now player_id (c # cs) failed s =
     (if k_stopping E s then (None, s)
      else if \<not> keep_when_stale c \<and> age < now - kp_enqueued_at c then kodi_send_loop E L age now player_id cs failed s
      else if failed \<and> \<not> keep_when_stale c then kodi_send_loop E L age now player_id cs failed s
      else case command_request L player_id c of
        None \<Rightarrow> kodi_send_loop E L age now player_id cs failed s
      | Some (meth, params_json) \<Rightarrow>
          (let ident = next_rpc_id s + 1;
               (sent, s1) = kdo_send E (json_dump L (rpc_request L ident meth params_json)) (s\<lparr>next_rpc_id := ident\<rparr>)
           in kodi_send_loop E L age now player_id cs (failed \<or> \<not> sent) s1))"

definition Kodi_SendPendingCommands :: "'w kodi_env \<Rightarrow> json_lib \<Rightarrow> kodi_config \<Rightarrow> 'w kodi \<Rightarrow> (bool \<times> 'w kodi) option" where
  "Kodi_SendPendingCommands E L cfg s0 =
     (let batch = k_pending_commands s0; s = s0\<lparr>k_pending_commands := []\<rparr> in
      if batch = [] then Some (True, s)
      else if \<not> k_ws_open s then Some (False, s)
      else do {
        (player_id, s1) \<leftarrow> (if list_ex (\<lambda>c. kp_player_command c \<noteq> None) batch
                             then ResolveActivePlayerId E L cfg s else Some (-1, s));
        let (now, s2) = kdo_now E s1;
        let (r, s3) = kodi_send_loop E L (k_max_pending_command_age cfg) now player_id batch False s2;
        Some (case r of None \<Rightarrow> False | Some failed \<Rightarrow> \<not> failed, s3)
      })"

section \<open>Library listings\<close>

definition timed_out_reply :: string where
  "timed_out_reply = ''{\"error\":{\"code\":-1,\"message\":\"timed out\"}}''"

text \<open>\<open>survive_timeout\<close>: a timeout on a live link becomes an error reply marked truncated.\<close>

definition survive_timeout :: "string option \<Rightarrow> 'w kodi \<Rightarrow> string option \<times> bool" where
  "survive_timeout text s =
     (if text = None \<and> last_call_timed_out s then (Some timed_out_reply, True) else (text, False))"

definition page_params :: "json \<Rightarrow> nat \<Rightarrow> json" where
  "page_params params start =
     json_set ''limits'' (jobj [(''start'', JInt (int start)), (''end'', JInt (int start + int kLibraryPageSize))]) params"

definition listing_total :: "json \<Rightarrow> int" where
  "listing_total parsed =
     (case find_object ''result'' parsed of
        Some r \<Rightarrow> GetInt (case json_find ''limits'' r of Some l \<Rightarrow> l | None \<Rightarrow> JObj []) ''total'' (-1)
      | None \<Rightarrow> -1)"

definition merged_reply :: "json_lib \<Rightarrow> string \<Rightarrow> json list \<Rightarrow> string" where
  "merged_reply L key merged = json_dump L (jobj [(''result'', jobj [(key, JArr merged)])])"

text \<open>
  The page loop: the reply text (\<^const>\<open>None\<close> for a dead transport), the truncation flag and the state.
  \<open>trunc\<close> is the flag so far.
\<close>

partial_function (option) page_loop ::
  "'w kodi_env \<Rightarrow> json_lib \<Rightarrow> kodi_config \<Rightarrow> string \<Rightarrow> json \<Rightarrow> string \<Rightarrow> nat \<Rightarrow> json list \<Rightarrow> bool \<Rightarrow> 'w kodi \<Rightarrow>
   (string option \<times> bool \<times> 'w kodi) option" where
  "page_loop E L cfg meth params key start merged trunc s =
     (if kMaxLibraryItems \<le> length merged then Some (Some (merged_reply L key merged), trunc, s)
      else
        Option.bind (if 0 < start then Kodi_SendPendingCommands E L cfg s else Some (True, s)) (\<lambda>(ok, s1).
        if \<not> ok then Some (None, trunc, s1)
        else
          Option.bind (Call E L cfg meth (json_dump L (page_params params start)) (library_call_timeout cfg) True s1) (\<lambda>(text, s2).
          case text of
            None \<Rightarrow>
              if \<not> last_call_timed_out s2 then Some (None, trunc, s2)
              else if merged = [] then Some (Some timed_out_reply, True, s2)
              else Some (Some (merged_reply L key merged), True, s2)
          | Some t \<Rightarrow>
              (case ResultArray (ParseBoundedJson L t) key of
                 None \<Rightarrow>
                   if start = 0 then
                     (case ParseBoundedJson L t of
                        Some parsed \<Rightarrow>
                          if json_find ''error'' parsed \<noteq> None then
                            Option.bind (Call E L cfg meth (json_dump L (json_erase ''limits'' (page_params params start)))
                                           (library_call_timeout cfg) True s2) (\<lambda>(text2, s3).
                            let (r, tr) = survive_timeout text2 s3 in Some (r, trunc \<or> tr, s3))
                          else Some (Some t, trunc, s2)
                      | None \<Rightarrow> Some (Some t, trunc, s2))
                   else Some (Some (merged_reply L key merged), True, s2)
               | Some page \<Rightarrow>
                   (let merged' = merged @ take (kMaxLibraryItems - length merged) page;
                        start' = start + length page;
                        total = (case ParseBoundedJson L t of Some parsed \<Rightarrow> listing_total parsed | None \<Rightarrow> -1)
                    in if length page \<noteq> kLibraryPageSize \<or> (0 \<le> total \<and> total \<le> int start')
                       then Some (Some (merged_reply L key merged'), trunc, s2)
                       else page_loop E L cfg meth params key start' merged' (kMaxLibraryItems \<le> length merged') s2)))))"

definition CallLibrary :: "'w kodi_env \<Rightarrow> json_lib \<Rightarrow> kodi_config \<Rightarrow> string \<Rightarrow> string \<Rightarrow> string option \<Rightarrow> 'w kodi \<Rightarrow>
    (string option \<times> bool \<times> 'w kodi) option" where
  "CallLibrary E L cfg meth params_json result_key s =
     do {
       (ok, s1) \<leftarrow> Kodi_SendPendingCommands E L cfg s;
       if \<not> ok then Some (None, False, s1)
       else case result_key of
         None \<Rightarrow>
           do {
             (text, s2) \<leftarrow> Call E L cfg meth params_json (library_call_timeout cfg) True s1;
             let (r, tr) = survive_timeout text s2;
             Some (r, tr, s2)
           }
       | Some key \<Rightarrow>
           (case ParseBoundedJson L params_json of
              Some params \<Rightarrow>
                if \<not> is_object params then Some (None, False, s1)
                else page_loop E L cfg meth params key 0 [] False s1
            | None \<Rightarrow> Some (None, False, s1))
     }"

definition sort_by :: "string \<Rightarrow> json" where
  "sort_by m = jobj [(''method'', JStr m), (''order'', JStr ''ascending'')]"

definition jstrs :: "string list \<Rightarrow> json" where
  "jstrs xs = JArr (map JStr xs)"

text \<open>\<open>BuildLibraryQuery\<close>: method, parameters, result key, and the event published for a reply.\<close>

definition BuildLibraryQuery :: "(real \<Rightarrow> real) \<Rightarrow> json_lib \<Rightarrow> library_request \<Rightarrow>
    string \<times> json \<times> string option \<times> (string \<Rightarrow> bool \<Rightarrow> kodi_event)" where
  "BuildLibraryQuery rnd L r =
     (let p = lr_parent_id r in
      case lr_kind r of
        kMovies \<Rightarrow>
          (''VideoLibrary.GetMovies'',
           jobj [(''properties'', jstrs [''title'', ''year'', ''resume'']), (''sort'', sort_by ''label'')],
           Some ''movies'', \<lambda>t tr. KMoviesFetched (ParseMovies rnd L t) tr)
      | kTvShows \<Rightarrow>
          (''VideoLibrary.GetTVShows'',
           jobj [(''properties'', jstrs [''title'', ''year'', ''episode'', ''watchedepisodes'']), (''sort'', sort_by ''label'')],
           Some ''tvshows'', \<lambda>t tr. KTvShowsFetched (ParseTvShows L t) tr)
      | kSeasons \<Rightarrow>
          (''VideoLibrary.GetSeasons'',
           jobj [(''tvshowid'', JInt p), (''properties'', jstrs [''season'', ''episode'', ''watchedepisodes'']), (''sort'', sort_by ''season'')],
           Some ''seasons'', \<lambda>t tr. KSeasonsFetched p (ParseSeasons L t) tr)
      | kEpisodes \<Rightarrow>
          (''VideoLibrary.GetEpisodes'',
           jobj [(''tvshowid'', JInt p), (''season'', JInt (lr_season r)), (''properties'', jstrs [''episode'', ''title'', ''resume'']),
                 (''sort'', sort_by ''episode'')],
           Some ''episodes'', \<lambda>t tr. KEpisodesFetched p (lr_season r) (ParseEpisodes rnd L t) tr)
      | kArtists \<Rightarrow>
          (''AudioLibrary.GetArtists'', jobj [(''sort'', sort_by ''label'')],
           Some ''artists'', \<lambda>t tr. KArtistsFetched (ParseArtists L t) tr)
      | kAlbums \<Rightarrow>
          (''AudioLibrary.GetAlbums'',
           jobj [(''filter'', jobj [(''artistid'', JInt p)]), (''properties'', jstrs [''title'', ''year'']), (''sort'', sort_by ''year'')],
           Some ''albums'', \<lambda>t tr. KAlbumsFetched p (ParseAlbums L t) tr)
      | kSongs \<Rightarrow>
          (''AudioLibrary.GetSongs'',
           jobj [(''filter'', jobj [(''albumid'', JInt p)]), (''properties'', jstrs [''title'', ''track'', ''duration'']), (''sort'', sort_by ''track'')],
           Some ''songs'', \<lambda>t tr. KSongsFetched p (ParseSongs L t) tr)
      | kFileSources \<Rightarrow>
          (''Files.GetSources'', jobj [(''media'', JStr ''video'')],
           None, \<lambda>t tr. KFilesFetched [] (ParseFileItems L t ''sources'' True) tr)
      | kDirectory \<Rightarrow>
          (''Files.GetDirectory'', jobj [(''directory'', JStr (lr_path r)), (''media'', JStr ''video'')],
           Some ''files'', \<lambda>t tr. KFilesFetched (lr_path r) (ParseFileItems L t ''files'' False) tr)
      | kChannelGroups \<Rightarrow>
          (''PVR.GetChannelGroups'', jobj [(''channeltype'', JStr ''tv'')],
           None, \<lambda>t tr. KChannelGroupsFetched (ParseChannelGroups L t) tr)
      | kChannels \<Rightarrow>
          (''PVR.GetChannels'', jobj [(''channelgroupid'', JInt p)],
           Some ''channels'', \<lambda>t tr. KChannelsFetched p (ParseChannels L t) tr))"

fun library_loop :: "(real \<Rightarrow> real) \<Rightarrow> 'w kodi_env \<Rightarrow> json_lib \<Rightarrow> kodi_config \<Rightarrow> library_request list \<Rightarrow> 'w kodi \<Rightarrow>
    (bool \<times> 'w kodi) option" where
  "library_loop rnd E L cfg [] s = Some (True, s)"
| "library_loop rnd E L cfg (r # rs) s =
     (if k_stopping E s then Some (False, s)
      else
        (let (meth, params, key, event) = BuildLibraryQuery rnd L r in
         do {
           (text, truncated, s1) \<leftarrow> CallLibrary E L cfg meth (json_dump L params) key s;
           case text of
             None \<Rightarrow> Some (False, s1)
           | Some t \<Rightarrow> library_loop rnd E L cfg rs (k_publish (event t truncated) s1)
         }))"

definition SendPendingLibraryRequests ::
  "(real \<Rightarrow> real) \<Rightarrow> 'w kodi_env \<Rightarrow> json_lib \<Rightarrow> kodi_config \<Rightarrow> 'w kodi \<Rightarrow> (bool \<times> 'w kodi) option" where
  "SendPendingLibraryRequests rnd E L cfg s0 =
     (let batch = pending_library_requests s0; s = s0\<lparr>pending_library_requests := []\<rparr> in
      if batch = [] then Some (True, s)
      else if \<not> k_ws_open s then Some (False, s)
      else library_loop rnd E L cfg batch s)"

section \<open>The reconcile poll\<close>

text \<open>The volume, mute and version block; the first component is the \<open>changed\<close> flag.\<close>

definition apply_app_properties :: "json_lib \<Rightarrow> string \<Rightarrow> 'w kodi \<Rightarrow> bool \<times> 'w kodi" where
  "apply_app_properties L text s =
     (case result_of L text of
        Some (JObj m) \<Rightarrow>
          (let r = JObj m;
               (c1, s1) = (case find_int ''volume'' r of
                             Some v \<Rightarrow>
                               (let vol = ClampVolume (to_int64 v) in
                                if vol \<noteq> volume (k_state s) then (True, s\<lparr>k_state := (k_state s)\<lparr>volume := vol\<rparr>\<rparr>)
                                else (False, s))
                           | None \<Rightarrow> (False, s));
               (c2, s2) = (case find_bool ''muted'' r of
                             Some m \<Rightarrow>
                               if m \<noteq> muted (k_state s1) then (True, s1\<lparr>k_state := (k_state s1)\<lparr>muted := m\<rparr>\<rparr>)
                               else (c1, s1)
                           | None \<Rightarrow> (c1, s1));
               s3 = (case find_object ''version'' r of
                       Some v \<Rightarrow>
                         s2\<lparr>k_state := (k_state s2)\<lparr>app_version :=
                              to_string (GetInt v ''major'' 0) @ ''.'' @ to_string (GetInt v ''minor'' 0)\<rparr>\<rparr>
                     | None \<Rightarrow> s2)
           in (c2, s3))
      | _ \<Rightarrow> (False, s))"

definition object_or_empty :: "string \<Rightarrow> json \<Rightarrow> json" where
  "object_or_empty k j = (case json_find k j of Some v \<Rightarrow> v | None \<Rightarrow> JObj [])"

definition apply_player_properties :: "(real \<Rightarrow> real) \<Rightarrow> json_lib \<Rightarrow> string \<Rightarrow> kodi_now_playing \<Rightarrow> kodi_now_playing" where
  "apply_player_properties rnd L text np =
     (case result_of L text of
        Some (JObj m) \<Rightarrow>
          (let r = JObj m; speed = ClampSpeed (GetInt r ''speed'' (np_speed np)) in
           np\<lparr>np_speed := speed, np_playback := PlaybackFromSpeed speed,
              np_percent := GetDouble rnd r ''percentage'' (np_percent np),
              np_position_ms := MillisFromTimeObject (object_or_empty ''time'' r),
              np_duration_ms := MillisFromTimeObject (object_or_empty ''totaltime'' r),
              np_can_seek := GetBool r ''canseek'' (np_can_seek np)\<rparr>)
      | _ \<Rightarrow> np)"

definition apply_player_item :: "json_lib \<Rightarrow> string \<Rightarrow> kodi_now_playing \<Rightarrow> kodi_now_playing" where
  "apply_player_item L text np =
     (case result_of L text of
        Some (JObj m) \<Rightarrow> (case json_find ''item'' (JObj m) of Some item \<Rightarrow> ApplyItemFields item np | None \<Rightarrow> np)
      | _ \<Rightarrow> np)"

text \<open>\<open>call_failed\<close>: publish what was read, then decide whether the link counts as dead.\<close>

definition call_failed :: "bool \<Rightarrow> bool \<Rightarrow> 'w kodi \<Rightarrow> bool \<times> 'w kodi" where
  "call_failed tolerate_timeout changed s =
     (let s1 = publish_if changed s in
      if \<not> tolerate_timeout \<or> \<not> last_call_timed_out s1 then (False, s1)
      else (let n = consecutive_poll_timeouts s1 + 1
            in (n < kMaxToleratedPollTimeouts, s1\<lparr>consecutive_poll_timeouts := n\<rparr>)))"

definition properties_params :: "int \<Rightarrow> string" where
  "properties_params player_id =
     ''{\"playerid\":'' @ to_string player_id @
     '',\"properties\":[\"speed\",\"percentage\",\"time\",\"totaltime\",\"canseek\"]}''"

definition item_params :: "int \<Rightarrow> string" where
  "item_params player_id =
     ''{\"playerid\":'' @ to_string player_id @
     '',\"properties\":[\"title\",\"showtitle\",\"season\",\"episode\"]}''"

text \<open>The tail of the poll, once both player replies are in.\<close>

definition apply_poll :: "(real \<Rightarrow> real) \<Rightarrow> json_lib \<Rightarrow> string \<Rightarrow> string \<Rightarrow> bool \<Rightarrow> 'w kodi \<Rightarrow> 'w kodi" where
  "apply_poll rnd L props_text item_text changed s =
     (let before = now_playing (k_state s);
          np1 = apply_player_properties rnd L props_text before;
          np2 = (if identity_from_notification s then np1 else apply_player_item L item_text np1)
      in publish_if (changed \<or> np2 \<noteq> before) (with_np np2 s))"

definition poll_player :: "(real \<Rightarrow> real) \<Rightarrow> 'w kodi_env \<Rightarrow> json_lib \<Rightarrow> kodi_config \<Rightarrow> bool \<Rightarrow> bool \<Rightarrow> int \<Rightarrow> 'w kodi \<Rightarrow>
    (bool \<times> 'w kodi) option" where
  "poll_player rnd E L cfg tolerate changed player_id s =
     do {
       let stops_before = player_stop_count s;
       (props_text, s1) \<leftarrow> Call E L cfg ''Player.GetProperties'' (properties_params player_id) kCallTimeoutMs False s;
       case props_text of
         None \<Rightarrow> Some (call_failed tolerate changed s1)
       | Some props \<Rightarrow>
           do {
             (item_text, s2) \<leftarrow> Call E L cfg ''Player.GetItem'' (item_params player_id) kCallTimeoutMs False s1;
             case item_text of
               None \<Rightarrow> Some (call_failed tolerate changed s2)
             | Some item \<Rightarrow>
                 if player_stop_count s2 \<noteq> stops_before
                 then Some (True, publish_if changed (s2\<lparr>needs_immediate_poll := True\<rparr>))
                 else Some (True, apply_poll rnd L props item changed s2)
           }
     }"

definition poll_nothing_playing :: "bool \<Rightarrow> 'w kodi \<Rightarrow> 'w kodi" where
  "poll_nothing_playing changed s =
     (let (c, s1) = (if playing_something s then (True, with_np empty_now_playing s) else (changed, s))
      in publish_if c (s1\<lparr>identity_from_notification := False\<rparr>))"

definition ReconcilePoll :: "(real \<Rightarrow> real) \<Rightarrow> 'w kodi_env \<Rightarrow> json_lib \<Rightarrow> kodi_config \<Rightarrow> bool \<Rightarrow> 'w kodi \<Rightarrow>
    (bool \<times> 'w kodi) option" where
  "ReconcilePoll rnd E L cfg tolerate s =
     do {
       (app_text, s1) \<leftarrow> Call E L cfg ''Application.GetProperties''
                            ''{\"properties\":[\"volume\",\"muted\",\"version\"]}'' kCallTimeoutMs False s;
       case app_text of
         None \<Rightarrow> Some (call_failed tolerate False s1)
       | Some app \<Rightarrow>
           do {
             let (changed, s2) = apply_app_properties L app (s1\<lparr>consecutive_poll_timeouts := 0\<rparr>);
             (players_text, s3) \<leftarrow> Call E L cfg ''Player.GetActivePlayers'' [] kCallTimeoutMs False s2;
             case players_text of
               None \<Rightarrow> Some (call_failed tolerate changed s3)
             | Some players \<Rightarrow>
                 (case active_player_id L players of
                    None \<Rightarrow> Some (True, poll_nothing_playing changed s3)
                  | Some player_id \<Rightarrow>
                      if player_id < 0 then Some (True, publish_if changed s3)
                      else poll_player rnd E L cfg tolerate changed player_id s3)
           }
     }"

section \<open>The connection loop\<close>

definition ConnectAndPrime :: "(real \<Rightarrow> real) \<Rightarrow> 'w kodi_env \<Rightarrow> json_lib \<Rightarrow> kodi_config \<Rightarrow> kodi_target \<Rightarrow> 'w kodi \<Rightarrow>
    (bool \<times> 'w kodi) option" where
  "ConnectAndPrime rnd E L cfg target s =
     (let (ok, s1) = kdo_connect E (Kodi_WebSocketUrl (target_host target) (target_port target)) s;
          s2 = s1\<lparr>k_ws_open := True\<rparr>
      in if \<not> ok then Some (False, s2)
         else if k_stopping E s2 then Some (False, s2)
         else ReconcilePoll rnd E L cfg False ((with_np empty_now_playing s2)\<lparr>identity_from_notification := False\<rparr>))"

datatype kodi_pc = KOuter | KInner ms | KFinished

text \<open>\<open>KInner t\<close> is the connected inner loop with \<open>last_reconcile = t\<close>.\<close>

definition kodi_leave :: "'w kodi_env \<Rightarrow> 'w kodi \<Rightarrow> kodi_pc \<times> 'w kodi" where
  "kodi_leave E s = (KOuter, SetLibraryBusy False (kdo_close E s))"

definition kodi_outer :: "(real \<Rightarrow> real) \<Rightarrow> 'w kodi_env \<Rightarrow> json_lib \<Rightarrow> kodi_config \<Rightarrow> 'w kodi \<Rightarrow> (kodi_pc \<times> 'w kodi) option" where
  "kodi_outer rnd E L cfg s =
     (let (target, s1) = ResolveTarget E cfg s in
      case target of
        None \<Rightarrow>
          (let s2 = Kodi_SetState KDisconnected s1; (delay, b) = NextDelay (no_target_backoff s2)
           in Some (KOuter, snd (Kodi_Sleep E delay False (s2\<lparr>no_target_backoff := b\<rparr>))))
      | Some tgt \<Rightarrow>
          do {
            (ok, s2) \<leftarrow> ConnectAndPrime rnd E L cfg tgt
                          (Kodi_SetState KConnecting (s1\<lparr>no_target_backoff := RetryBackoff_ResetAttempts (no_target_backoff s1)\<rparr>));
            if \<not> ok then
              (let s3 = Kodi_SetState KError (SetLibraryBusy False (kdo_close E s2));
                   (delay, b) = NextDelay (k_backoff s3)
               in Some (KOuter, snd (Kodi_Sleep E delay False (s3\<lparr>k_backoff := b\<rparr>))))
            else
              (let s3 = Kodi_SetState KConnected (s2\<lparr>k_backoff := RetryBackoff_ResetAttempts (k_backoff s2)\<rparr>);
                   (now, s4) = kdo_now E s3
               in Some (KInner now, s4))
          })"

definition kodi_inner :: "(real \<Rightarrow> real) \<Rightarrow> 'w kodi_env \<Rightarrow> json_lib \<Rightarrow> kodi_config \<Rightarrow> ms \<Rightarrow> 'w kodi \<Rightarrow>
    (kodi_pc \<times> 'w kodi) option" where
  "kodi_inner rnd E L cfg last_reconcile s =
     (let (reason, s1) = Kodi_Sleep E (pump_interval cfg) True s in
      if reason = kStopRequested then Some (kodi_leave E s1)
      else do {
        (ok, s2) \<leftarrow> Kodi_SendPendingCommands E L cfg (PumpNotifications E L s1);
        if \<not> ok then Some (kodi_leave E s2)
        else do {
          (ok2, s3) \<leftarrow> SendPendingLibraryRequests rnd E L cfg s2;
          if \<not> ok2 then Some (kodi_leave E s3)
          else if reason = kTriggered then Some (kodi_leave E s3)
          else if reason = kCommandPending then Some (KInner last_reconcile, s3)
          else
            (let (now, s4) = kdo_now E s3 in
             if needs_immediate_poll s4 \<or> reconcile_interval cfg \<le> now - last_reconcile then
               do {
                 (alive, s5) \<leftarrow> ReconcilePoll rnd E L cfg True (s4\<lparr>needs_immediate_poll := False\<rparr>);
                 if \<not> alive then Some (kodi_leave E s5)
                 else (let (now2, s6) = kdo_now E s5 in Some (KInner now2, s6))
               }
             else Some (KInner last_reconcile, s4))
        }
      })"

text \<open>
  One visit of a loop head. Other threads may go on enqueueing after the loop has returned; nothing takes what they
  enqueue then.
\<close>

fun kodi_step :: "(real \<Rightarrow> real) \<Rightarrow> 'w kodi_env \<Rightarrow> json_lib \<Rightarrow> kodi_config \<Rightarrow> kodi_pc \<times> 'w kodi \<Rightarrow>
    (kodi_pc \<times> 'w kodi) option" where
  "kodi_step rnd E L cfg (KOuter, s) =
     (if k_stopping E s then Some (KFinished, Kodi_SetState KDisconnected s) else kodi_outer rnd E L cfg s)"
| "kodi_step rnd E L cfg (KInner t, s) =
     (if k_stopping E s then Some (kodi_leave E s) else kodi_inner rnd E L cfg t s)"
| "kodi_step rnd E L cfg (KFinished, s) = Some (KFinished, k_absorb E s)"

definition empty_snapshot :: kodi_snapshot where
  "empty_snapshot =
     \<lparr>ks_state = KDisconnected, resolved_host = [], target_configured = False, selected_uuid = [], discovered = [],
      app_version = [], volume = 0, muted = False, now_playing = empty_now_playing, snap_library_busy = False\<rparr>"

definition kodi_init :: "ms \<Rightarrow> ms \<Rightarrow> 'w \<Rightarrow> 'w kodi" where
  "kodi_init initial_backoff max_backoff w =
     \<lparr>k_state = empty_snapshot, k_ws_open = False, next_rpc_id = 0, last_call_timed_out = False,
      needs_immediate_poll = False, consecutive_poll_timeouts = 0, library_busy = False,
      identity_from_notification = False, player_stop_count = 0,
      k_backoff = RetryBackoff_new initial_backoff max_backoff,
      no_target_backoff = RetryBackoff_new initial_backoff (min max_backoff kNoTargetMaxRecheckInterval),
      k_requested = False, k_pending_commands = [], pending_library_requests = [], k_published = [], k_world = w\<rparr>"

text \<open>\<open>ConnectionLoop\<close>: the state at the \<open>n\<close>-th visit of a loop head.\<close>

fun Kodi_ConnectionLoop :: "(real \<Rightarrow> real) \<Rightarrow> 'w kodi_env \<Rightarrow> json_lib \<Rightarrow> kodi_config \<Rightarrow> nat \<Rightarrow> kodi_pc \<times> 'w kodi \<Rightarrow>
    (kodi_pc \<times> 'w kodi) option" where
  "Kodi_ConnectionLoop rnd E L cfg 0 p = Some p"
| "Kodi_ConnectionLoop rnd E L cfg (Suc n) p =
     Option.bind (kodi_step rnd E L cfg p) (Kodi_ConnectionLoop rnd E L cfg n)"

section \<open>Bounds every operation keeps\<close>

definition np_ok :: "kodi_now_playing \<Rightarrow> bool" where
  "np_ok np \<longleftrightarrow> - 1000 \<le> np_speed np \<and> np_speed np \<le> 1000 \<and>
     0 \<le> np_position_ms np \<and> np_position_ms np \<le> 3661001000000 \<and>
     0 \<le> np_duration_ms np \<and> np_duration_ms np \<le> 3661001000000 \<and>
     - 1 \<le> np_season np \<and> np_season np \<le> 1000000 \<and> - 1 \<le> np_episode np \<and> np_episode np \<le> 1000000"

fun replay_kodi :: "kodi_connection_state \<Rightarrow> kodi_event list \<Rightarrow> kodi_connection_state option" where
  "replay_kodi cur [] = Some cur"
| "replay_kodi cur (KStateChanged st # es) = (if st = cur then None else replay_kodi st es)"
| "replay_kodi cur (e # es) = replay_kodi cur es"

lemma replay_kodi_append:
  "replay_kodi cur (es @ fs) = (case replay_kodi cur es of None \<Rightarrow> None | Some st \<Rightarrow> replay_kodi st fs)"
  by (induction cur es rule: replay_kodi.induct) auto

definition kodi_inv :: "'w kodi \<Rightarrow> bool" where
  "kodi_inv s \<longleftrightarrow>
     length (k_pending_commands s) \<le> 20 \<and>
     length (pending_library_requests s) \<le> 8 \<and> distinct (pending_library_requests s) \<and>
     0 \<le> volume (k_state s) \<and> volume (k_state s) \<le> 100 \<and> np_ok (now_playing (k_state s)) \<and>
     snap_library_busy (k_state s) = library_busy s \<and>
     replay_kodi KDisconnected (k_published s) = Some (ks_state (k_state s))"

text \<open>Steps that keep the invariant, the socket and the connection state.\<close>

definition kstable :: "'w kodi \<Rightarrow> 'w kodi \<Rightarrow> bool" where
  "kstable s s' \<longleftrightarrow> k_ws_open s' = k_ws_open s \<and> ks_state (k_state s') = ks_state (k_state s) \<and>
     (kodi_inv s \<longrightarrow> kodi_inv s')"

lemma kstable_refl [simp]: "kstable s s"
  by (simp add: kstable_def)

lemma kstable_trans: "kstable s t \<Longrightarrow> kstable t u \<Longrightarrow> kstable s u"
  by (simp add: kstable_def)

lemma kstableD: "kstable s t \<Longrightarrow> k_ws_open t = k_ws_open s \<and> ks_state (k_state t) = ks_state (k_state s) \<and> (kodi_inv s \<longrightarrow> kodi_inv t)"
  by (simp add: kstable_def)

lemma kstable_updates:
  "kstable s (s\<lparr>k_world := w\<rparr>)" "kstable s (s\<lparr>last_call_timed_out := b\<rparr>)" "kstable s (s\<lparr>next_rpc_id := i\<rparr>)"
  "kstable s (s\<lparr>needs_immediate_poll := b\<rparr>)" "kstable s (s\<lparr>consecutive_poll_timeouts := i\<rparr>)"
  "kstable s (s\<lparr>identity_from_notification := b\<rparr>)" "kstable s (s\<lparr>k_requested := b\<rparr>)"
  "kstable s (s\<lparr>k_backoff := bo\<rparr>)" "kstable s (s\<lparr>no_target_backoff := bo\<rparr>)"
  "kstable s (s\<lparr>k_pending_commands := []\<rparr>)" "kstable s (s\<lparr>pending_library_requests := []\<rparr>)"
  "kstable s (s\<lparr>player_stop_count := u\<rparr>)"
  by (simp_all add: kstable_def kodi_inv_def)

lemma distinct_push_bounded:
  assumes "x \<notin> set q" "distinct q"
  shows "distinct (push_bounded cap x q)"
proof -
  have "distinct (q @ [x])" using assms by simp
  then show ?thesis unfolding push_bounded_def drop_front_while_eq by (rule distinct_drop)
qed

lemma kstable_client: "kstable s (kodi_client_step op s)"
  by (cases op)
     (simp_all add: kstable_def kodi_inv_def Kodi_EnqueueCommand_def EnqueueLibraryRequest_def Kodi_TriggerReconnect_def
       length_push_bounded distinct_push_bounded kKodiMaxPendingCommands_def kMaxPendingLibraryRequests_def)

lemma kstable_absorb: "kstable s (k_absorb E s)"
proof -
  have "kstable s (fold kodi_client_step ops s)" for ops and s :: "'a kodi"
  proof (induction ops arbitrary: s)
    case (Cons op ops)
    then show ?case using kstable_trans [OF kstable_client [of s op]] by simp
  qed simp
  from kstable_trans [OF kstable_updates(1) this] show ?thesis by (simp add: k_absorb_def case_prod_beta)
qed

lemma kstable_kcalls:
  "kstable s (snd (kdo_connect E url s))" "kstable s (snd (kdo_send E text s))"
  "kstable s (snd (kdo_recv E t s))" "kstable s (snd (kdo_now E s))" "kstable s (snd (kdo_browse E d s))"
  "kstable s (snd (Kodi_Sleep E d watch s))"
  using kstable_trans [OF kstable_trans [OF kstable_updates(1) kstable_absorb] kstable_updates(7)]
    kstable_trans [OF kstable_updates(1) kstable_absorb]
  by (simp_all add: kdo_connect_def kdo_send_def kdo_recv_def kdo_now_def kdo_browse_def Kodi_Sleep_def
      case_prod_beta Let_def kstable_updates(1))

lemma kstable_publish: "\<forall>st. e \<noteq> KStateChanged st \<Longrightarrow> kstable s (k_publish e s)"
  by (cases e) (auto simp: kstable_def kodi_inv_def k_publish_def replay_kodi_append)

lemma kstable_publish_if: "kstable s (publish_if c s)"
  by (simp add: publish_if_def kstable_publish)

lemma kstable_SetLibraryBusy: "kstable s (SetLibraryBusy b s)"
  by (auto simp: SetLibraryBusy_def kstable_def kodi_inv_def k_publish_def replay_kodi_append)

lemma kstable_with_np: "np_ok (now_playing (k_state s)) \<longrightarrow> np_ok np \<Longrightarrow> kstable s (with_np np s)"
  by (auto simp: with_np_def kstable_def kodi_inv_def)

lemma np_ok_empty: "np_ok empty_now_playing"
  by (simp add: np_ok_def empty_now_playing_def)

lemma np_ok_ApplyItemFields: "np_ok np \<Longrightarrow> np_ok (ApplyItemFields item np)"
proof -
  assume np: "np_ok np"
  note r = GetBoundedInt_range [of "- 1" 1000000 item "''season''" "- 1"] GetBoundedInt_range [of "- 1" 1000000 item "''episode''" "- 1"]
  show ?thesis
    using np r unfolding ApplyItemFields_def Let_def np_ok_def kMaxSeasonOrEpisode_def by (auto split: option.splits)
qed

lemma kstable_volume: "kstable s (snd (apply_volume_notification data s))"
  using ClampVolume_range by (auto simp: apply_volume_notification_def kstable_def kodi_inv_def split: option.splits)

lemma kstable_stop: "kstable s (snd (apply_stop_notification s))"
proof -
  let ?s1 = "s\<lparr>player_stop_count := player_stop_count s + 1\<rparr>"
  have "kstable ?s1 (with_np empty_now_playing ?s1)" by (rule kstable_with_np) (simp add: np_ok_empty)
  with kstable_updates(12) have "kstable s (with_np empty_now_playing ?s1)" by (rule kstable_trans)
  then show ?thesis
    using kstable_trans [OF _ kstable_updates(6)] kstable_trans [OF kstable_updates(12) kstable_updates(6)]
    by (auto simp: apply_stop_notification_def Let_def)
qed

lemma kstable_player: "kstable s (snd (apply_player_notification m data s))"
proof -
  have item: "kstable s ((with_np (ApplyItemFields item np1) s)\<lparr>identity_from_notification := True\<rparr>)"
    if "np_ok (now_playing (k_state s)) \<longrightarrow> np_ok np1" for item np1
    by (rule kstable_trans [OF kstable_with_np kstable_updates(6)]) (use that np_ok_ApplyItemFields in blast)
  have speed: "kstable t ((with_np ((now_playing (k_state t))\<lparr>np_speed := v, np_playback := pb\<rparr>) t)\<lparr>needs_immediate_poll := True\<rparr>)"
    if "v = np_speed (now_playing (k_state t)) \<or> (- 1000 \<le> v \<and> v \<le> 1000)" for v pb and t :: "'a kodi"
    by (rule kstable_trans [OF kstable_with_np kstable_updates(4)]) (use that in \<open>auto simp: np_ok_def\<close>)
  let ?s1 = "(case json_find ''item'' data of
                  Some item \<Rightarrow>
                    (let np = now_playing (k_state s);
                         np1 = (if m = ''Player.OnPlay''
                                then np\<lparr>np_title := [], np_show_title := [], np_season := -1, np_episode := -1,
                                        np_media_type := []\<rparr>
                                else np)
                     in (with_np (ApplyItemFields item np1) s)\<lparr>identity_from_notification := True\<rparr>)
                | None \<Rightarrow> s)"
  have 1: "kstable s ?s1" by (auto simp: Let_def np_ok_def split: option.splits intro!: item)
  show ?thesis
    unfolding apply_player_notification_def Let_def snd_conv
    by (rule kstable_trans [OF 1 [unfolded Let_def] speed]) (use ClampSpeed_range in \<open>auto split: option.splits\<close>)
qed

lemma kstable_then_publish: "kstable s t \<Longrightarrow> kstable s (publish_if c t)"
  by (rule kstable_trans [OF _ kstable_publish_if])

lemma kstable_HandleNotification: "kstable s (HandleNotification L t s)"
  unfolding HandleNotification_def Let_def case_prod_beta
  by (auto intro: kstable_then_publish kstable_volume kstable_stop kstable_player kstable_SetLibraryBusy
      split: option.splits)

lemma kstable_pump: "kstable s (PumpNotifications E L s)"
proof -
  have "kstable s (pump_loop n E L s)" for n and s :: "'a kodi"
  proof (induction n arbitrary: s)
    case (Suc n)
    have "kstable s (snd (kdo_recv E 0 s))" by (rule kstable_kcalls)
    with Suc show ?case
      by (auto simp: case_prod_beta split: option.splits
          intro: kstable_trans [OF kstable_trans [OF _ kstable_HandleNotification]])
  qed simp
  then show ?thesis by (simp add: PumpNotifications_def)
qed

lemma kstable_handle_frame: "kstable s (snd (handle_frame L i t s))"
  by (auto simp: handle_frame_def Let_def case_prod_beta split: option.splits
      intro: kstable_HandleNotification kstable_SetLibraryBusy kstable_trans [OF kstable_SetLibraryBusy kstable_HandleNotification])

section \<open>Waiting operations\<close>

lemma kstable_call_loop:
  assumes "call_loop E L i d b r s = Some y"
  shows "kstable s (snd y)"
proof (rule call_loop.raw_induct [where P = "\<lambda>E L i d b r s y. kstable s (snd y)", OF _ assms], goal_cases)
  case step: (1 f E L i d b r s y)
  let ?s1 = "snd (kdo_now E s)"
  have 1: "kstable s ?s1" by (rule kstable_kcalls)
  have 2: "kstable s (snd (kdo_recv E t ?s1))" for t by (rule kstable_trans [OF 1 kstable_kcalls(3)])
  have 3: "kstable s (snd (kdo_now E (snd (kdo_recv E t ?s1))))" for t by (rule kstable_trans [OF 2 kstable_kcalls(4)])
  have 4: "kstable s (snd (handle_frame L i x (snd (kdo_recv E t ?s1))))" for x t
    by (rule kstable_trans [OF 2 kstable_handle_frame])
  note out = kstable_trans [OF 1 kstable_updates(2)] kstable_trans [OF 2 kstable_updates(2)]
    kstable_trans [OF 3 kstable_updates(2)]
  note rec = kstable_trans [OF kstable_trans [OF 3 kstable_SetLibraryBusy]] kstable_trans [OF 4]
  show ?case
    using step(2) unfolding Let_def case_prod_beta
    by (auto split: if_splits option.splits intro: out 4 rec dest!: step(1))
qed

lemma kstable_Call: "Call E L cfg m p t b s = Some y \<Longrightarrow> kstable s (snd y)"
proof -
  assume call: "Call E L cfg m p t b s = Some y"
  let ?s1 = "s\<lparr>last_call_timed_out := False, next_rpc_id := next_rpc_id s + 1\<rparr>"
  have 1: "kstable s ?s1" by (simp add: kstable_def kodi_inv_def)
  have 2: "kstable s (snd (kdo_send E x ?s1))" for x by (rule kstable_trans [OF 1 kstable_kcalls(2)])
  have 3: "kstable s (snd (kdo_now E (snd (kdo_send E x ?s1))))" for x by (rule kstable_trans [OF 2 kstable_kcalls(4)])
  show ?thesis
    using call unfolding Call_def Let_def case_prod_beta
    by (auto split: if_splits intro: 2 kstable_trans [OF 3] dest!: kstable_call_loop)
qed

lemma kstable_send_loop: "kstable s (snd (kodi_send_loop E L age now p cs f s))"
proof (induction cs arbitrary: f s)
  case (Cons c cs)
  have "kstable s (snd (kdo_send E x (s\<lparr>next_rpc_id := i\<rparr>)))" for x i
    by (rule kstable_trans [OF kstable_updates(3) kstable_kcalls(2)])
  then have "kstable s (snd (kodi_send_loop E L age now p cs f' (snd (kdo_send E x (s\<lparr>next_rpc_id := i\<rparr>)))))" for f' x i
    using Cons.IH kstable_trans by blast
  then show ?case using Cons.IH by (auto simp: Let_def case_prod_beta split: option.splits)
qed simp

lemma kstable_Resolve: "ResolveActivePlayerId E L cfg s = Some y \<Longrightarrow> kstable s (snd y)"
  unfolding ResolveActivePlayerId_def by (auto simp: bind_eq_Some_conv dest!: kstable_Call)

lemma kstable_SendPending: "Kodi_SendPendingCommands E L cfg s = Some y \<Longrightarrow> kstable s (snd y)"
proof -
  assume send: "Kodi_SendPendingCommands E L cfg s = Some y"
  let ?s0 = "s\<lparr>k_pending_commands := []\<rparr>"
  have 0: "kstable s ?s0" by (rule kstable_updates)
  have fin: "kstable s (snd (kodi_send_loop E L a n p cs f (snd (kdo_now E t))))" if "kstable s t" for a n p cs f t
    by (rule kstable_trans [OF kstable_trans [OF that kstable_kcalls(4)] kstable_send_loop])
  have res: "kstable s (snd z)" if "ResolveActivePlayerId E L cfg ?s0 = Some z" for z
    by (rule kstable_trans [OF 0 kstable_Resolve [OF that]])
  show ?thesis
    using send 0 fin [OF 0] fin [OF res] unfolding Kodi_SendPendingCommands_def Let_def case_prod_beta
    by (auto simp: bind_eq_Some_conv split: if_splits)
qed

lemma kstable_page_loop:
  assumes "page_loop E L cfg m p k st mg tr s = Some y"
  shows "kstable s (snd (snd y))"
proof (rule page_loop.raw_induct [where P = "\<lambda>E L cfg m p k st mg tr s y. kstable s (snd (snd y))", OF _ assms], goal_cases)
  case step: (1 f E L cfg m p k st mg tr s y)
  show ?case
  proof (cases "kMaxLibraryItems \<le> length mg")
    case True
    then show ?thesis using step(2) by auto
  next
    case False
    obtain ok s1 where a: "(if 0 < st then Kodi_SendPendingCommands E L cfg s else Some (True, s)) = Some (ok, s1)"
      using step(2) False by (cases "if 0 < st then Kodi_SendPendingCommands E L cfg s else Some (True, s)") auto
    have 1: "kstable s s1" using a kstable_SendPending [of E L cfg s "(ok, s1)"] by (auto split: if_splits)
    show ?thesis
    proof (cases ok)
      case False
      then show ?thesis using step(2) a \<open>\<not> kMaxLibraryItems \<le> length mg\<close> 1 by auto
    next
      case True
      note eq = step(2) [unfolded a Option.bind_lunit prod.case, simplified True \<open>\<not> kMaxLibraryItems \<le> length mg\<close> if_False simp_thms]
      obtain reply s2 where b: "Call E L cfg m (json_dump L (page_params p st)) (library_call_timeout cfg) True s1 = Some (reply, s2)"
        using eq by (cases "Call E L cfg m (json_dump L (page_params p st)) (library_call_timeout cfg) True s1") auto
      have 2: "kstable s s2" using kstable_trans [OF 1] kstable_Call [OF b] by simp
      have retry: "kstable s u" if "Call E L cfg m q d c s2 = Some (x, u)" for q d c x u
        using kstable_trans [OF 2] kstable_Call [OF that] by simp
      show ?thesis
      proof (cases "\<exists>t page. reply = Some t \<and> ResultArray (ParseBoundedJson L t) k = Some page")
        case True
        then show ?thesis
          using eq b 2 kstable_trans [OF 2] by (auto simp: Let_def split: if_splits dest!: step(1))
      next
        case False
        then show ?thesis
          using eq b 2 retry
          by (auto simp: bind_eq_Some_conv Let_def case_prod_beta split: if_splits option.splits)
      qed
    qed
  qed
qed

lemma kstable_CallLibrary: "CallLibrary E L cfg m p k s = Some (t, tr, s') \<Longrightarrow> kstable s s'"
  unfolding CallLibrary_def
  by (auto simp: bind_eq_Some_conv Let_def case_prod_beta split: if_splits option.splits
      dest!: kstable_SendPending kstable_Call kstable_page_loop intro: kstable_trans)

lemma BuildLibraryQuery_event: "BuildLibraryQuery rnd L r = (m, p, k, ev) \<Longrightarrow> ev t tr \<noteq> KStateChanged st"
  by (auto simp: BuildLibraryQuery_def Let_def split: library_kind.splits)

lemma kstable_library_loop: "library_loop rnd E L cfg rs s = Some (b, s') \<Longrightarrow> kstable s s'"
proof (induction rs arbitrary: s)
  case (Cons r rs)
  obtain m p k ev where q: "BuildLibraryQuery rnd L r = (m, p, k, ev)" by (metis prod_cases4)
  have pub: "kstable t (k_publish (ev x tr) t)" for t :: "'a kodi" and x tr
    using BuildLibraryQuery_event [OF q] by (intro kstable_publish) blast
  show ?case
    using Cons.prems q
    by (auto simp: bind_eq_Some_conv split: if_splits option.splits
        dest!: kstable_CallLibrary Cons.IH intro: kstable_trans [OF _ kstable_trans [OF pub]])
qed simp

lemma kstable_library: "SendPendingLibraryRequests rnd E L cfg s = Some (b, s') \<Longrightarrow> kstable s s'"
  unfolding SendPendingLibraryRequests_def Let_def
  by (auto split: if_splits intro: kstable_updates dest!: kstable_library_loop kstable_trans [OF kstable_updates(11)])

lemma kstable_app: "kstable s (snd (apply_app_properties L t s))"
  using ClampVolume_range
  by (auto simp: apply_app_properties_def Let_def kstable_def kodi_inv_def case_prod_beta split: option.splits json.splits)

lemma kstable_call_failed: "kstable s (snd (call_failed tol c s))"
  using kstable_publish_if [of s c] kstable_trans [OF kstable_publish_if kstable_updates(5)]
  by (auto simp: call_failed_def Let_def)

lemma MillisFromTimeObject_range: "0 \<le> MillisFromTimeObject t \<and> MillisFromTimeObject t \<le> 3661001000000"
  using time_field [of t "''hours''"] time_field [of t "''minutes''"] time_field [of t "''seconds''"]
    time_field [of t "''milliseconds''"] by (simp add: MillisFromTimeObject_def)

lemma kstable_apply_poll: "kstable s (apply_poll rnd L p i c s)"
proof -
  have "np_ok (apply_player_properties rnd L p np)" if "np_ok np" for np
    using that ClampSpeed_range MillisFromTimeObject_range
    by (auto simp: apply_player_properties_def np_ok_def Let_def split: option.splits json.splits)
  moreover have "np_ok (apply_player_item L i np)" if "np_ok np" for np
    using that np_ok_ApplyItemFields by (auto simp: apply_player_item_def split: option.splits json.splits)
  ultimately show ?thesis
    unfolding apply_poll_def Let_def by (intro kstable_then_publish kstable_with_np) auto
qed

lemma kstable_poll_player: "poll_player rnd E L cfg tol c pid s = Some (b, s') \<Longrightarrow> kstable s s'"
proof -
  assume poll: "poll_player rnd E L cfg tol c pid s = Some (b, s')"
  have fail: "kstable s s'" if "call_failed tol c t = (b, s')" "kstable s t" for t
    using kstable_call_failed [of t tol c] that kstable_trans by (metis snd_conv)
  have stop: "kstable s (publish_if c (t\<lparr>needs_immediate_poll := True\<rparr>))" if "kstable s t" for t
    by (intro kstable_then_publish kstable_trans [OF that kstable_updates(4)])
  obtain reply s1 where 1: "Call E L cfg ''Player.GetProperties'' (properties_params pid) kCallTimeoutMs False s = Some (reply, s1)"
    using poll by (auto simp: poll_player_def bind_eq_Some_conv Let_def)
  have s1: "kstable s s1" using kstable_Call [OF 1] by simp
  show ?thesis
  proof (cases reply)
    case None
    then show ?thesis using poll 1 fail s1 by (simp add: poll_player_def)
  next
    case (Some x)
    obtain reply2 s2 where 2: "Call E L cfg ''Player.GetItem'' (item_params pid) kCallTimeoutMs False s1 = Some (reply2, s2)"
      using poll 1 Some by (auto simp: poll_player_def bind_eq_Some_conv Let_def)
    have s2: "kstable s s2" using kstable_trans [OF s1] kstable_Call [OF 2] by simp
    show ?thesis
      using poll 1 Some 2
      by (cases reply2) (auto simp: poll_player_def split: if_splits intro: fail s2 stop kstable_trans [OF s2 kstable_apply_poll])
  qed
qed

lemma kstable_nothing: "kstable s (poll_nothing_playing c s)"
proof -
  have "kstable s ((with_np empty_now_playing s)\<lparr>identity_from_notification := False\<rparr>)"
    by (rule kstable_trans [OF kstable_with_np kstable_updates(6)]) (simp add: np_ok_empty)
  then show ?thesis
    by (auto simp: poll_nothing_playing_def Let_def intro: kstable_then_publish kstable_updates(6))
qed

lemma kstable_ReconcilePoll: "ReconcilePoll rnd E L cfg tol s = Some (b, s') \<Longrightarrow> kstable s s'"
proof -
  assume poll: "ReconcilePoll rnd E L cfg tol s = Some (b, s')"
  have fail: "kstable s s'" if "call_failed tol c t = (b, s')" "kstable s t" for t c
    using kstable_call_failed [of t tol c] that kstable_trans by (metis snd_conv)
  have app: "kstable s (snd (apply_app_properties L x (t\<lparr>consecutive_poll_timeouts := 0\<rparr>)))" if "kstable s t" for t x
    by (rule kstable_trans [OF kstable_trans [OF that kstable_updates(5)] kstable_app])
  obtain reply s1 where 1: "Call E L cfg ''Application.GetProperties''
      ''{\"properties\":[\"volume\",\"muted\",\"version\"]}'' kCallTimeoutMs False s = Some (reply, s1)"
    using poll by (auto simp: ReconcilePoll_def bind_eq_Some_conv)
  have s1: "kstable s s1" using kstable_Call [OF 1] by simp
  show ?thesis
  proof (cases reply)
    case None
    then show ?thesis using poll 1 fail s1 by (simp add: ReconcilePoll_def)
  next
    case (Some x)
    let ?a = "apply_app_properties L x (s1\<lparr>consecutive_poll_timeouts := 0\<rparr>)"
    obtain reply2 s3 where 2: "Call E L cfg ''Player.GetActivePlayers'' [] kCallTimeoutMs False (snd ?a) = Some (reply2, s3)"
      using poll 1 Some by (auto simp: ReconcilePoll_def bind_eq_Some_conv case_prod_beta Let_def)
    have s3: "kstable s s3" using kstable_trans [OF app [OF s1]] kstable_Call [OF 2] by simp
    show ?thesis
      using poll 1 Some 2
      by (auto simp: ReconcilePoll_def Let_def case_prod_beta split: option.splits if_splits
          intro: fail s3 kstable_trans [OF s3 kstable_nothing] kstable_then_publish kstable_trans [OF s3]
          dest!: kstable_poll_player)
  qed
qed

lemma kstable_ResolveTarget: "kstable s (snd (ResolveTarget E cfg s))"
proof -
  have "kstable s (snd (kdo_browse E d s))" for d by (rule kstable_kcalls)
  then show ?thesis
    by (auto simp: ResolveTarget_def Let_def case_prod_beta kstable_def kodi_inv_def split: option.splits)
qed

section \<open>The loop invariant\<close>

lemma SetState_inv:
  "kodi_inv s \<Longrightarrow> kodi_inv (Kodi_SetState st s)" "k_ws_open (Kodi_SetState st s) = k_ws_open s"
  "ks_state (k_state (Kodi_SetState st s)) = st" "library_busy (Kodi_SetState st s) = library_busy s"
  by (auto simp: Kodi_SetState_def kodi_inv_def k_publish_def replay_kodi_append)

lemma close_inv:
  "kodi_inv s \<Longrightarrow> kodi_inv (kdo_close E s)" "\<not> k_ws_open (kdo_close E s)"
  by (auto simp: kdo_close_def kodi_inv_def)

definition kodi_pc_inv :: "kodi_pc \<times> 'w kodi \<Rightarrow> bool" where
  "kodi_pc_inv p \<longleftrightarrow> kodi_inv (snd p) \<and>
     (case fst p of
        KInner t \<Rightarrow> k_ws_open (snd p) \<and> ks_state (k_state (snd p)) = KConnected
      | KOuter \<Rightarrow> \<not> k_ws_open (snd p)
      | KFinished \<Rightarrow> \<not> k_ws_open (snd p) \<and> ks_state (k_state (snd p)) = KDisconnected)"

lemma kodi_leave_inv: "kodi_inv s \<Longrightarrow> kodi_pc_inv (kodi_leave E s)"
  using kstableD [OF kstable_SetLibraryBusy [of "kdo_close E s" False]]
  by (simp add: kodi_leave_def kodi_pc_inv_def close_inv)

lemma ConnectAndPrime_inv:
  assumes "ConnectAndPrime rnd E L cfg t s = Some (ok, s')" "kodi_inv s"
  shows "kodi_inv s' \<and> k_ws_open s'"
proof -
  let ?s1 = "snd (kdo_connect E (Kodi_WebSocketUrl (target_host t) (target_port t)) s)"
  let ?s2 = "?s1\<lparr>k_ws_open := True\<rparr>"
  have 1: "kodi_inv ?s2" using kstableD [OF kstable_kcalls(1)] assms(2) by (auto simp: kodi_inv_def)
  have 2: "kstable ?s2 ((with_np empty_now_playing ?s2)\<lparr>identity_from_notification := False\<rparr>)"
    by (rule kstable_trans [OF kstable_with_np kstable_updates(6)]) (simp add: np_ok_empty)
  show ?thesis
    using assms(1) 1 kstableD [OF 2] unfolding ConnectAndPrime_def Let_def case_prod_beta
    by (auto split: if_splits dest!: kstable_ReconcilePoll kstableD)
qed

lemma kodi_outer_inv:
  assumes "kodi_outer rnd E L cfg s = Some p" "kodi_inv s" "\<not> k_ws_open s"
  shows "kodi_pc_inv p"
proof -
  let ?s1 = "snd (ResolveTarget E cfg s)"
  have 1: "kodi_inv ?s1" "\<not> k_ws_open ?s1" using kstableD [OF kstable_ResolveTarget] assms(2,3) by auto
  have sleep: "kodi_pc_inv (KOuter, snd (Kodi_Sleep E d False t))" if "kodi_inv t" "\<not> k_ws_open t" for d t
    using kstableD [OF kstable_kcalls(6) [of t E d False]] that by (simp add: kodi_pc_inv_def)
  show ?thesis
  proof (cases "fst (ResolveTarget E cfg s)")
    case None
    have "kodi_inv ((Kodi_SetState KDisconnected ?s1)\<lparr>no_target_backoff := b\<rparr>)" for b
      using SetState_inv(1) [OF 1(1)] by (simp add: kodi_inv_def)
    with None assms(1) 1 sleep show ?thesis
      by (auto simp: kodi_outer_def case_prod_beta Let_def SetState_inv)
  next
    case (Some tgt)
    let ?t = "Kodi_SetState KConnecting (?s1\<lparr>no_target_backoff := RetryBackoff_ResetAttempts (no_target_backoff ?s1)\<rparr>)"
    have t: "kodi_inv ?t" by (rule SetState_inv(1)) (use 1(1) in \<open>simp add: kodi_inv_def\<close>)
    obtain ok s2 where c: "ConnectAndPrime rnd E L cfg tgt ?t = Some (ok, s2)"
      using assms(1) Some by (auto simp: kodi_outer_def case_prod_beta bind_eq_Some_conv)
    have 2: "kodi_inv s2" "k_ws_open s2" using ConnectAndPrime_inv [OF c t] by auto
    show ?thesis
    proof (cases ok)
      case False
      let ?u = "Kodi_SetState KError (SetLibraryBusy False (kdo_close E s2))"
      have u: "kodi_inv ?u" "\<not> k_ws_open ?u"
        using kstableD [OF kstable_SetLibraryBusy [of "kdo_close E s2" False]] close_inv(1) [OF 2(1), of E]
        by (auto simp: SetState_inv close_inv(2))
      have "kodi_inv (?u\<lparr>k_backoff := b\<rparr>)" "\<not> k_ws_open (?u\<lparr>k_backoff := b\<rparr>)" for b
        using kstableD [OF kstable_updates(8) [of ?u b]] u by auto
      with False assms(1) Some c sleep show ?thesis by (auto simp: kodi_outer_def case_prod_beta Let_def)
    next
      case True
      let ?u = "Kodi_SetState KConnected (s2\<lparr>k_backoff := RetryBackoff_ResetAttempts (k_backoff s2)\<rparr>)"
      have "kodi_inv ?u" by (rule SetState_inv(1)) (use 2(1) in \<open>simp add: kodi_inv_def\<close>)
      then have "kodi_pc_inv (KInner (fst (kdo_now E ?u)), snd (kdo_now E ?u))"
        using kstableD [OF kstable_kcalls(4) [of ?u E]] 2(2) by (simp add: kodi_pc_inv_def SetState_inv)
      with True assms(1) Some c show ?thesis by (auto simp: kodi_outer_def case_prod_beta Let_def)
    qed
  qed
qed

lemma kodi_inner_inv:
  assumes "kodi_inner rnd E L cfg t s = Some p" "kodi_pc_inv (KInner t, s)"
  shows "kodi_pc_inv p"
proof -
  let ?s1 = "snd (Kodi_Sleep E (pump_interval cfg) True s)"
  have inner: "kodi_pc_inv (KInner n, u)" "kodi_pc_inv (kodi_leave E u)" if "kstable s u" for n u
    using kstableD [OF that] assms(2) kodi_leave_inv [of u E] by (auto simp: kodi_pc_inv_def)
  have 1: "kstable s ?s1" by (rule kstable_kcalls)
  have 2: "kstable s (PumpNotifications E L ?s1)" by (rule kstable_trans [OF 1 kstable_pump])
  note now = kstable_trans [OF _ kstable_kcalls(4)]
  have poll: "kstable s v" if "kstable s u" "ReconcilePoll rnd E L cfg True ((snd (kdo_now E u))\<lparr>needs_immediate_poll := False\<rparr>) = Some (a, v)"
    for u a v
    by (rule kstable_trans [OF kstable_trans [OF now [OF that(1)] kstable_updates(4)] kstable_ReconcilePoll [OF that(2)]])
  show ?thesis
  proof (cases "fst (Kodi_Sleep E (pump_interval cfg) True s) = kStopRequested")
    case True
    then show ?thesis using assms(1) inner(2) [OF 1] by (auto simp: kodi_inner_def case_prod_beta)
  next
    case False
    obtain ok s2 where c: "Kodi_SendPendingCommands E L cfg (PumpNotifications E L ?s1) = Some (ok, s2)"
      using assms(1) False by (auto simp: kodi_inner_def case_prod_beta bind_eq_Some_conv)
    have s2: "kstable s s2" using kstable_trans [OF 2] kstable_SendPending [OF c] by simp
    show ?thesis
    proof (cases ok)
      case no: False
      then show ?thesis using assms(1) False c inner(2) [OF s2] by (auto simp: kodi_inner_def case_prod_beta)
    next
      case True
      obtain ok2 s3 where d: "SendPendingLibraryRequests rnd E L cfg s2 = Some (ok2, s3)"
        using assms(1) False c True by (auto simp: kodi_inner_def case_prod_beta bind_eq_Some_conv)
      have s3: "kstable s s3" by (rule kstable_trans [OF s2 kstable_library [OF d]])
      show ?thesis
        using assms(1) False c True d
        by (auto simp: kodi_inner_def case_prod_beta Let_def bind_eq_Some_conv split: if_splits
            intro: inner now s3 poll [OF s3])
    qed
  qed
qed

lemma kodi_step_inv: "kodi_step rnd E L cfg p = Some q \<Longrightarrow> kodi_pc_inv p \<Longrightarrow> kodi_pc_inv q"
proof (cases p)
  case (Pair pc s)
  assume step: "kodi_step rnd E L cfg p = Some q" and inv: "kodi_pc_inv p"
  then have s: "kodi_inv s" using Pair by (simp add: kodi_pc_inv_def)
  show ?thesis
  proof (cases pc)
    case KOuter
    then show ?thesis
      using step inv Pair s kodi_outer_inv [of rnd E L cfg s q]
      by (auto simp: kodi_pc_inv_def SetState_inv split: if_splits)
  next
    case (KInner t)
    then show ?thesis
      using step inv Pair kodi_inner_inv [of rnd E L cfg t s q] kodi_leave_inv [OF s] by (auto split: if_splits)
  next
    case KFinished
    then show ?thesis using step inv Pair kstableD [OF kstable_absorb [of s E]] by (auto simp: kodi_pc_inv_def)
  qed
qed

lemma kodi_loop_inv: "Kodi_ConnectionLoop rnd E L cfg n p = Some q \<Longrightarrow> kodi_pc_inv p \<Longrightarrow> kodi_pc_inv q"
  by (induction n arbitrary: p) (auto simp: bind_eq_Some_conv dest: kodi_step_inv)

text \<open>
  C5: The Kodi connection loop against any peer, network, browse result, stop request and concurrent
  callers: at every loop head at most 20 commands and 8 distinct library requests are queued, the
  volume is within 0 to 100, the speed within -1000 to 1000, positions, season and episode numbers
  are bounded, the busy flag shown equals the internal one, published state changes never restate a
  state and end in the current one; the connected part has an open socket and state connected, and
  outside it no socket is open.
\<close>

theorem kodi_loop_invariant:
  assumes "Kodi_ConnectionLoop rnd E L cfg n (KOuter, kodi_init i m w) = Some (pc, s)"
  shows "length (k_pending_commands s) \<le> 20 \<and> length (pending_library_requests s) \<le> 8 \<and>
     distinct (pending_library_requests s) \<and>
     0 \<le> volume (k_state s) \<and> volume (k_state s) \<le> 100 \<and> np_ok (now_playing (k_state s)) \<and>
     snap_library_busy (k_state s) = library_busy s \<and>
     replay_kodi KDisconnected (k_published s) = Some (ks_state (k_state s)) \<and>
     ((\<exists>t. pc = KInner t) \<longleftrightarrow> k_ws_open s) \<and>
     (k_ws_open s \<longrightarrow> ks_state (k_state s) = KConnected)"
proof -
  have "kodi_pc_inv (KOuter, kodi_init i m w)"
    by (simp add: kodi_pc_inv_def kodi_init_def kodi_inv_def empty_snapshot_def np_ok_empty)
  from kodi_loop_inv [OF assms this] show ?thesis
    by (cases pc) (auto simp: kodi_pc_inv_def kodi_inv_def)
qed

section \<open>A concrete Kodi\<close>

text \<open>
  A Kodi whose world is the number of frames it still has to send, with a configured host and no stop
  request; a frame is any text, and the JSON parameter reads each as a notification-free object.
\<close>

definition sample_kodi :: "nat kodi_env" where
  "sample_kodi =
     \<lparr>k_connect = \<lambda>url w. (True, w), k_send = \<lambda>t w. (True, w + 1),
      k_recv = \<lambda>t w. if w = 0 then (None, 0) else (Some ''{}'', w - 1),
      k_close = \<lambda>w. w, k_is_open = \<lambda>w. True, k_now = \<lambda>w. (0, w), k_wait = \<lambda>d w. w, k_stop = \<lambda>w. False,
      k_storage = \<lambda>w. \<lparr>settings_store = \<lparr>files = [((''kodi'', ''host''), Encode 1 ''tv'')],
          write_io = \<lambda>_ _. IoOk, erase_error = \<lambda>_ _. False\<rparr>,
        cache_store = \<lparr>files = [], write_io = \<lambda>_ _. IoOk, erase_error = \<lambda>_ _. False\<rparr>,
        secret_store = \<lparr>files = [], write_io = \<lambda>_ _. IoOk, erase_error = \<lambda>_ _. False\<rparr>\<rparr>,
      k_browse = \<lambda>ty t w. ([], w), k_arrivals = \<lambda>w. ([], w)\<rparr>"

definition sample_kodi_lib :: json_lib where
  "sample_kodi_lib = \<lparr>json_parse = \<lambda>t. Some (JObj []), json_dump = \<lambda>j. ''{}''\<rparr>"

definition sample_kodi_config :: kodi_config where
  "sample_kodi_config =
     \<lparr>reconcile_interval = 5000, pump_interval = 100, browse_timeout = 3000, k_max_pending_command_age = 5000,
      library_busy_after = 1000, library_call_timeout = 30000\<rparr>"

theorem kodi_loop_invariant_witness:
  "replay_kodi KDisconnected
     (k_published (snd (the (Kodi_ConnectionLoop (\<lambda>x. x) (sample_kodi\<lparr>k_stop := \<lambda>w. True\<rparr>) sample_kodi_lib sample_kodi_config
        1 (KOuter, kodi_init 2000 60000 0))))) = Some KDisconnected"
  using kodi_loop_invariant [of "\<lambda>x. x" "sample_kodi\<lparr>k_stop := \<lambda>w. True\<rparr>" sample_kodi_lib sample_kodi_config
      1 2000 60000 0 KFinished "kodi_init 2000 60000 0"]
  by (simp add: k_stopping_def Kodi_SetState_def kodi_init_def empty_snapshot_def)

end
