(* ===== verification/Kodi_Progress.thy ===== *)
theory Kodi_Progress
  imports Kodi_Client
begin

text \<open>
  The Kodi client always comes back to a loop head: every wait in kodi_client.cpp (the reply loop of
  Call, the page loop of CallLibrary, the batches and the poll built on them) ends against any peer
  with finitely many frames to send at the moment of the wait.
\<close>

section \<open>Waiting ends\<close>

text \<open>
  A peer that has finitely many frames to send: \<open>frames w\<close> counts them; receiving one uses it up, and
  nothing else the client does brings new ones in.
\<close>

definition finitely_many_frames :: "'w kodi_env \<Rightarrow> ('w \<Rightarrow> nat) \<Rightarrow> bool" where
  "finitely_many_frames E frames \<longleftrightarrow>
     (\<forall>t w. fst (k_recv E t w) \<noteq> None \<longrightarrow> frames (snd (k_recv E t w)) < frames w) \<and>
     (\<forall>t w. frames (snd (k_recv E t w)) \<le> frames w) \<and>
     (\<forall>w. frames (snd (k_now E w)) \<le> frames w) \<and>
     (\<forall>w. frames (snd (k_arrivals E w)) \<le> frames w)"

lemma k_world_client: "k_world (kodi_client_step op s) = k_world s"
  by (cases op) (simp_all add: Kodi_EnqueueCommand_def EnqueueLibraryRequest_def Kodi_TriggerReconnect_def)

lemma k_world_absorb: "k_world (k_absorb E s) = snd (k_arrivals E (k_world s))"
proof -
  have "k_world (fold kodi_client_step ops s) = k_world s" for ops and s :: "'a kodi"
    by (induction ops arbitrary: s) (simp_all add: k_world_client)
  then show ?thesis by (simp add: k_absorb_def case_prod_beta)
qed

lemma k_world_calls:
  "k_world (snd (kdo_recv E t s)) = snd (k_arrivals E (snd (k_recv E t (k_world s))))"
  "fst (kdo_recv E t s) = fst (k_recv E t (k_world s))"
  "k_world (snd (kdo_now E s)) = snd (k_now E (k_world s))"
  by (simp_all add: kdo_recv_def kdo_now_def case_prod_beta k_world_absorb)

lemma k_world_SetLibraryBusy [simp]: "k_world (SetLibraryBusy b s) = k_world s"
  by (simp add: SetLibraryBusy_def k_publish_def)

lemma k_world_handle_frame: "k_world (snd (handle_frame L i t s)) = k_world s"
  by (auto simp: handle_frame_def HandleNotification_def apply_volume_notification_def apply_stop_notification_def
      apply_player_notification_def publish_if_def k_publish_def with_np_def Let_def case_prod_beta split: option.splits)

lemma recv_frames:
  assumes "finitely_many_frames E frames"
  shows "frames (k_world (snd (kdo_recv E t s))) \<le> frames (k_world s)"
    "fst (kdo_recv E t s) \<noteq> None \<Longrightarrow> frames (k_world (snd (kdo_recv E t s))) < frames (k_world s)"
    "frames (k_world (snd (kdo_now E s))) \<le> frames (k_world s)"
  using assms unfolding finitely_many_frames_def k_world_calls by (meson le_trans le_less_trans)+

lemma library_busy_absorb: "library_busy (k_absorb E s) = library_busy s"
proof -
  have "library_busy (fold kodi_client_step ops s) = library_busy s" for ops and s :: "'a kodi"
  proof (induction ops arbitrary: s)
    case (Cons op ops)
    have "library_busy (kodi_client_step op s) = library_busy s"
      by (cases op) (simp_all add: Kodi_EnqueueCommand_def EnqueueLibraryRequest_def Kodi_TriggerReconnect_def)
    then show ?case using Cons by simp
  qed simp
  then show ?thesis by (simp add: k_absorb_def case_prod_beta)
qed

lemma library_busy_calls:
  "library_busy (snd (kdo_recv E t s)) = library_busy s" "library_busy (snd (kdo_now E s)) = library_busy s"
  by (simp_all add: kdo_recv_def kdo_now_def case_prod_beta library_busy_absorb)

lemma call_loop_terminates:
  assumes "finitely_many_frames E frames"
  shows "\<exists>y. call_loop E L i d b r s = Some y"
proof (induction "2 * frames (k_world s) + (if library_busy s then 0 else 1)" arbitrary: s rule: less_induct)
  case less
  let ?s1 = "snd (kdo_now E s)" and ?now = "fst (kdo_now E s)"
  define wait where "wait = (if r \<and> \<not> library_busy ?s1 \<and> ?now < b then min d b else d)"
  let ?rec = "kdo_recv E (max (wait - ?now) 1) ?s1"
  let ?s2 = "snd ?rec"
  let ?s3 = "snd (kdo_now E ?s2)"
  note fr = recv_frames [OF assms]
  note unfold_loop = call_loop.simps [of E L i d b r s, unfolded Let_def case_prod_beta, folded wait_def]
  have m1: "frames (k_world ?s1) \<le> frames (k_world s)" by (rule fr)
  show ?case
  proof (cases "fst ?rec")
    case None
    have "frames (k_world ?s3) \<le> frames (k_world s)"
      using fr(3) [of ?s2] fr(1) [of "max (wait - ?now) 1" ?s1] m1 by simp
    moreover have "library_busy (SetLibraryBusy True ?s3)" by (simp add: SetLibraryBusy_def k_publish_def)
    moreover have "wait < d \<Longrightarrow> \<not> library_busy s" by (auto simp: wait_def library_busy_calls split: if_splits)
    ultimately have "wait < d \<Longrightarrow> \<exists>y. call_loop E L i d b r (SetLibraryBusy True ?s3) = Some y"
      by (intro less.hyps) auto
    with None show ?thesis unfolding unfold_loop by simp
  next
    case (Some t)
    let ?s4 = "snd (handle_frame L i t ?s2)"
    have "frames (k_world ?s4) < frames (k_world s)"
      using fr(2) [of "max (wait - ?now) 1" ?s1] Some m1 by (simp add: k_world_handle_frame)
    then have "\<exists>y. call_loop E L i d b r ?s4 = Some y" by (intro less.hyps) simp
    with Some show ?thesis unfolding unfold_loop by simp
  qed
qed

lemma Call_total:
  assumes "finitely_many_frames E frames"
  obtains reply s' where "Call E L cfg meth params t busy s = Some (reply, s')"
  using call_loop_terminates [OF assms] unfolding Call_def Let_def case_prod_beta by (metis surj_pair)

lemma SendPending_total:
  assumes "finitely_many_frames E frames"
  obtains ok s' where "Kodi_SendPendingCommands E L cfg s = Some (ok, s')"
proof -
  obtain r t where "ResolveActivePlayerId E L cfg (s\<lparr>k_pending_commands := []\<rparr>) = Some (r, t)"
    by (rule Call_total [OF assms, of L cfg "''Player.GetActivePlayers''" "[]" kCallTimeoutMs False
          "s\<lparr>k_pending_commands := []\<rparr>"]) (simp add: ResolveActivePlayerId_def)
  then have "\<exists>y. Kodi_SendPendingCommands E L cfg s = Some y"
    by (auto simp: Kodi_SendPendingCommands_def Let_def case_prod_beta)
  with that show thesis by auto
qed

text \<open>Each further page adds at least one item to a list that is cut at \<^const>\<open>kMaxLibraryItems\<close>.\<close>

lemma page_loop_total:
  assumes fin: "finitely_many_frames E frames"
  shows "page_loop E L cfg meth params key start merged trunc s \<noteq> None"
proof (induction "kMaxLibraryItems - length merged" arbitrary: start merged trunc s rule: less_induct)
  case less
  let ?flush = "if 0 < start then Kodi_SendPendingCommands E L cfg s else Some (True, s)"
  obtain ok s1 where flush: "?flush = Some (ok, s1)"
    by (rule SendPending_total [OF fin, of L cfg s]) (metis surj_pair option.inject)
  obtain reply s2 where call:
    "Call E L cfg meth (json_dump L (page_params params start)) (library_call_timeout cfg) True s1 = Some (reply, s2)"
    by (rule Call_total [OF fin])
  obtain reply3 s3 where retry:
    "Call E L cfg meth (json_dump L (json_erase ''limits'' (page_params params start))) (library_call_timeout cfg) True s2
       = Some (reply3, s3)"
    by (rule Call_total [OF fin])
  have next_page: "page_loop E L cfg meth params key st (merged @ take (kMaxLibraryItems - length merged) page) tr s2 \<noteq> None"
    if "\<not> kMaxLibraryItems \<le> length merged" "length page = kLibraryPageSize" for st page tr
    using that by (intro less.hyps) (simp add: kLibraryPageSize_def)
  note unfold_loop = page_loop.simps [of E L cfg meth params key start merged trunc s, unfolded flush]
  show ?case
    unfolding unfold_loop
    by (cases reply)
      (simp_all add: call next_page Let_def case_prod_beta del: not_None_eq split: option.split, use retry in auto)
qed

lemma CallLibrary_total:
  assumes fin: "finitely_many_frames E frames"
  obtains reply tr s' where "CallLibrary E L cfg meth params key s = Some (reply, tr, s')"
proof -
  obtain ok s1 where 1: "Kodi_SendPendingCommands E L cfg s = Some (ok, s1)" by (rule SendPending_total [OF fin])
  obtain r s2 where 2: "Call E L cfg meth params (library_call_timeout cfg) True s1 = Some (r, s2)"
    by (rule Call_total [OF fin])
  have "\<exists>y. CallLibrary E L cfg meth params key s = Some y"
    using page_loop_total [OF fin, of L cfg meth _ _ 0 "[]" False s1, unfolded not_None_eq]
    by (auto simp: CallLibrary_def 1 2 case_prod_beta split: option.split)
  with that show thesis by auto
qed

lemma library_loop_total:
  assumes fin: "finitely_many_frames E frames"
  shows "\<exists>y. library_loop rnd E L cfg rs s = Some y"
proof (induction rs arbitrary: s)
  case (Cons r rs)
  obtain meth params key event where q: "BuildLibraryQuery rnd L r = (meth, params, key, event)" by (metis surj_pair)
  obtain t tr s1 where "CallLibrary E L cfg meth (json_dump L params) key s = Some (t, tr, s1)"
    by (rule CallLibrary_total [OF fin])
  with q Cons show ?case by (auto split: option.split)
qed auto

lemma poll_player_total:
  assumes fin: "finitely_many_frames E frames"
  shows "\<exists>y. poll_player rnd E L cfg tol ch pid s = Some y"
proof -
  obtain r1 s1 where 1: "Call E L cfg ''Player.GetProperties'' (properties_params pid) kCallTimeoutMs False s = Some (r1, s1)"
    by (rule Call_total [OF fin])
  obtain r2 s2 where 2: "Call E L cfg ''Player.GetItem'' (item_params pid) kCallTimeoutMs False s1 = Some (r2, s2)"
    by (rule Call_total [OF fin])
  show ?thesis by (auto simp: poll_player_def 1 2 Let_def split: option.split)
qed

lemma ReconcilePoll_total:
  assumes fin: "finitely_many_frames E frames"
  obtains alive s' where "ReconcilePoll rnd E L cfg tol s = Some (alive, s')"
proof -
  obtain r1 s1 where 1: "Call E L cfg ''Application.GetProperties''
      ''{\"properties\":[\"volume\",\"muted\",\"version\"]}'' kCallTimeoutMs False s = Some (r1, s1)"
    by (rule Call_total [OF fin])
  have "ReconcilePoll rnd E L cfg tol s \<noteq> None"
  proof (cases r1)
    case (Some app)
    obtain c s2 where a: "apply_app_properties L app (s1\<lparr>consecutive_poll_timeouts := 0\<rparr>) = (c, s2)" by (metis surj_pair)
    obtain r3 s3 where "Call E L cfg ''Player.GetActivePlayers'' [] kCallTimeoutMs False s2 = Some (r3, s3)"
      by (rule Call_total [OF fin])
    with Some a show ?thesis using poll_player_total [OF fin]
      by (auto simp: ReconcilePoll_def 1 split: option.split)
  qed (simp add: ReconcilePoll_def 1)
  with that show thesis by auto
qed

lemma ConnectAndPrime_total:
  assumes fin: "finitely_many_frames E frames"
  obtains ok s' where "ConnectAndPrime rnd E L cfg target s = Some (ok, s')"
proof -
  have "\<exists>y. ConnectAndPrime rnd E L cfg target s = Some y"
    using ReconcilePoll_total [OF fin] unfolding ConnectAndPrime_def Let_def case_prod_beta by (metis (full_types))
  with that show thesis by auto
qed

lemma kodi_outer_total:
  assumes fin: "finitely_many_frames E frames"
  shows "\<exists>q. kodi_outer rnd E L cfg s = Some q"
proof (cases "fst (ResolveTarget E cfg s)")
  case None
  then show ?thesis by (simp add: kodi_outer_def Let_def case_prod_beta)
next
  case (Some tgt)
  have "\<exists>y. ConnectAndPrime rnd E L cfg tgt t = Some y" for t using ConnectAndPrime_total [OF fin] by metis
  then obtain ok s2 where "ConnectAndPrime rnd E L cfg tgt
      (Kodi_SetState KConnecting ((snd (ResolveTarget E cfg s))\<lparr>no_target_backoff :=
         RetryBackoff_ResetAttempts (no_target_backoff (snd (ResolveTarget E cfg s)))\<rparr>)) = Some (ok, s2)"
    by (metis surj_pair)
  then show ?thesis using Some by (simp add: kodi_outer_def Let_def case_prod_beta)
qed

lemma kodi_inner_total:
  assumes fin: "finitely_many_frames E frames"
  shows "\<exists>q. kodi_inner rnd E L cfg t0 s = Some q"
proof -
  obtain reason s1 where 1: "Kodi_Sleep E (pump_interval cfg) True s = (reason, s1)" by (metis surj_pair)
  obtain ok s2 where 2: "Kodi_SendPendingCommands E L cfg (PumpNotifications E L s1) = Some (ok, s2)"
    by (rule SendPending_total [OF fin])
  obtain ok2 s3 where 3: "SendPendingLibraryRequests rnd E L cfg s2 = Some (ok2, s3)"
    using library_loop_total [OF fin, of rnd L cfg] unfolding SendPendingLibraryRequests_def Let_def by (metis surj_pair)
  obtain now s4 where 4: "kdo_now E s3 = (now, s4)" by (metis surj_pair)
  obtain alive s5 where 5: "ReconcilePoll rnd E L cfg True (s4\<lparr>needs_immediate_poll := False\<rparr>) = Some (alive, s5)"
    by (rule ReconcilePoll_total [OF fin])
  show ?thesis by (simp add: kodi_inner_def 1 2 3 4 5 Let_def case_prod_beta)
qed

lemma kodi_loop_total:
  assumes fin: "finitely_many_frames E frames"
  shows "\<exists>q. Kodi_ConnectionLoop rnd E L cfg n p = Some q"
proof (induction n arbitrary: p)
  case (Suc n)
  obtain pc s where p: "p = (pc, s)" by (cases p)
  have "\<exists>q. kodi_step rnd E L cfg p = Some q"
    using kodi_outer_total [OF fin] kodi_inner_total [OF fin] by (cases pc) (auto simp: p)
  with Suc show ?case by auto
qed simp

text \<open>
  C29: The Kodi loop never hangs in a wait: against any peer with finitely many frames to send at a time
  (late replies, replies to other ids, notifications and garbage included), whatever the clock does,
  every number of loop rounds is reached, each JSON-RPC call inside returns, and the round that finds
  a stop request set ends the loop disconnected within two rounds.
\<close>

theorem kodi_loop_progress:
  assumes "finitely_many_frames E frames"
  shows "\<exists>pc s. Kodi_ConnectionLoop rnd E L cfg n (KOuter, kodi_init i m w) = Some (pc, s) \<and>
     (\<forall>meth params t busy. \<exists>reply s'. Call E L cfg meth params t busy s = Some (reply, s')) \<and>
     (pc = KFinished \<or> \<not> k_stopping E s \<or> \<not> k_stopping E (snd (kodi_leave E s)) \<or>
      (\<exists>s'. Kodi_ConnectionLoop rnd E L cfg 2 (pc, s) = Some (KFinished, s') \<and> ks_state (k_state s') = KDisconnected))"
proof -
  obtain pc s where "Kodi_ConnectionLoop rnd E L cfg n (KOuter, kodi_init i m w) = Some (pc, s)"
    using kodi_loop_total [OF assms] by (metis surj_pair)
  moreover have "\<forall>meth params t busy. \<exists>reply s'. Call E L cfg meth params t busy s = Some (reply, s')"
    using Call_total [OF assms] by metis
  moreover have "pc = KFinished \<or> \<not> k_stopping E s \<or> \<not> k_stopping E (snd (kodi_leave E s)) \<or>
      (\<exists>s'. Kodi_ConnectionLoop rnd E L cfg 2 (pc, s) = Some (KFinished, s') \<and> ks_state (k_state s') = KDisconnected)"
    by (cases pc) (auto simp: numeral_2_eq_2 Kodi_SetState_def kodi_leave_def k_publish_def kstableD [OF kstable_absorb])
  ultimately show ?thesis by blast
qed

lemma sample_kodi_frames: "finitely_many_frames sample_kodi (\<lambda>w. w)"
  by (auto simp: finitely_many_frames_def sample_kodi_def)

theorem kodi_loop_progress_witness:
  "\<exists>pc s. Kodi_ConnectionLoop (\<lambda>x. x) sample_kodi sample_kodi_lib sample_kodi_config 7
     (KOuter, kodi_init 2000 60000 0) = Some (pc, s)"
  using kodi_loop_progress [OF sample_kodi_frames, of "\<lambda>x. x" sample_kodi_lib sample_kodi_config 7 2000 60000 0] by blast

end
