(* ===== verification/Kodi_Discovery.thy ===== *)
theory Kodi_Discovery
  imports Kodi_Client
begin

text \<open>
  What instance discovery in kodi_client.cpp promises: the duplicate-free list built from an mDNS
  browse (DeduplicateInstances) and the target the connection loop then dials (ResolveTarget,
  WebSocketUrl).
\<close>

section \<open>Deduplication\<close>

text \<open>
  The state of the loop after the services in \<open>seen\<close>: the index finds exactly the positions of the
  keys held, each key once, and every held entry has the best rank seen for its key.
\<close>

definition dedup_inv :: "mdns_service set \<Rightarrow> mdns_service list \<Rightarrow> (string \<Rightarrow> nat option) \<Rightarrow> bool" where
  "dedup_inv seen unique idx \<longleftrightarrow>
     distinct (map instance_key unique) \<and>
     (\<forall>k i. idx k = Some i \<longleftrightarrow> i < length unique \<and> instance_key (unique ! i) = k) \<and>
     set unique \<subseteq> seen \<and> instance_key ` set unique = instance_key ` seen \<and>
     (\<forall>u \<in> set unique. \<forall>x \<in> seen. instance_key x = instance_key u \<longrightarrow> instance_rank x \<le> instance_rank u)"

lemma dedup_inv_new:
  assumes "dedup_inv seen unique idx" "idx (instance_key s) = None"
  shows "dedup_inv (insert s seen) (unique @ [s]) (idx(instance_key s \<mapsto> length unique))"
proof -
  note inv = assms(1) [unfolded dedup_inv_def]
  have fresh: "instance_key s \<notin> instance_key ` set unique"
  proof
    assume "instance_key s \<in> instance_key ` set unique"
    then obtain i where "i < length unique" "instance_key (unique ! i) = instance_key s"
      by (auto simp: in_set_conv_nth)
    then have "idx (instance_key s) = Some i" using inv by blast
    with assms(2) show False by simp
  qed
  then have fresh': "instance_key s \<notin> instance_key ` seen" using inv by simp
  have index: "(idx(instance_key s \<mapsto> length unique)) k = Some i \<longleftrightarrow>
      i < length (unique @ [s]) \<and> instance_key ((unique @ [s]) ! i) = k" for k i
  proof (cases "k = instance_key s")
    case True
    then have "\<not> (i < length unique \<and> instance_key (unique ! i) = k)" using fresh by (metis imageI nth_mem)
    with True show ?thesis by (auto simp: nth_append less_Suc_eq)
  next
    case False
    then show ?thesis using inv by (auto simp: nth_append less_Suc_eq)
  qed
  have rank: "instance_rank x \<le> instance_rank u"
    if "u \<in> set (unique @ [s])" "x \<in> insert s seen" "instance_key x = instance_key u" for u x
    using that inv fresh fresh' by (auto simp: image_iff)
  show ?thesis using inv fresh index rank by (auto simp: dedup_inv_def)
qed

lemma dedup_inv_keep:
  assumes "dedup_inv seen unique idx" "idx (instance_key s) = Some i" "instance_rank s \<le> instance_rank (unique ! i)"
  shows "dedup_inv (insert s seen) unique idx"
proof -
  note inv = assms(1) [unfolded dedup_inv_def]
  have i: "i < length unique" "instance_key (unique ! i) = instance_key s" using inv assms(2) by blast+
  have only: "u = unique ! i" if "u \<in> set unique" "instance_key u = instance_key s" for u
  proof -
    obtain j where j: "j < length unique" "u = unique ! j" using \<open>u \<in> set unique\<close> by (metis in_set_conv_nth)
    then have "idx (instance_key s) = Some j" using inv that(2) by blast
    with assms(2) j show ?thesis by simp
  qed
  have "instance_key s \<in> instance_key ` seen" using i inv by (metis imageI nth_mem)
  then show ?thesis using inv only assms(3) by (auto simp: dedup_inv_def insert_absorb)
qed

lemma dedup_inv_replace:
  assumes "dedup_inv seen unique idx" "idx (instance_key s) = Some i" "instance_rank (unique ! i) < instance_rank s"
  shows "dedup_inv (insert s seen) (unique[i := s]) idx"
proof -
  have dist: "distinct (map instance_key unique)"
    and index: "\<And>k j. idx k = Some j \<longleftrightarrow> j < length unique \<and> instance_key (unique ! j) = k"
    and sub: "set unique \<subseteq> seen" and keys_seen: "instance_key ` set unique = instance_key ` seen"
    and best: "\<And>u x. u \<in> set unique \<Longrightarrow> x \<in> seen \<Longrightarrow> instance_key x = instance_key u \<Longrightarrow> instance_rank x \<le> instance_rank u"
    using assms(1) unfolding dedup_inv_def by auto
  have i: "i < length unique" "instance_key (unique ! i) = instance_key s" using index assms(2) by auto
  have keys: "map instance_key (unique[i := s]) = map instance_key unique"
    using i by (metis list_update_id map_update)
  then have key_set: "instance_key ` set (unique[i := s]) = instance_key ` set unique" by (metis list.set_map)
  have key_at: "instance_key (unique[i := s] ! j) = instance_key (unique ! j)" if "j < length unique" for j
    using keys that by (metis length_list_update nth_map)
  have "unique ! i \<in> seen" using i sub by auto
  then have "instance_key s \<in> instance_key ` seen" using i by (metis imageI)
  then have same: "instance_key ` insert s seen = instance_key ` seen" by auto
  have rank: "instance_rank x \<le> instance_rank u"
    if u: "u \<in> set (unique[i := s])" and x: "x \<in> insert s seen" and eq: "instance_key x = instance_key u" for u x
  proof (cases "u = s")
    case True
    have "instance_rank x \<le> instance_rank (unique ! i)" if "x \<in> seen"
      using best [of "unique ! i" x] i that eq True by simp
    with True x assms(3) show ?thesis by auto
  next
    case False
    obtain j where j: "j < length unique" "u = unique[i := s] ! j" using u by (metis in_set_conv_nth length_list_update)
    with False have "j \<noteq> i" and uj: "u = unique ! j" using i by (auto simp: nth_list_update)
    have "instance_key (unique ! j) \<noteq> instance_key (unique ! i)"
      using dist j(1) i(1) \<open>j \<noteq> i\<close> by (simp add: distinct_conv_nth)
    then have "x \<in> seen" using x eq uj i by auto
    then show ?thesis using best [of u x] uj j(1) eq by simp
  qed
  have "set (unique[i := s]) \<subseteq> insert s seen" using sub set_update_subset_insert [of unique i s] by auto
  moreover have "idx k = Some j \<longleftrightarrow> j < length (unique[i := s]) \<and> instance_key (unique[i := s] ! j) = k" for k j
    using index key_at [of j] by auto
  ultimately show ?thesis
    unfolding dedup_inv_def keys key_set same using dist keys_seen rank by auto
qed

lemma dedup_loop_inv:
  assumes "dedup_inv seen unique idx"
  shows "\<exists>idx'. dedup_inv (seen \<union> set services) (dedup_loop services unique idx) idx'"
  using assms
proof (induction services arbitrary: seen unique idx)
  case (Cons s services)
  have *: ?case if "dedup_inv (insert s seen) u idx2" "dedup_loop (s # services) unique idx = dedup_loop services u idx2" for u idx2
    using Cons.IH [OF that(1)] that(2) by simp
  show ?case
  proof (cases "idx (instance_key s)")
    case None
    then show ?thesis using *[OF dedup_inv_new [OF Cons.prems None]] by simp
  next
    case (Some i)
    then show ?thesis
      using *[OF dedup_inv_replace [OF Cons.prems Some]] *[OF dedup_inv_keep [OF Cons.prems Some]]
      by (cases "instance_rank (unique ! i) < instance_rank s") auto
  qed
qed auto

lemma DeduplicateInstances_inv: "\<exists>idx. dedup_inv (set services) (DeduplicateInstances services) idx"
  using dedup_loop_inv [of "{}" "[]" "\<lambda>_. None" services] by (simp add: DeduplicateInstances_def dedup_inv_def)

text \<open>
  Every Kodi that answered an mDNS browse is listed exactly once: the deduplicated list holds
  answers of the browse only, no two with the same identity (advertised uuid, else name and port),
  every identity seen is present, and the entry kept for it has the best address of all its answers
  (IPv4 over IPv6 over none).
\<close>

lemma DeduplicateInstances_one_best_per_identity:
  "distinct (map instance_key (DeduplicateInstances services)) \<and>
   set (DeduplicateInstances services) \<subseteq> set services \<and>
   instance_key ` set (DeduplicateInstances services) = instance_key ` set services \<and>
   (\<forall>u \<in> set (DeduplicateInstances services). \<forall>x \<in> set services.
      instance_key x = instance_key u \<longrightarrow> instance_rank x \<le> instance_rank u)"
proof -
  obtain idx where "dedup_inv (set services) (DeduplicateInstances services) idx"
    using DeduplicateInstances_inv by blast
  then show ?thesis unfolding dedup_inv_def by blast
qed

definition sample_answer :: "string \<Rightarrow> string \<Rightarrow> mdns_service" where
  "sample_answer addr uuid =
     \<lparr>instance_name = ''tv'', hostname = ''tv.local'', address = addr, mdns_port = 9090, txt_records = [(''uuid'', uuid)]\<rparr>"

section \<open>The target dialled\<close>

lemma to_string_nat_digits: "c \<in> set (to_string (int n)) \<Longrightarrow> c_isdigit c"
  using dec_of_nat_digits by (auto simp: to_string_def split: if_splits)

lemma HostPortAuthority_url:
  assumes "\<not> HasUnsafeHostChars h True" "CHR ''['' \<notin> set h" "CHR '']'' \<notin> set h"
  shows "url_host (Kodi_WebSocketUrl h p) = h \<and> url_port (Kodi_WebSocketUrl h p) = to_string (int p)"
proof (cases "CHR '':'' \<in> set h")
  case False
  then have plain: "HostPortAuthority h p = h @ '':'' @ to_string (int p)"
    by (simp add: HostPortAuthority_def find_char_None)
  have safe: "\<not> HasUnsafeHostChars h False" using assms(1) False unfolding HasUnsafeHostChars_iff by simp
  have ws: "CHR '':'' \<notin> set ''ws''" by simp
  have hd: "h = [] \<or> hd h \<noteq> CHR ''[''" using assms(2) by (cases h) auto
  show ?thesis
    using url_host_port_plain [where port = "to_string (int p)" and path = "''jsonrpc''", OF ws safe hd to_string_nat_digits]
    by (simp add: Kodi_WebSocketUrl_def plain)
next
  case True
  then have h: "h \<noteq> []" "hd h \<noteq> CHR ''[''" using assms(2) by (cases h; auto)+
  let ?hp = "CHR ''['' # h @ CHR '']'' # CHR '':'' # to_string (int p)"
  have "HostPortAuthority h p = ?hp" using True h by (simp add: HostPortAuthority_def find_char_None)
  moreover have "c \<notin> set ''/#?@''" if "c \<in> set ?hp" for c
    using that safe_host_chars(1) [OF assms(1)] to_string_nat_digits [of c p] by (auto simp: cpp_class byte_def)
  then have "url_hostport (''ws'' @ ''://'' @ ?hp @ ''/'' @ ''jsonrpc'') = ?hp" by (intro url_hostport_safe) auto
  ultimately have "url_hostport (Kodi_WebSocketUrl h p) = ?hp" by (simp add: Kodi_WebSocketUrl_def)
  moreover have "takeWhile (\<lambda>c. c \<noteq> CHR '']'') (h @ CHR '']'' # CHR '':'' # to_string (int p)) = h"
    "dropWhile (\<lambda>c. c \<noteq> CHR '']'') (h @ CHR '']'' # CHR '':'' # to_string (int p)) = CHR '']'' # CHR '':'' # to_string (int p)"
    using assms(3) by (auto intro!: takeWhile_append_stop dropWhile_append_stop)
  ultimately show ?thesis by (simp add: url_host_def url_port_def)
qed

text \<open>The answer the browse branch settles on, and why it is the one.\<close>

lemma choose_instance_sound:
  assumes "choose_instance uuid (DeduplicateInstances answers) = Some c"
  shows "c \<in> set answers \<and> address c \<noteq> [] \<and>
     (if uuid \<noteq> [] then map_of (txt_records c) ''uuid'' = Some uuid
      else \<forall>x \<in> set answers. instance_key x = instance_key c)"
proof -
  obtain idx where inv: "dedup_inv (set answers) (DeduplicateInstances answers) idx" using DeduplicateInstances_inv by blast
  have "c \<in> set (DeduplicateInstances answers)" "address c \<noteq> []"
    using assms by (auto simp: choose_instance_def find_Some_iff length_Suc_conv Let_def split: if_splits option.splits)
  moreover have "map_of (txt_records c) ''uuid'' = Some uuid" if "uuid \<noteq> []"
    using assms that by (auto simp: choose_instance_def find_Some_iff split: if_splits option.splits)
  moreover have "\<forall>x \<in> set answers. instance_key x = instance_key c" if "uuid = []"
  proof -
    have "DeduplicateInstances answers = [c]"
      using assms that by (auto simp: choose_instance_def length_Suc_conv split: if_splits option.splits)
    with inv have "instance_key ` set answers = {instance_key c}" by (simp add: dedup_inv_def)
    then show ?thesis by blast
  qed
  ultimately show ?thesis using inv by (auto simp: dedup_inv_def)
qed

text \<open>The host set by hand, when there is one and it passes the check.\<close>

definition host_set :: "'w kodi_env \<Rightarrow> 'w kodi \<Rightarrow> string option" where
  "host_set E s =
     (case k_setting E kHostKey s of
        Some v \<Rightarrow> if vv_value v \<noteq> [] \<and> IsValidKodiHost (vv_value v) then Some (vv_value v) else None
      | None \<Rightarrow> None)"

text \<open>An answer the loop may dial, given the stored choice of a Kodi (empty: none stored).\<close>

definition dialled_answer :: "string \<Rightarrow> mdns_service list \<Rightarrow> kodi_target \<Rightarrow> mdns_service \<Rightarrow> bool" where
  "dialled_answer uuid answers target c \<longleftrightarrow>
     c \<in> set answers \<and> address c \<noteq> [] \<and> target = \<lparr>target_host = address c, target_port = mdns_port c\<rparr> \<and>
     (if uuid \<noteq> [] then map_of (txt_records c) ''uuid'' = Some uuid
      else \<forall>x \<in> set (filter usable_service answers). instance_key x = instance_key c)"

lemma ResolveTarget_manual:
  "host_set E s = Some h \<Longrightarrow> fst (ResolveTarget E cfg s) = Some \<lparr>target_host = h, target_port = 9090\<rparr>"
  by (simp add: host_set_def ResolveTarget_def kDefaultPort_def Let_def split: option.splits if_splits)

lemma ResolveTarget_browsed:
  assumes "host_set E s = None" "fst (ResolveTarget E cfg s) = Some target" "kdo_browse E (browse_timeout cfg) s = (answers, s1)"
  shows "\<exists>c. dialled_answer (case k_setting E kInstanceUuidKey s1 of Some v \<Rightarrow> vv_value v | None \<Rightarrow> []) answers target c \<and> usable_service c"
proof -
  define uuid where "uuid = (case k_setting E kInstanceUuidKey s1 of Some v \<Rightarrow> vv_value v | None \<Rightarrow> [])"
  have "fst (ResolveTarget E cfg s) = map_option (\<lambda>c. \<lparr>target_host = address c, target_port = mdns_port c\<rparr>)
      (choose_instance uuid (DeduplicateInstances (filter usable_service answers)))"
    using assms(1,3) by (simp add: host_set_def ResolveTarget_def uuid_def Let_def split: option.splits if_splits)
  then obtain c where c: "choose_instance uuid (DeduplicateInstances (filter usable_service answers)) = Some c"
      "target = \<lparr>target_host = address c, target_port = mdns_port c\<rparr>"
    using assms(2) by (cases "choose_instance uuid (DeduplicateInstances (filter usable_service answers))") auto
  note sound = choose_instance_sound [OF c(1)]
  have "dialled_answer uuid answers target c"
    unfolding dialled_answer_def using sound c(2) by (intro conjI) (blast | simp)+
  moreover have "usable_service c" using sound by simp
  ultimately show ?thesis unfolding uuid_def by blast
qed

text \<open>
  C35: The Kodi the loop dials is the one the user meant. Whenever a host is set that is not empty and passes the check
  it is dialled, on port 9090. Otherwise a target is an answer of the browse with an address and a
  non-zero port which carries the stored uuid, or, when none is stored, is the only Kodi among the usable
  answers. The host dialled has none of the characters \<^verbatim>\<open>/ # ? @\<close>, no blank and no scheme separator, and if
  it has no square bracket (no IP address has one) the WebSocket URL built for it parses back to exactly that
  host and port, IPv6 addresses included.
\<close>

theorem ResolveTarget_dials_the_chosen_kodi:
  "case fst (ResolveTarget E cfg s) of
     None \<Rightarrow> host_set E s = None
   | Some target \<Rightarrow>
       (case host_set E s of
          Some h \<Rightarrow> target = \<lparr>target_host = h, target_port = 9090\<rparr>
        | None \<Rightarrow>
            (let (answers, s1) = kdo_browse E (browse_timeout cfg) s;
                 uuid = (case k_setting E kInstanceUuidKey s1 of Some v \<Rightarrow> vv_value v | None \<Rightarrow> [])
             in \<exists>c. dialled_answer uuid answers target c)) \<and>
       target_port target \<noteq> 0 \<and> target_host target \<noteq> [] \<and> \<not> HasUnsafeHostChars (target_host target) True \<and>
       (set (target_host target) \<inter> {CHR ''['', CHR '']''} = {} \<longrightarrow>
          url_host (Kodi_WebSocketUrl (target_host target) (target_port target)) = target_host target \<and>
          url_port (Kodi_WebSocketUrl (target_host target) (target_port target)) = to_string (int (target_port target)))"
proof (cases "host_set E s")
  case (Some h)
  then have h: "h \<noteq> []" "\<not> HasUnsafeHostChars h True"
    unfolding HasUnsafeHostChars_iff
    by (auto simp: host_set_def IsValidKodiHost_def HasUnsafeHostChars_iff split: option.splits if_splits)
  show ?thesis
    using h HostPortAuthority_url [OF h(2), of 9090] unfolding ResolveTarget_manual [OF Some] Some by auto
next
  case None
  show ?thesis
  proof (cases "fst (ResolveTarget E cfg s)")
    case (Some target)
    obtain answers s1 where b: "kdo_browse E (browse_timeout cfg) s = (answers, s1)" by fastforce
    obtain c where c: "dialled_answer (case k_setting E kInstanceUuidKey s1 of Some v \<Rightarrow> vv_value v | None \<Rightarrow> []) answers target c"
        "usable_service c"
      using ResolveTarget_browsed [OF None Some b] by blast
    then have t: "target_host target = address c" "target_port target = mdns_port c" "address c \<noteq> []"
      by (auto simp: dialled_answer_def)
    then have safe: "\<not> HasUnsafeHostChars (target_host target) True" "target_port target \<noteq> 0"
      using c(2) by (simp_all add: usable_service_def service_host_def)
    have url: "set (target_host target) \<inter> {CHR ''['', CHR '']''} = {} \<longrightarrow>
        url_host (Kodi_WebSocketUrl (target_host target) (target_port target)) = target_host target \<and>
        url_port (Kodi_WebSocketUrl (target_host target) (target_port target)) = to_string (int (target_port target))"
      using HostPortAuthority_url [OF safe(1)] by blast
    show ?thesis
      unfolding Some None option.case b Let_def prod.case
      by (intro conjI exI [of _ c] c(1) safe url) (simp add: t)
  qed (simp add: None)
qed

definition two_answers :: "nat kodi_env" where
  "two_answers = sample_kodi\<lparr>
     k_browse := \<lambda>_ _ w. ([sample_answer ''10.0.0.2'' ''u2'', sample_answer ''fe80::1'' ''u1''], w),
     k_storage := \<lambda>w. \<lparr>settings_store = \<lparr>files = [((kodi_kModuleId, kInstanceUuidKey), Encode 1 ''u1'')],
          write_io = \<lambda>_ _. IoOk, erase_error = \<lambda>_ _. False\<rparr>,
        cache_store = \<lparr>files = [], write_io = \<lambda>_ _. IoOk, erase_error = \<lambda>_ _. False\<rparr>,
        secret_store = \<lparr>files = [], write_io = \<lambda>_ _. IoOk, erase_error = \<lambda>_ _. False\<rparr>\<rparr>\<rparr>"

theorem ResolveTarget_dials_the_chosen_kodi_witness:
  "fst (ResolveTarget two_answers sample_kodi_config (kodi_init 2000 60000 0)) = Some \<lparr>target_host = ''fe80::1'', target_port = 9090\<rparr> \<and>
   url_host (Kodi_WebSocketUrl ''fe80::1'' 9090) = ''fe80::1''"
proof -
  let ?s = "kodi_init 2000 60000 0 :: nat kodi" and ?xs = "[sample_answer ''10.0.0.2'' ''u2'', sample_answer ''fe80::1'' ''u1'']"
  have host: "k_setting two_answers kHostKey ?s = None" by code_simp
  have browse: "fst (kdo_browse two_answers (browse_timeout sample_kodi_config) ?s) = ?xs"
    by (simp add: kdo_browse_def two_answers_def)
  have uuid: "k_setting two_answers kInstanceUuidKey (snd (kdo_browse two_answers (browse_timeout sample_kodi_config) ?s)) =
      Some \<lparr>schema_version = 1, vv_value = ''u1''\<rparr>"
    by code_simp
  have chosen: "choose_instance ''u1'' (DeduplicateInstances (filter usable_service ?xs)) = Some (sample_answer ''fe80::1'' ''u1'')"
    by code_simp
  have eq: "fst (ResolveTarget two_answers sample_kodi_config ?s) = Some \<lparr>target_host = ''fe80::1'', target_port = 9090\<rparr>"
    unfolding ResolveTarget_def Let_def case_prod_beta host browse uuid option.case versioned_value.simps chosen
    by (simp add: sample_answer_def)
  then show ?thesis
    using ResolveTarget_dials_the_chosen_kodi [where E = two_answers and cfg = sample_kodi_config and s = ?s] by simp
qed

end
