(* ===== verification/Ws_Codec.thy ===== *)
theory Ws_Codec
  imports Url Net
begin

text \<open>
  The pure parts of platform/host/websocket_client.cpp: URL splitting, Base64, SHA-1, the accept key
  and header lookup of the upgrade handshake, and the masked client frame. Bytes on the wire are
  \<^typ>\<open>u8\<close>; SHA-1 runs on wrapping 32-bit words; a frame length is a natural number, eight bytes
  holding every \<^verbatim>\<open>size_t\<close>.
\<close>

unbundle bit_operations_syntax

section \<open>Bytes and characters\<close>

definition bytes_of :: "string \<Rightarrow> u8 list" where
  "bytes_of = map (\<lambda>c. word_of_nat (byte c))"

definition string_of :: "u8 list \<Rightarrow> string" where
  "string_of = map (\<lambda>b. char_of (unat b))"

lemma string_of_bytes_of [simp]: "string_of (bytes_of s) = s"
  by (induction s) (simp_all add: string_of_def bytes_of_def unat_of_nat)

lemma bytes_of_string_of [simp]: "bytes_of (string_of bs) = bs"
  by (induction bs) (simp_all add: string_of_def bytes_of_def byte_char_of)

lemma length_bytes_of [simp]: "length (bytes_of s) = length s"
  by (simp add: bytes_of_def)

section \<open>URLs\<close>

definition ToHttpScheme :: "string \<Rightarrow> string" where
  "ToHttpScheme ws_url =
     (if take 6 ws_url = ''wss://'' then ''https://'' @ drop 6 ws_url
      else if take 5 ws_url = ''ws://'' then ''http://'' @ drop 5 ws_url
      else ws_url)"

record parsed_url =
  host_header :: string
  request_target :: string

definition ParseWsUrl :: "string \<Rightarrow> parsed_url" where
  "ParseWsUrl url =
     (let host_start = (case find_from ''://'' url 0 of None \<Rightarrow> 0 | Some scheme_end \<Rightarrow> scheme_end + 3)
      in case find_from ''/'' url host_start of
           None \<Rightarrow> \<lparr>host_header = drop host_start url, request_target = ''/''\<rparr>
         | Some path_start \<Rightarrow>
             \<lparr>host_header = take (path_start - host_start) (drop host_start url),
              request_target = drop path_start url\<rparr>)"

section \<open>Base64\<close>

definition kTable :: string where
  "kTable = ''ABCDEFGHIJKLMNOPQRSTUVWXYZabcdefghijklmnopqrstuvwxyz0123456789+/''"

text \<open>\<open>(n >> shift) & 0x3F\<close> as an index into the table.\<close>

definition b64_digit :: "nat \<Rightarrow> nat \<Rightarrow> char" where
  "b64_digit n shift = kTable ! (n div 2 ^ shift mod 64)"

fun Base64Encode :: "u8 list \<Rightarrow> string" where
  "Base64Encode (a # b # c # rest) =
     (let n = unat a * 65536 + unat b * 256 + unat c
      in b64_digit n 18 # b64_digit n 12 # b64_digit n 6 # b64_digit n 0 # Base64Encode rest)"
| "Base64Encode [a, b] =
     (let n = unat a * 65536 + unat b * 256
      in [b64_digit n 18, b64_digit n 12, b64_digit n 6, CHR ''=''])"
| "Base64Encode [a] = (let n = unat a * 65536 in [b64_digit n 18, b64_digit n 12, CHR ''='', CHR ''=''])"
| "Base64Encode [] = []"

section \<open>SHA-1\<close>

definition left_rotate :: "u32 \<Rightarrow> nat \<Rightarrow> u32" where
  "left_rotate v bits = push_bit bits v OR drop_bit (32 - bits) v"

text \<open>The padding loop: zero bytes up to 56 modulo 64.\<close>

lemma sha1_pad_measure:
  assumes "n mod 64 \<noteq> (56 :: nat)"
  shows "(120 - Suc n mod 64) mod 64 < (120 - n mod 64) mod 64"
proof -
  have gap: "(120 - r) mod 64 = (if r \<le> 56 then 56 - r else 120 - r)" if "r < 64" for r :: nat
  proof (cases "r \<le> 56")
    case True
    then have "120 - r = 64 + (56 - r)" by simp
    with True show ?thesis by (simp only: mod_add_self1) simp
  qed (use that in simp)
  define r where "r = n mod 64"
  have r: "r < 64" "r \<noteq> 56" using assms by (simp_all add: r_def)
  have "Suc n mod 64 = (if r = 63 then 0 else Suc r)" by (simp add: mod_Suc r_def)
  moreover have "(120 - (if r = 63 then 0 else Suc r)) mod 64 < (120 - r) mod 64"
    using gap [of r] gap [of "if r = 63 then 0 else Suc r"] r by (auto split: if_splits)
  ultimately show ?thesis by (simp add: r_def)
qed

function sha1_pad_loop :: "u8 list \<Rightarrow> u8 list" where
  "sha1_pad_loop msg = (if length msg mod 64 = 56 then msg else sha1_pad_loop (msg @ [0]))"
  by pat_completeness auto
termination
  by (relation "measure (\<lambda>msg. (120 - length msg mod 64) mod 64)") (auto simp: sha1_pad_measure)

declare sha1_pad_loop.simps [simp del]

definition sha1_message :: "u8 list \<Rightarrow> u8 list" where
  "sha1_message input =
     (let bit_length = word_of_nat (length input) * 8 :: u64
      in sha1_pad_loop (input @ [0x80]) @ map (\<lambda>i. ucast (drop_bit (8 * i) bit_length AND 0xFF)) (rev [0..<8]))"

definition sha1_word :: "u8 list \<Rightarrow> nat \<Rightarrow> u32" where
  "sha1_word chunk i =
     push_bit 24 (ucast (chunk ! (i * 4))) OR push_bit 16 (ucast (chunk ! (i * 4 + 1))) OR
     push_bit 8 (ucast (chunk ! (i * 4 + 2))) OR ucast (chunk ! (i * 4 + 3))"

definition sha1_schedule :: "u8 list \<Rightarrow> u32 list" where
  "sha1_schedule chunk =
     fold (\<lambda>i w. w @ [left_rotate (w ! (i - 3) XOR w ! (i - 8) XOR w ! (i - 14) XOR w ! (i - 16)) 1])
       [16..<80] (map (sha1_word chunk) [0..<16])"

type_synonym sha1_state = "u32 \<times> u32 \<times> u32 \<times> u32 \<times> u32"

definition sha1_round :: "u32 list \<Rightarrow> nat \<Rightarrow> sha1_state \<Rightarrow> sha1_state" where
  "sha1_round w i h =
     (case h of (a, b, c, d, e) \<Rightarrow>
        (let (f, k) =
               (if i < 20 then ((b AND c) OR (NOT b AND d), 0x5A827999)
                else if i < 40 then (b XOR c XOR d, 0x6ED9EBA1)
                else if i < 60 then ((b AND c) OR (b AND d) OR (c AND d), 0x8F1BBCDC)
                else (b XOR c XOR d, 0xCA62C1D6));
             temp = left_rotate a 5 + f + e + k + w ! i
         in (temp, a, left_rotate b 30, c, d)))"

definition sha1_block :: "sha1_state \<Rightarrow> u8 list \<Rightarrow> sha1_state" where
  "sha1_block h chunk =
     (case (h, fold (sha1_round (sha1_schedule chunk)) [0..<80] h) of
        ((h0, h1, h2, h3, h4), (a, b, c, d, e)) \<Rightarrow> (h0 + a, h1 + b, h2 + c, h3 + d, h4 + e))"

function sha1_blocks :: "u8 list \<Rightarrow> sha1_state \<Rightarrow> sha1_state" where
  "sha1_blocks msg h = (if msg = [] then h else sha1_blocks (drop 64 msg) (sha1_block h (take 64 msg)))"
  by pat_completeness auto
termination
  by (relation "measure (length \<circ> fst)") auto

declare sha1_blocks.simps [simp del]

definition word_bytes :: "u32 \<Rightarrow> u8 list" where
  "word_bytes v =
     [ucast (drop_bit 24 v AND 0xFF), ucast (drop_bit 16 v AND 0xFF), ucast (drop_bit 8 v AND 0xFF), ucast (v AND 0xFF)]"

definition Sha1 :: "string \<Rightarrow> u8 list" where
  "Sha1 input =
     (case sha1_blocks (sha1_message (bytes_of input))
             (0x67452301, 0xEFCDAB89, 0x98BADCFE, 0x10325476, 0xC3D2E1F0) of
        (h0, h1, h2, h3, h4) \<Rightarrow> concat (map word_bytes [h0, h1, h2, h3, h4]))"

definition kWebSocketGuid :: string where
  "kWebSocketGuid = ''258EAFA5-E914-47DA-95CA-C5AB0DC85B11''"

definition ComputeAcceptKey :: "string \<Rightarrow> string" where
  "ComputeAcceptKey client_key = Base64Encode (Sha1 (client_key @ kWebSocketGuid))"

section \<open>Header lookup\<close>

abbreviation crlf :: string where "crlf \<equiv> [CHR 0x0D, CHR 0x0A]"

definition ignore_case_eq :: "string \<Rightarrow> string \<Rightarrow> bool" where
  "ignore_case_eq a b \<longleftrightarrow> map c_tolower a = map c_tolower b"

text \<open>One line: its value when it is the header \<open>name\<close>.\<close>

definition header_line_value :: "string \<Rightarrow> string \<Rightarrow> string option" where
  "header_line_value line name =
     (case find_char CHR '':'' line of
        None \<Rightarrow> None
      | Some colon \<Rightarrow>
          if colon \<noteq> length name then None
          else if \<not> ignore_case_eq name (take (length name) line) then None
          else Some (dropWhile (\<lambda>c. c = CHR '' '') (drop (colon + 1) line)))"

function find_header_loop :: "string \<Rightarrow> string \<Rightarrow> nat \<Rightarrow> string option" where
  "find_header_loop headers name pos =
     (if length headers \<le> pos then None
      else case find_from crlf headers pos of
        None \<Rightarrow> None
      | Some line_end \<Rightarrow>
          (case header_line_value (take (line_end - pos) (drop pos headers)) name of
             Some v \<Rightarrow> Some v
           | None \<Rightarrow> find_header_loop headers name (line_end + 2)))"
  by pat_completeness auto
termination
  by (relation "measure (\<lambda>(h, _, pos). length h - pos)") (auto dest: find_from_bounds)

declare find_header_loop.simps [simp del]

definition FindHeaderValue :: "string \<Rightarrow> string \<Rightarrow> string option" where
  "FindHeaderValue headers name = find_header_loop headers name 0"

text \<open>\<^const>\<open>has_infix\<close> on lowered bytes.\<close>

definition HeaderValueContainsTokenIgnoreCase :: "string \<Rightarrow> string \<Rightarrow> bool" where
  "HeaderValueContainsTokenIgnoreCase v token \<longleftrightarrow>
     has_infix (map (\<lambda>c. char_of (c_tolower c)) token) (map (\<lambda>c. char_of (c_tolower c)) v)"

section \<open>Frames\<close>

text \<open>\<open>n\<close> as \<open>k\<close> bytes, most significant first; and back, as the shift-or loop of the reader does.\<close>

definition be_bytes :: "nat \<Rightarrow> nat \<Rightarrow> u8 list" where
  "be_bytes k n = map (\<lambda>i. word_of_nat (n div 256 ^ i mod 256)) (rev [0..<k])"

definition be_value :: "u8 list \<Rightarrow> nat" where
  "be_value bs = fold (\<lambda>b n. n * 256 + unat b) bs 0"

definition apply_mask :: "u8 list \<Rightarrow> u8 list \<Rightarrow> u8 list" where
  "apply_mask key payload = map (\<lambda>(i, b). b XOR key ! (i mod 4)) (enumerate 0 payload)"

definition BuildMaskedFrame :: "u8 \<Rightarrow> u8 list \<Rightarrow> u8 list \<Rightarrow> u8 list" where
  "BuildMaskedFrame opcode payload key =
     (let len = length payload
      in [0x80 OR opcode] @
         (if len < 126 then [0x80 OR word_of_nat len]
          else if len \<le> 0xFFFF then [0x80 OR 126] @ be_bytes 2 len
          else [0x80 OR 127] @ be_bytes 8 len) @
         key @ apply_mask key payload)"

section \<open>Base64 round trip\<close>

definition b64_value :: "char \<Rightarrow> nat" where
  "b64_value c = (case find_char c kTable of Some i \<Rightarrow> i | None \<Rightarrow> 0)"

text \<open>A reference decoder: four characters give three bytes, fewer when padded.\<close>

fun base64_decode :: "string \<Rightarrow> u8 list" where
  "base64_decode (a # b # c # d # rest) =
     (let n = b64_value a * 2 ^ 18 + b64_value b * 2 ^ 12 + b64_value c * 2 ^ 6 + b64_value d;
          three = [word_of_nat (n div 65536), word_of_nat (n div 256 mod 256), word_of_nat (n mod 256)]
      in take (if c = CHR ''='' then 1 else if d = CHR ''='' then 2 else 3) three @ base64_decode rest)"
| "base64_decode _ = []"

lemma kTable_positions: "\<forall>i \<in> set [0..<64]. find_char (kTable ! i) kTable = Some i \<and> kTable ! i \<noteq> CHR ''=''"
  by code_simp

lemma b64_digit_in_table: "b64_digit n k \<in> set kTable"
proof -
  have "length kTable = 64" by (simp add: kTable_def)
  then show ?thesis unfolding b64_digit_def by (intro nth_mem) simp
qed

lemma b64_digit_value [simp]: "b64_value (b64_digit n k) = n div 2 ^ k mod 64" "b64_digit n k \<noteq> CHR ''=''"
proof -
  have "n div 2 ^ k mod 64 \<in> set [0..<64]" by simp
  then show "b64_value (b64_digit n k) = n div 2 ^ k mod 64" "b64_digit n k \<noteq> CHR ''=''"
    using kTable_positions unfolding b64_value_def b64_digit_def by (metis option.simps(5))+
qed

lemma b64_value_pad [simp]: "b64_value (CHR ''='') = 0"
  by code_simp

lemma base64_digits:
  assumes "n < 16777216"
  shows "n div 262144 mod 64 * 262144 + n div 4096 mod 64 * 4096 + n div 64 mod 64 * 64 + n mod 64 = (n :: nat)"
proof -
  have d: "n div 64 div 64 = n div 4096" "n div 4096 div 64 = n div 262144" by (simp_all flip: div_mult2_eq)
  have "n div 262144 < 64" using assms by (simp add: less_mult_imp_div_less)
  then have "n div 262144 mod 64 = n div 262144" by simp
  moreover have "n div 64 * 64 + n mod 64 = n" by simp
  moreover have "n div 4096 * 64 + n div 64 mod 64 = n div 64" using div_mult_mod_eq [of "n div 64" 64] d(1) by simp
  moreover have "n div 262144 * 64 + n div 4096 mod 64 = n div 4096" using div_mult_mod_eq [of "n div 4096" 64] d(2) by simp
  ultimately show ?thesis by linarith
qed

lemma split3:
  assumes "a < 256" "b < 256" "c < (256 :: nat)"
  shows "(a * 65536 + b * 256 + c) div 65536 = a" "(a * 65536 + b * 256 + c) div 256 mod 256 = b"
    "(a * 65536 + b * 256 + c) mod 256 = c" "a * 65536 + b * 256 + c < 16777216"
proof -
  have eq: "a * 65536 + b * 256 + c = c + 256 * (b + 256 * a)" by simp
  have low: "(c + 256 * m) div 256 = m" "(c + 256 * m) mod 256 = c" for m using assms(3) by simp_all
  show "(a * 65536 + b * 256 + c) mod 256 = c" unfolding eq by (rule low(2))
  have mid: "(a * 65536 + b * 256 + c) div 256 = b + 256 * a" unfolding eq by (rule low(1))
  then show "(a * 65536 + b * 256 + c) div 256 mod 256 = b" using assms(2) by simp
  have "(a * 65536 + b * 256 + c) div 65536 = (b + 256 * a) div 256"
    using mid div_mult2_eq [of "a * 65536 + b * 256 + c" 256 256] by simp
  then show "(a * 65536 + b * 256 + c) div 65536 = a" using assms(2) by simp
  show "a * 65536 + b * 256 + c < 16777216" using assms by linarith
qed

lemmas b64_group = base64_digits [OF split3(4)]

lemma b64_zero_digits:
  "(a * 65536 + b * 256) mod 64 = (0 :: nat)" "a * 65536 div 64 mod 64 = (0 :: nat)" "a * 65536 mod 64 = (0 :: nat)"
proof -
  have "a * 65536 + b * 256 = (a * 1024 + b * 4) * 64" by simp
  then show "(a * 65536 + b * 256) mod 64 = 0" by (metis mod_mult_self2_is_0)
  have "a * 65536 = a * 16 * 64 * 64" by simp
  then show "a * 65536 div 64 mod 64 = 0" "a * 65536 mod 64 = 0"
    by (metis nonzero_mult_div_cancel_right mod_mult_self2_is_0 zero_neq_numeral)+
qed

text \<open>Decoding with the standard decoder gives back the bytes, whatever their number modulo three.\<close>

lemma base64_decode_encode: "base64_decode (Base64Encode bs) = bs"
proof (induction bs rule: Base64Encode.induct)
  case (1 a b c rest)
  note g = b64_group [of "unat a" "unat b" "unat c"] split3 [of "unat a" "unat b" "unat c"]
  from 1 g show ?case by (simp add: Let_def)
next
  case (2 a b)
  note g = b64_group [of "unat a" "unat b" 0] split3 [of "unat a" "unat b" 0]
  with b64_zero_digits(1) show ?case by (simp add: Let_def)
next
  case (3 a)
  note g = b64_group [of "unat a" 0 0] split3 [of "unat a" 0 0]
  have "unat a div 4 < 64" using unat_u8_less [of a] by (simp add: less_mult_imp_div_less)
  then have "unat a div 4 mod 64 = unat a div 4" by simp
  with g b64_zero_digits(2,3) show ?case by (simp add: Let_def)
qed simp

section \<open>SHA-1 against its standard\<close>

text \<open>
  The reference: FIPS 180-4 as it is printed, with the recursive message schedule, the functions Ch,
  Parity and Maj written with exclusive or, rotations as \<^const>\<open>word_rotl\<close>, and the padding as the least
  number of zero bytes.
\<close>

fun fips_W :: "(nat \<Rightarrow> u32) \<Rightarrow> nat \<Rightarrow> u32" where
  "fips_W M t =
     (if t < 16 then M t
      else word_rotl 1 (fips_W M (t - 3) XOR fips_W M (t - 8) XOR fips_W M (t - 14) XOR fips_W M (t - 16)))"

declare fips_W.simps [simp del]

definition fips_f :: "nat \<Rightarrow> u32 \<Rightarrow> u32 \<Rightarrow> u32 \<Rightarrow> u32" where
  "fips_f t x y z =
     (if t \<le> 19 then (x AND y) XOR (NOT x AND z)
      else if 40 \<le> t \<and> t \<le> 59 then (x AND y) XOR (x AND z) XOR (y AND z)
      else x XOR y XOR z)"

definition fips_K :: "nat \<Rightarrow> u32" where
  "fips_K t = [0x5A827999, 0x6ED9EBA1, 0x8F1BBCDC, 0xCA62C1D6] ! (t div 20)"

definition fips_step :: "(nat \<Rightarrow> u32) \<Rightarrow> nat \<Rightarrow> sha1_state \<Rightarrow> sha1_state" where
  "fips_step M t h =
     (case h of (a, b, c, d, e) \<Rightarrow>
        (word_rotl 5 a + fips_f t b c d + e + fips_K t + fips_W M t, a, word_rotl 30 b, c, d))"

definition fips_block :: "u8 list \<Rightarrow> sha1_state \<Rightarrow> sha1_state" where
  "fips_block chunk h =
     (case (h, fold (fips_step (sha1_word chunk)) [0..<80] h) of
        ((h0, h1, h2, h3, h4), (a, b, c, d, e)) \<Rightarrow> (a + h0, b + h1, c + h2, d + h3, e + h4))"

definition fips_zeros :: "nat \<Rightarrow> nat" where
  "fips_zeros n = hd (filter (\<lambda>k. (n + 1 + k) mod 64 = 56) [0..<64])"

definition fips_pad :: "u8 list \<Rightarrow> u8 list" where
  "fips_pad bs = bs @ [0x80] @ replicate (fips_zeros (length bs)) 0 @ be_bytes 8 (8 * length bs)"

definition fips_sha1 :: "u8 list \<Rightarrow> u8 list" where
  "fips_sha1 bs =
     (let msg = fips_pad bs;
          blocks = map (\<lambda>j. take 64 (drop (64 * j) msg)) [0..<length msg div 64]
      in case fold fips_block blocks (0x67452301, 0xEFCDAB89, 0x98BADCFE, 0x10325476, 0xC3D2E1F0) of
           (h0, h1, h2, h3, h4) \<Rightarrow> word_bytes h0 @ word_bytes h1 @ word_bytes h2 @ word_bytes h3 @ word_bytes h4)"

lemma left_rotate_word_rotl:
  assumes "0 < n" "n < 32"
  shows "left_rotate v n = word_rotl n v"
proof (rule bit_word_eqI)
  fix i :: nat
  assume i: "i < LENGTH(32)"
  have pos: "(i + (32 - n)) mod 32 = (if i < n then i + 32 - n else i - n)"
  proof (cases "i < n")
    case False
    with assms i have "i + (32 - n) = (i - n) + 32" by simp
    with False i show ?thesis by (simp only: mod_add_self2) simp
  qed (use assms in simp)
  have "bit (word_rotl n v) i \<longleftrightarrow> bit v (if i < n then i + 32 - n else i - n)"
    using i assms pos by (simp add: bit_word_rotl_iff)
  moreover have "\<not> bit v (i + 32 - n)" if "n \<le> i"
    using that bit_imp_le_length [of v "i + 32 - n"] by auto
  ultimately show "bit (left_rotate v n) i \<longleftrightarrow> bit (word_rotl n v) i"
    using i assms by (simp add: left_rotate_def bit_simps add.commute)
qed

lemma sha1_functions:
  "(x AND y) OR (NOT x AND z) = (x AND y) XOR (NOT x AND (z :: u32))"
  "(x AND y) OR (x AND z) OR (y AND z) = (x AND y) XOR (x AND z) XOR (y AND (z :: u32))"
  by (rule bit_word_eqI; auto simp: bit_simps)+

lemma sha1_schedule_W:
  fixes chunk :: "u8 list"
  assumes "16 \<le> n"
  defines "ws \<equiv> \<lambda>n. fold (\<lambda>i w. w @ [left_rotate (w ! (i - 3) XOR w ! (i - 8) XOR w ! (i - 14) XOR w ! (i - 16)) 1])
     [16..<n] (map (sha1_word chunk) [0..<16])"
  shows "length (ws n) = n \<and> (\<forall>t < n. ws n ! t = fips_W (sha1_word chunk) t)"
  using assms(1)
proof (induction n rule: dec_induct)
  case base
  then show ?case by (simp add: ws_def fips_W.simps)
next
  case (step n)
  let ?W = "fips_W (sha1_word chunk)"
  have "ws (Suc n) = ws n @ [left_rotate (ws n ! (n - 3) XOR ws n ! (n - 8) XOR ws n ! (n - 14) XOR ws n ! (n - 16)) 1]"
    using step.hyps by (simp add: ws_def)
  moreover have "?W n = left_rotate (?W (n - 3) XOR ?W (n - 8) XOR ?W (n - 14) XOR ?W (n - 16)) 1"
    using step.hyps fips_W.simps [of "sha1_word chunk" n] by (simp add: left_rotate_word_rotl)
  ultimately show ?case using step by (auto simp: nth_append less_Suc_eq)
qed

lemma sha1_round_fips:
  assumes "t < 80"
  shows "sha1_round (sha1_schedule chunk) t h = fips_step (sha1_word chunk) t h"
proof -
  have w: "sha1_schedule chunk ! t = fips_W (sha1_word chunk) t"
  proof -
    have "16 \<le> (80 :: nat)" by simp
    from sha1_schedule_W [OF this, of chunk] assms show ?thesis unfolding sha1_schedule_def by blast
  qed
  consider "t < 20" "t div 20 = 0" | "20 \<le> t" "t < 40" "t div 20 = 1" | "40 \<le> t" "t < 60" "t div 20 = 2"
    | "60 \<le> t" "t div 20 = 3" using assms by linarith
  then show ?thesis
    by cases (auto simp: sha1_round_def fips_step_def fips_f_def fips_K_def w left_rotate_word_rotl sha1_functions
        split: prod.split)
qed

lemma sha1_block_fips: "sha1_block h chunk = fips_block chunk h"
proof -
  have "fold (sha1_round (sha1_schedule chunk)) [0..<80] h = fold (fips_step (sha1_word chunk)) [0..<80] h"
    by (intro fold_cong) (auto simp: sha1_round_fips)
  then show ?thesis
    unfolding sha1_block_def fips_block_def
    by (simp only: add.commute prod.case split: prod.split)
qed

text \<open>The padding loop appends the least number of zeros; with the length field the message is whole blocks.\<close>

lemma sha1_pad_loop_stop: "length msg mod 64 = 56 \<Longrightarrow> sha1_pad_loop msg = msg"
  by (subst sha1_pad_loop.simps) simp

lemma sha1_pad_loop_go: "length msg mod 64 \<noteq> 56 \<Longrightarrow> sha1_pad_loop msg = sha1_pad_loop (msg @ [0])"
  by (subst sha1_pad_loop.simps) simp

lemma sha1_pad_loop_zeros:
  assumes "(length msg + k) mod 64 = 56" "\<And>j. j < k \<Longrightarrow> (length msg + j) mod 64 \<noteq> 56"
  shows "sha1_pad_loop msg = msg @ replicate k 0"
  using assms
proof (induction k arbitrary: msg)
  case 0
  then show ?case by (simp add: sha1_pad_loop_stop)
next
  case (Suc k)
  have "length msg mod 64 \<noteq> 56" using Suc.prems(2) [of 0] by simp
  then have "sha1_pad_loop msg = sha1_pad_loop (msg @ [0])" by (rule sha1_pad_loop_go)
  also have "\<dots> = (msg @ [0]) @ replicate k 0"
  proof (rule Suc.IH)
    show "(length (msg @ [0]) + k) mod 64 = 56" using Suc.prems(1) by simp
    show "(length (msg @ [0]) + j) mod 64 \<noteq> 56" if "j < k" for j using Suc.prems(2) [of "Suc j"] that by simp
  qed
  finally show ?case by simp
qed

lemma first_filter:
  assumes "i < n" "P i"
  shows "P (hd (filter P [0..<n])) \<and> hd (filter P [0..<n]) < n \<and> (\<forall>j < hd (filter P [0..<n]). \<not> P j)"
proof -
  define k where "k = (LEAST i. P i)"
  have k: "P k" "k \<le> i" "\<forall>j < k. \<not> P j" using assms(2) not_less_Least by (auto simp: k_def intro: LeastI Least_le)
  have "[0..<n] = [0..<k] @ [k..<n]" using k(2) assms(1) upt_add_eq_append [of 0 k "n - k"] by simp
  moreover have "filter P [0..<k] = []" using k(3) by (simp add: filter_empty_conv)
  moreover have "[k..<n] = k # [Suc k..<n]" using k(2) assms(1) by (simp add: upt_conv_Cons)
  ultimately have "hd (filter P [0..<n]) = k" using k(1) by simp
  with k assms(1) show ?thesis by auto
qed

lemma fips_zeros_least:
  "(n + 1 + fips_zeros n) mod 64 = 56 \<and> (\<forall>j < fips_zeros n. (n + 1 + j) mod 64 \<noteq> 56)"
proof -
  let ?i = "(119 - n mod 64) mod 64"
  have "(n + 1 + ?i) mod 64 = (n mod 64 + (1 + (119 - n mod 64))) mod 64"
    using mod_add_right_eq [of "n + 1" "119 - n mod 64" 64] mod_add_left_eq [of n 64 "1 + (119 - n mod 64)"]
    by (simp only: add.assoc)
  also have "\<dots> = 56" using mod_less_divisor [of 64 n] by simp
  finally have "(n + 1 + ?i) mod 64 = 56" .
  moreover have "?i < 64" by simp
  ultimately show ?thesis
    using first_filter [of ?i 64 "\<lambda>k. (n + 1 + k) mod 64 = 56"] unfolding fips_zeros_def by blast
qed

lemma length_field_byte:
  assumes "i < 8"
  shows "ucast (drop_bit (8 * i) (word_of_nat m :: u64) AND 0xFF) = (word_of_nat (m div 256 ^ i mod 256) :: u8)"
proof (rule bit_word_eqI)
  fix n :: nat
  assume n: "n < LENGTH(8)"
  have p: "256 ^ i = (2 :: nat) ^ (8 * i)" and q: "(256 :: nat) = 2 ^ 8" by (simp_all add: power_mult)
  have ff: "(0xFF :: u64) = mask 8" by (simp add: mask_eq_exp_minus_1)
  have "bit (ucast (drop_bit (8 * i) (word_of_nat m :: u64) AND 0xFF) :: u8) n \<longleftrightarrow> bit m (8 * i + n)"
    using n assms by (simp add: ff bit_simps)
  moreover have "bit (word_of_nat (m div 256 ^ i mod 256) :: u8) n \<longleftrightarrow> bit m (8 * i + n)"
    using n unfolding p by (subst q) (simp only: bit_simps flip: take_bit_eq_mod drop_bit_eq_div, simp)
  ultimately show "bit (ucast (drop_bit (8 * i) (word_of_nat m :: u64) AND 0xFF) :: u8) n = bit (word_of_nat (m div 256 ^ i mod 256) :: u8) n"
    by simp
qed

lemma sha1_message_fips: "sha1_message bs = fips_pad bs"
proof -
  have "sha1_pad_loop (bs @ [0x80]) = (bs @ [0x80]) @ replicate (fips_zeros (length bs)) 0"
    using fips_zeros_least [of "length bs"] by (intro sha1_pad_loop_zeros) simp_all
  moreover have "(word_of_nat (length bs) * 8 :: u64) = word_of_nat (8 * length bs)" by simp
  moreover have "map (\<lambda>i. ucast (drop_bit (8 * i) (word_of_nat (8 * length bs) :: u64) AND 0xFF)) (rev [0..<8]) = be_bytes 8 (8 * length bs)"
    unfolding be_bytes_def by (intro map_cong refl length_field_byte) simp
  ultimately show ?thesis by (simp only: sha1_message_def fips_pad_def Let_def append_assoc)
qed

lemma length_be_bytes [simp]: "length (be_bytes k n) = k"
  by (simp add: be_bytes_def)

lemma length_fips_pad: "length (fips_pad bs) mod 64 = 0"
proof -
  have "length (fips_pad bs) = (length bs + 1 + fips_zeros (length bs)) + 8" by (simp add: fips_pad_def)
  moreover have "(length bs + 1 + fips_zeros (length bs) + 8) mod 64 = (56 + 8) mod 64"
    using fips_zeros_least [of "length bs"] by (metis mod_add_left_eq)
  ultimately show ?thesis by simp
qed

lemma sha1_blocks_fold:
  "length msg mod 64 = 0 \<Longrightarrow>
   sha1_blocks msg h = fold fips_block (map (\<lambda>j. take 64 (drop (64 * j) msg)) [0..<length msg div 64]) h"
proof (induction msg h rule: sha1_blocks.induct)
  case (1 msg h)
  show ?case
  proof (cases "msg = []")
    case True
    then show ?thesis by (simp add: sha1_blocks.simps)
  next
    case False
    have "64 \<le> length msg" using 1(2) False by (metis length_0_conv mod_less not_less)
    then have n: "length msg div 64 = Suc (length (drop 64 msg) div 64)" "length (drop 64 msg) mod 64 = 0"
      using 1(2) by (simp_all add: le_div_geq le_mod_geq)
    have "map (\<lambda>j. take 64 (drop (64 * j) msg)) [0..<Suc k] =
        take 64 msg # map (\<lambda>j. take 64 (drop (64 * j) (drop 64 msg))) [0..<k]" for k
      by (simp add: map_upt_Suc add.commute del: upt_Suc)
    then show ?thesis
      using 1(1) [OF False n(2)] False unfolding n(1) by (simp add: sha1_blocks.simps [of msg h] sha1_block_fips)
  qed
qed

text \<open>
  C40: The hand-written hash is SHA-1: for every input it computes the digest FIPS 180-4 defines (recursive
  message schedule, Ch, Parity and Maj, least zero padding, 64-bit length field), so the accept key of
  the handshake is the one every conforming server computes.
\<close>

theorem Sha1_is_FIPS: "Sha1 input = fips_sha1 (bytes_of input)"
  unfolding Sha1_def fips_sha1_def Let_def sha1_message_fips
  by (simp add: sha1_blocks_fold [OF length_fips_pad] split: prod.split)

section \<open>Frame fields\<close>

lemma be_bytes_Suc: "be_bytes (Suc k) n = be_bytes k (n div 256) @ [word_of_nat (n mod 256)]"
proof -
  have "rev [0..<Suc k] = map Suc (rev [0..<k]) @ [0]" by (simp add: upt_conv_Cons rev_map [symmetric] map_Suc_upt del: upt_Suc)
  then show ?thesis by (simp add: be_bytes_def div_mult2_eq del: upt_Suc)
qed

lemma be_value_snoc: "be_value (bs @ [b]) = be_value bs * 256 + unat b"
  by (simp add: be_value_def)

lemma be_value_be_bytes: "be_value (be_bytes k n) = n mod 256 ^ k"
proof (induction k arbitrary: n)
  case 0
  then show ?case by (simp add: be_bytes_def be_value_def)
next
  case (Suc k)
  have "unat (word_of_nat (n mod 256) :: u8) = n mod 256" by (simp add: unat_of_nat)
  with Suc show ?case by (simp add: be_bytes_Suc be_value_snoc mod_mult2_eq mult.commute)
qed

lemma be_value_bound: "be_value bs < 256 ^ length bs"
proof (induction bs rule: rev_induct)
  case (snoc b bs)
  have "be_value bs * 256 + unat b < (be_value bs + 1) * 256" by simp
  also have "\<dots> \<le> 256 ^ length bs * 256" using snoc by (intro mult_le_mono1) simp
  finally show ?case by (simp add: be_value_snoc mult.commute)
qed (simp add: be_value_def)

lemma be_bytes_be_value: "be_bytes (length bs) (be_value bs) = bs"
proof (induction bs rule: rev_induct)
  case (snoc b bs)
  have "(be_value bs * 256 + unat b) div 256 = be_value bs" "(be_value bs * 256 + unat b) mod 256 = unat b" by simp_all
  with snoc show ?case by (simp add: be_value_snoc be_bytes_Suc)
qed (simp add: be_bytes_def)

lemma length_apply_mask [simp]: "length (apply_mask key payload) = length payload"
  by (simp add: apply_mask_def)

lemma apply_mask_nth: "i < length payload \<Longrightarrow> apply_mask key payload ! i = payload ! i XOR key ! (i mod 4)"
  by (simp add: apply_mask_def nth_enumerate_eq)

lemma apply_mask_involution [simp]: "apply_mask key (apply_mask key payload) = payload"
  by (rule nth_equalityI) (simp_all add: apply_mask_nth xor.assoc)

end
