(* ===== verification/Ws_Client.thy ===== *)
theory Ws_Client
  imports Ws_Codec "HOL-Library.Monad_Syntax"
begin

text \<open>
  The host WebSocket client of platform/host/websocket_client.cpp: exact reads and writes over a polled
  socket, the upgrade handshake, and the frame reader. libcurl, poll, the steady clock and the random
  device are the record \<open>socket_env\<close> over an arbitrary world.
\<close>

unbundle bit_operations_syntax

section \<open>The transport\<close>

datatype recv_outcome = RecvAgain | RecvError | RecvBytes "u8 list"
datatype send_outcome = SendAgain | SendError | SendOk nat
datatype peek_outcome = PeekEof | PeekData | PeekError bool

text \<open>\<open>PeekError b\<close>: \<open>b\<close> says whether \<^verbatim>\<open>errno\<close> is EAGAIN, EWOULDBLOCK or EINTR.\<close>

record 'w socket_env =
  s_now :: "'w \<Rightarrow> ms \<times> 'w"
  s_poll_in :: "ms \<Rightarrow> 'w \<Rightarrow> bool \<times> 'w"
  s_poll_out :: "ms \<Rightarrow> 'w \<Rightarrow> bool \<times> 'w"
  s_recv :: "nat \<Rightarrow> 'w \<Rightarrow> recv_outcome \<times> 'w"
  s_send :: "u8 list \<Rightarrow> 'w \<Rightarrow> send_outcome \<times> 'w"
  s_random :: "nat \<Rightarrow> 'w \<Rightarrow> u8 list \<times> 'w"
  s_open :: "string \<Rightarrow> 'w \<Rightarrow> bool \<times> 'w"
  s_active :: "'w \<Rightarrow> bool"
  s_peek :: "'w \<Rightarrow> peek_outcome"
  s_cleanup :: "'w \<Rightarrow> 'w"

text \<open>
  \<open>s_open\<close> is \<^verbatim>\<open>curl_easy_init\<close>, \<^verbatim>\<open>curl_easy_perform\<close> and the active-socket query up to the connected
  socket; \<open>s_active\<close> is the active-socket query on an established handle.
\<close>

record 'w ws_client =
  curl :: bool
  closed :: bool
  ws_world :: 'w

definition kConnectTimeoutMs :: ms where "kConnectTimeoutMs = 10000"
definition kMaxHandshakeResponseBytes :: nat where "kMaxHandshakeResponseBytes = 8192"

definition RemainingMs :: "'w socket_env \<Rightarrow> ms \<Rightarrow> 'w \<Rightarrow> ms \<times> 'w" where
  "RemainingMs E deadline w = (let (now, w1) = s_now E w in (if 0 < deadline - now then deadline - now else 0, w1))"

text \<open>Both loops: \<^const>\<open>None\<close> is not returning, the inner option the buffer read.\<close>

partial_function (option) ReadExact ::
  "'w socket_env \<Rightarrow> ms \<Rightarrow> nat \<Rightarrow> u8 list \<Rightarrow> 'w \<Rightarrow> (u8 list option \<times> 'w) option" where
  "ReadExact E deadline len got w =
     (if len \<le> length got then Some (Some got, w)
      else
        (let (wait, w1) = RemainingMs E deadline w; (ready, w2) = s_poll_in E wait w1
         in if \<not> ready then Some (None, w2)
            else
              (let (r, w3) = s_recv E (len - length got) w2
               in case r of
                    RecvAgain \<Rightarrow> ReadExact E deadline len got w3
                  | RecvError \<Rightarrow> Some (None, w3)
                  | RecvBytes bs \<Rightarrow> if bs = [] then Some (None, w3) else ReadExact E deadline len (got @ bs) w3)))"

partial_function (option) WriteExact :: "'w socket_env \<Rightarrow> ms \<Rightarrow> u8 list \<Rightarrow> 'w \<Rightarrow> (bool \<times> 'w) option" where
  "WriteExact E deadline buf w =
     (if buf = [] then Some (True, w)
      else
        (let (wait, w1) = RemainingMs E deadline w; (ready, w2) = s_poll_out E wait w1
         in if \<not> ready then Some (False, w2)
            else
              (let (r, w3) = s_send E buf w2
               in case r of
                    SendAgain \<Rightarrow> WriteExact E deadline buf w3
                  | SendError \<Rightarrow> Some (False, w3)
                  | SendOk n \<Rightarrow> if n = 0 then Some (False, w3) else WriteExact E deadline (drop n buf) w3)))"

section \<open>The handshake\<close>

definition upgrade_request :: "string \<Rightarrow> string \<Rightarrow> string" where
  "upgrade_request url key =
     ''GET '' @ request_target (ParseWsUrl url) @ '' HTTP/1.1'' @ crlf @
     ''Host: '' @ host_header (ParseWsUrl url) @ crlf @ ''Connection: Upgrade'' @ crlf @ ''Upgrade: websocket'' @ crlf @
     ''Sec-WebSocket-Version: 13'' @ crlf @ ''Sec-WebSocket-Key: '' @ key @ crlf @ crlf"

text \<open>Reading the response byte by byte up to the blank line.\<close>

partial_function (option) read_response ::
  "'w socket_env \<Rightarrow> ms \<Rightarrow> string \<Rightarrow> 'w \<Rightarrow> (string option \<times> 'w) option" where
  "read_response E deadline response w =
     (if has_infix (crlf @ crlf) response then Some (Some response, w)
      else if kMaxHandshakeResponseBytes \<le> length response then Some (None, w)
      else
        Option.bind (ReadExact E deadline 1 [] w) (\<lambda>(b, w1).
        case b of
          None \<Rightarrow> Some (None, w1)
        | Some bs \<Rightarrow> read_response E deadline (response @ string_of bs) w1))"

definition status_is_101 :: "string \<Rightarrow> bool" where
  "status_is_101 response \<longleftrightarrow>
     (let status_line = (case find_from crlf response 0 of Some e \<Rightarrow> take e response | None \<Rightarrow> response)
      in case find_char CHR '' '' status_line of
           None \<Rightarrow> False
         | Some first_space \<Rightarrow> take 3 (drop (first_space + 1) status_line) = ''101'')"

definition response_accepted :: "string \<Rightarrow> string \<Rightarrow> bool" where
  "response_accepted key response \<longleftrightarrow>
     status_is_101 response \<and>
     (case FindHeaderValue response ''Upgrade'' of
        None \<Rightarrow> False | Some v \<Rightarrow> HeaderValueContainsTokenIgnoreCase v ''websocket'') \<and>
     (case FindHeaderValue response ''Connection'' of
        None \<Rightarrow> False | Some v \<Rightarrow> HeaderValueContainsTokenIgnoreCase v ''upgrade'') \<and>
     FindHeaderValue response ''Sec-WebSocket-Accept'' = Some (ComputeAcceptKey key)"

definition GenerateWebSocketKey :: "'w socket_env \<Rightarrow> 'w \<Rightarrow> string \<times> 'w" where
  "GenerateWebSocketKey E w = (let (bytes, w1) = s_random E 16 w in (Base64Encode bytes, w1))"

definition Ws_Close :: "'w socket_env \<Rightarrow> 'w ws_client \<Rightarrow> 'w ws_client" where
  "Ws_Close E s = (if curl s then s\<lparr>ws_world := s_cleanup E (ws_world s), curl := False\<rparr> else s)"

definition Ws_Connect :: "'w socket_env \<Rightarrow> string \<Rightarrow> 'w ws_client \<Rightarrow> (bool \<times> 'w ws_client) option" where
  "Ws_Connect E url s0 =
     (let s = (Ws_Close E s0)\<lparr>closed := False\<rparr>;
          (connected, w1) = s_open E (ToHttpScheme url) (ws_world s);
          refuse = (\<lambda>w. Some (False, s\<lparr>ws_world := s_cleanup E w\<rparr>))
      in if \<not> connected then Some (False, s\<lparr>ws_world := w1\<rparr>)
         else
           (let (key, w2) = GenerateWebSocketKey E w1;
                (now, w3) = s_now E w2;
                deadline = now + kConnectTimeoutMs
            in do {
                 (written, w4) \<leftarrow> WriteExact E deadline (bytes_of (upgrade_request url key)) w3;
                 if \<not> written then refuse w4
                 else do {
                   (response, w5) \<leftarrow> read_response E deadline [] w4;
                   case response of
                     None \<Rightarrow> refuse w5
                   | Some r \<Rightarrow>
                       if response_accepted key r then Some (True, s\<lparr>curl := True, ws_world := w5\<rparr>) else refuse w5
                 }
               }))"

section \<open>Sending and receiving\<close>

definition masked_frame :: "'w socket_env \<Rightarrow> u8 \<Rightarrow> u8 list \<Rightarrow> 'w \<Rightarrow> u8 list \<times> 'w" where
  "masked_frame E opcode payload w = (let (key, w1) = s_random E 4 w in (BuildMaskedFrame opcode payload key, w1))"

definition Ws_SendText :: "'w socket_env \<Rightarrow> string \<Rightarrow> 'w ws_client \<Rightarrow> (bool \<times> 'w ws_client) option" where
  "Ws_SendText E text s =
     (if \<not> curl s \<or> closed s then Some (False, s)
      else if \<not> s_active E (ws_world s) then Some (False, s)
      else
        (let (frame, w1) = masked_frame E 0x1 (bytes_of text) (ws_world s);
             (now, w2) = s_now E w1
         in do {
              (ok, w3) \<leftarrow> WriteExact E (now + kConnectTimeoutMs) frame w2;
              Some (ok, s\<lparr>ws_world := w3\<rparr>)
            }))"

text \<open>
  One frame: nothing read, a broken frame, a close frame (whose payload is not read), or a frame with
  its final flag, opcode and unmasked payload. \<open>acc_len\<close> is \<^verbatim>\<open>accumulated.size()\<close>.
\<close>

datatype frame_read = FrNone | FrBroken | FrClose | FrFrame bool u8 "u8 list"

definition known_opcode :: "u8 \<Rightarrow> bool" where
  "known_opcode opcode \<longleftrightarrow> opcode \<in> {0x0, 0x1, 0x8, 0x9, 0xA}"

definition read_length :: "'w socket_env \<Rightarrow> ms \<Rightarrow> u8 \<Rightarrow> 'w \<Rightarrow> (nat option \<times> 'w) option" where
  "read_length E deadline second w =
     (let len = unat (second AND 0x7F)
      in if len = 126 then do { (ext, w1) \<leftarrow> ReadExact E deadline 2 [] w; Some (map_option be_value ext, w1) }
         else if len = 127 then do { (ext, w1) \<leftarrow> ReadExact E deadline 8 [] w; Some (map_option be_value ext, w1) }
         else Some (Some len, w))"

definition read_payload ::
  "'w socket_env \<Rightarrow> ms \<Rightarrow> nat \<Rightarrow> u8 list option \<Rightarrow> 'w \<Rightarrow> (u8 list option \<times> 'w) option" where
  "read_payload E deadline len key w =
     do {
       (raw, w1) \<leftarrow> ReadExact E deadline len [] w;
       Some (map_option (\<lambda>bs. case key of None \<Rightarrow> bs | Some k \<Rightarrow> apply_mask k bs) raw, w1)
     }"

definition read_body ::
  "'w socket_env \<Rightarrow> ms \<Rightarrow> nat \<Rightarrow> u8 \<Rightarrow> u8 \<Rightarrow> nat \<Rightarrow> 'w \<Rightarrow> (frame_read \<times> 'w) option" where
  "read_body E deadline acc_len first second len w =
     do {
       (key, w1) \<leftarrow> (if second AND 0x80 \<noteq> 0
                      then do { (m, w1) \<leftarrow> ReadExact E deadline 4 [] w; Some (map_option Some m, w1) }
                      else Some (Some None, w));
       case key of
         None \<Rightarrow> Some (FrBroken, w1)
       | Some k \<Rightarrow>
           if first AND 0x0F = 0x8 then Some (FrClose, w1)
           else if kMaxWebSocketMessageBytes < len \<or> kMaxWebSocketMessageBytes < acc_len + len then Some (FrBroken, w1)
           else do {
             (payload, w2) \<leftarrow> read_payload E deadline len k w1;
             Some (case payload of
                     None \<Rightarrow> FrBroken
                   | Some p \<Rightarrow> FrFrame (first AND 0x80 \<noteq> 0) (first AND 0x0F) p, w2)
           }
     }"

definition read_frame :: "'w socket_env \<Rightarrow> ms \<Rightarrow> nat \<Rightarrow> 'w \<Rightarrow> (frame_read \<times> 'w) option" where
  "read_frame E deadline acc_len w =
     do {
       (h0, w1) \<leftarrow> ReadExact E deadline 1 [] w;
       case h0 of
         None \<Rightarrow> Some (FrNone, w1)
       | Some b0 \<Rightarrow>
           do {
             (h1, w2) \<leftarrow> ReadExact E deadline 1 [] w1;
             case h1 of
               None \<Rightarrow> Some (FrBroken, w2)
             | Some b1 \<Rightarrow>
                 if \<not> known_opcode (hd b0 AND 0x0F) then Some (FrBroken, w2)
                 else do {
                   (len, w3) \<leftarrow> read_length E deadline (hd b1) w2;
                   case len of
                     None \<Rightarrow> Some (FrBroken, w3)
                   | Some n \<Rightarrow> read_body E deadline acc_len (hd b0) (hd b1) n w3
                 }
           }
     }"

text \<open>The receive loop over frames; best-effort replies ignore the outcome of their write.\<close>

definition reply_frame :: "'w socket_env \<Rightarrow> ms \<Rightarrow> u8 \<Rightarrow> u8 list \<Rightarrow> 'w \<Rightarrow> 'w option" where
  "reply_frame E deadline opcode payload w =
     (let (frame, w1) = masked_frame E opcode payload w
      in do { (ok, w2) \<leftarrow> WriteExact E deadline frame w1; Some w2 })"

partial_function (option) receive_loop ::
  "'w socket_env \<Rightarrow> ms \<Rightarrow> u8 list \<Rightarrow> 'w ws_client \<Rightarrow> (u8 list option \<times> 'w ws_client) option" where
  "receive_loop E deadline acc s =
     Option.bind (read_frame E deadline (length acc) (ws_world s)) (\<lambda>(fr, w).
     case fr of
       FrNone \<Rightarrow> Some (None, s\<lparr>ws_world := w, closed := closed s \<or> acc \<noteq> []\<rparr>)
     | FrBroken \<Rightarrow> Some (None, s\<lparr>ws_world := w, closed := True\<rparr>)
     | FrClose \<Rightarrow>
         Option.bind (reply_frame E deadline 0x8 [] w) (\<lambda>w1. Some (None, s\<lparr>ws_world := w1, closed := True\<rparr>))
     | FrFrame fin opcode payload \<Rightarrow>
         if opcode = 0x9 then
           Option.bind (reply_frame E deadline 0xA payload w) (\<lambda>w1. receive_loop E deadline acc (s\<lparr>ws_world := w1\<rparr>))
         else if opcode = 0xA then receive_loop E deadline acc (s\<lparr>ws_world := w\<rparr>)
         else if fin then Some (Some (acc @ payload), s\<lparr>ws_world := w\<rparr>)
         else receive_loop E deadline (acc @ payload) (s\<lparr>ws_world := w\<rparr>))"

definition Ws_ReceiveText :: "'w socket_env \<Rightarrow> ms \<Rightarrow> 'w ws_client \<Rightarrow> (string option \<times> 'w ws_client) option" where
  "Ws_ReceiveText E timeout_ms s =
     (if \<not> curl s \<or> \<not> s_active E (ws_world s) then Some (None, s)
      else
        (let (now, w) = s_now E (ws_world s)
         in do {
              (r, s') \<leftarrow> receive_loop E (now + timeout_ms) [] (s\<lparr>ws_world := w\<rparr>);
              Some (map_option string_of r, s')
            }))"

definition Ws_IsOpen :: "'w socket_env \<Rightarrow> 'w ws_client \<Rightarrow> bool" where
  "Ws_IsOpen E s \<longleftrightarrow>
     curl s \<and> \<not> closed s \<and> s_active E (ws_world s) \<and>
     (case s_peek E (ws_world s) of PeekEof \<Rightarrow> False | PeekData \<Rightarrow> True | PeekError transient \<Rightarrow> transient)"

end
