(* ===== verification/Ws_Frames.thy ===== *)
theory Ws_Frames
  imports Ws_Client
begin

text \<open>
  What the frame reader of websocket_client.cpp guarantees. A wire frame is described by its first byte,
  the length form it uses, its optional mask and its payload; the reader is sound (against any peer,
  what it consumes is whole frames unless it marks the connection closed, and what it returns is the
  payload of the data frames) and complete (a well-formed message gets through, however the network
  cuts it up and whatever control frames are interleaved).
\<close>

unbundle bit_operations_syntax

section \<open>Frames on the wire\<close>

datatype length_form = Len7 | Len16 | Len64

record wire_frame =
  wf_first :: u8
  wf_form :: length_form
  wf_key :: "u8 list option"
  wf_payload :: "u8 list"

fun length_code :: "length_form \<Rightarrow> nat \<Rightarrow> u8" where
  "length_code Len7 n = word_of_nat n"
| "length_code Len16 n = 126"
| "length_code Len64 n = 127"

fun length_ext :: "length_form \<Rightarrow> nat \<Rightarrow> u8 list" where
  "length_ext Len7 n = []"
| "length_ext Len16 n = be_bytes 2 n"
| "length_ext Len64 n = be_bytes 8 n"

fun length_fits :: "length_form \<Rightarrow> nat \<Rightarrow> bool" where
  "length_fits Len7 n \<longleftrightarrow> n < 126"
| "length_fits Len16 n \<longleftrightarrow> n < 256 ^ 2"
| "length_fits Len64 n \<longleftrightarrow> n < 256 ^ 8"

definition wire_bytes :: "wire_frame \<Rightarrow> u8 list" where
  "wire_bytes f =
     (let n = length (wf_payload f)
      in [wf_first f, (if wf_key f = None then 0 else 0x80) OR length_code (wf_form f) n] @ length_ext (wf_form f) n @
         (case wf_key f of None \<Rightarrow> wf_payload f | Some k \<Rightarrow> k @ apply_mask k (wf_payload f)))"

abbreviation wf_opcode :: "wire_frame \<Rightarrow> u8" where "wf_opcode f \<equiv> wf_first f AND 0x0F"
abbreviation wf_fin :: "wire_frame \<Rightarrow> bool" where "wf_fin f \<equiv> wf_first f AND 0x80 \<noteq> 0"
abbreviation wf_data :: "wire_frame \<Rightarrow> bool" where "wf_data f \<equiv> wf_opcode f \<in> {0x0, 0x1}"

definition frame_ok :: "wire_frame \<Rightarrow> bool" where
  "frame_ok f \<longleftrightarrow>
     wf_opcode f \<in> {0x0, 0x1, 0x9, 0xA} \<and> length_fits (wf_form f) (length (wf_payload f)) \<and>
     (case wf_key f of None \<Rightarrow> True | Some k \<Rightarrow> length k = 4)"

definition message_of :: "wire_frame list \<Rightarrow> u8 list" where
  "message_of fs = concat (map wf_payload (filter (\<lambda>f. wf_data f) fs))"

lemma message_of_simps [simp]:
  "message_of [] = []" "message_of (fs @ gs) = message_of fs @ message_of gs"
  "message_of [f] = (if wf_data f then wf_payload f else [])"
  "message_of (f # fs) = (if wf_data f then wf_payload f else []) @ message_of fs"
  by (auto simp: message_of_def)

text \<open>What the client itself sends is such a frame, with the shortest length form.\<close>

definition shortest_form :: "nat \<Rightarrow> length_form" where
  "shortest_form n = (if n < 126 then Len7 else if n \<le> 0xFFFF then Len16 else Len64)"

lemma BuildMaskedFrame_wire:
  "BuildMaskedFrame opcode payload k =
     wire_bytes \<lparr>wf_first = 0x80 OR opcode, wf_form = shortest_form (length payload), wf_key = Some k, wf_payload = payload\<rparr>"
  by (simp add: BuildMaskedFrame_def wire_bytes_def shortest_form_def Let_def)

section \<open>The second header byte\<close>

lemma bits_of_header_masks:
  "bit (0x7F :: u8) n \<longleftrightarrow> n < 7" "bit (0x0F :: u8) n \<longleftrightarrow> n < 4" "bit (0x80 :: u8) n \<longleftrightarrow> n = 7"
proof -
  have "(0x7F :: u8) = mask 7" "(0x0F :: u8) = mask 4" "(0x80 :: u8) = push_bit 7 1"
    by (simp_all add: mask_eq_exp_minus_1 push_bit_eq_mult)
  then show "bit (0x7F :: u8) n \<longleftrightarrow> n < 7" "bit (0x0F :: u8) n \<longleftrightarrow> n < 4" "bit (0x80 :: u8) n \<longleftrightarrow> n = 7"
    by (simp_all only: bit_mask_iff bit_push_bit_iff bit_1_iff) auto
qed

lemma and_0x80_zero: "(b :: u8) AND 0x80 = 0 \<longleftrightarrow> \<not> bit b 7"
proof
  assume "b AND 0x80 = 0"
  then have "\<not> bit (b AND 0x80) 7" by (simp only: bit_0_eq bot_apply bot_bool_def not_False_eq_True)
  then show "\<not> bit b 7" by (simp only: bit_and_iff bits_of_header_masks) simp
next
  assume "\<not> bit b 7"
  then show "b AND 0x80 = 0" by (intro bit_word_eqI) (auto simp: bit_and_iff bits_of_header_masks simp del: bit_numeral_word_iff)
qed

lemma second_byte_split: "(b :: u8) = (if b AND 0x80 = 0 then 0 else 0x80) OR (b AND 0x7F)"
proof (rule bit_word_eqI)
  fix n :: nat
  assume "n < LENGTH(8)"
  then have "n < 7 \<or> n = 7" by auto
  then show "bit b n \<longleftrightarrow> bit ((if b AND 0x80 = 0 then 0 else 0x80) OR (b AND 0x7F)) n"
    by (auto simp: and_0x80_zero bit_or_iff bit_and_iff bits_of_header_masks simp del: bit_numeral_word_iff)
qed

lemma second_byte_fields:
  assumes "\<not> bit (c :: u8) 7"
  shows "(0x80 OR c) AND 0x7F = c" "c AND 0x7F = c" "(0x80 OR c) AND 0x80 \<noteq> 0" "c AND 0x80 = 0"
proof -
  have low: "bit c n \<Longrightarrow> n < 7" for n
    using assms bit_imp_le_length [of c n] by (cases "n = 7") auto
  show "(0x80 OR c) AND 0x7F = c" "c AND 0x7F = c"
    by ((rule bit_word_eqI, use low in \<open>auto simp: bit_or_iff bit_and_iff bits_of_header_masks simp del: bit_numeral_word_iff\<close>)[1])+
  show "(0x80 OR c) AND 0x80 \<noteq> 0" "c AND 0x80 = 0"
    using assms by (simp_all add: and_0x80_zero bit_or_iff bits_of_header_masks del: bit_numeral_word_iff)
qed

lemma length_code_bit7: "length_fits form n \<Longrightarrow> \<not> bit (length_code form n) 7"
proof (cases form)
  case Len7
  assume "length_fits form n"
  with Len7 have "n div 128 = 0" by simp
  then have "\<not> bit n 7" by (simp add: bit_iff_odd)
  with Len7 show ?thesis by (simp add: bit_simps)
qed (simp_all add: bit_simps bit_numeral_rec)

lemma unat_length_code: "length_fits form n \<Longrightarrow> unat (length_code form n) = (case form of Len7 \<Rightarrow> n | Len16 \<Rightarrow> 126 | Len64 \<Rightarrow> 127)"
  by (cases form) (simp_all add: unat_of_nat)

section \<open>Observing what is consumed\<close>

text \<open>
  \<open>consumed w\<close> is the list of bytes the socket has handed over so far: a receive adds what it returns
  (never more than asked for, as curl documents), nothing else changes it.
\<close>

definition observes :: "'w socket_env \<Rightarrow> ('w \<Rightarrow> u8 list) \<Rightarrow> bool" where
  "observes E consumed \<longleftrightarrow>
     (\<forall>n w. case s_recv E n w of
        (RecvBytes bs, w') \<Rightarrow> length bs \<le> n \<and> consumed w' = consumed w @ bs
      | (_, w') \<Rightarrow> consumed w' = consumed w) \<and>
     (\<forall>w. consumed (snd (s_now E w)) = consumed w) \<and>
     (\<forall>t w. consumed (snd (s_poll_in E t w)) = consumed w) \<and>
     (\<forall>t w. consumed (snd (s_poll_out E t w)) = consumed w) \<and>
     (\<forall>bs w. consumed (snd (s_send E bs w)) = consumed w) \<and>
     (\<forall>n w. consumed (snd (s_random E n w)) = consumed w)"

lemma observesD:
  assumes "observes E consumed"
  shows "consumed (snd (s_now E w)) = consumed w" "consumed (snd (s_poll_in E t w)) = consumed w"
    "consumed (snd (s_poll_out E t w)) = consumed w" "consumed (snd (s_send E bs w)) = consumed w"
    "consumed (snd (s_random E n w)) = consumed w"
  using assms by (simp_all add: observes_def)

lemma observes_Remaining: "observes E consumed \<Longrightarrow> consumed (snd (RemainingMs E t w)) = consumed w"
  by (simp add: RemainingMs_def Let_def case_prod_beta observesD)

lemma observes_recv:
  assumes "observes E consumed"
  shows "s_recv E n w = (RecvBytes bs, w') \<Longrightarrow> length bs \<le> n \<and> consumed w' = consumed w @ bs"
    "s_recv E n w = (RecvAgain, w') \<Longrightarrow> consumed w' = consumed w"
    "s_recv E n w = (RecvError, w') \<Longrightarrow> consumed w' = consumed w"
proof -
  have "case s_recv E n w of
        (RecvBytes bs, w') \<Rightarrow> length bs \<le> n \<and> consumed w' = consumed w @ bs
      | (_, w') \<Rightarrow> consumed w' = consumed w"
    using assms unfolding observes_def by (elim conjE allE)
  then show "s_recv E n w = (RecvBytes bs, w') \<Longrightarrow> length bs \<le> n \<and> consumed w' = consumed w @ bs"
    "s_recv E n w = (RecvAgain, w') \<Longrightarrow> consumed w' = consumed w"
    "s_recv E n w = (RecvError, w') \<Longrightarrow> consumed w' = consumed w"
    by simp_all
qed

text \<open>An exact read of \<open>len\<close> bytes takes exactly those from the stream, or fails having taken fewer.\<close>

definition took :: "('w \<Rightarrow> u8 list) \<Rightarrow> nat \<Rightarrow> u8 list \<Rightarrow> 'w \<Rightarrow> u8 list option \<times> 'w \<Rightarrow> bool" where
  "took consumed len got w r \<longleftrightarrow>
     (case r of
        (Some bs, w') \<Rightarrow> \<exists>d. bs = got @ d \<and> length bs = len \<and> consumed w' = consumed w @ d
      | (None, w') \<Rightarrow> \<exists>d. length got + length d < len \<and> consumed w' = consumed w @ d)"

lemma ReadExact_took_loop:
  assumes "ReadExact E deadline len got w = Some y"
  shows "observes E consumed \<Longrightarrow> length got \<le> len \<Longrightarrow> took consumed len got w y"
proof -
  have "observes E consumed \<longrightarrow> length got \<le> len \<longrightarrow> took consumed len got w y"
  proof (rule ReadExact.raw_induct [where P = "\<lambda>E deadline len got w y. observes E consumed \<longrightarrow> length got \<le> len \<longrightarrow> took consumed len got w y",
        OF _ assms], goal_cases)
    case step: (1 f E deadline len got w y)
    show ?case
    proof (intro impI)
      assume obs: "observes E consumed" and le: "length got \<le> len"
      have IH: "took consumed len got' w' y" if "f E deadline len got' w' = Some y" "length got' \<le> len" for got' w'
        using step(1) [OF that(1)] obs that(2) by blast
      obtain wait w1 where r: "RemainingMs E deadline w = (wait, w1)" by fastforce
      obtain ready w2 where p: "s_poll_in E wait w1 = (ready, w2)" by fastforce
      obtain out w3 where v: "s_recv E (len - length got) w2 = (out, w3)" by fastforce
      have c: "consumed w2 = consumed w"
        using observes_Remaining [OF obs, of deadline w] observesD(2) [OF obs, of wait w1] r p by simp
      note eq = step(2) [unfolded r p v Let_def split]
      show "took consumed len got w y"
      proof (cases "len \<le> length got \<or> \<not> ready")
        case True
        then show ?thesis using eq le c by (auto simp: took_def split: if_splits)
      next
        case False
        show ?thesis
        proof (cases out)
          case RecvAgain
          then have "took consumed len got w3 y" using eq False by (intro IH) (auto simp: le)
          then show ?thesis using observes_recv(2) [OF obs v [unfolded RecvAgain]] c
            by (auto simp: took_def split: prod.splits option.splits)
        next
          case RecvError
          then show ?thesis using eq observes_recv(3) [OF obs v [unfolded RecvError]] c False by (auto simp: took_def)
        next
          case (RecvBytes bs)
          note o = observes_recv(1) [OF obs v [unfolded RecvBytes]]
          show ?thesis
          proof (cases "bs = []")
            case True
            then show ?thesis using eq RecvBytes o c False by (auto simp: took_def)
          next
            case bs: False
            have "f E deadline len (got @ bs) w3 = Some y" using eq RecvBytes bs False by simp
            then have "took consumed len (got @ bs) w3 y" by (rule IH) (use o False in auto)
            then show ?thesis using o c by (auto simp: took_def split: prod.splits option.splits)
          qed
        qed
      qed
    qed
  qed
  then show "observes E consumed \<Longrightarrow> length got \<le> len \<Longrightarrow> took consumed len got w y" by blast
qed

lemma ReadExact_took:
  assumes "observes E consumed" "ReadExact E deadline len [] w = Some y"
  shows "took consumed len [] w y"
  using ReadExact_took_loop [OF assms(2,1)] by simp

definition grew :: "('w \<Rightarrow> u8 list) \<Rightarrow> 'w \<Rightarrow> 'w \<Rightarrow> bool" where
  "grew consumed w w' \<longleftrightarrow> (\<exists>d. consumed w' = consumed w @ d)"

lemma grew_trans: "grew consumed a b \<Longrightarrow> grew consumed b c \<Longrightarrow> grew consumed a c"
  by (auto simp: grew_def)

lemma grew_eq: "consumed w' = consumed w \<Longrightarrow> grew consumed w w'"
  by (simp add: grew_def)

lemma ReadExact_grew: "observes E consumed \<Longrightarrow> ReadExact E dl n [] w = Some (r, w') \<Longrightarrow> grew consumed w w'"
  using ReadExact_took [of E consumed dl n w "(r, w')"] by (auto simp: took_def grew_def split: option.splits)

lemma ReadExact_Some:
  assumes "observes E consumed" "ReadExact E dl n [] w = Some (Some bs, w')"
  shows "length bs = n" "consumed w' = consumed w @ bs"
  using ReadExact_took [OF assms] by (auto simp: took_def)

lemma ReadExact_first:
  "observes E consumed \<Longrightarrow> ReadExact E dl 1 [] w = Some (None, w') \<Longrightarrow> consumed w' = consumed w"
  using ReadExact_took [of E consumed dl 1 w "(None, w')"] by (auto simp: took_def)

lemma and_0x7F_less: "unat ((b :: u8) AND 0x7F) < 128"
proof -
  have "(b AND 0x7F) = take_bit 7 b"
    by (rule bit_word_eqI) (auto simp: bit_and_iff bit_take_bit_iff bits_of_header_masks simp del: bit_numeral_word_iff)
  then have "unat (b AND 0x7F) = take_bit 7 (unat b)" by (simp only: unsigned_take_bit_eq)
  also have "\<dots> < 128" using take_bit_nat_less_exp [of 7 "unat b"] by simp
  finally show ?thesis .
qed

lemma read_ext_sound:
  assumes "observes E consumed" "ReadExact E dl k [] w = Some (Some bs, w')"
    and "length_ext form = be_bytes k" "\<And>m. length_fits form m \<longleftrightarrow> m < 256 ^ k"
  shows "length_fits form (be_value bs) \<and> consumed w' = consumed w @ length_ext form (be_value bs)"
  using ReadExact_Some [OF assms(1,2)] be_value_bound [of bs] be_bytes_be_value [of bs] assms(3,4) by auto

lemma read_length_sound:
  assumes obs: "observes E consumed" and run: "read_length E dl b w = Some (r, w')"
  shows "grew consumed w w' \<and> (r = Some n \<longrightarrow>
      (\<exists>form. length_fits form n \<and> b AND 0x7F = length_code form n \<and> consumed w' = consumed w @ length_ext form n))"
proof -
  let ?c = "unat (b AND 0x7F)"
  have code: "?c = 126 \<Longrightarrow> b AND 0x7F = length_code Len16 n" "?c = 127 \<Longrightarrow> b AND 0x7F = length_code Len64 n"
    by (simp_all add: word_unat_eq_iff)
  consider "?c = 126" | "?c = 127" | "?c < 126" using and_0x7F_less [of b] by linarith
  then show ?thesis
  proof cases
    case 1
    then obtain ext where ext: "ReadExact E dl 2 [] w = Some (ext, w')" "r = map_option be_value ext"
      using run by (auto simp: read_length_def Let_def split: bind_splits)
    show ?thesis
      using ReadExact_grew [OF obs ext(1)] read_ext_sound [OF obs, of dl 2 w _ w' Len16] ext code(1) [OF 1] by fastforce
  next
    case 2
    then obtain ext where ext: "ReadExact E dl 8 [] w = Some (ext, w')" "r = map_option be_value ext"
      using run by (auto simp: read_length_def Let_def split: bind_splits)
    show ?thesis
      using ReadExact_grew [OF obs ext(1)] read_ext_sound [OF obs, of dl 8 w _ w' Len64] ext code(2) [OF 2] by fastforce
  next
    case 3
    then have r: "r = Some ?c" "w' = w" using run by (auto simp: read_length_def Let_def)
    have "length_fits Len7 ?c" "b AND 0x7F = length_code Len7 ?c" using 3 by simp_all
    with r show ?thesis by (metis append_Nil2 grew_eq length_ext.simps(1) option.inject)
  qed
qed

lemma read_body_sound:
  assumes obs: "observes E consumed" and run: "read_body E dl acc_len first second n w = Some (fr, w')"
  shows "grew consumed w w' \<and> fr \<noteq> FrNone \<and>
    (\<forall>fin opcode p. fr = FrFrame fin opcode p \<longrightarrow>
       fin = (first AND 0x80 \<noteq> 0) \<and> opcode = first AND 0x0F \<and> opcode \<noteq> 0x8 \<and> length p = n \<and>
       acc_len + n \<le> kMaxWebSocketMessageBytes \<and>
       (\<exists>key. (key = None \<longleftrightarrow> second AND 0x80 = 0) \<and> (case key of None \<Rightarrow> True | Some k \<Rightarrow> length k = 4) \<and>
          consumed w' = consumed w @ (case key of None \<Rightarrow> p | Some k \<Rightarrow> k @ apply_mask k p)))"
proof -
  obtain m w1 where
    m: "grew consumed w w1" "m = None \<or> (\<exists>key. m = Some key \<and> (key = None \<longleftrightarrow> second AND 0x80 = 0) \<and>
          (case key of None \<Rightarrow> consumed w1 = consumed w | Some k \<Rightarrow> length k = 4 \<and> consumed w1 = consumed w @ k))"
    and rest: "(case m of
         None \<Rightarrow> Some (FrBroken, w1)
       | Some k \<Rightarrow>
           if first AND 0x0F = 0x8 then Some (FrClose, w1)
           else if kMaxWebSocketMessageBytes < n \<or> kMaxWebSocketMessageBytes < acc_len + n then Some (FrBroken, w1)
           else Option.bind (read_payload E dl n k w1) (\<lambda>(payload, w2).
             Some (case payload of
                     None \<Rightarrow> FrBroken
                   | Some p \<Rightarrow> FrFrame (first AND 0x80 \<noteq> 0) (first AND 0x0F) p, w2))) = Some (fr, w')"
  proof (cases "second AND 0x80 = 0")
    case True
    then show ?thesis using run that [of w "Some None"] by (simp add: read_body_def grew_eq)
  next
    case False
    then obtain bs w1 where bs: "ReadExact E dl 4 [] w = Some (bs, w1)"
      using run by (auto simp: read_body_def split: bind_splits)
    then show ?thesis
      using run False that [of w1 "map_option Some bs"] ReadExact_grew [OF obs bs] ReadExact_Some [OF obs, of dl 4 w _ w1]
      by (cases bs) (auto simp: read_body_def)
  qed
  show ?thesis
  proof (cases m)
    case None
    then show ?thesis using rest m(1) by auto
  next
    case (Some key)
    note key = m(2) [unfolded Some]
    show ?thesis
    proof (cases "first AND 0x0F = 0x8 \<or> kMaxWebSocketMessageBytes < n \<or> kMaxWebSocketMessageBytes < acc_len + n")
      case True
      then show ?thesis using rest m(1) Some by (auto split: if_splits)
    next
      case False
      then obtain raw where raw: "ReadExact E dl n [] w1 = Some (raw, w')"
        and fr: "fr = (case raw of None \<Rightarrow> FrBroken
          | Some bs \<Rightarrow> FrFrame (first AND 0x80 \<noteq> 0) (first AND 0x0F) (case key of None \<Rightarrow> bs | Some k \<Rightarrow> apply_mask k bs))"
        using rest Some by (fastforce simp: read_payload_def split: bind_splits option.splits)
      have "grew consumed w w'" using grew_trans [OF m(1) ReadExact_grew [OF obs raw]] .
      then show ?thesis
        using fr False key ReadExact_Some [OF obs, of dl n w1 _ w'] raw
        by (cases raw; cases key) auto
    qed
  qed
qed

lemma read_frame_sound:
  assumes obs: "observes E consumed" and run: "read_frame E dl acc_len w = Some (fr, w')"
  shows "grew consumed w w' \<and> (fr = FrNone \<longrightarrow> consumed w' = consumed w) \<and>
    (\<forall>fin opcode p. fr = FrFrame fin opcode p \<longrightarrow>
       (\<exists>f. frame_ok f \<and> wf_payload f = p \<and> fin = wf_fin f \<and> opcode = wf_opcode f \<and>
            consumed w' = consumed w @ wire_bytes f \<and> acc_len + length p \<le> kMaxWebSocketMessageBytes))"
proof -
  obtain h0 w1 where h0: "ReadExact E dl 1 [] w = Some (h0, w1)"
    using run by (auto simp: read_frame_def split: bind_splits)
  note g0 = ReadExact_grew [OF obs h0]
  show ?thesis
  proof (cases h0)
    case None
    then show ?thesis using run h0 g0 ReadExact_first [OF obs h0 [unfolded None]] by (auto simp: read_frame_def)
  next
    case (Some b0)
    then obtain h1 w2 where h1: "ReadExact E dl 1 [] w1 = Some (h1, w2)"
      using run h0 by (auto simp: read_frame_def split: bind_splits)
    note g1 = grew_trans [OF g0 ReadExact_grew [OF obs h1]]
    note c0 = ReadExact_Some [OF obs h0 [unfolded Some]]
    show ?thesis
    proof (cases "h1 = None \<or> \<not> known_opcode (hd b0 AND 0x0F)")
      case True
      then show ?thesis using run h0 h1 g1 Some by (auto simp: read_frame_def split: option.splits)
    next
      case False
      then obtain b1 where b1: "h1 = Some b1" and known: "known_opcode (hd b0 AND 0x0F)" by auto
      note c1 = ReadExact_Some [OF obs h1 [unfolded b1]]
      obtain len w3 where len: "read_length E dl (hd b1) w2 = Some (len, w3)"
        using run h0 h1 Some b1 known by (auto simp: read_frame_def split: bind_splits)
      note sl = read_length_sound [OF obs len]
      show ?thesis
      proof (cases len)
        case None
        then show ?thesis using run h0 h1 Some b1 known len grew_trans [OF g1] sl by (auto simp: read_frame_def)
      next
        case n: (Some n)
        have body: "read_body E dl acc_len (hd b0) (hd b1) n w3 = Some (fr, w')"
          using run h0 h1 Some b1 known len n by (simp add: read_frame_def)
        note sb = read_body_sound [OF obs body]
        have "grew consumed w w'" using grew_trans [OF g1 grew_trans] sl sb by blast
        moreover have "\<exists>f. frame_ok f \<and> wf_payload f = p \<and> fin = wf_fin f \<and> opcode = wf_opcode f \<and>
            consumed w' = consumed w @ wire_bytes f \<and> acc_len + length p \<le> kMaxWebSocketMessageBytes"
          if fr: "fr = FrFrame fin opcode p" for fin opcode p
        proof -
          obtain form where form: "length_fits form n" "hd b1 AND 0x7F = length_code form n"
              "consumed w3 = consumed w2 @ length_ext form n"
            using sl n by blast
          obtain key where key: "key = None \<longleftrightarrow> hd b1 AND 0x80 = 0" "case key of None \<Rightarrow> True | Some k \<Rightarrow> length k = 4"
              "consumed w' = consumed w3 @ (case key of None \<Rightarrow> p | Some k \<Rightarrow> k @ apply_mask k p)"
            and fields: "fin = (hd b0 AND 0x80 \<noteq> 0)" "opcode = hd b0 AND 0x0F" "opcode \<noteq> 0x8" "length p = n"
              "acc_len + n \<le> kMaxWebSocketMessageBytes"
            using sb fr by blast
          let ?f = "\<lparr>wf_first = hd b0, wf_form = form, wf_key = key, wf_payload = p\<rparr>"
          have bytes: "b0 = [hd b0]" "b1 = [hd b1]" using c0(1) c1(1) by (auto simp: length_Suc_conv)
          have second: "hd b1 = (if key = None then 0 else 0x80) OR length_code form n"
            using second_byte_split [of "hd b1"] key(1) form(2) by simp
          have "consumed w' = consumed w @ wire_bytes ?f"
            using c0(2) c1(2) form(3) key(3) fields(4) second bytes
            by (simp add: wire_bytes_def split: option.splits)
          moreover have "frame_ok ?f"
            using known fields form(1) key(2) by (auto simp: frame_ok_def known_opcode_def)
          ultimately show ?thesis using fields by (intro exI [of _ ?f]) simp
        qed
        ultimately show ?thesis using sb by blast
      qed
    qed
  qed
qed

lemma WriteExact_keeps:
  assumes "WriteExact E dl buf w = Some y"
  shows "observes E consumed \<Longrightarrow> consumed (snd y) = consumed w"
proof -
  have "observes E consumed \<longrightarrow> consumed (snd y) = consumed w"
  proof (rule WriteExact.raw_induct [where P = "\<lambda>E dl buf w y. observes E consumed \<longrightarrow> consumed (snd y) = consumed w",
        OF _ assms], goal_cases)
    case step: (1 f E dl buf w y)
    show ?case
    proof
      assume obs: "observes E consumed"
      have IH: "consumed (snd y) = consumed w'" if "f E dl buf' w' = Some y" for buf' w'
        using step(1) [OF that] obs by blast
      obtain wait w1 where r: "RemainingMs E dl w = (wait, w1)" by fastforce
      obtain ready w2 where p: "s_poll_out E wait w1 = (ready, w2)" by fastforce
      obtain out w3 where v: "s_send E buf w2 = (out, w3)" by fastforce
      have c: "consumed w2 = consumed w" "consumed w3 = consumed w"
        using observes_Remaining [OF obs, of dl w] observesD(3) [OF obs, of wait w1] observesD(4) [OF obs, of buf w2] r p v
        by simp_all
      show "consumed (snd y) = consumed w"
        using step(2) [unfolded r p v Let_def split] c IH
        by (cases out) (auto split: if_splits)
    qed
  qed
  then show "observes E consumed \<Longrightarrow> consumed (snd y) = consumed w" by blast
qed

lemma reply_frame_keeps:
  assumes "observes E consumed" "reply_frame E dl opcode payload w = Some w'"
  shows "consumed w' = consumed w"
proof -
  obtain key w1 where k: "s_random E 4 w = (key, w1)" by fastforce
  then obtain ok where "WriteExact E dl (BuildMaskedFrame opcode payload key) w1 = Some (ok, w')"
    using assms(2) by (auto simp: reply_frame_def masked_frame_def split: bind_splits)
  from WriteExact_keeps [OF this assms(1)] show ?thesis using observesD(5) [OF assms(1), of 4 w] k by simp
qed

section \<open>Soundness of the receive loop\<close>

text \<open>
  \<open>complete_message fs\<close>: a frame sequence that ends exactly where its message ends.
\<close>

definition complete_message :: "wire_frame list \<Rightarrow> bool" where
  "complete_message fs \<longleftrightarrow>
     fs \<noteq> [] \<and> wf_data (last fs) \<and> wf_fin (last fs) \<and> (\<forall>f \<in> set (butlast fs). wf_data f \<longrightarrow> \<not> wf_fin f)"

lemma complete_message_Cons:
  "\<not> (wf_data f \<and> wf_fin f) \<Longrightarrow> complete_message fs \<Longrightarrow> complete_message (f # fs)"
  by (auto simp: complete_message_def)

definition received :: "('w \<Rightarrow> u8 list) \<Rightarrow> u8 list \<Rightarrow> 'w ws_client \<Rightarrow> u8 list option \<times> 'w ws_client \<Rightarrow> bool" where
  "received consumed acc s y \<longleftrightarrow>
     (\<exists>fs tail. list_all frame_ok fs \<and>
        consumed (ws_world (snd y)) = consumed (ws_world s) @ concat (map wire_bytes fs) @ tail \<and>
        curl (snd y) = curl s \<and> (closed s \<longrightarrow> closed (snd y)) \<and>
        (\<forall>m. fst y = Some m \<longrightarrow>
           tail = [] \<and> complete_message fs \<and> m = acc @ message_of fs \<and> length m \<le> kMaxWebSocketMessageBytes \<and>
           closed (snd y) = closed s) \<and>
        (fst y = None \<and> \<not> closed (snd y) \<longrightarrow> tail = [] \<and> acc @ message_of fs = []))"

lemma received_frame:
  assumes "frame_ok f" "consumed (ws_world s1) = consumed (ws_world s) @ wire_bytes f"
    and "curl s1 = curl s" "closed s1 = closed s" "\<not> (wf_data f \<and> wf_fin f)"
    and "received consumed (acc @ (if wf_data f then wf_payload f else [])) s1 y"
  shows "received consumed acc s y"
proof -
  obtain fs tail where fs: "list_all frame_ok fs"
      "consumed (ws_world (snd y)) = consumed (ws_world s1) @ concat (map wire_bytes fs) @ tail"
      "curl (snd y) = curl s1" "closed s1 \<longrightarrow> closed (snd y)"
      "\<forall>m. fst y = Some m \<longrightarrow> tail = [] \<and> complete_message fs \<and>
         m = (acc @ (if wf_data f then wf_payload f else [])) @ message_of fs \<and> length m \<le> kMaxWebSocketMessageBytes \<and>
         closed (snd y) = closed s1"
      "fst y = None \<and> \<not> closed (snd y) \<longrightarrow> tail = [] \<and> (acc @ (if wf_data f then wf_payload f else [])) @ message_of fs = []"
    using assms(6) unfolding received_def by blast
  show ?thesis
    unfolding received_def
  proof (intro exI [of _ "f # fs"] exI [of _ tail] conjI allI impI)
    fix m
    assume "fst y = Some m"
    with fs(5) show "tail = []" "complete_message (f # fs)" "m = acc @ message_of (f # fs)"
        "length m \<le> kMaxWebSocketMessageBytes" "closed (snd y) = closed s"
      using complete_message_Cons [OF assms(5)] assms(4) by auto
  next
    assume "fst y = None \<and> \<not> closed (snd y)"
    with fs(6) show "tail = []" "acc @ message_of (f # fs) = []" by (auto split: if_splits)
  qed (use fs assms in auto)
qed

lemma receive_loop_sound:
  assumes "receive_loop E dl acc s = Some y"
  shows "observes E consumed \<Longrightarrow> received consumed acc s y"
proof -
  have "observes E consumed \<longrightarrow> received consumed acc s y"
  proof (rule receive_loop.raw_induct [where P = "\<lambda>E dl acc s y. observes E consumed \<longrightarrow> received consumed acc s y",
        OF _ assms], goal_cases)
    case step: (1 f E dl acc s y)
    show ?case
    proof
      assume obs: "observes E consumed"
      have IH: "received consumed acc' s' y" if "f E dl acc' s' = Some y" for acc' s'
        using step(1) [OF that] obs by blast
      obtain fr w where rf: "read_frame E dl (length acc) (ws_world s) = Some (fr, w)"
        using step(2) by (auto split: bind_splits)
      note sound = read_frame_sound [OF obs rf]
      note eq = step(2) [unfolded rf bind.simps(2) split]
      obtain tail where tail: "consumed w = consumed (ws_world s) @ tail" using sound by (auto simp: grew_def)
      show "received consumed acc s y"
      proof (cases fr)
        case FrNone
        then show ?thesis using eq sound unfolding received_def by (intro exI [of _ "[]"]) auto
      next
        case FrBroken
        then show ?thesis using eq tail unfolding received_def by (intro exI [of _ "[]"] exI [of _ tail]) auto
      next
        case FrClose
        then obtain w1 where w1: "reply_frame E dl 0x8 [] w = Some w1" "y = (None, s\<lparr>ws_world := w1, closed := True\<rparr>)"
          using eq by (auto split: bind_splits)
        then show ?thesis using tail reply_frame_keeps [OF obs w1(1)]
          unfolding received_def by (intro exI [of _ "[]"] exI [of _ tail]) auto
      next
        case (FrFrame fin opcode p)
        obtain g where g: "frame_ok g" "wf_payload g = p" "fin = wf_fin g" "opcode = wf_opcode g"
            "consumed w = consumed (ws_world s) @ wire_bytes g" "length acc + length p \<le> kMaxWebSocketMessageBytes"
          using sound FrFrame by blast
        note eq' = eq [unfolded FrFrame frame_read.case]
        note via = received_frame [OF g(1), of consumed _ s acc y]
        consider "opcode = 0x9" | "opcode = 0xA" | (data) "wf_data g" "opcode \<noteq> 0x9" "opcode \<noteq> 0xA"
          using g(1,4) by (auto simp: frame_ok_def)
        then show ?thesis
        proof cases
          case 1
          then obtain w1 where w1: "reply_frame E dl 0xA p w = Some w1" "f E dl acc (s\<lparr>ws_world := w1\<rparr>) = Some y"
            using eq' by (auto split: bind_splits)
          then show ?thesis
            using IH [OF w1(2)] via [of "s\<lparr>ws_world := w1\<rparr>"] reply_frame_keeps [OF obs w1(1)] 1 g by auto
        next
          case 2
          then have "f E dl acc (s\<lparr>ws_world := w\<rparr>) = Some y" using eq' by simp
          then show ?thesis using IH via [of "s\<lparr>ws_world := w\<rparr>"] 2 g by auto
        next
          case data
          show ?thesis
          proof (cases fin)
            case True
            then show ?thesis
              using eq' data g unfolding received_def complete_message_def
              by (intro exI [of _ "[g]"] exI [of _ "[]"]) auto
          next
            case False
            then have "f E dl (acc @ p) (s\<lparr>ws_world := w\<rparr>) = Some y" using eq' data by simp
            then show ?thesis using IH via [of "s\<lparr>ws_world := w\<rparr>"] data False g by auto
          qed
        qed
      qed
    qed
  qed
  then show "observes E consumed \<Longrightarrow> received consumed acc s y" by blast
qed


section \<open>Completeness\<close>

text \<open>
  A transport that carries a byte stream: \<open>incoming w\<close> is still to come. While there is something the
  poll reports it, and a receive hands over a non-empty piece of it or asks to try again; \<open>stalls w\<close>
  bounds how often it may do so. Nothing else touches the stream.
\<close>

definition carries :: "'w socket_env \<Rightarrow> ('w \<Rightarrow> u8 list) \<Rightarrow> ('w \<Rightarrow> nat) \<Rightarrow> bool" where
  "carries E incoming stalls \<longleftrightarrow>
     (\<forall>w. incoming (snd (s_now E w)) = incoming w \<and> stalls (snd (s_now E w)) \<le> stalls w) \<and>
     (\<forall>n w. incoming (snd (s_random E n w)) = incoming w \<and> stalls (snd (s_random E n w)) \<le> stalls w) \<and>
     (\<forall>t w. incoming (snd (s_poll_in E t w)) = incoming w \<and> stalls (snd (s_poll_in E t w)) \<le> stalls w \<and>
            (incoming w \<noteq> [] \<longrightarrow> fst (s_poll_in E t w))) \<and>
     (\<forall>t w. incoming (snd (s_poll_out E t w)) = incoming w \<and> stalls (snd (s_poll_out E t w)) \<le> stalls w) \<and>
     (\<forall>bs w. incoming (snd (s_send E bs w)) = incoming w \<and>
        (if fst (s_send E bs w) = SendAgain then stalls (snd (s_send E bs w)) < stalls w
         else stalls (snd (s_send E bs w)) \<le> stalls w)) \<and>
     (\<forall>n w. 0 < n \<and> incoming w \<noteq> [] \<longrightarrow>
        (case s_recv E n w of
           (RecvAgain, w') \<Rightarrow> incoming w' = incoming w \<and> stalls w' < stalls w
         | (RecvBytes bs, w') \<Rightarrow> bs \<noteq> [] \<and> length bs \<le> n \<and> incoming w = bs @ incoming w' \<and> stalls w' \<le> stalls w
         | (RecvError, w') \<Rightarrow> False))"

lemma carries_Remaining:
  "carries E incoming stalls \<Longrightarrow>
   incoming (snd (RemainingMs E t w)) = incoming w \<and> stalls (snd (RemainingMs E t w)) \<le> stalls w"
  by (simp add: carries_def RemainingMs_def Let_def case_prod_beta)

lemma carries_poll:
  "carries E incoming stalls \<Longrightarrow>
   incoming (snd (s_poll_in E t w)) = incoming w \<and> stalls (snd (s_poll_in E t w)) \<le> stalls w \<and>
   (incoming w \<noteq> [] \<longrightarrow> fst (s_poll_in E t w))"
  by (simp add: carries_def)

lemma carries_recv:
  assumes "carries E incoming stalls" "0 < n" "incoming w \<noteq> []"
  shows "case s_recv E n w of
     (RecvAgain, w') \<Rightarrow> incoming w' = incoming w \<and> stalls w' < stalls w
   | (RecvBytes bs, w') \<Rightarrow> bs \<noteq> [] \<and> length bs \<le> n \<and> incoming w = bs @ incoming w' \<and> stalls w' \<le> stalls w
   | (RecvError, w') \<Rightarrow> False"
proof -
  have "\<forall>n w. 0 < n \<and> incoming w \<noteq> [] \<longrightarrow>
      (case s_recv E n w of
         (RecvAgain, w') \<Rightarrow> incoming w' = incoming w \<and> stalls w' < stalls w
       | (RecvBytes bs, w') \<Rightarrow> bs \<noteq> [] \<and> length bs \<le> n \<and> incoming w = bs @ incoming w' \<and> stalls w' \<le> stalls w
       | (RecvError, w') \<Rightarrow> False)"
    using assms(1) unfolding carries_def by (elim conjE)
  then show ?thesis using assms(2,3) by simp
qed

lemma ReadExact_carries_loop:
  assumes "carries E incoming stalls"
  shows "length got \<le> len \<Longrightarrow> incoming w = bs @ rest \<Longrightarrow> length got + length bs = len \<Longrightarrow>
    \<exists>w'. ReadExact E dl len got w = Some (Some (got @ bs), w') \<and> incoming w' = rest"
proof (induction "len - length got + stalls w" arbitrary: got w bs rule: less_induct)
  case less
  show ?case
  proof (cases "bs = []")
    case True
    then show ?thesis using less.prems by (subst ReadExact.simps) simp
  next
    case False
    obtain wait w1 where r: "RemainingMs E dl w = (wait, w1)" by fastforce
    obtain ready w2 where p: "s_poll_in E wait w1 = (ready, w2)" by fastforce
    obtain out w3 where v: "s_recv E (len - length got) w2 = (out, w3)" by fastforce
    have w1: "incoming w1 = incoming w" "stalls w1 \<le> stalls w" using carries_Remaining [OF assms, of dl w] r by simp_all
    have w2: "ready" "incoming w2 = bs @ rest" "stalls w2 \<le> stalls w"
      using carries_poll [OF assms, of wait w1] w1 p less.prems(2) False by auto
    have n: "0 < len - length got" "\<not> len \<le> length got" using less.prems False by auto
    have rec: "case s_recv E (len - length got) w2 of
           (RecvAgain, w') \<Rightarrow> incoming w' = incoming w2 \<and> stalls w' < stalls w2
         | (RecvBytes ds, w') \<Rightarrow> ds \<noteq> [] \<and> length ds \<le> len - length got \<and> incoming w2 = ds @ incoming w' \<and> stalls w' \<le> stalls w2
         | (RecvError, w') \<Rightarrow> False"
      using carries_recv [OF assms n(1), of w2] w2(2) False by simp
    note unfold_loop = ReadExact.simps [of E dl len got w, unfolded r p v Let_def split]
    show ?thesis
    proof (cases out)
      case RecvAgain
      have "\<exists>w'. ReadExact E dl len got w3 = Some (Some (got @ bs), w') \<and> incoming w' = rest"
        using rec v RecvAgain w2 less.prems by (intro less.hyps) auto
      then show ?thesis unfolding unfold_loop using n(2) w2(1) RecvAgain by simp
    next
      case RecvError
      then show ?thesis using rec v by simp
    next
      case (RecvBytes ds)
      then have ds: "ds \<noteq> []" "length ds \<le> length bs" "bs @ rest = ds @ incoming w3" "stalls w3 \<le> stalls w2"
        using rec v w2(2) less.prems(3) by auto
      define es where "es = drop (length ds) bs"
      have "take (length ds) (bs @ rest) = ds" by (simp add: ds(3))
      then have bs: "bs = ds @ es" using ds(2) append_take_drop_id [of "length ds" bs] by (simp add: es_def)
      have w3: "incoming w3 = es @ rest" using ds(3) unfolding bs by simp
      have "\<exists>w'. ReadExact E dl len (got @ ds) w3 = Some (Some ((got @ ds) @ es), w') \<and> incoming w' = rest"
      proof (rule less.hyps)
        show "len - length (got @ ds) + stalls w3 < len - length got + stalls w"
          using ds n w2 by (cases ds) auto
      qed (use less.prems(3) bs w3 in simp_all)
      then show ?thesis unfolding unfold_loop using n(2) w2(1) RecvBytes ds(1) bs by simp
    qed
  qed
qed

lemma ReadExact_carries:
  assumes "carries E incoming stalls" "incoming w = bs @ rest" "length bs = len"
  obtains w' where "ReadExact E dl len [] w = Some (Some bs, w')" "incoming w' = rest"
  using ReadExact_carries_loop [OF assms(1), of "[]" len w bs rest dl] assms(2,3) by auto

lemma WriteExact_carries:
  assumes "carries E incoming stalls"
  shows "\<exists>ok w'. WriteExact E dl buf w = Some (ok, w') \<and> incoming w' = incoming w"
proof (induction "length buf + stalls w" arbitrary: buf w rule: less_induct)
  case less
  obtain wait w1 where r: "RemainingMs E dl w = (wait, w1)" by fastforce
  obtain ready w2 where p: "s_poll_out E wait w1 = (ready, w2)" by fastforce
  obtain out w3 where v: "s_send E buf w2 = (out, w3)" by fastforce
  have w1: "incoming w1 = incoming w" "stalls w1 \<le> stalls w" using carries_Remaining [OF assms, of dl w] r by simp_all
  have "incoming (snd (s_poll_out E wait w1)) = incoming w1" "stalls (snd (s_poll_out E wait w1)) \<le> stalls w1"
    using assms by (simp_all add: carries_def)
  then have w2: "incoming w2 = incoming w" "stalls w2 \<le> stalls w" using w1 p by simp_all
  have "incoming (snd (s_send E buf w2)) = incoming w2" "stalls (snd (s_send E buf w2)) \<le> stalls w2"
    "fst (s_send E buf w2) = SendAgain \<Longrightarrow> stalls (snd (s_send E buf w2)) < stalls w2"
    using assms by (simp_all add: carries_def split: if_splits) (meson less_imp_le)
  then have w3: "incoming w3 = incoming w" "stalls w3 \<le> stalls w2" "out = SendAgain \<Longrightarrow> stalls w3 < stalls w2"
    using w2 v by simp_all
  note unfold_loop = WriteExact.simps [of E dl buf w, unfolded r p v Let_def split]
  show ?case
  proof (cases "buf = [] \<or> \<not> ready")
    case True
    then show ?thesis unfolding unfold_loop using w2 by auto
  next
    case False
    show ?thesis
    proof (cases out)
      case SendAgain
      then have "\<exists>ok w'. WriteExact E dl buf w3 = Some (ok, w') \<and> incoming w' = incoming w3"
        using w2 w3 by (intro less.hyps) auto
      then show ?thesis unfolding unfold_loop using False SendAgain w3 by simp
    next
      case SendError
      then show ?thesis unfolding unfold_loop using False w3 by auto
    next
      case (SendOk n)
      have "\<exists>ok w'. WriteExact E dl (drop n buf) w3 = Some (ok, w') \<and> incoming w' = incoming w3" if "n \<noteq> 0"
        using that False w2 w3 by (intro less.hyps) (cases buf; auto)
      then show ?thesis unfolding unfold_loop using False SendOk w3 by (cases "n = 0") auto
    qed
  qed
qed

lemma reply_frame_carries:
  assumes "carries E incoming stalls"
  obtains w' where "reply_frame E dl opcode payload w = Some w'" "incoming w' = incoming w"
proof -
  obtain key w1 where k: "s_random E 4 w = (key, w1)" by fastforce
  have "incoming (snd (s_random E 4 w)) = incoming w" using assms by (simp add: carries_def)
  moreover obtain ok w' where "WriteExact E dl (BuildMaskedFrame opcode payload key) w1 = Some (ok, w')" "incoming w' = incoming w1"
    using WriteExact_carries [OF assms] by blast
  ultimately show thesis using that k by (simp add: reply_frame_def masked_frame_def)
qed

lemma read_length_complete:
  assumes car: "carries E incoming stalls" and fits: "length_fits form n"
    and second: "second AND 0x7F = length_code form n" and inc: "incoming w = length_ext form n @ rest"
  obtains w' where "read_length E dl second w = Some (Some n, w')" "incoming w' = rest"
proof (cases form)
  case Len7
  then show thesis using that [of w] fits second inc unat_length_code [OF fits] by (simp add: read_length_def)
next
  case Len16
  with inc have inc': "incoming w = be_bytes 2 n @ rest" by simp
  obtain w' where w': "ReadExact E dl 2 [] w = Some (Some (be_bytes 2 n), w')" "incoming w' = rest"
    by (rule ReadExact_carries [OF car inc']) simp_all
  have "be_value (be_bytes 2 n) = n" using fits Len16 by (simp add: be_value_be_bytes)
  with that w' second Len16 show thesis by (simp add: read_length_def)
next
  case Len64
  with inc have inc': "incoming w = be_bytes 8 n @ rest" by simp
  obtain w' where w': "ReadExact E dl 8 [] w = Some (Some (be_bytes 8 n), w')" "incoming w' = rest"
    by (rule ReadExact_carries [OF car inc']) simp_all
  have "be_value (be_bytes 8 n) = n" using fits Len64 by (simp add: be_value_be_bytes)
  with that w' second Len64 show thesis by (simp add: read_length_def)
qed

lemma read_body_complete:
  assumes car: "carries E incoming stalls" and key: "key = None \<longleftrightarrow> second AND 0x80 = 0"
      "case key of None \<Rightarrow> True | Some k \<Rightarrow> length k = 4"
    and inc: "incoming w = (case key of None \<Rightarrow> p | Some k \<Rightarrow> k @ apply_mask k p) @ rest"
    and op: "first AND 0x0F \<noteq> 0x8" and room: "acc_len + length p \<le> kMaxWebSocketMessageBytes"
  obtains w' where "read_body E dl acc_len first second (length p) w = Some (FrFrame (first AND 0x80 \<noteq> 0) (first AND 0x0F) p, w')"
    "incoming w' = rest"
proof (cases key)
  case None
  with inc have "incoming w = p @ rest" by simp
  then obtain w' where "ReadExact E dl (length p) [] w = Some (Some p, w')" "incoming w' = rest"
    by (rule ReadExact_carries [OF car]) simp
  then show thesis using that None key op room by (simp add: read_body_def read_payload_def)
next
  case (Some k)
  with inc have "incoming w = k @ apply_mask k p @ rest" by simp
  then obtain w1 where w1: "ReadExact E dl 4 [] w = Some (Some k, w1)" "incoming w1 = apply_mask k p @ rest"
    by (rule ReadExact_carries [OF car]) (use key Some in simp)
  obtain w' where "ReadExact E dl (length p) [] w1 = Some (Some (apply_mask k p), w')" "incoming w' = rest"
    by (rule ReadExact_carries [OF car w1(2)]) simp
  then show thesis using that w1 Some key op room by (simp add: read_body_def read_payload_def)
qed

lemma read_frame_complete:
  assumes car: "carries E incoming stalls" and ok: "frame_ok f" and inc: "incoming w = wire_bytes f @ rest"
    and room: "acc_len + length (wf_payload f) \<le> kMaxWebSocketMessageBytes"
  obtains w' where "read_frame E dl acc_len w = Some (FrFrame (wf_fin f) (wf_opcode f) (wf_payload f), w')" "incoming w' = rest"
proof -
  let ?n = "length (wf_payload f)"
  let ?second = "(if wf_key f = None then 0 else 0x80) OR length_code (wf_form f) ?n"
  let ?tail = "(case wf_key f of None \<Rightarrow> wf_payload f | Some k \<Rightarrow> k @ apply_mask k (wf_payload f))"
  have inc0: "incoming w = [wf_first f] @ [?second] @ length_ext (wf_form f) ?n @ ?tail @ rest"
    using inc by (simp add: wire_bytes_def Let_def)
  have fits: "length_fits (wf_form f) ?n" using ok by (simp add: frame_ok_def)
  note fields = second_byte_fields [OF length_code_bit7 [OF fits]]
  obtain w1 where w1: "ReadExact E dl 1 [] w = Some (Some [wf_first f], w1)"
      "incoming w1 = [?second] @ length_ext (wf_form f) ?n @ ?tail @ rest"
    by (rule ReadExact_carries [OF car inc0, of 1 dl]) (simp, blast)
  obtain w2 where w2: "ReadExact E dl 1 [] w1 = Some (Some [?second], w2)" "incoming w2 = length_ext (wf_form f) ?n @ ?tail @ rest"
    by (rule ReadExact_carries [OF car w1(2), of 1 dl]) (simp, blast)
  have s7: "?second AND 0x7F = length_code (wf_form f) ?n" using fields by simp
  obtain w3 where w3: "read_length E dl ?second w2 = Some (Some ?n, w3)" "incoming w3 = ?tail @ rest"
    by (rule read_length_complete [OF car fits s7 w2(2)])
  have key: "wf_key f = None \<longleftrightarrow> ?second AND 0x80 = 0" using fields by auto
  have key4: "case wf_key f of None \<Rightarrow> True | Some k \<Rightarrow> length k = 4" using ok by (simp add: frame_ok_def)
  have op: "wf_opcode f \<noteq> 0x8" "known_opcode (wf_opcode f)" using ok by (auto simp: frame_ok_def known_opcode_def)
  obtain w4 where "read_body E dl acc_len (wf_first f) ?second ?n w3 = Some (FrFrame (wf_fin f) (wf_opcode f) (wf_payload f), w4)"
      "incoming w4 = rest"
    by (rule read_body_complete [OF car key key4 w3(2) op(1) room])
  with that w1(1) w2(1) w3(1) op(2) show thesis by (simp add: read_frame_def)
qed

text \<open>
  A network that takes what is written: \<open>sent w\<close> is what it has taken so far. The poll reports it ready, a send takes
  a non-empty part or asks to try again, and the random device answers with as many bytes as are asked for.
\<close>

definition takes_writes :: "'w socket_env \<Rightarrow> ('w \<Rightarrow> u8 list) \<Rightarrow> bool" where
  "takes_writes E sent \<longleftrightarrow>
     (\<forall>w. sent (snd (s_now E w)) = sent w) \<and>
     (\<forall>n w. sent (snd (s_random E n w)) = sent w \<and> length (fst (s_random E n w)) = n) \<and>
     (\<forall>t w. sent (snd (s_poll_in E t w)) = sent w) \<and>
     (\<forall>t w. fst (s_poll_out E t w) \<and> sent (snd (s_poll_out E t w)) = sent w) \<and>
     (\<forall>n w. sent (snd (s_recv E n w)) = sent w) \<and>
     (\<forall>bs w. bs \<noteq> [] \<longrightarrow>
        (case s_send E bs w of
           (SendAgain, w') \<Rightarrow> sent w' = sent w
         | (SendError, w') \<Rightarrow> False
         | (SendOk n, w') \<Rightarrow> 0 < n \<and> n \<le> length bs \<and> sent w' = sent w @ take n bs))"

lemma takes_writes_frame:
  assumes "takes_writes E sent"
  shows "sent (snd (s_now E w)) = sent w" "sent (snd (s_random E n w)) = sent w" "length (fst (s_random E n w)) = n"
    "sent (snd (s_poll_in E t w)) = sent w" "sent (snd (s_recv E n w)) = sent w" "sent (snd (RemainingMs E t w)) = sent w"
    "fst (s_poll_out E t w)" "sent (snd (s_poll_out E t w)) = sent w"
  using assms by (simp_all add: takes_writes_def RemainingMs_def Let_def case_prod_beta)

lemma WriteExact_sends:
  assumes "WriteExact E dl buf w = Some y"
  shows "takes_writes E sent \<Longrightarrow> sent (snd y) = sent w @ buf"
proof -
  have "takes_writes E sent \<longrightarrow> sent (snd y) = sent w @ buf"
  proof (rule WriteExact.raw_induct [where P = "\<lambda>E dl buf w y. takes_writes E sent \<longrightarrow> sent (snd y) = sent w @ buf",
        OF _ assms], goal_cases)
    case step: (1 f E dl buf w y)
    show ?case
    proof
      assume tk: "takes_writes E sent"
      have IH: "sent (snd y) = sent w' @ buf'" if "f E dl buf' w' = Some y" for buf' w'
        using step(1) [OF that] tk by blast
      obtain wait w1 where r: "RemainingMs E dl w = (wait, w1)" by fastforce
      obtain ready w2 where p: "s_poll_out E wait w1 = (ready, w2)" by fastforce
      obtain out w3 where v: "s_send E buf w2 = (out, w3)" by fastforce
      have w2: "ready" "sent w2 = sent w"
        using takes_writes_frame(6) [OF tk, of dl w] takes_writes_frame(7,8) [OF tk, of wait w1] r p by simp_all
      have send: "buf \<noteq> [] \<Longrightarrow> (case s_send E buf w2 of
           (SendAgain, w') \<Rightarrow> sent w' = sent w2
         | (SendError, w') \<Rightarrow> False
         | (SendOk n, w') \<Rightarrow> 0 < n \<and> n \<le> length buf \<and> sent w' = sent w2 @ take n buf)"
        using tk unfolding takes_writes_def by (elim conjE) simp
      show "sent (snd y) = sent w @ buf"
        using step(2) [unfolded r p v Let_def split] send [unfolded v split] IH w2
        by (cases out) (auto split: if_splits)
    qed
  qed
  then show "takes_writes E sent \<Longrightarrow> sent (snd y) = sent w @ buf" by blast
qed

lemma ReadExact_sends_nothing:
  assumes "ReadExact E dl len got w = Some y"
  shows "takes_writes E sent \<Longrightarrow> sent (snd y) = sent w"
proof -
  have "takes_writes E sent \<longrightarrow> sent (snd y) = sent w"
  proof (rule ReadExact.raw_induct [where P = "\<lambda>E dl len got w y. takes_writes E sent \<longrightarrow> sent (snd y) = sent w",
        OF _ assms], goal_cases)
    case step: (1 f E dl len got w y)
    show ?case
    proof
      assume tk: "takes_writes E sent"
      have IH: "sent (snd y) = sent w'" if "f E dl len got' w' = Some y" for got' w'
        using step(1) [OF that] tk by blast
      obtain wait w1 where r: "RemainingMs E dl w = (wait, w1)" by fastforce
      obtain ready w2 where p: "s_poll_in E wait w1 = (ready, w2)" by fastforce
      obtain out w3 where v: "s_recv E (len - length got) w2 = (out, w3)" by fastforce
      have "sent w2 = sent w" "sent w3 = sent w"
        using takes_writes_frame(6) [OF tk, of dl w] takes_writes_frame(4) [OF tk, of wait w1]
          takes_writes_frame(5) [OF tk, of "len - length got" w2] r p v by simp_all
      then show "sent (snd y) = sent w"
        using step(2) [unfolded r p v Let_def split] IH by (cases out) (auto split: if_splits)
    qed
  qed
  then show "takes_writes E sent \<Longrightarrow> sent (snd y) = sent w" by blast
qed

lemma read_frame_sends_nothing:
  assumes tk: "takes_writes E sent" and run: "read_frame E dl n w = Some (r, w')"
  shows "sent w' = sent w"
proof -
  note ex = ReadExact_sends_nothing [OF _ tk]
  have len: "sent v' = sent v" if "read_length E dl b v = Some (l, v')" for b v l v'
    using that by (auto simp: read_length_def Let_def split: bind_splits if_splits dest!: ex)
  have payload: "sent v' = sent v" if "read_payload E dl l k v = Some (p, v')" for l k v p v'
    using that by (auto simp: read_payload_def split: bind_splits dest!: ex)
  have body: "sent v' = sent v" if "read_body E dl n b c l v = Some (p, v')" for b c l v p v'
    using that by (auto simp: read_body_def split: bind_splits if_splits option.splits dest!: ex payload)
  show ?thesis
    using run by (auto simp: read_frame_def split: bind_splits if_splits option.splits dest!: ex len body)
qed

lemma reply_frame_sends:
  assumes "takes_writes E sent" "reply_frame E dl opcode payload w = Some w'"
  shows "\<exists>key. length key = 4 \<and> sent w' = sent w @ BuildMaskedFrame opcode payload key"
proof -
  obtain key w1 where k: "s_random E 4 w = (key, w1)" by fastforce
  then obtain ok where "WriteExact E dl (BuildMaskedFrame opcode payload key) w1 = Some (ok, w')"
    using assms(2) by (auto simp: reply_frame_def masked_frame_def split: bind_splits)
  from WriteExact_sends [OF this assms(1)] show ?thesis
    using takes_writes_frame(2,3) [OF assms(1), of 4 w] k by auto
qed

text \<open>
  The size a message may have: at each frame, what has been collected of the message so far and that frame's own
  payload, a control frame's too, are at most the 1 MiB the client accepts.
\<close>

fun within_limit :: "nat \<Rightarrow> wire_frame list \<Rightarrow> bool" where
  "within_limit collected [] = True"
| "within_limit collected (f # fs) =
     (collected + length (wf_payload f) \<le> kMaxWebSocketMessageBytes \<and>
      within_limit (if wf_data f then collected + length (wf_payload f) else collected) fs)"

text \<open>The pings among the frames, and the PONGs that answer them, each under a key of its own.\<close>

definition pings :: "wire_frame list \<Rightarrow> wire_frame list" where
  "pings fs = filter (\<lambda>f. wf_opcode f = 0x9) fs"

definition pongs :: "wire_frame list \<Rightarrow> u8 list list \<Rightarrow> u8 list" where
  "pongs fs keys = concat (map2 (\<lambda>f key. BuildMaskedFrame 0xA (wf_payload f) key) (pings fs) keys)"

definition answered :: "('w \<Rightarrow> u8 list) \<Rightarrow> wire_frame list \<Rightarrow> 'w \<Rightarrow> 'w \<Rightarrow> bool" where
  "answered sent fs w w' \<longleftrightarrow>
     (\<exists>keys. length keys = length (pings fs) \<and> (\<forall>key \<in> set keys. length key = 4) \<and> sent w' = sent w @ pongs fs keys)"

lemma answered_simps:
  "sent w' = sent w \<Longrightarrow> answered sent [] w w'"
  "wf_opcode f \<noteq> 0x9 \<Longrightarrow> answered sent (f # fs) w w' \<longleftrightarrow> answered sent fs w w'"
  by (simp_all add: answered_def pings_def pongs_def)

lemma answered_ping:
  assumes "wf_opcode f = 0x9" "length key = 4" "sent w1 = sent w @ BuildMaskedFrame 0xA (wf_payload f) key" "answered sent fs w1 w'"
  shows "answered sent (f # fs) w w'"
proof -
  obtain keys where "length keys = length (pings fs)" "\<forall>k \<in> set keys. length k = 4" "sent w' = sent w1 @ pongs fs keys"
    using assms(4) by (auto simp: answered_def)
  then show ?thesis
    using assms(1-3) unfolding answered_def by (intro exI [of _ "key # keys"]) (simp add: pings_def pongs_def)
qed

lemma answered_start: "sent w1 = sent w \<Longrightarrow> answered sent fs w1 w' \<longleftrightarrow> answered sent fs w w'"
  by (simp add: answered_def)

lemma receive_loop_complete:
  assumes car: "carries E incoming stalls" and tk: "takes_writes E sent"
  shows "complete_message fs \<Longrightarrow> list_all frame_ok fs \<Longrightarrow> incoming (ws_world s) = concat (map wire_bytes fs) @ rest \<Longrightarrow>
    within_limit (length acc) fs \<Longrightarrow>
    \<exists>w'. receive_loop E dl acc s = Some (Some (acc @ message_of fs), s\<lparr>ws_world := w'\<rparr>) \<and> incoming w' = rest \<and>
      answered sent fs (ws_world s) w'"
proof (induction fs arbitrary: acc s)
  case Nil
  then show ?case by (simp add: complete_message_def)
next
  case (Cons f fs)
  let ?rest = "concat (map wire_bytes fs) @ rest"
  have ok: "frame_ok f" and room: "length acc + length (wf_payload f) \<le> kMaxWebSocketMessageBytes"
    using Cons.prems(2,4) by simp_all
  have inc: "incoming (ws_world s) = wire_bytes f @ ?rest" using Cons.prems(3) by simp
  obtain w where rf: "read_frame E dl (length acc) (ws_world s) = Some (FrFrame (wf_fin f) (wf_opcode f) (wf_payload f), w)"
      "incoming w = ?rest"
    by (rule read_frame_complete [OF car ok inc room])
  note unfold_loop = receive_loop.simps [of E dl acc s, unfolded rf(1) bind.simps(2) split frame_read.case]
  have quiet: "sent w = sent (ws_world s)" by (rule read_frame_sends_nothing [OF tk rf(1)])
  consider (last) "fs = []" "wf_data f" "wf_fin f" | (more) "complete_message fs" "\<not> (wf_data f \<and> wf_fin f)"
    using Cons.prems(1) by (cases "fs = []") (auto simp: complete_message_def)
  then show ?case
  proof cases
    case last
    then have "wf_opcode f \<noteq> 0x9" "wf_opcode f \<noteq> 0xA" by auto
    with last rf(2) quiet show ?thesis unfolding unfold_loop by (auto simp: answered_simps)
  next
    case more
    have IH: "\<exists>w'. receive_loop E dl acc' (s\<lparr>ws_world := w1\<rparr>) = Some (Some (acc' @ message_of fs), s\<lparr>ws_world := w'\<rparr>) \<and>
        incoming w' = rest \<and> answered sent fs w1 w'"
      if "incoming w1 = ?rest" "within_limit (length acc') fs" for acc' w1
      using Cons.IH [of "s\<lparr>ws_world := w1\<rparr>" acc'] more(1) Cons.prems(2) that by auto
    have "wf_opcode f \<in> {0x0, 0x1, 0x9, 0xA}" using ok by (simp add: frame_ok_def)
    then consider "wf_opcode f = 0x9" | "wf_opcode f = 0xA" | (data) "wf_data f" by auto
    then show ?thesis
    proof cases
      case 1
      obtain w1 where w1: "reply_frame E dl 0xA (wf_payload f) w = Some w1" "incoming w1 = incoming w"
        by (rule reply_frame_carries [OF car])
      obtain key where "length key = 4" "sent w1 = sent (ws_world s) @ BuildMaskedFrame 0xA (wf_payload f) key"
        using reply_frame_sends [OF tk w1(1)] quiet by auto
      then have "answered sent (f # fs) (ws_world s) w'" if "answered sent fs w1 w'" for w'
        using answered_ping [of f key sent w1 "ws_world s" fs w'] 1 that by blast
      then show ?thesis unfolding unfold_loop using 1 rf(2) w1 IH [of w1 acc] Cons.prems(4) by auto
    next
      case 2
      then have "answered sent (f # fs) (ws_world s) w' \<longleftrightarrow> answered sent fs w w'" for w'
        using quiet by (simp add: answered_simps answered_start [of sent w "ws_world s"])
      then show ?thesis unfolding unfold_loop using 2 IH [OF rf(2), of acc] Cons.prems(4) by simp
    next
      case data
      then have op: "wf_opcode f \<noteq> 0x9" "wf_opcode f \<noteq> 0xA" by auto
      then have "answered sent (f # fs) (ws_world s) w' \<longleftrightarrow> answered sent fs w w'" for w'
        using quiet by (simp add: answered_simps answered_start [of sent w "ws_world s"])
      with op data more(2) show ?thesis unfolding unfold_loop
        using IH [OF rf(2), of "acc @ wf_payload f"] Cons.prems(4) by simp
    qed
  qed
qed

text \<open>
  C37: A well-formed message within the size limit gets through. On an open connection, let a message arrive, in any
  number of frames, with any length forms and masks, with pings and pongs in between, in any pieces the
  network delivers it in, with retries; at each frame what has been collected and that frame's payload,
  a ping's too, come to at most 1 MiB. Whenever the client waits for more of it some more is there, and
  the network takes what is written. Then the receive returns exactly the message, consumes exactly its
  frames and leaves the connection open, and what it has written meanwhile is, in order, one PONG for each
  ping, with the ping's payload. The frames the client itself builds are of this kind, so two ends that
  use this code understand each other.
\<close>

theorem ReceiveText_complete:
  assumes "carries E incoming stalls" "takes_writes E sent" "curl s" "s_active E (ws_world s)"
    and "complete_message fs" "list_all frame_ok fs" "within_limit 0 fs"
    and "incoming (ws_world s) = concat (map wire_bytes fs) @ rest"
  shows "\<exists>w' keys. Ws_ReceiveText E timeout_ms s = Some (Some (string_of (message_of fs)), s\<lparr>ws_world := w'\<rparr>) \<and>
     incoming w' = rest \<and>
     length keys = length (pings fs) \<and> (\<forall>key \<in> set keys. length key = 4) \<and>
     sent w' = sent (ws_world s) @ concat (map2 (\<lambda>f key. BuildMaskedFrame 0xA (wf_payload f) key) (pings fs) keys) \<and>
     (length k = 4 \<and> length payload \<le> 1048576 \<longrightarrow>
        (\<exists>f. frame_ok f \<and> complete_message [f] \<and> message_of [f] = payload \<and> wire_bytes f = BuildMaskedFrame 0x1 payload k))"
proof -
  obtain now w where now: "s_now E (ws_world s) = (now, w)" by fastforce
  have "incoming (snd (s_now E (ws_world s))) = incoming (ws_world s)" using assms(1) by (simp add: carries_def)
  then have "incoming (ws_world (s\<lparr>ws_world := w\<rparr>)) = concat (map wire_bytes fs) @ rest" using now assms(8) by simp
  from receive_loop_complete [OF assms(1,2,5,6) this, of "[]" "now + timeout_ms"] assms(7) obtain w' where
    w': "receive_loop E (now + timeout_ms) [] (s\<lparr>ws_world := w\<rparr>) = Some (Some (message_of fs), s\<lparr>ws_world := w'\<rparr>)"
      "incoming w' = rest" "answered sent fs w w'"
    by auto
  have "sent w = sent (ws_world s)" using takes_writes_frame(1) [OF assms(2), of "ws_world s"] now by simp
  with w'(3) have "answered sent fs (ws_world s) w'" using answered_start [of sent w "ws_world s" fs w'] by blast
  then obtain keys where keys: "length keys = length (pings fs)" "\<forall>key \<in> set keys. length key = 4"
      "sent w' = sent (ws_world s) @ concat (map2 (\<lambda>f key. BuildMaskedFrame 0xA (wf_payload f) key) (pings fs) keys)"
    by (auto simp: answered_def pongs_def)
  have run: "Ws_ReceiveText E timeout_ms s = Some (Some (string_of (message_of fs)), s\<lparr>ws_world := w'\<rparr>)"
    using w'(1) now assms(3,4) by (simp add: Ws_ReceiveText_def)
  have "\<exists>f. frame_ok f \<and> complete_message [f] \<and> message_of [f] = payload \<and> wire_bytes f = BuildMaskedFrame 0x1 payload k"
    if "length k = 4" "length payload \<le> 1048576"
  proof -
    let ?f = "\<lparr>wf_first = 0x81, wf_form = shortest_form (length payload), wf_key = Some k, wf_payload = payload\<rparr>"
    have "(0x80 OR 0x1 :: u8) = 0x81" "(0x81 :: u8) AND 0x0F = 0x1" "(0x81 :: u8) AND 0x80 \<noteq> 0" by simp_all
    moreover have "length_fits (shortest_form (length payload)) (length payload)"
      using that(2) by (simp add: shortest_form_def)
    ultimately have "frame_ok ?f" "complete_message [?f]" "message_of [?f] = payload" "wire_bytes ?f = BuildMaskedFrame 0x1 payload k"
      using that by (simp_all add: frame_ok_def complete_message_def BuildMaskedFrame_wire)
    then show ?thesis by blast
  qed
  with run w'(2) keys show ?thesis by blast
qed

text \<open>A network that delivers one byte per receive; the world is what is still to come.\<close>

definition sample_socket :: "u8 list socket_env" where
  "sample_socket =
     \<lparr>s_now = \<lambda>w. (0, w), s_poll_in = \<lambda>t w. (w \<noteq> [], w), s_poll_out = \<lambda>t w. (True, w),
      s_recv = \<lambda>n w. if w = [] then (RecvError, w) else (RecvBytes (take 1 w), drop 1 w),
      s_send = \<lambda>bs w. (SendOk (length bs), w), s_random = \<lambda>n w. (replicate n 7, w),
      s_open = \<lambda>url w. (True, w), s_active = \<lambda>w. True, s_peek = \<lambda>w. PeekData, s_cleanup = \<lambda>w. w\<rparr>"

lemma sample_socket_carries: "carries sample_socket (\<lambda>w. w) (\<lambda>w. 0)"
  by (auto simp: carries_def sample_socket_def split: list.splits)

definition sample_frames :: "wire_frame list" where
  "sample_frames =
     [\<lparr>wf_first = 0x01, wf_form = Len16, wf_key = None, wf_payload = [104]\<rparr>,
      \<lparr>wf_first = 0x89, wf_form = Len7, wf_key = None, wf_payload = [1, 2]\<rparr>,
      \<lparr>wf_first = 0x80, wf_form = Len7, wf_key = Some [1, 2, 3, 4], wf_payload = [105]\<rparr>]"

lemma sample_frames_ok:
  "complete_message sample_frames" "list_all frame_ok sample_frames" "message_of sample_frames = [104, 105]"
  by (simp_all add: sample_frames_def complete_message_def frame_ok_def)

text \<open>The same network, remembering what was written to it.\<close>

definition sample_link :: "(u8 list \<times> u8 list) socket_env" where
  "sample_link =
     \<lparr>s_now = \<lambda>w. (0, w), s_poll_in = \<lambda>t w. (fst w \<noteq> [], w), s_poll_out = \<lambda>t w. (True, w),
      s_recv = \<lambda>n w. if fst w = [] then (RecvError, w) else (RecvBytes (take 1 (fst w)), (drop 1 (fst w), snd w)),
      s_send = \<lambda>bs w. (SendOk 1, (fst w, snd w @ take 1 bs)), s_random = \<lambda>n w. (replicate n 7, w),
      s_open = \<lambda>url w. (True, w), s_active = \<lambda>w. True, s_peek = \<lambda>w. PeekData, s_cleanup = \<lambda>w. w\<rparr>"

lemma sample_link_ok: "carries sample_link fst (\<lambda>w. 0)" "takes_writes sample_link snd"
  by (auto simp: carries_def takes_writes_def sample_link_def Suc_le_eq split: list.splits)

theorem ReceiveText_complete_witness:
  "\<exists>s' key. Ws_ReceiveText sample_link 100 \<lparr>curl = True, closed = False, ws_world = (concat (map wire_bytes sample_frames), [])\<rparr> =
     Some (Some ''hi'', s') \<and> ws_world s' = ([], BuildMaskedFrame 0xA [1, 2] key)"
proof -
  let ?s = "\<lparr>curl = True, closed = False, ws_world = (concat (map wire_bytes sample_frames), [])\<rparr>"
  have limit: "within_limit 0 sample_frames" by (simp add: sample_frames_def kMaxWebSocketMessageBytes_def)
  have active: "curl ?s" "s_active sample_link (ws_world ?s)" by (simp_all add: sample_link_def)
  have inc: "fst (ws_world ?s) = concat (map wire_bytes sample_frames) @ []" by simp
  have ps: "map wf_payload (pings sample_frames) = [[1, 2]]" by (simp add: pings_def sample_frames_def)
  from ReceiveText_complete [OF sample_link_ok active sample_frames_ok(1,2) limit inc, of 100 "[]" "[]"] obtain w' keys where
    w': "Ws_ReceiveText sample_link 100 ?s = Some (Some (string_of (message_of sample_frames)), ?s\<lparr>ws_world := w'\<rparr>)" "fst w' = []"
      "length keys = length (pings sample_frames)"
      "snd w' = snd (ws_world ?s) @ concat (map2 (\<lambda>f key. BuildMaskedFrame 0xA (wf_payload f) key) (pings sample_frames) keys)"
    by blast
  obtain p where p: "pings sample_frames = [p]" "wf_payload p = [1, 2]" using ps by (cases "pings sample_frames") auto
  obtain key where "keys = [key]" using w'(3) p by (cases keys) auto
  then have "w' = ([], BuildMaskedFrame 0xA [1, 2] key)" using w'(2,4) p by (simp add: prod_eq_iff)
  moreover have "string_of [104, 105] = ''hi''" by code_simp
  ultimately have "Ws_ReceiveText sample_link 100 ?s = Some (Some ''hi'', ?s\<lparr>ws_world := ([], BuildMaskedFrame 0xA [1, 2] key)\<rparr>)"
    using w'(1) unfolding sample_frames_ok(3) by simp
  then show ?thesis by (intro exI [of _ "?s\<lparr>ws_world := ([], BuildMaskedFrame 0xA [1, 2] key)\<rparr>"] exI [of _ key]) simp
qed

text \<open>The same network with a tape of what was taken from it.\<close>

definition sample_tape :: "(u8 list \<times> u8 list) socket_env" where
  "sample_tape =
     \<lparr>s_now = \<lambda>w. (0, w), s_poll_in = \<lambda>t w. (snd w \<noteq> [], w), s_poll_out = \<lambda>t w. (True, w),
      s_recv = \<lambda>n w. if n = 0 \<or> snd w = [] then (RecvError, w) else (RecvBytes (take 1 (snd w)), (fst w @ take 1 (snd w), drop 1 (snd w))),
      s_send = \<lambda>bs w. (SendOk (length bs), w), s_random = \<lambda>n w. (replicate n 7, w),
      s_open = \<lambda>url w. (True, w), s_active = \<lambda>w. True, s_peek = \<lambda>w. PeekData, s_cleanup = \<lambda>w. w\<rparr>"

lemma sample_tape_observes: "observes sample_tape fst"
  by (auto simp: observes_def sample_tape_def)

lemma sample_tape_idle:
  "Ws_ReceiveText sample_tape 0 \<lparr>curl = True, closed = False, ws_world = ([1], [])\<rparr> =
     Some (None, \<lparr>curl = True, closed = False, ws_world = ([1], [])\<rparr>)"
proof -
  have "ReadExact sample_tape 0 1 [] ([1], []) = Some (None, ([1], []))"
    by (subst ReadExact.simps) (simp add: sample_tape_def RemainingMs_def)
  then have "read_frame sample_tape 0 0 ([1], []) = Some (FrNone, ([1], []))"
    unfolding read_frame_def by simp
  then show ?thesis
    unfolding Ws_ReceiveText_def by (subst receive_loop.simps) (simp add: sample_tape_def)
qed


end
