(* ===== verification/Ws_Handshake.thy ===== *)
theory Ws_Handshake
  imports Ws_Frames
begin

text \<open>
  What the upgrade handshake of websocket_client.cpp checks: header lookup on well-formed header
  blocks, and the conditions under which Connect reports an open connection.
\<close>

section \<open>Header lookup\<close>

text \<open>A header is its name and all that follows the colon, blanks before the value included.\<close>

definition header_line :: "string \<times> string \<Rightarrow> string" where
  "header_line h = fst h @ '':'' @ snd h @ crlf"

definition header_text :: "string \<Rightarrow> (string \<times> string) list \<Rightarrow> string" where
  "header_text status hs = status @ crlf @ concat (map header_line hs) @ crlf"

definition header_ok :: "string \<times> string \<Rightarrow> bool" where
  "header_ok h \<longleftrightarrow>
     CHR '':'' \<notin> set (fst h) \<and> CHR 0x0D \<notin> set (fst h) \<union> set (snd h)"

definition after_blanks :: "string \<Rightarrow> string" where
  "after_blanks v = dropWhile (\<lambda>c. c = CHR '' '') v"

lemma find_at_crlf: "CHR 0x0D \<notin> set l \<Longrightarrow> find_at crlf (l @ crlf @ rest) i = Some (i + length l)"
  by (induction l arbitrary: i) auto

lemma find_from_crlf:
  "CHR 0x0D \<notin> set l \<Longrightarrow> find_from crlf (pre @ l @ crlf @ rest) (length pre) = Some (length pre + length l)"
  using find_at_crlf [of l rest "length pre"] by (simp add: find_from_def)

lemma find_header_line:
  assumes "CHR 0x0D \<notin> set l"
  shows "find_header_loop (pre @ l @ crlf @ rest) name (length pre) =
    (case header_line_value l name of
       Some v \<Rightarrow> Some v
     | None \<Rightarrow> find_header_loop (pre @ l @ crlf @ rest) name (length (pre @ l @ crlf)))"
  by (subst find_header_loop.simps) (simp add: find_from_crlf [OF assms, of pre rest, simplified] split: option.split)

lemma find_header_end: "find_header_loop s name (length s) = None"
  by (subst find_header_loop.simps) simp

lemma header_line_value_line:
  assumes "header_ok (n, v)"
  shows "header_line_value (n @ '':'' @ v) name = (if ignore_case_eq name n then Some (after_blanks v) else None)"
proof -
  have colon: "find_char CHR '':'' (n @ '':'' @ v) = Some (length n)"
    using assms find_char_append [of "CHR '':''" n v] by (simp add: header_ok_def)
  have len: "ignore_case_eq name n \<Longrightarrow> length n = length name"
    unfolding ignore_case_eq_def by (metis length_map)
  have "dropWhile (\<lambda>c. c = CHR '' '') (drop (length n + 1) (n @ '':'' @ v)) = after_blanks v"
    by (simp add: after_blanks_def)
  then show ?thesis using colon len by (auto simp: header_line_value_def)
qed

text \<open>A line without a colon (the status line and the blank one) is never a header.\<close>

lemma header_line_value_no_colon: "CHR '':'' \<notin> set l \<Longrightarrow> header_line_value l name = None"
  by (simp add: header_line_value_def find_char_None [THEN iffD2])

lemma find_header_lines:
  assumes "list_all header_ok hs"
  shows "find_header_loop (pre @ concat (map header_line hs) @ crlf) name (length pre) =
    map_option (\<lambda>h. after_blanks (snd h)) (find (\<lambda>h. ignore_case_eq name (fst h)) hs)"
  using assms
proof (induction hs arbitrary: pre)
  case Nil
  have "find_header_loop (pre @ [] @ crlf @ []) name (length pre) = find_header_loop (pre @ [] @ crlf @ []) name (length (pre @ [] @ crlf))"
    using find_header_line [of "[]" pre "[]" name] by (simp add: header_line_value_no_colon)
  then show ?case using find_header_end [of "pre @ crlf" name] by simp
next
  case (Cons h hs)
  obtain n v where h: "h = (n, v)" by fastforce
  have ok: "header_ok (n, v)" using Cons.prems h by simp
  let ?l = "n @ '':'' @ v" and ?rest = "concat (map header_line hs) @ crlf"
  have "CHR 0x0D \<notin> set ?l" using ok by (auto simp: header_ok_def)
  from find_header_line [OF this, of pre ?rest name]
  have "find_header_loop (pre @ ?l @ crlf @ ?rest) name (length pre) =
      (if ignore_case_eq name n then Some (after_blanks v) else find_header_loop ((pre @ ?l @ crlf) @ ?rest) name (length (pre @ ?l @ crlf)))"
    unfolding header_line_value_line [OF ok] by (cases "ignore_case_eq name n") simp_all
  moreover have "pre @ concat (map header_line (h # hs)) @ crlf = pre @ ?l @ crlf @ ?rest"
    by (simp add: h header_line_def [of "(n, v)"])
  ultimately show ?case
    using Cons.IH [of "pre @ ?l @ crlf"] Cons.prems h by (cases "ignore_case_eq name n") simp_all
qed

definition header_value :: "(string \<times> string) list \<Rightarrow> string \<Rightarrow> string option" where
  "header_value hs name = map_option (\<lambda>h. after_blanks (snd h)) (find (\<lambda>h. ignore_case_eq name (fst h)) hs)"

text \<open>
  Header lookup on a well-formed response is the case-insensitive lookup of the first header of that
  name: the status line never matches, nor does a header whose name merely extends the one asked for.
\<close>

lemma FindHeaderValue_header_text:
  assumes "list_all header_ok hs" "CHR 0x0D \<notin> set status" "CHR '':'' \<notin> set status"
  shows "FindHeaderValue (header_text status hs) name = header_value hs name"
proof -
  let ?rest = "concat (map header_line hs) @ crlf"
  have "find_header_loop ([] @ status @ crlf @ ?rest) name (length []) = find_header_loop ((status @ crlf) @ ?rest) name (length (status @ crlf))"
    using find_header_line [OF assms(2), of "[]" ?rest name] by (simp add: header_line_value_no_colon [OF assms(3)])
  then show ?thesis
    using find_header_lines [OF assms(1), of "status @ crlf" name]
    by (simp add: FindHeaderValue_def header_text_def header_value_def)
qed

section \<open>Reading the response\<close>

lemma has_infix_append: "has_infix x s \<Longrightarrow> has_infix x (s @ t)"
proof (induction s)
  case Nil
  then show ?case by (cases t) simp_all
next
  case (Cons d s)
  show ?case
  proof (cases "has_infix x s")
    case False
    then have "take (length x) (d # s) = x" using Cons.prems by simp
    then have "length x \<le> length (d # s)" by (metis length_take min.cobounded1)
    with \<open>take (length x) (d # s) = x\<close> have "take (length x) ((d # s) @ t) = x" unfolding take_append by simp
    then show ?thesis by simp
  qed (use Cons.IH in simp)
qed

text \<open>
  The loop reads one byte at a time, so the text it returns ends with the first blank line and nothing
  past it has been taken from the connection.
\<close>

definition response_read :: "('w \<Rightarrow> u8 list) \<Rightarrow> string \<Rightarrow> 'w \<Rightarrow> string option \<times> 'w \<Rightarrow> bool" where
  "response_read consumed start w y \<longleftrightarrow>
     (case y of
        (None, w') \<Rightarrow> True
      | (Some r, w') \<Rightarrow>
          length r \<le> kMaxHandshakeResponseBytes \<and> has_infix (crlf @ crlf) r \<and> (r = start \<or> \<not> has_infix (crlf @ crlf) (butlast r)) \<and>
          (\<exists>d. r = start @ string_of d \<and> consumed w' = consumed w @ d))"

lemma read_response_sound:
  assumes "read_response E dl start w = Some y"
  shows "observes E consumed \<Longrightarrow> length start \<le> kMaxHandshakeResponseBytes \<Longrightarrow> response_read consumed start w y"
proof -
  have "observes E consumed \<longrightarrow> length start \<le> kMaxHandshakeResponseBytes \<longrightarrow> response_read consumed start w y"
  proof (rule read_response.raw_induct [where P = "\<lambda>E dl start w y. observes E consumed \<longrightarrow>
        length start \<le> kMaxHandshakeResponseBytes \<longrightarrow> response_read consumed start w y", OF _ assms], goal_cases)
    case step: (1 f E dl start w y)
    show ?case
    proof (intro impI)
      assume obs: "observes E consumed" and le: "length start \<le> kMaxHandshakeResponseBytes"
      show "response_read consumed start w y"
      proof (cases "has_infix (crlf @ crlf) start \<or> kMaxHandshakeResponseBytes \<le> length start")
        case True
        then show ?thesis using step(2) le by (auto simp: response_read_def string_of_def split: if_splits)
      next
        case False
        then obtain b w1 where r: "ReadExact E dl 1 [] w = Some (b, w1)"
          and rest: "(case b of None \<Rightarrow> Some (None, w1) | Some bs \<Rightarrow> f E dl (start @ string_of bs) w1) = Some y"
          using step(2) by (auto split: bind_splits)
        show ?thesis
        proof (cases b)
          case None
          then show ?thesis using rest by (auto simp: response_read_def)
        next
          case (Some bs)
          note bs = ReadExact_Some [OF obs r [unfolded Some]]
          obtain c where c: "bs = [c]" using bs(1) by (auto simp: length_Suc_conv)
          have "response_read consumed (start @ string_of bs) w1 y"
            using step(1) [of E dl "start @ string_of bs" w1 y] rest Some obs False bs(1) by (auto simp: string_of_def)
          then show ?thesis using bs(2) False c
            by (auto simp: response_read_def string_of_def butlast_append split: prod.splits option.splits)
        qed
      qed
    qed
  qed
  then show "observes E consumed \<Longrightarrow> length start \<le> kMaxHandshakeResponseBytes \<Longrightarrow> response_read consumed start w y" by blast
qed

section \<open>Connect\<close>

text \<open>The first world of a connection attempt: the old handle closed, the new socket opened.\<close>

abbreviation opened :: "'w socket_env \<Rightarrow> string \<Rightarrow> 'w ws_client \<Rightarrow> bool \<times> 'w" where
  "opened E url s \<equiv> s_open E (ToHttpScheme url) (ws_world (Ws_Close E s))"

lemma Ws_Close_curl [simp]: "\<not> curl (Ws_Close E s)"
  by (simp add: Ws_Close_def)

text \<open>What RFC 6455 asks of the server's answer to \<open>key\<close>.\<close>

definition upgrade_agreed :: "string \<Rightarrow> string \<Rightarrow> bool" where
  "upgrade_agreed key response \<longleftrightarrow>
     status_is_101 response \<and>
     (\<exists>v. FindHeaderValue response ''Upgrade'' = Some v \<and> HeaderValueContainsTokenIgnoreCase v ''websocket'') \<and>
     (\<exists>v. FindHeaderValue response ''Connection'' = Some v \<and> HeaderValueContainsTokenIgnoreCase v ''upgrade'') \<and>
     FindHeaderValue response ''Sec-WebSocket-Accept'' = Some (ComputeAcceptKey key)"

lemma response_accepted_agreed: "response_accepted key response \<longleftrightarrow> upgrade_agreed key response"
  by (auto simp: response_accepted_def upgrade_agreed_def split: option.splits)

text \<open>
  C8: Connect against any server. A connection is reported open only after an answer that ends at its
  first blank line, is at most 8192 bytes long, has status 101 and the upgrade headers of RFC 6455 with
  the accept value for the key of this attempt, 16 fresh random bytes in Base64; the bytes after the blank line are still unread, so
  the first frame is not lost. In every other case no handle is kept and the client is not open.
  (Consumed is what the receive calls have returned, never more than they were asked for.)
\<close>

theorem Connect_checked:
  assumes "observes E consumed" "Ws_Connect E url s = Some (ok, s')"
  shows "\<not> closed s' \<and> curl s' = ok \<and>
    (ok \<longrightarrow> (\<exists>key response.
       base64_decode key = fst (s_random E 16 (snd (opened E url s))) \<and> upgrade_agreed key response \<and>
       length response \<le> 8192 \<and> has_infix (crlf @ crlf) response \<and> \<not> has_infix (crlf @ crlf) (butlast response) \<and>
       consumed (ws_world s') = consumed (snd (opened E url s)) @ bytes_of response))"
proof -
  obtain connected w1 where o: "opened E url s = (connected, w1)" by fastforce
  obtain bytes w2 where k: "s_random E 16 w1 = (bytes, w2)" by fastforce
  obtain now w3 where n: "s_now E w2 = (now, w3)" by fastforce
  have c3: "consumed w3 = consumed w1"
    using observesD(5) [OF assms(1), of 16 w1] observesD(1) [OF assms(1), of w2] k n by simp
  let ?key = "Base64Encode bytes"
  note run = assms(2) [unfolded Ws_Connect_def GenerateWebSocketKey_def Let_def, simplified, unfolded o k n split, simplified]
  show ?thesis
  proof (cases ok)
    case False
    then show ?thesis using run by (auto split: bind_splits if_splits option.splits)
  next
    case True
    then have "connected" using run by (auto split: if_splits)
    with run True obtain w4 w5 r where
      w: "WriteExact E (now + kConnectTimeoutMs) (bytes_of (upgrade_request url ?key)) w3 = Some (True, w4)" and
      r: "read_response E (now + kConnectTimeoutMs) [] w4 = Some (Some r, w5)" and acc: "response_accepted ?key r" and
      s': "s' = (Ws_Close E s)\<lparr>closed := False, curl := True, ws_world := w5\<rparr>"
      by (auto split: bind_splits if_splits option.splits)
    have "response_read consumed [] w4 (Some r, w5)"
      using read_response_sound [OF r assms(1)] by simp
    then have "length r \<le> 8192" "has_infix (crlf @ crlf) r" "\<not> has_infix (crlf @ crlf) (butlast r)"
      "consumed w5 = consumed w1 @ bytes_of r"
      using c3 WriteExact_keeps [OF w assms(1)] by (auto simp: response_read_def kMaxHandshakeResponseBytes_def)
    moreover have "base64_decode ?key = fst (s_random E 16 (snd (opened E url s)))"
      using base64_decode_encode [of bytes] o k by simp
    ultimately show ?thesis using acc [unfolded response_accepted_agreed] s' True o by (intro conjI impI exI [of _ ?key] exI [of _ r]) simp_all
  qed
qed

text \<open>A peer that keeps accepting what is written.\<close>

definition writable :: "'w socket_env \<Rightarrow> bool" where
  "writable E \<longleftrightarrow>
     (\<forall>t w. fst (s_poll_out E t w)) \<and> (\<forall>bs w. bs \<noteq> [] \<longrightarrow> fst (s_send E bs w) \<noteq> SendError \<and> fst (s_send E bs w) \<noteq> SendOk 0)"

lemma WriteExact_writable:
  assumes "WriteExact E dl buf w = Some y"
  shows "writable E \<Longrightarrow> fst y"
proof -
  have "writable E \<longrightarrow> fst y"
  proof (rule WriteExact.raw_induct [where P = "\<lambda>E dl buf w y. writable E \<longrightarrow> fst y", OF _ assms], goal_cases)
    case step: (1 f E dl buf w y)
    show ?case
    proof
      assume wr: "writable E"
      obtain wait w1 where r: "RemainingMs E dl w = (wait, w1)" by fastforce
      obtain ready w2 where p: "s_poll_out E wait w1 = (ready, w2)" by fastforce
      obtain out w3 where v: "s_send E buf w2 = (out, w3)" by fastforce
      have "fst (s_poll_out E wait w1)" "buf \<noteq> [] \<Longrightarrow> fst (s_send E buf w2) \<noteq> SendError \<and> fst (s_send E buf w2) \<noteq> SendOk 0"
        using wr by (auto simp: writable_def)
      then have "ready" "buf \<noteq> [] \<Longrightarrow> out \<noteq> SendError \<and> out \<noteq> SendOk 0" using p v by simp_all
      then show "fst y"
        using step(2) [unfolded r p v Let_def split] step(1) wr by (cases out) (auto split: if_splits)
    qed
  qed
  then show "writable E \<Longrightarrow> fst y" by blast
qed

lemma bytes_of_append [simp]: "bytes_of (s @ t) = bytes_of s @ bytes_of t"
  by (simp add: bytes_of_def)

lemma read_response_carries:
  assumes "carries E incoming stalls" "has_infix (crlf @ crlf) (start @ todo)" "length (start @ todo) \<le> kMaxHandshakeResponseBytes"
    "todo = [] \<or> \<not> has_infix (crlf @ crlf) (butlast (start @ todo))" "incoming w = bytes_of todo @ rest"
  shows "\<exists>w'. read_response E dl start w = Some (Some (start @ todo), w') \<and> incoming w' = rest"
  using assms(2-)
proof (induction todo arbitrary: start w)
  case Nil
  then show ?case by (subst read_response.simps) (simp add: bytes_of_def)
next
  case (Cons c cs)
  have b: "bytes_of (c # cs) = [word_of_nat (byte c)] @ bytes_of cs" by (simp add: bytes_of_def)
  have "incoming w = [word_of_nat (byte c)] @ (bytes_of cs @ rest)" using Cons.prems(4) b by simp
  from ReadExact_carries [OF assms(1) this, of 1 dl] obtain w1 where
    r: "ReadExact E dl 1 [] w = Some (Some [word_of_nat (byte c)], w1)" and w1: "incoming w1 = bytes_of cs @ rest" by auto
  have c: "string_of [word_of_nat (byte c)] = [c]"
    using string_of_bytes_of [of "[c]"] by (simp add: bytes_of_def)
  have no: "\<not> has_infix (crlf @ crlf) start"
    using has_infix_append [of "crlf @ crlf" start "butlast (c # cs)"] Cons.prems(3) by (auto simp: butlast_append)
  have "\<exists>w'. read_response E dl (start @ [c]) w1 = Some (Some ((start @ [c]) @ cs), w') \<and> incoming w' = rest"
    using Cons.prems w1 by (intro Cons.IH) simp_all
  then show ?case
    using Cons.prems(2) no r c by (subst read_response.simps) simp
qed

text \<open>A header block has no blank line before its end.\<close>

lemma blank_line_skip:
  "CHR 0x0D \<notin> set l \<Longrightarrow> has_infix (crlf @ crlf) (l @ CHR 0x0D # rest) \<longleftrightarrow> has_infix (crlf @ crlf) (CHR 0x0D # rest)"
  by (induction l) auto

lemma no_blank_line:
  assumes "list_all header_ok hs"
  shows "\<not> has_infix (crlf @ crlf) (crlf @ concat (map header_line hs) @ [CHR 0x0D])"
  using assms
proof (induction hs)
  case (Cons h hs)
  let ?l = "fst h @ '':'' @ snd h" and ?rest = "CHR 0x0A # concat (map header_line hs) @ [CHR 0x0D]"
  have "CHR 0x0D \<notin> set ?l" using Cons.prems by (auto simp: header_ok_def)
  from blank_line_skip [OF this, of ?rest]
  have no: "\<not> has_infix (crlf @ crlf) (?l @ CHR 0x0D # ?rest)" using Cons by auto
  have "hd (?l @ CHR 0x0D # ?rest) \<noteq> CHR 0x0D"
    using \<open>CHR 0x0D \<notin> set ?l\<close> by (cases "fst h") auto
  then have "take 2 (?l @ CHR 0x0D # ?rest) \<noteq> crlf" by (cases "?l @ CHR 0x0D # ?rest") auto
  then show ?case using no by (auto simp: header_line_def [of h] numeral_2_eq_2)
qed simp

lemma header_text_blank_line:
  assumes "list_all header_ok hs" "CHR 0x0D \<notin> set status"
  shows "has_infix (crlf @ crlf) (header_text status hs)" "\<not> has_infix (crlf @ crlf) (butlast (header_text status hs))"
proof -
  have last_line: "has_infix (crlf @ crlf) (l @ crlf @ crlf)" for l by (induction l) auto
  have "\<exists>l. header_text status hs = l @ crlf @ crlf"
  proof (cases hs rule: rev_cases)
    case (snoc gs h)
    then have "header_text status hs = (status @ crlf @ concat (map header_line gs) @ fst h @ '':'' @ snd h) @ crlf @ crlf"
      by (simp add: header_text_def header_line_def [of h])
    then show ?thesis by blast
  qed (simp add: header_text_def)
  then show "has_infix (crlf @ crlf) (header_text status hs)" using last_line by metis
  have "butlast (header_text status hs) = status @ crlf @ concat (map header_line hs) @ [CHR 0x0D]"
    by (simp add: header_text_def butlast_append)
  then show "\<not> has_infix (crlf @ crlf) (butlast (header_text status hs))"
    using no_blank_line [OF assms(1)] blank_line_skip [OF assms(2)] by simp
qed

text \<open>A status line with code 101, and the answer RFC 6455 asks a server for.\<close>

definition upgrade_reply :: "string \<Rightarrow> string \<Rightarrow> (string \<times> string) list \<Rightarrow> bool" where
  "upgrade_reply key reason hs \<longleftrightarrow>
     list_all header_ok hs \<and> CHR 0x0D \<notin> set reason \<and> CHR '':'' \<notin> set reason \<and>
     (\<exists>v. header_value hs ''Upgrade'' = Some v \<and> HeaderValueContainsTokenIgnoreCase v ''websocket'') \<and>
     (\<exists>v. header_value hs ''Connection'' = Some v \<and> HeaderValueContainsTokenIgnoreCase v ''upgrade'') \<and>
     header_value hs ''Sec-WebSocket-Accept'' = Some (ComputeAcceptKey key) \<and>
     length (header_text (''HTTP/1.1 101 '' @ reason) hs) \<le> 8192"

lemma upgrade_reply_accepted:
  assumes "upgrade_reply key reason hs"
  shows "response_accepted key (header_text (''HTTP/1.1 101 '' @ reason) hs)"
proof -
  let ?status = "''HTTP/1.1 101 '' @ reason"
  note a = assms [unfolded upgrade_reply_def]
  have cr: "CHR 0x0D \<notin> set ?status" and colon: "CHR '':'' \<notin> set ?status" using a by auto
  have "find_from crlf (header_text ?status hs) 0 = Some (length ?status)"
    using find_from_crlf [OF cr, of "[]" "concat (map header_line hs) @ crlf"] by (simp add: header_text_def)
  moreover have "take (length ?status) (header_text ?status hs) = ?status" by (simp add: header_text_def)
  moreover have "find_char CHR '' '' ?status = Some 8" by simp
  ultimately have "status_is_101 (header_text ?status hs)" by (simp add: status_is_101_def)
  then show ?thesis
    using a FindHeaderValue_header_text [OF _ cr colon, of hs]
    by (auto simp: response_accepted_def)
qed

lemma Connect_carries:
  assumes "carries E incoming stalls" "writable E" "opened E url s = (True, w1)" "s_random E 16 w1 = (bytes, w2)"
    and "upgrade_reply (Base64Encode bytes) reason hs" "incoming w1 = bytes_of (header_text (''HTTP/1.1 101 '' @ reason) hs) @ rest"
  shows "\<exists>s'. Ws_Connect E url s = Some (True, s') \<and> curl s' \<and> \<not> closed s' \<and> incoming (ws_world s') = rest"
proof -
  obtain now w3 where n: "s_now E w2 = (now, w3)" by fastforce
  let ?r = "header_text (''HTTP/1.1 101 '' @ reason) hs" and ?dl = "now + kConnectTimeoutMs"
  have "incoming (snd (s_random E 16 w1)) = incoming w1" "incoming (snd (s_now E w2)) = incoming w2"
    using assms(1) by (simp_all add: carries_def)
  then have w3: "incoming w3 = bytes_of ?r @ rest" using assms(4,6) n by simp
  obtain written w4 where w: "WriteExact E ?dl (bytes_of (upgrade_request url (Base64Encode bytes))) w3 = Some (written, w4)"
    and w4: "incoming w4 = bytes_of ?r @ rest"
    using WriteExact_carries [OF assms(1)] w3 by metis
  have written using WriteExact_writable [OF w assms(2)] by simp
  have reply: "list_all header_ok hs" "CHR 0x0D \<notin> set (''HTTP/1.1 101 '' @ reason)" "length ?r \<le> 8192"
    using assms(5) unfolding upgrade_reply_def by simp_all
  obtain w5 where r: "read_response E ?dl [] w4 = Some (Some ?r, w5)" and w5: "incoming w5 = rest"
    using read_response_carries [OF assms(1), of "[]" ?r w4 rest ?dl] header_text_blank_line [OF reply(1,2)] reply(3) w4
    by (auto simp: kMaxHandshakeResponseBytes_def)
  show ?thesis
    using assms(3,4) n w r w5 \<open>written\<close> upgrade_reply_accepted [OF assms(5)]
    by (simp add: Ws_Connect_def GenerateWebSocketKey_def)
qed

text \<open>
  C39: Connect accepts the answer RFC 6455 asks a server for, in the forms this client reads. Over a connection that
  delivers the reply, cut up in any way and with any transient stalls, and takes what is written, Connect
  succeeds whenever the answer to the key it sent is a 101 response of at most 8192 bytes in which, among any
  other headers, in any order and with names in any case, the first \<^verbatim>\<open>Upgrade\<close> header contains \<^verbatim>\<open>websocket\<close> and
  the first \<^verbatim>\<open>Connection\<close> header contains \<^verbatim>\<open>upgrade\<close>, both in any case and among any other tokens, and the first
  \<^verbatim>\<open>Sec-WebSocket-Accept\<close> header is, after any number of blanks, exactly the accept key; and exactly the
  response has been taken from the stream. (An answer that pads the accept key with tabs or trailing blanks,
  spreads the tokens over several headers of one name, or is longer is legal and refused.)
  (The TCP connection has been opened and the random generator has filled the key.)
\<close>

theorem Connect_accepts_RFC_6455:
  assumes "carries E incoming stalls" "writable E" "opened E url s = (True, w1)" "s_random E 16 w1 = (bytes, w2)"
    and "upgrade_reply (Base64Encode bytes) reason hs" "incoming w1 = bytes_of (header_text (''HTTP/1.1 101 '' @ reason) hs) @ rest"
  shows "\<exists>s'. Ws_Connect E url s = Some (True, s') \<and> curl s' \<and> \<not> closed s' \<and> incoming (ws_world s') = rest"
  by (rule Connect_carries [OF assms])

section \<open>A handshake\<close>

lemma Base64Encode_chars: "set (Base64Encode bs) \<subseteq> insert CHR ''='' (set kTable)"
proof (induction bs rule: Base64Encode.induct)
  case (1 a b c rest)
  then show ?case using b64_digit_in_table by (auto simp: Let_def)
qed (use b64_digit_in_table in \<open>auto simp: Let_def\<close>)

lemma length_ComputeAcceptKey: "length (ComputeAcceptKey key) = 28"
proof -
  have len: "length (Base64Encode bs) = 4 * ((length bs + 2) div 3)" for bs
    by (induction bs rule: Base64Encode.induct) (simp_all add: Let_def, presburger)
  have "length (Sha1 (key @ kWebSocketGuid)) = 20"
    by (simp add: Sha1_def word_bytes_def split: prod.split)
  then show ?thesis by (simp add: ComputeAcceptKey_def len)
qed

definition sample_reply :: "(string \<times> string) list" where
  "sample_reply =
     [(''upgrade'', '' WebSocket''), (''CONNECTION'', '' keep-alive, Upgrade''),
      (''Sec-WebSocket-Accept'', ''  '' @ ComputeAcceptKey (Base64Encode (replicate 16 7)))]"

lemma accept_key_chars: "CHR 0x0D \<notin> set (ComputeAcceptKey key)" "CHR '' '' \<notin> set (ComputeAcceptKey key)"
proof -
  have "CHR 0x0D \<notin> insert CHR ''='' (set kTable)" "CHR '' '' \<notin> insert CHR ''='' (set kTable)"
    by (simp_all add: kTable_def)
  then show "CHR 0x0D \<notin> set (ComputeAcceptKey key)" "CHR '' '' \<notin> set (ComputeAcceptKey key)"
    using Base64Encode_chars unfolding ComputeAcceptKey_def by blast+
qed

lemma accept_key_after_blanks: "after_blanks (''  '' @ ComputeAcceptKey key) = ComputeAcceptKey key"
  using accept_key_chars(2) [of key] by (cases "ComputeAcceptKey key") (auto simp: after_blanks_def)

lemma sample_reply_ok: "upgrade_reply (Base64Encode (replicate 16 7)) ''Switching Protocols'' sample_reply"
proof -
  have "header_value sample_reply ''Upgrade'' = Some ''WebSocket''" "header_value sample_reply ''Connection'' = Some ''keep-alive, Upgrade''"
    "header_value sample_reply ''Sec-WebSocket-Accept'' = Some (ComputeAcceptKey (Base64Encode (replicate 16 7)))"
    unfolding header_value_def sample_reply_def using accept_key_after_blanks
    by (simp_all add: ignore_case_eq_def cpp_class byte_def) (simp_all add: after_blanks_def)
  moreover have "HeaderValueContainsTokenIgnoreCase ''WebSocket'' ''websocket''"
    "HeaderValueContainsTokenIgnoreCase ''keep-alive, Upgrade'' ''upgrade''"
    by (simp_all add: HeaderValueContainsTokenIgnoreCase_def cpp_class byte_def)
  moreover have "list_all header_ok sample_reply"
    unfolding sample_reply_def using accept_key_chars(1) by (simp add: header_ok_def)
  moreover have "length (header_text (''HTTP/1.1 101 '' @ ''Switching Protocols'') sample_reply) \<le> 8192"
    unfolding sample_reply_def header_text_def header_line_def by (simp add: length_ComputeAcceptKey)
  ultimately show ?thesis unfolding upgrade_reply_def by simp
qed

theorem Connect_accepts_RFC_6455_witness:
  "\<exists>s'. Ws_Connect sample_socket ''ws://hub:8088/'' 
      \<lparr>curl = False, closed = True, ws_world = bytes_of (header_text (''HTTP/1.1 101 '' @ ''Switching Protocols'') sample_reply) @ [0x81]\<rparr> =
     Some (True, s') \<and> curl s' \<and> \<not> closed s' \<and> ws_world s' = [0x81]"
proof -
  have "writable sample_socket" by (simp add: writable_def sample_socket_def)
  then show ?thesis
    by (rule Connect_accepts_RFC_6455 [OF sample_socket_carries _ _ _ sample_reply_ok])
      (simp_all add: sample_socket_def Ws_Close_def)
qed

text \<open>The same handshake over the network that records what is taken from it.\<close>

lemma sample_tape_carries: "carries sample_tape snd (\<lambda>w. 0)"
  by (auto simp: carries_def sample_tape_def split: list.splits)

theorem Connect_checked_witness:
  "\<exists>key response.
     base64_decode key = replicate 16 7 \<and> upgrade_agreed key response \<and> length response \<le> 8192 \<and>
     has_infix (crlf @ crlf) response \<and> \<not> has_infix (crlf @ crlf) (butlast response)"
proof -
  let ?r = "header_text (''HTTP/1.1 101 '' @ ''Switching Protocols'') sample_reply"
  let ?s = "\<lparr>curl = False, closed = True, ws_world = ([], bytes_of ?r @ [0x81])\<rparr>"
  have wr: "writable sample_tape" by (simp add: writable_def sample_tape_def)
  have "\<exists>s'. Ws_Connect sample_tape ''ws://hub:8088/'' ?s = Some (True, s') \<and> curl s' \<and> \<not> closed s' \<and> snd (ws_world s') = [0x81]"
    by (rule Connect_carries [OF sample_tape_carries wr _ _ sample_reply_ok, of _ _ "([], bytes_of ?r @ [0x81])" "([], bytes_of ?r @ [0x81])"])
      (simp_all add: sample_tape_def Ws_Close_def)
  then obtain s' where "Ws_Connect sample_tape ''ws://hub:8088/'' ?s = Some (True, s')" by blast
  from Connect_checked [OF sample_tape_observes this] have c: "\<exists>key response.
       base64_decode key = fst (s_random sample_tape 16 (snd (opened sample_tape ''ws://hub:8088/'' ?s))) \<and> upgrade_agreed key response \<and>
       length response \<le> 8192 \<and> has_infix (crlf @ crlf) response \<and> \<not> has_infix (crlf @ crlf) (butlast response)"
    by blast
  have "fst (s_random sample_tape 16 w) = replicate 16 7" for w unfolding sample_tape_def by simp
  with c show ?thesis by simp
qed

end
