(* ===== verification/Logger.thy ===== *)
theory Logger
  imports Json Url Storage Net "HOL-Library.Sublist"
begin

text \<open>
  The persisted log of core/logger.cpp: two cache blobs of newline-terminated JSON lines with size-based
  rotation, written by one worker that drains a queue. The abstract log is a pair of line lists; the
  blobs refine it.
\<close>

section \<open>Records and blobs\<close>

datatype log_level = kDebug | kInfo | kWarning | kError

record log_record =
  timestamp :: int
  rec_level :: log_level
  rec_component :: string
  rec_message :: string

record log_item =
  it_record :: "log_record option"
  it_flush_signal :: "nat option"

definition kCurrentKey :: string where "kCurrentKey = ''log_current''"
definition kRotatedKey :: string where "kRotatedKey = ''log_rotated''"
definition kSchemaVersion :: int where "kSchemaVersion = 1"
definition logger_kModuleId :: string where "logger_kModuleId = ''core''"

fun LevelToString :: "log_level \<Rightarrow> string" where
  "LevelToString kDebug = ''debug''"
| "LevelToString kInfo = ''info''"
| "LevelToString kWarning = ''warning''"
| "LevelToString kError = ''error''"

abbreviation newline :: char where "newline \<equiv> CHR 0x0A"

text \<open>The offsets at which lines start, after the first; the argument is the result of the last search.\<close>

function line_starts_loop :: "string \<Rightarrow> nat option \<Rightarrow> nat list" where
  "line_starts_loop blob pos =
     (case pos of
        None \<Rightarrow> []
      | Some p \<Rightarrow>
          if p + 1 < length blob then (p + 1) # line_starts_loop blob (find_from [newline] blob (p + 1)) else [])"
  by pat_completeness auto
termination
proof (relation "measure (\<lambda>(blob, pos). case pos of None \<Rightarrow> 0 | Some p \<Rightarrow> Suc (length blob - p))", goal_cases)
  case (2 blob pos p)
  then show ?case using find_from_bounds [of "[newline]" blob "p + 1"] by (auto split: option.split)
qed simp

declare line_starts_loop.simps [simp del]

fun cut_loop :: "nat \<Rightarrow> nat \<Rightarrow> nat \<Rightarrow> nat list \<Rightarrow> nat" where
  "cut_loop sz max_bytes cut_at [] = cut_at"
| "cut_loop sz max_bytes cut_at (s # starts) =
     (if max_bytes < sz - s then cut_at else cut_loop sz max_bytes s starts)"

definition TrimToTail :: "string \<Rightarrow> nat \<Rightarrow> string" where
  "TrimToTail blob max_bytes =
     (if length blob \<le> max_bytes then blob
      else
        (let line_starts = 0 # line_starts_loop blob (find_from [newline] blob 0);
             backwards = rev line_starts;
             cut_at = cut_loop (length blob) max_bytes (hd backwards) (tl backwards)
         in drop cut_at blob))"

function join_loop :: "string \<Rightarrow> string \<Rightarrow> nat \<Rightarrow> string" where
  "join_loop blob result start =
     (if length blob \<le> start then result
      else
        (let found = find_from [newline] blob start;
             line = (case found of None \<Rightarrow> drop start blob | Some n \<Rightarrow> take (n - start) (drop start blob));
             result = (if line = [] then result else if result = [] then line else result @ '','' @ line)
         in case found of None \<Rightarrow> result | Some n \<Rightarrow> join_loop blob result (n + 1)))"
  by pat_completeness auto
termination
proof (relation "measure (\<lambda>(blob, result, start). length blob - start)", goal_cases)
  case (2 blob result start found line result' n)
  then show ?case using find_from_bounds [of "[newline]" blob start n] by auto
qed simp

declare join_loop.simps [simp del]

definition JoinLinesAsArrayElements :: "string \<Rightarrow> string" where
  "JoinLinesAsArrayElements blob = join_loop blob [] 0"

section \<open>Writing and reading\<close>

definition log_line :: "json_lib \<Rightarrow> log_record \<Rightarrow> string" where
  "log_line L r =
     json_dump L (jobj [(''timestamp'', JInt (timestamp r)), (''level'', JStr (LevelToString (rec_level r))),
       (''component'', JStr (rec_component r)), (''message'', JStr (rec_message r))])"

definition WriteBatch :: "json_lib \<Rightarrow> nat \<Rightarrow> log_record list \<Rightarrow> storage \<Rightarrow> storage" where
  "WriteBatch L max_bytes batch s =
     (let lines = concat (map (\<lambda>r. log_line L r @ [newline]) batch);
          previous = (case ReadCache s logger_kModuleId kCurrentKey of None \<Rightarrow> [] | Some v \<Rightarrow> vv_value v);
          updated = previous @ lines
      in if max_bytes < length updated then
           (let s1 = snd (WriteCache s logger_kModuleId kRotatedKey kSchemaVersion previous)
            in snd (WriteCache s1 logger_kModuleId kCurrentKey kSchemaVersion (TrimToTail lines max_bytes)))
         else snd (WriteCache s logger_kModuleId kCurrentKey kSchemaVersion updated))"

definition read_log :: "versioned_value option \<Rightarrow> versioned_value option \<Rightarrow> string" where
  "read_log rotated current =
     (let rotated_elements = (case rotated of None \<Rightarrow> [] | Some v \<Rightarrow> JoinLinesAsArrayElements (vv_value v));
          current_elements = (case current of None \<Rightarrow> [] | Some v \<Rightarrow> JoinLinesAsArrayElements (vv_value v))
      in ''['' @ rotated_elements @ (if rotated_elements \<noteq> [] \<and> current_elements \<noteq> [] then '','' else []) @
         current_elements @ '']'')"

text \<open>
  The logger and its worker. A flush request is an item without a record; \<open>signalled\<close> are the requests
  the worker has acknowledged. Calls of other threads are separate steps between the worker's passes.
\<close>

record logger =
  log_storage :: storage
  log_pending :: "log_item list"
  log_signalled :: "nat list"
  max_log_file_bytes :: nat

definition Log :: "int \<Rightarrow> log_level \<Rightarrow> string \<Rightarrow> string \<Rightarrow> logger \<Rightarrow> logger" where
  "Log now level component message s =
     s\<lparr>log_pending := Queue_Push
         \<lparr>it_record = Some \<lparr>timestamp = now, rec_level = level, rec_component = component, rec_message = message\<rparr>,
          it_flush_signal = None\<rparr> (log_pending s)\<rparr>"

definition ReadAll_request :: "nat \<Rightarrow> logger \<Rightarrow> logger" where
  "ReadAll_request signal s =
     s\<lparr>log_pending := Queue_Push \<lparr>it_record = None, it_flush_signal = Some signal\<rparr> (log_pending s)\<rparr>"

text \<open>
  The two reads of ReadAll are separate steps: the worker may write between them, so each blob is read in
  the state of its own moment.
\<close>

definition ReadAll_text :: "logger \<Rightarrow> logger \<Rightarrow> string" where
  "ReadAll_text at_first_read at_second_read =
     read_log (ReadCache (log_storage at_first_read) logger_kModuleId kRotatedKey)
       (ReadCache (log_storage at_second_read) logger_kModuleId kCurrentKey)"

fun drain_queue :: "log_item list \<Rightarrow> log_record list \<times> nat list" where
  "drain_queue [] = ([], [])"
| "drain_queue (item # items) =
     (let (batch, signals) = drain_queue items
      in (case it_record item of None \<Rightarrow> batch | Some r \<Rightarrow> r # batch,
          case it_flush_signal item of None \<Rightarrow> signals | Some f \<Rightarrow> f # signals))"

text \<open>One pass of the worker: \<^const>\<open>None\<close> while it blocks on the empty queue or once it has returned.\<close>

definition WorkerLoop_pass :: "json_lib \<Rightarrow> bool \<Rightarrow> logger \<Rightarrow> logger option" where
  "WorkerLoop_pass L stop s =
     (case Queue_Pop stop (log_pending s) of
        None \<Rightarrow> None
      | Some (None, _) \<Rightarrow> None
      | Some (Some first, rest) \<Rightarrow>
          (let (batch, signals) = drain_queue (first # rest);
               storage = (if batch = [] then log_storage s
                          else WriteBatch L (max_log_file_bytes s) batch (log_storage s))
           in Some (s\<lparr>log_pending := [], log_storage := storage, log_signalled := log_signalled s @ signals\<rparr>)))"

section \<open>The abstract log\<close>

definition blob_of :: "string list \<Rightarrow> string" where
  "blob_of ls = concat (map (\<lambda>l. l @ [newline]) ls)"

lemma blob_of_simps [simp]:
  "blob_of [] = []" "blob_of (l # ls) = l @ newline # blob_of ls" "blob_of (ls @ ms) = blob_of ls @ blob_of ms"
  by (simp_all add: blob_of_def)

lemma blob_of_empty [simp]: "blob_of ls = [] \<longleftrightarrow> ls = []"
  by (cases ls) simp_all

definition line_ok :: "string \<Rightarrow> bool" where
  "line_ok l \<longleftrightarrow> l \<noteq> [] \<and> newline \<notin> set l"

text \<open>What is kept of a batch that is too large on its own: the longest fitting tail, at least its last line.\<close>

fun keep_tail :: "nat \<Rightarrow> string list \<Rightarrow> string list" where
  "keep_tail cap [] = []"
| "keep_tail cap (l # ls) = (if ls = [] \<or> length (blob_of (l # ls)) \<le> cap then l # ls else keep_tail cap ls)"

type_synonym log_view = "string list \<times> string list"

text \<open>
  Appending a batch: it joins the current log while that fits, otherwise the current log becomes the rotated
  one and the batch starts a new current log. The two flags say which of the two writes succeed; a failed
  write leaves its part as it was.
\<close>

fun append_lines_io :: "nat \<Rightarrow> bool \<Rightarrow> bool \<Rightarrow> string list \<Rightarrow> log_view \<Rightarrow> log_view" where
  "append_lines_io cap rot_ok cur_ok new (rotated, current) =
     (if length (blob_of current) + length (blob_of new) \<le> cap
      then (rotated, if cur_ok then current @ new else current)
      else (if rot_ok then current else rotated, if cur_ok then keep_tail cap new else current))"

abbreviation append_lines :: "nat \<Rightarrow> string list \<Rightarrow> log_view \<Rightarrow> log_view" where
  "append_lines cap \<equiv> append_lines_io cap True True"

section \<open>Trimming and joining blobs\<close>

fun offsets :: "nat \<Rightarrow> string list \<Rightarrow> nat list" where
  "offsets n [] = []"
| "offsets n (l # ls) = n # offsets (n + length l + 1) ls"

lemma offsets_ge: "s \<in> set (offsets n ls) \<Longrightarrow> n \<le> s"
  by (induction ls arbitrary: n) fastforce+

lemma find_newline:
  assumes "newline \<notin> set l"
  shows "find_from [newline] (pre @ l @ newline # rest) (length pre) = Some (length pre + length l)"
  using find_char_append [OF assms, of rest] by (simp add: find_from_def find_at_char)

lemma line_starts_blob:
  assumes "list_all line_ok (l # ls)"
  shows "line_starts_loop (pre @ l @ newline # blob_of ls) (Some (length pre + length l)) = offsets (length pre + length l + 1) ls"
  using assms
proof (induction ls arbitrary: pre l)
  case Nil
  then show ?case by (subst line_starts_loop.simps) simp
next
  case (Cons m ms)
  let ?pre = "pre @ l @ [newline]"
  have "find_from [newline] (?pre @ m @ newline # blob_of ms) (length ?pre) = Some (length ?pre + length m)"
    using Cons.prems by (intro find_newline) (simp add: line_ok_def)
  moreover have "line_starts_loop (?pre @ m @ newline # blob_of ms) (Some (length ?pre + length m)) = offsets (length ?pre + length m + 1) ms"
    using Cons by (intro Cons.IH) simp
  ultimately show ?case by (subst line_starts_loop.simps) (simp add: add.commute add.left_commute)
qed

lemma cut_loop_stops: "cap < sz - s \<Longrightarrow> cut_loop sz cap cut_at (starts @ [s]) = cut_loop sz cap cut_at starts"
  by (induction starts arbitrary: cut_at) simp_all

lemma cut_loop_all:
  "sz - s \<le> cap \<Longrightarrow> (\<And>t. t \<in> set starts \<Longrightarrow> s \<le> t) \<Longrightarrow> cut_loop sz cap cut_at (starts @ [s]) = s"
proof (induction starts arbitrary: cut_at)
  case (Cons t starts)
  then have "s \<le> t" by simp
  then have "\<not> cap < sz - t" using Cons.prems(1) by linarith
  then show ?case using Cons by simp
qed simp

lemma cut_loop_offsets:
  assumes "ls \<noteq> []" "sz = n + length (blob_of ls)"
  shows "cut_loop sz cap (hd (rev (offsets n ls))) (tl (rev (offsets n ls))) =
     n + (length (blob_of ls) - length (blob_of (keep_tail cap ls)))"
  using assms
proof (induction ls arbitrary: n)
  case (Cons l ls)
  show ?case
  proof (cases ls)
    case ls: (Cons m ms)
    let ?rest = "rev (offsets (n + length l + 1) ls)"
    have "?rest \<noteq> []" using ls by simp
    then have split: "hd (rev (offsets n (l # ls))) = hd ?rest" "tl (rev (offsets n (l # ls))) = tl ?rest @ [n]" by simp_all
    have ge: "n \<le> t" if "t \<in> set (tl ?rest)" for t
      using that offsets_ge [of t "n + length l + 1" ls] list.set_sel(2) [OF \<open>?rest \<noteq> []\<close>] by fastforce
    have IH: "cut_loop sz cap (hd ?rest) (tl ?rest) =
        n + length l + 1 + (length (blob_of ls) - length (blob_of (keep_tail cap ls)))"
      using Cons.prems ls by (intro Cons.IH) simp_all
    have le: "length (blob_of (keep_tail c ks)) \<le> length (blob_of ks)" for c ks
      by (induction ks) auto
    show ?thesis
    proof (cases "length (blob_of (l # ls)) \<le> cap")
      case True
      then show ?thesis unfolding split using cut_loop_all [of sz n cap "tl ?rest", OF _ ge] Cons.prems(2) by simp
    next
      case False
      then have "cap < sz - n" using Cons.prems(2) by simp
      from cut_loop_stops [OF this, of "hd ?rest" "tl ?rest"] show ?thesis
        unfolding split using IH False ls le [of cap ls] by simp
    qed
  qed simp
qed simp

lemma blob_of_drop_keep: "drop (length (blob_of ls) - length (blob_of (keep_tail cap ls))) (blob_of ls) = blob_of (keep_tail cap ls)"
proof (induction ls)
  case (Cons l ls)
  have le: "length (blob_of (keep_tail c ks)) \<le> length (blob_of ks)" for c ks
    by (induction ks) auto
  show ?case using Cons le [of cap ls] by (simp add: Suc_diff_le)
qed simp

lemma TrimToTail_blob:
  assumes "list_all line_ok ls"
  shows "TrimToTail (blob_of ls) cap = blob_of (keep_tail cap ls)"
proof (cases ls)
  case (Cons l ms)
  have "find_from [newline] (blob_of ls) 0 = Some (length l)"
    using find_newline [of l "[]"] assms Cons by (simp add: line_ok_def)
  then have starts: "0 # line_starts_loop (blob_of ls) (find_from [newline] (blob_of ls) 0) = offsets 0 ls"
    using line_starts_blob [of l ms "[]"] assms Cons by simp
  show ?thesis
  proof (cases "length (blob_of ls) \<le> cap")
    case True
    then show ?thesis using Cons by (simp add: TrimToTail_def)
  next
    case False
    then show ?thesis
      using cut_loop_offsets [of ls "length (blob_of ls)" 0 cap] Cons blob_of_drop_keep [of ls cap]
      unfolding TrimToTail_def starts Let_def by simp
  qed
qed (simp add: TrimToTail_def)

lemma comma_sep_snoc: "xs \<noteq> [] \<Longrightarrow> comma_sep (xs @ [x]) = comma_sep xs @ '','' @ x"
  by (induction xs rule: comma_sep.induct) simp_all

lemma comma_sep_empty: "list_all line_ok xs \<Longrightarrow> comma_sep xs = [] \<longleftrightarrow> xs = []"
  by (induction xs rule: comma_sep.induct) (auto simp: line_ok_def)

lemma comma_sep_append:
  "xs \<noteq> [] \<Longrightarrow> ys \<noteq> [] \<Longrightarrow> comma_sep (xs @ ys) = comma_sep xs @ '','' @ comma_sep ys"
proof (induction xs rule: comma_sep.induct)
  case (2 x)
  then show ?case by (cases ys) simp_all
qed simp_all

lemma join_loop_blob:
  assumes "list_all line_ok (read_so_far @ ls)"
  shows "join_loop (pre @ blob_of ls) (comma_sep read_so_far) (length pre) = comma_sep (read_so_far @ ls)"
  using assms
proof (induction ls arbitrary: pre read_so_far)
  case Nil
  then show ?case by (subst join_loop.simps) simp
next
  case (Cons l ls)
  let ?pre = "pre @ l @ [newline]" and ?seen = "read_so_far @ [l]"
  have l: "l \<noteq> []" "newline \<notin> set l" using Cons.prems by (simp_all add: line_ok_def)
  have "comma_sep ?seen = (if comma_sep read_so_far = [] then l else comma_sep read_so_far @ '','' @ l)"
    using comma_sep_snoc [of read_so_far l] comma_sep_empty [of read_so_far] Cons.prems by auto
  moreover have "join_loop (?pre @ blob_of ls) (comma_sep ?seen) (length ?pre) = comma_sep (?seen @ ls)"
    using Cons.prems by (intro Cons.IH) simp
  ultimately show ?case
    using find_newline [OF l(2), of pre "blob_of ls"] l(1)
    by (subst join_loop.simps) (auto simp: Let_def split: if_splits)
qed

lemma JoinLines_blob: "list_all line_ok ls \<Longrightarrow> JoinLinesAsArrayElements (blob_of ls) = comma_sep ls"
  using join_loop_blob [of "[]" ls "[]"] by (simp add: JoinLinesAsArrayElements_def)

section \<open>Refinement\<close>

definition log_blob :: "storage \<Rightarrow> string \<Rightarrow> string" where
  "log_blob s key = (case ReadCache s logger_kModuleId key of None \<Rightarrow> [] | Some v \<Rightarrow> vv_value v)"

definition log_holds :: "storage \<Rightarrow> log_view \<Rightarrow> bool" where
  "log_holds s = (\<lambda>(rotated, current).
     list_all line_ok rotated \<and> list_all line_ok current \<and>
     log_blob s kRotatedKey = blob_of rotated \<and> log_blob s kCurrentKey = blob_of current)"

definition log_write_ok :: "storage \<Rightarrow> string \<Rightarrow> bool" where
  "log_write_ok s key \<longleftrightarrow> write_io (cache_store s) logger_kModuleId key = IoOk"

definition cache_writable :: "storage \<Rightarrow> bool" where
  "cache_writable s \<longleftrightarrow> log_write_ok s kCurrentKey \<and> log_write_ok s kRotatedKey"

text \<open>Writes of the two blobs succeed, or fail before the file is truncated; none is cut short.\<close>

definition cache_untorn :: "storage \<Rightarrow> bool" where
  "cache_untorn s \<longleftrightarrow>
     (\<forall>key \<in> {kCurrentKey, kRotatedKey}. write_io (cache_store s) logger_kModuleId key \<in> {IoOk, IoDirError, IoOpenError})"

lemma writable_untorn: "cache_writable s \<Longrightarrow> cache_untorn s"
  by (simp add: cache_writable_def cache_untorn_def log_write_ok_def)

text \<open>\<^verbatim>\<open>dump()\<close> without indentation writes one line: control characters in strings are escaped.\<close>

definition dumps_lines :: "json_lib \<Rightarrow> bool" where
  "dumps_lines L \<longleftrightarrow> (\<forall>j. line_ok (json_dump L j))"

lemma log_segments [simp]:
  "IsValidStoreSegment logger_kModuleId" "IsValidStoreSegment kCurrentKey" "IsValidStoreSegment kRotatedKey"
  "kCurrentKey \<noteq> kRotatedKey" "kRotatedKey \<noteq> kCurrentKey"
  by (simp_all add: IsValidStoreSegment_iff logger_kModuleId_def kCurrentKey_def kRotatedKey_def)

lemma write_log_io [simp]:
  "log_write_ok (snd (WriteCache s m k n x)) key = log_write_ok s key"
  "cache_untorn (snd (WriteCache s m k n x)) = cache_untorn s"
  by (auto simp: log_write_ok_def cache_untorn_def WriteCache_def HostCacheStore_Write_def WriteFile_def split: io.split)

lemma write_log_blob:
  assumes "cache_untorn s" "key \<in> {kCurrentKey, kRotatedKey}"
  shows "log_blob (snd (WriteCache s logger_kModuleId key kSchemaVersion x)) key' =
    (if key' = key \<and> log_write_ok s key then x else log_blob s key')"
proof (cases "log_write_ok s key")
  case True
  then have ok: "fst (WriteCache s logger_kModuleId key kSchemaVersion x)"
    using assms(2) by (auto simp: log_write_ok_def WriteCache_def HostCacheStore_Write_def WriteFile_def)
  then have "ReadCache (snd (WriteCache s logger_kModuleId key kSchemaVersion x)) logger_kModuleId key =
      Some \<lparr>schema_version = kSchemaVersion, vv_value = x\<rparr>"
    by (intro ReadCache_WriteCache) (simp_all add: int32_range_def kSchemaVersion_def prod_eq_iff)
  then show ?thesis
    using True ReadCache_WriteCache_other [of logger_kModuleId key' logger_kModuleId key] by (simp add: log_blob_def)
next
  case False
  then have "write_io (cache_store s) logger_kModuleId key \<in> {IoDirError, IoOpenError}"
    using assms by (auto simp: cache_untorn_def log_write_ok_def)
  then have "snd (WriteCache s logger_kModuleId key kSchemaVersion x) = s"
    by (auto simp: WriteCache_def HostCacheStore_Write_def WriteFile_def)
  then show ?thesis using False by simp
qed

lemma keep_tail_suffix: "suffix (keep_tail cap ls) ls"
  by (induction ls) (auto simp: suffix_Cons)

lemma list_all_suffix: "suffix xs ys \<Longrightarrow> list_all P ys \<Longrightarrow> list_all P xs"
  by (auto simp: suffix_def)

lemma WriteBatch_io:
  assumes "dumps_lines L" "cache_untorn s" "log_holds s v"
  shows "log_holds (WriteBatch L cap batch s)
    (append_lines_io cap (log_write_ok s kRotatedKey) (log_write_ok s kCurrentKey) (map (log_line L) batch) v)"
proof -
  obtain r c where v: "v = (r, c)" by fastforce
  have new: "list_all line_ok (map (log_line L) batch)"
    using assms(1) by (auto simp: dumps_lines_def log_line_def list_all_iff)
  have lines: "concat (map (\<lambda>r. log_line L r @ [newline]) batch) = blob_of (map (log_line L) batch)"
    by (simp add: blob_of_def comp_def)
  have prev: "(case ReadCache s logger_kModuleId kCurrentKey of None \<Rightarrow> [] | Some v \<Rightarrow> vv_value v) = blob_of c"
    using assms(3) v by (simp add: log_holds_def log_blob_def)
  note batch = WriteBatch_def [of L cap batch s, unfolded lines prev Let_def TrimToTail_blob [OF new]]
  show ?thesis
    using assms(2,3) new list_all_suffix [OF keep_tail_suffix new]
    unfolding batch v by (auto simp: log_holds_def write_log_blob)
qed

lemma WriteBatch_writes [simp]:
  "log_write_ok (WriteBatch L cap batch s) key = log_write_ok s key"
  "cache_untorn (WriteBatch L cap batch s) = cache_untorn s"
  "cache_writable (WriteBatch L cap batch s) = cache_writable s"
  by (simp_all add: WriteBatch_def Let_def cache_writable_def)

lemma WriteBatch_simulates:
  assumes "dumps_lines L" "cache_writable s" "log_holds s v"
  shows "log_holds (WriteBatch L cap batch s) (append_lines cap (map (log_line L) batch) v)"
  using WriteBatch_io [OF assms(1) writable_untorn [OF assms(2)] assms(3), of cap batch] assms(2)
  by (simp add: cache_writable_def)

lemma join_stored:
  "(case ReadCache s logger_kModuleId key of None \<Rightarrow> [] | Some v \<Rightarrow> JoinLinesAsArrayElements (vv_value v)) =
     JoinLinesAsArrayElements (log_blob s key)"
proof -
  have "JoinLinesAsArrayElements [] = []" by (simp add: JoinLinesAsArrayElements_def join_loop.simps)
  then show ?thesis by (simp add: log_blob_def split: option.split)
qed

lemma read_log_holds:
  assumes "log_holds s (r, c)"
  shows "read_log (ReadCache s logger_kModuleId kRotatedKey) (ReadCache s logger_kModuleId kCurrentKey) =
    ''['' @ comma_sep (r @ c) @ '']''"
  using assms comma_sep_append [of r c] JoinLines_blob comma_sep_empty [of r] comma_sep_empty [of c]
  by (auto simp: read_log_def join_stored log_holds_def)

text \<open>
  C27: The stored log refines the abstract one. Suppose \<^verbatim>\<open>dump()\<close> gives one non-empty line per record and no
  write of the two blobs is cut short: each succeeds, or fails before its file is truncated. Then writing a
  batch through the string surgery of the source (concatenated blobs, size test, rotation, trimming at
  line starts) has exactly the effect of the abstract operation on line lists. While the current log and
  the batch fit together the batch is appended; otherwise the current log replaces the rotated one and the
  batch, or the longest fitting tail of it and never less than its newest line, replaces the current one.
  Each of these writes takes effect exactly when it succeeds, so a batch whose write fails is lost, and
  when only the rotation's first write fails the previous current log is lost. Reading back gives the JSON
  array of exactly the lines of the result, oldest first.
\<close>

theorem WriteBatch_refines:
  assumes "dumps_lines L" "cache_untorn s" "log_holds s v"
    and "append_lines_io cap (log_write_ok s kRotatedKey) (log_write_ok s kCurrentKey) (map (log_line L) batch) v = (r, c)"
  shows "log_holds (WriteBatch L cap batch s) (r, c) \<and> cache_untorn (WriteBatch L cap batch s) \<and>
    (\<forall>key. log_write_ok (WriteBatch L cap batch s) key = log_write_ok s key) \<and>
    read_log (ReadCache (WriteBatch L cap batch s) logger_kModuleId kRotatedKey)
      (ReadCache (WriteBatch L cap batch s) logger_kModuleId kCurrentKey) = ''['' @ comma_sep (r @ c) @ '']''"
  using WriteBatch_io [OF assms(1-3), of cap batch] read_log_holds [of "WriteBatch L cap batch s" r c] assms(2,4) by simp

definition sample_json :: json_lib where
  "sample_json = \<lparr>json_parse = \<lambda>_. None, json_dump = \<lambda>_. ''{}''\<rparr>"

definition sample_records :: "log_record list" where
  "sample_records = replicate 3 \<lparr>timestamp = 7, rec_level = kInfo, rec_component = ''net'', rec_message = ''up''\<rparr>"

lemma sample_log:
  "dumps_lines sample_json" "cache_writable sample_storage" "log_holds sample_storage ([], [])"
  by (simp_all add: sample_json_def dumps_lines_def line_ok_def cache_writable_def log_write_ok_def sample_storage_def log_holds_def log_blob_def
      ReadCache_def HostCacheStore_Read_def ReadFile_def DecodeIfPresent_def Let_def)

text \<open>A store on which the rotated blob cannot be written: the previous log is lost by the rotation.\<close>

definition half_storage :: storage where
  "half_storage = sample_storage\<lparr>cache_store := \<lparr>
     files = [((logger_kModuleId, kCurrentKey), Encode kSchemaVersion (''old'' @ [newline]))],
     write_io = \<lambda>ns key. if key = kRotatedKey then IoOpenError else IoOk, erase_error = \<lambda>_ _. False\<rparr>\<rparr>"

lemma half_log: "cache_untorn half_storage" "log_holds half_storage ([], [''old''])"
  by (simp_all add: half_storage_def cache_untorn_def log_holds_def log_blob_def line_ok_def ReadCache_def
      HostCacheStore_Read_def ReadFile_def DecodeIfPresent_def Let_def Decode_Encode int32_range_def kSchemaVersion_def)

theorem WriteBatch_refines_witness:
  "log_blob (WriteBatch sample_json 7 sample_records sample_storage) kCurrentKey = ''{}'' @ [newline] @ ''{}'' @ [newline] \<and>
   log_holds (WriteBatch sample_json 7 sample_records half_storage) ([], [''{}'', ''{}''])"
proof -
  have "append_lines 7 (map (log_line sample_json) sample_records) ([], []) = ([], [''{}'', ''{}''])"
    by (simp add: log_line_def sample_json_def sample_records_def numeral_3_eq_3)
  then have 1: "append_lines_io 7 (log_write_ok sample_storage kRotatedKey) (log_write_ok sample_storage kCurrentKey)
      (map (log_line sample_json) sample_records) ([], []) = ([], [''{}'', ''{}''])"
    using sample_log(2) by (simp add: cache_writable_def)
  have 2: "append_lines_io 7 (log_write_ok half_storage kRotatedKey) (log_write_ok half_storage kCurrentKey)
      (map (log_line sample_json) sample_records) ([], [''old'']) = ([], [''{}'', ''{}''])"
    by (simp add: log_line_def sample_json_def sample_records_def numeral_3_eq_3 half_storage_def log_write_ok_def)
  from WriteBatch_refines [OF sample_log(1) writable_untorn [OF sample_log(2)] sample_log(3) 1]
    WriteBatch_refines [OF sample_log(1) half_log 2] show ?thesis
    by (simp add: log_holds_def)
qed

section \<open>Runs of the logger\<close>

datatype logger_op = LogCall int log_level string string | FlushCall nat | WorkerPass bool

fun logger_step :: "json_lib \<Rightarrow> logger_op \<Rightarrow> logger \<Rightarrow> logger" where
  "logger_step L (LogCall now level component message) s = Log now level component message s"
| "logger_step L (FlushCall f) s = ReadAll_request f s"
| "logger_step L (WorkerPass stop) s = (case WorkerLoop_pass L stop s of None \<Rightarrow> s | Some s' \<Rightarrow> s')"

abbreviation logger_run :: "json_lib \<Rightarrow> logger_op list \<Rightarrow> logger \<Rightarrow> logger" where
  "logger_run L \<equiv> fold (logger_step L)"

text \<open>The lines of the records handed to Log, and of those a queue still holds.\<close>

fun logged :: "json_lib \<Rightarrow> logger_op list \<Rightarrow> string list" where
  "logged L [] = []"
| "logged L (LogCall now level component message # ops) =
     log_line L \<lparr>timestamp = now, rec_level = level, rec_component = component, rec_message = message\<rparr> # logged L ops"
| "logged L (op # ops) = logged L ops"

fun flushes :: "logger_op list \<Rightarrow> nat set" where
  "flushes [] = {}"
| "flushes (FlushCall f # ops) = insert f (flushes ops)"
| "flushes (op # ops) = flushes ops"

definition waiting :: "json_lib \<Rightarrow> logger \<Rightarrow> string list" where
  "waiting L s = map (log_line L) (fst (drain_queue (log_pending s)))"

lemma drain_queue_append:
  "drain_queue (items @ later) = (fst (drain_queue items) @ fst (drain_queue later), snd (drain_queue items) @ snd (drain_queue later))"
  by (induction items) (auto simp: Let_def split: prod.splits option.splits)

lemma logged_append [simp]: "logged L (ops @ later) = logged L ops @ logged L later"
  by (induction L ops rule: logged.induct) simp_all

text \<open>
  The invariant of a run that has logged \<open>h\<close>: what is stored is a view of the part of \<open>h\<close> that has left the
  queue, newest lines included, within the bounds; \<open>seen\<close> is that part.
\<close>

definition bounded_log :: "nat \<Rightarrow> string list \<Rightarrow> bool" where
  "bounded_log cap ls \<longleftrightarrow> length (blob_of ls) \<le> cap \<or> length ls = 1"

definition view_ok :: "nat \<Rightarrow> string list \<Rightarrow> log_view \<Rightarrow> bool" where
  "view_ok cap seen = (\<lambda>(r, c).
     subseq (r @ c) seen \<and> suffix c seen \<and> bounded_log cap r \<and> bounded_log cap c \<and> (seen \<noteq> [] \<longrightarrow> c \<noteq> []) \<and>
     (length (blob_of seen) \<le> cap \<longrightarrow> r = [] \<and> c = seen))"

definition logger_inv :: "json_lib \<Rightarrow> string list \<Rightarrow> string list \<Rightarrow> logger \<Rightarrow> bool" where
  "logger_inv L h seen s \<longleftrightarrow>
     h = seen @ waiting L s \<and> cache_writable (log_storage s) \<and>
     (\<exists>v. log_holds (log_storage s) v \<and> view_ok (max_log_file_bytes s) seen v)"

lemma keep_tail_bounded: "ls \<noteq> [] \<Longrightarrow> keep_tail cap ls \<noteq> [] \<and> bounded_log cap (keep_tail cap ls)"
  by (induction ls) (auto simp: bounded_log_def)

lemma append_lines_view_ok:
  assumes "view_ok cap seen v" "new \<noteq> []"
  shows "view_ok cap (seen @ new) (append_lines cap new v)"
proof -
  obtain r c where v: "v = (r, c)" by fastforce
  have old: "subseq (r @ c) seen" "suffix c seen" "bounded_log cap r" "bounded_log cap c"
    "length (blob_of seen) \<le> cap \<Longrightarrow> r = [] \<and> c = seen"
    using assms(1) by (simp_all add: v view_ok_def)
  have "subseq (c @ keep_tail cap new) (seen @ new)"
    by (intro list_emb_append_mono suffix_imp_subseq old(2) keep_tail_suffix)
  moreover have "subseq ((r @ c) @ new) (seen @ new)" by (intro list_emb_append_mono old(1)) simp
  moreover have "suffix (c @ new) (seen @ new)" "suffix (keep_tail cap new) (seen @ new)"
    using old(2) suffix_appendI [OF keep_tail_suffix [of cap new], of seen] by (auto simp: suffix_def)
  ultimately show ?thesis
    using old(3-) assms(2) keep_tail_bounded [OF assms(2), of cap]
    by (auto simp: v view_ok_def bounded_log_def)
qed

lemma logger_step_inv:
  assumes "dumps_lines L" "logger_inv L h seen s"
  shows "logger_inv L (h @ logged L [op]) (case op of WorkerPass _ \<Rightarrow> h | _ \<Rightarrow> seen) (logger_step L op s)"
proof (cases op)
  case (WorkerPass stop)
  obtain v where v: "log_holds (log_storage s) v" "view_ok (max_log_file_bytes s) seen v"
    and w: "cache_writable (log_storage s)" and h: "h = seen @ waiting L s"
    using assms(2) by (auto simp: logger_inv_def)
  show ?thesis
  proof (cases "log_pending s")
    case Nil
    then show ?thesis using assms(2) WorkerPass h
      by (auto simp: WorkerLoop_pass_def Queue_Pop_def waiting_def)
  next
    case (Cons first rest)
    obtain batch signals where d: "drain_queue (log_pending s) = (batch, signals)" by fastforce
    let ?st = "if batch = [] then log_storage s else WriteBatch L (max_log_file_bytes s) batch (log_storage s)"
    have "WorkerLoop_pass L stop s = Some (s\<lparr>log_pending := [], log_storage := ?st, log_signalled := log_signalled s @ signals\<rparr>)"
      using Cons d by (simp add: WorkerLoop_pass_def Queue_Pop_def Let_def)
    moreover have "batch \<noteq> [] \<Longrightarrow> view_ok (max_log_file_bytes s) h (append_lines (max_log_file_bytes s) (map (log_line L) batch) v)"
      using append_lines_view_ok [OF v(2)] h d by (simp add: waiting_def)
    ultimately show ?thesis
      using WorkerPass v w h d WriteBatch_simulates [OF assms(1) w v(1)]
      by (auto simp: logger_inv_def waiting_def simp del: split_paired_Ex)
  qed
qed (use assms(2) in \<open>auto simp: logger_inv_def waiting_def Log_def ReadAll_request_def Queue_Push_def drain_queue_append\<close>)

lemma logger_run_inv:
  assumes "dumps_lines L" "logger_inv L h seen s" "prefix h1 h" "f \<in> set (log_signalled s) \<longrightarrow> prefix h1 seen"
  shows "\<exists>seen'. logger_inv L (h @ logged L ops) seen' (logger_run L ops s) \<and>
    (f \<in> set (log_signalled (logger_run L ops s)) \<longrightarrow> prefix h1 seen')"
  using assms(2-)
proof (induction ops arbitrary: h seen s)
  case (Cons op ops)
  have "\<not> (\<exists>stop. op = WorkerPass stop) \<Longrightarrow> log_signalled (logger_step L op s) = log_signalled s"
    by (cases op) (simp_all add: Log_def ReadAll_request_def)
  then have "f \<in> set (log_signalled (logger_step L op s)) \<longrightarrow> prefix h1 (case op of WorkerPass _ \<Rightarrow> h | _ \<Rightarrow> seen)"
    using Cons.prems(2,3) by (cases op) auto
  moreover have "prefix h1 (h @ logged L [op])" using Cons.prems(2) by (rule prefix_prefix)
  ultimately show ?case
    using Cons.IH [OF logger_step_inv [OF assms(1) Cons.prems(1), of op]] logged_append [of L "[op]" ops] by simp
qed auto

definition outstanding :: "logger \<Rightarrow> nat set" where
  "outstanding s = set (log_signalled s) \<union> set (snd (drain_queue (log_pending s)))"

lemma outstanding_run: "outstanding (logger_run L ops s) \<subseteq> outstanding s \<union> flushes ops"
proof (induction ops arbitrary: s)
  case (Cons op ops)
  have "outstanding (logger_step L op s) \<subseteq> outstanding s \<union> flushes [op]"
    by (cases op) (auto simp: outstanding_def Log_def ReadAll_request_def Queue_Push_def drain_queue_append
        WorkerLoop_pass_def Queue_Pop_def Let_def split: list.splits prod.splits option.splits)
  moreover have "flushes (op # ops) = flushes [op] \<union> flushes ops" by (cases op) simp_all
  ultimately show ?case using Cons.IH [of "logger_step L op s"] by auto
qed simp

definition fresh_logger :: "logger \<Rightarrow> bool" where
  "fresh_logger s \<longleftrightarrow>
     log_pending s = [] \<and> log_signalled s = [] \<and> cache_writable (log_storage s) \<and> log_holds (log_storage s) ([], [])"

text \<open>
  Between the two reads the worker may pass any number of times; \<open>mid\<close> is what it persists meanwhile. What
  it stores is then the old current log with all of \<open>mid\<close>, or, after a rotation, a tail of \<open>mid\<close>.
\<close>

definition grown :: "string list \<Rightarrow> log_view \<Rightarrow> log_view \<Rightarrow> bool" where
  "grown mid = (\<lambda>(r1, c1) (r2, c2). r2 = r1 \<and> c2 = c1 @ mid \<or> suffix c2 mid)"

lemma append_lines_grown:
  assumes "grown mid v1 v2"
  shows "grown (mid @ new) v1 (append_lines cap new v2)"
proof -
  obtain r1 c1 r2 c2 where v: "v1 = (r1, c1)" "v2 = (r2, c2)" by fastforce
  have "suffix c2 mid \<Longrightarrow> suffix (c2 @ new) (mid @ new)" by (auto simp: suffix_def)
  then show ?thesis
    using assms suffix_appendI [OF keep_tail_suffix [of cap new], of mid] by (auto simp: grown_def v)
qed

definition grown_inv :: "json_lib \<Rightarrow> string list \<Rightarrow> string list \<Rightarrow> log_view \<Rightarrow> logger \<Rightarrow> bool" where
  "grown_inv L h seen1 v1 s \<longleftrightarrow>
     cache_writable (log_storage s) \<and>
     (\<exists>mid v. h = seen1 @ mid @ waiting L s \<and> log_holds (log_storage s) v \<and> grown mid v1 v \<and>
        view_ok (max_log_file_bytes s) (seen1 @ mid) v)"

lemma logger_step_grown:
  assumes "dumps_lines L" "grown_inv L h seen1 v1 s"
  shows "grown_inv L (h @ logged L [op]) seen1 v1 (logger_step L op s)"
proof (cases op)
  case (WorkerPass stop)
  from assms(2) obtain mid v where v: "h = seen1 @ mid @ waiting L s" "log_holds (log_storage s) v" "grown mid v1 v"
      "view_ok (max_log_file_bytes s) (seen1 @ mid) v" and w: "cache_writable (log_storage s)"
    unfolding grown_inv_def by blast
  obtain batch signals where d: "drain_queue (log_pending s) = (batch, signals)" by fastforce
  show ?thesis
  proof (cases "log_pending s = [] \<or> batch = []")
    case True
    then show ?thesis
      using assms(2) WorkerPass d
      by (auto simp: WorkerLoop_pass_def Queue_Pop_def waiting_def grown_inv_def Let_def split: list.splits
          simp del: split_paired_Ex)
  next
    case False
    let ?st = "WriteBatch L (max_log_file_bytes s) batch (log_storage s)"
    let ?new = "map (log_line L) batch"
    have step: "logger_step L op s = s\<lparr>log_pending := [], log_storage := ?st, log_signalled := log_signalled s @ signals\<rparr>"
      using False d WorkerPass by (cases "log_pending s") (simp_all add: WorkerLoop_pass_def Queue_Pop_def Let_def)
    have "log_holds ?st (append_lines (max_log_file_bytes s) ?new v)"
      using WriteBatch_simulates [OF assms(1) w v(2)] .
    moreover have "view_ok (max_log_file_bytes s) (seen1 @ mid @ ?new) (append_lines (max_log_file_bytes s) ?new v)"
      using append_lines_view_ok [OF v(4), of ?new] False by simp
    ultimately show ?thesis
      using v(1) w d WorkerPass append_lines_grown [OF v(3), of ?new "max_log_file_bytes s"]
      unfolding step grown_inv_def
      by (intro conjI exI [of _ "mid @ ?new"] exI [of _ "append_lines (max_log_file_bytes s) ?new v"]) (simp_all add: waiting_def)
  qed
qed (use assms(2) in \<open>auto simp: grown_inv_def waiting_def Log_def ReadAll_request_def Queue_Push_def drain_queue_append\<close>)

lemma logger_run_grown:
  "dumps_lines L \<Longrightarrow> grown_inv L h seen1 v1 s \<Longrightarrow> grown_inv L (h @ logged L ops) seen1 v1 (logger_run L ops s)"
proof (induction ops arbitrary: h s)
  case (Cons op ops)
  then show ?case using Cons.IH [OF Cons.prems(1) logger_step_grown [OF Cons.prems]] logged_append [of L "[op]" ops] by simp
qed simp

lemma log_blob_inj: "list_all line_ok xs \<Longrightarrow> list_all line_ok ys \<Longrightarrow> blob_of xs = blob_of ys \<Longrightarrow> xs = ys"
proof (induction xs arbitrary: ys)
  case Nil
  then show ?case by (metis blob_of_empty blob_of_simps(1))
next
  case (Cons x xs)
  then obtain y ys' where ys: "ys = y # ys'" by (cases ys) auto
  have "newline \<notin> set x" "newline \<notin> set y" using Cons.prems ys by (simp_all add: line_ok_def)
  then have "x = y \<and> blob_of xs = blob_of ys'"
    using Cons.prems(3) ys
    by (auto simp: append_eq_append_conv2 append_eq_Cons_conv Cons_eq_append_conv)
  then show ?case using Cons ys by simp
qed

lemma read_log_split:
  assumes "log_holds s1 (r1, c1)" "log_holds s2 (r2, c2)"
  shows "read_log (ReadCache s1 logger_kModuleId kRotatedKey) (ReadCache s2 logger_kModuleId kCurrentKey) =
    ''['' @ comma_sep (r1 @ c2) @ '']''"
  using assms comma_sep_append [of r1 c2] JoinLines_blob comma_sep_empty [of r1] comma_sep_empty [of c2]
  by (auto simp: read_log_def join_stored log_holds_def)

lemma acknowledged_state:
  assumes "dumps_lines L" "fresh_logger s0" "s = logger_run L (pre @ FlushCall f # post) s0"
    and "f \<in> set (log_signalled s)" "f \<notin> flushes pre"
  shows "\<exists>seen. prefix (logged L pre) seen \<and> logger_inv L (logged L (pre @ post)) seen s"
proof -
  have "logger_inv L [] [] s0"
    using assms(2) by (auto simp: fresh_logger_def logger_inv_def waiting_def view_ok_def bounded_log_def)
  from logger_run_inv [OF assms(1) this, of "[]" f pre] obtain seen1 where
    1: "logger_inv L (logged L pre) seen1 (logger_run L pre s0)" by auto
  let ?s1 = "ReadAll_request f (logger_run L pre s0)"
  have "outstanding s0 = {}" using assms(2) by (simp add: fresh_logger_def outstanding_def)
  then have "f \<notin> set (log_signalled ?s1)"
    using outstanding_run [of L pre s0] assms(5) by (auto simp: outstanding_def ReadAll_request_def)
  then show ?thesis
    using logger_run_inv [OF assms(1) logger_step_inv [OF assms(1) 1, of "FlushCall f"], of "logged L pre" f post] assms(3,4)
    by auto
qed


definition sample_logger :: logger where
  "sample_logger = \<lparr>log_storage = sample_storage, log_pending = [], log_signalled = [], max_log_file_bytes = 100\<rparr>"


text \<open>
  The two reads of ReadAll are not one step: a rotation by the worker between them hides the whole
  previous current log from that reader, although all of it had been flushed before.
\<close>

theorem ReadAll_split_by_rotation:
  assumes "dumps_lines L" "cache_writable s" "log_holds s ([], c)"
    and "cap < length (blob_of c) + length (blob_of (map (log_line L) batch))"
  shows "read_log (ReadCache s logger_kModuleId kRotatedKey) (ReadCache (WriteBatch L cap batch s) logger_kModuleId kCurrentKey) =
    ''['' @ comma_sep (keep_tail cap (map (log_line L) batch)) @ '']''"
proof -
  let ?s = "WriteBatch L cap batch s"
  have "log_holds ?s (c, keep_tail cap (map (log_line L) batch))"
    using WriteBatch_simulates [OF assms(1-3), of cap batch] assms(4) by simp
  then have "JoinLinesAsArrayElements (log_blob ?s kCurrentKey) = comma_sep (keep_tail cap (map (log_line L) batch))"
    by (simp add: log_holds_def JoinLines_blob)
  then show ?thesis using assms(3) JoinLines_blob [of "[]"] by (simp add: read_log_def join_stored log_holds_def)
qed

end
