(* ===== verification/Weather.thy ===== *)
theory Weather
  imports Http Url Storage Logger
begin

text \<open>
  The weather provider (core/weather_provider.cpp): coordinate validation through \<^verbatim>\<open>strtod\<close>, one poll of
  the forecast service with its cache fallback, and the poll loop's wake flag.
\<close>

section \<open>strtod\<close>

text \<open>
  \<^verbatim>\<open>strtod\<close> in the C locale: the value and the unread rest, \<^const>\<open>None\<close> when nothing was converted. The
  exact decimal or hexadecimal value is rounded to a double by \<open>rnd\<close>.
\<close>

datatype c_double = Finite real | Infinite bool | NaN

definition digits_value :: "nat \<Rightarrow> string \<Rightarrow> nat" where
  "digits_value base ds = foldl (\<lambda>n c. base * n + hex_value c) 0 ds"

definition scaled :: "nat \<Rightarrow> int \<Rightarrow> nat \<Rightarrow> real" where
  "scaled base e m = (if 0 \<le> e then of_nat m * of_nat base ^ nat e else of_nat m / of_nat base ^ nat (- e))"

definition is_sign :: "char \<Rightarrow> bool" where "is_sign c \<longleftrightarrow> c = CHR ''+'' \<or> c = CHR ''-''"

definition strip_sign :: "string \<Rightarrow> bool \<times> string" where
  "strip_sign s = (if s \<noteq> [] \<and> is_sign (hd s) then (hd s = CHR ''-'', tl s) else (False, s))"

definition starts_nocase :: "string \<Rightarrow> string \<Rightarrow> bool" where
  "starts_nocase word s \<longleftrightarrow> length word \<le> length s \<and> map c_tolower (take (length word) s) = map byte word"

text \<open>An exponent part introduced by one of \<open>marks\<close>; without digits nothing is consumed.\<close>

definition read_exponent :: "char set \<Rightarrow> string \<Rightarrow> int \<times> string" where
  "read_exponent marks s =
     (if s \<noteq> [] \<and> hd s \<in> marks then
        (let (neg, t) = strip_sign (tl s); ds = takeWhile c_isdigit t
         in if ds = [] then (0, s)
            else ((if neg then - int (digits_value 10 ds) else int (digits_value 10 ds)), dropWhile c_isdigit t))
      else (0, s))"

text \<open>Digits with an optional point: all digits, how many follow the point, and the rest.\<close>

definition read_mantissa :: "(char \<Rightarrow> bool) \<Rightarrow> string \<Rightarrow> string \<times> nat \<times> string" where
  "read_mantissa isd s =
     (let whole = takeWhile isd s; t = dropWhile isd s
      in if t \<noteq> [] \<and> hd t = CHR ''.'' \<and> (whole \<noteq> [] \<or> takeWhile isd (tl t) \<noteq> [])
         then (whole @ takeWhile isd (tl t), length (takeWhile isd (tl t)), dropWhile isd (tl t))
         else (whole, 0, t))"

definition read_decimal :: "string \<Rightarrow> (real \<times> string) option" where
  "read_decimal s =
     (let (ds, after_point, t) = read_mantissa c_isdigit s
      in if ds = [] then None
         else (let (e, rest) = read_exponent {CHR ''e'', CHR ''E''} t
               in Some (scaled 10 (e - int after_point) (digits_value 10 ds), rest)))"

definition read_hex :: "string \<Rightarrow> (real \<times> string) option" where
  "read_hex s =
     (if starts_nocase ''0x'' s then
        (let (ds, after_point, t) = read_mantissa c_isxdigit (drop 2 s)
         in if ds = [] then None
            else (let (e, rest) = read_exponent {CHR ''p'', CHR ''P''} t
                  in Some (scaled 2 (e - 4 * int after_point) (digits_value 16 ds), rest)))
      else None)"

definition after_nan :: "string \<Rightarrow> string" where
  "after_nan s =
     (let t = dropWhile (\<lambda>c. c_isalnum c \<or> c = CHR ''_'') (tl s)
      in if s \<noteq> [] \<and> hd s = CHR ''('' \<and> t \<noteq> [] \<and> hd t = CHR '')'' then tl t else s)"

definition strtod :: "(real \<Rightarrow> c_double) \<Rightarrow> string \<Rightarrow> (c_double \<times> string) option" where
  "strtod rnd text =
     (let (neg, s) = strip_sign (dropWhile c_isspace text); signed = (\<lambda>x. rnd (if neg then - x else x))
      in if starts_nocase ''infinity'' s then Some (Infinite neg, drop 8 s)
         else if starts_nocase ''inf'' s then Some (Infinite neg, drop 3 s)
         else if starts_nocase ''nan'' s then Some (NaN, after_nan (drop 3 s))
         else case read_hex s of
                Some (x, rest) \<Rightarrow> Some (signed x, rest)
              | None \<Rightarrow> map_option (\<lambda>(x, rest). (signed x, rest)) (read_decimal s))"

section \<open>Coordinates\<close>

definition weather_kModuleId :: string where "weather_kModuleId = ''weather''"
definition kLatitudeKey :: string where "kLatitudeKey = ''latitude''"
definition kLongitudeKey :: string where "kLongitudeKey = ''longitude''"
definition kDisplayNameKey :: string where "kDisplayNameKey = ''display_name''"
definition kCacheKey :: string where "kCacheKey = ''last_reading''"
definition kCacheSchemaVersion :: int where "kCacheSchemaVersion = 1"

definition ClampWeatherCode :: "real \<Rightarrow> int" where
  "ClampWeatherCode code = \<lfloor>min (max code 0) 99\<rfloor>"

definition ParseNumber :: "(real \<Rightarrow> c_double) \<Rightarrow> string \<Rightarrow> c_double option" where
  "ParseNumber rnd text =
     (if text = [] then None
      else case strtod rnd text of
             None \<Rightarrow> None
           | Some (v, rest) \<Rightarrow> if rest \<noteq> [] then None else Some v)"

definition ParsesAsNumber :: "(real \<Rightarrow> c_double) \<Rightarrow> string \<Rightarrow> bool" where
  "ParsesAsNumber rnd text \<longleftrightarrow> ParseNumber rnd text \<noteq> None"

fun in_range :: "real \<Rightarrow> c_double \<Rightarrow> bool" where
  "in_range max_abs (Finite x) \<longleftrightarrow> - max_abs \<le> x \<and> x \<le> max_abs"
| "in_range max_abs (Infinite neg) \<longleftrightarrow> False"
| "in_range max_abs NaN \<longleftrightarrow> False"

definition IsValidWeatherCoordinate :: "(real \<Rightarrow> c_double) \<Rightarrow> string \<Rightarrow> string \<Rightarrow> bool" where
  "IsValidWeatherCoordinate rnd key v =
     (if key = kLatitudeKey \<or> key = kLongitudeKey then
        (let max_abs = (if key = kLatitudeKey then 90 else 180)
         in v = [] \<or> (case ParseNumber rnd v of None \<Rightarrow> False | Some x \<Rightarrow> in_range max_abs x))
      else True)"

section \<open>The provider\<close>

record weather_state =
  configured :: bool
  has_reading :: bool
  live :: bool
  temperature_c :: real
  weather_code :: int
  display_name :: string

definition no_reading :: "bool \<Rightarrow> string \<Rightarrow> weather_state" where
  "no_reading conf name =
     \<lparr>configured = conf, has_reading = False, live = False, temperature_c = 0, weather_code = 0, display_name = name\<rparr>"

text \<open>
  \<open>weather_updates\<close> counts the published WeatherUpdatedEvents, \<open>weather_warnings\<close> the log entries of the poll.
\<close>

record weather_provider =
  weather_snapshot :: weather_state
  wake_requested :: bool
  weather_updates :: nat
  weather_warnings :: "(log_level \<times> string \<times> string) list"

definition weather_init :: weather_provider where
  "weather_init =
     \<lparr>weather_snapshot = no_reading False [], wake_requested = False, weather_updates = 0, weather_warnings = []\<rparr>"

definition publish_state :: "weather_state \<Rightarrow> weather_provider \<Rightarrow> weather_provider" where
  "publish_state st p = p\<lparr>weather_snapshot := st, weather_updates := Suc (weather_updates p)\<rparr>"

definition forecast_url :: "string \<Rightarrow> string \<Rightarrow> string" where
  "forecast_url lat lon =
     ''https://api.open-meteo.com/v1/forecast?latitude='' @ lat @ ''&longitude='' @ lon @ ''&current=temperature_2m,weather_code''"

text \<open>
  The environment of a poll: the JSON library, the roundings of decimal text and of JSON integers to
  double, the HTTP client, and what other threads do to the storage while the request is under way.
\<close>

record weather_env =
  we_json :: json_lib
  we_strtod_rnd :: "real \<Rightarrow> c_double"
  we_int_rnd :: "real \<Rightarrow> real"
  we_get :: "string \<Rightarrow> http_client_response"
  we_meanwhile :: "storage \<Rightarrow> storage"
  we_has_logger :: bool

definition parse_reading :: "weather_env \<Rightarrow> string \<Rightarrow> string \<Rightarrow> json \<Rightarrow> (real \<times> int) option" where
  "parse_reading E temperature_key code_key j =
     (case (find_number (we_int_rnd E) temperature_key j, find_number (we_int_rnd E) code_key j) of
        (Some t, Some c) \<Rightarrow> Some (t, ClampWeatherCode c)
      | _ \<Rightarrow> None)"

definition live_reading :: "weather_env \<Rightarrow> http_client_response \<Rightarrow> (real \<times> int) option" where
  "live_reading E response =
     (if cr_success response \<and> cr_status_code response = 200 then
        (case TryParseJsonObject (we_json E) (cr_body response) of
           None \<Rightarrow> None
         | Some parsed \<Rightarrow>
             (case find_object ''current'' parsed of
                None \<Rightarrow> None
              | Some current \<Rightarrow> parse_reading E ''temperature_2m'' ''weather_code'' current))
      else None)"

definition reading_cache :: "real \<Rightarrow> int \<Rightarrow> string \<Rightarrow> json" where
  "reading_cache t code name =
     jobj [(''temperature_c'', JFloat t), (''weather_code'', JInt code), (''display_name'', JStr name)]"

definition cached_reading :: "weather_env \<Rightarrow> storage \<Rightarrow> (real \<times> int) option" where
  "cached_reading E s =
     (case ReadCache s weather_kModuleId kCacheKey of
        None \<Rightarrow> None
      | Some cached \<Rightarrow>
          (case TryParseJsonObject (we_json E) (vv_value cached) of
             None \<Rightarrow> None
           | Some parsed \<Rightarrow> parse_reading E ''temperature_c'' ''weather_code'' parsed))"

definition PollOnce :: "weather_env \<Rightarrow> storage \<Rightarrow> weather_provider \<Rightarrow> storage \<times> weather_provider" where
  "PollOnce E s p =
     (let latitude = GetSetting s weather_kModuleId kLatitudeKey;
          longitude = GetSetting s weather_kModuleId kLongitudeKey;
          name = (case GetSetting s weather_kModuleId kDisplayNameKey of None \<Rightarrow> [] | Some v \<Rightarrow> vv_value v)
      in case (latitude, longitude) of
           (Some lat, Some lon) \<Rightarrow>
             if \<not> ParsesAsNumber (we_strtod_rnd E) (vv_value lat) \<or> \<not> ParsesAsNumber (we_strtod_rnd E) (vv_value lon)
             then (s, publish_state (no_reading False []) p)
             else
               (let response = we_get E (forecast_url (vv_value lat) (vv_value lon));
                    s1 = we_meanwhile E s
                in case live_reading E response of
                     Some (t, code) \<Rightarrow>
                       (let (ok, s2) = WriteCache s1 weather_kModuleId kCacheKey kCacheSchemaVersion
                                         (json_dump (we_json E) (reading_cache t code name));
                            p1 = (if \<not> ok \<and> we_has_logger E
                                  then p\<lparr>weather_warnings := weather_warnings p @
                                         [(kWarning, ''weather'', ''Failed to persist the weather cache'')]\<rparr>
                                  else p)
                        in (s2, publish_state
                              \<lparr>configured = True, has_reading = True, live = True, temperature_c = t,
                               weather_code = code, display_name = name\<rparr> p1))
                   | None \<Rightarrow>
                       (s1, publish_state
                          (case cached_reading E s1 of
                             Some (t, code) \<Rightarrow>
                               \<lparr>configured = True, has_reading = True, live = False, temperature_c = t,
                                weather_code = code, display_name = name\<rparr>
                           | None \<Rightarrow> no_reading True name) p))
         | _ \<Rightarrow> (s, publish_state (no_reading False []) p))"

definition TriggerPoll :: "weather_provider \<Rightarrow> weather_provider" where
  "TriggerPoll p = p\<lparr>wake_requested := True\<rparr>"

text \<open>
  One pass of the poll loop up to its next test of the stop token: a poll, then a wait that ends on the
  wake flag, the stop request or the timeout, and clears the flag.
\<close>

definition PollLoop_pass :: "weather_env \<Rightarrow> bool \<Rightarrow> storage \<Rightarrow> weather_provider \<Rightarrow> (storage \<times> weather_provider) option" where
  "PollLoop_pass E stop s p =
     (if stop then None else (let (s1, p1) = PollOnce E s p in Some (s1, p1\<lparr>wake_requested := False\<rparr>)))"

section \<open>What accepted numbers look like\<close>

definition number_char :: "char \<Rightarrow> bool" where
  "number_char c \<longleftrightarrow> c_isalnum c \<or> c \<in> set ''+-._()''"

lemma number_charI: "c_isdigit c \<Longrightarrow> number_char c" "c_isxdigit c \<Longrightarrow> number_char c" "is_sign c \<Longrightarrow> number_char c"
  by (auto simp: number_char_def cpp_class is_sign_def)

lemma number_char_marks:
  "number_char CHR ''e''" "number_char CHR ''E''" "number_char CHR ''p''" "number_char CHR ''P''"
  by (simp_all add: number_char_def cpp_class byte_def)

text \<open>\<open>reads s rest\<close>: what was consumed of \<open>s\<close> up to \<open>rest\<close> is made of such characters.\<close>

definition reads :: "string \<Rightarrow> string \<Rightarrow> bool" where
  "reads s rest \<longleftrightarrow> (\<exists>used. s = used @ rest \<and> list_all number_char used)"

lemma reads_refl [simp]: "reads s s"
  by (simp add: reads_def)

lemma reads_trans: "reads a b \<Longrightarrow> reads b c \<Longrightarrow> reads a c"
  unfolding reads_def by (metis append_assoc list_all_append)

lemma reads_Cons: "number_char c \<Longrightarrow> reads s rest \<Longrightarrow> reads (c # s) rest"
  unfolding reads_def by (metis append_Cons list.pred_inject(2))

lemma reads_tl: "s \<noteq> [] \<Longrightarrow> number_char (hd s) \<Longrightarrow> reads s (tl s)"
  by (cases s) (auto intro: reads_Cons)

lemma reads_dropWhile: "(\<And>c. P c \<Longrightarrow> number_char c) \<Longrightarrow> reads s (dropWhile P s)"
  unfolding reads_def by (intro exI [of _ "takeWhile P s"]) (auto simp: list_all_iff dest: set_takeWhileD)

lemma reads_strip_sign: "strip_sign s = (neg, t) \<Longrightarrow> reads s t"
  by (cases s) (auto simp: strip_sign_def intro: reads_Cons number_charI split: if_splits)

lemma reads_exponent:
  assumes "\<And>c. c \<in> marks \<Longrightarrow> number_char c" "read_exponent marks s = (e, rest)"
  shows "reads s rest"
proof (cases "s \<noteq> [] \<and> hd s \<in> marks")
  case True
  obtain neg t where t: "strip_sign (tl s) = (neg, t)" by fastforce
  have "reads s (tl s)" using True assms(1) by (intro reads_tl) auto
  moreover have "reads t (dropWhile c_isdigit t)" by (rule reads_dropWhile) (rule number_charI(1))
  ultimately have "reads s (dropWhile c_isdigit t)" using reads_strip_sign [OF t] reads_trans by blast
  then show ?thesis using assms(2) True t by (auto simp: read_exponent_def Let_def split: if_splits)
qed (use assms(2) in \<open>auto simp: read_exponent_def\<close>)

lemma reads_mantissa:
  assumes "\<And>c. isd c \<Longrightarrow> number_char c" "read_mantissa isd s = (ds, n, rest)"
  shows "reads s rest"
proof -
  let ?t = "dropWhile isd s"
  have s: "reads s ?t" by (rule reads_dropWhile) (rule assms(1))
  have "reads ?t (dropWhile isd (tl ?t))" if "?t \<noteq> []" "hd ?t = CHR ''.''"
    using that by (intro reads_trans [OF reads_tl [of ?t] reads_dropWhile [of isd "tl ?t", OF assms(1)]]) (simp_all add: number_char_def)
  then show ?thesis
    using assms(2) s reads_trans by (auto simp: read_mantissa_def Let_def split: if_splits)
qed

lemma reads_word:
  assumes "starts_nocase word s" "list_all (\<lambda>c. c_isdigit c \<or> c_islower c) word"
  shows "reads s (drop (length word) s)"
proof -
  have len: "length word \<le> length s" and eq: "map c_tolower (take (length word) s) = map byte word"
    using assms(1) by (simp_all add: starts_nocase_def)
  have "number_char (s ! i)" if "i < length word" for i
  proof -
    have "c_tolower (s ! i) = byte (word ! i)"
      using arg_cong [OF eq, of "\<lambda>l. l ! i"] that len by simp
    moreover have "c_isdigit (word ! i) \<or> c_islower (word ! i)" using assms(2) that by (auto simp: list_all_length)
    ultimately show ?thesis by (auto simp: number_char_def cpp_class split: if_splits)
  qed
  then have "list_all number_char (take (length word) s)" using len by (simp add: list_all_length)
  then show ?thesis unfolding reads_def by (metis append_take_drop_id)
qed

lemma reads_after_nan: "reads s (after_nan s)"
proof (cases "after_nan s = s")
  case False
  let ?P = "\<lambda>c. c_isalnum c \<or> c = CHR ''_''"
  let ?t = "dropWhile ?P (tl s)"
  have c: "s \<noteq> []" "hd s = CHR ''(''" "?t \<noteq> []" "hd ?t = CHR '')''" "after_nan s = tl ?t"
    using False by (auto simp: after_nan_def Let_def split: if_splits)
  have "reads s (tl s)" "reads (tl s) ?t" "reads ?t (tl ?t)"
    using c by (auto intro!: reads_tl reads_dropWhile simp: number_char_def)
  then show ?thesis unfolding c(5) using reads_trans by blast
qed simp

lemma strtod_reads:
  assumes "strtod rnd text = Some (v, rest)"
  shows "reads (dropWhile c_isspace text) rest"
proof -
  obtain neg s where s: "strip_sign (dropWhile c_isspace text) = (neg, s)" by fastforce
  have words: "starts_nocase ''infinity'' s \<Longrightarrow> reads s (drop 8 s)" "starts_nocase ''inf'' s \<Longrightarrow> reads s (drop 3 s)"
    "starts_nocase ''nan'' s \<Longrightarrow> reads s (drop 3 s)" "starts_nocase ''0x'' s \<Longrightarrow> reads s (drop 2 s)"
    using reads_word [of "''infinity''" s] reads_word [of "''inf''" s] reads_word [of "''nan''" s] reads_word [of "''0x''" s]
    by (simp_all add: cpp_class byte_def eval_nat_numeral)
  have hex: "reads s r" if "read_hex s = Some (x, r)" for x r
  proof -
    obtain ds n t where m: "read_mantissa c_isxdigit (drop 2 s) = (ds, n, t)"
      by (cases "read_mantissa c_isxdigit (drop 2 s)")
    obtain e r' where x: "read_exponent {CHR ''p'', CHR ''P''} t = (e, r')" by fastforce
    have "starts_nocase ''0x'' s" "r = r'" using that m x by (auto simp: read_hex_def split: if_splits)
    moreover have "reads t r'" by (rule reads_exponent [OF _ x]) (use number_char_marks in blast)
    ultimately show ?thesis using words(4) reads_mantissa [OF number_charI(2) m] reads_trans by blast
  qed
  have dec: "reads s r" if "read_decimal s = Some (x, r)" for x r
  proof -
    obtain ds n t where m: "read_mantissa c_isdigit s = (ds, n, t)"
      by (cases "read_mantissa c_isdigit s")
    obtain e r' where x: "read_exponent {CHR ''e'', CHR ''E''} t = (e, r')" by fastforce
    have "r = r'" using that m x by (auto simp: read_decimal_def split: if_splits)
    moreover have "reads t r'" by (rule reads_exponent [OF _ x]) (use number_char_marks in blast)
    ultimately show ?thesis using reads_mantissa [OF number_charI(1) m] reads_trans by blast
  qed
  have nan: "starts_nocase ''nan'' s \<Longrightarrow> reads s (after_nan (drop 3 s))"
    using words(3) reads_after_nan reads_trans by blast
  have "reads s rest"
    using assms words(1,2) nan hex dec
    by (auto simp: strtod_def s Let_def split: if_splits option.splits)
  then show ?thesis using reads_strip_sign [OF s] reads_trans by blast
qed

lemma accepted_chars:
  assumes "ParsesAsNumber rnd t" "c \<in> set t"
  shows "c_isspace c \<or> number_char c"
proof -
  obtain v where "strtod rnd t = Some (v, [])"
    using assms(1) by (auto simp: ParsesAsNumber_def ParseNumber_def split: if_splits option.splits)
  from strtod_reads [OF this] have "list_all number_char (dropWhile c_isspace t)" by (auto simp: reads_def)
  moreover have "c \<in> set (takeWhile c_isspace t) \<or> c \<in> set (dropWhile c_isspace t)"
    using assms(2) takeWhile_dropWhile_id [of c_isspace t] by (metis Un_iff set_append)
  ultimately show ?thesis by (auto simp: list_all_iff dest: set_takeWhileD)
qed

lemma accepted_separators:
  assumes "ParsesAsNumber rnd t"
  shows "CHR ''&'' \<notin> set t" "CHR ''#'' \<notin> set t" "CHR ''?'' \<notin> set t" "CHR ''%'' \<notin> set t"
proof -
  have "\<not> c_isspace c \<and> \<not> number_char c" if "c \<in> {CHR ''&'', CHR ''#'', CHR ''?'', CHR ''%''}" for c
    using that by (elim insertE emptyE) (simp_all add: number_char_def cpp_class byte_def)
  then show "CHR ''&'' \<notin> set t" "CHR ''#'' \<notin> set t" "CHR ''?'' \<notin> set t" "CHR ''%'' \<notin> set t"
    using accepted_chars [OF assms] by blast+
qed

section \<open>The request of a poll\<close>

text \<open>The query of a URL: between the first question mark and the fragment.\<close>

definition url_query :: "string \<Rightarrow> string" where
  "url_query url = takeWhile (\<lambda>c. c \<noteq> CHR ''#'') (drop 1 (dropWhile (\<lambda>c. c \<noteq> CHR ''?'') url))"

lemma form_fields_amp: "CHR ''&'' \<notin> set f \<Longrightarrow> form_fields (f @ CHR ''&'' # rest) = f # form_fields rest"
  by (subst form_fields_split) simp

lemma form_fields_one: "CHR ''&'' \<notin> set f \<Longrightarrow> form_fields f = [f]"
  by (subst form_fields_split) simp

lemma forecast_url_split:
  "forecast_url lat lon = ''https://api.open-meteo.com/v1/forecast'' @ CHR ''?'' #
     (''latitude='' @ lat) @ CHR ''&'' # (''longitude='' @ lon) @ CHR ''&'' # ''current=temperature_2m,weather_code''"
  by (simp add: forecast_url_def)

lemma forecast_url_confined:
  assumes "ParsesAsNumber rnd lat" "ParsesAsNumber rnd lon"
  shows "url_host (forecast_url lat lon) = ''api.open-meteo.com'' \<and>
    form_fields (url_query (forecast_url lat lon)) =
      [''latitude='' @ lat, ''longitude='' @ lon, ''current=temperature_2m,weather_code'']"
proof
  let ?q = "(''latitude='' @ lat) @ CHR ''&'' # (''longitude='' @ lon) @ CHR ''&'' # ''current=temperature_2m,weather_code''"
  show "url_host (forecast_url lat lon) = ''api.open-meteo.com''"
    by (simp add: forecast_url_def url_host_def url_hostport_def url_authority_def)
  have "CHR ''#'' \<notin> set ?q" using accepted_separators [OF assms(1)] accepted_separators [OF assms(2)] by simp
  then have "url_query (forecast_url lat lon) = ?q" unfolding forecast_url_split url_query_def by simp
  moreover have "form_fields ?q = [''latitude='' @ lat, ''longitude='' @ lon, ''current=temperature_2m,weather_code'']"
    using accepted_separators(1) [OF assms(1)] accepted_separators(1) [OF assms(2)]
    by (subst form_fields_amp, simp)+ (simp add: form_fields_one)
  ultimately show "form_fields (url_query (forecast_url lat lon)) =
      [''latitude='' @ lat, ''longitude='' @ lon, ''current=temperature_2m,weather_code'']" by simp
qed

text \<open>
  A stored location cannot redirect or extend the weather request. A poll asks the HTTP client for
  nothing but a URL of the weather service with exactly three query fields, the two coordinates as
  stored and the fixed list of values asked for: a client that answers differently on any other URL
  makes no difference. This holds for every text \<^verbatim>\<open>strtod\<close> accepts, hexadecimal, exponent, infinity and
  nan forms included.
\<close>

lemma forecast_request_confined:
  assumes "\<And>url lat lon. GetSetting s weather_kModuleId kLatitudeKey = Some lat \<Longrightarrow>
      GetSetting s weather_kModuleId kLongitudeKey = Some lon \<Longrightarrow> url_host url = ''api.open-meteo.com'' \<Longrightarrow>
      form_fields (url_query url) =
        [''latitude='' @ vv_value lat, ''longitude='' @ vv_value lon, ''current=temperature_2m,weather_code''] \<Longrightarrow>
      get' url = we_get E url"
  shows "PollOnce (E\<lparr>we_get := get'\<rparr>) s p = PollOnce E s p"
proof -
  have get: "get' (forecast_url (vv_value lat) (vv_value lon)) = we_get E (forecast_url (vv_value lat) (vv_value lon))"
    if "GetSetting s weather_kModuleId kLatitudeKey = Some lat" "GetSetting s weather_kModuleId kLongitudeKey = Some lon"
      "ParsesAsNumber (we_strtod_rnd E) (vv_value lat)" "ParsesAsNumber (we_strtod_rnd E) (vv_value lon)" for lat lon
    using assms [OF that(1,2)] forecast_url_confined [OF that(3,4)] by blast
  have same: "live_reading (E\<lparr>we_get := get'\<rparr>) = live_reading E" "cached_reading (E\<lparr>we_get := get'\<rparr>) = cached_reading E"
    by (simp_all add: fun_eq_iff live_reading_def cached_reading_def parse_reading_def split: option.split)
  show ?thesis
    unfolding PollOnce_def same using get by (simp add: Let_def split: option.split)
qed

definition sample_weather_env :: weather_env where
  "sample_weather_env =
     \<lparr>we_json = sample_json, we_strtod_rnd = Finite, we_int_rnd = \<lambda>x. x,
      we_get = \<lambda>url. \<lparr>cr_success = False, cr_status_code = 0, cr_body = []\<rparr>, we_meanwhile = \<lambda>s. s, we_has_logger = True\<rparr>"

lemma sample_coordinates: "ParsesAsNumber Finite ''52.5''" "ParsesAsNumber Finite ''-1e1''"
  by (simp_all add: ParsesAsNumber_def ParseNumber_def strtod_def strip_sign_def is_sign_def starts_nocase_def read_hex_def
      read_decimal_def read_mantissa_def read_exponent_def Let_def cpp_class byte_def)

definition sample_location :: storage where
  "sample_location =
     snd (SetSetting (snd (SetSetting sample_storage weather_kModuleId kLatitudeKey 1 ''52.5'')) weather_kModuleId kLongitudeKey 1 ''-1e1'')"

section \<open>What the snapshot promises\<close>

definition weather_ok :: "weather_state \<Rightarrow> bool" where
  "weather_ok w \<longleftrightarrow>
     (live w \<longrightarrow> has_reading w) \<and> (has_reading w \<longrightarrow> configured w) \<and> (\<not> configured w \<longrightarrow> display_name w = []) \<and>
     (\<not> has_reading w \<longrightarrow> temperature_c w = 0 \<and> weather_code w = 0) \<and> 0 \<le> weather_code w \<and> weather_code w \<le> 99"

lemma ClampWeatherCode_bounds: "0 \<le> ClampWeatherCode c" "ClampWeatherCode c \<le> 99"
  unfolding ClampWeatherCode_def by (simp_all add: le_floor_iff floor_le_iff)

lemma ClampWeatherCode_int: "0 \<le> n \<Longrightarrow> n \<le> 99 \<Longrightarrow> ClampWeatherCode (of_int n) = n"
  by (simp add: ClampWeatherCode_def min_def max_def)

lemma parse_reading_code: "parse_reading E tk ck j = Some (t, code) \<Longrightarrow> 0 \<le> code \<and> code \<le> 99"
  by (auto simp: parse_reading_def ClampWeatherCode_bounds split: option.splits)

lemma reading_codes:
  "live_reading E r = Some (t, code) \<Longrightarrow> 0 \<le> code \<and> code \<le> 99"
  "cached_reading E s = Some (t, code) \<Longrightarrow> 0 \<le> code \<and> code \<le> 99"
  by (auto simp: live_reading_def cached_reading_def dest: parse_reading_code split: if_splits option.splits)

lemma publish_state_simps [simp]:
  "weather_snapshot (publish_state st p) = st" "weather_updates (publish_state st p) = Suc (weather_updates p)"
  "wake_requested (publish_state st p) = wake_requested p"
  by (simp_all add: publish_state_def)

lemma no_reading_ok [simp]: "weather_ok (no_reading True name)" "weather_ok (no_reading False [])"
  by (simp_all add: weather_ok_def no_reading_def)

lemma PollOnce_ok: "weather_ok (weather_snapshot (snd (PollOnce E s p)))"
proof (cases "GetSetting s weather_kModuleId kLatitudeKey")
  case lat: (Some lat)
  show ?thesis
  proof (cases "GetSetting s weather_kModuleId kLongitudeKey")
    case lon: (Some lon)
    let ?r = "live_reading E (we_get E (forecast_url (vv_value lat) (vv_value lon)))"
    have live: "weather_ok \<lparr>configured = True, has_reading = True, live = b, temperature_c = t, weather_code = code, display_name = n\<rparr>"
      if "0 \<le> code \<and> code \<le> 99" for b t code n
      using that by (simp add: weather_ok_def)
    show ?thesis
      using reading_codes(1) [of E "we_get E (forecast_url (vv_value lat) (vv_value lon))"] reading_codes(2) [of E "we_meanwhile E s"]
      by (auto simp: PollOnce_def lat lon Let_def case_prod_beta split: option.splits intro!: live)
  qed (simp add: PollOnce_def lat)
qed (simp add: PollOnce_def)

text \<open>The provider under polls and triggers, in any order, over any storage and any environment.\<close>

datatype weather_op = WPoll weather_env storage | WWake | WTrigger

fun weather_step :: "weather_op \<Rightarrow> weather_provider \<Rightarrow> weather_provider" where
  "weather_step (WPoll E s) p = snd (PollOnce E s p)"
| "weather_step WWake p = p\<lparr>wake_requested := False\<rparr>"
| "weather_step WTrigger p = TriggerPoll p"

text \<open>
  C34: Every snapshot a widget can see is well formed: a live reading is a reading, a reading exists only for
  a configured location, the code is a WMO code from 0 to 99 whatever number the service sent, and
  without a reading the numbers are zero. Every poll, successful or not, publishes exactly one update.
\<close>

theorem weather_snapshot_wellformed:
  "weather_ok (weather_snapshot (fold weather_step ops weather_init)) \<and>
   weather_updates (fold weather_step ops weather_init) = length (filter (\<lambda>op. \<exists>E s. op = WPoll E s) ops)"
proof (induction ops rule: rev_induct)
  case (snoc op ops)
  have "weather_updates (snd (PollOnce E s p)) = Suc (weather_updates p)" for E s p
    by (auto simp: PollOnce_def Let_def publish_state_def case_prod_beta split: option.split)
  then show ?case using snoc PollOnce_ok by (cases op) (simp_all add: TriggerPoll_def)
qed (simp add: weather_init_def)

lemma cached_reading_written:
  assumes "json_reads_back (we_json E) (reading_cache t code name)" "0 \<le> code" "code \<le> 99" "we_int_rnd E (of_int code) = of_int code"
    and "WriteCache s weather_kModuleId kCacheKey kCacheSchemaVersion (json_dump (we_json E) (reading_cache t code name)) = (True, s')"
    and "ReadCache s'' weather_kModuleId kCacheKey = ReadCache s' weather_kModuleId kCacheKey"
  shows "cached_reading E s'' = Some (t, code)"
proof -
  let ?j = "reading_cache t code name"
  have "ReadCache s'' weather_kModuleId kCacheKey = Some \<lparr>schema_version = kCacheSchemaVersion, vv_value = json_dump (we_json E) ?j\<rparr>"
    using ReadCache_WriteCache [OF _ assms(5)] assms(6) by (simp add: int32_range_def kCacheSchemaVersion_def)
  moreover have "TryParseJsonObject (we_json E) (json_dump (we_json E) ?j) = Some ?j"
    by (rule TryParse_reads_back [OF assms(1)]) (simp_all add: reading_cache_def jobj_def)
  moreover have "find_number (we_int_rnd E) ''temperature_c'' ?j = Some t"
    "find_number (we_int_rnd E) ''weather_code'' ?j = Some (of_int code)"
    using assms(4) by (simp_all add: reading_cache_def find_number_def json_find_jobj)
  ultimately show ?thesis
    using ClampWeatherCode_int [OF assms(2,3)] by (simp add: cached_reading_def parse_reading_def)
qed

lemma PollOnce_live:
  assumes "PollOnce E s p = (s1, p1)" "live (weather_snapshot p1)"
  obtains lat lon t code where "GetSetting s weather_kModuleId kLatitudeKey = Some lat"
    "GetSetting s weather_kModuleId kLongitudeKey = Some lon"
    "ParsesAsNumber (we_strtod_rnd E) (vv_value lat)" "ParsesAsNumber (we_strtod_rnd E) (vv_value lon)"
    "0 \<le> code" "code \<le> 99"
    "weather_snapshot p1 = \<lparr>configured = True, has_reading = True, live = True, temperature_c = t, weather_code = code,
       display_name = (case GetSetting s weather_kModuleId kDisplayNameKey of None \<Rightarrow> [] | Some v \<Rightarrow> vv_value v)\<rparr>"
    "s1 = snd (WriteCache (we_meanwhile E s) weather_kModuleId kCacheKey kCacheSchemaVersion
       (json_dump (we_json E) (reading_cache t code (display_name (weather_snapshot p1)))))"
proof -
  have not: "\<not> live (no_reading b n)" for b n by (simp add: no_reading_def)
  obtain lat lon where set: "GetSetting s weather_kModuleId kLatitudeKey = Some lat"
      "GetSetting s weather_kModuleId kLongitudeKey = Some lon"
      "ParsesAsNumber (we_strtod_rnd E) (vv_value lat)" "ParsesAsNumber (we_strtod_rnd E) (vv_value lon)"
    using assms not by (auto simp: PollOnce_def Let_def split: option.splits if_splits)
  let ?r = "we_get E (forecast_url (vv_value lat) (vv_value lon))"
  obtain t code where r: "live_reading E ?r = Some (t, code)"
    using assms set not by (auto simp: PollOnce_def Let_def split: option.splits)
  show thesis
    by (rule that [OF set, of code t]) (use assms set r reading_codes(1) [OF r] in \<open>auto simp: PollOnce_def Let_def case_prod_beta\<close>)
qed

text \<open>
  The last reading survives an outage and a restart. After a successful poll whose cache write went
  through, any later poll of any provider over the same settings and cache that fails to get an answer
  shows the same temperature, code and name, marked as not live, instead of nothing.
\<close>

lemma reading_survives_outage:
  assumes "\<And>i. 0 \<le> i \<Longrightarrow> i \<le> 99 \<Longrightarrow> we_int_rnd E (of_int i) = of_int i"
    and "json_reads_back (we_json E)
      (reading_cache (temperature_c (weather_snapshot p1)) (weather_code (weather_snapshot p1)) (display_name (weather_snapshot p1)))"
    and "write_io (cache_store (we_meanwhile E s)) weather_kModuleId kCacheKey = IoOk"
    and "PollOnce E s p = (s1, p1)" "live (weather_snapshot p1)"
    and "\<And>k. GetSetting s2 weather_kModuleId k = GetSetting s weather_kModuleId k"
    and "ReadCache (we_meanwhile E s2) weather_kModuleId kCacheKey = ReadCache s1 weather_kModuleId kCacheKey"
    and "\<And>url. live_reading E (get' url) = None"
  shows "weather_snapshot (snd (PollOnce (E\<lparr>we_get := get'\<rparr>) s2 q)) = (weather_snapshot p1)\<lparr>live := False\<rparr>"
proof -
  obtain lat lon t code where set: "GetSetting s weather_kModuleId kLatitudeKey = Some lat"
      "GetSetting s weather_kModuleId kLongitudeKey = Some lon"
      "ParsesAsNumber (we_strtod_rnd E) (vv_value lat)" "ParsesAsNumber (we_strtod_rnd E) (vv_value lon)"
    and code: "0 \<le> code" "code \<le> 99"
    and snap: "weather_snapshot p1 = \<lparr>configured = True, has_reading = True, live = True, temperature_c = t, weather_code = code,
       display_name = (case GetSetting s weather_kModuleId kDisplayNameKey of None \<Rightarrow> [] | Some v \<Rightarrow> vv_value v)\<rparr>"
    and s1: "s1 = snd (WriteCache (we_meanwhile E s) weather_kModuleId kCacheKey kCacheSchemaVersion
       (json_dump (we_json E) (reading_cache t code (display_name (weather_snapshot p1)))))"
    using PollOnce_live [OF assms(4,5)] by metis
  have "IsValidStoreSegment weather_kModuleId" "IsValidStoreSegment kCacheKey"
    by (simp_all add: IsValidStoreSegment_iff weather_kModuleId_def kCacheKey_def)
  then have "fst (WriteCache (we_meanwhile E s) weather_kModuleId kCacheKey kCacheSchemaVersion x)" for x
    using assms(3) by (simp add: WriteCache_def HostCacheStore_Write_def WriteFile_def)
  then have "cached_reading E (we_meanwhile E s2) = Some (t, code)"
    using cached_reading_written [of E t code "display_name (weather_snapshot p1)", OF _ code assms(1) [OF code] _ assms(7),
        of "we_meanwhile E s"] assms(2) s1 snap
    by (simp add: prod_eq_iff)
  moreover have "live_reading (E\<lparr>we_get := get'\<rparr>) = live_reading E" "cached_reading (E\<lparr>we_get := get'\<rparr>) = cached_reading E"
    by (simp_all add: fun_eq_iff live_reading_def cached_reading_def parse_reading_def split: option.split)
  ultimately show ?thesis
    using set assms(8) by (simp add: PollOnce_def assms(6) snap Let_def)
qed

text \<open>A service that answers once, and a cache text the library reads back.\<close>

definition outage_env :: weather_env where
  "outage_env =
     \<lparr>we_json = \<lparr>json_parse = \<lambda>t. if t = ''F'' then Some (jobj [(''current'', jobj [(''temperature_2m'', JFloat (41 / 2)), (''weather_code'', JInt 300)])])
                              else if t = ''{}'' then Some (reading_cache (41 / 2) 99 []) else None,
                json_dump = \<lambda>_. ''{}''\<rparr>,
      we_strtod_rnd = Finite, we_int_rnd = \<lambda>x. x,
      we_get = \<lambda>url. \<lparr>cr_success = True, cr_status_code = 200, cr_body = ''F''\<rparr>, we_meanwhile = \<lambda>s. s, we_has_logger = True\<rparr>"

lemma sample_location_settings:
  "GetSetting sample_location weather_kModuleId kLatitudeKey = Some \<lparr>schema_version = 1, vv_value = ''52.5''\<rparr>"
  "GetSetting sample_location weather_kModuleId kLongitudeKey = Some \<lparr>schema_version = 1, vv_value = ''-1e1''\<rparr>"
  "GetSetting sample_location weather_kModuleId kDisplayNameKey = None"
  "write_io (cache_store sample_location) weather_kModuleId kCacheKey = IoOk"
proof -
  have v: "IsValidStoreSegment weather_kModuleId" "IsValidStoreSegment kLatitudeKey" "IsValidStoreSegment kLongitudeKey"
    "IsValidStoreSegment kDisplayNameKey" "\<not> IsReservedSettingsKey weather_kModuleId k"
    "kLatitudeKey \<noteq> kLongitudeKey" "kDisplayNameKey \<noteq> kLatitudeKey" "kDisplayNameKey \<noteq> kLongitudeKey" for k
    by (simp_all add: IsValidStoreSegment_iff weather_kModuleId_def kLatitudeKey_def kLongitudeKey_def kDisplayNameKey_def
        IsReservedSettingsKey_def auth_kModuleId_def)
  note d = sample_location_def SetSetting_def HostSettingsStore_Set_def WriteFile_def sample_storage_def GetSetting_def
    HostSettingsStore_Get_def ReadFile_def DecodeIfPresent_def Let_def
  show "GetSetting sample_location weather_kModuleId kLatitudeKey = Some \<lparr>schema_version = 1, vv_value = ''52.5''\<rparr>"
    "GetSetting sample_location weather_kModuleId kLongitudeKey = Some \<lparr>schema_version = 1, vv_value = ''-1e1''\<rparr>"
    using v Decode_Encode [of 1] by (simp_all add: d int32_range_def)
  show "GetSetting sample_location weather_kModuleId kDisplayNameKey = None"
    "write_io (cache_store sample_location) weather_kModuleId kCacheKey = IoOk"
    using v by (simp_all add: d)
qed

end
