(* ===== verification/Settings_Routes.thy ===== *)
theory Settings_Routes
  imports Auth
begin

text \<open>
  The settings and backup endpoints of core/settings_routes.cpp. Each handler is the function RequireAuth
  wraps; the state is any extension of the authentication service's state, which holds the storage,
  with the device names committed so far as the only other effect.
\<close>

section \<open>Handlers\<close>

definition kDeviceNameKey :: string where "kDeviceNameKey = ''device_name''"
definition kMaxSettingValueLength :: nat where "kMaxSettingValueLength = 4096"

definition InvalidKey :: "string \<Rightarrow> string \<Rightarrow> bool" where
  "InvalidKey module_id key \<longleftrightarrow> \<not> IsValidStoreSegment module_id \<or> \<not> IsValidStoreSegment key"

definition IsValidSchemaVersion :: "json \<Rightarrow> bool" where
  "IsValidSchemaVersion v \<longleftrightarrow> (case v of JInt i \<Rightarrow> 0 \<le> i \<and> i \<le> 2 ^ 31 - 1 | _ \<Rightarrow> False)"

text \<open>The schema version field: present and valid.\<close>

definition find_schema :: "json \<Rightarrow> int option" where
  "find_schema j =
     (case json_find ''schemaVersion'' j of
        None \<Rightarrow> None
      | Some v \<Rightarrow> if IsValidSchemaVersion v then find_int ''schemaVersion'' j else None)"

definition EntryToJson :: "setting_entry \<Rightarrow> json" where
  "EntryToJson e =
     jobj [(''module'', JStr (se_module_id e)), (''key'', JStr (se_key e)), (''value'', JStr (se_value e)),
           (''schemaVersion'', JInt (se_schema_version e))]"

definition AllSettingsJson :: "storage \<Rightarrow> json" where
  "AllSettingsJson s = JArr (map EntryToJson (ListAllSettings s))"

text \<open>
  The callbacks a caller wires in: \<open>on_device_name_validate\<close>, \<open>on_setting_validate\<close> and whether
  \<open>on_device_name_committed\<close> is set. An absent callback accepts everything.
\<close>

record settings_env =
  on_device_name_validate :: "(string \<Rightarrow> bool) option"
  has_device_name_committed :: bool
  on_setting_validate :: "(string \<Rightarrow> string \<Rightarrow> string \<Rightarrow> bool) option"

record settings_app = auth +
  committed_names :: "string list"

definition setting_accepted :: "settings_env \<Rightarrow> string \<Rightarrow> string \<Rightarrow> string \<Rightarrow> bool" where
  "setting_accepted C m k v \<longleftrightarrow> (case on_setting_validate C of None \<Rightarrow> True | Some f \<Rightarrow> f m k v)"

definition name_accepted :: "settings_env \<Rightarrow> string \<Rightarrow> bool" where
  "name_accepted C v \<longleftrightarrow> (case on_device_name_validate C of None \<Rightarrow> True | Some f \<Rightarrow> f v)"

definition is_device_name :: "string \<Rightarrow> string \<Rightarrow> bool" where
  "is_device_name m k \<longleftrightarrow> m = auth_kModuleId \<and> k = kDeviceNameKey"

definition settings_get_handler :: "json_lib \<Rightarrow> 'x settings_app_scheme handler" where
  "settings_get_handler L request s = (json_response 200 (json_dump L (AllSettingsJson (auth_storage s))), s)"

definition missing_field :: "string \<Rightarrow> http_response" where
  "missing_field f = json_response 400 (''{\"error\":\"missing_field\",\"field\":\"'' @ f @ ''\"}'')"

definition settings_store_step ::
  "settings_env \<Rightarrow> string \<Rightarrow> string \<Rightarrow> int \<Rightarrow> string \<Rightarrow> 'x settings_app_scheme \<Rightarrow> http_response \<times> 'x settings_app_scheme" where
  "settings_store_step C m k version v s =
     (let (ok, st) = SetSetting (auth_storage s) m k (to_int32 version) v; s1 = s\<lparr>auth_storage := st\<rparr>
      in if \<not> ok then (json_response 500 ''{\"error\":\"write_failed\"}'', s1)
         else (json_response 200 ''{\"status\":\"ok\"}'',
               if is_device_name m k \<and> has_device_name_committed C
               then s1\<lparr>committed_names := committed_names s1 @ [v]\<rparr> else s1))"

definition settings_checked ::
  "settings_env \<Rightarrow> string \<Rightarrow> string \<Rightarrow> int \<Rightarrow> string \<Rightarrow> 'x settings_app_scheme \<Rightarrow> http_response \<times> 'x settings_app_scheme" where
  "settings_checked C m k version v s =
     (if InvalidKey m k then (json_response 400 ''{\"error\":\"invalid_key\"}'', s)
      else if kMaxSettingValueLength < length v then (json_response 400 ''{\"error\":\"value_too_long\"}'', s)
      else if IsReservedSettingsKey m k then (json_response 403 ''{\"error\":\"reserved_key\"}'', s)
      else if \<not> setting_accepted C m k v then (json_response 400 ''{\"error\":\"invalid_value\"}'', s)
      else if is_device_name m k \<and> \<not> name_accepted C v then (json_response 400 ''{\"error\":\"invalid_value\"}'', s)
      else settings_store_step C m k version v s)"

definition settings_post_handler :: "json_lib \<Rightarrow> settings_env \<Rightarrow> 'x settings_app_scheme handler" where
  "settings_post_handler L C request s =
     (case TryParseJsonObject L (req_body request) of
        None \<Rightarrow> (json_response 400 ''{\"error\":\"invalid_request\"}'', s)
      | Some parsed \<Rightarrow>
          (case find_string ''module'' parsed of
             None \<Rightarrow> (missing_field ''module'', s)
           | Some m \<Rightarrow>
               (case find_string ''key'' parsed of
                  None \<Rightarrow> (missing_field ''key'', s)
                | Some k \<Rightarrow>
                    (case find_string ''value'' parsed of
                       None \<Rightarrow> (missing_field ''value'', s)
                     | Some v \<Rightarrow>
                         (case find_schema parsed of
                            None \<Rightarrow> (missing_field ''schemaVersion'', s)
                          | Some version \<Rightarrow> settings_checked C m k version v s)))))"

definition settings_erase_handler :: "json_lib \<Rightarrow> 'x settings_app_scheme handler" where
  "settings_erase_handler L request s =
     (case TryParseJsonObject L (req_body request) of
        None \<Rightarrow> (json_response 400 ''{\"error\":\"invalid_request\"}'', s)
      | Some parsed \<Rightarrow>
          (case (find_string ''module'' parsed, find_string ''key'' parsed) of
             (Some m, Some k) \<Rightarrow>
               if InvalidKey m k then (json_response 400 ''{\"error\":\"invalid_key\"}'', s)
               else if IsReservedSettingsKey m k then (json_response 403 ''{\"error\":\"reserved_key\"}'', s)
               else
                 (let (ok, st) = EraseSetting (auth_storage s) m k; s1 = s\<lparr>auth_storage := st\<rparr>
                  in if \<not> ok then (json_response 500 ''{\"error\":\"erase_failed\"}'', s1)
                     else (json_response 200 ''{\"status\":\"ok\"}'', s1))
           | _ \<Rightarrow> (json_response 400 ''{\"error\":\"missing_field\"}'', s)))"

definition backup_body :: "storage \<Rightarrow> json" where
  "backup_body s = jobj [(''settings'', AllSettingsJson s)]"

definition backup_handler :: "json_lib \<Rightarrow> 'x settings_app_scheme handler" where
  "backup_handler L request s =
     (with_header ''Content-Disposition'' ''attachment; filename=\"homedeck-backup.json\"''
        (json_response 200 (json_dump L (backup_body (auth_storage s)))), s)"

text \<open>The restore loop: counts, the two reported lists, and the storage.\<close>

record restore_report =
  applied :: int
  skipped :: int
  failed_entries :: "json list"
  rejected_entries :: "json list"

definition entry_ref :: "string \<Rightarrow> string \<Rightarrow> json" where
  "entry_ref m k = jobj [(''module'', JStr m), (''key'', JStr k)]"

definition restore_entry :: "settings_env \<Rightarrow> json \<Rightarrow> restore_report \<times> storage \<Rightarrow> restore_report \<times> storage" where
  "restore_entry C entry = (\<lambda>(r, s).
     case (find_string ''module'' entry, find_string ''key'' entry, find_string ''value'' entry, find_schema entry) of
       (Some m, Some k, Some v, Some version) \<Rightarrow>
         if IsReservedSettingsKey m k then (r\<lparr>rejected_entries := rejected_entries r @ [entry_ref m k]\<rparr>, s)
         else if InvalidKey m k \<or> kMaxSettingValueLength < length v
         then (r\<lparr>failed_entries := failed_entries r @ [entry_ref m k]\<rparr>, s)
         else if \<not> setting_accepted C m k v then (r\<lparr>rejected_entries := rejected_entries r @ [entry_ref m k]\<rparr>, s)
         else
           (let (ok, s1) = SetSetting s m k (to_int32 version) v
            in (if ok then r\<lparr>applied := applied r + 1\<rparr> else r\<lparr>failed_entries := failed_entries r @ [entry_ref m k]\<rparr>, s1))
     | _ \<Rightarrow> (r\<lparr>skipped := skipped r + 1\<rparr>, s))"

definition empty_report :: restore_report where
  "empty_report = \<lparr>applied = 0, skipped = 0, failed_entries = [], rejected_entries = []\<rparr>"

definition restore_loop :: "settings_env \<Rightarrow> json list \<Rightarrow> restore_report \<times> storage \<Rightarrow> restore_report \<times> storage" where
  "restore_loop C entries = fold (restore_entry C) entries"

definition report_json :: "restore_report \<Rightarrow> json" where
  "report_json r =
     jobj [(''applied'', JInt (applied r)), (''skipped'', JInt (skipped r)), (''failed'', JArr (failed_entries r)),
           (''rejected'', JArr (rejected_entries r))]"

definition restore_handler :: "json_lib \<Rightarrow> settings_env \<Rightarrow> 'x settings_app_scheme handler" where
  "restore_handler L C request s =
     (case TryParseJsonObject L (req_body request) of
        None \<Rightarrow> (json_response 400 ''{\"error\":\"invalid_request\"}'', s)
      | Some parsed \<Rightarrow>
          (case find_array ''settings'' parsed of
             None \<Rightarrow> (missing_field ''settings'', s)
           | Some entries \<Rightarrow>
               (let (r, st) = restore_loop C entries (empty_report, auth_storage s)
                in (json_response 200 (json_dump L (report_json r)), s\<lparr>auth_storage := st\<rparr>))))"

section \<open>Writing one setting\<close>

lemma find_schema_range: "find_schema j = Some n \<Longrightarrow> 0 \<le> n \<and> n \<le> 2 ^ 31 - 1"
  by (auto simp: find_schema_def find_int_def IsValidSchemaVersion_def split: option.splits json.splits if_splits)

lemma to_int32_nonneg: "0 \<le> n \<Longrightarrow> n \<le> 2 ^ 31 - 1 \<Longrightarrow> to_int32 n = n"
  by (simp add: to_int32_def)

definition setting_checks :: "settings_env \<Rightarrow> string \<Rightarrow> string \<Rightarrow> string \<Rightarrow> bool" where
  "setting_checks C m k v \<longleftrightarrow>
     \<not> InvalidKey m k \<and> length v \<le> kMaxSettingValueLength \<and> \<not> IsReservedSettingsKey m k \<and> setting_accepted C m k v \<and>
     (is_device_name m k \<longrightarrow> name_accepted C v)"

lemma settings_store_step_outcome:
  assumes "0 \<le> n" "n \<le> 2 ^ 31 - 1" "settings_store_step C m k n v s = (resp, s')"
  shows "(m', k') \<noteq> (m, k) \<Longrightarrow> GetSetting (auth_storage s') m' k' = GetSetting (auth_storage s) m' k'"
    and "status_code resp = 200 \<Longrightarrow> GetSetting (auth_storage s') m k = Some \<lparr>schema_version = n, vv_value = v\<rparr> \<and>
      committed_names s' = committed_names s @ (if is_device_name m k \<and> has_device_name_committed C then [v] else [])"
    and "status_code resp \<in> {200, 500}" "status_code resp = 500 \<Longrightarrow> committed_names s' = committed_names s"
    and "secret_store (auth_storage s') = secret_store (auth_storage s)"
proof -
  obtain ok st where w: "SetSetting (auth_storage s) m k n v = (ok, st)" by fastforce
  have "int32_range n" using assms(1,2) by (simp add: int32_range_def)
  note stored = GetSetting_SetSetting [OF this, of "auth_storage s" m k v st]
  have "snd (SetSetting (auth_storage s) m k n v) = st" using w by simp
  note other = GetSetting_SetSetting_other [of m' k' m k "auth_storage s" n v, unfolded this]
  have frame: "secret_store st = secret_store (auth_storage s)"
    using SetSetting_frame(1) [of "auth_storage s" m k n v] w by simp
  note step = assms(3) [unfolded settings_store_step_def to_int32_nonneg [OF assms(1,2)] w Let_def split]
  show "(m', k') \<noteq> (m, k) \<Longrightarrow> GetSetting (auth_storage s') m' k' = GetSetting (auth_storage s) m' k'"
    using step other by (auto split: if_splits)
  show "status_code resp = 200 \<Longrightarrow> GetSetting (auth_storage s') m k = Some \<lparr>schema_version = n, vv_value = v\<rparr> \<and>
      committed_names s' = committed_names s @ (if is_device_name m k \<and> has_device_name_committed C then [v] else [])"
    using step stored w by (auto split: if_splits)
  show "status_code resp \<in> {200, 500}" "status_code resp = 500 \<Longrightarrow> committed_names s' = committed_names s"
    "secret_store (auth_storage s') = secret_store (auth_storage s)"
    using step frame by (auto split: if_splits)
qed

lemma settings_checked_outcome:
  "setting_checks C m k v \<Longrightarrow> settings_checked C m k n v s = settings_store_step C m k n v s"
  "\<not> setting_checks C m k v \<Longrightarrow> snd (settings_checked C m k n v s) = s \<and> status_code (fst (settings_checked C m k n v s)) \<in> {400, 403}"
  by (auto simp: settings_checked_def setting_checks_def)

lemma settings_post_cases:
  obtains (stored) parsed m k v n where "TryParseJsonObject L (req_body request) = Some parsed"
    "find_string ''module'' parsed = Some m" "find_string ''key'' parsed = Some k" "find_string ''value'' parsed = Some v"
    "find_schema parsed = Some n" "setting_checks C m k v" "settings_post_handler L C request s = settings_store_step C m k n v s"
  | (refused) "snd (settings_post_handler L C request s) = s" "status_code (fst (settings_post_handler L C request s)) \<in> {400, 403}"
proof (cases "\<exists>parsed m k v n. TryParseJsonObject L (req_body request) = Some parsed \<and>
    find_string ''module'' parsed = Some m \<and> find_string ''key'' parsed = Some k \<and> find_string ''value'' parsed = Some v \<and>
    find_schema parsed = Some n")
  case True
  then obtain parsed m k v n where p: "TryParseJsonObject L (req_body request) = Some parsed"
    "find_string ''module'' parsed = Some m" "find_string ''key'' parsed = Some k" "find_string ''value'' parsed = Some v"
    "find_schema parsed = Some n" by blast
  then have "settings_post_handler L C request s = settings_checked C m k n v s" by (simp add: settings_post_handler_def)
  then show thesis
    using settings_checked_outcome [of C m k v n s] stored [OF p] refused by (cases "setting_checks C m k v") auto
next
  case False
  then show thesis by (intro refused) (auto simp: settings_post_handler_def missing_field_def split: option.splits)
qed

text \<open>
  C11: What a settings write does, on every branch. The answer is 200, 400, 403 or 500. With 200 or 500 the body was an
  object carrying a module, a key, a value and a schema version, and the value passed every check (safe key segments,
  length, not the reserved password key, the module's own validator, the device name rule); with 200 exactly the value
  posted reads back under exactly the module and key posted, with the schema version posted. A refusal with 400 or 403
  changes nothing at all; a failed write (500) can damage only the key written. No other setting and no secret changes,
  and a device name takes effect only after it has been stored.
\<close>

theorem settings_post_outcome:
  assumes "settings_post_handler L C request s = (resp, s')"
  shows "status_code resp \<in> {200, 400, 403, 500} \<and> (status_code resp \<in> {400, 403} \<longrightarrow> s' = s) \<and>
    secret_store (auth_storage s') = secret_store (auth_storage s) \<and>
    (status_code resp \<in> {200, 500} \<longrightarrow>
       (\<exists>body m k v n. TryParseJsonObject L (req_body request) = Some body \<and>
          find_string ''module'' body = Some m \<and> find_string ''key'' body = Some k \<and> find_string ''value'' body = Some v \<and>
          find_int ''schemaVersion'' body = Some n \<and> 0 \<le> n \<and> n \<le> 2 ^ 31 - 1 \<and> setting_checks C m k v \<and>
          (\<forall>m' k'. (m', k') \<noteq> (m, k) \<longrightarrow> GetSetting (auth_storage s') m' k' = GetSetting (auth_storage s) m' k') \<and>
          (status_code resp = 200 \<longrightarrow> GetSetting (auth_storage s') m k = Some \<lparr>schema_version = n, vv_value = v\<rparr>) \<and>
          committed_names s' = committed_names s @
            (if status_code resp = 200 \<and> is_device_name m k \<and> has_device_name_committed C then [v] else [])))"
proof (cases L request C s rule: settings_post_cases)
  case (stored parsed m k v n)
  note range = find_schema_range [OF stored(5)]
  note out = settings_store_step_outcome [OF conjunct1 [OF range] conjunct2 [OF range], of C m k v s resp s']
  have eq: "settings_store_step C m k n v s = (resp, s')" using stored(7) assms by simp
  have schema: "find_int ''schemaVersion'' parsed = Some n"
    using stored(5) by (auto simp: find_schema_def split: option.splits if_splits)
  have stored_only: "TryParseJsonObject L (req_body request) = Some parsed \<and>
      find_string ''module'' parsed = Some m \<and> find_string ''key'' parsed = Some k \<and> find_string ''value'' parsed = Some v \<and>
      find_int ''schemaVersion'' parsed = Some n \<and> 0 \<le> n \<and> n \<le> 2 ^ 31 - 1 \<and> setting_checks C m k v \<and>
      (\<forall>m' k'. (m', k') \<noteq> (m, k) \<longrightarrow> GetSetting (auth_storage s') m' k' = GetSetting (auth_storage s) m' k') \<and>
      (status_code resp = 200 \<longrightarrow> GetSetting (auth_storage s') m k = Some \<lparr>schema_version = n, vv_value = v\<rparr>) \<and>
      committed_names s' = committed_names s @
        (if status_code resp = 200 \<and> is_device_name m k \<and> has_device_name_committed C then [v] else [])"
    using out(1) [OF eq] out(2-4) [OF eq] stored(1-4,6) schema range by auto
  show ?thesis
  proof (intro conjI impI)
    show "status_code resp \<in> {200, 400, 403, 500}" "status_code resp \<in> {400, 403} \<Longrightarrow> s' = s" using out(3) [OF eq] by auto
    show "secret_store (auth_storage s') = secret_store (auth_storage s)" by (rule out(5) [OF eq])
  qed (intro exI, rule stored_only)
next
  case refused
  then show ?thesis using assms by auto
qed

definition rename_json :: json_lib where
  "rename_json =
     \<lparr>json_parse = \<lambda>t. Some (jobj [(''module'', JStr ''core''), (''key'', JStr ''device_name''), (''value'', JStr t), (''schemaVersion'', JInt 1)]),
      json_dump = \<lambda>_. ''{}''\<rparr>"

definition open_settings :: settings_env where
  "open_settings = \<lparr>on_device_name_validate = None, has_device_name_committed = True, on_setting_validate = None\<rparr>"

definition sample_app :: settings_app where
  "sample_app =
     \<lparr>auth_storage = sample_storage, sessions = [], failed_login_attempts = 0, locked_until = 0, rng_draws = 0, committed_names = []\<rparr>"

definition rename_request :: http_request where
  "rename_request = \<lparr>req_path = ''/api/settings'', req_query = [], req_body = ''deck'', cookie_header = None\<rparr>"

lemma rename_ok: "status_code (fst (settings_post_handler rename_json open_settings rename_request sample_app)) = 200"
  by (simp add: settings_post_handler_def rename_json_def rename_request_def TryParseJsonObject_def ParseBoundedJson_def
      ExceedsJsonNestingDepth_def find_string_def find_schema_def find_int_def json_find_jobj IsValidSchemaVersion_def
      settings_checked_def settings_store_step_def open_settings_def sample_app_def sample_storage_def SetSetting_def
      HostSettingsStore_Set_def WriteFile_def InvalidKey_def IsValidStoreSegment_iff kMaxSettingValueLength_def
      IsReservedSettingsKey_def auth_kModuleId_def kPasswordKey_def kDeviceNameKey_def is_device_name_def setting_accepted_def
      name_accepted_def Let_def)

theorem settings_post_outcome_witness:
  "GetSetting (auth_storage (snd (settings_post_handler rename_json open_settings rename_request sample_app))) ''core'' ''device_name'' =
     Some \<lparr>schema_version = 1, vv_value = ''deck''\<rparr>"
proof -
  have body: "TryParseJsonObject rename_json (req_body rename_request) =
      Some (jobj [(''module'', JStr ''core''), (''key'', JStr ''device_name''), (''value'', JStr ''deck''), (''schemaVersion'', JInt 1)])"
    by (simp add: TryParseJsonObject_def ParseBoundedJson_def ExceedsJsonNestingDepth_def rename_json_def rename_request_def jobj_def)
  show ?thesis
    using settings_post_outcome [of rename_json open_settings rename_request sample_app, OF prod.collapse [symmetric]] rename_ok
    by (auto simp: body find_string_def find_int_def json_find_jobj)
qed

section \<open>Backup and restore\<close>

lemma find_schema_entry:
  "0 \<le> se_schema_version e \<Longrightarrow> se_schema_version e \<le> 2 ^ 31 - 1 \<Longrightarrow> find_schema (EntryToJson e) = Some (se_schema_version e)"
  by (simp add: find_schema_def EntryToJson_def json_find_jobj find_int_def IsValidSchemaVersion_def)

lemma find_string_entry:
  "find_string ''module'' (EntryToJson e) = Some (se_module_id e)" "find_string ''key'' (EntryToJson e) = Some (se_key e)"
  "find_string ''value'' (EntryToJson e) = Some (se_value e)"
  by (simp_all add: find_string_def EntryToJson_def json_find_jobj)

definition restorable :: "settings_env \<Rightarrow> setting_entry \<Rightarrow> bool" where
  "restorable C e \<longleftrightarrow>
     \<not> IsReservedSettingsKey (se_module_id e) (se_key e) \<and> \<not> InvalidKey (se_module_id e) (se_key e) \<and>
     length (se_value e) \<le> kMaxSettingValueLength \<and> setting_accepted C (se_module_id e) (se_key e) (se_value e) \<and>
     0 \<le> se_schema_version e \<and> se_schema_version e \<le> 2 ^ 31 - 1"

definition settings_writable :: "storage \<Rightarrow> bool" where
  "settings_writable s \<longleftrightarrow> (\<forall>m k. write_io (settings_store s) m k = IoOk)"

definition entry_value :: "setting_entry \<Rightarrow> (string \<times> string) \<times> versioned_value" where
  "entry_value e = ((se_module_id e, se_key e), \<lparr>schema_version = se_schema_version e, vv_value = se_value e\<rparr>)"

lemma SetSetting_writable:
  assumes "settings_writable s" "\<not> IsReservedSettingsKey m k" "\<not> InvalidKey m k"
  shows "fst (SetSetting s m k n v)" "settings_writable (snd (SetSetting s m k n v))"
  using assms by (auto simp: settings_writable_def SetSetting_def HostSettingsStore_Set_def WriteFile_def InvalidKey_def)

lemma restore_entry_step:
  assumes "restorable C e" "settings_writable st"
  shows "restore_entry C (EntryToJson e) (r, st) =
    (r\<lparr>applied := applied r + 1\<rparr>, snd (SetSetting st (se_module_id e) (se_key e) (se_schema_version e) (se_value e)))"
  using assms SetSetting_writable(1) [OF assms(2), of "se_module_id e" "se_key e" "se_schema_version e" "se_value e"]
  by (simp add: restore_entry_def restorable_def find_string_entry find_schema_entry to_int32_nonneg case_prod_beta)

lemma restore_loop_entries:
  assumes "list_all (restorable C) es" "settings_writable st"
  shows "\<exists>st'. restore_loop C (map EntryToJson es) (r, st) = (r\<lparr>applied := applied r + int (length es)\<rparr>, st') \<and>
    secret_store st' = secret_store st \<and>
    (\<forall>m k. GetSetting st' m k = (case map_of (rev (map entry_value es)) (m, k) of Some v \<Rightarrow> Some v | None \<Rightarrow> GetSetting st m k))"
  using assms
proof (induction es arbitrary: r st)
  case (Cons e es)
  let ?m = "se_module_id e" and ?k = "se_key e" and ?n = "se_schema_version e" and ?v = "se_value e"
  let ?st = "snd (SetSetting st ?m ?k ?n ?v)" and ?r = "r\<lparr>applied := applied r + 1\<rparr>"
  have e: "restorable C e" using Cons.prems by simp
  then have ok: "\<not> IsReservedSettingsKey ?m ?k" "\<not> InvalidKey ?m ?k" "int32_range ?n"
    by (auto simp: restorable_def int32_range_def)
  note w = SetSetting_writable [OF Cons.prems(2) ok(1,2), of ?n ?v]
  obtain st' where IH: "restore_loop C (map EntryToJson es) (?r, ?st) = (?r\<lparr>applied := applied ?r + int (length es)\<rparr>, st')"
    "secret_store st' = secret_store ?st"
    "\<And>m k. GetSetting st' m k = (case map_of (rev (map entry_value es)) (m, k) of Some v \<Rightarrow> Some v | None \<Rightarrow> GetSetting ?st m k)"
    using Cons.IH [of ?st ?r] Cons.prems(1) w(2) by auto
  have "GetSetting ?st ?m ?k = Some \<lparr>schema_version = ?n, vv_value = ?v\<rparr>"
    by (rule GetSetting_SetSetting [OF ok(3)]) (use w(1) in \<open>simp add: prod_eq_iff\<close>)
  then have "GetSetting ?st m k = (if (m, k) = (?m, ?k) then Some \<lparr>schema_version = ?n, vv_value = ?v\<rparr> else GetSetting st m k)" for m k
    using GetSetting_SetSetting_other [of m k ?m ?k st ?n ?v] by auto
  then have "GetSetting st' m k =
      (case map_of (rev (map entry_value (e # es))) (m, k) of Some v \<Rightarrow> Some v | None \<Rightarrow> GetSetting st m k)" for m k
    using IH(3) [of m k] by (auto simp: entry_value_def map_add_def split: option.splits)
  moreover have "restore_loop C (map EntryToJson (e # es)) (r, st) = (r\<lparr>applied := applied r + int (length (e # es))\<rparr>, st')"
    using IH(1) restore_entry_step [OF e Cons.prems(2), of r] by (simp add: restore_loop_def)
  ultimately show ?case using IH(2) SetSetting_frame(1) [of st ?m ?k ?n ?v] by auto
qed (simp add: restore_loop_def)

lemma json_depth_entry: "json_depth (EntryToJson e) = 1"
  by (simp add: EntryToJson_def jobj_def)

lemma fold_max_ones: "fold max (map (\<lambda>_. 1 :: int) xs) n \<le> max n 1"
proof (induction xs arbitrary: n)
  case (Cons x xs)
  then show ?case using Cons.IH [of "max 1 n"] by (simp add: max.commute)
qed simp

lemma json_depth_backup: "json_depth (backup_body st) \<le> 32"
proof -
  have "fold max (map json_depth (map EntryToJson es)) 0 \<le> 1" for es
    using fold_max_ones [of es 0] by (simp add: comp_def json_depth_entry)
  from this [of "ListAllSettings st"] show ?thesis
    by (simp add: backup_body_def AllSettingsJson_def jobj_def)
qed

lemma listed_restorable:
  assumes "store_ok (settings_store st)"
    and "\<And>m k v. GetSetting st m k = Some v \<Longrightarrow> \<not> IsReservedSettingsKey m k \<Longrightarrow>
      length (vv_value v) \<le> kMaxSettingValueLength \<and> setting_accepted C m k (vv_value v) \<and>
      0 \<le> schema_version v \<and> schema_version v \<le> 2 ^ 31 - 1"
  shows "list_all (restorable C) (ListAllSettings st)"
proof -
  have "restorable C e" if "e \<in> set (ListAllSettings st)" for e
  proof -
    have g: "\<not> IsReservedSettingsKey (se_module_id e) (se_key e)"
      "GetSetting st (se_module_id e) (se_key e) = Some \<lparr>schema_version = se_schema_version e, vv_value = se_value e\<rparr>"
      using that ListAllSettings_exact [OF assms(1)] by simp_all
    have "\<not> InvalidKey (se_module_id e) (se_key e)"
      using g(2) by (auto simp: InvalidKey_def GetSetting_def HostSettingsStore_Get_def DecodeIfPresent_def split: if_splits)
    then show ?thesis using g assms(2) [OF g(2,1)] by (simp add: restorable_def)
  qed
  then show ?thesis by (simp add: list_all_iff)
qed

lemma listed_lookup:
  assumes "store_ok (settings_store st)"
  shows "map_of (rev (map entry_value (ListAllSettings st))) (m, k) = (if IsReservedSettingsKey m k then None else GetSetting st m k)"
proof (cases "map_of (rev (map entry_value (ListAllSettings st))) (m, k)")
  case None
  then have no: "e \<in> set (ListAllSettings st) \<Longrightarrow> (se_module_id e, se_key e) \<noteq> (m, k)" for e
    by (force simp: map_of_eq_None_iff entry_value_def)
  have "GetSetting st m k \<noteq> Some v" if "\<not> IsReservedSettingsKey m k" for v
    using no [of "\<lparr>se_module_id = m, se_key = k, se_schema_version = schema_version v, se_value = vv_value v\<rparr>"]
      ListAllSettings_exact [OF assms] that by auto
  then show ?thesis using None by (cases "GetSetting st m k") auto
next
  case (Some v)
  then obtain e where e: "e \<in> set (ListAllSettings st)" "entry_value e = ((m, k), v)" by (auto dest!: map_of_SomeD)
  then show ?thesis using Some ListAllSettings_exact [OF assms, of e] by (auto simp: entry_value_def)
qed

text \<open>
  C12: A backup restored is the configuration again. Take a device whose settings directory the back end wrote itself
  and whose settings pass the target's own checks (value length, validator, a schema version from 0 to
  2147483647), and a JSON library that reads the backup's text back. The file it serves under GET /api/backup,
  posted to /api/backup/restore on any device whose store accepts writes, gives every setting of the
  source back with its schema version, leaves every setting the source did not have as it was, reports
  every entry as applied and none as skipped, failed or rejected; the password record of the target, which
  is in no backup, and all its secrets are untouched.
\<close>

theorem backup_restore_round_trip:
  assumes "store_ok (settings_store (auth_storage s))" "json_reads_back L (backup_body (auth_storage s))"
    and "\<And>m k v. GetSetting (auth_storage s) m k = Some v \<Longrightarrow> \<not> IsReservedSettingsKey m k \<Longrightarrow>
      length (vv_value v) \<le> kMaxSettingValueLength \<and> setting_accepted C m k (vv_value v) \<and>
      0 \<le> schema_version v \<and> schema_version v \<le> 2 ^ 31 - 1"
    and "settings_writable (auth_storage t)" "req_body request = resp_body (fst (backup_handler L get_request s))"
    and "restore_handler L C request t = (resp, t')"
  shows "resp = json_response 200 (json_dump L (report_json
      (empty_report\<lparr>applied := int (length (ListAllSettings (auth_storage s)))\<rparr>))) \<and>
    secret_store (auth_storage t') = secret_store (auth_storage t) \<and>
    (\<forall>m k. GetSetting (auth_storage t') m k =
      (if IsReservedSettingsKey m k \<or> GetSetting (auth_storage s) m k = None then GetSetting (auth_storage t) m k
       else GetSetting (auth_storage s) m k))"
proof -
  let ?st = "auth_storage s" and ?es = "ListAllSettings (auth_storage s)"
  obtain st' where loop: "restore_loop C (map EntryToJson ?es) (empty_report, auth_storage t) =
      (empty_report\<lparr>applied := applied empty_report + int (length ?es)\<rparr>, st')"
    and sec: "secret_store st' = secret_store (auth_storage t)"
    and get: "\<And>m k. GetSetting st' m k =
      (case map_of (rev (map entry_value ?es)) (m, k) of Some v \<Rightarrow> Some v | None \<Rightarrow> GetSetting (auth_storage t) m k)"
    using restore_loop_entries [OF listed_restorable [OF assms(1,3)] assms(4), of empty_report] by blast
  have "TryParseJsonObject L (req_body request) = Some (backup_body ?st)"
    using TryParse_reads_back [OF assms(2) _ json_depth_backup] assms(5) by (simp add: backup_handler_def backup_body_def)
  then have "restore_handler L C request t =
      (json_response 200 (json_dump L (report_json (empty_report\<lparr>applied := int (length ?es)\<rparr>))), t\<lparr>auth_storage := st'\<rparr>)"
    using loop by (simp add: restore_handler_def backup_body_def find_array_def json_find_jobj AllSettingsJson_def empty_report_def)
  then show ?thesis
    using assms(6) sec get listed_lookup [OF assms(1)] by (auto split: option.split)
qed

text \<open>A device with one setting, its backup, and a fresh device it is restored on.\<close>

definition source_app :: settings_app where
  "source_app = sample_app\<lparr>auth_storage := snd (SetSetting sample_storage ''audio'' ''volume'' 1 ''70'')\<rparr>"

definition backup_json :: json_lib where
  "backup_json = \<lparr>json_parse = \<lambda>t. Some (backup_body (auth_storage source_app)), json_dump = \<lambda>_. ''{[{}]}''\<rparr>"

lemma source_settings:
  "GetSetting (auth_storage source_app) m k = (if (m, k) = (''audio'', ''volume'') then Some \<lparr>schema_version = 1, vv_value = ''70''\<rparr> else None)"
  "store_ok (settings_store (auth_storage source_app))"
proof -
  have "settings_writable sample_storage" by (simp add: settings_writable_def sample_storage_def Let_def)
  from SetSetting_writable(1) [OF this, of "''audio''" "''volume''" 1 "''70''"]
  have "SetSetting sample_storage ''audio'' ''volume'' 1 ''70'' = (True, auth_storage source_app)"
    by (simp add: source_app_def prod_eq_iff IsReservedSettingsKey_def auth_kModuleId_def InvalidKey_def IsValidStoreSegment_iff)
  then have "GetSetting (auth_storage source_app) ''audio'' ''volume'' = Some \<lparr>schema_version = 1, vv_value = ''70''\<rparr>"
    by (intro GetSetting_SetSetting) (simp_all add: int32_range_def)
  moreover have "GetSetting sample_storage m k = None"
    by (simp add: sample_storage_def GetSetting_def HostSettingsStore_Get_def ReadFile_def DecodeIfPresent_def Let_def)
  ultimately show "GetSetting (auth_storage source_app) m k =
      (if (m, k) = (''audio'', ''volume'') then Some \<lparr>schema_version = 1, vv_value = ''70''\<rparr> else None)"
    using GetSetting_SetSetting_other [of m k "''audio''" "''volume''" sample_storage 1 "''70''"] by (auto simp: source_app_def)
  have "store_ok (settings_store sample_storage)" by (simp add: store_ok_def sample_storage_def Let_def)
  from this store_ok_Set [OF this] show "store_ok (settings_store (auth_storage source_app))"
    by (auto simp: source_app_def SetSetting_def Let_def case_prod_beta)
qed

theorem backup_restore_round_trip_witness:
  "GetSetting (auth_storage (snd (restore_handler backup_json open_settings
       (rename_request\<lparr>req_body := resp_body (fst (backup_handler backup_json rename_request source_app))\<rparr>) sample_app))) ''audio'' ''volume'' =
     Some \<lparr>schema_version = 1, vv_value = ''70''\<rparr>"
proof -
  let ?req = "rename_request\<lparr>req_body := resp_body (fst (backup_handler backup_json rename_request source_app))\<rparr>"
  have es: "ListAllSettings (auth_storage source_app) = [\<lparr>se_module_id = ''audio'', se_key = ''volume'', se_schema_version = 1, se_value = ''70''\<rparr>]"
    using Decode_Encode [of 1 "''70''"]
    by (simp add: source_app_def SetSetting_def sample_storage_def HostSettingsStore_Set_def WriteFile_def IsReservedSettingsKey_def
        auth_kModuleId_def IsValidStoreSegment_iff ListAllSettings_def HostSettingsStore_ListAll_def int32_range_def Let_def)
  have "json_depth (backup_body (auth_storage source_app)) = 3"
    by (simp add: backup_body_def AllSettingsJson_def es EntryToJson_def jobj_def)
  then have reads: "json_reads_back backup_json (backup_body (auth_storage source_app))"
    by (simp add: json_reads_back_def backup_json_def scans_to_def)
  have writable: "settings_writable (auth_storage sample_app)" by (simp add: settings_writable_def sample_app_def sample_storage_def Let_def)
  have acceptable: "length (vv_value v) \<le> kMaxSettingValueLength \<and> setting_accepted open_settings m k (vv_value v) \<and>
      0 \<le> schema_version v \<and> schema_version v \<le> 2 ^ 31 - 1" if "GetSetting (auth_storage source_app) m k = Some v" for m k v
    using that by (auto simp: source_settings open_settings_def setting_accepted_def kMaxSettingValueLength_def split: if_splits)
  have "\<forall>m k. GetSetting (auth_storage (snd (restore_handler backup_json open_settings ?req sample_app))) m k =
      (if IsReservedSettingsKey m k \<or> GetSetting (auth_storage source_app) m k = None then GetSetting (auth_storage sample_app) m k
       else GetSetting (auth_storage source_app) m k)"
    using backup_restore_round_trip [OF source_settings(2) reads acceptable writable, of ?req rename_request, OF _ _ prod.collapse [symmetric]]
    by simp
  then show ?thesis by (simp add: source_settings IsReservedSettingsKey_def auth_kModuleId_def)
qed

end
