(* ===== verification/Routes.thy ===== *)
theory Routes
  imports Settings_Routes Power_State Harmony Kodi_Client Weather
begin

text \<open>
  The remaining web endpoints (core/ota_routes.cpp, wifi_routes.cpp, diagnostics_routes.cpp,
  harmony_routes.cpp, kodi_routes.cpp, weather_routes.cpp) and the route table that AppCore
  (ui/app_core.cpp) assembles from all of them. Handlers are the functions RequireAuth wraps; the state
  of a handler is the record \<open>app\<close> of everything the registered closures refer to.
\<close>

section \<open>State and environment\<close>

record memory_stats =
  internal_free_bytes :: nat
  internal_largest_block_bytes :: nat
  internal_low_water_bytes :: nat
  psram_free_bytes :: nat

text \<open>\<open>ota_events\<close> are the published OtaUpdateStateChangedEvents; \<open>upload_locked\<close> is the handler's mutex.\<close>

record ota =
  upload_locked :: bool
  ota_events :: "bool list"

record ('h, 'k) app = settings_app +
  app_weather :: weather_provider
  app_harmony :: "'h harmony"
  app_kodi :: "'k kodi"
  app_ota :: ota
  app_reboots :: nat
  app_wifi_resets :: nat

text \<open>
  What a request finds outside the state: the JSON library (and its dump with replacement of invalid
  UTF-8), the callbacks of the platform, the HTTP client, sensor readings, and the successive readings of
  the clock.
\<close>

record app_env =
  ae_json :: json_lib
  ae_dump_replace :: "json \<Rightarrow> string"
  ae_auth :: auth_env
  ae_device_name_validate :: "(string \<Rightarrow> bool) option"
  ae_device_name_committed :: bool
  ae_strtod_rnd :: "real \<Rightarrow> c_double"
  ae_int_rnd :: "real \<Rightarrow> real"
  ae_get :: "string \<Rightarrow> http_client_response"
  ae_battery :: battery_reading
  ae_max_image_size :: nat
  ae_write_image :: "string \<Rightarrow> bool"
  ae_running_version :: string
  ae_core_dump :: "string option"
  ae_memory :: memory_stats
  ae_wifi_reset :: "string option"
  ae_now :: "nat \<Rightarrow> ms"

section \<open>OTA routes\<close>

definition ota_status_handler :: "app_env \<Rightarrow> ('h, 'k, 'x) app_scheme handler" where
  "ota_status_handler E request s =
     (let gate = EvaluateOtaGate (ae_battery E);
          body = jobj [(''batteryPercent'', JInt (gate_battery_percent gate)),
            (''externalPowerConnected'', JBool (external_power (ae_battery E))),
            (''batteryPresent'', JBool (battery_present (ae_battery E))), (''gateOpen'', JBool (gate_open gate)),
            (''gateReason'', JStr (gate_reason gate)), (''runningVersion'', JStr (ae_running_version E))]
      in (json_response 200 (json_dump (ae_json E) body), s))"

definition error_body :: "json_lib \<Rightarrow> string \<Rightarrow> string" where
  "error_body L e = json_dump L (jobj [(''error'', JStr e)])"

text \<open>
  The upload handler up to the flash write, and after it. The first component of \<open>ota_upload_begin\<close> is the
  answer when the upload is refused; otherwise the mutex is held and the write goes on.
\<close>

definition ota_upload_begin :: "app_env \<Rightarrow> http_request \<Rightarrow> ota \<Rightarrow> http_response option \<times> ota" where
  "ota_upload_begin E request u =
     (if upload_locked u then (Some (json_response 409 (error_body (ae_json E) ''upload_in_progress'')), u)
      else
        (let gate = EvaluateOtaGate (ae_battery E)
         in if \<not> gate_open gate then
              (Some (json_response 403 (json_dump (ae_json E)
                 (jobj [(''error'', JStr ''gate_closed''), (''reason'', JStr (gate_reason gate))]))), u)
            else if ae_max_image_size E < length (req_body request) then
              (Some (json_response 400 (error_body (ae_json E) ''image_too_large'')), u)
            else (None, u\<lparr>upload_locked := True, ota_events := ota_events u @ [True]\<rparr>)))"

definition ota_upload_finish :: "app_env \<Rightarrow> bool \<Rightarrow> ota \<Rightarrow> http_response \<times> ota" where
  "ota_upload_finish E write_succeeded u =
     (if write_succeeded then json_response 200 ''{\"status\":\"ok\"}'' else json_response 500 (error_body (ae_json E) ''write_failed''),
      u\<lparr>upload_locked := False, ota_events := ota_events u @ [False]\<rparr>)"

definition ota_upload_handler :: "app_env \<Rightarrow> ('h, 'k, 'x) app_scheme handler" where
  "ota_upload_handler E request s =
     (let (refused, u) = ota_upload_begin E request (app_ota s)
      in case refused of
           Some response \<Rightarrow> (response, s\<lparr>app_ota := u\<rparr>)
         | None \<Rightarrow>
             (let (response, u1) = ota_upload_finish E (ae_write_image E (req_body request)) u
              in (response, s\<lparr>app_ota := u1\<rparr>)))"

definition ota_reboot_handler :: "('h, 'k, 'x) app_scheme handler" where
  "ota_reboot_handler request s = (json_response 200 ''{\"status\":\"ok\"}'', s\<lparr>app_reboots := Suc (app_reboots s)\<rparr>)"

section \<open>Wi-Fi and diagnostics routes\<close>

definition wifi_reset_handler :: "app_env \<Rightarrow> ('h, 'k, 'x) app_scheme handler" where
  "wifi_reset_handler E request s =
     (let s1 = s\<lparr>app_wifi_resets := Suc (app_wifi_resets s)\<rparr>
      in case ae_wifi_reset E of
           None \<Rightarrow> (json_response 500 ''{\"error\":\"reset_failed\"}'', s1)
         | Some ssid \<Rightarrow>
             (json_response 200 (json_dump (ae_json E) (jobj [(''status'', JStr ''ok''), (''apSsid'', JStr ssid)])), s1))"

definition diagnostics_kModuleId :: string where "diagnostics_kModuleId = ''core''"

definition diagnostics_handler :: "app_env \<Rightarrow> ('h, 'k, 'x) app_scheme handler" where
  "diagnostics_handler E request s =
     (let reset_reason = GetSetting (auth_storage s) diagnostics_kModuleId ''reset_reason'';
          has_core_dump = GetSetting (auth_storage s) diagnostics_kModuleId ''has_core_dump'';
          memory = ae_memory E;
          body = jobj [(''resetReason'', JStr (case reset_reason of None \<Rightarrow> ''unknown'' | Some v \<Rightarrow> vv_value v)),
            (''hasCoreDump'', JBool (case has_core_dump of None \<Rightarrow> False | Some v \<Rightarrow> vv_value v = ''true'')),
            (''batteryPercent'', JInt (battery_percent (ae_battery E))),
            (''externalPowerConnected'', JBool (external_power (ae_battery E))),
            (''batteryPresent'', JBool (battery_present (ae_battery E))),
            (''memory'', jobj [(''internalFreeBytes'', JInt (int (internal_free_bytes memory))),
               (''internalLargestBlockBytes'', JInt (int (internal_largest_block_bytes memory))),
               (''internalLowWaterBytes'', JInt (int (internal_low_water_bytes memory))),
               (''psramFreeBytes'', JInt (int (psram_free_bytes memory)))])]
      in (json_response 200 (json_dump (ae_json E) body), s))"

definition coredump_handler :: "app_env \<Rightarrow> ('h, 'k, 'x) app_scheme handler" where
  "coredump_handler E request s =
     (case ae_core_dump E of
        None \<Rightarrow> (json_response 404 ''{\"error\":\"not_found\"}'', s)
      | Some dump \<Rightarrow>
          (with_header ''Content-Disposition'' ''attachment; filename=\"coredump.bin\"''
             \<lparr>status_code = 200, content_type = ''application/octet-stream'', resp_body = dump, extra_headers = []\<rparr>, s))"

text \<open>
  \<open>logger.ReadAll()\<close> once its flush has been acknowledged, over the shared storage. A request is answered in one
  step here; the two reads with the worker between them are \<^verbatim>\<open>ReadAll_text\<close> of theory Logger.
\<close>

definition logs_handler :: "('h, 'k, 'x) app_scheme handler" where
  "logs_handler request s =
     (json_response 200 (read_log (ReadCache (auth_storage s) logger_kModuleId kRotatedKey)
        (ReadCache (auth_storage s) logger_kModuleId kCurrentKey)), s)"

section \<open>Harmony and Kodi routes\<close>

fun harmony_StateToString :: "harmony_connection_state \<Rightarrow> string" where
  "harmony_StateToString kDisconnected = ''disconnected''"
| "harmony_StateToString kConnecting = ''connecting''"
| "harmony_StateToString kConnected = ''connected''"
| "harmony_StateToString kHubError = ''error''"

definition harmony_SnapshotToJson :: "'h harmony \<Rightarrow> json" where
  "harmony_SnapshotToJson h =
     jobj [(''state'', JStr (harmony_StateToString (hc_state h))), (''hasConfig'', JBool (has_config h)),
       (''devices'', JArr (map (\<lambda>d. jobj [(''id'', JStr (dev_id d)), (''label'', JStr (dev_label d))]) (hc_devices h))),
       (''activities'', JArr (map (\<lambda>a. jobj [(''id'', JStr (act_id a)), (''label'', JStr (act_label a))]) (hc_activities h))),
       (''currentActivityId'', JStr (current_activity_id h))]"

definition harmony_status_handler :: "app_env \<Rightarrow> ('h, 'k, 'x) app_scheme handler" where
  "harmony_status_handler E request s =
     (json_response 200 (json_dump (ae_json E) (harmony_SnapshotToJson (app_harmony s))), s)"

definition harmony_reconnect_handler :: "('h, 'k, 'x) app_scheme handler" where
  "harmony_reconnect_handler request s =
     (json_response 200 ''{\"status\":\"ok\"}'', s\<lparr>app_harmony := TriggerReconnect (app_harmony s)\<rparr>)"

fun kodi_StateToString :: "kodi_connection_state \<Rightarrow> string" where
  "kodi_StateToString KDisconnected = ''disconnected''"
| "kodi_StateToString KConnecting = ''connecting''"
| "kodi_StateToString KConnected = ''connected''"
| "kodi_StateToString KError = ''error''"

fun PlaybackToString :: "kodi_playback_state \<Rightarrow> string" where
  "PlaybackToString kInactive = ''inactive''"
| "PlaybackToString kPlaying = ''playing''"
| "PlaybackToString kPaused = ''paused''"

definition kodi_SnapshotToJson :: "kodi_snapshot \<Rightarrow> json" where
  "kodi_SnapshotToJson s =
     (let np = now_playing s
      in jobj [(''state'', JStr (kodi_StateToString (ks_state s))), (''resolvedHost'', JStr (resolved_host s)),
        (''targetConfigured'', JBool (target_configured s)), (''selectedUuid'', JStr (selected_uuid s)),
        (''discovered'', JArr (map (\<lambda>i. jobj [(''name'', JStr (kd_name i)), (''host'', JStr (kd_host i)), (''uuid'', JStr (kd_uuid i))])
           (discovered s))),
        (''appVersion'', JStr (app_version s)), (''volume'', JInt (volume s)), (''muted'', JBool (muted s)),
        (''libraryBusy'', JBool (snap_library_busy s)),
        (''nowPlaying'', jobj [(''playback'', JStr (PlaybackToString (np_playback np))), (''speed'', JInt (np_speed np)),
           (''title'', JStr (np_title np)), (''showTitle'', JStr (np_show_title np)), (''season'', JInt (np_season np)),
           (''episode'', JInt (np_episode np)), (''mediaType'', JStr (np_media_type np)),
           (''positionMs'', JInt (np_position_ms np)), (''durationMs'', JInt (np_duration_ms np)),
           (''percent'', JFloat (np_percent np)), (''canSeek'', JBool (np_can_seek np))])])"

definition kodi_status_handler :: "app_env \<Rightarrow> ('h, 'k, 'x) app_scheme handler" where
  "kodi_status_handler E request s =
     (json_response 200 (ae_dump_replace E (kodi_SnapshotToJson (k_state (app_kodi s)))), s)"

definition kodi_reconnect_handler :: "('h, 'k, 'x) app_scheme handler" where
  "kodi_reconnect_handler request s =
     (json_response 200 ''{\"status\":\"ok\"}'', s\<lparr>app_kodi := Kodi_TriggerReconnect (app_kodi s)\<rparr>)"

section \<open>Weather routes\<close>

definition kMaxGeocodeQueryLength :: nat where "kMaxGeocodeQueryLength = 100"

definition geocode_url :: "string \<Rightarrow> string" where
  "geocode_url query = ''https://geocoding-api.open-meteo.com/v1/search?name='' @ UrlEncode query @ ''&count=10''"

definition optional_string :: "json \<Rightarrow> string \<Rightarrow> string" where
  "optional_string entry key = (case find_string key entry of None \<Rightarrow> [] | Some v \<Rightarrow> v)"

definition geocode_entry :: "app_env \<Rightarrow> json \<Rightarrow> json option" where
  "geocode_entry E entry =
     (case (find_string ''name'' entry, find_number (ae_int_rnd E) ''latitude'' entry, find_number (ae_int_rnd E) ''longitude'' entry) of
        (Some name, Some lat, Some lon) \<Rightarrow>
          Some (jobj [(''name'', JStr name), (''admin1'', JStr (optional_string entry ''admin1'')),
            (''country'', JStr (optional_string entry ''country'')), (''latitude'', JFloat lat), (''longitude'', JFloat lon)])
      | _ \<Rightarrow> None)"

definition geocode_results :: "app_env \<Rightarrow> json \<Rightarrow> json" where
  "geocode_results E parsed =
     JArr (case find_array ''results'' parsed of None \<Rightarrow> [] | Some entries \<Rightarrow> List.map_filter (geocode_entry E) entries)"

definition geocode_handler :: "app_env \<Rightarrow> ('h, 'k, 'x) app_scheme handler" where
  "geocode_handler E request s =
     (case ParseFormField (req_query request) ''query'' of
        None \<Rightarrow> (missing_field ''query'', s)
      | Some query \<Rightarrow>
          if query = [] then (missing_field ''query'', s)
          else if kMaxGeocodeQueryLength < length query then (json_response 400 ''{\"error\":\"query_too_long\"}'', s)
          else
            (let response = ae_get E (geocode_url query)
             in if \<not> cr_success response \<or> cr_status_code response \<noteq> 200
                then (json_response 502 ''{\"error\":\"upstream_failed\"}'', s)
                else case TryParseJsonObject (ae_json E) (cr_body response) of
                       None \<Rightarrow> (json_response 502 ''{\"error\":\"upstream_invalid_response\"}'', s)
                     | Some parsed \<Rightarrow>
                         (json_response 200 (json_dump (ae_json E) (jobj [(''results'', geocode_results E parsed)])), s)))"

definition weather_refresh_handler :: "('h, 'k, 'x) app_scheme handler" where
  "weather_refresh_handler request s =
     (json_response 200 ''{\"status\":\"ok\"}'', s\<lparr>app_weather := TriggerPoll (app_weather s)\<rparr>)"

section \<open>The route table\<close>

text \<open>Each module's own validator, as AppCore wires them into the settings routes.\<close>

definition app_setting_validate :: "app_env \<Rightarrow> string \<Rightarrow> string \<Rightarrow> string \<Rightarrow> bool" where
  "app_setting_validate E m k v \<longleftrightarrow>
     (if m = harmony_kModuleId then IsValidHarmonySetting k v
      else if m = kodi_kModuleId then IsValidKodiSetting k v
      else if m = weather_kModuleId then IsValidWeatherCoordinate (ae_strtod_rnd E) k v
      else True)"

definition app_settings_env :: "app_env \<Rightarrow> settings_env" where
  "app_settings_env E =
     \<lparr>on_device_name_validate = Some (\<lambda>v. case ae_device_name_validate E of None \<Rightarrow> True | Some f \<Rightarrow> f v),
      has_device_name_committed = ae_device_name_committed E, on_setting_validate = Some (app_setting_validate E)\<rparr>"

definition RegisterAdminAuthRoutes :: "app_env \<Rightarrow> ('h, 'k) app routes \<Rightarrow> ('h, 'k) app routes" where
  "RegisterAdminAuthRoutes E server = server
     ((kGet, ''/api/auth/status'') \<mapsto> auth_status_route (ae_json E) (ae_now E 0),
      (kPost, ''/api/auth/setup'') \<mapsto> auth_setup_route (ae_auth E) (ae_json E) (ae_now E 0) (ae_now E 1),
      (kPost, ''/api/auth/login'') \<mapsto>
        auth_login_route (ae_auth E) (ae_json E) (ae_now E 0) (ae_now E 1) (ae_now E 2) (ae_now E 3) (ae_now E 4),
      (kPost, ''/api/auth/logout'') \<mapsto> auth_logout_route)"

definition RegisterDiagnosticsRoutes :: "app_env \<Rightarrow> ('h, 'k) app routes \<Rightarrow> ('h, 'k) app routes" where
  "RegisterDiagnosticsRoutes E server = server
     ((kGet, ''/api/diagnostics'') \<mapsto> RequireAuth (ae_now E 0) (diagnostics_handler E),
      (kGet, ''/api/diagnostics/coredump'') \<mapsto> RequireAuth (ae_now E 0) (coredump_handler E),
      (kGet, ''/api/diagnostics/logs'') \<mapsto> RequireAuth (ae_now E 0) logs_handler)"

definition RegisterOtaRoutes :: "app_env \<Rightarrow> ('h, 'k) app routes \<Rightarrow> ('h, 'k) app routes" where
  "RegisterOtaRoutes E server = server
     ((kGet, ''/api/ota/status'') \<mapsto> RequireAuth (ae_now E 0) (ota_status_handler E),
      (kPost, ''/api/ota/upload'') \<mapsto> RequireAuth (ae_now E 0) (ota_upload_handler E),
      (kPost, ''/api/ota/reboot'') \<mapsto> RequireAuth (ae_now E 0) ota_reboot_handler)"

definition RegisterSettingsRoutes :: "app_env \<Rightarrow> ('h, 'k) app routes \<Rightarrow> ('h, 'k) app routes" where
  "RegisterSettingsRoutes E server = server
     ((kGet, ''/api/settings'') \<mapsto> RequireAuth (ae_now E 0) (settings_get_handler (ae_json E)),
      (kPost, ''/api/settings'') \<mapsto> RequireAuth (ae_now E 0) (settings_post_handler (ae_json E) (app_settings_env E)),
      (kPost, ''/api/settings/erase'') \<mapsto> RequireAuth (ae_now E 0) (settings_erase_handler (ae_json E)),
      (kGet, ''/api/backup'') \<mapsto> RequireAuth (ae_now E 0) (backup_handler (ae_json E)),
      (kPost, ''/api/backup/restore'') \<mapsto> RequireAuth (ae_now E 0) (restore_handler (ae_json E) (app_settings_env E)))"

definition RegisterWeatherRoutes :: "app_env \<Rightarrow> ('h, 'k) app routes \<Rightarrow> ('h, 'k) app routes" where
  "RegisterWeatherRoutes E server = server
     ((kGet, ''/api/weather/geocode'') \<mapsto> RequireAuth (ae_now E 0) (geocode_handler E),
      (kPost, ''/api/weather/refresh'') \<mapsto> RequireAuth (ae_now E 0) weather_refresh_handler)"

definition RegisterHarmonyRoutes :: "app_env \<Rightarrow> ('h, 'k) app routes \<Rightarrow> ('h, 'k) app routes" where
  "RegisterHarmonyRoutes E server = server
     ((kGet, ''/api/harmony/status'') \<mapsto> RequireAuth (ae_now E 0) (harmony_status_handler E),
      (kPost, ''/api/harmony/reconnect'') \<mapsto> RequireAuth (ae_now E 0) harmony_reconnect_handler)"

definition RegisterKodiRoutes :: "app_env \<Rightarrow> ('h, 'k) app routes \<Rightarrow> ('h, 'k) app routes" where
  "RegisterKodiRoutes E server = server
     ((kGet, ''/api/kodi/status'') \<mapsto> RequireAuth (ae_now E 0) (kodi_status_handler E),
      (kPost, ''/api/kodi/reconnect'') \<mapsto> RequireAuth (ae_now E 0) kodi_reconnect_handler)"

definition RegisterWifiRoutes :: "app_env \<Rightarrow> ('h, 'k) app routes \<Rightarrow> ('h, 'k) app routes" where
  "RegisterWifiRoutes E server = server((kPost, ''/api/wifi/reset'') \<mapsto> RequireAuth (ae_now E 0) (wifi_reset_handler E))"

definition app_routes :: "app_env \<Rightarrow> ('h, 'k) app routes" where
  "app_routes E =
     RegisterWifiRoutes E (RegisterKodiRoutes E (RegisterHarmonyRoutes E (RegisterWeatherRoutes E (RegisterSettingsRoutes E
       (RegisterOtaRoutes E (RegisterDiagnosticsRoutes E (RegisterAdminAuthRoutes E Map.empty)))))))"

text \<open>
  The web interface itself: the files of the firmware's \<^verbatim>\<open>ServeEmbeddedWebUi\<close> (firmware/main/homedeck.cpp), all
  three embedded, or those the simulator could read (simulator/main.cpp); \<^const>\<open>None\<close> is a file that could not be
  read. They are registered beside the application's routes, without authentication.
\<close>

definition web_ui_files :: "string option \<Rightarrow> string option \<Rightarrow> string option \<Rightarrow> static_asset list" where
  "web_ui_files index_html app_js app_css =
     List.map_filter (\<lambda>(path, kind, content).
         map_option (\<lambda>body. \<lparr>asset_path = path, asset_content_type = kind, asset_body = body\<rparr>) content)
       [(''/'', ''text/html'', index_html), (''/app.js'', ''text/javascript'', app_js), (''/app.css'', ''text/css'', app_css)]"

definition served_routes :: "app_env \<Rightarrow> static_asset list \<Rightarrow> ('h, 'k) app routes" where
  "served_routes E assets = ServeStaticFiles (app_routes E) assets"

section \<open>What the table registers\<close>

definition public_routes :: "(http_method \<times> string) set" where
  "public_routes =
     {(kGet, ''/api/auth/status''), (kPost, ''/api/auth/setup''), (kPost, ''/api/auth/login''), (kPost, ''/api/auth/logout'')}"

definition public_handlers :: "app_env \<Rightarrow> ('h, 'k) app handler list" where
  "public_handlers E =
     [auth_status_route (ae_json E) (ae_now E 0), auth_setup_route (ae_auth E) (ae_json E) (ae_now E 0) (ae_now E 1),
      auth_login_route (ae_auth E) (ae_json E) (ae_now E 0) (ae_now E 1) (ae_now E 2) (ae_now E 3) (ae_now E 4), auth_logout_route]"

definition protected_handlers :: "app_env \<Rightarrow> ('h, 'k) app handler list" where
  "protected_handlers E =
     [diagnostics_handler E, coredump_handler E, logs_handler, ota_status_handler E, ota_upload_handler E, ota_reboot_handler,
      settings_get_handler (ae_json E), settings_post_handler (ae_json E) (app_settings_env E), settings_erase_handler (ae_json E),
      backup_handler (ae_json E), restore_handler (ae_json E) (app_settings_env E), geocode_handler E, weather_refresh_handler,
      harmony_status_handler E, harmony_reconnect_handler, kodi_status_handler E, kodi_reconnect_handler, wifi_reset_handler E]"

lemmas register_defs = RegisterAdminAuthRoutes_def RegisterDiagnosticsRoutes_def RegisterOtaRoutes_def RegisterSettingsRoutes_def
  RegisterWeatherRoutes_def RegisterHarmonyRoutes_def RegisterKodiRoutes_def RegisterWifiRoutes_def

lemma protected_route:
  assumes "app_routes E x = Some h" "x \<notin> public_routes"
  obtains inner where "inner \<in> set (protected_handlers E)" "h = RequireAuth (ae_now E 0) inner"
proof -
  have "\<exists>inner \<in> set (protected_handlers E). h = RequireAuth (ae_now E 0) inner"
    using assms unfolding app_routes_def register_defs public_routes_def protected_handlers_def
    by (simp split: if_split_asm)
  then show thesis using that by blast
qed

lemma public_route:
  assumes "app_routes E x = Some h" "x \<in> public_routes"
  shows "h \<in> set (public_handlers E)"
  using assms unfolding app_routes_def register_defs public_routes_def public_handlers_def
  by (elim insertE emptyE) simp_all

lemma RequireAuth_refuses:
  assumes "sessions_ok s" "\<not> IsPasswordSet s \<or> (case req_token request of None \<Rightarrow> True | Some tok \<Rightarrow> \<not> live_session now tok s)"
  shows "RequireAuth now inner request s =
    (if IsPasswordSet s then json_response 401 ''{\"error\":\"unauthenticated\"}''
     else json_response 403 ''{\"error\":\"setup_required\"}'',
     if IsPasswordSet s
     then (case req_token request of
             None \<Rightarrow> s
           | Some tok \<Rightarrow> s\<lparr>sessions := filter (\<lambda>(t, e). t = tok \<longrightarrow> now < e) (sessions s)\<rparr>)
     else s)"
  unfolding RequireAuth_guards [OF assms(1), of now inner request] using assms(2) by (auto split: option.splits)

lemma expired_entry_dropped:
  assumes "sessions_ok s"
  shows "live_session now t (s\<lparr>sessions := filter (\<lambda>(t, e). t = tok \<longrightarrow> now < e) (sessions s)\<rparr>) \<longleftrightarrow> live_session now t s"
proof -
  have "distinct (map fst xs) \<Longrightarrow>
      map_of (filter (\<lambda>(t, e). t = tok \<longrightarrow> now < e) xs) t = Some e \<and> now < e \<longleftrightarrow> map_of xs t = Some e \<and> now < e" for xs e
    by (induction xs) (auto simp: map_of_eq_None_iff image_iff dest: map_of_SomeD)
  then show ?thesis using assms by (simp add: live_session_def sessions_ok_def)
qed

definition web_ui_routes :: "(http_method \<times> string) set" where
  "web_ui_routes = {(kGet, ''/''), (kGet, ''/app.js''), (kGet, ''/app.css'')}"

definition asset_response :: "static_asset \<Rightarrow> http_response" where
  "asset_response asset =
     \<lparr>status_code = 200, content_type = asset_content_type asset, resp_body = asset_body asset, extra_headers = []\<rparr>"

lemma ServeStaticFiles_cases:
  assumes "ServeStaticFiles server assets x = Some h"
  shows "(\<exists>asset \<in> set assets. x = (kGet, asset_path asset) \<and> h = (\<lambda>_ s. (asset_response asset, s))) \<or>
    server x = Some h \<and> x \<notin> (\<lambda>asset. (kGet, asset_path asset)) ` set assets"
  using assms
  by (induction server assets rule: ServeStaticFiles.induct) (auto simp: asset_response_def split: if_splits)

lemma web_ui_files_paths: "asset \<in> set (web_ui_files a b c) \<Longrightarrow> (kGet, asset_path asset) \<in> web_ui_routes"
  by (auto simp: web_ui_files_def web_ui_routes_def map_filter_simps split: option.splits)

lemma app_routes_no_web_ui: "x \<in> web_ui_routes \<Longrightarrow> app_routes E x = None"
  unfolding app_routes_def register_defs web_ui_routes_def by (elim insertE emptyE) simp_all

lemma served_route:
  assumes "served_routes E (web_ui_files a b c) x = Some h"
  shows "x \<in> web_ui_routes \<and> (\<exists>asset \<in> set (web_ui_files a b c). x = (kGet, asset_path asset) \<and> h = (\<lambda>_ s. (asset_response asset, s))) \<or>
    x \<notin> web_ui_routes \<and> app_routes E x = Some h"
proof (cases "x \<in> web_ui_routes")
  case True
  then show ?thesis
    using ServeStaticFiles_cases [OF assms [unfolded served_routes_def]] by (simp add: app_routes_no_web_ui)
next
  case False
  then show ?thesis
    using web_ui_files_paths [of _ a b c] ServeStaticFiles_cases [OF assms [unfolded served_routes_def]] by blast
qed


definition sample_app_env :: app_env where
  "sample_app_env =
     \<lparr>ae_json = sample_json, ae_dump_replace = \<lambda>_. ''{}'', ae_auth = sample_env, ae_device_name_validate = None,
      ae_device_name_committed = True, ae_strtod_rnd = Finite, ae_int_rnd = \<lambda>x. x,
      ae_get = \<lambda>url. \<lparr>cr_success = False, cr_status_code = 0, cr_body = []\<rparr>,
      ae_battery = \<lparr>battery_present = True, battery_percent = 80, external_power = False\<rparr>, ae_max_image_size = 10,
      ae_write_image = \<lambda>_. True, ae_running_version = ''1.0'', ae_core_dump = None,
      ae_memory = \<lparr>internal_free_bytes = 1, internal_largest_block_bytes = 1, internal_low_water_bytes = 1, psram_free_bytes = 1\<rparr>,
      ae_wifi_reset = None, ae_now = \<lambda>n. int n\<rparr>"

definition running_app :: "storage \<Rightarrow> (unit, unit) app" where
  "running_app st =
     \<lparr>auth_storage = st, sessions = [(''q'', 9)], failed_login_attempts = 0, locked_until = 0, rng_draws = 0, committed_names = [],
      app_weather = weather_init, app_harmony = harmony_init 1 8 (), app_kodi = kodi_init 1 8 (),
      app_ota = \<lparr>upload_locked = False, ota_events = []\<rparr>, app_reboots = 0, app_wifi_resets = 0\<rparr>"

definition reboot_request :: http_request where
  "reboot_request = \<lparr>req_path = ''/api/ota/reboot'', req_query = [], req_body = [], cookie_header = Some ''session=guess''\<rparr>"


section \<open>Concurrent uploads\<close>

text \<open>
  Uploads of any number of worker threads: \<open>writing\<close> are the requests inside the flash write, each with the
  battery reading its gate was evaluated on (the battery is read anew by every request). A write ends
  with either outcome.
\<close>

type_synonym ota_run = "(http_request \<times> battery_reading) list \<times> ota"

inductive ota_step :: "app_env \<Rightarrow> ota_run \<Rightarrow> ota_run \<Rightarrow> bool" for E where
  refused: "ota_upload_begin (E\<lparr>ae_battery := r\<rparr>) request u = (Some response, u') \<Longrightarrow> ota_step E (writing, u) (writing, u')"
| started: "ota_upload_begin (E\<lparr>ae_battery := r\<rparr>) request u = (None, u') \<Longrightarrow>
    ota_step E (writing, u) ((request, r) # writing, u')"
| finished: "ota_upload_finish E ok u = (response, u') \<Longrightarrow> ota_step E (pre @ upload # post, u) (pre @ post, u')"

definition idle_ota :: ota where "idle_ota = \<lparr>upload_locked = False, ota_events = []\<rparr>"

fun alternating :: "bool \<Rightarrow> bool list \<Rightarrow> bool" where
  "alternating expected [] \<longleftrightarrow> True"
| "alternating expected (b # bs) \<longleftrightarrow> b = expected \<and> alternating (\<not> expected) bs"

lemma alternating_snoc: "alternating b (bs @ [c]) \<longleftrightarrow> alternating b bs \<and> c = (if even (length bs) then b else \<not> b)"
  by (induction bs arbitrary: b) auto

text \<open>
  C13: At most one firmware image is ever being written. However many uploads arrive on however many server
  threads, and whatever the outcome of each write, at any moment at most one request is inside the
  flash write; every image written is within the partition and was accepted on a battery reading for which
  the gate is open, read for that request; and the events the power manager sees are a strict alternation of start and end, the last one
  being a start exactly while a write is under way.
\<close>

theorem ota_uploads_exclusive:
  assumes "(ota_step E)\<^sup>*\<^sup>* ([], idle_ota) (writing, u)"
  shows "length writing \<le> 1 \<and> (upload_locked u \<longleftrightarrow> writing \<noteq> []) \<and>
    (\<forall>(request, r) \<in> set writing. length (req_body request) \<le> ae_max_image_size E \<and> gate_open (EvaluateOtaGate r)) \<and>
    alternating True (ota_events u) \<and> (odd (length (ota_events u)) \<longleftrightarrow> writing \<noteq> [])"
  using assms
proof (induction "(writing, u)" arbitrary: writing u rule: rtranclp_induct)
  case base
  then show ?case by (simp add: idle_ota_def)
next
  case (step y)
  obtain w0 u0 where y: "y = (w0, u0)" by fastforce
  note IH = step.hyps(3) [OF y]
  from step.hyps(2) [unfolded y] show ?case
  proof cases
    case refused
    then have "u = u0" by (auto simp: ota_upload_begin_def Let_def split: if_splits)
    then show ?thesis using IH refused by simp
  next
    case (started r request)
    then show ?thesis using IH by (auto simp: ota_upload_begin_def Let_def alternating_snoc split: if_splits)
  next
    case (finished ok response pre upload post)
    then have "pre = [] \<and> post = []" using IH by auto
    then show ?thesis using IH finished by (auto simp: ota_upload_finish_def alternating_snoc)
  qed
qed

definition image_request :: http_request where
  "image_request = \<lparr>req_path = ''/api/ota/upload'', req_query = [], req_body = ''img'', cookie_header = None\<rparr>"

theorem ota_uploads_exclusive_witness:
  "length [(image_request, ae_battery sample_app_env)] \<le> 1 \<and> length (req_body image_request) \<le> ae_max_image_size sample_app_env"
proof -
  let ?u = "\<lparr>upload_locked = True, ota_events = [True]\<rparr>" and ?w = "[(image_request, ae_battery sample_app_env)]"
  have "ota_step sample_app_env ([], idle_ota) (?w, ?u)"
    by (rule started) (simp add: ota_upload_begin_def idle_ota_def EvaluateOtaGate_def kMinBatteryPercent_def sample_app_env_def image_request_def)
  moreover have "ota_step sample_app_env (?w, ?u) (?w, ?u)"
    by (rule refused [where r = "\<lparr>battery_present = True, battery_percent = 3, external_power = False\<rparr>" and request = image_request])
       (simp add: ota_upload_begin_def)
  ultimately have "(ota_step sample_app_env)\<^sup>*\<^sup>* ([], idle_ota) (?w, ?u)" by (meson rtranclp.simps)
  from ota_uploads_exclusive [OF this] show ?thesis by simp
qed

section \<open>Stored settings stay valid\<close>

definition settings_valid :: "app_env \<Rightarrow> storage \<Rightarrow> bool" where
  "settings_valid E st \<longleftrightarrow> (\<forall>m k v. GetSetting st m k = Some v \<longrightarrow> app_setting_validate E m k (vv_value v))"

text \<open>Writes either happen completely or not at all; a write cut short leaves a file no check has seen.\<close>

definition no_short_writes :: "storage \<Rightarrow> bool" where
  "no_short_writes st \<longleftrightarrow> (\<forall>m k n. write_io (settings_store st) m k \<noteq> IoShort n)"

lemma SetSetting_failed:
  assumes "no_short_writes st" "\<not> fst (SetSetting st m k n v)"
  shows "snd (SetSetting st m k n v) = st"
  using assms
  by (auto simp: SetSetting_def HostSettingsStore_Set_def WriteFile_def no_short_writes_def split: if_splits io.splits)

lemma no_short_writes_kept:
  "no_short_writes st \<Longrightarrow> no_short_writes (snd (SetSetting st m k n v))"
  "no_short_writes st \<Longrightarrow> no_short_writes (snd (EraseSetting st m k))"
  by (auto simp: no_short_writes_def SetSetting_def EraseSetting_def HostSettingsStore_Set_def HostSettingsStore_Erase_def
      WriteFile_def EraseFile_def split: if_splits io.splits prod.splits)

lemma SetSetting_valid:
  assumes "settings_valid E st" "no_short_writes st" "app_setting_validate E m k v" "0 \<le> n" "n \<le> 2 ^ 31 - 1"
  shows "settings_valid E (snd (SetSetting st m k n v))"
proof (cases "fst (SetSetting st m k n v)")
  case True
  then have "GetSetting (snd (SetSetting st m k n v)) m k = Some \<lparr>schema_version = n, vv_value = v\<rparr>"
    using assms(4,5) by (intro GetSetting_SetSetting) (simp_all add: int32_range_def prod_eq_iff)
  then show ?thesis
    using assms(1,3) GetSetting_SetSetting_other [of _ _ m k st n v] unfolding settings_valid_def
    by (metis option.inject prod.inject versioned_value.select_convs(2))
qed (use assms SetSetting_failed in simp)

lemma EraseSetting_valid: "settings_valid E st \<Longrightarrow> settings_valid E (snd (EraseSetting st m k))"
proof -
  assume v: "settings_valid E st"
  have "GetSetting (snd (EraseSetting st m k)) m' k' = Some x \<Longrightarrow> GetSetting st m' k' = Some x" for m' k' x
    by (auto simp: EraseSetting_def GetSetting_def HostSettingsStore_Erase_def HostSettingsStore_Get_def EraseFile_def ReadFile_def
        map_of_filter_key DecodeIfPresent_def Let_def split: if_splits option.splits)
  then show ?thesis using v unfolding settings_valid_def by blast
qed

abbreviation settings_kept :: "app_env \<Rightarrow> ('h, 'k) app \<Rightarrow> bool" where
  "settings_kept E s \<equiv> settings_valid E (auth_storage s) \<and> no_short_writes (auth_storage s)"

text \<open>Only the settings store matters.\<close>

lemma settings_kept_cong:
  "settings_store (auth_storage s') = settings_store (auth_storage s) \<Longrightarrow> settings_kept E s \<Longrightarrow> settings_kept E s'"
  by (simp add: settings_valid_def no_short_writes_def GetSetting_def)

lemma settings_post_kept:
  assumes "settings_kept E s"
  shows "settings_kept E (snd (settings_post_handler L (app_settings_env E) request s))"
proof (cases L request "app_settings_env E" s rule: settings_post_cases)
  case (stored parsed m k v n)
  have "app_setting_validate E m k v"
    using stored(6) by (simp add: setting_checks_def setting_accepted_def app_settings_env_def)
  moreover note range = find_schema_range [OF stored(5)]
  ultimately show ?thesis
    using assms SetSetting_valid [of E "auth_storage s" m k v n] no_short_writes_kept(1) [of "auth_storage s" m k n v]
    by (auto simp: stored(7) settings_store_step_def to_int32_nonneg Let_def case_prod_beta)
next
  case refused
  then show ?thesis using assms by simp
qed

lemma restore_entry_kept:
  assumes "settings_valid E st" "no_short_writes st"
  shows "settings_valid E (snd (restore_entry (app_settings_env E) e (r, st))) \<and> no_short_writes (snd (restore_entry (app_settings_env E) e (r, st)))"
  using assms SetSetting_valid [OF assms] no_short_writes_kept(1) [OF assms(2)] find_schema_range
  by (auto simp: restore_entry_def to_int32_nonneg setting_accepted_def app_settings_env_def case_prod_beta split: option.splits)

lemma restore_kept:
  assumes "settings_kept E s"
  shows "settings_kept E (snd (restore_handler L (app_settings_env E) request s))"
proof -
  have "settings_valid E (snd (restore_loop (app_settings_env E) es p)) \<and> no_short_writes (snd (restore_loop (app_settings_env E) es p))"
    if "settings_valid E (snd p)" "no_short_writes (snd p)" for es p
    using that unfolding restore_loop_def
  proof (induction es arbitrary: p)
    case (Cons e es)
    then show ?case using restore_entry_kept [of E "snd p" e "fst p"] by simp
  qed simp
  then show ?thesis using assms by (auto simp: restore_handler_def Let_def case_prod_beta split: option.split)
qed

lemma erase_kept:
  assumes "settings_kept E s"
  shows "settings_kept E (snd (settings_erase_handler L request s))"
  using assms EraseSetting_valid no_short_writes_kept(2)
  by (auto simp: settings_erase_handler_def Let_def case_prod_beta split: option.split)

lemma setup_settings_store: "settings_store (auth_storage (snd (SetInitialPassword E a b pw s))) = settings_store (auth_storage s)"
  by (auto simp: SetInitialPassword_cases frame_simps Let_def case_prod_beta split: option.split)

lemma public_settings_store:
  assumes "h \<in> set (public_handlers E)"
  shows "settings_store (auth_storage (snd (h request s))) = settings_store (auth_storage s)"
proof -
  have "settings_store (auth_storage (snd (auth_status_route L a request s))) = settings_store (auth_storage s)"
    "settings_store (auth_storage (snd (auth_setup_route A L a b request s))) = settings_store (auth_storage s)"
    "settings_store (auth_storage (snd (auth_login_route A L a b c d e request s))) = settings_store (auth_storage s)"
    "settings_store (auth_storage (snd (auth_logout_route request s))) = settings_store (auth_storage s)" for A L a b c d e
    by (auto simp: auth_status_route_def auth_setup_route_def auth_login_route_def auth_logout_route_def setup_settings_store
        frame_simps Let_def case_prod_beta split: option.split)
  then show ?thesis using assms unfolding public_handlers_def by auto
qed

lemma protected_kept:
  assumes "inner \<in> set (protected_handlers E)" "settings_kept E s"
  shows "settings_kept E (snd (inner request s))"
proof -
  have same: "settings_store (auth_storage (snd (diagnostics_handler E request s))) = settings_store (auth_storage s)"
    "settings_store (auth_storage (snd (coredump_handler E request s))) = settings_store (auth_storage s)"
    "settings_store (auth_storage (snd (logs_handler request s))) = settings_store (auth_storage s)"
    "settings_store (auth_storage (snd (ota_status_handler E request s))) = settings_store (auth_storage s)"
    "settings_store (auth_storage (snd (ota_upload_handler E request s))) = settings_store (auth_storage s)"
    "settings_store (auth_storage (snd (ota_reboot_handler request s))) = settings_store (auth_storage s)"
    "settings_store (auth_storage (snd (settings_get_handler (ae_json E) request s))) = settings_store (auth_storage s)"
    "settings_store (auth_storage (snd (backup_handler (ae_json E) request s))) = settings_store (auth_storage s)"
    "settings_store (auth_storage (snd (geocode_handler E request s))) = settings_store (auth_storage s)"
    "settings_store (auth_storage (snd (weather_refresh_handler request s))) = settings_store (auth_storage s)"
    "settings_store (auth_storage (snd (harmony_status_handler E request s))) = settings_store (auth_storage s)"
    "settings_store (auth_storage (snd (harmony_reconnect_handler request s))) = settings_store (auth_storage s)"
    "settings_store (auth_storage (snd (kodi_status_handler E request s))) = settings_store (auth_storage s)"
    "settings_store (auth_storage (snd (kodi_reconnect_handler request s))) = settings_store (auth_storage s)"
    "settings_store (auth_storage (snd (wifi_reset_handler E request s))) = settings_store (auth_storage s)"
    by (simp_all add: diagnostics_handler_def coredump_handler_def logs_handler_def ota_status_handler_def ota_upload_handler_def
        ota_reboot_handler_def settings_get_handler_def backup_handler_def geocode_handler_def weather_refresh_handler_def
        harmony_status_handler_def harmony_reconnect_handler_def kodi_status_handler_def kodi_reconnect_handler_def
        wifi_reset_handler_def missing_field_def Let_def case_prod_beta split: option.split)
  note kept = same [THEN settings_kept_cong, OF assms(2)] settings_post_kept [OF assms(2)] restore_kept [OF assms(2)] erase_kept [OF assms(2)]
  show ?thesis
    using assms(1) unfolding protected_handlers_def set_simps by (elim insertE emptyE) (simp_all only: kept)
qed

lemma RequireAuth_kept:
  assumes "\<And>s :: ('h, 'k) app. settings_kept E s \<Longrightarrow> settings_kept E (snd (inner request s))" "settings_kept E s"
  shows "settings_kept E (snd (RequireAuth now inner request s))"
proof -
  have "settings_kept E (snd (ValidateSession now tok s))" for tok
    by (rule settings_kept_cong [OF _ assms(2)]) (simp add: frame_simps)
  then show ?thesis
    using assms by (simp add: RequireAuth_def Let_def case_prod_beta split: option.split)
qed

text \<open>
  C10: No request makes the device keep a setting its module would refuse, provided that no write of a settings file
  is cut short half way (each succeeds or leaves the old file; what a cut write leaves has passed no
  check). From a store whose settings are valid, whatever sequence of requests reaches the served routes,
  authenticated or not, every stored setting of the Harmony, Kodi and weather modules passes that
  module's validator: the hosts of the hub and of Kodi are printable ASCII without blanks and without the
  characters \<^verbatim>\<open>: / # ? @\<close>, and a coordinate is empty or a number in range. Direct writes and restored backups are checked alike.
\<close>

theorem web_settings_stay_valid:
  assumes "settings_valid E (auth_storage s)" "no_short_writes (auth_storage s)"
    and "\<And>x h request. (x, h, request) \<in> set calls \<Longrightarrow> served_routes E (web_ui_files index_html app_js app_css) x = Some h"
  shows "settings_valid E (auth_storage (fold (\<lambda>(x, h, request) s. snd (h request s)) calls s))"
proof -
  have app: "settings_kept E (snd (h request s))" if route: "app_routes E x = Some h" and kept: "settings_kept E s" for x h request s
  proof (cases "x \<in> public_routes")
    case True
    show ?thesis by (rule settings_kept_cong [OF public_settings_store [OF public_route [OF route True]] kept])
  next
    case False
    then obtain inner where inner: "inner \<in> set (protected_handlers E)" and h: "h = RequireAuth (ae_now E 0) inner"
      using protected_route [OF route] by blast
    show ?thesis unfolding h by (rule RequireAuth_kept [OF protected_kept [OF inner] kept])
  qed
  have step: "settings_kept E (snd (h request s))"
    if "served_routes E (web_ui_files index_html app_js app_css) x = Some h" "settings_kept E s" for x h request s
    using served_route [OF that(1)] app [of x h s request] that(2) by auto
  have "settings_kept E (fold (\<lambda>(x, h, request) s. snd (h request s)) calls s)" if "settings_kept E s" for s
    using that assms(3)
  proof (induction calls arbitrary: s)
    case (Cons c calls)
    obtain x h request where c: "c = (x, h, request)" by (cases c)
    have route: "served_routes E (web_ui_files index_html app_js app_css) x = Some h"
      by (rule Cons.prems(2) [of x h request]) (simp add: c)
    have "settings_kept E (fold (\<lambda>(x, h, request) s. snd (h request s)) calls (snd (h request s)))"
      by (rule Cons.IH [OF step [OF route Cons.prems(1)]]) (rule Cons.prems(2), rule list.set_intros(2))
    then show ?case by (simp add: c)
  qed simp
  then show ?thesis using assms(1,2) by blast
qed

theorem web_settings_stay_valid_witness:
  "settings_valid sample_app_env (auth_storage (fold (\<lambda>(x, h, request) s. snd (h request s))
     [((kPost, ''/api/ota/reboot''), RequireAuth 0 ota_reboot_handler, reboot_request),
      ((kPost, ''/api/backup/restore''), RequireAuth 0 (restore_handler sample_json (app_settings_env sample_app_env)), reboot_request)]
     (running_app sample_storage)))"
proof (rule web_settings_stay_valid)
  show "settings_valid sample_app_env (auth_storage (running_app sample_storage))"
    by (simp add: settings_valid_def running_app_def sample_storage_def GetSetting_def HostSettingsStore_Get_def ReadFile_def
        DecodeIfPresent_def Let_def)
  show "no_short_writes (auth_storage (running_app sample_storage))"
    by (simp add: no_short_writes_def running_app_def sample_storage_def Let_def)
next
  have routes: "served_routes sample_app_env (web_ui_files None None None) (kPost, ''/api/ota/reboot'') =
       Some (RequireAuth 0 ota_reboot_handler)"
    "served_routes sample_app_env (web_ui_files None None None) (kPost, ''/api/backup/restore'') =
       Some (RequireAuth 0 (restore_handler sample_json (app_settings_env sample_app_env)))"
    by (simp_all add: served_routes_def web_ui_files_def map_filter_simps app_routes_def register_defs sample_app_env_def)
  fix x request and h :: "(unit, unit) app handler"
  assume "(x, h, request) \<in> set
     [((kPost, ''/api/ota/reboot''), RequireAuth 0 ota_reboot_handler, reboot_request),
      ((kPost, ''/api/backup/restore''), RequireAuth 0 (restore_handler sample_json (app_settings_env sample_app_env)), reboot_request)]"
  then show "served_routes sample_app_env (web_ui_files None None None) x = Some h"
    unfolding set_simps by (elim insertE emptyE) (simp_all only: prod.inject routes)
qed

end
