(* ===== verification/Http_Servers.thy ===== *)
theory Http_Servers
  imports Http
begin

text \<open>
  The two HTTP servers behind \<^verbatim>\<open>platform/http_server.h\<close>: \<^verbatim>\<open>platform/firmware/http_server.cpp\<close> over
  esp_http_server and \<^verbatim>\<open>platform/host/http_server.cpp\<close> over civetweb. What the server library does
  (binding, parsing the request head, reading body bytes) is a parameter over an arbitrary world \<open>'w\<close>;
  the state the handlers close over is \<open>'s\<close>.
\<close>

section \<open>Registration\<close>

definition kMaxHttpRequestBodyBytes :: nat where "kMaxHttpRequestBodyBytes = 8 * 1024 * 1024"

definition RegisterHandler :: "http_method \<Rightarrow> string \<Rightarrow> 's handler \<Rightarrow> 's routes \<Rightarrow> 's routes" where
  "RegisterHandler method path handler handlers = handlers((method, path) \<mapsto> handler)"

section \<open>Receiving a body (firmware)\<close>

text \<open>
  One \<^verbatim>\<open>httpd_req_recv\<close>: bytes, \<^verbatim>\<open>HTTPD_SOCK_ERR_TIMEOUT\<close>, or another non-positive result. No bytes at
  all is the result 0, the peer having closed.
\<close>

datatype body_recv = BodyData string | BodyTimeout | BodyError

type_synonym 'w body_source = "nat \<Rightarrow> 'w \<Rightarrow> body_recv \<times> 'w"

definition kMaxConsecutiveRecvTimeouts :: nat where "kMaxConsecutiveRecvTimeouts = 3"
definition kMaxTotalRecvTimeouts :: nat where "kMaxTotalRecvTimeouts = 120"

function recv_body_loop ::
  "'w body_source \<Rightarrow> nat \<Rightarrow> string \<Rightarrow> nat \<Rightarrow> nat \<Rightarrow> 'w \<Rightarrow> string option \<times> 'w" where
  "recv_body_loop recv len body consecutive_timeouts total_timeouts w =
     (if length body < len then
        (case recv (len - length body) w of
           (BodyTimeout, w1) \<Rightarrow>
             if kMaxConsecutiveRecvTimeouts < consecutive_timeouts + 1 \<or> kMaxTotalRecvTimeouts < total_timeouts + 1 then (None, w1)
             else recv_body_loop recv len body (consecutive_timeouts + 1) (total_timeouts + 1) w1
         | (BodyError, w1) \<Rightarrow> (None, w1)
         | (BodyData received, w1) \<Rightarrow>
             if received = [] then (None, w1)
             else recv_body_loop recv len (body @ received) 0 total_timeouts w1)
      else (Some body, w))"
  by pat_completeness auto
termination
proof (relation "measure (\<lambda>(recv, len, body, c, t, w). (len - length body) + (kMaxTotalRecvTimeouts - t))", goal_cases)
  case (2 recv len body c t w r w1 d)
  then have "0 < length d" by simp
  with 2 show ?case unfolding in_measure split length_append by linarith
qed auto

declare recv_body_loop.simps [simp del]

section \<open>Dispatch (firmware)\<close>

record httpd_req =
  req_uri :: string
  content_len :: int
  req_cookie :: "string option"

text \<open>\<open>Sent\<close> is a response in full; the other two are the replies the server makes on its own.\<close>

datatype http_reply =
    Sent (sent_status: string) (sent_type: string) (sent_headers: "(string \<times> string) list") (sent_body: string)
  | Refused int

definition StatusLine :: "int \<Rightarrow> string" where
  "StatusLine code = to_string code @ '' '' @ HttpReasonPhrase code"

definition split_uri :: "string \<Rightarrow> string \<times> string" where
  "split_uri full_uri =
     (case find_char CHR ''?'' full_uri of
        Some query_start \<Rightarrow> (take query_start full_uri, drop (query_start + 1) full_uri)
      | None \<Rightarrow> (full_uri, []))"

definition request_of :: "string \<Rightarrow> string \<Rightarrow> string option \<Rightarrow> http_request" where
  "request_of full_uri body cookie =
     \<lparr>req_path = fst (split_uri full_uri), req_query = snd (split_uri full_uri), req_body = body, cookie_header = cookie\<rparr>"

definition FirmwareDispatch ::
  "'w body_source \<Rightarrow> 's handler \<Rightarrow> httpd_req \<Rightarrow> 'w \<Rightarrow> 's \<Rightarrow> http_reply \<times> 'w \<times> 's" where
  "FirmwareDispatch recv handler req w s =
     (if 0 < content_len req \<and> kMaxHttpRequestBodyBytes < nat (content_len req) then (Refused 413, w, s)
      else
        (let (body, w1) = (if 0 < content_len req then recv_body_loop recv (nat (content_len req)) [] 0 0 w else (Some [], w))
         in case body of
              None \<Rightarrow> (Refused 500, w1, s)
            | Some b \<Rightarrow>
                (let cookie = (case req_cookie req of None \<Rightarrow> None | Some c \<Rightarrow> if c = [] then None else Some c);
                     (response, s1) = handler (request_of (req_uri req) b cookie) s
                 in (Sent (StatusLine (status_code response)) (content_type response) (extra_headers response) (resp_body response),
                     w1, s1))))"

section \<open>Start and Stop (firmware)\<close>

record 'h firmware_server =
  server_handle :: "'h option"
  registered :: "(http_method \<times> string) list"

text \<open>
  \<open>start\<close> is \<^verbatim>\<open>httpd_start\<close> with the capacity for URI handlers; \<open>register\<close> is
  \<^verbatim>\<open>httpd_register_uri_handler\<close>, given the handlers already registered. A failed registration is logged.
\<close>

definition FirmwareStart ::
  "(nat \<Rightarrow> nat \<Rightarrow> 'h option) \<Rightarrow> ('h \<Rightarrow> (http_method \<times> string) list \<Rightarrow> http_method \<times> string \<Rightarrow> bool) \<Rightarrow>
   nat \<Rightarrow> (http_method \<times> string) list \<Rightarrow> 'h firmware_server \<Rightarrow> bool \<times> 'h firmware_server" where
  "FirmwareStart start register port keys f =
     (case start port (max (length keys) 1) of
        None \<Rightarrow> (False, f)
      | Some h \<Rightarrow>
          (True, \<lparr>server_handle = Some h,
                  registered = fold (\<lambda>k done_keys. if register h done_keys k then done_keys @ [k] else done_keys) keys []\<rparr>))"

definition FirmwareStop :: "'h firmware_server \<Rightarrow> 'h firmware_server" where
  "FirmwareStop f = (if server_handle f \<noteq> None then f\<lparr>server_handle := None, registered := []\<rparr> else f)"

section \<open>Dispatch (host)\<close>

text \<open>\<^verbatim>\<open>mg_request_info\<close>: the fields \<open>Dispatch\<close> reads. Null pointers are \<^const>\<open>None\<close>.\<close>

record mg_request =
  request_method :: "string option"
  request_uri :: string
  query_string :: "string option"
  content_length :: int
  mg_cookie :: "string option"

fun is_body_data :: "body_recv \<Rightarrow> bool" where
  "is_body_data (BodyData d) = (d \<noteq> [])"
| "is_body_data _ = False"

fun data_of :: "body_recv \<Rightarrow> string" where
  "data_of (BodyData d) = d"
| "data_of _ = []"

function mg_read_loop :: "'w body_source \<Rightarrow> nat \<Rightarrow> string \<Rightarrow> 'w \<Rightarrow> string option \<times> 'w" where
  "mg_read_loop read len body w =
     (if length body < len then
        (case read (len - length body) w of
           (r, w1) \<Rightarrow> if is_body_data r then mg_read_loop read len (body @ data_of r) w1 else (None, w1))
      else (Some body, w))"
  by pat_completeness auto
termination
proof (relation "measure (\<lambda>(read, len, body, w). len - length body)", goal_cases)
  case (2 read len body w r w1)
  then have "0 < length (data_of r)" by (cases r) simp_all
  with 2 show ?case unfolding in_measure split length_append by linarith
qed simp

declare mg_read_loop.simps [simp del]

definition crlf_line :: "string \<Rightarrow> string" where
  "crlf_line s = s @ [CHR 0x0D, CHR 0x0A]"

definition http_text :: "http_response \<Rightarrow> string" where
  "http_text r =
     crlf_line (''HTTP/1.1 '' @ to_string (status_code r) @ '' '' @ HttpReasonPhrase (status_code r)) @
     crlf_line (''Content-Type: '' @ content_type r) @
     crlf_line (''Content-Length: '' @ to_string (int (length (resp_body r)))) @
     concat (map (\<lambda>(name, v). crlf_line (name @ '': '' @ v)) (extra_headers r)) @ crlf_line [] @ resp_body r"

definition method_of :: "string option \<Rightarrow> http_method option" where
  "method_of m =
     (let method_str = (case m of None \<Rightarrow> [] | Some s \<Rightarrow> s)
      in if method_str = ''GET'' then Some kGet else if method_str = ''POST'' then Some kPost else None)"

text \<open>The result is the text written to the connection, or the code handed to \<^verbatim>\<open>mg_send_http_error\<close>.\<close>

definition HostDispatch ::
  "'w body_source \<Rightarrow> 's routes \<Rightarrow> mg_request \<Rightarrow> 'w \<Rightarrow> 's \<Rightarrow> (string + int) \<times> 'w \<times> 's" where
  "HostDispatch read handlers info w s =
     (case method_of (request_method info) of
        None \<Rightarrow> (Inr 405, w, s)
      | Some method \<Rightarrow>
          (case handlers (method, request_uri info) of
             None \<Rightarrow> (Inr 404, w, s)
           | Some handler \<Rightarrow>
               if 0 < content_length info \<and> kMaxHttpRequestBodyBytes < nat (content_length info) then (Inr 413, w, s)
               else
                 (let (body, w1) = (if 0 < content_length info then mg_read_loop read (nat (content_length info)) [] w
                                    else (Some [], w))
                  in case body of
                       None \<Rightarrow> (Inr 500, w1, s)
                     | Some b \<Rightarrow>
                         (let (response, s1) =
                            handler \<lparr>req_path = request_uri info,
                                     req_query = (case query_string info of None \<Rightarrow> [] | Some q \<Rightarrow> q),
                                     req_body = b, cookie_header = mg_cookie info\<rparr> s
                          in (Inl (http_text response), w1, s1)))))"

section \<open>What a reception may cost\<close>

text \<open>The same source, with every result written down.\<close>

definition recording :: "'w body_source \<Rightarrow> ('w \<times> body_recv list) body_source" where
  "recording recv n wt = (case recv n (fst wt) of (r, w1) \<Rightarrow> (r, w1, snd wt @ [r]))"

definition recv_contract :: "'w body_source \<Rightarrow> bool" where
  "recv_contract recv \<longleftrightarrow> (\<forall>n w d w1. recv n w = (BodyData d, w1) \<longrightarrow> length d \<le> n)"

text \<open>A fourth timeout in a row, counting \<open>c\<close> already seen, can only be the end of the reception.\<close>

fun quiet :: "nat \<Rightarrow> body_recv list \<Rightarrow> bool" where
  "quiet c [] = True"
| "quiet c (BodyTimeout # rs) = (if c < 3 then quiet (c + 1) rs else rs = [])"
| "quiet c (r # rs) = quiet 0 rs"

abbreviation timeouts :: "body_recv list \<Rightarrow> nat" where
  "timeouts rs \<equiv> count_list rs BodyTimeout"

abbreviation received :: "body_recv list \<Rightarrow> string" where
  "received rs \<equiv> concat (map data_of rs)"

definition reception :: "nat \<Rightarrow> string \<Rightarrow> nat \<Rightarrow> nat \<Rightarrow> body_recv list \<Rightarrow> string option \<Rightarrow> bool" where
  "reception len body c t rs res \<longleftrightarrow>
     length rs \<le> (len - length body) + (121 - t) \<and> timeouts rs \<le> 121 - t \<and> quiet c rs \<and>
     (case res of
        Some b \<Rightarrow> b = body @ received rs \<and> len \<le> length b \<and> list_all (\<lambda>r. r = BodyTimeout \<or> is_body_data r) rs
      | None \<Rightarrow> length (body @ received rs) < len \<and> rs \<noteq> [] \<and> \<not> is_body_data (List.last rs))"

lemma reception_done: "len \<le> length body \<Longrightarrow> reception len body c t [] (Some body)"
  by (simp add: reception_def)

lemma reception_stop:
  assumes "length body < len" "\<not> is_body_data r" "t \<le> 120"
  shows "reception len body c t [r] None"
  using assms by (cases r) (auto simp: reception_def)

lemma reception_data:
  assumes "reception len (body @ d) 0 t rs res" "d \<noteq> []" "length body < len"
  shows "reception len body c t (BodyData d # rs) res"
proof -
  have "0 < length d" using assms(2) by simp
  then have step: "Suc (length rs) \<le> (len - length body) + k" if "length rs \<le> (len - length (body @ d)) + k" for k
    using that assms(3) unfolding length_append by linarith
  show ?thesis
    using assms(1) step [of "121 - t"] assms(2,3) unfolding reception_def
    by (simp only: list.size count_list.simps quiet.simps) (auto split: option.splits)
qed

lemma reception_timeout:
  assumes "reception len body (c + 1) (t + 1) rs res" "c < 3" "t < 120" "length body < len"
  shows "reception len body c t (BodyTimeout # rs) res"
  using assms by (auto simp: reception_def split: option.splits)

lemma recv_body_loop_recording:
  assumes "t \<le> 120"
  shows "\<exists>rs. recv_body_loop (recording recv) len body c t (w, tr) =
           (fst (recv_body_loop recv len body c t w), snd (recv_body_loop recv len body c t w), tr @ rs) \<and>
         reception len body c t rs (fst (recv_body_loop recv len body c t w))"
  using assms
proof (induction recv len body c t w arbitrary: tr rule: recv_body_loop.induct)
  case (1 recv len body c t w)
  note unfold = recv_body_loop.simps [of recv len body c t w] recv_body_loop.simps [of "recording recv" len body c t "(w, tr)"]
  show ?case
  proof (cases "length body < len")
    case False
    then show ?thesis using unfold by (simp add: reception_done)
  next
    case True
    obtain r w1 where r: "recv (len - length body) w = (r, w1)" by fastforce
    have rec: "recording recv (len - length body) (w, tr) = (r, w1, tr @ [r])" using r by (simp add: recording_def)
    note unfold = unfold [unfolded r rec, simplified True if_True split]
    show ?thesis
    proof (cases r)
      case (BodyData d)
      show ?thesis
      proof (cases "d = []")
        case True
        then show ?thesis using unfold BodyData reception_stop [OF \<open>length body < len\<close>, of r] 1(3) by simp
      next
        case False
        from 1(1) [OF \<open>length body < len\<close> r [symmetric] BodyData False 1(3), of "tr @ [r]"]
        show ?thesis using unfold BodyData False reception_data [OF _ False \<open>length body < len\<close>] by fastforce
      qed
    next
      case BodyTimeout
      show ?thesis
      proof (cases "3 < c + 1 \<or> 120 < t + 1")
        case True
        then show ?thesis using unfold BodyTimeout reception_stop [OF \<open>length body < len\<close>, of r] 1(3)
          by (simp add: kMaxConsecutiveRecvTimeouts_def kMaxTotalRecvTimeouts_def)
      next
        case False
        then have "\<not> (kMaxConsecutiveRecvTimeouts < c + 1 \<or> kMaxTotalRecvTimeouts < t + 1)"
          by (simp add: kMaxConsecutiveRecvTimeouts_def kMaxTotalRecvTimeouts_def)
        with 1(2) [OF \<open>length body < len\<close> r [symmetric] BodyTimeout, of "tr @ [r]"] False
        show ?thesis using unfold BodyTimeout reception_timeout [OF _ _ _ \<open>length body < len\<close>, of c t] by fastforce
      qed
    next
      case BodyError
      then show ?thesis using unfold reception_stop [OF \<open>length body < len\<close>, of r] 1(3) by simp
    qed
  qed
qed

lemma recv_body_loop_length:
  assumes "recv_contract recv" "recv_body_loop recv len body c t w = (Some b, w1)" "length body \<le> len"
  shows "length b = len"
  using assms
proof (induction recv len body c t w rule: recv_body_loop.induct)
  case (1 recv len body c t w)
  obtain r w2 where r: "recv (len - length body) w = (r, w2)" by fastforce
  note run = 1(4) [unfolded recv_body_loop.simps [of recv len body c t w] r]
  show ?case
  proof (cases "length body < len")
    case True
    show ?thesis
    proof (cases r)
      case (BodyData d)
      then have "length (body @ d) \<le> len" using 1(3) r True unfolding recv_contract_def by fastforce
      then show ?thesis using 1(1) [OF True r [symmetric] BodyData _ 1(3)] run BodyData True by (auto split: if_splits)
    next
      case BodyTimeout
      then show ?thesis using 1(2) [OF True r [symmetric] BodyTimeout _ 1(3)] run True 1(5) by (auto split: if_splits)
    qed (use run True in simp)
  qed (use run 1(5) in simp)
qed

text \<open>A source that hands out a given list of results.\<close>

fun script_recv :: "body_recv list body_source" where
  "script_recv n [] = (BodyError, [])"
| "script_recv n (r # rs) = (r, rs)"

fun patient :: "nat \<Rightarrow> nat \<Rightarrow> body_recv list \<Rightarrow> bool" where
  "patient c t [] = True"
| "patient c t (BodyTimeout # rs) = (c < 3 \<and> t < 120 \<and> patient (c + 1) (t + 1) rs)"
| "patient c t (BodyData d # rs) = (d \<noteq> [] \<and> patient 0 t rs)"
| "patient c t (BodyError # rs) = False"

lemma recv_body_complete:
  assumes "patient c t rs" "rs \<noteq> [] \<Longrightarrow> is_body_data (List.last rs)" "len = length (body @ received rs)"
  shows "recv_body_loop script_recv len body c t (rs @ rest) = (Some (body @ received rs), rest)"
  using assms
proof (induction rs arbitrary: body c t)
  case Nil
  then show ?case by (simp add: recv_body_loop.simps)
next
  case (Cons r rs)
  show ?case
  proof (cases r)
    case (BodyData d)
    then have "recv_body_loop script_recv len (body @ d) 0 t (rs @ rest) = (Some ((body @ d) @ received rs), rest)"
      using Cons.prems by (intro Cons.IH) auto
    moreover have "length body < len" using Cons.prems BodyData by simp
    ultimately show ?thesis using Cons.prems(1) BodyData by (subst recv_body_loop.simps) simp
  next
    case BodyTimeout
    then have "rs \<noteq> []" using Cons.prems(2) by auto
    then have "is_body_data (List.last rs)" using Cons.prems(2) by simp
    then have "data_of (List.last rs) \<noteq> []" by (cases "List.last rs") simp_all
    then have "received rs \<noteq> []" using last_in_set [OF \<open>rs \<noteq> []\<close>] by auto
    then have "length body < len" using Cons.prems(3) BodyTimeout by simp
    moreover have "recv_body_loop script_recv len body (c + 1) (t + 1) (rs @ rest) = (Some (body @ received rs), rest)"
      using Cons.prems BodyTimeout \<open>rs \<noteq> []\<close> by (intro Cons.IH) auto
    ultimately show ?thesis using Cons.prems(1) BodyTimeout
      by (subst recv_body_loop.simps) (simp add: kMaxConsecutiveRecvTimeouts_def kMaxTotalRecvTimeouts_def)
  next
    case BodyError
    then show ?thesis using Cons.prems(1) by simp
  qed
qed

lemma mg_read_complete:
  assumes "list_all is_body_data rs" "len = length (body @ received rs)"
  shows "mg_read_loop script_recv len body (rs @ rest) = (Some (body @ received rs), rest)"
  using assms
proof (induction rs arbitrary: body)
  case Nil
  then show ?case by (simp add: mg_read_loop.simps)
next
  case (Cons r rs)
  then have "mg_read_loop script_recv len (body @ data_of r) (rs @ rest) = (Some ((body @ data_of r) @ received rs), rest)"
    by (intro Cons.IH) auto
  moreover have "length body < len" using Cons.prems by (cases r) auto
  ultimately show ?case using Cons.prems(1) by (subst mg_read_loop.simps) simp
qed

lemma patient_data: "list_all is_body_data rs \<Longrightarrow> patient c t rs"
proof (induction rs arbitrary: c)
  case (Cons r rs)
  then show ?case by (cases r) auto
qed simp

text \<open>
  C23: What one client can cost the single worker thread of the web server, whatever it sends and
  however slowly. Receiving a body of \<open>len\<close> bytes takes at most \<open>len + 121\<close> receive calls, of which at
  most 121 time out, and never more than four of those in a row (the fourth ends it). On success the
  body is exactly what was received, of the announced length; otherwise fewer bytes than announced
  arrived and the last call brought none.
  (A receive call returns no more bytes than it was asked for.)
\<close>

theorem body_reception_bounded:
  assumes "recv_contract recv" "recv_body_loop recv len [] 0 0 w = (res, w')"
  shows "\<exists>rs. recv_body_loop (recording recv) len [] 0 0 (w, []) = (res, w', rs) \<and>
           length rs \<le> len + 121 \<and> timeouts rs \<le> 121 \<and> quiet 0 rs \<and>
           (case res of
              Some b \<Rightarrow> b = received rs \<and> length b = len
            | None \<Rightarrow> length (received rs) < len \<and> \<not> is_body_data (List.last rs))"
proof -
  obtain rs where rs: "recv_body_loop (recording recv) len [] 0 0 (w, []) = (res, w', rs)" "reception len [] 0 0 rs res"
    using recv_body_loop_recording [of 0 recv len "[]" 0 w "[]"] assms(2) by auto
  moreover have "length b = len" if "res = Some b" for b
    using recv_body_loop_length [OF assms(1), of len "[]" 0 0 w b w'] assms(2) that by simp
  ultimately show ?thesis by (intro exI [of _ rs]) (auto simp: reception_def split: option.splits)
qed

definition sample_script :: "body_recv list" where
  "sample_script = [BodyTimeout, BodyData ''ab'', BodyTimeout, BodyTimeout, BodyTimeout, BodyData ''c'']"

definition bounded_script_recv :: "body_recv list body_source" where
  "bounded_script_recv n rs = (case script_recv n rs of (BodyData d, w) \<Rightarrow> (BodyData (take n d), w) | rw \<Rightarrow> rw)"

theorem body_reception_bounded_witness:
  "\<exists>rs. recv_body_loop (recording bounded_script_recv) 3 [] 0 0 (sample_script, []) = (Some ''abc'', [], rs) \<and>
     timeouts rs \<le> 121 \<and> quiet 0 rs \<and> ''abc'' = received rs"
proof -
  have c: "recv_contract bounded_script_recv"
    by (auto simp: recv_contract_def bounded_script_recv_def split: prod.splits body_recv.splits)
  have "recv_body_loop bounded_script_recv 3 [] 0 0 sample_script = (Some ''abc'', [])"
    by (simp add: recv_body_loop.simps sample_script_def bounded_script_recv_def kMaxConsecutiveRecvTimeouts_def kMaxTotalRecvTimeouts_def)
  from body_reception_bounded [OF c this] show ?thesis by auto
qed

text \<open>
  A reply as an HTTP/1.1 message: the status line, one line per header, the type and the length of the body
  among them, and the body.
\<close>

fun http_message :: "http_reply \<Rightarrow> string" where
  "http_message (Sent status kind headers body) =
     crlf_line (''HTTP/1.1 '' @ status) @
     concat (map (\<lambda>(name, v). crlf_line (name @ '': '' @ v))
       ([(''Content-Type'', kind), (''Content-Length'', to_string (int (length body)))] @ headers)) @
     crlf_line [] @ body"
| "http_message (Refused code) = []"


definition sample_handler :: "nat handler" where
  "sample_handler request s = (json_response 200 (req_body request @ req_query request), s + 1)"


text \<open>A body announced above the ceiling is refused unread, and a refused request never reaches its handler.\<close>

lemma FirmwareDispatch_refused:
  assumes "FirmwareDispatch recv handler req w s = (Refused code, w', s')"
  shows "s' = s \<and> (code = 413 \<longrightarrow> w' = w \<and> kMaxHttpRequestBodyBytes < nat (content_len req))"
  using assms by (auto simp: FirmwareDispatch_def Let_def split: if_splits prod.splits option.splits)

lemma FirmwareStart_registers_all:
  assumes "\<And>h ks k. register h ks k \<longleftrightarrow> length ks < max (length keys) 1" "start port (max (length keys) 1) = Some h"
  shows "FirmwareStart start register port keys f = (True, \<lparr>server_handle = Some h, registered = keys\<rparr>)"
proof -
  have "fold (\<lambda>k ks. if register h ks k then ks @ [k] else ks) xs ys = ys @ xs" if "length ys + length xs \<le> length keys" for xs ys
    using that by (induction xs arbitrary: ys) (auto simp: assms(1))
  from this [of "[]" keys] show ?thesis unfolding FirmwareStart_def assms(2) by simp
qed

section \<open>HTTP clients\<close>

text \<open>
  \<^verbatim>\<open>platform/host/http_client.cpp\<close> (libcurl) and \<^verbatim>\<open>platform/firmware/http_client.cpp\<close> (esp_http_client).
  One transfer of the library is the chunks it would hand to the sink, whether it ends well, and the
  status; \<open>transport\<close> is the library, \<^const>\<open>None\<close> when no handle can be made.
\<close>

definition kMaxHttpResponseBodyBytes :: nat where "kMaxHttpResponseBodyBytes = 1024 * 1024"

record client_request =
  rq_url :: string
  rq_post :: bool
  rq_headers :: "(string \<times> string) list"
  rq_body :: string

record http_transfer =
  tr_chunks :: "string list"
  tr_ok :: bool
  tr_status :: int

definition WriteToString :: "string \<Rightarrow> string \<Rightarrow> string option" where
  "WriteToString body data = (if kMaxHttpResponseBodyBytes < length body + length data then None else Some (body @ data))"

fun deliver :: "string \<Rightarrow> string list \<Rightarrow> string \<times> bool" where
  "deliver body [] = (body, True)"
| "deliver body (c # cs) = (case WriteToString body c of None \<Rightarrow> (body, False) | Some b \<Rightarrow> deliver b cs)"

definition PerformCommon :: "http_transfer option \<Rightarrow> http_client_response" where
  "PerformCommon t =
     (case t of
        None \<Rightarrow> \<lparr>cr_success = False, cr_status_code = 0, cr_body = []\<rparr>
      | Some tr \<Rightarrow>
          (let (body, whole) = deliver [] (tr_chunks tr); success = whole \<and> tr_ok tr
           in \<lparr>cr_success = success, cr_status_code = (if success then tr_status tr else 0), cr_body = body\<rparr>))"

definition Client_Get :: "(client_request \<Rightarrow> http_transfer option) \<Rightarrow> string \<Rightarrow> http_client_response" where
  "Client_Get transport url = PerformCommon (transport \<lparr>rq_url = url, rq_post = False, rq_headers = [], rq_body = []\<rparr>)"

definition HostClient_Post ::
  "(client_request \<Rightarrow> http_transfer option) \<Rightarrow> string \<Rightarrow> string \<Rightarrow> (string \<times> string) list \<Rightarrow> http_client_response" where
  "HostClient_Post transport url json_body headers =
     PerformCommon (transport
       \<lparr>rq_url = url, rq_post = True, rq_headers = (''Content-Type'', ''application/json'') # headers, rq_body = json_body\<rparr>)"

text \<open>\<open>set_header\<close> and \<open>set_body\<close> are \<^verbatim>\<open>esp_http_client_set_header\<close> and \<^verbatim>\<open>esp_http_client_set_post_field\<close>.\<close>

definition FirmwareClient_Post ::
  "(string \<times> string \<Rightarrow> bool) \<Rightarrow> (string \<Rightarrow> bool) \<Rightarrow> (client_request \<Rightarrow> http_transfer option) \<Rightarrow> string \<Rightarrow> string \<Rightarrow>
   (string \<times> string) list \<Rightarrow> http_client_response" where
  "FirmwareClient_Post set_header set_body transport url json_body headers =
     (if set_header (''Content-Type'', ''application/json'') \<and> list_all set_header headers \<and> set_body json_body then
        PerformCommon (transport
          \<lparr>rq_url = url, rq_post = True, rq_headers = (''Content-Type'', ''application/json'') # headers, rq_body = json_body\<rparr>)
      else \<lparr>cr_success = False, cr_status_code = 0, cr_body = []\<rparr>)"

lemma deliver_spec:
  "length body \<le> kMaxHttpResponseBodyBytes \<Longrightarrow>
     length (fst (deliver body cs)) \<le> kMaxHttpResponseBodyBytes \<and>
     (snd (deliver body cs) \<longleftrightarrow> length body + length (concat cs) \<le> kMaxHttpResponseBodyBytes) \<and>
     (snd (deliver body cs) \<longrightarrow> fst (deliver body cs) = body @ concat cs)"
proof (induction cs arbitrary: body)
  case (Cons c cs)
  show ?case
  proof (cases "WriteToString body c")
    case None
    then show ?thesis using Cons.prems by (auto simp: WriteToString_def split: if_splits)
  next
    case (Some b)
    then have "b = body @ c" "length b \<le> kMaxHttpResponseBodyBytes" by (auto simp: WriteToString_def split: if_splits)
    then show ?thesis using Cons.IH [of b] Some by (simp add: add.assoc)
  qed
qed simp

text \<open>
  A peer cannot make a response grow past the ceiling, and a response reported as a success is
  complete: an answer over the ceiling is a transport failure, never a truncated success.
\<close>

lemma PerformCommon_bounded: "length (cr_body (PerformCommon t)) \<le> kMaxHttpResponseBodyBytes"
  using deliver_spec [of "[]" "tr_chunks (the t)"] by (cases t) (simp_all add: PerformCommon_def case_prod_beta Let_def)

lemma PerformCommon_complete:
  "cr_success (PerformCommon t) \<longleftrightarrow>
     (\<exists>tr. t = Some tr \<and> tr_ok tr \<and> length (concat (tr_chunks tr)) \<le> kMaxHttpResponseBodyBytes \<and>
           cr_body (PerformCommon t) = concat (tr_chunks tr) \<and> cr_status_code (PerformCommon t) = tr_status tr)"
  using deliver_spec [of "[]" "tr_chunks (the t)"] by (cases t) (auto simp: PerformCommon_def case_prod_beta Let_def)

end
