(* ===== verification/Wifi_Setup.thy ===== *)
theory Wifi_Setup
  imports Net Http_Servers
begin

text \<open>
  \<^verbatim>\<open>firmware/main/wifi_setup.cpp\<close>: station reconnection, the first-run and the recovery access point with
  their form, and the approval of a recovery request on the device's screen. Every call into ESP-IDF is
  written to a log with its result, and the results are a parameter; so is the world they are read from,
  which may change between any two steps. One step is one entry into the module: an event of the event
  loop, an expiry of one of its two timers, a form submission, a call from the screen. Logging and the
  registration of the form's two URIs (whose failure is only logged) are left out.
\<close>

section \<open>Calls, inputs and the log\<close>

datatype wifi_mode = kModeSta | kModeApSta
datatype connect_site = kOnStaStart | kOnReconnectTimer | kOnSubmission
datatype wifi_timer = kReconnectTimer | kRecoveryTimer

datatype esp_call =
    WifiConnect connect_site
  | WifiSetStaConfig string string
  | WifiSetApConfig string
  | WifiSetMode wifi_mode
  | WifiStart
  | WifiStop
  | HttpdStart nat nat
  | HttpdStop
  | TimerStartOnce wifi_timer int
  | TimerStop wifi_timer

datatype ui_call =
    OnSetupNeeded string string nat
  | OnConnected
  | OnConnectFailed
  | OnCredentialsPending string u32

datatype wifi_event = StaStart | StaDisconnected | ApStaConnected | ApStaDisconnected | GotIp string

datatype wifi_input =
    InEvent wifi_event
  | InReconnectTimer
  | InRecoveryTimer
  | InForm int
  | InSubmit string string
  | InApprove u32
  | InReject

datatype wifi_log = LCall esp_call bool | LUi ui_call | LIn wifi_input

record wifi_ui_callbacks =
  has_setup_needed :: bool
  has_connected :: bool
  has_connect_failed :: bool
  has_credentials_pending :: bool

record 'w wifi =
  w_setup_server :: bool
  w_policy :: wifi_reconnect_policy
  w_ap_clients :: int
  w_initial :: bool
  w_pending :: pending_wifi_credentials
  w_callbacks :: wifi_ui_callbacks
  w_network :: "bool \<times> string \<times> string"
  w_pending_ssid :: string
  w_connected_bit :: bool
  w_log :: "wifi_log list"
  w_world :: 'w

text \<open>The ESP-IDF calls with a plain result, the station's MAC and stored SSID, the form's body bytes
  and \<^verbatim>\<open>ESP_HTTPD_DEF_CTRL_PORT\<close>.\<close>

record 'w wifi_env =
  esp :: "esp_call \<Rightarrow> 'w \<Rightarrow> bool \<times> 'w"
  get_mac :: "'w \<Rightarrow> u8 list option"
  get_sta_ssid :: "'w \<Rightarrow> string option"
  form_recv :: "'w body_source"
  def_ctrl_port :: nat

definition note_log :: "wifi_log \<Rightarrow> 'w wifi \<Rightarrow> 'w wifi" where
  "note_log l s = s\<lparr>w_log := w_log s @ [l]\<rparr>"

definition esp_do :: "'w wifi_env \<Rightarrow> esp_call \<Rightarrow> 'w wifi \<Rightarrow> bool \<times> 'w wifi" where
  "esp_do E c s = (let (ok, w) = esp E c (w_world s) in (ok, note_log (LCall c ok) (s\<lparr>w_world := w\<rparr>)))"

definition ui_do :: "bool \<Rightarrow> ui_call \<Rightarrow> 'w wifi \<Rightarrow> 'w wifi" where
  "ui_do present c s = (if present then note_log (LUi c) s else s)"

section \<open>Constants\<close>

definition kMaxSetupReconnectAttempts :: int where "kMaxSetupReconnectAttempts = 5"
definition kNormalModeRecoveryAttempts :: int where "kNormalModeRecoveryAttempts = 40"
definition kReconnectBackoffMs :: int where "kReconnectBackoffMs = 500"
definition kRecoveryApReconnectBackoffMs :: int where "kRecoveryApReconnectBackoffMs = 30000"
definition kApGatewayIp :: string where "kApGatewayIp = ''192.168.4.1''"
definition kSetupHttpPort :: nat where "kSetupHttpPort = 80"
definition kRecoveryHttpPort :: nat where "kRecoveryHttpPort = 8080"
definition kMaxBodyBytes :: nat where "kMaxBodyBytes = 320"

text \<open>\<^verbatim>\<open>snprintf("%s")\<close> of a \<^verbatim>\<open>c_str()\<close> into a zeroed buffer of \<open>n\<close> bytes, read back as a C string.\<close>

definition c_string :: "nat \<Rightarrow> string \<Rightarrow> string" where
  "c_string n s = take (n - 1) (takeWhile (\<lambda>c. c \<noteq> CHR 0x00) s)"

section \<open>Timers\<close>

definition CancelReconnectTimer :: "'w wifi_env \<Rightarrow> 'w wifi \<Rightarrow> 'w wifi" where
  "CancelReconnectTimer E s = snd (esp_do E (TimerStop kReconnectTimer) s)"

definition start_reconnect_timer :: "'w wifi_env \<Rightarrow> int \<Rightarrow> 'w wifi \<Rightarrow> 'w wifi" where
  "start_reconnect_timer E delay_ms s =
     snd (esp_do E (TimerStartOnce kReconnectTimer (delay_ms * 1000)) (CancelReconnectTimer E s))"

definition ReconnectTimerCallback :: "'w wifi_env \<Rightarrow> 'w wifi \<Rightarrow> 'w wifi" where
  "ReconnectTimerCallback E s =
     (let (ok, s1) = esp_do E (WifiConnect kOnReconnectTimer) s
      in if ok then s1 else start_reconnect_timer E kReconnectBackoffMs s1)"

section \<open>Access points\<close>

definition hex_byte :: "u8 \<Rightarrow> string" where
  "hex_byte b = [hex_digit_upper (unat b div 16), hex_digit_upper (unat b mod 16)]"

definition GetApSsid :: "'w wifi_env \<Rightarrow> 'w wifi \<Rightarrow> string" where
  "GetApSsid E s =
     (let mac = (case get_mac E (w_world s) of None \<Rightarrow> replicate 6 0 | Some m \<Rightarrow> m)
      in ''HomeDeck-'' @ hex_byte (mac ! 3) @ hex_byte (mac ! 4) @ hex_byte (mac ! 5))"

definition StartSetupHttpServer :: "'w wifi_env \<Rightarrow> nat \<Rightarrow> nat \<Rightarrow> 'w wifi \<Rightarrow> bool \<times> 'w wifi" where
  "StartSetupHttpServer E port ctrl_port s =
     (let (ok, s1) = esp_do E (HttpdStart port ctrl_port) s
      in if ok then (True, s1\<lparr>w_setup_server := True\<rparr>) else (False, s1))"

text \<open>\<^const>\<open>None\<close> is the abort of \<^verbatim>\<open>ESP_ERROR_CHECK\<close>.\<close>

definition esp_check :: "'w wifi_env \<Rightarrow> esp_call \<Rightarrow> 'w wifi \<Rightarrow> 'w wifi option" where
  "esp_check E c s = (let (ok, s1) = esp_do E c s in if ok then Some s1 else None)"

definition StartSetupAccessPoint :: "'w wifi_env \<Rightarrow> 'w wifi \<Rightarrow> 'w wifi option" where
  "StartSetupAccessPoint E s =
     (let ap_ssid = GetApSsid E s
      in Option.bind (esp_check E (WifiSetMode kModeApSta) s) (\<lambda>s1.
         Option.bind (esp_check E (WifiSetApConfig (c_string 32 ap_ssid)) s1) (\<lambda>s2.
         Option.bind (esp_check E WifiStart s2) (\<lambda>s3.
         let (ok, s4) = StartSetupHttpServer E kSetupHttpPort (def_ctrl_port E) s3
         in if ok then Some (ui_do (has_setup_needed (w_callbacks s4)) (OnSetupNeeded ap_ssid kApGatewayIp kSetupHttpPort) s4)
            else None))))"

definition bring_up_ap :: "'w wifi_env \<Rightarrow> string \<Rightarrow> 'w wifi \<Rightarrow> bool \<times> 'w wifi" where
  "bring_up_ap E ap_ssid s =
     (let (ok1, s1) = esp_do E (WifiSetMode kModeApSta) s
      in if \<not> ok1 then (False, s1)
         else let (ok2, s2) = esp_do E (WifiSetApConfig (c_string 32 ap_ssid)) s1
              in if \<not> ok2 then (False, s2) else esp_do E WifiStart s2)"

definition StartRecoveryAccessPoint :: "'w wifi_env \<Rightarrow> 'w wifi \<Rightarrow> 'w wifi" where
  "StartRecoveryAccessPoint E s =
     (let ap_ssid = GetApSsid E s; (stopped, s1) = esp_do E WifiStop s
      in if \<not> stopped then s1
         else
           (let (up, s2) = bring_up_ap E ap_ssid s1
            in if \<not> up then s2
               else
                 (let (serving, s3) = StartSetupHttpServer E kRecoveryHttpPort (def_ctrl_port E + 1) s2
                  in if \<not> serving then snd (esp_do E (WifiSetMode kModeSta) s3)
                     else ui_do (has_setup_needed (w_callbacks s3)) (OnSetupNeeded ap_ssid kApGatewayIp kRecoveryHttpPort) s3)))"

section \<open>Events\<close>

definition RecoveryRetriesAreSlowed :: "'w wifi \<Rightarrow> bool" where
  "RecoveryRetriesAreSlowed s \<longleftrightarrow> \<not> w_initial s \<and> w_setup_server s"

definition on_disconnected :: "'w wifi_env \<Rightarrow> 'w wifi \<Rightarrow> 'w wifi" where
  "on_disconnected E s =
     (let (decision, policy) = OnDisconnected (w_initial s) (w_policy s);
          s1 = s\<lparr>w_network := (False, [], []), w_policy := policy\<rparr>;
          give_up = (decision = kGiveUp);
          offer_recovery = (\<not> give_up \<and> \<not> w_setup_server s \<and> ShouldOfferRecovery (w_initial s) policy);
          retry_delay_ms = RetryDelayMs (\<not> w_initial s \<and> w_setup_server s) (w_ap_clients s) policy
      in if give_up then ui_do (has_connect_failed (w_callbacks s1)) OnConnectFailed s1
         else
           (let s2 = (if offer_recovery then snd (esp_do E (TimerStartOnce kRecoveryTimer 0) s1) else s1)
            in case retry_delay_ms of
                 None \<Rightarrow> CancelReconnectTimer E s2
               | Some d \<Rightarrow> start_reconnect_timer E d s2))"

definition on_ap_client_joined :: "'w wifi_env \<Rightarrow> 'w wifi \<Rightarrow> 'w wifi" where
  "on_ap_client_joined E s =
     (let s1 = s\<lparr>w_ap_clients := w_ap_clients s + 1\<rparr>
      in if RecoveryRetriesAreSlowed s1 then CancelReconnectTimer E s1 else s1)"

definition on_ap_client_left :: "'w wifi_env \<Rightarrow> 'w wifi \<Rightarrow> 'w wifi" where
  "on_ap_client_left E s =
     (let s1 = s\<lparr>w_ap_clients := max 0 (w_ap_clients s - 1)\<rparr>;
          retry_delay_ms = (if w_ap_clients s1 = 0 then RetryDelayMs (\<not> w_initial s1 \<and> w_setup_server s1) 0 (w_policy s1) else None)
      in case retry_delay_ms of
           None \<Rightarrow> s1
         | Some d \<Rightarrow> if RecoveryRetriesAreSlowed s1 then start_reconnect_timer E d s1 else s1)"

definition on_got_ip :: "'w wifi_env \<Rightarrow> string \<Rightarrow> 'w wifi \<Rightarrow> 'w wifi" where
  "on_got_ip E ip s =
     (let s1 = CancelReconnectTimer E s;
          server_to_stop = w_setup_server s1;
          s2 = s1\<lparr>w_network := (True, w_pending_ssid s1, ip), w_setup_server := False, w_ap_clients := 0, w_initial := False,
                  w_policy := Wifi_ResetAttempts (w_policy s1)\<rparr>;
          s3 = (if server_to_stop then snd (esp_do E (WifiSetMode kModeSta) (snd (esp_do E HttpdStop s2))) else s2);
          s4 = s3\<lparr>w_pending := PendingWifi_Clear (w_pending s3)\<rparr>
      in (ui_do (has_connected (w_callbacks s4)) OnConnected s4)\<lparr>w_connected_bit := True\<rparr>)"

fun OnEvent :: "'w wifi_env \<Rightarrow> wifi_event \<Rightarrow> 'w wifi \<Rightarrow> 'w wifi" where
  "OnEvent E StaStart s = snd (esp_do E (WifiConnect kOnStaStart) s)"
| "OnEvent E StaDisconnected s = on_disconnected E s"
| "OnEvent E ApStaConnected s = on_ap_client_joined E s"
| "OnEvent E ApStaDisconnected s = on_ap_client_left E s"
| "OnEvent E (GotIp ip) s = on_got_ip E ip s"

section \<open>Credentials\<close>

definition ApplyWifiCredentials :: "'w wifi_env \<Rightarrow> string \<Rightarrow> string \<Rightarrow> 'w wifi \<Rightarrow> bool \<times> 'w wifi" where
  "ApplyWifiCredentials E ssid password s =
     (if \<not> IsValidWifiCredentials ssid password then (False, s)
      else
        (let (ok, s1) = esp_do E (WifiSetStaConfig (c_string 32 ssid) (c_string 64 password)) s
         in if \<not> ok then (False, s1)
            else
              (let s2 = CancelReconnectTimer E (s1\<lparr>w_pending_ssid := ssid, w_policy := Wifi_ResetAttempts (w_policy s1)\<rparr>)
               in (True, snd (esp_do E (WifiConnect kOnSubmission) s2)))))"

datatype recovery_approval = kApplied | kNoLongerPending | kApplyFailed

definition ApproveRecoveryCredentials :: "'w wifi_env \<Rightarrow> u32 \<Rightarrow> 'w wifi \<Rightarrow> recovery_approval \<times> 'w wifi" where
  "ApproveRecoveryCredentials E request s =
     (let (credentials, p) = Take request (w_pending s); s1 = s\<lparr>w_pending := p\<rparr>
      in case credentials of
           None \<Rightarrow> (kNoLongerPending, s1)
         | Some c \<Rightarrow>
             (let (ok, s2) = ApplyWifiCredentials E (wc_ssid c) (wc_password c) s1
              in (if ok then kApplied else kApplyFailed, s2)))"

definition RejectRecoveryCredentials :: "'w wifi \<Rightarrow> 'w wifi" where
  "RejectRecoveryCredentials s = s\<lparr>w_pending := PendingWifi_Clear (w_pending s)\<rparr>"

section \<open>The form\<close>

datatype form_reply = FormBadRequest | FormServerError | FormWaiting | FormConnecting

definition HandleRecoveryRequest :: "string \<Rightarrow> string \<Rightarrow> 'w wifi \<Rightarrow> form_reply \<times> 'w wifi" where
  "HandleRecoveryRequest ssid password s =
     (let (request, p) = Submit ssid password (w_pending s); s1 = s\<lparr>w_pending := p\<rparr>
      in case request of
           None \<Rightarrow> (FormBadRequest, s1)
         | Some i \<Rightarrow> (FormWaiting, ui_do (has_credentials_pending (w_callbacks s1)) (OnCredentialsPending ssid i) s1))"

definition field_or_empty :: "string \<Rightarrow> string \<Rightarrow> string" where
  "field_or_empty body key = (case ParseFormField (takeWhile (\<lambda>c. c \<noteq> CHR 0x00) body) key of None \<Rightarrow> [] | Some v \<Rightarrow> v)"

definition HandlePostConnect :: "'w wifi_env \<Rightarrow> int \<Rightarrow> 'w wifi \<Rightarrow> form_reply \<times> 'w wifi" where
  "HandlePostConnect E len s =
     (if len \<le> 0 \<or> kMaxBodyBytes < nat len then (FormBadRequest, s)
      else
        (let (received, w) = recv_body_loop (form_recv E) (nat len) [] 0 0 (w_world s); s1 = s\<lparr>w_world := w\<rparr>
         in case received of
              None \<Rightarrow> (FormServerError, s1)
            | Some body \<Rightarrow>
                (let ssid = field_or_empty body ''ssid''; password = field_or_empty body ''password''
                 in if \<not> w_initial s1 then HandleRecoveryRequest ssid password s1
                    else
                      (let (ok, s2) = ApplyWifiCredentials E ssid password s1
                       in (if ok then FormConnecting else FormBadRequest, s2)))))"

section \<open>Boot\<close>

definition WifiSetupState_new :: "'w \<Rightarrow> 'w wifi" where
  "WifiSetupState_new w =
     \<lparr>w_setup_server = False,
      w_policy = WifiReconnectPolicy_new kMaxSetupReconnectAttempts kNormalModeRecoveryAttempts kReconnectBackoffMs kRecoveryApReconnectBackoffMs,
      w_ap_clients = 0, w_initial = False, w_pending = PendingWifi_new,
      w_callbacks = \<lparr>has_setup_needed = False, has_connected = False, has_connect_failed = False, has_credentials_pending = False\<rparr>,
      w_network = (False, [], []), w_pending_ssid = [], w_connected_bit = False, w_log = [], w_world = w\<rparr>"

text \<open>The part after the subsystem is up; \<^const>\<open>None\<close> is a failed \<^verbatim>\<open>esp_wifi_get_config\<close>, fatal as the steps before it.\<close>

definition InitWifiAndCheckStoredCredentials ::
  "'w wifi_env \<Rightarrow> 'w \<Rightarrow> ((bool \<times> string \<times> string) \<times> 'w wifi) option" where
  "InitWifiAndCheckStoredCredentials E w =
     (case get_sta_ssid E w of
        None \<Rightarrow> None
      | Some ssid \<Rightarrow>
          (let s = (WifiSetupState_new w)\<lparr>w_pending_ssid := ssid\<rparr> in Some ((ssid \<noteq> [], GetApSsid E s, kApGatewayIp), s)))"

text \<open>Up to the wait for \<^verbatim>\<open>kConnectedBit\<close>, which ends with the first \<^const>\<open>GotIp\<close>.\<close>

definition ConnectToWifi :: "'w wifi_env \<Rightarrow> wifi_ui_callbacks \<Rightarrow> 'w wifi \<Rightarrow> 'w wifi option" where
  "ConnectToWifi E callbacks s =
     (case get_sta_ssid E (w_world s) of
        None \<Rightarrow> None
      | Some ssid \<Rightarrow>
          (let s1 = s\<lparr>w_callbacks := callbacks, w_pending_ssid := ssid\<rparr>
           in if ssid \<noteq> [] then Option.bind (esp_check E (WifiSetMode kModeSta) s1) (\<lambda>s2. esp_check E WifiStart s2)
              else StartSetupAccessPoint E (s1\<lparr>w_initial := True\<rparr>)))"

section \<open>Steps\<close>

fun wifi_react :: "'w wifi_env \<Rightarrow> wifi_input \<Rightarrow> 'w wifi \<Rightarrow> 'w wifi" where
  "wifi_react E (InEvent e) s = OnEvent E e s"
| "wifi_react E InReconnectTimer s = ReconnectTimerCallback E s"
| "wifi_react E InRecoveryTimer s = StartRecoveryAccessPoint E s"
| "wifi_react E (InForm len) s = snd (HandlePostConnect E len s)"
| "wifi_react E (InSubmit ssid password) s = snd (ApplyWifiCredentials E ssid password s)"
| "wifi_react E (InApprove request) s = snd (ApproveRecoveryCredentials E request s)"
| "wifi_react E InReject s = RejectRecoveryCredentials s"

definition wifi_step :: "'w wifi_env \<Rightarrow> wifi_input \<Rightarrow> 'w wifi \<Rightarrow> 'w wifi" where
  "wifi_step E i s = wifi_react E i (note_log (LIn i) s)"

text \<open>Between two steps the world may have become any other.\<close>

inductive wifi_run :: "'w wifi_env \<Rightarrow> 'w wifi \<Rightarrow> 'w wifi \<Rightarrow> bool" for E where
  wifi_refl: "wifi_run E s s"
| wifi_more: "wifi_run E s t \<Longrightarrow> wifi_run E s (wifi_step E i (t\<lparr>w_world := w\<rparr>))"

section \<open>The retry chain\<close>

text \<open>
  What the log says of the driver, by the documented behaviour of ESP-IDF: a one-shot timer is armed from
  a successful start to its expiry or a stop; a connection attempt is under way from a successful
  \<^verbatim>\<open>esp_wifi_connect\<close> to the next station event; starting the driver is followed by one \<^const>\<open>StaStart\<close>;
  stopping it ends everything. \<open>faulty\<close> remembers a failed call with no other way to go on.
\<close>

record link =
  armed :: bool
  attempting :: bool
  online :: bool
  starting :: bool
  faulty :: bool

fun link_step :: "wifi_log \<Rightarrow> link \<Rightarrow> link" where
  "link_step (LCall (TimerStartOnce kReconnectTimer d) ok) l = (if ok then l\<lparr>armed := True\<rparr> else l\<lparr>faulty := True\<rparr>)"
| "link_step (LCall (TimerStop kReconnectTimer) ok) l = l\<lparr>armed := False\<rparr>"
| "link_step (LIn InReconnectTimer) l = l\<lparr>armed := False\<rparr>"
| "link_step (LCall (WifiConnect site) ok) l =
     (if ok then l\<lparr>attempting := True\<rparr> else if site = kOnReconnectTimer then l else l\<lparr>faulty := True\<rparr>)"
| "link_step (LIn (InEvent StaStart)) l = l\<lparr>starting := False\<rparr>"
| "link_step (LIn (InEvent StaDisconnected)) l = l\<lparr>attempting := False, online := False\<rparr>"
| "link_step (LIn (InEvent (GotIp ip))) l = l\<lparr>attempting := False, online := True\<rparr>"
| "link_step (LCall WifiStop ok) l = (if ok then l\<lparr>attempting := False, online := False, starting := False\<rparr> else l)"
| "link_step (LCall WifiStart ok) l = (if ok then l\<lparr>starting := True\<rparr> else l\<lparr>faulty := True\<rparr>)"
| "link_step (LCall (WifiSetMode kModeApSta) ok) l = (if ok then l else l\<lparr>faulty := True\<rparr>)"
| "link_step (LCall (WifiSetApConfig a) ok) l = (if ok then l else l\<lparr>faulty := True\<rparr>)"
| "link_step _ l = l"

definition link_of :: "'w wifi \<Rightarrow> link" where
  "link_of s = fold link_step (w_log s) \<lparr>armed = False, attempting = False, online = False, starting = False, faulty = False\<rparr>"

text \<open>Retries go on by themselves, or wait for the clients of the recovery access point to leave.\<close>

definition held_for_clients :: "'w wifi \<Rightarrow> bool" where
  "held_for_clients s \<longleftrightarrow> w_setup_server s \<and> 0 < w_ap_clients s"

definition chain_alive :: "'w wifi \<Rightarrow> bool" where
  "chain_alive s \<longleftrightarrow>
     online (link_of s) \<or> attempting (link_of s) \<or> armed (link_of s) \<or> starting (link_of s) \<or> held_for_clients s"

definition chain_inv :: "'w wifi \<Rightarrow> bool" where
  "chain_inv s \<longleftrightarrow> 0 \<le> w_ap_clients s \<and> (w_initial s \<or> faulty (link_of s) \<or> chain_alive s)"

lemma link_of_note [simp]: "link_of (note_log l s) = link_step l (link_of s)"
  by (simp add: link_of_def note_log_def)

lemma link_of_update [simp]:
  "link_of (s\<lparr>w_setup_server := a\<rparr>) = link_of s" "link_of (s\<lparr>w_policy := b\<rparr>) = link_of s"
  "link_of (s\<lparr>w_ap_clients := c\<rparr>) = link_of s" "link_of (s\<lparr>w_initial := d\<rparr>) = link_of s"
  "link_of (s\<lparr>w_pending := e\<rparr>) = link_of s" "link_of (s\<lparr>w_network := f\<rparr>) = link_of s"
  "link_of (s\<lparr>w_pending_ssid := g\<rparr>) = link_of s" "link_of (s\<lparr>w_connected_bit := h\<rparr>) = link_of s"
  "link_of (s\<lparr>w_world := w\<rparr>) = link_of s" "link_of (s\<lparr>w_callbacks := k\<rparr>) = link_of s"
  by (simp_all add: link_of_def)

lemma note_log_frame [simp]:
  "w_setup_server (note_log l s) = w_setup_server s" "w_ap_clients (note_log l s) = w_ap_clients s"
  "w_initial (note_log l s) = w_initial s" "w_policy (note_log l s) = w_policy s" "w_pending (note_log l s) = w_pending s"
  "w_callbacks (note_log l s) = w_callbacks s" "w_log (note_log l s) = w_log s @ [l]" "w_world (note_log l s) = w_world s"
  "w_pending_ssid (note_log l s) = w_pending_ssid s"
  by (simp_all add: note_log_def)

lemma esp_do_frame [simp]:
  "w_setup_server (snd (esp_do E c s)) = w_setup_server s" "w_ap_clients (snd (esp_do E c s)) = w_ap_clients s"
  "w_initial (snd (esp_do E c s)) = w_initial s" "w_policy (snd (esp_do E c s)) = w_policy s"
  "w_pending (snd (esp_do E c s)) = w_pending s" "w_callbacks (snd (esp_do E c s)) = w_callbacks s"
  "w_log (snd (esp_do E c s)) = w_log s @ [LCall c (fst (esp_do E c s))]"
  "link_of (snd (esp_do E c s)) = link_step (LCall c (fst (esp_do E c s))) (link_of s)"
  by (simp_all add: esp_do_def case_prod_beta Let_def)

lemma ui_do_frame [simp]:
  "w_setup_server (ui_do b c s) = w_setup_server s" "w_ap_clients (ui_do b c s) = w_ap_clients s"
  "w_initial (ui_do b c s) = w_initial s" "link_of (ui_do b c s) = link_of s" "w_callbacks (ui_do b c s) = w_callbacks s"
  "w_pending (ui_do b c s) = w_pending s" "w_log (ui_do b c s) = w_log s @ (if b then [LUi c] else [])"
  by (simp_all add: ui_do_def)

lemmas chain_simps = chain_inv_def chain_alive_def held_for_clients_def Let_def case_prod_beta

lemma start_reconnect_timer_chain:
  "chain_inv s \<or> 0 \<le> w_ap_clients s \<Longrightarrow> chain_inv (start_reconnect_timer E d s)"
  by (auto simp: start_reconnect_timer_def CancelReconnectTimer_def chain_simps)

lemma ReconnectTimerCallback_chain: "0 \<le> w_ap_clients s \<Longrightarrow> chain_inv (ReconnectTimerCallback E s)"
  by (auto simp: ReconnectTimerCallback_def case_prod_beta Let_def intro!: start_reconnect_timer_chain)
    (simp add: chain_simps)

lemma OnDisconnected_normal: "fst (OnDisconnected False p) = kRetry"
  by (simp add: OnDisconnected_def)

lemma RetryDelayMs_None: "RetryDelayMs up n p = None \<Longrightarrow> up \<and> 0 < n"
  by (simp add: RetryDelayMs_def split: if_splits)

lemma on_disconnected_chain:
  assumes "0 \<le> w_ap_clients s"
  shows "chain_inv (on_disconnected E s)"
proof (cases "w_initial s")
  case True
  have "w_initial (on_disconnected E s) \<and> w_ap_clients (on_disconnected E s) = w_ap_clients s"
    using True
    by (auto simp: on_disconnected_def case_prod_beta Let_def start_reconnect_timer_def CancelReconnectTimer_def split: option.splits)
  then show ?thesis using assms by (simp add: chain_inv_def)
next
  case False
  let ?p = "snd (OnDisconnected False (w_policy s))"
  let ?s1 = "s\<lparr>w_network := (False, [], []), w_policy := ?p\<rparr>"
  let ?s2 = "if \<not> w_setup_server s \<and> ShouldOfferRecovery False ?p then snd (esp_do E (TimerStartOnce kRecoveryTimer 0) ?s1) else ?s1"
  have run: "on_disconnected E s =
      (case RetryDelayMs (w_setup_server s) (w_ap_clients s) ?p of
         None \<Rightarrow> CancelReconnectTimer E ?s2 | Some d \<Rightarrow> start_reconnect_timer E d ?s2)"
    using False OnDisconnected_normal [of "w_policy s"] by (simp add: on_disconnected_def case_prod_beta Let_def)
  show ?thesis
  proof (cases "RetryDelayMs (w_setup_server s) (w_ap_clients s) ?p")
    case None
    then show ?thesis unfolding run using RetryDelayMs_None [OF None] by (simp add: CancelReconnectTimer_def chain_simps)
  next
    case (Some d)
    then show ?thesis unfolding run Some option.case using assms by (intro start_reconnect_timer_chain) simp
  qed
qed

lemma on_ap_client_joined_chain: "chain_inv s \<Longrightarrow> chain_inv (on_ap_client_joined E s)"
  by (auto simp: on_ap_client_joined_def RecoveryRetriesAreSlowed_def CancelReconnectTimer_def chain_simps)

lemma on_ap_client_left_chain:
  assumes "chain_inv s"
  shows "chain_inv (on_ap_client_left E s)"
proof -
  let ?s1 = "s\<lparr>w_ap_clients := max 0 (w_ap_clients s - 1)\<rparr>"
  obtain d where d: "RetryDelayMs (\<not> w_initial s \<and> w_setup_server s) 0 (w_policy s) = Some d"
    unfolding RetryDelayMs_def by (metis less_irrefl)
  have "on_ap_client_left E s =
      (if w_ap_clients ?s1 = 0 \<and> RecoveryRetriesAreSlowed s then start_reconnect_timer E d ?s1 else ?s1)"
    using d by (cases "\<not> w_initial s \<and> w_setup_server s")
      (simp_all add: on_ap_client_left_def Let_def RecoveryRetriesAreSlowed_def, auto simp: RecoveryRetriesAreSlowed_def)
  moreover have "chain_inv (start_reconnect_timer E d ?s1)" by (simp add: start_reconnect_timer_chain)
  moreover have "chain_inv ?s1" if "w_ap_clients ?s1 \<noteq> 0 \<or> \<not> RecoveryRetriesAreSlowed s"
    using assms that by (auto simp: chain_simps RecoveryRetriesAreSlowed_def)
  ultimately show ?thesis by auto
qed

lemma on_got_ip_chain: "online (link_of s) \<Longrightarrow> chain_inv (on_got_ip E ip s)"
  by (simp add: on_got_ip_def CancelReconnectTimer_def chain_simps)

lemma StartSetupHttpServer_frame:
  "link_of (snd (StartSetupHttpServer E p c s)) = link_of s \<and> w_ap_clients (snd (StartSetupHttpServer E p c s)) = w_ap_clients s \<and>
   w_initial (snd (StartSetupHttpServer E p c s)) = w_initial s \<and> (w_setup_server s \<longrightarrow> w_setup_server (snd (StartSetupHttpServer E p c s)))"
  by (simp add: StartSetupHttpServer_def case_prod_beta Let_def)

lemma bring_up_ap_link:
  "w_ap_clients (snd (bring_up_ap E a s)) = w_ap_clients s"
  "faulty (link_of (snd (bring_up_ap E a s))) \<or> starting (link_of (snd (bring_up_ap E a s)))"
  "fst (bring_up_ap E a s) \<or> faulty (link_of (snd (bring_up_ap E a s)))"
  by (simp_all add: bring_up_ap_def case_prod_beta Let_def)

lemma StartRecoveryAccessPoint_chain:
  assumes "chain_inv s"
  shows "chain_inv (StartRecoveryAccessPoint E s)"
proof (cases "fst (esp_do E WifiStop s)")
  case False
  then show ?thesis using assms by (simp add: StartRecoveryAccessPoint_def chain_simps)
next
  case True
  let ?s1 = "snd (esp_do E WifiStop s)"
  let ?s2 = "snd (bring_up_ap E (GetApSsid E s) ?s1)"
  let ?s' = "StartRecoveryAccessPoint E s"
  have "link_of ?s' = link_of ?s2 \<and> w_ap_clients ?s' = w_ap_clients s"
    using True StartSetupHttpServer_frame [of E kRecoveryHttpPort "def_ctrl_port E + 1" ?s2] bring_up_ap_link(1) [of E "GetApSsid E s" ?s1]
    by (simp add: StartRecoveryAccessPoint_def case_prod_beta Let_def)
  then show ?thesis
    using assms bring_up_ap_link(2) [of E "GetApSsid E s" ?s1] by (auto simp: chain_simps)
qed

lemma ApplyWifiCredentials_chain:
  assumes "chain_inv s"
  shows "chain_inv (snd (ApplyWifiCredentials E ssid pw s))"
  using assms by (auto simp: ApplyWifiCredentials_def CancelReconnectTimer_def chain_simps)

lemma chain_inv_cong:
  "link_of t = link_of s \<Longrightarrow> w_ap_clients t = w_ap_clients s \<Longrightarrow> w_setup_server t = w_setup_server s \<Longrightarrow> w_initial t = w_initial s \<Longrightarrow>
   chain_inv t = chain_inv s"
  by (simp add: chain_simps)

lemma chain_inv_pending [simp]: "chain_inv (s\<lparr>w_pending := x\<rparr>) = chain_inv s"
  by (rule chain_inv_cong) simp_all

lemma ApproveRecoveryCredentials_chain: "chain_inv s \<Longrightarrow> chain_inv (snd (ApproveRecoveryCredentials E r s))"
  by (simp add: ApproveRecoveryCredentials_def case_prod_beta Let_def ApplyWifiCredentials_chain split: option.split)

lemma HandlePostConnect_chain:
  assumes "chain_inv s"
  shows "chain_inv (snd (HandlePostConnect E n s))"
proof -
  have w: "chain_inv (s\<lparr>w_world := w\<rparr>)" for w using assms by (simp add: chain_simps)
  have "chain_inv (snd (HandleRecoveryRequest a b t))" if "chain_inv t" for a b t
    using that by (auto simp: HandleRecoveryRequest_def case_prod_beta Let_def chain_inv_def chain_alive_def held_for_clients_def split: option.split)
  then show ?thesis
    using assms w by (auto simp: HandlePostConnect_def case_prod_beta Let_def intro!: ApplyWifiCredentials_chain split: option.split)
qed

lemma wifi_step_chain:
  assumes "chain_inv s"
  shows "chain_inv (wifi_step E i s)"
proof -
  have n: "0 \<le> w_ap_clients s" using assms by (simp add: chain_inv_def)
  have other: "chain_inv (note_log (LIn i) s)" if "link_step (LIn i) (link_of s) = link_of s"
    using assms that by (simp add: chain_simps)
  show ?thesis
  proof (cases i)
    case (InEvent e)
    then show ?thesis
    proof (cases e)
      case StaStart
      then show ?thesis using n InEvent by (simp add: wifi_step_def chain_simps)
    qed (use InEvent n other in \<open>simp_all add: wifi_step_def on_disconnected_chain on_ap_client_joined_chain
           on_ap_client_left_chain on_got_ip_chain\<close>)
  next
    case InReconnectTimer
    then show ?thesis using n by (simp add: wifi_step_def ReconnectTimerCallback_chain)
  qed (use other in \<open>simp_all add: wifi_step_def StartRecoveryAccessPoint_chain HandlePostConnect_chain ApplyWifiCredentials_chain
         ApproveRecoveryCredentials_chain RejectRecoveryCredentials_def\<close>)
qed

lemma wifi_run_chain: "wifi_run E s t \<Longrightarrow> chain_inv s \<Longrightarrow> chain_inv t"
proof (induction rule: wifi_run.induct)
  case (wifi_more s t i w)
  then show ?case by (intro wifi_step_chain) (simp add: chain_simps)
qed

definition wifi_booted :: "'w wifi_env \<Rightarrow> wifi_ui_callbacks \<Rightarrow> 'w wifi \<Rightarrow> bool" where
  "wifi_booted E callbacks s \<longleftrightarrow>
     (\<exists>w w' check s0. InitWifiAndCheckStoredCredentials E w = Some (check, s0) \<and>
                      ConnectToWifi E callbacks (s0\<lparr>w_world := w'\<rparr>) = Some s)"

lemma wifi_booted_chain:
  assumes "wifi_booted E callbacks s"
  shows "chain_inv s"
proof -
  obtain w w' check s0 where i: "InitWifiAndCheckStoredCredentials E w = Some (check, s0)"
    and c: "ConnectToWifi E callbacks (s0\<lparr>w_world := w'\<rparr>) = Some s"
    using assms by (auto simp: wifi_booted_def)
  have z: "w_ap_clients s0 = 0"
    using i by (auto simp: InitWifiAndCheckStoredCredentials_def WifiSetupState_new_def Let_def split: option.splits)
  show ?thesis
    using c z
    by (auto simp: ConnectToWifi_def StartSetupAccessPoint_def esp_check_def StartSetupHttpServer_def Let_def case_prod_beta
        chain_inv_def chain_alive_def split: option.splits bind_splits if_splits)
qed

text \<open>
  C6: A provisioned device never stops trying to get back onto its network by itself. In every state
  reachable after boot, through any mix of driver events, timer expiries, form submissions, taps and
  failing calls, the station is online, or an attempt is under way, or the driver is starting, or the
  retry timer is armed, or retries wait for the clients of the recovery access point to leave. This
  holds as long as no call with no second chance has failed (starting the timer, starting or
  reconfiguring the driver, connecting right after a start or a submission); a failed connect on the
  retry timer, a failed stop, a failed form server and failed credentials are all survived.
\<close>

theorem wifi_retries_never_stop:
  assumes "wifi_booted E callbacks s" "wifi_run E s t" "\<not> w_initial t" "\<not> faulty (link_of t)"
  shows "chain_alive t"
  using wifi_run_chain [OF assms(2) wifi_booted_chain [OF assms(1)]] assms(3,4) by (simp add: chain_inv_def)

section \<open>Who changes the network\<close>

fun shown :: "wifi_log list \<Rightarrow> (string \<times> u32) list" where
  "shown [] = []"
| "shown (LUi (OnCredentialsPending ssid r) # l) = (ssid, r) # shown l"
| "shown (_ # l) = shown l"

fun configs :: "wifi_log list \<Rightarrow> (string \<times> string) list" where
  "configs [] = []"
| "configs (LCall (WifiSetStaConfig a b) ok # l) = (a, b) # configs l"
| "configs (_ # l) = configs l"

lemma shown_append [simp]: "shown (l @ m) = shown l @ shown m"
  by (induction l rule: shown.induct) simp_all

lemma configs_append [simp]: "configs (l @ m) = configs l @ configs m"
  by (induction l rule: configs.induct) simp_all

text \<open>Steps that show no request and leave the pending one alone, or drop it.\<close>

definition asks_nothing :: "'w wifi \<Rightarrow> 'w wifi \<Rightarrow> bool" where
  "asks_nothing s t \<longleftrightarrow>
     w_callbacks t = w_callbacks s \<and> shown (w_log t) = shown (w_log s) \<and>
     (w_pending t = w_pending s \<or> w_pending t = PendingWifi_Clear (w_pending s))"

lemmas quiet_simps = asks_nothing_def Let_def case_prod_beta

lemma reconnect_timer_quiet [simp]:
  "w_callbacks (CancelReconnectTimer E s) = w_callbacks s" "w_callbacks (start_reconnect_timer E d s) = w_callbacks s"
  "w_pending (CancelReconnectTimer E s) = w_pending s" "w_pending (start_reconnect_timer E d s) = w_pending s"
  "shown (w_log (CancelReconnectTimer E s)) = shown (w_log s)" "shown (w_log (start_reconnect_timer E d s)) = shown (w_log s)"
  "configs (w_log (CancelReconnectTimer E s)) = configs (w_log s)" "configs (w_log (start_reconnect_timer E d s)) = configs (w_log s)"
  by (simp_all add: CancelReconnectTimer_def start_reconnect_timer_def)

lemma quiet_timer:
  "asks_nothing s (ReconnectTimerCallback E s)" "configs (w_log (ReconnectTimerCallback E s)) = configs (w_log s)"
  by (simp_all add: quiet_simps ReconnectTimerCallback_def)

lemma quiet_ap_clients:
  "asks_nothing s (on_ap_client_joined E s)" "configs (w_log (on_ap_client_joined E s)) = configs (w_log s)"
  "asks_nothing s (on_ap_client_left E s)" "configs (w_log (on_ap_client_left E s)) = configs (w_log s)"
  by (simp_all add: quiet_simps on_ap_client_joined_def on_ap_client_left_def del: max_0_1 split: option.split)

lemma quiet_got_ip:
  "asks_nothing s (on_got_ip E ip s)" "configs (w_log (on_got_ip E ip s)) = configs (w_log s)"
  by (simp_all add: quiet_simps on_got_ip_def)

lemma quiet_disconnected:
  "asks_nothing s (on_disconnected E s)" "configs (w_log (on_disconnected E s)) = configs (w_log s)"
  unfolding on_disconnected_def Let_def case_prod_beta
  by (cases "RetryDelayMs (\<not> w_initial s \<and> w_setup_server s) (w_ap_clients s) (snd (OnDisconnected (w_initial s) (w_policy s)))";
      simp add: asks_nothing_def)+

lemmas quiet_ops = quiet_timer quiet_ap_clients quiet_got_ip quiet_disconnected

lemma quiet_recovery:
  "asks_nothing s (StartRecoveryAccessPoint E s)" "configs (w_log (StartRecoveryAccessPoint E s)) = configs (w_log s)"
  by (simp_all add: quiet_simps StartRecoveryAccessPoint_def bring_up_ap_def StartSetupHttpServer_def)

lemma quiet_event: "asks_nothing s (OnEvent E e s)" "configs (w_log (OnEvent E e s)) = configs (w_log s)"
proof -
  show "asks_nothing s (OnEvent E e s)" by (cases e) (simp_all add: quiet_ops, simp add: asks_nothing_def)
  show "configs (w_log (OnEvent E e s)) = configs (w_log s)" by (cases e) (simp_all add: quiet_ops)
qed

lemma Apply_asks_nothing: "asks_nothing s (snd (ApplyWifiCredentials E ssid pw s))"
  by (simp add: quiet_simps ApplyWifiCredentials_def)

lemma Apply_configs:
  "configs (w_log (snd (ApplyWifiCredentials E ssid pw s))) =
     configs (w_log s) @ (if IsValidWifiCredentials ssid pw then [(c_string 32 ssid, c_string 64 pw)] else [])"
  by (simp add: ApplyWifiCredentials_def CancelReconnectTimer_def Let_def case_prod_beta)

text \<open>Requests are numbered 1, 2, ... in the order they are shown, and the pending one is the last shown.\<close>

definition request_inv :: "'w wifi \<Rightarrow> bool" where
  "request_inv s \<longleftrightarrow>
     has_credentials_pending (w_callbacks s) \<and>
     map snd (shown (w_log s)) = map word_of_nat [1..<Suc (length (shown (w_log s)))] \<and>
     last_id (w_pending s) = word_of_nat (length (shown (w_log s))) \<and>
     (\<forall>c. pending (w_pending s) = Some c \<longrightarrow>
            shown (w_log s) \<noteq> [] \<and> List.last (shown (w_log s)) = (wc_ssid c, last_id (w_pending s)))"

lemma asks_nothing_request: "asks_nothing s t \<Longrightarrow> request_inv s \<Longrightarrow> request_inv t"
  by (auto simp: asks_nothing_def request_inv_def PendingWifi_Clear_def)

lemma HandleRecoveryRequest_request:
  assumes "request_inv s"
  shows "request_inv (snd (HandleRecoveryRequest ssid pw s))"
proof (cases "IsValidWifiCredentials ssid pw")
  case True
  let ?n = "length (shown (w_log s))"
  have "map snd (shown (w_log s) @ [(ssid, word_of_nat ?n + 1)]) = map word_of_nat [1..<Suc (Suc ?n)]"
    using assms by (simp add: request_inv_def upt_Suc_append ac_simps)
  then show ?thesis
    using assms True by (simp add: request_inv_def HandleRecoveryRequest_def Submit_def Let_def ac_simps)
qed (use assms in \<open>simp add: HandleRecoveryRequest_def Submit_def request_inv_def\<close>)

lemma HandleRecoveryRequest_configs: "configs (w_log (snd (HandleRecoveryRequest ssid pw s))) = configs (w_log s)"
  by (simp add: HandleRecoveryRequest_def Let_def case_prod_beta split: option.split)

lemma Approve_request:
  assumes "request_inv s"
  shows "request_inv (snd (ApproveRecoveryCredentials E r s))"
proof -
  have "request_inv (s\<lparr>w_pending := snd (Take r (w_pending s))\<rparr>)"
    using assms by (auto simp: request_inv_def Take_def)
  then show ?thesis
    by (auto simp: ApproveRecoveryCredentials_def Let_def case_prod_beta split: option.split
        intro: asks_nothing_request [OF Apply_asks_nothing])
qed

lemma HandlePostConnect_request:
  assumes "request_inv s"
  shows "request_inv (snd (HandlePostConnect E n s))"
proof -
  have "request_inv (s\<lparr>w_world := w\<rparr>)" for w using assms by (simp add: request_inv_def)
  then show ?thesis
    using assms by (auto simp: HandlePostConnect_def Let_def case_prod_beta split: option.split
        intro: HandleRecoveryRequest_request asks_nothing_request [OF Apply_asks_nothing])
qed

lemma wifi_step_request:
  assumes "request_inv s"
  shows "request_inv (wifi_step E i s)"
proof -
  have "request_inv (note_log (LIn i) s)" using assms by (simp add: request_inv_def)
  then show ?thesis
    unfolding wifi_step_def
    by (cases i) (auto simp: RejectRecoveryCredentials_def Approve_request HandlePostConnect_request asks_nothing_def
        intro: asks_nothing_request [OF quiet_event(1)] asks_nothing_request [OF quiet_timer(1)]
          asks_nothing_request [OF quiet_recovery(1)] asks_nothing_request [OF Apply_asks_nothing]
          asks_nothing_request [rotated])
qed

lemma wifi_run_request: "wifi_run E s t \<Longrightarrow> request_inv s \<Longrightarrow> request_inv t"
proof (induction rule: wifi_run.induct)
  case (wifi_more s t i w)
  then show ?case by (intro wifi_step_request) (simp add: request_inv_def)
qed

lemma wifi_booted_request:
  assumes "wifi_booted E callbacks s" "has_credentials_pending callbacks"
  shows "request_inv s"
proof -
  obtain w w' check s0 where i: "InitWifiAndCheckStoredCredentials E w = Some (check, s0)"
    and c: "ConnectToWifi E callbacks (s0\<lparr>w_world := w'\<rparr>) = Some s"
    using assms by (auto simp: wifi_booted_def)
  have z: "w_pending s0 = PendingWifi_new" "w_log s0 = []"
    using i by (auto simp: InitWifiAndCheckStoredCredentials_def WifiSetupState_new_def Let_def split: option.splits)
  have "w_callbacks s = callbacks \<and> w_pending s = PendingWifi_new \<and> shown (w_log s) = []"
    using c z
    by (auto simp: ConnectToWifi_def StartSetupAccessPoint_def esp_check_def StartSetupHttpServer_def Let_def case_prod_beta
        split: option.splits bind_splits if_splits)
  then show ?thesis using assms(2) by (simp add: request_inv_def PendingWifi_new_def)
qed

text \<open>The request a tap approves, and that no other was ever shown under its number.\<close>

lemma approved_was_shown:
  assumes "request_inv s" "fst (Take r (w_pending s)) = Some c"
  shows "(wc_ssid c, r) \<in> set (shown (w_log s)) \<and>
    (length (shown (w_log s)) < 2 ^ 32 \<longrightarrow> (\<forall>ssid'. (ssid', r) \<in> set (shown (w_log s)) \<longrightarrow> ssid' = wc_ssid c))"
proof -
  have p: "pending (w_pending s) = Some c" "r = last_id (w_pending s)"
    using assms(2) by (auto simp: Take_def split: if_splits)
  let ?l = "shown (w_log s)"
  have l: "?l \<noteq> []" "List.last ?l = (wc_ssid c, r)" and ids: "map snd ?l = map word_of_nat [1..<Suc (length ?l)]"
    using assms(1) p by (auto simp: request_inv_def)
  have "distinct (map snd ?l)" if "length ?l < 2 ^ 32"
  proof -
    have "inj_on (word_of_nat :: nat \<Rightarrow> u32) {1..<Suc (length ?l)}"
      using that by (auto intro!: inj_onI dest!: word_of_nat_eq_iff [THEN iffD1] simp: take_bit_nat_eq_self)
    then show ?thesis unfolding ids by (simp add: distinct_map del: upt_Suc)
  qed
  then have inj: "inj_on snd (set ?l)" if "length ?l < 2 ^ 32" using that unfolding distinct_map by blast
  have mem: "(wc_ssid c, r) \<in> set ?l" using l last_in_set by metis
  have "ssid' = wc_ssid c" if "length ?l < 2 ^ 32" "(ssid', r) \<in> set ?l" for ssid'
    using inj_onD [OF inj [OF that(1)] _ that(2) mem] by simp
  with mem show ?thesis by blast
qed

lemma HandlePostConnect_configs: "\<not> w_initial s \<Longrightarrow> configs (w_log (snd (HandlePostConnect E n s))) = configs (w_log s)"
  by (simp add: HandlePostConnect_def Let_def case_prod_beta HandleRecoveryRequest_configs split: option.split)

lemma Approve_configs:
  "configs (w_log (snd (ApproveRecoveryCredentials E r s))) =
     configs (w_log s) @ (case fst (Take r (w_pending s)) of
                            None \<Rightarrow> []
                          | Some c \<Rightarrow> if IsValidWifiCredentials (wc_ssid c) (wc_password c)
                                      then [(c_string 32 (wc_ssid c), c_string 64 (wc_password c))] else [])"
  by (simp add: ApproveRecoveryCredentials_def Let_def case_prod_beta Apply_configs split: option.split)

text \<open>
  C14: Nobody in radio range changes the network of a provisioned device. In every state reachable after
  boot, a step that hands new credentials to the Wi-Fi driver is a submission on the device's own screen,
  or a tap that approves a request by number; the network configured is then the one the screen showed
  under that number, and (until \<open>2 ^ 32\<close> requests have been made) no other network was ever shown
  under it. The open access point's form alone never reaches the driver.
  (An approval callback is registered, as homedeck.cpp does before it starts the module.)
\<close>

theorem wifi_change_needs_a_person:
  assumes "wifi_booted E callbacks s" "has_credentials_pending callbacks" "wifi_run E s t" "\<not> w_initial t"
    and "configs (w_log (wifi_step E i (t\<lparr>w_world := w\<rparr>))) \<noteq> configs (w_log t)"
  shows "\<exists>ssid pw. configs (w_log (wifi_step E i (t\<lparr>w_world := w\<rparr>))) = configs (w_log t) @ [(c_string 32 ssid, c_string 64 pw)] \<and>
    IsValidWifiCredentials ssid pw \<and>
    (i = InSubmit ssid pw \<or>
     (\<exists>r. i = InApprove r \<and> (ssid, r) \<in> set (shown (w_log t)) \<and>
        (length (shown (w_log t)) < 2 ^ 32 \<longrightarrow> (\<forall>ssid'. (ssid', r) \<in> set (shown (w_log t)) \<longrightarrow> ssid' = ssid))))"
proof -
  let ?t = "note_log (LIn i) (t\<lparr>w_world := w\<rparr>)"
  have inv: "request_inv t" by (rule wifi_run_request [OF assms(3) wifi_booted_request [OF assms(1,2)]])
  show ?thesis
  proof (cases i)
    case (InSubmit ssid pw)
    then show ?thesis using assms(5) by (auto simp: wifi_step_def Apply_configs split: if_splits)
  next
    case (InApprove r)
    then obtain c where c: "fst (Take r (w_pending t)) = Some c" "IsValidWifiCredentials (wc_ssid c) (wc_password c)"
      using assms(5) by (auto simp: wifi_step_def Approve_configs split: option.splits if_splits)
    then have "configs (w_log (wifi_step E i (t\<lparr>w_world := w\<rparr>))) =
        configs (w_log t) @ [(c_string 32 (wc_ssid c), c_string 64 (wc_password c))]"
      using InApprove by (simp add: wifi_step_def Approve_configs)
    then show ?thesis using approved_was_shown [OF inv c(1)] c(2) InApprove by blast
  qed (use assms(4,5) in \<open>simp_all add: wifi_step_def quiet_event quiet_timer quiet_recovery HandlePostConnect_configs
         RejectRecoveryCredentials_def\<close>)
qed

section \<open>The first-run form\<close>

lemma length_UrlEncode: "length (UrlEncode s) \<le> 3 * length s"
  by (induction s) auto

lemma nul_notin_UrlEncode: "CHR 0x00 \<notin> set (UrlEncode s)"
  using UrlEncode_chars [of "CHR 0x00" s] by (auto simp: cpp_class byte_def)

definition wifi_form :: "string \<Rightarrow> string \<Rightarrow> string" where
  "wifi_form ssid pw = form_text [(''ssid'', ssid), (''password'', pw)]"

lemma wifi_form_fits: "IsValidWifiCredentials ssid pw \<Longrightarrow> wifi_form ssid pw \<noteq> [] \<and> length (wifi_form ssid pw) \<le> kMaxBodyBytes"
  using length_UrlEncode [of ssid] length_UrlEncode [of pw]
  by (simp add: wifi_form_def IsValidWifiCredentials_def kMaxWifiSsidBytes_def kMaxWifiPasswordBytes_def kMaxBodyBytes_def)

lemma wifi_form_fields:
  "field_or_empty (wifi_form ssid pw) ''ssid'' = ssid" "field_or_empty (wifi_form ssid pw) ''password'' = pw"
proof -
  have "CHR 0x00 \<notin> set (wifi_form ssid pw)"
    using nul_notin_UrlEncode [of ssid] nul_notin_UrlEncode [of pw] by (simp add: wifi_form_def)
  then have "takeWhile (\<lambda>c. c \<noteq> CHR 0x00) (wifi_form ssid pw) = wifi_form ssid pw"
    by (simp add: takeWhile_eq_all_conv)
  moreover have "ParseFormField (wifi_form ssid pw) ''ssid'' = Some ssid" "ParseFormField (wifi_form ssid pw) ''password'' = Some pw"
    unfolding wifi_form_def by (subst form_submission_round_trip; simp add: plain_key_def)+
  ultimately show "field_or_empty (wifi_form ssid pw) ''ssid'' = ssid" "field_or_empty (wifi_form ssid pw) ''password'' = pw"
    unfolding field_or_empty_def by (simp_all only: option.case)
qed

lemma c_string_fits: "CHR 0x00 \<notin> set s \<Longrightarrow> length s \<le> n - 1 \<Longrightarrow> c_string n s = s"
  by (simp add: c_string_def takeWhile_eq_all_conv)

text \<open>
  What is typed into the first-run form is what the device joins. The form a browser posts for a
  valid network name and password always fits the form server's buffer; whatever pieces it arrives in,
  exactly this name and password are handed to the driver, with spaces, ampersands, percent signs and
  non-ASCII bytes intact. When the driver takes them the retry count starts afresh, the name is the
  one reported once online, and a connection attempt is made at once; otherwise the visitor is told.
\<close>

lemma first_run_form_applies:
  assumes "w_initial s" "IsValidWifiCredentials ssid pw" "CHR 0x00 \<notin> set ssid \<union> set pw"
    and "recv_body_loop (form_recv E) (length (wifi_form ssid pw)) [] 0 0 (w_world s) = (Some (wifi_form ssid pw), w)"
    and "HandlePostConnect E (int (length (wifi_form ssid pw))) s = (reply, s')"
  shows "configs (w_log s') = configs (w_log s) @ [(ssid, pw)] \<and>
    (reply = FormConnecting \<and> w_pending_ssid s' = ssid \<and> attempts (w_policy s') = 0 \<and>
       (\<exists>ok. List.last (w_log s') = LCall (WifiConnect kOnSubmission) ok) \<or>
     reply = FormBadRequest \<and> List.last (w_log s') = LCall (WifiSetStaConfig ssid pw) False)"
proof -
  have c: "c_string 32 ssid = ssid" "c_string 64 pw = pw"
    using assms(2,3) by (auto intro!: c_string_fits simp: IsValidWifiCredentials_def kMaxWifiSsidBytes_def kMaxWifiPasswordBytes_def)
  have run: "HandlePostConnect E (int (length (wifi_form ssid pw))) s =
      (let (ok, s2) = ApplyWifiCredentials E ssid pw (s\<lparr>w_world := w\<rparr>) in (if ok then FormConnecting else FormBadRequest, s2))"
    using assms(1,4) wifi_form_fits [OF assms(2)] by (simp add: HandlePostConnect_def wifi_form_fields)
  have reply: "reply = (if fst (ApplyWifiCredentials E ssid pw (s\<lparr>w_world := w\<rparr>)) then FormConnecting else FormBadRequest)"
    and s': "s' = snd (ApplyWifiCredentials E ssid pw (s\<lparr>w_world := w\<rparr>))"
    using run assms(5) by (simp_all add: case_prod_beta)
  have "configs (w_log s') = configs (w_log s) @ [(ssid, pw)]" unfolding s' Apply_configs using c assms(2) by simp
  then show ?thesis
    using reply s' c assms(2)
    by (auto simp: ApplyWifiCredentials_def CancelReconnectTimer_def Wifi_ResetAttempts_def esp_do_def note_log_def Let_def case_prod_beta)
qed

section \<open>Two ways to be stranded\<close>

text \<open>
  The one-chance calls are real. After a submission whose connect fails the retry timer has just been
  cancelled and nothing else is under way, so nothing retries; and a network name that starts with a
  zero byte passes the emptiness check but reaches the driver as a blank name.
\<close>

lemma failed_submission_strands:
  assumes "\<not> online (link_of s)" "\<not> attempting (link_of s)" "\<not> starting (link_of s)" "\<not> held_for_clients s"
    and "IsValidWifiCredentials ssid pw" "fst (esp_do E (WifiSetStaConfig (c_string 32 ssid) (c_string 64 pw)) s)"
    and "\<And>w. \<not> fst (esp E (WifiConnect kOnSubmission) w)"
  shows "fst (ApplyWifiCredentials E ssid pw s) \<and> \<not> chain_alive (snd (ApplyWifiCredentials E ssid pw s))"
proof -
  have "\<not> fst (esp_do E (WifiConnect kOnSubmission) t)" for t
    using assms(7) by (simp add: esp_do_def case_prod_beta Let_def)
  then show ?thesis
    using assms(1-6) by (simp add: ApplyWifiCredentials_def CancelReconnectTimer_def chain_alive_def held_for_clients_def Let_def case_prod_beta)
qed

lemma nul_name_is_blank:
  "IsValidWifiCredentials (CHR 0x00 # rest) pw \<Longrightarrow>
   configs (w_log (snd (ApplyWifiCredentials E (CHR 0x00 # rest) pw s))) = configs (w_log s) @ [([], c_string 64 pw)]"
  by (simp add: Apply_configs) (simp add: c_string_def)

section \<open>A device on its bench\<close>

definition sample_wifi_env :: "string wifi_env" where
  "sample_wifi_env =
     \<lparr>esp = (\<lambda>c w. (c \<noteq> WifiConnect kOnReconnectTimer, w)), get_mac = (\<lambda>w. Some [1, 2, 3, 0xAB, 0xCD, 0xEF]),
      get_sta_ssid = (\<lambda>w. Some w), form_recv = (\<lambda>n w. (BodyData (take n w), drop n w)), def_ctrl_port = 32768\<rparr>"

definition all_callbacks :: wifi_ui_callbacks where
  "all_callbacks = \<lparr>has_setup_needed = True, has_connected = True, has_connect_failed = True, has_credentials_pending = True\<rparr>"

lemma sample_wifi_env_simps [simp]:
  "esp sample_wifi_env c w = (c \<noteq> WifiConnect kOnReconnectTimer, w)" "get_sta_ssid sample_wifi_env w = Some w"
  "form_recv sample_wifi_env n w = (BodyData (take n w), drop n w)"
  by (simp_all add: sample_wifi_env_def)

lemma esp_do_sample [simp]:
  "esp_do sample_wifi_env c s = (c \<noteq> WifiConnect kOnReconnectTimer, note_log (LCall c (c \<noteq> WifiConnect kOnReconnectTimer)) s)"
  by (simp add: esp_do_def)

definition sample_boot :: "string wifi" where
  "sample_boot =
     note_log (LCall WifiStart True) (note_log (LCall (WifiSetMode kModeSta) True)
       ((WifiSetupState_new ''home'')\<lparr>w_callbacks := all_callbacks, w_pending_ssid := ''home''\<rparr>))"

lemma sample_boot_booted: "wifi_booted sample_wifi_env all_callbacks sample_boot"
proof -
  let ?s = "(WifiSetupState_new ''home'')\<lparr>w_pending_ssid := ''home''\<rparr>"
  have "\<exists>c. InitWifiAndCheckStoredCredentials sample_wifi_env ''home'' = Some (c, ?s)"
    by (simp add: InitWifiAndCheckStoredCredentials_def Let_def) blast
  moreover have "ConnectToWifi sample_wifi_env all_callbacks (?s\<lparr>w_world := ''home''\<rparr>) = Some sample_boot"
    by (simp add: ConnectToWifi_def esp_check_def Let_def sample_boot_def WifiSetupState_new_def note_log_def)
  ultimately show ?thesis unfolding wifi_booted_def by blast
qed

lemma sample_boot_simps [simp]:
  "w_log sample_boot = [LCall (WifiSetMode kModeSta) True, LCall WifiStart True]" "\<not> w_initial sample_boot"
  "w_pending sample_boot = PendingWifi_new" "w_callbacks sample_boot = all_callbacks" "\<not> w_setup_server sample_boot"
  by (simp_all add: sample_boot_def WifiSetupState_new_def)

text \<open>A failed retry on the timer: the timer is armed again.\<close>

theorem wifi_retries_never_stop_witness:
  "chain_alive (wifi_step sample_wifi_env InReconnectTimer (sample_boot\<lparr>w_world := []\<rparr>))"
proof -
  let ?t = "wifi_step sample_wifi_env InReconnectTimer (sample_boot\<lparr>w_world := []\<rparr>)"
  have run: "wifi_run sample_wifi_env sample_boot ?t" by (intro wifi_more wifi_refl)
  have "\<not> w_initial ?t" "\<not> faulty (link_of ?t)"
    by (simp_all add: wifi_step_def ReconnectTimerCallback_def start_reconnect_timer_def CancelReconnectTimer_def)
      (simp_all add: link_of_def)
  then show ?thesis by (rule wifi_retries_never_stop [OF sample_boot_booted run])
qed

definition sample_asked :: "string wifi" where
  "sample_asked = wifi_step sample_wifi_env (InForm (int (length (wifi_form ''cafe'' ''pw'')))) (sample_boot\<lparr>w_world := wifi_form ''cafe'' ''pw''\<rparr>)"

lemma recv_whole_form:
  "body \<noteq> [] \<Longrightarrow> recv_body_loop (form_recv sample_wifi_env) (length body) [] 0 0 body = (Some body, [])"
  by (subst recv_body_loop.simps, simp) (simp add: recv_body_loop.simps)

lemma sample_asked_simps:
  "w_pending sample_asked = \<lparr>pending = Some \<lparr>wc_ssid = ''cafe'', wc_password = ''pw''\<rparr>, last_id = 1\<rparr>"
  "configs (w_log sample_asked) = []" "\<not> w_initial sample_asked" "shown (w_log sample_asked) = [(''cafe'', 1)]"
proof -
  have v: "IsValidWifiCredentials ''cafe'' ''pw''"
    by (simp add: IsValidWifiCredentials_def kMaxWifiSsidBytes_def kMaxWifiPasswordBytes_def)
  note f = wifi_form_fits [OF v] recv_whole_form [of "wifi_form ''cafe'' ''pw''"]
  have asked: "sample_asked =
      snd (HandleRecoveryRequest ''cafe'' ''pw''
        ((note_log (LIn (InForm (int (length (wifi_form ''cafe'' ''pw''))))) (sample_boot\<lparr>w_world := wifi_form ''cafe'' ''pw''\<rparr>))\<lparr>w_world := []\<rparr>))"
    using f by (simp add: sample_asked_def wifi_step_def HandlePostConnect_def wifi_form_fields)
  show "w_pending sample_asked = \<lparr>pending = Some \<lparr>wc_ssid = ''cafe'', wc_password = ''pw''\<rparr>, last_id = 1\<rparr>"
    "configs (w_log sample_asked) = []" "\<not> w_initial sample_asked" "shown (w_log sample_asked) = [(''cafe'', 1)]"
    unfolding asked using v by (simp_all add: HandleRecoveryRequest_def Submit_def PendingWifi_new_def all_callbacks_def)
qed

theorem wifi_change_needs_a_person_witness:
  "\<exists>ssid pw. configs (w_log (wifi_step sample_wifi_env (InApprove 1) (sample_asked\<lparr>w_world := []\<rparr>))) = [(c_string 32 ssid, c_string 64 pw)] \<and>
     IsValidWifiCredentials ssid pw \<and> (ssid, 1) \<in> set (shown (w_log sample_asked))"
proof -
  have run: "wifi_run sample_wifi_env sample_boot sample_asked" unfolding sample_asked_def by (intro wifi_more wifi_refl)
  have "has_credentials_pending all_callbacks" by (simp add: all_callbacks_def)
  moreover have "configs (w_log (wifi_step sample_wifi_env (InApprove 1) (sample_asked\<lparr>w_world := []\<rparr>))) \<noteq> configs (w_log sample_asked)"
    by (simp add: wifi_step_def Approve_configs Take_def sample_asked_simps IsValidWifiCredentials_def kMaxWifiSsidBytes_def kMaxWifiPasswordBytes_def)
  ultimately show ?thesis
    using wifi_change_needs_a_person [OF sample_boot_booted _ run sample_asked_simps(3), of "InApprove 1" "[]"] sample_asked_simps(2)
    by auto
qed

end
