(* ===== verification/Firmware_Stores.thy ===== *)
theory Firmware_Stores
  imports Storage
begin

text \<open>
  The stores of the device: \<^verbatim>\<open>platform/firmware/nvs_blob_store.cpp\<close> with \<^verbatim>\<open>settings_store.cpp\<close> and
  \<^verbatim>\<open>secret_store.cpp\<close> on their two NVS partitions, and \<^verbatim>\<open>cache_store.cpp\<close> on a FAT partition. As for the
  host stores, what a call of the flash driver does to one entry is part of the state. A failed NVS
  call may leave the old or the new value behind. Reads fail only where the namespace or the entry is
  missing.
\<close>

section \<open>NVS partitions\<close>

text \<open>The outcome of a write: done, or an error after which the change is in effect or not.\<close>

datatype nvs_io = NvsDone | NvsFailed (in_effect: bool)

record nvs_partition =
  nvs_namespaces :: "string list"
  nvs_blobs :: "((string \<times> string) \<times> string) list"
  nvs_open_error :: "string \<Rightarrow> bool"
  nvs_set_io :: "string \<Rightarrow> string \<Rightarrow> nvs_io"
  nvs_erase_io :: "string \<Rightarrow> string \<Rightarrow> nvs_io"
  nvs_commit_io :: "string \<Rightarrow> string \<Rightarrow> nvs_io"

type_synonym flash = "string \<Rightarrow> nvs_partition"

text \<open>A namespace exists once created, and a blob is in an existing namespace. Opening for writing creates it.\<close>

definition nvs_has_namespace :: "string \<Rightarrow> nvs_partition \<Rightarrow> bool" where
  "nvs_has_namespace ns p \<longleftrightarrow> ns \<in> set (nvs_namespaces p) \<or> ns \<in> fst ` fst ` set (nvs_blobs p)"

definition nvs_open_rw :: "string \<Rightarrow> nvs_partition \<Rightarrow> nvs_partition option" where
  "nvs_open_rw ns p = (if nvs_open_error p ns then None else Some (p\<lparr>nvs_namespaces := List.insert ns (nvs_namespaces p)\<rparr>))"

definition nvs_store :: "string \<Rightarrow> string \<Rightarrow> string \<Rightarrow> nvs_partition \<Rightarrow> nvs_partition" where
  "nvs_store ns key value p = p\<lparr>nvs_blobs := alist_put (ns, key) value (nvs_blobs p)\<rparr>"

definition nvs_drop :: "string \<Rightarrow> string \<Rightarrow> nvs_partition \<Rightarrow> nvs_partition" where
  "nvs_drop ns key p = p\<lparr>nvs_blobs := filter (\<lambda>(e, _). e \<noteq> (ns, key)) (nvs_blobs p)\<rparr>"

text \<open>A change followed by a commit, each with its outcome.\<close>

definition nvs_change :: "nvs_io \<Rightarrow> nvs_io \<Rightarrow> (nvs_partition \<Rightarrow> nvs_partition) \<Rightarrow> nvs_partition \<Rightarrow> bool \<times> nvs_partition" where
  "nvs_change io commit_io f p =
     (case io of
        NvsFailed e \<Rightarrow> (False, if e then f p else p)
      | NvsDone \<Rightarrow>
          (case commit_io of
             NvsFailed e \<Rightarrow> (False, if e then f p else p)
           | NvsDone \<Rightarrow> (True, f p)))"

definition NvsSetBlob :: "string \<Rightarrow> string \<Rightarrow> string \<Rightarrow> string \<Rightarrow> flash \<Rightarrow> bool \<times> flash" where
  "NvsSetBlob part ns key value f =
     (if \<not> IsValidStoreSegment ns \<or> \<not> IsValidStoreSegment key then (False, f)
      else
        (case nvs_open_rw ns (f part) of
           None \<Rightarrow> (False, f)
         | Some p \<Rightarrow>
             (let (ok, p1) = nvs_change (nvs_set_io p ns key) (nvs_commit_io p ns key) (nvs_store ns key value) p
              in (ok, f(part := p1)))))"

definition NvsGetBlob :: "string \<Rightarrow> string \<Rightarrow> string \<Rightarrow> flash \<Rightarrow> string option" where
  "NvsGetBlob part ns key f =
     (if \<not> IsValidStoreSegment ns \<or> \<not> IsValidStoreSegment key then None
      else if \<not> nvs_has_namespace ns (f part) then None
      else map_of (nvs_blobs (f part)) (ns, key))"

definition NvsEraseBlob :: "string \<Rightarrow> string \<Rightarrow> string \<Rightarrow> flash \<Rightarrow> bool \<times> flash" where
  "NvsEraseBlob part ns key f =
     (if \<not> IsValidStoreSegment ns \<or> \<not> IsValidStoreSegment key then (False, f)
      else
        (case nvs_open_rw ns (f part) of
           None \<Rightarrow> (True, f)
         | Some p \<Rightarrow>
             if map_of (nvs_blobs p) (ns, key) = None then (True, f(part := p))
             else
               (let (ok, p1) = nvs_change (nvs_erase_io p ns key) (nvs_commit_io p ns key) (nvs_drop ns key) p
                in (ok, f(part := p1)))))"

section \<open>Settings and secrets\<close>

definition NVS_DEFAULT_PART_NAME :: string where "NVS_DEFAULT_PART_NAME = ''nvs''"
definition kSecretPartitionName :: string where "kSecretPartitionName = ''secrets''"

definition FirmwareSettingsStore_Set :: "flash \<Rightarrow> string \<Rightarrow> string \<Rightarrow> string \<Rightarrow> bool \<times> flash" where
  "FirmwareSettingsStore_Set f ns key value = NvsSetBlob NVS_DEFAULT_PART_NAME ns key value f"

definition FirmwareSettingsStore_Get :: "flash \<Rightarrow> string \<Rightarrow> string \<Rightarrow> string option" where
  "FirmwareSettingsStore_Get f ns key = NvsGetBlob NVS_DEFAULT_PART_NAME ns key f"

text \<open>The iterator yields the blob entries of the default partition.\<close>

definition FirmwareSettingsStore_ListAll :: "flash \<Rightarrow> (string \<times> string \<times> string) list" where
  "FirmwareSettingsStore_ListAll f =
     (let ns_keys = map fst (nvs_blobs (f NVS_DEFAULT_PART_NAME))
      in List.map_filter (\<lambda>(ns, key). map_option (\<lambda>v. (ns, key, v)) (FirmwareSettingsStore_Get f ns key)) ns_keys)"

definition FirmwareSettingsStore_Erase :: "flash \<Rightarrow> string \<Rightarrow> string \<Rightarrow> bool \<times> flash" where
  "FirmwareSettingsStore_Erase f ns key = NvsEraseBlob NVS_DEFAULT_PART_NAME ns key f"

definition FirmwareSecretStore_Set :: "flash \<Rightarrow> string \<Rightarrow> string \<Rightarrow> string \<Rightarrow> bool \<times> flash" where
  "FirmwareSecretStore_Set f ns key value = NvsSetBlob kSecretPartitionName ns key value f"

definition FirmwareSecretStore_Get :: "flash \<Rightarrow> string \<Rightarrow> string \<Rightarrow> string option" where
  "FirmwareSecretStore_Get f ns key = NvsGetBlob kSecretPartitionName ns key f"

definition FirmwareSecretStore_Erase :: "flash \<Rightarrow> string \<Rightarrow> string \<Rightarrow> bool \<times> flash" where
  "FirmwareSecretStore_Erase f ns key = NvsEraseBlob kSecretPartitionName ns key f"

section \<open>The contract on NVS\<close>

lemma nvs_change_cases:
  "nvs_change io cio g p = (ok, p1) \<Longrightarrow> p1 = g p \<or> \<not> ok \<and> p1 = p"
  by (auto simp: nvs_change_def split: nvs_io.splits)

lemma nvs_open_rw_blobs: "nvs_open_rw ns p = Some q \<Longrightarrow> nvs_blobs q = nvs_blobs p"
  by (auto simp: nvs_open_rw_def split: if_splits)

lemma nvs_store_blobs [simp]: "nvs_blobs (nvs_store ns k v p) = alist_put (ns, k) v (nvs_blobs p)"
  by (simp add: nvs_store_def)

lemma nvs_drop_blobs [simp]: "nvs_blobs (nvs_drop ns k p) = filter (\<lambda>(e, _). e \<noteq> (ns, k)) (nvs_blobs p)"
  by (simp add: nvs_drop_def)

lemma NvsGetBlob_eq:
  "NvsGetBlob part ns k f =
     (if IsValidStoreSegment ns \<and> IsValidStoreSegment k then map_of (nvs_blobs (f part)) (ns, k) else None)"
proof (cases "nvs_has_namespace ns (f part)")
  case False
  then have "map_of (nvs_blobs (f part)) (ns, k) = None" by (force simp: nvs_has_namespace_def map_of_eq_None_iff)
  with False show ?thesis by (simp add: NvsGetBlob_def)
qed (simp add: NvsGetBlob_def)

text \<open>What a write and an erase do to the blobs of their partition.\<close>

lemma NvsSetBlob_blobs:
  assumes "NvsSetBlob part ns k v f = (ok, f')"
  shows "nvs_blobs (f' part) = alist_put (ns, k) v (nvs_blobs (f part)) \<or> \<not> ok \<and> nvs_blobs (f' part) = nvs_blobs (f part)"
proof (cases "IsValidStoreSegment ns \<and> IsValidStoreSegment k \<and> nvs_open_rw ns (f part) \<noteq> None")
  case True
  then obtain p where p: "nvs_open_rw ns (f part) = Some p" by auto
  obtain ok' p1 where c: "nvs_change (nvs_set_io p ns k) (nvs_commit_io p ns k) (nvs_store ns k v) p = (ok', p1)" by fastforce
  have "ok = ok'" "f' = f(part := p1)" using assms True p c by (auto simp: NvsSetBlob_def)
  then show ?thesis using nvs_change_cases [OF c] nvs_open_rw_blobs [OF p] by auto
qed (use assms in \<open>auto simp: NvsSetBlob_def split: if_splits\<close>)

lemma NvsEraseBlob_cases:
  assumes "NvsEraseBlob part ns k f = (ok, f')"
  shows "nvs_blobs (f' part) = filter (\<lambda>(e, _). e \<noteq> (ns, k)) (nvs_blobs (f part)) \<or>
    nvs_blobs (f' part) = nvs_blobs (f part) \<and> (ok \<longrightarrow> nvs_open_error (f part) ns \<or> map_of (nvs_blobs (f part)) (ns, k) = None)"
proof (cases "IsValidStoreSegment ns \<and> IsValidStoreSegment k \<and> nvs_open_rw ns (f part) \<noteq> None")
  case True
  then obtain p where p: "nvs_open_rw ns (f part) = Some p" by auto
  obtain ok' p1 where c: "nvs_change (nvs_erase_io p ns k) (nvs_commit_io p ns k) (nvs_drop ns k) p = (ok', p1)" by fastforce
  show ?thesis
  proof (cases "map_of (nvs_blobs p) (ns, k) = None")
    case absent: True
    then have "f' = f(part := p)" using assms True p by (auto simp: NvsEraseBlob_def)
    then show ?thesis using absent nvs_open_rw_blobs [OF p] by simp
  next
    case False
    then have "ok = ok'" "f' = f(part := p1)" using assms True p c by (auto simp: NvsEraseBlob_def)
    then show ?thesis using nvs_change_cases [OF c] nvs_open_rw_blobs [OF p] by auto
  qed
next
  case False
  then show ?thesis using assms by (auto simp: NvsEraseBlob_def nvs_open_rw_def split: if_splits)
qed

text \<open>Every operation leaves the other partitions alone.\<close>

lemma NvsSetBlob_other: "q \<noteq> part \<Longrightarrow> snd (NvsSetBlob part ns k v f) q = f q"
  by (auto simp: NvsSetBlob_def Let_def split: option.split prod.split)

lemma NvsEraseBlob_other: "q \<noteq> part \<Longrightarrow> snd (NvsEraseBlob part ns k f) q = f q"
  by (auto simp: NvsEraseBlob_def Let_def split: option.split prod.split)

text \<open>
  One partition keeps the contract of writes. Its full contract has one gap: an erase that cannot open
  the namespace reports success.
\<close>

lemma NvsSetBlob_get: "NvsSetBlob part ns k v f = (True, f') \<Longrightarrow> NvsGetBlob part ns k f' = Some v"
  using NvsSetBlob_blobs [of part ns k v f True f'] by (auto simp: NvsGetBlob_eq NvsSetBlob_def split: if_splits)

lemma NvsSetBlob_get_other:
  assumes "(ns', k') \<noteq> (ns, k)"
  shows "NvsGetBlob part ns' k' (snd (NvsSetBlob part ns k v f)) = NvsGetBlob part ns' k' f"
proof (cases "NvsSetBlob part ns k v f")
  case (Pair ok f')
  then show ?thesis using NvsSetBlob_blobs [OF Pair] assms by (auto simp: NvsGetBlob_eq)
qed

lemma NvsEraseBlob_get_other:
  assumes "(ns', k') \<noteq> (ns, k)"
  shows "NvsGetBlob part ns' k' (snd (NvsEraseBlob part ns k f)) = NvsGetBlob part ns' k' f"
proof (cases "NvsEraseBlob part ns k f")
  case (Pair ok f')
  then show ?thesis using NvsEraseBlob_cases [OF Pair] assms by (auto simp: NvsGetBlob_eq map_of_filter_key)
qed

lemma NvsEraseBlob_get:
  assumes "NvsEraseBlob part ns k f = (True, f')" "\<not> nvs_open_error (f part) ns"
  shows "NvsGetBlob part ns k f' = None"
  using NvsEraseBlob_cases [OF assms(1)] assms(2) by (auto simp: NvsGetBlob_eq map_of_filter_key)

lemma failed_open_keeps_blob:
  assumes "nvs_open_error (f part) ns" "NvsGetBlob part ns k f = Some v"
  shows "NvsEraseBlob part ns k f = (True, f)"
  using assms by (auto simp: NvsEraseBlob_def NvsGetBlob_eq nvs_open_rw_def split: if_splits)

interpretation nvs_settings: kv_writes FirmwareSettingsStore_Set FirmwareSettingsStore_Get FirmwareSettingsStore_Erase
  by unfold_locales
    (auto simp: FirmwareSettingsStore_Set_def FirmwareSettingsStore_Get_def FirmwareSettingsStore_Erase_def
      NvsSetBlob_get NvsSetBlob_get_other NvsEraseBlob_get_other, auto simp: NvsSetBlob_def)

interpretation nvs_secrets: kv_writes FirmwareSecretStore_Set FirmwareSecretStore_Get FirmwareSecretStore_Erase
  by unfold_locales
    (auto simp: FirmwareSecretStore_Set_def FirmwareSecretStore_Get_def FirmwareSecretStore_Erase_def
      NvsSetBlob_get NvsSetBlob_get_other NvsEraseBlob_get_other, auto simp: NvsSetBlob_def)

section \<open>Two partitions\<close>

datatype store_op =
    SettingsSet string string string
  | SettingsErase string string
  | SecretSet string string string
  | SecretErase string string

fun store_step :: "store_op \<Rightarrow> flash \<Rightarrow> flash" where
  "store_step (SettingsSet ns k v) f = snd (FirmwareSettingsStore_Set f ns k v)"
| "store_step (SettingsErase ns k) f = snd (FirmwareSettingsStore_Erase f ns k)"
| "store_step (SecretSet ns k v) f = snd (FirmwareSecretStore_Set f ns k v)"
| "store_step (SecretErase ns k) f = snd (FirmwareSecretStore_Erase f ns k)"

fun on_secrets :: "store_op \<Rightarrow> bool" where
  "on_secrets (SecretSet ns k v) = True"
| "on_secrets (SecretErase ns k) = True"
| "on_secrets op = False"

abbreviation partition_of :: "store_op \<Rightarrow> string" where
  "partition_of op \<equiv> if on_secrets op then kSecretPartitionName else NVS_DEFAULT_PART_NAME"

lemma partitions_differ [simp]: "kSecretPartitionName \<noteq> NVS_DEFAULT_PART_NAME" "NVS_DEFAULT_PART_NAME \<noteq> kSecretPartitionName"
  by (simp_all add: kSecretPartitionName_def NVS_DEFAULT_PART_NAME_def)

lemmas firmware_store_defs =
  FirmwareSettingsStore_Set_def FirmwareSettingsStore_Get_def FirmwareSettingsStore_Erase_def
  FirmwareSecretStore_Set_def FirmwareSecretStore_Get_def FirmwareSecretStore_Erase_def

lemma NvsSetBlob_local: "f part = g part \<Longrightarrow> snd (NvsSetBlob part ns k v f) part = snd (NvsSetBlob part ns k v g) part"
  by (simp add: NvsSetBlob_def Let_def split: option.split prod.split)

lemma NvsEraseBlob_local: "f part = g part \<Longrightarrow> snd (NvsEraseBlob part ns k f) part = snd (NvsEraseBlob part ns k g) part"
  by (simp add: NvsEraseBlob_def Let_def split: option.split prod.split)

lemma store_step_other: "q \<noteq> partition_of op \<Longrightarrow> store_step op f q = f q"
  by (cases op) (simp_all add: firmware_store_defs NvsSetBlob_other NvsEraseBlob_other)

lemma store_step_local: "f (partition_of op) = g (partition_of op) \<Longrightarrow> store_step op f (partition_of op) = store_step op g (partition_of op)"
  by (cases op) (auto simp: firmware_store_defs intro: NvsSetBlob_local NvsEraseBlob_local)

lemma fold_store_step_local:
  "f q = g q \<Longrightarrow> fold store_step ops f q = fold store_step (filter (\<lambda>op. partition_of op = q) ops) g q"
proof (induction ops arbitrary: f g)
  case (Cons op ops)
  show ?case
  proof (cases "partition_of op = q")
    case True
    then have "store_step op f q = store_step op g q" using store_step_local [of f op g] Cons.prems by simp
    then show ?thesis using Cons.IH True by simp
  next
    case False
    then have "store_step op f q = g q" using store_step_other [of q op f] Cons.prems by simp
    then show ?thesis using Cons.IH False by simp
  qed
qed simp

lemma set_map_filter: "set (List.map_filter h xs) = {y. \<exists>x \<in> set xs. h x = Some y}"
  by (force simp: List.map_filter_def)

lemma ListAll_exact: "set (FirmwareSettingsStore_ListAll f) = {(ns, k, v). FirmwareSettingsStore_Get f ns k = Some v}"
proof -
  have "(ns, k) \<in> fst ` set (nvs_blobs (f NVS_DEFAULT_PART_NAME))" if "FirmwareSettingsStore_Get f ns k = Some v" for ns k v
    using that by (auto simp: FirmwareSettingsStore_Get_def NvsGetBlob_eq dest!: map_of_SomeD split: if_splits intro: rev_image_eqI)
  then show ?thesis
    unfolding FirmwareSettingsStore_ListAll_def Let_def set_map_filter set_map
    by (auto simp del: image_iff bex_simps intro!: bexI [where x = "(_, _)"])
qed

lemma ListAll_local:
  "f NVS_DEFAULT_PART_NAME = g NVS_DEFAULT_PART_NAME \<Longrightarrow> FirmwareSettingsStore_ListAll f = FirmwareSettingsStore_ListAll g"
proof -
  assume f: "f NVS_DEFAULT_PART_NAME = g NVS_DEFAULT_PART_NAME"
  then have "FirmwareSettingsStore_Get f = FirmwareSettingsStore_Get g"
    by (intro ext) (simp add: FirmwareSettingsStore_Get_def NvsGetBlob_eq)
  with f show ?thesis by (simp add: FirmwareSettingsStore_ListAll_def)
qed

text \<open>
  Settings and secrets on the device do not interfere. After any interleaving of writes and erases of
  both stores, under any flash errors, with the same namespaces and keys used on both sides: every secret
  reads as if only the secret operations had run, the list of all settings (what a backup exports) is the
  one the settings operations alone would have left, and this list holds exactly what can be read back
  as a setting. In particular no secret ever appears in it.
\<close>

lemma device_stores_isolated:
  "FirmwareSecretStore_Get (fold store_step ops f) ns k = FirmwareSecretStore_Get (fold store_step (filter on_secrets ops) f) ns k \<and>
   FirmwareSettingsStore_ListAll (fold store_step ops f) =
     FirmwareSettingsStore_ListAll (fold store_step (filter (\<lambda>op. \<not> on_secrets op) ops) f) \<and>
   set (FirmwareSettingsStore_ListAll f) = {(ns, k, v). FirmwareSettingsStore_Get f ns k = Some v}"
proof (intro conjI)
  have secret: "(partition_of op = kSecretPartitionName) = on_secrets op"
    and setting: "(partition_of op = NVS_DEFAULT_PART_NAME) = (\<not> on_secrets op)" for op
    by simp_all
  have "fold store_step ops f kSecretPartitionName = fold store_step (filter on_secrets ops) f kSecretPartitionName"
    using fold_store_step_local [of f kSecretPartitionName f ops] unfolding secret by simp
  then show "FirmwareSecretStore_Get (fold store_step ops f) ns k = FirmwareSecretStore_Get (fold store_step (filter on_secrets ops) f) ns k"
    by (simp add: FirmwareSecretStore_Get_def NvsGetBlob_def)
  have "fold store_step ops f NVS_DEFAULT_PART_NAME = fold store_step (filter (\<lambda>op. \<not> on_secrets op) ops) f NVS_DEFAULT_PART_NAME"
    using fold_store_step_local [of f NVS_DEFAULT_PART_NAME f ops] unfolding setting by simp
  then show "FirmwareSettingsStore_ListAll (fold store_step ops f) =
     FirmwareSettingsStore_ListAll (fold store_step (filter (\<lambda>op. \<not> on_secrets op) ops) f)"
    by (rule ListAll_local)
qed (rule ListAll_exact)

text \<open>The versioned settings of the facade survive on NVS as on the host.\<close>

lemma device_setting_round_trip:
  assumes "int32_range ver" "FirmwareSettingsStore_Set f m k (Encode ver v) = (True, f')"
  shows "DecodeIfPresent (FirmwareSettingsStore_Get f' m k) = Some \<lparr>schema_version = ver, vv_value = v\<rparr>"
  by (rule nvs_settings.versioned_round_trip [OF assms])

lemma device_secret_round_trip:
  assumes "int32_range ver" "FirmwareSecretStore_Set f m k (Encode ver v) = (True, f')"
  shows "DecodeIfPresent (FirmwareSecretStore_Get f' m k) = Some \<lparr>schema_version = ver, vv_value = v\<rparr>"
  by (rule nvs_secrets.versioned_round_trip [OF assms])

section \<open>The cache on FAT\<close>

text \<open>
  FatFs finds a file regardless of the case of its name. \<open>FatUnflushed n\<close>: every byte was accepted into the
  stream's buffer, and only \<open>n\<close> of them reached the file when it was closed.
\<close>

datatype fat_io = FatOk | FatNoDir | FatOpenError | FatShort nat | FatUnflushed nat

record fat_cache =
  mounted :: bool
  fat_files :: "((string \<times> string) \<times> string) list"
  fat_write_io :: "string \<Rightarrow> string \<Rightarrow> fat_io"
  fat_remove_error :: "string \<Rightarrow> string \<Rightarrow> bool"

definition fat_upper :: "char \<Rightarrow> char" where
  "fat_upper c = (if c_islower c then char_of (byte c - 32) else c)"

definition PathFor :: "string \<Rightarrow> string \<Rightarrow> string \<times> string" where
  "PathFor ns key = (map fat_upper ns, map fat_upper key)"

definition FirmwareCacheStore_new :: "bool \<Rightarrow> fat_cache \<Rightarrow> fat_cache" where
  "FirmwareCacheStore_new mount_ok c = c\<lparr>mounted := mount_ok\<rparr>"

definition FirmwareCacheStore_Write :: "fat_cache \<Rightarrow> string \<Rightarrow> string \<Rightarrow> string \<Rightarrow> bool \<times> fat_cache" where
  "FirmwareCacheStore_Write c ns key content =
     (if \<not> mounted c \<or> \<not> IsValidStoreSegment ns \<or> \<not> IsValidStoreSegment key then (False, c)
      else
        (let stored = (\<lambda>n. c\<lparr>fat_files := alist_put (PathFor ns key) (take n content) (fat_files c)\<rparr>)
         in case fat_write_io c ns key of
              FatNoDir \<Rightarrow> (False, c)
            | FatOpenError \<Rightarrow> (False, c)
            | FatShort n \<Rightarrow> (length content \<le> n, stored n)
            | FatUnflushed n \<Rightarrow> (True, stored n)
            | FatOk \<Rightarrow> (True, stored (length content))))"

definition FirmwareCacheStore_Read :: "fat_cache \<Rightarrow> string \<Rightarrow> string \<Rightarrow> string option" where
  "FirmwareCacheStore_Read c ns key =
     (if \<not> mounted c \<or> \<not> IsValidStoreSegment ns \<or> \<not> IsValidStoreSegment key then None
      else map_of (fat_files c) (PathFor ns key))"

definition FirmwareCacheStore_Erase :: "fat_cache \<Rightarrow> string \<Rightarrow> string \<Rightarrow> bool \<times> fat_cache" where
  "FirmwareCacheStore_Erase c ns key =
     (if \<not> mounted c \<or> \<not> IsValidStoreSegment ns \<or> \<not> IsValidStoreSegment key then (False, c)
      else if fat_remove_error c ns key then (False, c)
      else (True, c\<lparr>fat_files := filter (\<lambda>(p, _). p \<noteq> PathFor ns key) (fat_files c)\<rparr>))"

lemma cache_write_read:
  assumes "FirmwareCacheStore_Write c ns k v = (True, c')" "\<forall>n. fat_write_io c ns k \<noteq> FatUnflushed n"
  shows "FirmwareCacheStore_Read c' ns k = Some v"
  using assms by (auto simp: FirmwareCacheStore_Write_def FirmwareCacheStore_Read_def Let_def split: if_splits fat_io.splits)

text \<open>What the check of \<^verbatim>\<open>fwrite\<close> alone does not see.\<close>

lemma unflushed_write_lost:
  assumes "FirmwareCacheStore_Write c ns k v = (ok, c')" "fat_write_io c ns k = FatUnflushed n"
    and "mounted c" "IsValidStoreSegment ns" "IsValidStoreSegment k"
  shows "ok \<and> FirmwareCacheStore_Read c' ns k = Some (take n v)"
  using assms by (auto simp: FirmwareCacheStore_Write_def FirmwareCacheStore_Read_def Let_def)

lemma cache_write_other:
  assumes "PathFor ns' k' \<noteq> PathFor ns k"
  shows "FirmwareCacheStore_Read (snd (FirmwareCacheStore_Write c ns k v)) ns' k' = FirmwareCacheStore_Read c ns' k'"
  using assms by (auto simp: FirmwareCacheStore_Write_def FirmwareCacheStore_Read_def Let_def split: fat_io.split)

lemma cache_erase:
  "FirmwareCacheStore_Erase c ns k = (True, c') \<Longrightarrow> FirmwareCacheStore_Read c' ns k = None"
  by (auto simp: FirmwareCacheStore_Erase_def FirmwareCacheStore_Read_def map_of_filter_key split: if_splits)

end
