(* ===== verification/Firmware_Ws.thy ===== *)
theory Firmware_Ws
  imports Net "HOL-Library.Sublist"
begin

text \<open>
  The device's WebSocket client, \<^verbatim>\<open>platform/firmware/websocket_client.cpp\<close>: the library's task delivers
  events, the module's task connects, sends, waits for messages and closes. Each locked section is one
  step; a blocking call takes the list of the events delivered while it blocks. The ESP-IDF calls are
  their results.
\<close>

section \<open>State and events\<close>

record ws_event_data =
  op_code :: u8
  ev_fin :: bool
  payload_offset :: int
  payload_len :: int
  ev_bytes :: string

datatype ws_event = EvConnected | EvDisconnected | EvError | EvClosed | EvData ws_event_data | EvOther

record firmware_ws =
  fw_client :: bool
  connect_pending :: bool
  connect_succeeded :: bool
  fw_closed :: bool
  fw_assembler :: assembler

definition IsApplicationDataOpcode :: "u8 \<Rightarrow> bool" where
  "IsApplicationDataOpcode op \<longleftrightarrow> op = 0 \<or> op = 1 \<or> op = 2"

definition HandleConnected :: "firmware_ws \<Rightarrow> firmware_ws" where
  "HandleConnected s = s\<lparr>connect_pending := False, connect_succeeded := True\<rparr>"

definition HandleClosed :: "firmware_ws \<Rightarrow> firmware_ws" where
  "HandleClosed s =
     (let s1 = (if connect_pending s then s\<lparr>connect_pending := False, connect_succeeded := False\<rparr> else s)
      in s1\<lparr>fw_closed := True\<rparr>)"

definition frame_complete :: "ws_event_data \<Rightarrow> bool" where
  "frame_complete d \<longleftrightarrow> payload_len d \<le> payload_offset d + int (length (ev_bytes d))"

definition HandleData :: "ws_event_data \<Rightarrow> firmware_ws \<Rightarrow> firmware_ws" where
  "HandleData d s =
     (if \<not> IsApplicationDataOpcode (op_code d) then s
      else if fw_closed s then s
      else
        (let (result, a) = Assembler_Add (ev_bytes d) (ev_fin d) (frame_complete d) (fw_assembler s);
             s1 = s\<lparr>fw_assembler := a\<rparr>
         in if result = kOversized then HandleClosed s1 else s1))"

fun OnWebSocketEvent :: "ws_event \<Rightarrow> firmware_ws \<Rightarrow> firmware_ws" where
  "OnWebSocketEvent EvConnected s = HandleConnected s"
| "OnWebSocketEvent EvDisconnected s = HandleClosed s"
| "OnWebSocketEvent EvError s = HandleClosed s"
| "OnWebSocketEvent EvClosed s = HandleClosed s"
| "OnWebSocketEvent (EvData d) s = HandleData d s"
| "OnWebSocketEvent EvOther s = s"

section \<open>Operations\<close>

definition FirmwareWs_Close :: "firmware_ws \<Rightarrow> firmware_ws" where
  "FirmwareWs_Close s = s\<lparr>fw_client := False, fw_assembler := Assembler_Clear (fw_assembler s), fw_closed := True\<rparr>"

record ws_connect_env =
  init_ok :: bool
  register_ok :: bool
  start_ok :: bool
  connect_events :: "ws_event list"

text \<open>\<open>connect_events\<close>: those delivered until the wait is over, by a decision or its timeout.\<close>

definition FirmwareWs_Connect :: "ws_connect_env \<Rightarrow> firmware_ws \<Rightarrow> bool \<times> firmware_ws" where
  "FirmwareWs_Connect E s =
     (let s1 = FirmwareWs_Close s
      in if \<not> init_ok E then (False, s1)
         else
           (let s2 = s1\<lparr>fw_client := True, connect_pending := True, connect_succeeded := False, fw_closed := False\<rparr>
            in if \<not> register_ok E then (False, s2\<lparr>fw_client := False\<rparr>)
               else if \<not> start_ok E then (False, s2\<lparr>fw_client := False\<rparr>)
               else
                 (let s3 = fold OnWebSocketEvent (connect_events E) s2
                  in if connect_pending s3 \<or> \<not> connect_succeeded s3 then (False, FirmwareWs_Close s3) else (True, s3))))"

definition FirmwareWs_SendText :: "int \<Rightarrow> string \<Rightarrow> firmware_ws \<Rightarrow> bool" where
  "FirmwareWs_SendText n msg s \<longleftrightarrow> fw_client s \<and> n = to_int32 (int (length msg))"

definition FirmwareWs_ReceiveText :: "ws_event list \<Rightarrow> firmware_ws \<Rightarrow> string option \<times> firmware_ws" where
  "FirmwareWs_ReceiveText es s =
     (let s1 = fold OnWebSocketEvent es s
      in if \<not> HasMessage (fw_assembler s1) then (None, s1)
         else let (m, a) = Assembler_Pop (fw_assembler s1) in (m, s1\<lparr>fw_assembler := a\<rparr>))"

definition FirmwareWs_IsOpen :: "firmware_ws \<Rightarrow> bool" where
  "FirmwareWs_IsOpen s \<longleftrightarrow> fw_client s \<and> \<not> fw_closed s"

section \<open>What a reader sees\<close>

text \<open>
  The messages in a sequence of events, as the protocol defines them: the payloads of the data frames up
  to and including one with the final bit, joined; control frames in between do not matter. Nothing is a
  message any more once the connection has ended or a message has exceeded the limit.
\<close>

fun message_step :: "ws_event \<Rightarrow> string list \<times> string option \<Rightarrow> string list \<times> string option" where
  "message_step (EvData d) (msgs, Some acc) =
     (if \<not> IsApplicationDataOpcode (op_code d) then (msgs, Some acc)
      else if kMaxWebSocketMessageBytes < length acc + length (ev_bytes d) then (msgs, None)
      else if ev_fin d \<and> frame_complete d then (msgs @ [acc @ ev_bytes d], Some [])
      else (msgs, Some (acc @ ev_bytes d)))"
| "message_step e (msgs, acc) = (if e \<in> {EvDisconnected, EvError, EvClosed} then (msgs, None) else (msgs, acc))"

definition messages_in :: "ws_event list \<Rightarrow> string list" where
  "messages_in es = fst (fold message_step es ([], Some []))"

fun receive_all :: "ws_event list list \<Rightarrow> firmware_ws \<Rightarrow> string list \<times> firmware_ws" where
  "receive_all [] s = ([], s)"
| "receive_all (es # ess) s =
     (let (m, s1) = FirmwareWs_ReceiveText es s; (ms, s2) = receive_all ess s1
      in ((case m of None \<Rightarrow> [] | Some x \<Rightarrow> [x]) @ ms, s2))"

definition in_step :: "string list \<Rightarrow> string list \<times> string option \<Rightarrow> firmware_ws \<Rightarrow> bool" where
  "in_step out ref s \<longleftrightarrow>
     (case snd ref of None \<Rightarrow> fw_closed s | Some acc \<Rightarrow> \<not> fw_closed s \<and> in_progress (fw_assembler s) = acc) \<and>
     subseq (out @ asm_queue (fw_assembler s)) (fst ref) \<and>
     (length (fst ref) \<le> kMaxQueuedWebSocketMessages \<longrightarrow> out @ asm_queue (fw_assembler s) = fst ref)"

lemma HandleClosed_fields [simp]: "fw_closed (HandleClosed s)" "fw_assembler (HandleClosed s) = fw_assembler s"
  by (simp_all add: HandleClosed_def Let_def)

lemma HandleConnected_fields [simp]: "fw_closed (HandleConnected s) = fw_closed s" "fw_assembler (HandleConnected s) = fw_assembler s"
  by (simp_all add: HandleConnected_def)

lemma in_step_closed:
  assumes "in_step out ref s" "fw_assembler s' = fw_assembler s" "fw_closed s'"
  shows "in_step out (fst ref, None) s'"
  using assms by (simp add: in_step_def)

lemma in_step_data:
  assumes "in_step out (msgs, Some acc) s"
  shows "in_step out (message_step (EvData d) (msgs, Some acc)) (HandleData d s)"
proof (cases "IsApplicationDataOpcode (op_code d)")
  case True
  have s: "\<not> fw_closed s" "in_progress (fw_assembler s) = acc" "subseq (out @ asm_queue (fw_assembler s)) msgs"
    "length msgs \<le> kMaxQueuedWebSocketMessages \<Longrightarrow> out @ asm_queue (fw_assembler s) = msgs"
    using assms by (simp_all add: in_step_def)
  let ?q = "asm_queue (fw_assembler s)" and ?m = "acc @ ev_bytes d"
  have sub: "subseq (out @ push_bounded kMaxQueuedWebSocketMessages ?m ?q) (msgs @ [?m])"
  proof -
    have "subseq (push_bounded kMaxQueuedWebSocketMessages ?m ?q) (?q @ [?m])"
      unfolding push_bounded_def drop_front_while_eq by (intro suffix_imp_subseq suffix_drop)
    then have "subseq (out @ push_bounded kMaxQueuedWebSocketMessages ?m ?q) ((out @ ?q) @ [?m])"
      by (simp add: list_emb_append_mono)
    moreover have "subseq ((out @ ?q) @ [?m]) (msgs @ [?m])" using s(3) by (intro list_emb_append_mono) simp_all
    ultimately show ?thesis using subseq_order.order_trans by blast
  qed
  have all: "out @ push_bounded kMaxQueuedWebSocketMessages ?m ?q = msgs @ [?m]" if "length (msgs @ [?m]) \<le> kMaxQueuedWebSocketMessages"
  proof -
    have "out @ ?q = msgs" using s(4) that by simp
    moreover from this have "length ?q + length out = length msgs" by (metis length_append add.commute)
    ultimately show ?thesis using that by (simp add: push_bounded_room)
  qed
  show ?thesis using True s sub all
    by (auto simp: HandleData_def Assembler_Add_def Let_def in_step_def)
qed (use assms in \<open>simp add: HandleData_def\<close>)

lemma in_step_event:
  assumes "in_step out ref s"
  shows "in_step out (message_step e ref) (OnWebSocketEvent e s)"
proof (cases "\<exists>d acc. e = EvData d \<and> snd ref = Some acc")
  case True
  then show ?thesis using in_step_data assms by (cases ref) auto
next
  case False
  obtain msgs acc where r: "ref = (msgs, acc)" by fastforce
  show ?thesis
  proof (cases e)
    case (EvData d)
    then have "acc = None" using False r by auto
    then show ?thesis using assms EvData r by (simp add: in_step_def HandleData_def)
  qed (use assms r in \<open>auto simp: in_step_def split: option.splits\<close>)
qed

lemma in_step_events: "in_step out ref s \<Longrightarrow> in_step out (fold message_step es ref) (fold OnWebSocketEvent es s)"
  by (induction es arbitrary: ref s) (simp_all add: in_step_event)

lemma in_step_receive:
  assumes "in_step out ref s" "FirmwareWs_ReceiveText es s = (m, s1)"
  shows "in_step (out @ (case m of None \<Rightarrow> [] | Some x \<Rightarrow> [x])) (fold message_step es ref) s1"
  using in_step_events [OF assms(1), of es] assms(2)
  by (auto simp: FirmwareWs_ReceiveText_def Let_def HasMessage_def Assembler_Pop_def in_step_def
      split: if_splits list.splits option.splits)

lemma in_step_receive_all:
  assumes "in_step out ref s" "receive_all ess s = (ms, s1)"
  shows "in_step (out @ ms) (fold message_step (concat ess) ref) s1"
  using assms
proof (induction ess arbitrary: out ref s ms)
  case (Cons es ess)
  obtain m t ns where r: "FirmwareWs_ReceiveText es s = (m, t)" "receive_all ess t = (ns, s1)"
    "ms = (case m of None \<Rightarrow> [] | Some x \<Rightarrow> [x]) @ ns"
    using Cons.prems(2) by (auto simp: Let_def split: prod.splits)
  from Cons.IH [OF in_step_receive [OF Cons.prems(1) r(1)] r(2)] show ?case by (simp add: r(3))
qed simp

lemma Connect_fresh:
  assumes "FirmwareWs_Connect E s = (True, s1)"
  shows "in_step [] (fold message_step (connect_events E) ([], Some [])) s1"
proof -
  let ?s = "(FirmwareWs_Close s)\<lparr>fw_client := True, connect_pending := True, connect_succeeded := False, fw_closed := False\<rparr>"
  have "s1 = fold OnWebSocketEvent (connect_events E) ?s"
    using assms by (auto simp: FirmwareWs_Connect_def Let_def split: if_splits)
  moreover have "in_step [] ([], Some []) ?s" by (simp add: in_step_def FirmwareWs_Close_def Assembler_Clear_def)
  ultimately show ?thesis using in_step_events by simp
qed

text \<open>A failed connect leaves nothing behind that a reader could take for a message of a connection.\<close>

lemma Connect_failed:
  assumes "FirmwareWs_Connect E s = (False, s1)"
  shows "\<not> FirmwareWs_IsOpen s1 \<and> asm_queue (fw_assembler s1) = []"
  using assms by (auto simp: FirmwareWs_Connect_def FirmwareWs_IsOpen_def FirmwareWs_Close_def Assembler_Clear_def Let_def split: if_splits)

text \<open>
  C38: What the device's WebSocket client hands out are the messages of the current connection, whole and
  in order. However the library splits them into events, whatever control frames arrive in between, and
  however the events fall between the reader's calls: the messages received, followed by those still
  queued, are messages of the connection in their order, none of them a fragment, none from an earlier
  connection, none after the end of this one or after one that was too long. As long as no more than
  twenty have arrived none is missing, even after the connection has ended.
\<close>

theorem firmware_ws_delivers:
  assumes "FirmwareWs_Connect E s = (True, s1)" "receive_all ess s1 = (ms, s2)"
  defines "sent_by_peer \<equiv> messages_in (connect_events E @ concat ess)"
  shows "subseq (ms @ asm_queue (fw_assembler s2)) sent_by_peer \<and>
    (length sent_by_peer \<le> 20 \<longrightarrow> ms @ asm_queue (fw_assembler s2) = sent_by_peer)"
  using in_step_receive_all [OF Connect_fresh [OF assms(1)] assms(2)]
  by (simp add: in_step_def sent_by_peer_def messages_in_def kMaxQueuedWebSocketMessages_def)

definition sample_frame :: "u8 \<Rightarrow> bool \<Rightarrow> string \<Rightarrow> ws_event" where
  "sample_frame op fin bytes = EvData \<lparr>op_code = op, ev_fin = fin, payload_offset = 0, payload_len = int (length bytes), ev_bytes = bytes\<rparr>"

definition sample_connect :: ws_connect_env where
  "sample_connect = \<lparr>init_ok = True, register_ok = True, start_ok = True, connect_events = [EvConnected]\<rparr>"

definition stale_ws :: firmware_ws where
  "stale_ws = \<lparr>fw_client = True, connect_pending = False, connect_succeeded = True, fw_closed = True,
     fw_assembler = \<lparr>asm_queue = [''old''], in_progress = ''ha''\<rparr>\<rparr>"

lemmas sample_ws_defs =
  sample_connect_def stale_ws_def sample_frame_def FirmwareWs_Connect_def FirmwareWs_Close_def Assembler_Clear_def HandleConnected_def
  HandleClosed_def HandleData_def FirmwareWs_ReceiveText_def Assembler_Add_def Assembler_Pop_def HasMessage_def frame_complete_def
  IsApplicationDataOpcode_def kMaxWebSocketMessageBytes_def kMaxQueuedWebSocketMessages_def push_bounded_room

lemma firmware_ws_delivers_witness:
  "fst (receive_all [[sample_frame 1 False ''he'', sample_frame 10 True []], [sample_frame 0 True ''llo''], [EvClosed]]
     (snd (FirmwareWs_Connect sample_connect stale_ws))) = [''hello'']"
proof -
  let ?ess = "[[sample_frame 1 False ''he'', sample_frame 10 True []], [sample_frame 0 True ''llo''], [EvClosed]]"
  let ?s = "snd (FirmwareWs_Connect sample_connect stale_ws)"
  have c: "FirmwareWs_Connect sample_connect stale_ws = (True, ?s)" by (simp add: sample_ws_defs Let_def)
  obtain ms s2 where r: "receive_all ?ess ?s = (ms, s2)" by fastforce
  have q: "asm_queue (fw_assembler (snd (receive_all ?ess ?s))) = []" by (simp add: sample_ws_defs Let_def)
  have m: "messages_in (connect_events sample_connect @ concat ?ess) = [''hello'']"
    by (simp add: messages_in_def sample_ws_defs)
  from firmware_ws_delivers [OF c r] have "ms @ asm_queue (fw_assembler s2) = [''hello'']" unfolding m by simp
  with q r show ?thesis by simp
qed

end
