(* ===== verification/Ui_Grid.thy ===== *)
theory Ui_Grid
  imports Prelude
begin

text \<open>
  The dashboard's grid: \<^verbatim>\<open>ui/grid_occupancy.h\<close> (which cells are taken, first-fit placement, the row
  template) and \<^verbatim>\<open>DashboardGrid::AddWidget\<close> of \<^verbatim>\<open>ui/dashboard_grid.cpp\<close>. The number of columns is the
  template parameter \<open>C\<close>. Row and column indices are never negative in the source, so they are naturals;
  the spans a widget reports are any integers.
\<close>

section \<open>Occupancy\<close>

definition kMaxRowSpan :: int where "kMaxRowSpan = 100"

definition ClampSpan :: "nat \<Rightarrow> int \<Rightarrow> int \<Rightarrow> nat \<times> nat" where
  "ClampSpan C col_span row_span =
     (let c1 = (if col_span < 1 then 1 else col_span); c2 = (if int C < c1 then int C else c1);
          r1 = (if row_span < 1 then 1 else row_span); r2 = (if kMaxRowSpan < r1 then kMaxRowSpan else r1)
      in (nat c2, nat r2))"

type_synonym occupancy = "bool list list"

definition GridOccupancy_new :: "nat \<Rightarrow> occupancy" where
  "GridOccupancy_new C = [replicate C False]"

function EnsureRowExists :: "nat \<Rightarrow> occupancy \<Rightarrow> nat \<Rightarrow> occupancy" where
  "EnsureRowExists C occ row = (if length occ \<le> row then EnsureRowExists C (occ @ [replicate C False]) row else occ)"
  by pat_completeness auto
termination
  by (relation "measure (\<lambda>(C, occ, row). Suc row - length occ)") auto

declare EnsureRowExists.simps [simp del]

definition Fits :: "nat \<Rightarrow> occupancy \<Rightarrow> nat \<Rightarrow> nat \<Rightarrow> nat \<Rightarrow> nat \<Rightarrow> bool" where
  "Fits C occ row col col_span row_span \<longleftrightarrow>
     \<not> C < col + col_span \<and>
     list_all (\<lambda>r. length occ \<le> r \<or> list_all (\<lambda>c. \<not> occ ! r ! c) [col..<col + col_span]) [row..<row + row_span]"

definition MarkOccupied :: "nat \<Rightarrow> occupancy \<Rightarrow> nat \<Rightarrow> nat \<Rightarrow> nat \<Rightarrow> nat \<Rightarrow> occupancy" where
  "MarkOccupied C occ row col col_span row_span =
     fold (\<lambda>r g. g[r := fold (\<lambda>c b. b[c := True]) [col..<col + col_span] (g ! r)]) [row..<row + row_span]
       (EnsureRowExists C occ (row + row_span - 1))"

text \<open>The scan; \<^const>\<open>None\<close> is not returning.\<close>

partial_function (option) placement_scan :: "nat \<Rightarrow> occupancy \<Rightarrow> nat \<Rightarrow> nat \<Rightarrow> nat \<Rightarrow> nat \<Rightarrow> (nat \<times> nat) option" where
  "placement_scan C occ col_span row_span row col =
     (if Fits C occ row col col_span row_span then Some (row, col)
      else if C \<le> col + 1 then placement_scan C occ col_span row_span (row + 1) 0
      else placement_scan C occ col_span row_span row (col + 1))"

definition FindPlacement :: "nat \<Rightarrow> occupancy \<Rightarrow> int \<Rightarrow> int \<Rightarrow> (nat \<times> nat) option" where
  "FindPlacement C occ col_span row_span =
     (let (cs, rs) = ClampSpan C col_span row_span in placement_scan C occ cs rs 0 0)"

section \<open>The row template\<close>

function grow_loop :: "int list \<Rightarrow> nat \<Rightarrow> int \<Rightarrow> int \<Rightarrow> int list" where
  "grow_loop row_dsc row row_height terminator =
     (if length row_dsc - 1 \<le> row then grow_loop (row_dsc[length row_dsc - 1 := row_height] @ [terminator]) row row_height terminator
      else row_dsc)"
  by pat_completeness auto
termination
  by (relation "measure (\<lambda>(d, row, h, t). Suc (Suc row) - length d)") auto

declare grow_loop.simps [simp del]

definition GrowRowDescriptorArray :: "int list \<Rightarrow> nat \<Rightarrow> int \<Rightarrow> int \<Rightarrow> int list" where
  "GrowRowDescriptorArray row_dsc row row_height terminator =
     (if int row < int (length row_dsc) - 1 then row_dsc else grow_loop row_dsc row row_height terminator)"

section \<open>DashboardGrid\<close>

definition kColumns :: nat where "kColumns = 4"
definition kPanelWidth :: int where "kPanelWidth = 720"
definition kGridPadding :: int where "kGridPadding = 8"
definition kCellGap :: int where "kCellGap = 8"
definition kRowHeight :: int where
  "kRowHeight = (kPanelWidth - 2 * kGridPadding - (int kColumns - 1) * kCellGap) div int kColumns"

record tile =
  tile_row :: nat
  tile_col :: nat
  tile_col_span :: nat
  tile_row_span :: nat

record dashboard_grid =
  occupied :: occupancy
  row_dsc :: "int list"
  tiles :: "tile list"

definition DashboardGrid_new :: "int \<Rightarrow> dashboard_grid" where
  "DashboardGrid_new terminator = \<lparr>occupied = GridOccupancy_new kColumns, row_dsc = [kRowHeight, terminator], tiles = []\<rparr>"

definition AddWidget :: "int \<Rightarrow> int \<times> int \<Rightarrow> dashboard_grid \<Rightarrow> dashboard_grid option" where
  "AddWidget terminator widget d =
     (let (col_span, row_span) = ClampSpan kColumns (fst widget) (snd widget)
      in case FindPlacement kColumns (occupied d) (int col_span) (int row_span) of
           None \<Rightarrow> None
         | Some (row, col) \<Rightarrow>
             Some \<lparr>occupied = MarkOccupied kColumns (occupied d) row col col_span row_span,
                   row_dsc = GrowRowDescriptorArray (row_dsc d) (row + row_span - 1) kRowHeight terminator,
                   tiles = tiles d @ [\<lparr>tile_row = row, tile_col = col, tile_col_span = col_span, tile_row_span = row_span\<rparr>]\<rparr>)"

fun add_widgets :: "int \<Rightarrow> (int \<times> int) list \<Rightarrow> dashboard_grid \<Rightarrow> dashboard_grid option" where
  "add_widgets terminator [] d = Some d"
| "add_widgets terminator (w # ws) d = Option.bind (AddWidget terminator w d) (add_widgets terminator ws)"

section \<open>Rows and cells\<close>

definition grid_wf :: "nat \<Rightarrow> occupancy \<Rightarrow> bool" where
  "grid_wf C occ \<longleftrightarrow> occ \<noteq> [] \<and> list_all (\<lambda>b. length b = C) occ"

definition cell_taken :: "occupancy \<Rightarrow> nat \<Rightarrow> nat \<Rightarrow> bool" where
  "cell_taken occ r c \<longleftrightarrow> r < length occ \<and> occ ! r ! c"

definition in_span :: "nat \<Rightarrow> nat \<Rightarrow> nat \<Rightarrow> nat \<Rightarrow> nat \<Rightarrow> nat \<Rightarrow> bool" where
  "in_span row col col_span row_span r c \<longleftrightarrow> row \<le> r \<and> r < row + row_span \<and> col \<le> c \<and> c < col + col_span"

lemma ClampSpan_bounds:
  "0 < C \<Longrightarrow> ClampSpan C a b = (cs, rs) \<Longrightarrow> 1 \<le> cs \<and> cs \<le> C \<and> 1 \<le> rs \<and> rs \<le> 100"
  by (auto simp: ClampSpan_def Let_def kMaxRowSpan_def split: if_splits)

lemma ClampSpan_idem:
  "1 \<le> cs \<Longrightarrow> cs \<le> C \<Longrightarrow> 1 \<le> rs \<Longrightarrow> rs \<le> 100 \<Longrightarrow> ClampSpan C (int cs) (int rs) = (cs, rs)"
  by (simp add: ClampSpan_def Let_def kMaxRowSpan_def)

lemma EnsureRowExists_eq: "EnsureRowExists C occ row = occ @ replicate (Suc row - length occ) (replicate C False)"
proof (induction C occ row rule: EnsureRowExists.induct)
  case (1 C occ row)
  show ?case
  proof (cases "length occ \<le> row")
    case True
    then have "Suc row - length occ = Suc (row - length occ)" by simp
    then show ?thesis using True 1 by (subst EnsureRowExists.simps) simp
  qed (simp add: EnsureRowExists.simps)
qed

lemma fold_set_True:
  "fold (\<lambda>c b. b[c := True]) cs b = map (\<lambda>i. b ! i \<or> i \<in> set cs) [0..<length b]"
proof (induction cs arbitrary: b)
  case Nil
  then show ?case by (simp add: map_nth)
next
  case (Cons c cs)
  have "b[c := True] ! i \<longleftrightarrow> b ! i \<or> i = c" if "i < length b" for i
    using that by (cases "i = c") auto
  then show ?case using Cons by (auto intro!: nth_equalityI)
qed

lemma fold_rows:
  assumes "distinct rs" "\<And>r. r \<in> set rs \<Longrightarrow> r < length g"
  shows "fold (\<lambda>r g. g[r := f (g ! r)]) rs g = map (\<lambda>i. if i \<in> set rs then f (g ! i) else g ! i) [0..<length g]"
  using assms
proof (induction rs arbitrary: g)
  case Nil
  then show ?case by (simp add: map_nth)
next
  case (Cons r rs)
  then have "fold (\<lambda>r g. g[r := f (g ! r)]) rs (g[r := f (g ! r)]) =
      map (\<lambda>i. if i \<in> set rs then f (g[r := f (g ! r)] ! i) else g[r := f (g ! r)] ! i) [0..<length g]"
    by simp
  moreover have "g[r := f (g ! r)] ! i = (if i = r then f (g ! r) else g ! i)" for i
    using Cons.prems(2) [of r] by (simp add: nth_list_update)
  ultimately show ?case using Cons.prems(1) by (auto intro!: nth_equalityI)
qed

lemma MarkOccupied_spec:
  assumes "grid_wf C occ" "1 \<le> rs" "1 \<le> cs" "col + cs \<le> C"
  shows "grid_wf C (MarkOccupied C occ row col cs rs)"
    and "length (MarkOccupied C occ row col cs rs) = max (length occ) (row + rs)"
    and "c < C \<Longrightarrow> cell_taken (MarkOccupied C occ row col cs rs) r c \<longleftrightarrow> cell_taken occ r c \<or> in_span row col cs rs r c"
proof -
  define g where "g = EnsureRowExists C occ (row + rs - 1)"
  let ?f = "fold (\<lambda>c b. b[c := True]) [col..<col + cs]" and ?m = "MarkOccupied C occ row col cs rs"
  have len: "length g = max (length occ) (row + rs)" using assms(2) by (simp add: g_def EnsureRowExists_eq)
  have m: "?m = map (\<lambda>i. if i \<in> {row..<row + rs} then ?f (g ! i) else g ! i) [0..<length g]"
    unfolding MarkOccupied_def g_def [symmetric] by (subst fold_rows [where f = ?f]) (use assms(2) len in auto)
  have rows: "length (g ! i) = C" if "i < length g" for i
    using assms(1) that by (auto simp: g_def EnsureRowExists_eq grid_wf_def list_all_length nth_append)
  show l: "length ?m = max (length occ) (row + rs)" using len by (simp add: m)
  have "length occ \<noteq> 0" using assms(1) by (simp add: grid_wf_def)
  then have "?m \<noteq> []" using l by auto
  then show "grid_wf C ?m"
    unfolding grid_wf_def list_all_length by (auto simp: m rows fold_set_True)
  have old: "g ! i ! c \<longleftrightarrow> cell_taken occ i c" if "i < length g" "c < C" for i
    using that by (auto simp: g_def EnsureRowExists_eq nth_append cell_taken_def)
  show "cell_taken ?m r c \<longleftrightarrow> cell_taken occ r c \<or> in_span row col cs rs r c" if "c < C"
  proof (cases "r < length g")
    case True
    then have "cell_taken ?m r c \<longleftrightarrow> ?m ! r ! c" using len l by (simp add: cell_taken_def)
    also have "\<dots> \<longleftrightarrow> g ! r ! c \<or> in_span row col cs rs r c"
      using True that rows [of r] by (auto simp: m fold_set_True in_span_def)
    finally show ?thesis using old [OF True that] by simp
  next
    case False
    then show ?thesis using l len by (auto simp: cell_taken_def in_span_def not_less)
  qed
qed

lemma Fits_iff:
  assumes "grid_wf C occ"
  shows "Fits C occ row col cs rs \<longleftrightarrow> col + cs \<le> C \<and> (\<forall>r c. in_span row col cs rs r c \<longrightarrow> \<not> cell_taken occ r c)"
  unfolding Fits_def list_all_iff in_span_def cell_taken_def set_upt by (auto simp: not_less) (metis leD atLeastLessThan_iff)

lemma Fits_below: "cs \<le> C \<Longrightarrow> Fits C occ (length occ) 0 cs rs"
  by (simp add: Fits_def list_all_iff)

section \<open>First fit\<close>

definition before :: "nat \<Rightarrow> nat \<Rightarrow> nat \<Rightarrow> nat \<Rightarrow> bool" where
  "before r c row col \<longleftrightarrow> r < row \<or> r = row \<and> c < col"

lemma placement_scan_finds:
  assumes "0 < C" "cs \<le> C" "row < length occ \<and> col < C \<or> row = length occ \<and> col = 0"
  shows "\<exists>row' col'. placement_scan C occ cs rs row col = Some (row', col') \<and> Fits C occ row' col' cs rs \<and> row' \<le> length occ \<and>
    (\<forall>r c. c < C \<longrightarrow> \<not> before r c row col \<longrightarrow> before r c row' col' \<longrightarrow> \<not> Fits C occ r c cs rs)"
  using assms(3)
proof (induction "(length occ - row) * C + (C - col)" arbitrary: row col rule: less_induct)
  case less
  show ?case
  proof (cases "Fits C occ row col cs rs")
    case True
    then show ?thesis using less.prems by (subst placement_scan.simps) (auto simp: before_def)
  next
    case False
    then have here: "row < length occ" "col < C" using less.prems Fits_below [OF assms(2), of occ rs] by auto
    define nxt where "nxt = (if C \<le> col + 1 then (row + 1, 0) else (row, col + 1))"
    have step: "placement_scan C occ cs rs row col = placement_scan C occ cs rs (fst nxt) (snd nxt)"
      using False by (subst placement_scan.simps) (simp add: nxt_def)
    have "(length occ - fst nxt) * C + (C - snd nxt) < (length occ - row) * C + (C - col)"
    proof (cases "C \<le> col + 1")
      case True
      have "length occ - row = Suc (length occ - (row + 1))" using here by simp
      then show ?thesis using True here by (simp add: nxt_def)
    qed (use here in \<open>auto simp: nxt_def\<close>)
    moreover have "fst nxt < length occ \<and> snd nxt < C \<or> fst nxt = length occ \<and> snd nxt = 0"
      using here assms(1) by (auto simp: nxt_def)
    ultimately obtain row' col' where r: "placement_scan C occ cs rs (fst nxt) (snd nxt) = Some (row', col')" "Fits C occ row' col' cs rs"
      "row' \<le> length occ" "\<forall>r c. c < C \<longrightarrow> \<not> before r c (fst nxt) (snd nxt) \<longrightarrow> before r c row' col' \<longrightarrow> \<not> Fits C occ r c cs rs"
      using less.hyps [of "fst nxt" "snd nxt"] by blast
    have "\<not> before r c (fst nxt) (snd nxt) \<or> (r, c) = (row, col)" if "c < C" "\<not> before r c row col" for r c
      using that by (auto simp: before_def nxt_def split: if_splits)
    then show ?thesis using r step False by fastforce
  qed
qed

lemma FindPlacement_finds:
  assumes "0 < C" "ClampSpan C a b = (cs, rs)" "occ \<noteq> []"
  shows "\<exists>row col. FindPlacement C occ a b = Some (row, col) \<and> Fits C occ row col cs rs \<and> row \<le> length occ \<and>
    (\<forall>r c. c < C \<longrightarrow> before r c row col \<longrightarrow> \<not> Fits C occ r c cs rs)"
proof -
  have "cs \<le> C" using ClampSpan_bounds [OF assms(1,2)] by simp
  from placement_scan_finds [OF assms(1) this, of 0 occ 0 rs] assms show ?thesis
    by (auto simp: FindPlacement_def before_def)
qed

section \<open>The template\<close>

lemma grow_loop_eq:
  assumes "d \<noteq> []"
  shows "grow_loop d row h t = (if length d - 1 \<le> row then butlast d @ replicate (Suc (Suc row) - length d) h @ [t] else d)"
  using assms
proof (induction d row h t rule: grow_loop.induct)
  case (1 d row h t)
  obtain xs x where d: "d = xs @ [x]" using 1(2) by (cases d rule: rev_cases) auto
  show ?case
  proof (cases "length d - 1 \<le> row")
    case True
    have "grow_loop d row h t = grow_loop (xs @ [h, t]) row h t"
      using True d by (subst grow_loop.simps) simp
    also have "\<dots> = (if Suc (length xs) \<le> row then (xs @ [h]) @ replicate (row - length xs) h @ [t] else xs @ [h, t])"
      using 1(1) [OF True] d by (simp add: butlast_append)
    also have "\<dots> = xs @ replicate (Suc row - length xs) h @ [t]"
    proof (cases "Suc (length xs) \<le> row")
      case True
      then have "Suc row - length xs = Suc (row - length xs)" by simp
      then show ?thesis using True by simp
    next
      case False
      then have "row = length xs" using \<open>length d - 1 \<le> row\<close> d by simp
      then show ?thesis by simp
    qed
    finally show ?thesis using True d by simp
  qed (simp add: grow_loop.simps)
qed

section \<open>The dashboard\<close>

definition covers :: "tile \<Rightarrow> nat \<Rightarrow> nat \<Rightarrow> bool" where
  "covers t r c \<longleftrightarrow> in_span (tile_row t) (tile_col t) (tile_col_span t) (tile_row_span t) r c"

definition apart :: "tile \<Rightarrow> tile \<Rightarrow> bool" where
  "apart t u \<longleftrightarrow> (\<forall>r c. \<not> (covers t r c \<and> covers u r c))"

definition tile_ok :: "nat \<Rightarrow> tile \<Rightarrow> bool" where
  "tile_ok rows t \<longleftrightarrow>
     1 \<le> tile_col_span t \<and> tile_col t + tile_col_span t \<le> kColumns \<and> 1 \<le> tile_row_span t \<and> tile_row_span t \<le> 100 \<and>
     tile_row t + tile_row_span t \<le> rows"

definition grid_inv :: "int \<Rightarrow> dashboard_grid \<Rightarrow> bool" where
  "grid_inv terminator d \<longleftrightarrow>
     grid_wf kColumns (occupied d) \<and>
     row_dsc d = replicate (length (occupied d)) kRowHeight @ [terminator] \<and>
     list_all (tile_ok (length (occupied d))) (tiles d) \<and> sorted_wrt apart (tiles d) \<and>
     (\<forall>r c. c < kColumns \<longrightarrow> (cell_taken (occupied d) r c \<longleftrightarrow> (\<exists>t \<in> set (tiles d). covers t r c)))"

lemma GrowRowDescriptorArray_rows:
  "GrowRowDescriptorArray (replicate n h @ [t]) row h t = replicate (max n (Suc row)) h @ [t]"
proof (cases "row < n")
  case False
  then have "replicate n h @ replicate (Suc row - n) h = replicate (max n (Suc row)) h"
    by (simp add: replicate_add [symmetric] max_def)
  then show ?thesis using False by (simp add: GrowRowDescriptorArray_def grow_loop_eq)
qed (simp add: GrowRowDescriptorArray_def max_def)

lemma covers_columns: "tile_ok n t \<Longrightarrow> covers t r c \<Longrightarrow> c < kColumns"
  by (auto simp: covers_def in_span_def tile_ok_def)

lemma AddWidget_inv:
  assumes "grid_inv terminator d"
  shows "\<exists>d'. AddWidget terminator w d = Some d' \<and> grid_inv terminator d' \<and> length (tiles d') = Suc (length (tiles d))"
proof -
  obtain cs rs where cl: "ClampSpan kColumns (fst w) (snd w) = (cs, rs)" by fastforce
  have C: "0 < kColumns" by (simp add: kColumns_def)
  note b = ClampSpan_bounds [OF C cl]
  have wf: "grid_wf kColumns (occupied d)" and ne: "occupied d \<noteq> []" using assms by (auto simp: grid_inv_def grid_wf_def)
  obtain row col where f: "FindPlacement kColumns (occupied d) (int cs) (int rs) = Some (row, col)" "Fits kColumns (occupied d) row col cs rs"
    using FindPlacement_finds [OF C ClampSpan_idem ne, of cs rs] b by blast
  let ?t = "\<lparr>tile_row = row, tile_col = col, tile_col_span = cs, tile_row_span = rs\<rparr>"
  let ?occ = "MarkOccupied kColumns (occupied d) row col cs rs"
  let ?d = "\<lparr>occupied = ?occ, row_dsc = GrowRowDescriptorArray (row_dsc d) (row + rs - 1) kRowHeight terminator, tiles = tiles d @ [?t]\<rparr>"
  have fit: "col + cs \<le> kColumns" "\<And>r c. in_span row col cs rs r c \<Longrightarrow> \<not> cell_taken (occupied d) r c"
    using f(2) Fits_iff [OF wf] by auto
  have cs: "1 \<le> cs" and rs: "1 \<le> rs" using b by simp_all
  note m = MarkOccupied_spec [OF wf rs cs fit(1), where row = row]
  have new: "covers ?t r c \<longleftrightarrow> in_span row col cs rs r c" for r c by (simp add: covers_def)
  have ok: "list_all (tile_ok (length ?occ)) (tiles d @ [?t])"
    using assms b fit(1) m(2) by (auto simp: grid_inv_def tile_ok_def list_all_iff)
  have "apart u ?t" if "u \<in> set (tiles d)" for u
  proof -
    have "tile_ok (length (occupied d)) u" using assms that by (auto simp: grid_inv_def list_all_iff)
    then show ?thesis using assms that fit(2) covers_columns new unfolding apart_def grid_inv_def by blast
  qed
  then have ap: "sorted_wrt apart (tiles d @ [?t])" using assms by (simp add: grid_inv_def sorted_wrt_append)
  have taken: "cell_taken ?occ r c \<longleftrightarrow> (\<exists>t \<in> set (tiles d @ [?t]). covers t r c)" if "c < kColumns" for r c
    using m(3) [OF that, of r] assms that new by (auto simp: grid_inv_def)
  have dsc: "row_dsc ?d = replicate (length ?occ) kRowHeight @ [terminator]"
    using assms rs GrowRowDescriptorArray_rows [of "length (occupied d)" kRowHeight terminator "row + rs - 1"] m(2)
    by (simp add: grid_inv_def)
  have "grid_inv terminator ?d" using m(1) dsc ok ap taken unfolding grid_inv_def by simp
  then show ?thesis using f(1) cl by (simp add: AddWidget_def)
qed

lemma DashboardGrid_new_inv: "grid_inv terminator (DashboardGrid_new terminator)"
  by (auto simp: grid_inv_def DashboardGrid_new_def GridOccupancy_new_def grid_wf_def cell_taken_def)

text \<open>
  C24: Any widgets can be put on the dashboard, whatever footprints they claim (zero, negative, wider than
  the screen, absurdly tall): the placement scan always ends, no two tiles share a cell, every tile lies
  within the four columns and inside the rows the layout template declares, and the template stays one
  row height per row with its terminator last.
\<close>

theorem dashboard_places_every_widget:
  "\<exists>d. add_widgets terminator ws (DashboardGrid_new terminator) = Some d \<and> length (tiles d) = length ws \<and>
     sorted_wrt apart (tiles d) \<and>
     row_dsc d = replicate (length (occupied d)) 170 @ [terminator] \<and>
     list_all (\<lambda>t. tile_col t + tile_col_span t \<le> 4 \<and> tile_row t + tile_row_span t \<le> length (row_dsc d) - 1) (tiles d)"
proof -
  have "\<exists>d'. add_widgets terminator ws d = Some d' \<and> grid_inv terminator d' \<and> length (tiles d') = length (tiles d) + length ws"
    if "grid_inv terminator d" for d
    using that
  proof (induction ws arbitrary: d)
    case (Cons w ws)
    obtain d1 where "AddWidget terminator w d = Some d1" "grid_inv terminator d1" "length (tiles d1) = Suc (length (tiles d))"
      using AddWidget_inv [OF Cons.prems] by blast
    then show ?case using Cons.IH [of d1] by auto
  qed simp
  from this [OF DashboardGrid_new_inv] show ?thesis
    by (auto simp: grid_inv_def tile_ok_def list_all_iff kColumns_def kRowHeight_def kPanelWidth_def kGridPadding_def kCellGap_def
        DashboardGrid_new_def)
qed

text \<open>Placement is first fit: no earlier position, in reading order, would do.\<close>

lemma FindPlacement_first_fit:
  assumes "0 < C" "grid_wf C occ" "FindPlacement C occ a b = Some (row, col)" "ClampSpan C a b = (cs, rs)" "c < C" "before r c row col"
  shows "\<not> Fits C occ r c cs rs"
  using FindPlacement_finds [OF assms(1,4), of occ] assms by (auto simp: grid_wf_def)

end
