(* ===== verification/Ui_List.thy ===== *)
theory Ui_List
  imports Prelude
begin

text \<open>
  Long lists on the screen: the window arithmetic of \<^verbatim>\<open>ui/virtual_list_window.h\<close> and the recycled pool
  of row buttons of \<^verbatim>\<open>ui/virtual_list.cpp\<close>. The window is computed on integers (the source computes it in
  64 bits from 32-bit inputs), rows and slots are naturals. A button's position and the height of the list are
  32-bit products in the source and wrapped to 32 bits here (the overflow is undefined in C++; it needs more
  than 17 million rows). LVGL enters with the list's top edge and the height of the display.
\<close>

section \<open>The visible window\<close>

definition floor_div :: "int \<Rightarrow> int \<Rightarrow> int" where
  "floor_div a b = (if 0 \<le> a then a div b else - ((- a + b - 1) div b))"

record visible_rows =
  vr_first :: nat
  vr_count :: nat

definition ComputeVisibleRows :: "int \<Rightarrow> int \<Rightarrow> int \<Rightarrow> nat \<Rightarrow> nat \<Rightarrow> visible_rows" where
  "ComputeVisibleRows list_top view_height pitch total_rows overscan =
     (if total_rows = 0 \<or> pitch \<le> 0 \<or> view_height \<le> 0 then \<lparr>vr_first = 0, vr_count = 0\<rparr>
      else
        (let first_on_screen = floor_div (- list_top) pitch;
             last_on_screen = floor_div (view_height - 1 - list_top) pitch;
             last_row = int total_rows - 1;
             first = clamp (first_on_screen - int overscan) 0 last_row;
             last_one = clamp (last_on_screen + int overscan) 0 last_row
         in \<lparr>vr_first = nat first, vr_count = nat (last_one - first + 1)\<rparr>))"

text \<open>\<^verbatim>\<open>kNoRow\<close> is \<^const>\<open>None\<close>.\<close>

definition RowForSlot :: "nat \<Rightarrow> nat \<Rightarrow> visible_rows \<Rightarrow> nat option" where
  "RowForSlot slot pool_size window =
     (if pool_size = 0 \<or> pool_size \<le> slot \<or> vr_count window = 0 then None
      else
        (let offset = (slot + pool_size - vr_first window mod pool_size) mod pool_size
         in if offset < vr_count window then Some (vr_first window + offset) else None))"

definition MaxVisibleRows :: "int \<Rightarrow> int \<Rightarrow> nat \<Rightarrow> nat" where
  "MaxVisibleRows view_height pitch overscan =
     (if pitch \<le> 0 \<or> view_height \<le> 0 then 0 else nat ((view_height + pitch - 1) div pitch) + 2 + 2 * overscan)"

lemma floor_div_eq: "0 < b \<Longrightarrow> floor_div a b = a div b"
proof (cases "0 \<le> a")
  case False
  assume b: "0 < b"
  have "(- a + b - 1) div b = - (a div b)"
  proof (rule int_div_pos_eq [where r = "b - 1 - a mod b"])
    show "- a + b - 1 = b * - (a div b) + (b - 1 - a mod b)" using mult_div_mod_eq [of b a] by (simp add: algebra_simps)
  qed (use b pos_mod_bound [OF b, of a] pos_mod_sign [OF b, of a] in linarith)+
  then show ?thesis using False by (simp add: floor_div_def)
qed (simp add: floor_div_def)

definition window_rows :: "visible_rows \<Rightarrow> nat set" where
  "window_rows v = {vr_first v..<vr_first v + vr_count v}"

text \<open>A row is on screen when some of its \<open>pitch\<close> pixel lines are.\<close>

definition on_screen :: "int \<Rightarrow> int \<Rightarrow> int \<Rightarrow> nat \<Rightarrow> bool" where
  "on_screen list_top view_height pitch r \<longleftrightarrow>
     list_top + int r * pitch < view_height \<and> 0 < list_top + (int r + 1) * pitch"

lemma le_div_iff: "0 < (b :: int) \<Longrightarrow> k \<le> a div b \<longleftrightarrow> k * b \<le> a"
proof -
  assume b: "0 < b"
  have "(a + - k * b) div b = - k + a div b" using b by (intro div_mult_self1) simp
  then show ?thesis using pos_imp_zdiv_nonneg_iff [OF b, of "a + - k * b"] by linarith
qed

lemma on_screen_div:
  assumes "0 < pitch"
  shows "on_screen list_top view_height pitch r \<longleftrightarrow> - list_top div pitch \<le> int r \<and> int r \<le> (view_height - 1 - list_top) div pitch"
proof -
  have "- list_top div pitch \<le> int r \<longleftrightarrow> \<not> int r + 1 \<le> - list_top div pitch" by linarith
  then show ?thesis using le_div_iff [OF assms] by (auto simp: on_screen_def)
qed

lemma ComputeVisibleRows_window:
  assumes "0 < total_rows" "0 < pitch" "0 < view_height"
  shows "r \<in> window_rows (ComputeVisibleRows list_top view_height pitch total_rows overscan) \<longleftrightarrow>
    clamp (- list_top div pitch - int overscan) 0 (int total_rows - 1) \<le> int r \<and>
    int r \<le> clamp ((view_height - 1 - list_top) div pitch + int overscan) 0 (int total_rows - 1)"
proof -
  have "- list_top div pitch \<le> (view_height - 1 - list_top) div pitch" using assms by (intro zdiv_mono1) auto
  then have "clamp (- list_top div pitch - int overscan) 0 (int total_rows - 1) \<le>
      clamp ((view_height - 1 - list_top) div pitch + int overscan) 0 (int total_rows - 1)"
    using assms(1) by (auto simp: clamp_def)
  moreover have "0 \<le> clamp (- list_top div pitch - int overscan) 0 (int total_rows - 1)"
    using assms(1) by (auto simp: clamp_def)
  ultimately show ?thesis
    using assms by (auto simp: ComputeVisibleRows_def window_rows_def Let_def floor_div_eq)
qed

lemma ComputeVisibleRows_range:
  "vr_first (ComputeVisibleRows t h p n v) + vr_count (ComputeVisibleRows t h p n v) \<le> n"
  by (auto simp: ComputeVisibleRows_def Let_def clamp_def)

lemma ComputeVisibleRows_count:
  "vr_count (ComputeVisibleRows t h p n v) \<le> MaxVisibleRows h p v"
proof (cases "n = 0 \<or> p \<le> 0 \<or> h \<le> 0")
  case False
  then have p: "0 < p" and h: "0 < h" and n: "0 < n" by auto
  have "(h - 1 - t) div p \<le> - t div p + (h + p - 1) div p"
  proof -
    have "\<not> - t div p + (h + p - 1) div p + 1 \<le> (h - 1 - t) div p"
    proof
      assume "- t div p + (h + p - 1) div p + 1 \<le> (h - 1 - t) div p"
      then have "(- t div p + (h + p - 1) div p + 1) * p \<le> h - 1 - t" using le_div_iff [OF p] by blast
      moreover have "- t < (- t div p + 1) * p" using le_div_iff [OF p, of "- t div p + 1" "- t"] by linarith
      moreover have "h + p - 1 < ((h + p - 1) div p + 1) * p" using le_div_iff [OF p, of "(h + p - 1) div p + 1" "h + p - 1"] by linarith
      ultimately show False by (simp add: algebra_simps)
    qed
    then show ?thesis by linarith
  qed
  moreover have "0 \<le> (h + p - 1) div p" using p h by (simp add: pos_imp_zdiv_nonneg_iff)
  ultimately show ?thesis
    using p h n by (auto simp: ComputeVisibleRows_def MaxVisibleRows_def Let_def floor_div_eq clamp_def nat_le_iff)
qed (auto simp: ComputeVisibleRows_def MaxVisibleRows_def)

text \<open>Slots and rows of a window that fits the pool correspond one to one.\<close>

lemma RowForSlot_row:
  assumes "RowForSlot slot n v = Some r"
  shows "slot < n \<and> r \<in> window_rows v \<and> r mod n = slot"
proof -
  let ?o = "(slot + n - vr_first v mod n) mod n"
  have s: "slot < n" "?o < vr_count v" "r = vr_first v + ?o"
    using assms by (auto simp: RowForSlot_def Let_def split: if_splits)
  have f: "vr_first v mod n < n" using s by simp
  have "r mod n = (vr_first v mod n + (slot + n - vr_first v mod n)) mod n" unfolding s(3) by (simp add: mod_simps)
  also have "\<dots> = (slot + n) mod n" using f by simp
  finally show ?thesis using s by (simp add: window_rows_def)
qed

lemma RowForSlot_onto:
  assumes "r \<in> window_rows v" "vr_count v \<le> n"
  shows "r mod n < n \<and> RowForSlot (r mod n) n v = Some r"
proof -
  obtain k where k: "r = vr_first v + k" "k < vr_count v"
    using assms(1) by (auto simp: window_rows_def le_iff_add)
  have n: "0 < n" using k assms(2) by simp
  have f: "vr_first v mod n < n" using n by simp
  have r: "r mod n = (vr_first v mod n + k) mod n" unfolding k(1) by (simp add: mod_simps)
  have "(r mod n + n - vr_first v mod n) mod n = k"
  proof (cases "vr_first v mod n + k < n")
    case True
    then show ?thesis using r k(2) assms(2) by simp
  next
    case False
    then have "r mod n = vr_first v mod n + k - n" using r f k(2) assms(2) by (simp add: mod_if [of "vr_first v mod n + k"])
    then show ?thesis using False k(2) assms(2) by simp
  qed
  moreover have "r mod n < n" using n by simp
  ultimately show ?thesis using k n by (simp add: RowForSlot_def Let_def not_le)
qed

section \<open>The pool of buttons (virtual_list.cpp)\<close>

definition kRemoteButtonHeight :: int where "kRemoteButtonHeight = 110"
definition kRowGap :: int where "kRowGap = 12"
definition kRowPitch :: int where "kRowPitch = kRemoteButtonHeight + kRowGap"
definition kOverscan :: nat where "kOverscan = 2"

record row_button =
  rb_label :: string
  rb_pos :: int
  rb_row :: nat
  rb_hidden :: bool

record virtual_list =
  vl_count :: nat
  vl_label_at :: "(nat \<Rightarrow> string) option"
  vl_pool :: "row_button list"
  vl_slot_row :: "nat option list"
  vl_height :: int
  vl_list_hidden :: bool
  vl_empty_hidden :: bool
  vl_loading_hidden :: bool
  vl_note :: "string option"

definition VirtualList_new :: virtual_list where
  "VirtualList_new =
     \<lparr>vl_count = 0, vl_label_at = None, vl_pool = [], vl_slot_row = [], vl_height = 0, vl_list_hidden = True,
      vl_empty_hidden = True, vl_loading_hidden = False, vl_note = None\<rparr>"

definition EnsurePool :: "int \<Rightarrow> virtual_list \<Rightarrow> virtual_list" where
  "EnsurePool view_height l =
     (let wanted = min (vl_count l) (MaxVisibleRows view_height kRowPitch kOverscan);
          pool = vl_pool l @ replicate (wanted - length (vl_pool l)) \<lparr>rb_label = [], rb_pos = 0, rb_row = 0, rb_hidden = True\<rparr>
      in l\<lparr>vl_pool := pool, vl_slot_row := replicate (length pool) None\<rparr>)"

text \<open>\<open>list_top\<close> is where the layout puts the list, or 0 for a list inside a hidden container.\<close>

definition rebind_rows :: "int \<Rightarrow> int \<Rightarrow> virtual_list \<Rightarrow> visible_rows" where
  "rebind_rows list_top view_height l =
     (if vl_count l \<noteq> 0 \<and> min (length (vl_pool l)) (vl_count l) \<noteq> 0
      then ComputeVisibleRows list_top view_height kRowPitch (vl_count l) kOverscan
      else \<lparr>vr_first = 0, vr_count = 0\<rparr>)"

text \<open>\<^verbatim>\<open>static_cast<int32_t>(row) * kRowPitch\<close>, and the height of the box for a row count.\<close>

definition row_position :: "nat \<Rightarrow> int" where
  "row_position row = to_int32 (to_int32 (int row) * kRowPitch)"

definition list_height :: "nat \<Rightarrow> int" where
  "list_height count = (if count = 0 then 0 else to_int32 (to_int32 (to_int32 (int count) * kRowPitch) - kRowGap))"

lemma row_position_exact: "int row * 122 < 2 ^ 31 \<Longrightarrow> row_position row = int row * 122"
  by (simp add: row_position_def kRowPitch_def kRemoteButtonHeight_def kRowGap_def)

definition rebind_slot :: "visible_rows \<Rightarrow> bool \<Rightarrow> virtual_list \<Rightarrow> nat \<Rightarrow> row_button \<times> nat option" where
  "rebind_slot rows force l slot =
     (let b = vl_pool l ! slot
      in if vr_count rows = 0 then (b\<lparr>rb_hidden := True\<rparr>, None)
         else case RowForSlot slot (min (length (vl_pool l)) (vl_count l)) rows of
                None \<Rightarrow> (b\<lparr>rb_hidden := True\<rparr>, None)
              | Some row \<Rightarrow>
                  (if force \<or> vl_slot_row l ! slot \<noteq> Some row
                   then (\<lparr>rb_label = (case vl_label_at l of None \<Rightarrow> [] | Some f \<Rightarrow> f row), rb_pos = row_position row,
                          rb_row = row, rb_hidden = False\<rparr>, Some row)
                   else (b\<lparr>rb_hidden := False\<rparr>, vl_slot_row l ! slot)))"

definition Rebind :: "int \<Rightarrow> int \<Rightarrow> bool \<Rightarrow> virtual_list \<Rightarrow> virtual_list" where
  "Rebind list_top view_height force l =
     (let slots = map (rebind_slot (rebind_rows list_top view_height l) force l) [0..<length (vl_pool l)]
      in l\<lparr>vl_pool := map fst slots, vl_slot_row := map snd slots\<rparr>)"

definition SetItems :: "int \<Rightarrow> int \<Rightarrow> nat \<Rightarrow> (nat \<Rightarrow> string) \<Rightarrow> virtual_list \<Rightarrow> virtual_list" where
  "SetItems list_top view_height count label_at l =
     Rebind list_top view_height True
       (EnsurePool view_height
         (l\<lparr>vl_count := count, vl_label_at := Some label_at, vl_note := None, vl_loading_hidden := True,
            vl_empty_hidden := (count \<noteq> 0), vl_list_hidden := (count = 0),
            vl_height := list_height count\<rparr>))"

definition SetTruncated :: "bool \<Rightarrow> virtual_list \<Rightarrow> virtual_list" where
  "SetTruncated truncated l =
     (if truncated
      then l\<lparr>vl_note := Some (if vl_count l \<noteq> 0 then ''Only the first '' @ to_string (int (vl_count l)) @ '' items are shown.''
                              else ''Kodi took too long to list this.''),
             vl_empty_hidden := True\<rparr>
      else l\<lparr>vl_note := None\<rparr>)"

definition VirtualList_Clear :: "int \<Rightarrow> int \<Rightarrow> virtual_list \<Rightarrow> virtual_list" where
  "VirtualList_Clear list_top view_height l =
     Rebind list_top view_height True
       (l\<lparr>vl_count := 0, vl_note := None, vl_label_at := None, vl_loading_hidden := False, vl_empty_hidden := True,
          vl_list_hidden := True, vl_height := 0\<rparr>)"

definition Refresh :: "int \<Rightarrow> int \<Rightarrow> virtual_list \<Rightarrow> virtual_list" where
  "Refresh list_top view_height l = Rebind list_top view_height False l"

text \<open>The row a tap on a slot's button selects. The selection handler is set and cleared with the labels.\<close>

definition OnRowClicked :: "nat \<Rightarrow> virtual_list \<Rightarrow> nat option" where
  "OnRowClicked slot l =
     (let row = rb_row (vl_pool l ! slot) in if vl_label_at l \<noteq> None \<and> row < vl_count l then Some row else None)"

datatype list_op = LSet nat "nat \<Rightarrow> string" | LTruncated bool | LClear | LRefresh

fun list_step :: "int \<Rightarrow> list_op \<times> int \<Rightarrow> virtual_list \<Rightarrow> virtual_list" where
  "list_step view_height (LSet n f, list_top) l = SetItems list_top view_height n f l"
| "list_step view_height (LTruncated b, list_top) l = SetTruncated b l"
| "list_step view_height (LClear, list_top) l = VirtualList_Clear list_top view_height l"
| "list_step view_height (LRefresh, list_top) l = Refresh list_top view_height l"

section \<open>What is on screen\<close>

definition list_inv :: "int \<Rightarrow> virtual_list \<Rightarrow> bool" where
  "list_inv view_height l \<longleftrightarrow>
     length (vl_slot_row l) = length (vl_pool l) \<and>
     min (vl_count l) (MaxVisibleRows view_height kRowPitch kOverscan) \<le> length (vl_pool l) \<and>
     (vl_count l \<noteq> 0 \<longrightarrow> vl_label_at l \<noteq> None) \<and>
     (\<forall>slot r. slot < length (vl_pool l) \<longrightarrow> vl_slot_row l ! slot = Some r \<longrightarrow>
        r < vl_count l \<and> rb_label (vl_pool l ! slot) = the (vl_label_at l) r \<and> rb_pos (vl_pool l ! slot) = row_position r \<and>
        rb_row (vl_pool l ! slot) = r)"

definition shown_rows :: "virtual_list \<Rightarrow> (nat \<times> string \<times> int) list" where
  "shown_rows l = map (\<lambda>b. (rb_row b, rb_label b, rb_pos b)) (filter (\<lambda>b. \<not> rb_hidden b) (vl_pool l))"

definition slot_row_of :: "int \<Rightarrow> int \<Rightarrow> virtual_list \<Rightarrow> nat \<Rightarrow> nat option" where
  "slot_row_of list_top view_height l slot =
     RowForSlot slot (min (length (vl_pool l)) (vl_count l)) (rebind_rows list_top view_height l)"

lemma rebind_slot_spec:
  assumes "list_inv view_height l" "slot < length (vl_pool l)"
  shows "case slot_row_of list_top view_height l slot of
    None \<Rightarrow> rb_hidden (fst (rebind_slot (rebind_rows list_top view_height l) force l slot)) \<and>
            snd (rebind_slot (rebind_rows list_top view_height l) force l slot) = None
  | Some r \<Rightarrow> r < vl_count l \<and>
      rebind_slot (rebind_rows list_top view_height l) force l slot =
        (\<lparr>rb_label = the (vl_label_at l) r, rb_pos = row_position r, rb_row = r, rb_hidden = False\<rparr>, Some r)"
proof (cases "slot_row_of list_top view_height l slot")
  case None
  then show ?thesis by (auto simp: rebind_slot_def slot_row_of_def Let_def)
next
  case (Some r)
  let ?rows = "rebind_rows list_top view_height l"
  have r: "r \<in> window_rows ?rows" and ne: "vr_count ?rows \<noteq> 0" "vl_count l \<noteq> 0"
    using RowForSlot_row [OF Some [unfolded slot_row_of_def]] by (auto simp: window_rows_def rebind_rows_def split: if_splits)
  have "r < vl_count l"
    using r ComputeVisibleRows_range [of list_top view_height kRowPitch "vl_count l" kOverscan]
    by (auto simp: window_rows_def rebind_rows_def split: if_splits)
  moreover obtain f where "vl_label_at l = Some f" using assms(1) ne by (auto simp: list_inv_def)
  ultimately show ?thesis
    using assms Some ne by (auto simp: rebind_slot_def slot_row_of_def Let_def list_inv_def)
qed

lemma Rebind_inv:
  assumes "list_inv view_height l"
  shows "list_inv view_height (Rebind list_top view_height force l)"
proof -
  have "r < vl_count l \<and> rb_label b = the (vl_label_at l) r \<and> rb_pos b = row_position r \<and> rb_row b = r"
    if "slot < length (vl_pool l)" "rebind_slot (rebind_rows list_top view_height l) force l slot = (b, Some r)" for slot b r
    using rebind_slot_spec [OF assms that(1), of list_top force] that(2) by (auto split: option.splits)
  then show ?thesis
    using assms by (auto simp: list_inv_def Rebind_def Let_def) (metis prod.collapse)+
qed

lemma shown_rows_Rebind:
  assumes "list_inv view_height l"
  shows "shown_rows (Rebind list_top view_height force l) =
    map (\<lambda>r. (r, the (vl_label_at l) r, row_position r))
      (List.map_filter (slot_row_of list_top view_height l) [0..<length (vl_pool l)])"
proof -
  let ?f = "rebind_slot (rebind_rows list_top view_height l) force l" and ?g = "slot_row_of list_top view_height l"
  have "map (\<lambda>b. (rb_row b, rb_label b, rb_pos b)) (filter (\<lambda>b. \<not> rb_hidden b) (map (fst \<circ> ?f) slots)) =
      map (\<lambda>r. (r, the (vl_label_at l) r, row_position r)) (List.map_filter ?g slots)"
    if "set slots \<subseteq> {0..<length (vl_pool l)}" for slots
    using that
  proof (induction slots)
    case (Cons slot slots)
    then show ?case using rebind_slot_spec [OF assms, of slot list_top force]
      by (cases "?g slot") (auto simp: map_filter_simps)
  qed (simp add: map_filter_simps)
  from this [of "[0..<length (vl_pool l)]"] show ?thesis by (simp add: shown_rows_def Rebind_def Let_def)
qed

lemma rebind_rows_eq:
  assumes "list_inv view_height l" "0 < view_height"
  shows "rebind_rows list_top view_height l = ComputeVisibleRows list_top view_height kRowPitch (vl_count l) kOverscan"
    and "vr_count (rebind_rows list_top view_height l) \<le> min (length (vl_pool l)) (vl_count l)"
proof -
  have "MaxVisibleRows view_height kRowPitch kOverscan \<noteq> 0"
    using assms(2) by (simp add: MaxVisibleRows_def kRowPitch_def kRemoteButtonHeight_def kRowGap_def)
  then have "min (length (vl_pool l)) (vl_count l) \<noteq> 0" if "vl_count l \<noteq> 0"
    using assms(1) that by (auto simp: list_inv_def)
  then show eq: "rebind_rows list_top view_height l = ComputeVisibleRows list_top view_height kRowPitch (vl_count l) kOverscan"
    by (auto simp: rebind_rows_def ComputeVisibleRows_def)
  show "vr_count (rebind_rows list_top view_height l) \<le> min (length (vl_pool l)) (vl_count l)"
    using assms(1) ComputeVisibleRows_count [of list_top view_height kRowPitch "vl_count l" kOverscan]
      ComputeVisibleRows_range [of list_top view_height kRowPitch "vl_count l" kOverscan]
    unfolding eq by (auto simp: list_inv_def)
qed

lemma slot_rows_window:
  assumes "list_inv view_height l" "0 < view_height"
  shows "set (List.map_filter (slot_row_of list_top view_height l) [0..<length (vl_pool l)]) =
      window_rows (ComputeVisibleRows list_top view_height kRowPitch (vl_count l) kOverscan)"
    and "distinct (List.map_filter (slot_row_of list_top view_height l) [0..<length (vl_pool l)])"
proof -
  let ?g = "slot_row_of list_top view_height l" and ?n = "min (length (vl_pool l)) (vl_count l)"
  note rows = rebind_rows_eq [OF assms, of list_top]
  have "(\<exists>slot < length (vl_pool l). ?g slot = Some r) \<longleftrightarrow> r \<in> window_rows (rebind_rows list_top view_height l)" for r
    using RowForSlot_row [of _ ?n "rebind_rows list_top view_height l" r] RowForSlot_onto [OF _ rows(2), of r]
    unfolding slot_row_of_def by (metis min_less_iff_conj)
  then show "set (List.map_filter ?g [0..<length (vl_pool l)]) =
      window_rows (ComputeVisibleRows list_top view_height kRowPitch (vl_count l) kOverscan)"
    unfolding rows(1) by (auto simp: List.map_filter_def image_iff) force+
  show "distinct (List.map_filter ?g [0..<length (vl_pool l)])"
    unfolding List.map_filter_def distinct_map
    by (auto simp: slot_row_of_def intro!: inj_onI) (metis RowForSlot_row)
qed

lemma SetItems_inv: "list_inv h (SetItems t h n f l)"
  unfolding SetItems_def by (rule Rebind_inv) (auto simp: list_inv_def EnsurePool_def Let_def)

lemma Clear_inv: "length (vl_slot_row l) = length (vl_pool l) \<Longrightarrow> list_inv h (VirtualList_Clear t h l)"
  by (auto simp: VirtualList_Clear_def Rebind_def list_inv_def rebind_slot_def rebind_rows_def Let_def)

lemma list_step_inv: "list_inv h l \<Longrightarrow> list_inv h (list_step h op l)"
  by (cases op; cases "fst op") (auto simp: SetItems_inv Refresh_def Rebind_inv SetTruncated_def intro!: Clear_inv, auto simp: list_inv_def)

lemma list_steps_inv: "list_inv h l \<Longrightarrow> list_inv h (fold (list_step h) ops l)"
  by (induction ops arbitrary: l) (auto intro: list_step_inv)

lemma VirtualList_new_inv: "list_inv h VirtualList_new"
  by (simp add: list_inv_def VirtualList_new_def)

lemma Rebind_fields [simp]:
  "vl_count (Rebind t h force l) = vl_count l" "vl_label_at (Rebind t h force l) = vl_label_at l"
  by (simp_all add: Rebind_def Let_def)

lemma window_covers_screen:
  assumes "r < n" "0 < p" "0 < h" "on_screen t h p r"
  shows "r \<in> window_rows (ComputeVisibleRows t h p n v)"
  using assms on_screen_div [OF assms(2), of t h r] by (auto simp: ComputeVisibleRows_window clamp_def)

text \<open>
  C25: A list of any length shows the right rows with a bounded number of buttons. After any history of
  filling, clearing and scrolling, once the list has been scrolled to \<open>list_top\<close>, the buttons shown are,
  one each, the rows of the computed window with their own text; every row any part of which is on screen is
  among them; and they never number more than fit the display plus the margins, however long the list
  is. Each stands at its own place, 122 pixels per row, as long as its pixel position fits the 32 bits it is
  computed in, that is for rows below 17.6 million.
  (The display has a positive height.)
\<close>

theorem list_shows_the_window:
  assumes "0 < h"
  shows "let l = Refresh list_top h (fold (list_step h) ops VirtualList_new); n = vl_count l in
    set (shown_rows l) = (\<lambda>r. (r, the (vl_label_at l) r, row_position r)) ` window_rows (ComputeVisibleRows list_top h 122 n 2) \<and>
    distinct (map fst (shown_rows l)) \<and>
    {r. r < n \<and> on_screen list_top h 122 r} \<subseteq> fst ` set (shown_rows l) \<and>
    length (shown_rows l) \<le> nat ((h + 121) div 122) + 6 \<and>
    (\<forall>r. int r * 122 < 2 ^ 31 \<longrightarrow> row_position r = int r * 122)"
proof -
  let ?l = "fold (list_step h) ops VirtualList_new"
  have inv: "list_inv h ?l" by (rule list_steps_inv [OF VirtualList_new_inv])
  have k: "kRowPitch = 122" "kOverscan = 2" by (simp_all add: kRowPitch_def kRemoteButtonHeight_def kRowGap_def kOverscan_def)
  let ?l' = "Refresh list_top h ?l" and ?rs = "List.map_filter (slot_row_of list_top h ?l) [0..<length (vl_pool ?l)]"
  let ?w = "ComputeVisibleRows list_top h 122 (vl_count ?l) 2"
  have s: "shown_rows ?l' = map (\<lambda>r. (r, the (vl_label_at ?l') r, row_position r)) ?rs"
    unfolding Refresh_def using shown_rows_Rebind [OF inv, of list_top False] by simp
  note w = slot_rows_window [OF inv assms, of list_top, unfolded k]
  have n: "vl_count ?l' = vl_count ?l" by (simp add: Refresh_def)
  have "length ?rs = card (window_rows ?w)" using w distinct_card by metis
  also have "\<dots> \<le> nat ((h + 121) div 122) + 6"
    using ComputeVisibleRows_count [of list_top h 122 "vl_count ?l" 2] assms by (simp add: window_rows_def MaxVisibleRows_def)
  finally have D: "length (shown_rows ?l') \<le> nat ((h + 121) div 122) + 6" by (simp add: s)
  have A: "set (shown_rows ?l') = (\<lambda>r. (r, the (vl_label_at ?l') r, row_position r)) ` window_rows ?w"
    using w(1) by (simp add: s)
  then have "fst ` set (shown_rows ?l') = window_rows ?w" by (simp add: image_image)
  then have C: "{r. r < vl_count ?l \<and> on_screen list_top h 122 r} \<subseteq> fst ` set (shown_rows ?l')"
    using window_covers_screen [of _ "vl_count ?l" 122 h list_top] assms by auto
  have B: "distinct (map fst (shown_rows ?l'))" using w(2) by (simp add: s comp_def)
  show ?thesis unfolding Let_def n by (intro conjI A B C D allI impI row_position_exact)
qed

theorem list_shows_the_window_witness:
  "{r. r < 500 \<and> on_screen (- 1220) 1280 122 r} \<subseteq>
     fst ` set (shown_rows (Refresh (- 1220) 1280 (fold (list_step 1280) [(LSet 500 (\<lambda>r. to_string (int r)), 0)] VirtualList_new)))"
proof -
  have c: "vl_count (Refresh (- 1220) 1280 (fold (list_step 1280) [(LSet 500 (\<lambda>r. to_string (int r)), 0)] VirtualList_new)) = 500"
    by (simp add: Refresh_def SetItems_def EnsurePool_def Let_def)
  have "0 < (1280 :: int)" by simp
  from list_shows_the_window [OF this, of "- 1220" "[(LSet 500 (\<lambda>r. to_string (int r)), 0)]"] show ?thesis
    unfolding Let_def c by (elim conjE)
qed

text \<open>A tap on a button that is shown selects the row it shows.\<close>

lemma OnRowClicked_shown:
  assumes "list_inv h l" "slot < length (vl_pool l)" "slot_row_of t h l slot = Some r"
  shows "OnRowClicked slot (Rebind t h force l) = Some r"
  using rebind_slot_spec [OF assms(1,2), of t force] assms
  by (auto simp: OnRowClicked_def Rebind_def Let_def list_inv_def)

end
