(* ===== verification/Ui_Navigation.thy ===== *)
theory Ui_Navigation
  imports Net
begin

text \<open>
  What every screen shares: the route ids (\<^verbatim>\<open>ui/routes.h\<close>), the registry of screens (\<^verbatim>\<open>ui/navigation.cpp\<close>) with
  the home button of \<^verbatim>\<open>ui/home_affordance.cpp\<close>, and the queue that carries closures of other tasks to the UI
  task (\<^verbatim>\<open>ui/ui_dispatch.cpp\<close>). A screen is a number.
\<close>

section \<open>Routes\<close>

definition kDashboard :: string where "kDashboard = ''dashboard''"
definition kWifiSetup :: string where "kWifiSetup = ''wifi-setup''"
definition kHarmonyActivities :: string where "kHarmonyActivities = ''harmony-activities''"
definition kHarmonyDevices :: string where "kHarmonyDevices = ''harmony-devices''"
definition kKodiNowPlaying :: string where "kKodiNowPlaying = ''kodi-now-playing''"
definition kKodiRemote :: string where "kKodiRemote = ''kodi-remote''"
definition kKodiMovies :: string where "kKodiMovies = ''kodi-movies''"
definition kKodiTvShows :: string where "kKodiTvShows = ''kodi-tv-shows''"
definition kKodiMusic :: string where "kKodiMusic = ''kodi-music''"
definition kKodiFiles :: string where "kKodiFiles = ''kodi-files''"
definition kKodiLiveTv :: string where "kKodiLiveTv = ''kodi-live-tv''"

section \<open>Navigation\<close>

record navigation =
  nav_home_route :: string
  nav_screens :: "string \<rightharpoonup> nat"
  nav_active :: nat

definition Navigation_Register :: "string \<Rightarrow> nat \<Rightarrow> navigation \<Rightarrow> navigation" where
  "Navigation_Register route screen n = n\<lparr>nav_screens := (nav_screens n)(route \<mapsto> screen)\<rparr>"

definition Navigation_new :: "string \<Rightarrow> nat \<Rightarrow> navigation" where
  "Navigation_new home_route home_screen =
     (Navigation_Register home_route home_screen \<lparr>nav_home_route = home_route, nav_screens = Map.empty, nav_active = home_screen\<rparr>)"

text \<open>The screen whose loading starts, if one does.\<close>

definition Navigation_GoTo :: "string \<Rightarrow> navigation \<Rightarrow> nat option \<times> navigation" where
  "Navigation_GoTo route n =
     (case nav_screens n route of
        None \<Rightarrow> (None, n)
      | Some screen \<Rightarrow> if screen = nav_active n then (None, n) else (Some screen, n\<lparr>nav_active := screen\<rparr>))"

definition Navigation_GoHome :: "navigation \<Rightarrow> nat option \<times> navigation" where
  "Navigation_GoHome n = Navigation_GoTo (nav_home_route n) n"

text \<open>The click handler of the home button.\<close>

definition OnHomeClicked :: "navigation \<Rightarrow> nat option \<times> navigation" where
  "OnHomeClicked n = Navigation_GoHome n"

text \<open>The routes \<^verbatim>\<open>AppCore\<close>'s constructor registers; \<open>root\<close> gives each screen's root object.\<close>

definition AppCore_navigation :: "(string \<Rightarrow> nat) \<Rightarrow> navigation" where
  "AppCore_navigation root =
     fold (\<lambda>route. Navigation_Register route (root route))
       [kWifiSetup, kHarmonyActivities, kHarmonyDevices, kKodiNowPlaying, kKodiRemote, kKodiMovies, kKodiTvShows,
        kKodiMusic, kKodiFiles, kKodiLiveTv]
       (Navigation_new kDashboard (root kDashboard))"

lemma GoTo_reaches: "nav_screens n route = Some screen \<Longrightarrow> nav_active (snd (Navigation_GoTo route n)) = screen"
  by (simp add: Navigation_GoTo_def)

text \<open>Every route of \<^verbatim>\<open>ui/routes.h\<close> leads to its screen, and the home button to the dashboard.\<close>

lemma AppCore_navigation_complete:
  "route \<in> {kDashboard, kWifiSetup, kHarmonyActivities, kHarmonyDevices, kKodiNowPlaying, kKodiRemote, kKodiMovies,
     kKodiTvShows, kKodiMusic, kKodiFiles, kKodiLiveTv} \<Longrightarrow> nav_screens (AppCore_navigation root) route = Some (root route)"
  "nav_home_route (AppCore_navigation root) = kDashboard" "nav_active (AppCore_navigation root) = root kDashboard"
  by (auto simp: AppCore_navigation_def Navigation_new_def Navigation_Register_def)

lemma GoTo_unknown: "nav_screens n route = None \<Longrightarrow> Navigation_GoTo route n = (None, n)"
  by (simp add: Navigation_GoTo_def)

lemma GoTo_screens [simp]: "nav_screens (snd (Navigation_GoTo route n)) = nav_screens n"
  by (simp add: Navigation_GoTo_def split: option.split)

section \<open>UI dispatch\<close>

text \<open>
  The queue holds closures: state transformers of the UI task. A closure may post others, and so may any
  task between two of them; \<open>arrivals\<close> lists what other tasks have posted by each turn of the loop. The loop
  ends when \<^verbatim>\<open>TryPop\<close> finds nothing.
\<close>

definition PostToUiThread :: "'f \<Rightarrow> 'f list \<Rightarrow> 'f list" where
  "PostToUiThread fn queue = Queue_Push fn queue"

partial_function (option) DrainQueue ::
  "('f \<Rightarrow> 's \<Rightarrow> 'f list \<times> 's) \<Rightarrow> (nat \<Rightarrow> 'f list) \<Rightarrow> nat \<Rightarrow> 'f list \<Rightarrow> 's \<Rightarrow> (nat \<times> 's) option" where
  "DrainQueue run arrivals turn queue s =
     (case Queue_TryPop (fold PostToUiThread (arrivals turn) queue) of
        (None, rest) \<Rightarrow> Some (Suc turn, s)
      | (Some fn, rest) \<Rightarrow>
          (case run fn s of (posted, t) \<Rightarrow> DrainQueue run arrivals (Suc turn) (fold PostToUiThread posted rest) t))"

lemma fold_Post [simp]: "fold PostToUiThread fns queue = queue @ fns"
  by (induction fns arbitrary: queue) (simp_all add: PostToUiThread_def Queue_Push_def)

text \<open>
  A drain runs what was posted in the order it was posted, whoever posted it, and ends once no more
  arrives: the closures run are the queue and then what arrived before the loop ended.
\<close>

lemma DrainQueue_in_order:
  fixes queue :: "'f list" and arrivals :: "nat \<Rightarrow> 'f list"
  assumes "\<And>f s. fst (run f s) = []" "\<And>t. n \<le> t \<Longrightarrow> arrivals t = []"
  shows "\<exists>k>turn. DrainQueue run arrivals turn queue s =
    Some (k, fold (\<lambda>f s. snd (run f s)) (queue @ concat (map arrivals [turn..<k])) s)"
proof -
  define todo where "todo t q = length q + sum (\<lambda>i. length (arrivals i)) {t..<n}" for t and q :: "'f list"
  show ?thesis
  proof (induction "todo turn queue" arbitrary: turn queue s rule: less_induct)
    case less
    have later: "sum (\<lambda>i. length (arrivals i)) {turn..<n} =
        length (arrivals turn) + sum (\<lambda>i. length (arrivals i)) {Suc turn..<n}"
      using assms(2) [of turn] by (cases "turn < n") (auto simp: sum.atLeast_Suc_lessThan)
    show ?case
    proof (cases "queue @ arrivals turn")
      case Nil
      then have "DrainQueue run arrivals turn queue s = Some (Suc turn, s)"
        by (subst DrainQueue.simps) (simp add: Queue_TryPop_def)
      with Nil show ?thesis by (intro exI [of _ "Suc turn"]) simp
    next
      case (Cons f fs)
      have step: "DrainQueue run arrivals turn queue s = DrainQueue run arrivals (Suc turn) fs (snd (run f s))"
        using assms(1) [of f s] Cons by (subst DrainQueue.simps) (simp add: Queue_TryPop_def case_prod_beta)
      have "length queue + length (arrivals turn) = Suc (length fs)" using arg_cong [OF Cons, of length] by simp
      then have "todo (Suc turn) fs < todo turn queue" using later by (simp add: todo_def)
      from less [OF this] obtain k where up: "Suc turn < k"
        and k: "DrainQueue run arrivals (Suc turn) fs (snd (run f s)) =
          Some (k, fold (\<lambda>f s. snd (run f s)) (fs @ concat (map arrivals [Suc turn..<k])) (snd (run f s)))" by blast
      have "queue @ concat (map arrivals [turn..<k]) = f # fs @ concat (map arrivals [Suc turn..<k])"
        using up Cons by (simp add: upt_conv_Cons)
      then show ?thesis using step k up by (intro exI [of _ k]) simp
    qed
  qed
qed

end
