(* ===== verification/Ui_Harmony.thy ===== *)
theory Ui_Harmony
  imports Harmony "HOL-Library.Multiset"
begin

text \<open>
  The Harmony screens of the touch interface: \<^verbatim>\<open>ui/text_format.cpp\<close>, \<^verbatim>\<open>ui/activity_start_tracker.cpp\<close>,
  \<^verbatim>\<open>ui/command_button_press_tracker.cpp\<close>, and the logic of \<^verbatim>\<open>ui/screens/activities_screen.cpp\<close> and
  \<^verbatim>\<open>ui/screens/devices_screen.cpp\<close>: what is shown, which timer runs, which commands are handed to the
  connection. LVGL objects are what they show; a button is its position on the screen, symbols of the
  LVGL font are names. The connection's snapshot is an argument of the handlers that take one.
\<close>

section \<open>Text\<close>

fun split_camel :: "char \<Rightarrow> string \<Rightarrow> string" where
  "split_camel prev [] = []"
| "split_camel prev (cur # rest) =
     (let lower_to_upper = (c_islower prev \<or> c_isdigit prev) \<and> c_isupper cur;
          acronym_boundary = c_isupper prev \<and> c_isupper cur \<and> (case rest of [] \<Rightarrow> False | n # _ \<Rightarrow> c_islower n)
      in (if lower_to_upper \<or> acronym_boundary then [CHR '' ''] else []) @ cur # split_camel cur rest)"

definition SplitCamelCase :: "string \<Rightarrow> string" where
  "SplitCamelCase s = (case s of [] \<Rightarrow> [] | c # rest \<Rightarrow> c # split_camel c rest)"

lemma split_camel_letters: "CHR '' '' \<notin> set s \<Longrightarrow> filter (\<lambda>c. c \<noteq> CHR '' '') (split_camel p s) = s"
  by (induction p s rule: split_camel.induct) (auto simp: Let_def)

text \<open>Only spaces are added.\<close>

lemma SplitCamelCase_letters: "CHR '' '' \<notin> set s \<Longrightarrow> filter (\<lambda>c. c \<noteq> CHR '' '') (SplitCamelCase s) = s"
  by (cases s) (auto simp: SplitCamelCase_def split_camel_letters)

section \<open>Starting an activity\<close>

record start_tracker =
  starting_activity_id :: string
  command_failed :: bool

definition has_pending :: "start_tracker \<Rightarrow> bool" where
  "has_pending t \<longleftrightarrow> starting_activity_id t \<noteq> []"

definition OnActivityTapped :: "string \<Rightarrow> string \<Rightarrow> bool \<Rightarrow> start_tracker \<Rightarrow> (string \<times> bool) \<times> start_tracker" where
  "OnActivityTapped activity label is_current t =
     (let t1 = t\<lparr>starting_activity_id := activity, command_failed := False\<rparr>
      in if is_current then ((''Resent to '' @ label @ ''.'', False), t1)
         else ((''Starting '' @ label @ ''...'', True), t1))"

definition ClearPending :: "start_tracker \<Rightarrow> start_tracker" where
  "ClearPending t = t\<lparr>starting_activity_id := [], command_failed := False\<rparr>"

definition OnConnectionStateChanged :: "bool \<Rightarrow> start_tracker \<Rightarrow> bool \<times> start_tracker" where
  "OnConnectionStateChanged now_connected t =
     (if \<not> now_connected \<and> has_pending t then (True, t\<lparr>starting_activity_id := []\<rparr>)
      else if now_connected \<and> command_failed t then (False, t\<lparr>command_failed := False\<rparr>)
      else (False, t))"

definition OnCommandDropped :: "string \<Rightarrow> start_tracker \<Rightarrow> string option \<times> start_tracker" where
  "OnCommandDropped label t =
     (if \<not> has_pending t then (None, t)
      else (Some (''Couldn't start '' @ label @ '' - hub unreachable''), t\<lparr>starting_activity_id := [], command_failed := True\<rparr>))"

definition OnStartingTimedOut :: "string \<Rightarrow> start_tracker \<Rightarrow> string option \<times> start_tracker" where
  "OnStartingTimedOut label t =
     (if \<not> has_pending t then (None, t)
      else (Some (''No response starting '' @ label @ '' - try again''), t\<lparr>starting_activity_id := [], command_failed := True\<rparr>))"

section \<open>ActivitiesScreen\<close>

definition kStartingTimeoutMs :: ms where "kStartingTimeoutMs = 45000"

record harmony_view =
  hv_connected :: bool
  hv_has_config :: bool
  hv_devices :: "harmony_device list"
  hv_activities :: "harmony_activity list"
  hv_current :: string

text \<open>\<open>as_timer\<close> is when the timeout fires; paused is \<^const>\<open>None\<close>. \<open>as_taps\<close> is a record of the taps for the statements below.\<close>

record activities_screen =
  as_tracker :: start_tracker
  as_status :: string
  as_buttons :: "(string \<times> string) list"
  as_list_hidden :: bool
  as_highlighted :: string
  as_timer :: "ms option"
  as_taps :: "(ms \<times> string \<times> bool) list"

definition label_of :: "activities_screen \<Rightarrow> string \<Rightarrow> string" where
  "label_of a activity = (case map_of (rev (as_buttons a)) activity of None \<Rightarrow> ''activity'' | Some l \<Rightarrow> l)"

definition RestyleButtons :: "harmony_view \<Rightarrow> activities_screen \<Rightarrow> activities_screen" where
  "RestyleButtons v a =
     (let a1 = (if \<not> has_pending (as_tracker a) \<and> \<not> command_failed (as_tracker a)
                then a\<lparr>as_status := (if hv_connected v then [] else ''Offline - showing last known activities'')\<rparr> else a)
      in a1\<lparr>as_highlighted := hv_current v\<rparr>)"

definition Rebuild :: "harmony_view \<Rightarrow> activities_screen \<Rightarrow> activities_screen" where
  "Rebuild v a =
     (if \<not> hv_has_config v then a\<lparr>as_buttons := [], as_list_hidden := True\<rparr>
      else
        (let a1 = a\<lparr>as_buttons := map (\<lambda>x. (act_id x, label_text (act_label x))) (hv_activities v), as_list_hidden := False\<rparr>;
             a2 = (if has_pending (as_tracker a1) \<and> starting_activity_id (as_tracker a1) \<notin> fst ` set (as_buttons a1)
                   then a1\<lparr>as_tracker := ClearPending (as_tracker a1), as_timer := None\<rparr> else a1)
         in RestyleButtons v a2))"

definition OnActivityButtonClicked :: "harmony_view \<Rightarrow> ms \<Rightarrow> nat \<Rightarrow> activities_screen \<Rightarrow> client_op list \<times> activities_screen" where
  "OnActivityButtonClicked v now button a =
     (if length (as_buttons a) \<le> button then ([], a)
      else
        (let (activity, label) = as_buttons a ! button;
             is_current = (activity = hv_current v);
             ((status, fresh), t) = OnActivityTapped activity label is_current (as_tracker a);
             a1 = a\<lparr>as_tracker := t, as_status := label_text status, as_timer := (if fresh then Some (now + kStartingTimeoutMs) else None),
                    as_taps := as_taps a @ [(now, activity, fresh)]\<rparr>
         in ([CStartActivity activity now], RestyleButtons v a1)))"

datatype activities_event =
    AConfig harmony_view
  | AActivity harmony_view
  | AState harmony_connection_state harmony_view
  | ADropped
  | ATap harmony_view ms nat
  | ATimeout

fun activities_step :: "activities_event \<Rightarrow> activities_screen \<Rightarrow> client_op list \<times> activities_screen" where
  "activities_step (AConfig v) a = ([], Rebuild v a)"
| "activities_step (AActivity v) a = ([], RestyleButtons v (a\<lparr>as_tracker := ClearPending (as_tracker a)\<rparr>))"
| "activities_step (AState state v) a =
     (let (cleared, t) = OnConnectionStateChanged (state = kConnected) (as_tracker a)
      in ([], RestyleButtons v (a\<lparr>as_tracker := t, as_timer := (if cleared then None else as_timer a)\<rparr>)))"
| "activities_step ADropped a =
     (let (status, t) = OnCommandDropped (label_of a (starting_activity_id (as_tracker a))) (as_tracker a)
      in ([], case status of None \<Rightarrow> a\<lparr>as_tracker := t\<rparr> | Some s \<Rightarrow> a\<lparr>as_tracker := t, as_status := label_text s\<rparr>))"
| "activities_step (ATap v now button) a = OnActivityButtonClicked v now button a"
| "activities_step ATimeout a =
     (let (status, t) = OnStartingTimedOut (label_of a (starting_activity_id (as_tracker a))) (as_tracker a); a1 = a\<lparr>as_timer := None\<rparr>
      in ([], case status of None \<Rightarrow> a1\<lparr>as_tracker := t\<rparr> | Some s \<Rightarrow> a1\<lparr>as_tracker := t, as_status := label_text s\<rparr>))"

definition activities_inv :: "activities_screen \<Rightarrow> bool" where
  "activities_inv a \<longleftrightarrow>
     (has_pending (as_tracker a) \<longrightarrow>
        \<not> command_failed (as_tracker a) \<and> as_taps a \<noteq> [] \<and> fst (snd (List.last (as_taps a))) = starting_activity_id (as_tracker a)) \<and>
     (\<forall>d. as_timer a = Some d \<longrightarrow>
        as_taps a \<noteq> [] \<and> snd (snd (List.last (as_taps a))) \<and> d = fst (List.last (as_taps a)) + kStartingTimeoutMs)"

lemma RestyleButtons_frame [simp]:
  "as_tracker (RestyleButtons v a) = as_tracker a" "as_timer (RestyleButtons v a) = as_timer a"
  "as_taps (RestyleButtons v a) = as_taps a" "as_buttons (RestyleButtons v a) = as_buttons a"
  by (simp_all add: RestyleButtons_def Let_def)

lemma activities_step_inv:
  assumes "activities_inv a"
  shows "activities_inv (snd (activities_step e a))"
proof (cases e)
  case (AConfig v)
  then show ?thesis using assms by (auto simp: activities_inv_def Rebuild_def ClearPending_def has_pending_def Let_def)
next
  case (AActivity v)
  then show ?thesis using assms by (auto simp: activities_inv_def ClearPending_def has_pending_def)
next
  case (AState state v)
  then show ?thesis using assms by (auto simp: activities_inv_def OnConnectionStateChanged_def has_pending_def Let_def split: if_splits)
next
  case ADropped
  then show ?thesis using assms by (auto simp: activities_inv_def OnCommandDropped_def has_pending_def Let_def)
next
  case (ATap v now button)
  then show ?thesis using assms
    by (auto simp: activities_inv_def OnActivityButtonClicked_def OnActivityTapped_def has_pending_def Let_def split: prod.splits if_splits)
next
  case ATimeout
  then show ?thesis using assms by (auto simp: activities_inv_def OnStartingTimedOut_def has_pending_def Let_def)
qed

text \<open>
  When the timer blames an activity for not answering, it is the one tapped last, by a fresh start at
  least 45 seconds ago: never an earlier start, never a resend.
\<close>

lemma timeout_blames_last_start:
  assumes "activities_inv a" "as_timer a = Some d" "has_pending (as_tracker a)"
  shows "\<exists>start. List.last (as_taps a) = (start, starting_activity_id (as_tracker a), True) \<and> d = start + 45000 \<and>
    as_status (snd (activities_step ATimeout a)) = label_text (''No response starting '' @ label_of a (starting_activity_id (as_tracker a)) @ '' - try again'')"
  using assms
  by (cases "List.last (as_taps a)")
    (auto simp: activities_inv_def kStartingTimeoutMs_def OnStartingTimedOut_def Let_def)

section \<open>Press tracking\<close>

datatype press_action = PNone | PPress | PHold | PRelease | PPressAndRelease

definition Tracker_OnLongPressed :: "nat \<Rightarrow> nat set \<Rightarrow> press_action \<times> nat set" where
  "Tracker_OnLongPressed button held = (PPress, insert button held)"

definition Tracker_OnLongPressRepeat :: "nat \<Rightarrow> nat set \<Rightarrow> press_action" where
  "Tracker_OnLongPressRepeat button held = PHold"

definition Tracker_OnReleased :: "nat \<Rightarrow> bool \<Rightarrow> nat set \<Rightarrow> press_action \<times> nat set" where
  "Tracker_OnReleased button is_scrolling held =
     (if button \<in> held then (PRelease, held - {button})
      else (if is_scrolling then PNone else PPressAndRelease, held))"

definition Tracker_Reset :: "nat set \<Rightarrow> nat set" where
  "Tracker_Reset held = {}"

section \<open>Command buttons\<close>

datatype lv_symbol =
    SymPlus | SymMinus | SymLoop | SymMute | SymPlay | SymPause | SymStop | SymEject | SymPrev | SymNext | SymHome
  | SymUp | SymDown | SymLeft | SymRight

datatype button_face = Words string | Icon lv_symbol | TransportGlyph bool

datatype cell = Spacer | CommandButton button_face string

datatype detail_block = Heading string | Message string | RowWrapGrid "cell list" | DPadRows "cell list list"

definition IconForCommandName :: "string \<Rightarrow> lv_symbol option" where
  "IconForCommandName n =
     (if n = ''VolumeUp'' \<or> n = ''ChannelUp'' then Some SymPlus
      else if n = ''VolumeDown'' \<or> n = ''ChannelDown'' then Some SymMinus
      else if n = ''PrevChannel'' then Some SymLoop
      else if n = ''Mute'' then Some SymMute
      else if n = ''Play'' then Some SymPlay
      else if n = ''Pause'' then Some SymPause
      else if n = ''Stop'' then Some SymStop
      else if n = ''Eject'' then Some SymEject
      else if n = ''SkipBackward'' then Some SymPrev
      else if n = ''SkipForward'' then Some SymNext
      else if n = ''Home'' then Some SymHome
      else None)"

definition FindCommand :: "harmony_command list \<Rightarrow> string \<Rightarrow> harmony_command option" where
  "FindCommand cmds n = List.find (\<lambda>c. cmd_name c = n) cmds"

definition generic_button :: "harmony_command \<Rightarrow> cell" where
  "generic_button c =
     CommandButton
       (if cmd_name c = ''Rewind'' \<or> cmd_name c = ''FastForward'' then TransportGlyph (cmd_name c = ''Rewind'')
        else case IconForCommandName (cmd_name c) of Some i \<Rightarrow> Icon i | None \<Rightarrow> Words (label_text (SplitCamelCase (cmd_label c))))
       (cmd_action c)"

definition RenderGenericGrid :: "harmony_command list \<Rightarrow> detail_block list" where
  "RenderGenericGrid cmds = [RowWrapGrid (map generic_button cmds)]"

definition RenderUnmatchedCommands :: "harmony_command list \<Rightarrow> string list \<Rightarrow> detail_block list" where
  "RenderUnmatchedCommands cmds matched =
     (let unmatched = filter (\<lambda>c. cmd_name c \<notin> set matched) cmds
      in if unmatched = [] then [] else RenderGenericGrid unmatched)"

definition kKeypadOrder :: "string list" where
  "kKeypadOrder = [''Number1'', ''Number2'', ''Number3'', ''Number4'', ''Number5'', ''Number6'',
                   ''Number7'', ''Number8'', ''Number9'', ''Clear'', ''Number0'', ''Dot'']"

definition RenderNumericKeypad :: "harmony_command list \<Rightarrow> detail_block list" where
  "RenderNumericKeypad cmds =
     (let keys = List.map_filter (\<lambda>n. map_option (Pair n) (FindCommand cmds n)) kKeypadOrder
      in RowWrapGrid (map (\<lambda>(n, c). CommandButton (Words (label_text (cmd_label c))) (cmd_action c)) keys) #
         RenderUnmatchedCommands cmds (map fst keys))"

definition AddDPadCell :: "harmony_command option \<Rightarrow> button_face \<Rightarrow> cell" where
  "AddDPadCell cmd face = (case cmd of None \<Rightarrow> Spacer | Some c \<Rightarrow> CommandButton face (cmd_action c))"

definition RenderDPad :: "harmony_command list \<Rightarrow> detail_block list" where
  "RenderDPad cmds =
     DPadRows
       [[Spacer, AddDPadCell (FindCommand cmds ''DirectionUp'') (Icon SymUp), Spacer],
        [AddDPadCell (FindCommand cmds ''DirectionLeft'') (Icon SymLeft),
         AddDPadCell (FindCommand cmds ''Select'') (Words ''OK''),
         AddDPadCell (FindCommand cmds ''DirectionRight'') (Icon SymRight)],
        [Spacer, AddDPadCell (FindCommand cmds ''DirectionDown'') (Icon SymDown), Spacer]] #
     RenderUnmatchedCommands cmds [''DirectionUp'', ''DirectionDown'', ''DirectionLeft'', ''DirectionRight'', ''Select'']"

definition RenderControlGroup :: "harmony_control_group \<Rightarrow> detail_block list" where
  "RenderControlGroup g =
     Heading (label_text (SplitCamelCase (cg_name g))) #
     (if cg_name g = ''NumericBasic'' then RenderNumericKeypad (cg_commands g)
      else if cg_name g = ''NavigationBasic'' then RenderDPad (cg_commands g)
      else RenderGenericGrid (cg_commands g))"

text \<open>The actions \<^verbatim>\<open>WireCommandButton\<close> put under the buttons, in the order the buttons are made.\<close>

fun cell_actions :: "cell \<Rightarrow> string list" where
  "cell_actions Spacer = []"
| "cell_actions (CommandButton face action) = [action]"

fun block_actions :: "detail_block \<Rightarrow> string list" where
  "block_actions (RowWrapGrid cells) = concat (map cell_actions cells)"
| "block_actions (DPadRows rows) = concat (map cell_actions (concat rows))"
| "block_actions (Heading h) = []"
| "block_actions (Message m) = []"

section \<open>DevicesScreen\<close>

record devices_screen =
  ds_hint_hidden :: bool
  ds_list_hidden :: bool
  ds_detail_hidden :: bool
  ds_title :: string
  ds_status :: string
  ds_device_buttons :: "(string \<times> string) list"
  ds_blocks :: "detail_block list"
  ds_command_button_actions :: "string list"
  ds_press_tracker :: "nat set"

definition RebuildDeviceList :: "harmony_view \<Rightarrow> devices_screen \<Rightarrow> devices_screen" where
  "RebuildDeviceList v d =
     (if \<not> hv_has_config v
      then d\<lparr>ds_device_buttons := [], ds_list_hidden := True, ds_detail_hidden := True, ds_hint_hidden := False\<rparr>
      else d\<lparr>ds_hint_hidden := True,
             ds_list_hidden := (if ds_detail_hidden d then False else ds_list_hidden d),
             ds_device_buttons := map (\<lambda>x. (dev_id x, label_text (dev_label x))) (hv_devices v)\<rparr>)"

definition ShowDeviceDetail :: "harmony_view \<Rightarrow> string \<Rightarrow> devices_screen \<Rightarrow> devices_screen" where
  "ShowDeviceDetail v device d =
     (case List.find (\<lambda>x. dev_id x = device) (hv_devices v) of
        None \<Rightarrow> d
      | Some dev \<Rightarrow>
          (let shown = concat (map RenderControlGroup (filter (\<lambda>g. cg_commands g \<noteq> []) (dev_control_groups dev)));
               blocks = (if filter (\<lambda>g. cg_commands g \<noteq> []) (dev_control_groups dev) = []
                         then [Message ''No commands available for this device.''] else shown)
           in d\<lparr>ds_title := label_text (dev_label dev), ds_blocks := blocks,
                ds_command_button_actions := concat (map block_actions blocks),
                ds_press_tracker := Tracker_Reset (ds_press_tracker d),
                ds_list_hidden := True, ds_detail_hidden := False\<rparr>))"

definition ShowDeviceList :: "harmony_view \<Rightarrow> devices_screen \<Rightarrow> devices_screen" where
  "ShowDeviceList v d =
     d\<lparr>ds_detail_hidden := True, ds_list_hidden := (if hv_has_config v then False else ds_list_hidden d)\<rparr>"

definition DevicesScreen_new :: "harmony_view \<Rightarrow> devices_screen" where
  "DevicesScreen_new v =
     RebuildDeviceList v
       \<lparr>ds_hint_hidden = False, ds_list_hidden = False, ds_detail_hidden = True, ds_title = [], ds_status = [],
        ds_device_buttons = [], ds_blocks = [], ds_command_button_actions = [], ds_press_tracker = {}\<rparr>"

definition OnDeviceButtonClicked :: "harmony_view \<Rightarrow> nat \<Rightarrow> devices_screen \<Rightarrow> devices_screen" where
  "OnDeviceButtonClicked v button d =
     (if length (ds_device_buttons d) \<le> button then d else ShowDeviceDetail v (fst (ds_device_buttons d ! button)) d)"

definition OnCommandButtonLongPressed :: "nat \<Rightarrow> ms \<Rightarrow> devices_screen \<Rightarrow> client_op list \<times> devices_screen" where
  "OnCommandButtonLongPressed button now d =
     (if length (ds_command_button_actions d) \<le> button then ([], d)
      else ([CDevice (ds_command_button_actions d ! button) ''press'' now],
            d\<lparr>ds_press_tracker := snd (Tracker_OnLongPressed button (ds_press_tracker d))\<rparr>))"

definition OnCommandButtonLongPressRepeat :: "nat \<Rightarrow> ms \<Rightarrow> devices_screen \<Rightarrow> client_op list \<times> devices_screen" where
  "OnCommandButtonLongPressRepeat button now d =
     (if length (ds_command_button_actions d) \<le> button then ([], d)
      else ([CDevice (ds_command_button_actions d ! button) ''hold'' now], d))"

definition OnCommandButtonReleased :: "nat \<Rightarrow> bool \<Rightarrow> ms \<Rightarrow> devices_screen \<Rightarrow> client_op list \<times> devices_screen" where
  "OnCommandButtonReleased button is_scrolling now d =
     (if length (ds_command_button_actions d) \<le> button then ([], d)
      else
        (let action = ds_command_button_actions d ! button;
             (what, held) = Tracker_OnReleased button is_scrolling (ds_press_tracker d)
         in (case what of
               PRelease \<Rightarrow> [CDevice action ''release'' now]
             | PPressAndRelease \<Rightarrow> [CDevice action ''press'' now, CDevice action ''release'' now]
             | _ \<Rightarrow> [],
             d\<lparr>ds_press_tracker := held\<rparr>)))"

datatype devices_event =
    DConfig harmony_view
  | DState harmony_connection_state
  | DOpen harmony_view nat
  | DBack harmony_view
  | DLongPressed nat ms
  | DLongPressRepeat nat ms
  | DReleased nat bool ms

fun devices_step :: "devices_event \<Rightarrow> devices_screen \<Rightarrow> client_op list \<times> devices_screen" where
  "devices_step (DConfig v) d = ([], RebuildDeviceList v d)"
| "devices_step (DState st) d =
     ([], d\<lparr>ds_status := (if st = kConnected then [] else ''Offline - reconnecting...'')\<rparr>)"
| "devices_step (DOpen v button) d = ([], OnDeviceButtonClicked v button d)"
| "devices_step (DBack v) d = ([], ShowDeviceList v d)"
| "devices_step (DLongPressed button now) d = OnCommandButtonLongPressed button now d"
| "devices_step (DLongPressRepeat button now) d = OnCommandButtonLongPressRepeat button now d"
| "devices_step (DReleased button scrolling now) d = OnCommandButtonReleased button scrolling now d"

fun devices_run :: "devices_event list \<Rightarrow> devices_screen \<Rightarrow> client_op list \<times> devices_screen" where
  "devices_run [] d = ([], d)"
| "devices_run (e # es) d =
     (let (ops, d1) = devices_step e d; (ops2, d2) = devices_run es d1 in (ops @ ops2, d2))"

section \<open>Every command is offered\<close>

lemma filter_one_name:
  assumes "distinct (map cmd_name cmds)"
  shows "filter (\<lambda>c. cmd_name c = n) cmds = (case FindCommand cmds n of None \<Rightarrow> [] | Some c \<Rightarrow> [c])"
  using assms
proof (induction cmds)
  case (Cons c cmds)
  have rest: "filter (\<lambda>c. cmd_name c = n) cmds = []" if "cmd_name c = n"
    using Cons.prems that by (auto simp: filter_empty_conv) (metis image_eqI)
  show ?case using rest Cons.IH Cons.prems by (cases "cmd_name c = n") (simp_all add: FindCommand_def)
qed (simp add: FindCommand_def)

lemma found_by_order:
  assumes "distinct ns" "distinct (map cmd_name cmds)"
  shows "mset (List.map_filter (FindCommand cmds) ns) = filter_mset (\<lambda>c. cmd_name c \<in> set ns) (mset cmds)"
  using assms(1)
proof (induction ns)
  case (Cons n ns)
  have "filter_mset (\<lambda>c. cmd_name c \<in> set (n # ns)) (mset cmds) =
        filter_mset (\<lambda>c. cmd_name c = n) (mset cmds) + filter_mset (\<lambda>c. cmd_name c \<in> set ns) (mset cmds)"
    using Cons.prems by (induction cmds) auto
  moreover have "filter_mset (\<lambda>c. cmd_name c = n) (mset cmds) = mset (case FindCommand cmds n of None \<Rightarrow> [] | Some c \<Rightarrow> [c])"
    by (simp flip: mset_filter filter_one_name [OF assms(2)])
  ultimately show ?case using Cons by (simp add: map_filter_simps split: option.split)
qed (simp add: map_filter_simps)

text \<open>The commands placed by name, and the rest after them, are all of them.\<close>

lemma placed_and_rest:
  assumes "distinct ns" "distinct (map cmd_name cmds)"
    and "\<And>c. c \<in> set cmds \<Longrightarrow> cmd_name c \<in> set matched \<longleftrightarrow> cmd_name c \<in> set ns"
  shows "mset (List.map_filter (FindCommand cmds) ns @ filter (\<lambda>c. cmd_name c \<notin> set matched) cmds) = mset cmds"
proof -
  have "filter (\<lambda>c. cmd_name c \<notin> set matched) cmds = filter (\<lambda>c. cmd_name c \<notin> set ns) cmds"
    using assms(3) by (intro filter_cong) auto
  then show ?thesis using found_by_order [OF assms(1,2)] by (simp add: multiset_partition [symmetric])
qed

lemma generic_actions [simp]: "concat (map block_actions (RenderGenericGrid cmds)) = map cmd_action cmds"
  by (induction cmds) (simp_all add: RenderGenericGrid_def generic_button_def)

lemma unmatched_actions [simp]:
  "concat (map block_actions (RenderUnmatchedCommands cmds matched)) = map cmd_action (filter (\<lambda>c. cmd_name c \<notin> set matched) cmds)"
  by (simp add: RenderUnmatchedCommands_def Let_def del: set_map)

definition offered :: "harmony_command list \<Rightarrow> string \<Rightarrow> harmony_command list" where
  "offered cmds n = (case FindCommand cmds n of None \<Rightarrow> [] | Some c \<Rightarrow> [c])"

lemma dpad_cell_actions [simp]: "cell_actions (AddDPadCell (FindCommand cmds n) face) = map cmd_action (offered cmds n)"
  by (simp add: AddDPadCell_def offered_def split: option.split)

lemma found_offered: "List.map_filter (FindCommand cmds) ns = concat (map (offered cmds) ns)"
  by (induction ns) (simp_all add: map_filter_simps offered_def split: option.split)

lemma FindCommand_name: "FindCommand cmds n = Some c \<Longrightarrow> c \<in> set cmds \<and> cmd_name c = n"
  by (auto simp: FindCommand_def find_Some_iff)

lemma FindCommand_exists: "c \<in> set cmds \<Longrightarrow> FindCommand cmds (cmd_name c) \<noteq> None"
  by (auto simp: FindCommand_def find_None_iff)

lemma keypad_actions:
  assumes "distinct (map cmd_name cmds)"
  shows "mset (concat (map block_actions (RenderNumericKeypad cmds))) = mset (map cmd_action cmds)"
proof -
  define keys where "keys = List.map_filter (\<lambda>n. map_option (Pair n) (FindCommand cmds n)) kKeypadOrder"
  have found: "map snd (List.map_filter (\<lambda>n. map_option (Pair n) (FindCommand cmds n)) ns) = List.map_filter (FindCommand cmds) ns" for ns
    by (induction ns) (auto simp: map_filter_simps split: option.split)
  have cells: "concat (map (cell_actions \<circ> (\<lambda>(n, c). CommandButton (Words (label_text (cmd_label c))) (cmd_action c))) ks) =
    map cmd_action (map snd ks)" for ks
    by (induction ks) auto
  have names: "cmd_name c \<in> set (map fst keys) \<longleftrightarrow> cmd_name c \<in> set kKeypadOrder" if c: "c \<in> set cmds" for c
  proof -
    obtain c' where "FindCommand cmds (cmd_name c) = Some c'" using FindCommand_exists [OF c] by auto
    then show ?thesis unfolding keys_def by (force simp: List.map_filter_def)
  qed
  have ks: "List.map_filter (FindCommand cmds) kKeypadOrder = map snd keys" by (simp add: keys_def found)
  have "mset (map snd keys @ filter (\<lambda>c. cmd_name c \<notin> set (map fst keys)) cmds) = mset cmds"
    unfolding ks [symmetric] by (rule placed_and_rest [OF _ assms]) (simp add: kKeypadOrder_def, rule names)
  then have "mset (map cmd_action (map snd keys @ filter (\<lambda>c. cmd_name c \<notin> set (map fst keys)) cmds)) = mset (map cmd_action cmds)"
    by (simp only: mset_map)
  then show ?thesis by (simp add: RenderNumericKeypad_def keys_def [symmetric] Let_def cells del: mset_map)
qed

lemma dpad_actions:
  assumes "distinct (map cmd_name cmds)"
  shows "mset (concat (map block_actions (RenderDPad cmds))) = mset (map cmd_action cmds)"
proof -
  let ?matched = "[''DirectionUp'', ''DirectionDown'', ''DirectionLeft'', ''DirectionRight'', ''Select'']"
  let ?order = "[''DirectionUp'', ''DirectionLeft'', ''Select'', ''DirectionRight'', ''DirectionDown'']"
  have "mset (List.map_filter (FindCommand cmds) ?order @ filter (\<lambda>c. cmd_name c \<notin> set ?matched) cmds) = mset cmds"
    by (rule placed_and_rest [OF _ assms]) auto
  then have "mset (map cmd_action (List.map_filter (FindCommand cmds) ?order @ filter (\<lambda>c. cmd_name c \<notin> set ?matched) cmds)) =
    mset (map cmd_action cmds)" by (simp only: mset_map)
  then show ?thesis unfolding found_offered by (simp add: RenderDPad_def del: mset_map)
qed

lemma group_actions:
  assumes "cg_name g \<in> {''NumericBasic'', ''NavigationBasic''} \<longrightarrow> distinct (map cmd_name (cg_commands g))"
  shows "mset (concat (map block_actions (RenderControlGroup g))) = mset (map cmd_action (cg_commands g))"
  using assms keypad_actions [of "cg_commands g"] dpad_actions [of "cg_commands g"]
  by (auto simp: RenderControlGroup_def simp del: mset_map)

lemma groups_actions:
  assumes "\<forall>g \<in> set gs. cg_name g \<in> {''NumericBasic'', ''NavigationBasic''} \<longrightarrow> distinct (map cmd_name (cg_commands g))"
  shows "mset (concat (map block_actions (concat (map RenderControlGroup (filter (\<lambda>g. cg_commands g \<noteq> []) gs))))) =
         mset (concat (map (\<lambda>g. map cmd_action (cg_commands g)) gs))"
  using assms group_actions by (induction gs) (simp_all del: mset_map)

text \<open>
  A tap on a device offers every command the hub listed for it, each exactly once, whatever layout its
  group gets: the keypad and the direction pad place the names they know and the rest follows in a plain
  grid, so that no command of a device is unreachable (in the two fixed layouts, as long as the hub did not
  give two commands of one group the same name). The list is hidden, the commands are shown, and no
  button starts out pressed.
\<close>

lemma every_command_offered:
  assumes "button < length (ds_device_buttons d)" "ds_device_buttons d ! button = (dev_id dev, lbl)"
    and "List.find (\<lambda>x. dev_id x = dev_id dev) (hv_devices v) = Some dev"
    and "\<forall>g \<in> set (dev_control_groups dev). cg_name g \<in> {''NumericBasic'', ''NavigationBasic''} \<longrightarrow> distinct (map cmd_name (cg_commands g))"
  defines "d1 \<equiv> snd (devices_step (DOpen v button) d)"
  shows "mset (ds_command_button_actions d1) = mset (concat (map (\<lambda>g. map cmd_action (cg_commands g)) (dev_control_groups dev))) \<and>
    ds_list_hidden d1 \<and> \<not> ds_detail_hidden d1 \<and> ds_press_tracker d1 = {}"
proof (intro conjI)
  have none: "concat (map (\<lambda>g. map cmd_action (cg_commands g)) gs) = []" if "filter (\<lambda>g. cg_commands g \<noteq> []) gs = []" for gs
    using that by (auto simp: filter_empty_conv)
  show "mset (ds_command_button_actions d1) = mset (concat (map (\<lambda>g. map cmd_action (cg_commands g)) (dev_control_groups dev)))"
    using assms(1-3) groups_actions [OF assms(4)] none [of "dev_control_groups dev"]
    by (simp add: d1_def OnDeviceButtonClicked_def ShowDeviceDetail_def Let_def del: mset_map concat_eq_Nil_conv)
qed (use assms(1-3) in \<open>simp_all add: d1_def OnDeviceButtonClicked_def ShowDeviceDetail_def Let_def Tracker_Reset_def\<close>)

definition sample_device :: harmony_device where
  "sample_device =
     \<lparr>dev_id = ''7'', dev_label = ''TV'',
      dev_control_groups =
        [\<lparr>cg_name = ''NumericBasic'',
          cg_commands = [\<lparr>cmd_name = ''Number0'', cmd_label = ''0'', cmd_action = ''n0''\<rparr>,
                         \<lparr>cmd_name = ''Hundred'', cmd_label = ''Hundred'', cmd_action = ''n100''\<rparr>,
                         \<lparr>cmd_name = ''Number1'', cmd_label = ''1'', cmd_action = ''n1''\<rparr>]\<rparr>,
         \<lparr>cg_name = ''Volume'', cg_commands = [\<lparr>cmd_name = ''Mute'', cmd_label = ''Mute'', cmd_action = ''m''\<rparr>]\<rparr>]\<rparr>"

definition sample_view :: harmony_view where
  "sample_view = \<lparr>hv_connected = True, hv_has_config = True, hv_devices = [sample_device], hv_activities = [], hv_current = []\<rparr>"

lemma every_command_offered_witness:
  "mset (ds_command_button_actions (snd (devices_step (DOpen sample_view 0) (DevicesScreen_new sample_view)))) =
     {#''n0'', ''n100'', ''n1'', ''m''#} \<and>
   ds_command_button_actions (snd (devices_step (DOpen sample_view 0) (DevicesScreen_new sample_view))) = [''n1'', ''n0'', ''n100'', ''m'']"
proof (intro conjI)
  show "mset (ds_command_button_actions (snd (devices_step (DOpen sample_view 0) (DevicesScreen_new sample_view)))) =
     {#''n0'', ''n100'', ''n1'', ''m''#}"
    using every_command_offered [of 0 "DevicesScreen_new sample_view" sample_device "''TV''" sample_view]
    by (simp add: DevicesScreen_new_def RebuildDeviceList_def sample_view_def sample_device_def label_text_def)
qed code_simp

section \<open>Every press is released\<close>

text \<open>What the connection is asked to send, without the times.\<close>

fun sent :: "client_op list \<Rightarrow> (string \<times> string) list" where
  "sent [] = []"
| "sent (CDevice action status now # ops) = (action, status) # sent ops"
| "sent (op # ops) = sent ops"

lemma sent_append [simp]: "sent (xs @ ys) = sent xs @ sent ys"
  by (induction xs rule: sent.induct) simp_all

text \<open>A sequence of complete key presses: each a press, some holds and a release of the same action.\<close>

inductive complete_presses :: "(string \<times> string) list \<Rightarrow> bool" where
  no_press: "complete_presses []"
| one_press: "complete_presses rest \<Longrightarrow>
    complete_presses ((action, ''press'') # replicate n (action, ''hold'') @ (action, ''release'') # rest)"

text \<open>What can happen while a finger is on a button: news from the hub, not the opening of another device.\<close>

fun background :: "devices_event \<Rightarrow> bool" where
  "background (DConfig v) = True"
| "background (DState st) = True"
| "background (DBack v) = True"
| "background e = False"

fun repeat_of :: "nat \<Rightarrow> devices_event \<Rightarrow> bool" where
  "repeat_of b (DLongPressRepeat b' now) = (b' = b)"
| "repeat_of b e = False"

text \<open>
  One touch, as LVGL reports it: a release, after a long press and its repeats if the finger stayed long
  enough; or another event of the screen between two touches.
\<close>

inductive gesture :: "devices_event list \<Rightarrow> bool" where
  other: "background e \<Longrightarrow> gesture [e]"
| open_device: "gesture [DOpen v b]"
| short: "gesture [DReleased b scrolling now]"
| long: "list_all (\<lambda>e. background e \<or> repeat_of b e) es \<Longrightarrow> gesture (DLongPressed b now # es @ [DReleased b scrolling now'])"

lemma complete_append: "complete_presses xs \<Longrightarrow> complete_presses ys \<Longrightarrow> complete_presses (xs @ ys)"
  by (induction rule: complete_presses.induct) (auto intro: complete_presses.intros)

lemma devices_run_append:
  "devices_run (es @ fs) d = (let (o1, d1) = devices_run es d; (o2, d2) = devices_run fs d1 in (o1 @ o2, d2))"
  by (induction es arbitrary: d) (simp_all add: Let_def split: prod.split)

lemma background_frame:
  assumes "background e"
  shows "sent (fst (devices_step e d)) = [] \<and> ds_press_tracker (snd (devices_step e d)) = ds_press_tracker d \<and>
    ds_command_button_actions (snd (devices_step e d)) = ds_command_button_actions d"
  using assms by (cases e) (simp_all add: RebuildDeviceList_def ShowDeviceList_def)

lemma holding:
  assumes "list_all (\<lambda>e. background e \<or> repeat_of b e) es"
  shows "\<exists>n. (length (ds_command_button_actions d) \<le> b \<longrightarrow> n = 0) \<and> sent (fst (devices_run es d)) = replicate n (ds_command_button_actions d ! b, ''hold'') \<and>
    ds_press_tracker (snd (devices_run es d)) = ds_press_tracker d \<and>
    ds_command_button_actions (snd (devices_run es d)) = ds_command_button_actions d"
  using assms
proof (induction es arbitrary: d)
  case (Cons e es)
  let ?d = "snd (devices_step e d)"
  have e: "(sent (fst (devices_step e d)) = [] \<or>
      b < length (ds_command_button_actions d) \<and> sent (fst (devices_step e d)) = [(ds_command_button_actions d ! b, ''hold'')]) \<and>
    ds_press_tracker ?d = ds_press_tracker d \<and> ds_command_button_actions ?d = ds_command_button_actions d"
    using Cons.prems background_frame [of e d] by (cases e) (auto simp: OnCommandButtonLongPressRepeat_def)
  then obtain n where n: "(length (ds_command_button_actions d) \<le> b \<longrightarrow> n = 0) \<and> sent (fst (devices_run es ?d)) = replicate n (ds_command_button_actions d ! b, ''hold'') \<and>
    ds_press_tracker (snd (devices_run es ?d)) = ds_press_tracker d \<and>
    ds_command_button_actions (snd (devices_run es ?d)) = ds_command_button_actions d"
    using Cons.IH [of ?d] Cons.prems by auto
  show ?case
  proof (cases "sent (fst (devices_step e d)) = []")
    case True
    then show ?thesis using n by (intro exI [of _ n]) (simp add: Let_def split_beta)
  next
    case False
    then show ?thesis using n e by (intro exI [of _ "Suc n"]) (simp add: Let_def split_beta)
  qed
qed (auto intro: exI [of _ 0])

lemma gesture_complete:
  assumes "gesture es" "ds_press_tracker d = {}"
  shows "complete_presses (sent (fst (devices_run es d))) \<and> ds_press_tracker (snd (devices_run es d)) = {}"
  using assms(1)
proof cases
  case (other e)
  then show ?thesis using background_frame [of e d] assms(2) by (simp add: Let_def split_beta no_press)
next
  case (open_device v b)
  then show ?thesis using assms(2)
    by (auto simp: OnDeviceButtonClicked_def ShowDeviceDetail_def Tracker_Reset_def Let_def no_press split: option.split)
next
  case (short b scrolling now)
  have "complete_presses [(a, ''press''), (a, ''release'')]" for a
    using one_press [OF no_press, of a 0] by simp
  then show ?thesis using short assms(2)
    by (simp add: OnCommandButtonReleased_def Tracker_OnReleased_def Let_def no_press)
next
  case (long b mid now scrolling now')
  show ?thesis
  proof (cases "b < length (ds_command_button_actions d)")
    case True
    define d1 where "d1 = d\<lparr>ds_press_tracker := {b}\<rparr>"
    obtain n where n: "sent (fst (devices_run mid d1)) = replicate n (ds_command_button_actions d ! b, ''hold'')"
      "ds_press_tracker (snd (devices_run mid d1)) = {b}"
      "ds_command_button_actions (snd (devices_run mid d1)) = ds_command_button_actions d"
      using holding [OF long(2), of d1] True by (auto simp: d1_def)
    show ?thesis using long(1) True n one_press [OF no_press, of "ds_command_button_actions d ! b" n] assms(2)
      by (simp add: devices_run_append OnCommandButtonLongPressed_def Tracker_OnLongPressed_def Let_def split_beta
          OnCommandButtonReleased_def Tracker_OnReleased_def flip: d1_def)
  next
    case False
    then show ?thesis using long(1) holding [OF long(2), of d] assms(2)
      by (auto simp: devices_run_append OnCommandButtonLongPressed_def OnCommandButtonReleased_def Let_def split_beta no_press)
  qed
qed

lemma gestures_complete:
  assumes "list_all gesture gs" "ds_press_tracker d = {}"
  shows "complete_presses (sent (fst (devices_run (concat gs) d))) \<and> ds_press_tracker (snd (devices_run (concat gs) d)) = {}"
  using assms
proof (induction gs arbitrary: d)
  case (Cons g gs)
  then show ?case using gesture_complete [of g d] Cons.IH [of "snd (devices_run g d)"]
    by (auto simp: devices_run_append Let_def split_beta intro: complete_append)
qed (simp add: no_press)

text \<open>
  C19: However the screen is used - short taps, long presses with any number of repeats, presses that turn
  into a drag, devices opened and left, the hub's configuration and connection changing at any moment, under
  the finger too - what is handed to the hub connection is a sequence of complete key presses: every press is
  followed by its holds and its release, of the same action, before the next one begins. No device is left
  believing that a key is down. (A gesture is one finger's, and LVGL ends it with a release event, after a drag
  too; a press that LVGL reports as lost instead of released is not modelled.)
\<close>

theorem no_key_left_down:
  assumes "list_all gesture gs"
  shows "complete_presses (sent (fst (devices_run (concat gs) (DevicesScreen_new v)))) \<and>
    ds_press_tracker (snd (devices_run (concat gs) (DevicesScreen_new v))) = {}"
  by (rule gestures_complete [OF assms]) (simp add: DevicesScreen_new_def RebuildDeviceList_def)

definition sample_gestures :: "devices_event list list" where
  "sample_gestures =
     [[DOpen sample_view 0], [DReleased 0 False 10],
      DLongPressed 3 20 # [DLongPressRepeat 3 30, DState kConnecting, DLongPressRepeat 3 40] @ [DReleased 3 True 50],
      [DReleased 1 True 60]]"

lemma sample_gestures_ok: "list_all gesture sample_gestures"
proof -
  have "gesture (DLongPressed 3 20 # [DLongPressRepeat 3 30, DState kConnecting, DLongPressRepeat 3 40] @ [DReleased 3 True 50])"
    by (rule gesture.long) simp
  then show ?thesis by (simp add: sample_gestures_def open_device short)
qed

lemma no_key_left_down_witness:
  "complete_presses [(''n1'', ''press''), (''n1'', ''release''),
     (''m'', ''press''), (''m'', ''hold''), (''m'', ''hold''), (''m'', ''release'')] \<and>
   sent (fst (devices_run (concat sample_gestures) (DevicesScreen_new sample_view))) =
     [(''n1'', ''press''), (''n1'', ''release''), (''m'', ''press''), (''m'', ''hold''), (''m'', ''hold''), (''m'', ''release'')]"
proof -
  have run: "sent (fst (devices_run (concat sample_gestures) (DevicesScreen_new sample_view))) =
     [(''n1'', ''press''), (''n1'', ''release''), (''m'', ''press''), (''m'', ''hold''), (''m'', ''hold''), (''m'', ''release'')]"
    by code_simp
  then show ?thesis using no_key_left_down [OF sample_gestures_ok, of sample_view] by (simp only: run)
qed

end
