(* ===== verification/Ui_Kodi.thy ===== *)
theory Ui_Kodi
  imports Kodi_Client Ui_Navigation
begin

text \<open>
  The Kodi screens of the touch interface: \<^verbatim>\<open>ui/kodi_display.cpp\<close>, \<^verbatim>\<open>ui/lazy_load.h\<close> with
  \<^verbatim>\<open>ui/screen_loader.cpp\<close>, the five browse screens (\<^verbatim>\<open>ui/screens/kodi_movies_screen.cpp\<close>,
  \<^verbatim>\<open>kodi_tv_shows_screen.cpp\<close>, \<^verbatim>\<open>kodi_music_screen.cpp\<close>, \<^verbatim>\<open>kodi_files_screen.cpp\<close>, \<^verbatim>\<open>kodi_live_tv_screen.cpp\<close>) and
  the two control screens (\<^verbatim>\<open>now_playing_screen.cpp\<close>, \<^verbatim>\<open>kodi_remote_screen.cpp\<close>). A screen is what it shows and
  what its handlers read; a handler returns the calls it makes on the Kodi client and on the navigation.
  A list widget is its rows: what of them is on the screen is the subject of the theory on lists.
\<close>

section \<open>Text\<close>

definition PrimaryTitle :: "kodi_now_playing \<Rightarrow> string" where
  "PrimaryTitle np = (if np_show_title np \<noteq> [] then np_show_title np else np_title np)"

definition TwoDigit :: "int \<Rightarrow> string" where
  "TwoDigit value = (let digits = to_string value in if length digits < 2 then ''0'' @ digits else digits)"

definition KodiWidgetLine :: "kodi_snapshot \<Rightarrow> string" where
  "KodiWidgetLine s =
     (case ks_state s of
        KConnecting \<Rightarrow> ''Connecting...''
      | KError \<Rightarrow> ''Not reachable''
      | KDisconnected \<Rightarrow>
          if target_configured s then ''Not reachable''
          else if 1 < length (discovered s) then ''Choose a Kodi in settings'' else ''Not configured''
      | KConnected \<Rightarrow>
          (let title = PrimaryTitle (now_playing s)
           in case np_playback (now_playing s) of
                kInactive \<Rightarrow> ''Idle''
              | kPaused \<Rightarrow> if title = [] then ''Paused'' else ''Paused: '' @ title
              | kPlaying \<Rightarrow> if title = [] then ''Playing'' else ''Playing: '' @ title))"

definition KodiNowPlayingSubtitle :: "kodi_now_playing \<Rightarrow> string" where
  "KodiNowPlayingSubtitle np =
     (if np_playback np = kInactive then ''Nothing playing''
      else if np_show_title np \<noteq> [] then
        np_show_title np @
        (if 0 \<le> np_season np \<and> 0 \<le> np_episode np
         then ''   S'' @ TwoDigit (np_season np) @ ''E'' @ TwoDigit (np_episode np) else []) @
        (if np_title np \<noteq> [] \<and> np_title np \<noteq> np_show_title np then ''  -  '' @ np_title np else [])
      else if np_title np \<noteq> [] then np_title np else ''Playing'')"

definition FormatKodiClock :: "int \<Rightarrow> string" where
  "FormatKodiClock milliseconds =
     (let ms = (if milliseconds < 0 then 0 else milliseconds);
          total_seconds = ms div 1000;
          hours = total_seconds div 3600;
          minutes = (total_seconds mod 3600) div 60;
          seconds = total_seconds mod 60
      in (if 0 < hours then to_string hours @ '':'' @ (if minutes < 10 then ''0'' else []) else []) @
         to_string minutes @ '':'' @ (if seconds < 10 then ''0'' else []) @ to_string seconds)"

section \<open>Calls\<close>

datatype kodi_call =
    OpenItem string int bool
  | OpenFile string
  | Fetch library_request
  | GoTo string
  | DoPlayPause
  | DoStop
  | DoSeekStep bool
  | DoVolumeStep bool
  | DoToggleMute
  | DoInput kodi_input

fun kodi_perform :: "json_lib \<Rightarrow> ms \<Rightarrow> kodi_call \<Rightarrow> 'w kodi \<Rightarrow> 'w kodi" where
  "kodi_perform L now (OpenItem field item resume) s = OpenLibraryItem L field item resume now s"
| "kodi_perform L now (OpenFile path) s = PlayFile L path now s"
| "kodi_perform L now (Fetch r) s = EnqueueLibraryRequest r s"
| "kodi_perform L now (GoTo route) s = s"
| "kodi_perform L now DoPlayPause s = PlayPause now s"
| "kodi_perform L now DoStop s = StopPlayback now s"
| "kodi_perform L now (DoSeekStep forward) s = SeekStep forward now s"
| "kodi_perform L now (DoVolumeStep up) s = VolumeStep up now s"
| "kodi_perform L now DoToggleMute s = ToggleMute now s"
| "kodi_perform L now (DoInput i) s = SendInput i now s"

section \<open>Loading on demand\<close>

text \<open>\<^verbatim>\<open>LazyLoad\<close> is its flag.\<close>

definition TakeIf :: "bool \<Rightarrow> bool \<Rightarrow> bool \<times> bool" where
  "TakeIf ready stale = (if \<not> stale \<or> \<not> ready then (False, stale) else (True, False))"

definition LazyLoad_OnConnected :: "bool \<Rightarrow> bool \<Rightarrow> bool \<times> bool" where
  "LazyLoad_OnConnected screen_active stale = TakeIf screen_active True"

definition LazyLoad_OnShown :: "bool \<Rightarrow> bool \<Rightarrow> bool \<times> bool" where
  "LazyLoad_OnShown online stale = TakeIf online stale"

definition Loader_OnLoaded :: "nat \<Rightarrow> bool \<Rightarrow> bool \<Rightarrow> bool" where
  "Loader_OnLoaded item_count truncated stale = (if truncated \<and> item_count = 0 then True else stale)"

section \<open>Lists\<close>

text \<open>Cleared (loading), or rows with the note that there are more.\<close>

datatype 'l list_view = Loading | Rows (row_labels: "'l list") bool

fun row_count :: "'l list_view \<Rightarrow> nat" where
  "row_count Loading = 0"
| "row_count (Rows ls t) = length ls"

definition title_year :: "string \<Rightarrow> int \<Rightarrow> string" where
  "title_year title year = (if 0 < year then title @ '' ('' @ to_string year @ '')'' else title)"

section \<open>Movies\<close>

text \<open>The events a browse screen sees: the connection's state (as the client reports it, as the event says,
  and whether the screen is on display), the screen being shown, replies, taps.\<close>

datatype browse_event =
    BState bool bool bool
  | BShown bool
  | BReply kodi_event
  | BRow nat nat
  | BBack bool nat
  | BPlay
  | BResume

record movies_screen =
  mv_stale :: bool
  mv_hint_hidden :: bool
  mv_list_hidden :: bool
  mv_detail_hidden :: bool
  mv_list :: "string list_view"
  mv_movies :: "kodi_movie list"
  mv_title :: string
  mv_resume_hidden :: bool
  selected_movie_id :: int

definition Movies_Refresh :: "bool \<Rightarrow> movies_screen \<Rightarrow> movies_screen" where
  "Movies_Refresh online s =
     (if online then s\<lparr>mv_hint_hidden := True, mv_detail_hidden := True, mv_list_hidden := False\<rparr>
      else s\<lparr>mv_list_hidden := True, mv_detail_hidden := True, mv_hint_hidden := False\<rparr>)"

definition RebuildMovieList :: "kodi_movie list \<Rightarrow> bool \<Rightarrow> movies_screen \<Rightarrow> movies_screen" where
  "RebuildMovieList movies truncated s =
     s\<lparr>mv_stale := Loader_OnLoaded (length movies) truncated (mv_stale s), mv_movies := movies,
       mv_list := Rows (map (\<lambda>m. title_year (movie_title m) (movie_year m)) movies) truncated\<rparr>"

definition ShowMovieDetail :: "int \<Rightarrow> movies_screen \<Rightarrow> movies_screen" where
  "ShowMovieDetail item s =
     (case List.find (\<lambda>m. movieid m = item) (mv_movies s) of
        None \<Rightarrow> s
      | Some m \<Rightarrow>
          s\<lparr>selected_movie_id := item, mv_title := label_text (movie_title m),
            mv_resume_hidden := \<not> 0 < movie_resume_position_ms m, mv_list_hidden := True, mv_detail_hidden := False\<rparr>)"

definition ShowMovieList :: "bool \<Rightarrow> movies_screen \<Rightarrow> movies_screen" where
  "ShowMovieList online s = s\<lparr>mv_detail_hidden := True, mv_list_hidden := (if online then False else mv_list_hidden s)\<rparr>"

definition movies_load :: "bool \<times> bool \<Rightarrow> movies_screen \<Rightarrow> kodi_call list \<times> movies_screen" where
  "movies_load taken s = (if fst taken then [Fetch (library_request kMovies 0 0 [])] else [], s\<lparr>mv_stale := snd taken\<rparr>)"

fun movies_step :: "browse_event \<Rightarrow> movies_screen \<Rightarrow> kodi_call list \<times> movies_screen" where
  "movies_step (BState online event_connected screen_active) s =
     (let s1 = Movies_Refresh online s
      in if event_connected then movies_load (LazyLoad_OnConnected screen_active (mv_stale s1)) s1 else ([], s1))"
| "movies_step (BShown online) s = movies_load (LazyLoad_OnShown online (mv_stale s)) s"
| "movies_step (BReply (KMoviesFetched movies truncated)) s = ([], RebuildMovieList movies truncated s)"
| "movies_step (BReply e) s = ([], s)"
| "movies_step (BRow level row) s =
     (if row < row_count (mv_list s) then ([], ShowMovieDetail (movieid (mv_movies s ! row)) s) else ([], s))"
| "movies_step (BBack online level) s = ([], ShowMovieList online s)"
| "movies_step BPlay s = ([OpenItem ''movieid'' (selected_movie_id s) False, GoTo kKodiNowPlaying], s)"
| "movies_step BResume s = ([OpenItem ''movieid'' (selected_movie_id s) True, GoTo kKodiNowPlaying], s)"

definition KodiMoviesScreen_new :: "bool \<Rightarrow> movies_screen" where
  "KodiMoviesScreen_new online =
     Movies_Refresh online
       \<lparr>mv_stale = True, mv_hint_hidden = False, mv_list_hidden = False, mv_detail_hidden = True, mv_list = Loading,
        mv_movies = [], mv_title = [], mv_resume_hidden = True, selected_movie_id = - 1\<rparr>"

section \<open>TV shows\<close>

definition SeasonHeading :: "string \<Rightarrow> int \<Rightarrow> string" where
  "SeasonHeading show_title season =
     show_title @ (if season = 0 then '' - Specials'' else '' - Season '' @ to_string season)"

record tv_screen =
  tv_stale :: bool
  tv_hint_hidden :: bool
  tv_shows_hidden :: bool
  tv_seasons_hidden :: bool
  tv_episodes_hidden :: bool
  tv_detail_hidden :: bool
  tv_shows_list :: "string list_view"
  tv_seasons_list :: "string list_view"
  tv_episodes_list :: "string list_view"
  tv_shows :: "kodi_tv_show list"
  tv_seasons :: "kodi_season list"
  tv_episodes :: "kodi_episode list"
  tv_seasons_title :: string
  tv_episodes_title :: string
  tv_episode_title :: string
  tv_resume_hidden :: bool
  selected_tvshowid :: int
  selected_show_title :: string
  selected_season :: int
  selected_episode_id :: int

definition Tv_Refresh :: "bool \<Rightarrow> tv_screen \<Rightarrow> tv_screen" where
  "Tv_Refresh online s =
     (if online
      then s\<lparr>tv_hint_hidden := True, tv_seasons_hidden := True, tv_episodes_hidden := True, tv_detail_hidden := True,
             tv_shows_hidden := False\<rparr>
      else s\<lparr>tv_shows_hidden := True, tv_seasons_hidden := True, tv_episodes_hidden := True, tv_detail_hidden := True,
             tv_hint_hidden := False\<rparr>)"

definition RebuildShowList :: "kodi_tv_show list \<Rightarrow> bool \<Rightarrow> tv_screen \<Rightarrow> tv_screen" where
  "RebuildShowList shows truncated s =
     s\<lparr>tv_stale := Loader_OnLoaded (length shows) truncated (tv_stale s), tv_shows := shows,
       tv_shows_list := Rows (map (\<lambda>x. title_year (show_name x) (show_year x)) shows) truncated\<rparr>"

definition RebuildSeasonList :: "kodi_season list \<Rightarrow> bool \<Rightarrow> tv_screen \<Rightarrow> tv_screen" where
  "RebuildSeasonList seasons truncated s =
     s\<lparr>tv_seasons := seasons, tv_seasons_list := Rows (map season_label seasons) truncated\<rparr>"

definition RebuildEpisodeList :: "kodi_episode list \<Rightarrow> bool \<Rightarrow> tv_screen \<Rightarrow> tv_screen" where
  "RebuildEpisodeList episodes truncated s =
     s\<lparr>tv_episodes := episodes,
       tv_episodes_list := Rows (map (\<lambda>x. to_string (episode_number x) @ ''. '' @ episode_title x) episodes) truncated\<rparr>"

definition ShowShowList :: "bool \<Rightarrow> tv_screen \<Rightarrow> tv_screen" where
  "ShowShowList online s = s\<lparr>tv_seasons_hidden := True, tv_shows_hidden := (if online then False else tv_shows_hidden s)\<rparr>"

definition ShowSeasonList :: "int \<Rightarrow> tv_screen \<Rightarrow> kodi_call list \<times> tv_screen" where
  "ShowSeasonList item s =
     (case List.find (\<lambda>x. tvshowid x = item) (tv_shows s) of
        None \<Rightarrow> ([], s)
      | Some x \<Rightarrow>
          ([Fetch (library_request kSeasons item 0 [])],
           s\<lparr>selected_tvshowid := item, selected_show_title := show_name x, tv_seasons_title := label_text (show_name x),
             tv_seasons_list := Loading, tv_seasons := [], tv_shows_hidden := True, tv_seasons_hidden := False\<rparr>))"

definition ShowEpisodeList :: "int \<Rightarrow> tv_screen \<Rightarrow> kodi_call list \<times> tv_screen" where
  "ShowEpisodeList season s =
     ([Fetch (library_request kEpisodes (selected_tvshowid s) season [])],
      s\<lparr>selected_season := season, tv_episodes_title := label_text (SeasonHeading (selected_show_title s) season),
        tv_episodes_list := Loading, tv_episodes := [], tv_seasons_hidden := True, tv_episodes_hidden := False\<rparr>)"

definition ShowEpisodeDetail :: "int \<Rightarrow> tv_screen \<Rightarrow> tv_screen" where
  "ShowEpisodeDetail item s =
     (case List.find (\<lambda>x. episodeid x = item) (tv_episodes s) of
        None \<Rightarrow> s
      | Some x \<Rightarrow>
          s\<lparr>selected_episode_id := item, tv_episode_title := label_text (episode_title x),
            tv_resume_hidden := \<not> 0 < episode_resume_position_ms x, tv_episodes_hidden := True, tv_detail_hidden := False\<rparr>)"

definition tv_load :: "bool \<times> bool \<Rightarrow> tv_screen \<Rightarrow> kodi_call list \<times> tv_screen" where
  "tv_load taken s = (if fst taken then [Fetch (library_request kTvShows 0 0 [])] else [], s\<lparr>tv_stale := snd taken\<rparr>)"

text \<open>Levels: 0 the shows, 1 the seasons, 2 the episodes; the back button of level 3 is the detail's.\<close>

definition tv_tap :: "nat \<Rightarrow> nat \<Rightarrow> tv_screen \<Rightarrow> kodi_call list \<times> tv_screen" where
  "tv_tap level row s =
     (if level = 0 \<and> row < row_count (tv_shows_list s) then ShowSeasonList (tvshowid (tv_shows s ! row)) s
      else if level = 1 \<and> row < row_count (tv_seasons_list s) then ShowEpisodeList (season_number (tv_seasons s ! row)) s
      else if level = 2 \<and> row < row_count (tv_episodes_list s) then ([], ShowEpisodeDetail (episodeid (tv_episodes s ! row)) s)
      else ([], s))"

definition tv_back :: "bool \<Rightarrow> nat \<Rightarrow> tv_screen \<Rightarrow> tv_screen" where
  "tv_back online level s =
     (if level = 1 then ShowShowList online s
      else if level = 2
      then s\<lparr>tv_episodes_hidden := True, tv_seasons_hidden := (if online then False else tv_seasons_hidden s)\<rparr>
      else if level = 3
      then s\<lparr>tv_detail_hidden := True, tv_episodes_hidden := (if online then False else tv_episodes_hidden s)\<rparr>
      else s)"

fun tv_step :: "browse_event \<Rightarrow> tv_screen \<Rightarrow> kodi_call list \<times> tv_screen" where
  "tv_step (BState online event_connected screen_active) s =
     (let s1 = Tv_Refresh online s
      in if event_connected then tv_load (LazyLoad_OnConnected screen_active (tv_stale s1)) s1 else ([], s1))"
| "tv_step (BShown online) s = tv_load (LazyLoad_OnShown online (tv_stale s)) s"
| "tv_step (BReply (KTvShowsFetched shows truncated)) s = ([], RebuildShowList shows truncated s)"
| "tv_step (BReply (KSeasonsFetched item seasons truncated)) s =
     ([], if item = selected_tvshowid s then RebuildSeasonList seasons truncated s else s)"
| "tv_step (BReply (KEpisodesFetched item season episodes truncated)) s =
     ([], if item = selected_tvshowid s \<and> season = selected_season s then RebuildEpisodeList episodes truncated s else s)"
| "tv_step (BReply e) s = ([], s)"
| "tv_step (BRow level row) s = tv_tap level row s"
| "tv_step (BBack online level) s = ([], tv_back online level s)"
| "tv_step BPlay s = ([OpenItem ''episodeid'' (selected_episode_id s) False, GoTo kKodiNowPlaying], s)"
| "tv_step BResume s = ([OpenItem ''episodeid'' (selected_episode_id s) True, GoTo kKodiNowPlaying], s)"

definition KodiTvShowsScreen_new :: "bool \<Rightarrow> tv_screen" where
  "KodiTvShowsScreen_new online =
     Tv_Refresh online
       \<lparr>tv_stale = True, tv_hint_hidden = False, tv_shows_hidden = False, tv_seasons_hidden = True, tv_episodes_hidden = True,
        tv_detail_hidden = True, tv_shows_list = Loading, tv_seasons_list = Loading, tv_episodes_list = Loading,
        tv_shows = [], tv_seasons = [], tv_episodes = [], tv_seasons_title = [], tv_episodes_title = [], tv_episode_title = [],
        tv_resume_hidden = True, selected_tvshowid = - 1, selected_show_title = [], selected_season = 0, selected_episode_id = - 1\<rparr>"

section \<open>Music\<close>

record music_screen =
  mu_stale :: bool
  mu_hint_hidden :: bool
  mu_artists_hidden :: bool
  mu_albums_hidden :: bool
  mu_songs_hidden :: bool
  mu_artists_list :: "string list_view"
  mu_albums_list :: "string list_view"
  mu_songs_list :: "string list_view"
  mu_artists :: "kodi_artist list"
  mu_albums :: "kodi_album list"
  mu_songs :: "kodi_song list"
  mu_albums_title :: string
  mu_songs_title :: string
  selected_artistid :: int
  selected_artist_name :: string

definition Music_Refresh :: "bool \<Rightarrow> music_screen \<Rightarrow> music_screen" where
  "Music_Refresh online s =
     (if online then s\<lparr>mu_hint_hidden := True, mu_albums_hidden := True, mu_songs_hidden := True, mu_artists_hidden := False\<rparr>
      else s\<lparr>mu_artists_hidden := True, mu_albums_hidden := True, mu_songs_hidden := True, mu_hint_hidden := False\<rparr>)"

definition RebuildArtistList :: "kodi_artist list \<Rightarrow> bool \<Rightarrow> music_screen \<Rightarrow> music_screen" where
  "RebuildArtistList artists truncated s =
     s\<lparr>mu_stale := Loader_OnLoaded (length artists) truncated (mu_stale s), mu_artists := artists,
       mu_artists_list := Rows (map artist_name artists) truncated\<rparr>"

definition RebuildAlbumList :: "kodi_album list \<Rightarrow> bool \<Rightarrow> music_screen \<Rightarrow> music_screen" where
  "RebuildAlbumList albums truncated s =
     s\<lparr>mu_albums := albums, mu_albums_list := Rows (map (\<lambda>a. title_year (album_title a) (album_year a)) albums) truncated\<rparr>"

definition song_label :: "kodi_song \<Rightarrow> string" where
  "song_label x =
     to_string (song_track x) @ ''. '' @ song_title x @ '' ('' @ FormatKodiClock (song_duration_seconds x * 1000) @ '')''"

definition RebuildSongList :: "kodi_song list \<Rightarrow> bool \<Rightarrow> music_screen \<Rightarrow> music_screen" where
  "RebuildSongList songs truncated s = s\<lparr>mu_songs := songs, mu_songs_list := Rows (map song_label songs) truncated\<rparr>"

definition ShowArtistList :: "bool \<Rightarrow> music_screen \<Rightarrow> music_screen" where
  "ShowArtistList online s = s\<lparr>mu_albums_hidden := True, mu_artists_hidden := (if online then False else mu_artists_hidden s)\<rparr>"

definition ShowAlbumList :: "int \<Rightarrow> music_screen \<Rightarrow> kodi_call list \<times> music_screen" where
  "ShowAlbumList item s =
     (case List.find (\<lambda>x. artistid x = item) (mu_artists s) of
        None \<Rightarrow> ([], s)
      | Some x \<Rightarrow>
          ([Fetch (library_request kAlbums item 0 [])],
           s\<lparr>selected_artistid := item, selected_artist_name := artist_name x, mu_albums_title := label_text (artist_name x),
             mu_albums_list := Loading, mu_albums := [], mu_artists_hidden := True, mu_albums_hidden := False\<rparr>))"

definition ShowSongList :: "int \<Rightarrow> music_screen \<Rightarrow> kodi_call list \<times> music_screen" where
  "ShowSongList item s =
     ([Fetch (library_request kSongs item 0 [])],
      s\<lparr>mu_songs_list := Loading, mu_songs := [], mu_songs_title := label_text (selected_artist_name s),
        mu_albums_hidden := True, mu_songs_hidden := False\<rparr>)"

definition music_load :: "bool \<times> bool \<Rightarrow> music_screen \<Rightarrow> kodi_call list \<times> music_screen" where
  "music_load taken s = (if fst taken then [Fetch (library_request kArtists 0 0 [])] else [], s\<lparr>mu_stale := snd taken\<rparr>)"

definition music_tap :: "nat \<Rightarrow> nat \<Rightarrow> music_screen \<Rightarrow> kodi_call list \<times> music_screen" where
  "music_tap level row s =
     (if level = 0 \<and> row < row_count (mu_artists_list s) then ShowAlbumList (artistid (mu_artists s ! row)) s
      else if level = 1 \<and> row < row_count (mu_albums_list s) then ShowSongList (albumid (mu_albums s ! row)) s
      else if level = 2 \<and> row < row_count (mu_songs_list s)
      then ([OpenItem ''songid'' (songid (mu_songs s ! row)) False, GoTo kKodiNowPlaying], s)
      else ([], s))"

definition music_back :: "bool \<Rightarrow> nat \<Rightarrow> music_screen \<Rightarrow> music_screen" where
  "music_back online level s =
     (if level = 1 then ShowArtistList online s
      else if level = 2
      then s\<lparr>mu_songs_hidden := True, mu_albums_hidden := (if online then False else mu_albums_hidden s)\<rparr>
      else s)"

fun music_step :: "browse_event \<Rightarrow> music_screen \<Rightarrow> kodi_call list \<times> music_screen" where
  "music_step (BState online event_connected screen_active) s =
     (let s1 = Music_Refresh online s
      in if event_connected then music_load (LazyLoad_OnConnected screen_active (mu_stale s1)) s1 else ([], s1))"
| "music_step (BShown online) s = music_load (LazyLoad_OnShown online (mu_stale s)) s"
| "music_step (BReply (KArtistsFetched artists truncated)) s = ([], RebuildArtistList artists truncated s)"
| "music_step (BReply (KAlbumsFetched item albums truncated)) s =
     ([], if item = selected_artistid s then RebuildAlbumList albums truncated s else s)"
| "music_step (BReply (KSongsFetched item songs truncated)) s = ([], RebuildSongList songs truncated s)"
| "music_step (BReply e) s = ([], s)"
| "music_step (BRow level row) s = music_tap level row s"
| "music_step (BBack online level) s = ([], music_back online level s)"
| "music_step BPlay s = ([], s)"
| "music_step BResume s = ([], s)"

definition KodiMusicScreen_new :: "bool \<Rightarrow> music_screen" where
  "KodiMusicScreen_new online =
     Music_Refresh online
       \<lparr>mu_stale = True, mu_hint_hidden = False, mu_artists_hidden = False, mu_albums_hidden = True, mu_songs_hidden = True,
        mu_artists_list = Loading, mu_albums_list = Loading, mu_songs_list = Loading, mu_artists = [], mu_albums = [], mu_songs = [],
        mu_albums_title = [], mu_songs_title = [], selected_artistid = - 1, selected_artist_name = []\<rparr>"

section \<open>Live TV\<close>

record live_screen =
  li_stale :: bool
  li_hint_hidden :: bool
  li_groups_hidden :: bool
  li_channels_hidden :: bool
  li_groups_list :: "string list_view"
  li_channels_list :: "string list_view"
  li_groups :: "kodi_channel_group list"
  li_channels :: "kodi_channel list"
  li_channels_title :: string
  selected_channelgroupid :: int

definition Live_Refresh :: "bool \<Rightarrow> live_screen \<Rightarrow> live_screen" where
  "Live_Refresh online s =
     (if online then s\<lparr>li_hint_hidden := True, li_channels_hidden := True, li_groups_hidden := False\<rparr>
      else s\<lparr>li_groups_hidden := True, li_channels_hidden := True, li_hint_hidden := False\<rparr>)"

definition RebuildGroupList :: "kodi_channel_group list \<Rightarrow> bool \<Rightarrow> live_screen \<Rightarrow> live_screen" where
  "RebuildGroupList groups truncated s =
     s\<lparr>li_stale := Loader_OnLoaded (length groups) truncated (li_stale s), li_groups := groups,
       li_groups_list := Rows (map group_label groups) truncated\<rparr>"

definition RebuildChannelList :: "kodi_channel list \<Rightarrow> bool \<Rightarrow> live_screen \<Rightarrow> live_screen" where
  "RebuildChannelList channels truncated s =
     s\<lparr>li_channels := channels, li_channels_list := Rows (map channel_label channels) truncated\<rparr>"

definition ShowGroupList :: "bool \<Rightarrow> live_screen \<Rightarrow> live_screen" where
  "ShowGroupList online s = s\<lparr>li_channels_hidden := True, li_groups_hidden := (if online then False else li_groups_hidden s)\<rparr>"

definition ShowChannelList :: "int \<Rightarrow> live_screen \<Rightarrow> kodi_call list \<times> live_screen" where
  "ShowChannelList item s =
     (case List.find (\<lambda>x. channelgroupid x = item) (li_groups s) of
        None \<Rightarrow> ([], s)
      | Some x \<Rightarrow>
          ([Fetch (library_request kChannels item 0 [])],
           s\<lparr>selected_channelgroupid := item, li_channels_title := label_text (group_label x),
             li_channels_list := Loading, li_channels := [], li_groups_hidden := True, li_channels_hidden := False\<rparr>))"

definition live_load :: "bool \<times> bool \<Rightarrow> live_screen \<Rightarrow> kodi_call list \<times> live_screen" where
  "live_load taken s = (if fst taken then [Fetch (library_request kChannelGroups 0 0 [])] else [], s\<lparr>li_stale := snd taken\<rparr>)"

definition live_tap :: "nat \<Rightarrow> nat \<Rightarrow> live_screen \<Rightarrow> kodi_call list \<times> live_screen" where
  "live_tap level row s =
     (if level = 0 \<and> row < row_count (li_groups_list s) then ShowChannelList (channelgroupid (li_groups s ! row)) s
      else if level = 1 \<and> row < row_count (li_channels_list s)
      then ([OpenItem ''channelid'' (channelid (li_channels s ! row)) False, GoTo kKodiNowPlaying], s)
      else ([], s))"

fun live_step :: "browse_event \<Rightarrow> live_screen \<Rightarrow> kodi_call list \<times> live_screen" where
  "live_step (BState online event_connected screen_active) s =
     (let s1 = Live_Refresh online s
      in if event_connected then live_load (LazyLoad_OnConnected screen_active (li_stale s1)) s1 else ([], s1))"
| "live_step (BShown online) s = live_load (LazyLoad_OnShown online (li_stale s)) s"
| "live_step (BReply (KChannelGroupsFetched groups truncated)) s = ([], RebuildGroupList groups truncated s)"
| "live_step (BReply (KChannelsFetched item channels truncated)) s =
     ([], if item = selected_channelgroupid s then RebuildChannelList channels truncated s else s)"
| "live_step (BReply e) s = ([], s)"
| "live_step (BRow level row) s = live_tap level row s"
| "live_step (BBack online level) s = ([], ShowGroupList online s)"
| "live_step BPlay s = ([], s)"
| "live_step BResume s = ([], s)"

definition KodiLiveTvScreen_new :: "bool \<Rightarrow> live_screen" where
  "KodiLiveTvScreen_new online =
     Live_Refresh online
       \<lparr>li_stale = True, li_hint_hidden = False, li_groups_hidden = False, li_channels_hidden = True, li_groups_list = Loading,
        li_channels_list = Loading, li_groups = [], li_channels = [], li_channels_title = [], selected_channelgroupid = - 1\<rparr>"

section \<open>Files\<close>

datatype file_icon = IconDirectory | IconFile

record files_screen =
  fi_stale :: bool
  fi_hint_hidden :: bool
  fi_content_hidden :: bool
  fi_back_hidden :: bool
  fi_heading :: string
  fi_list :: "(file_icon \<times> string) list_view"
  fi_items :: "kodi_file_item list"
  path_stack :: "(string \<times> string) list"
  requested_path :: string

definition Files_Refresh :: "bool \<Rightarrow> files_screen \<Rightarrow> files_screen" where
  "Files_Refresh online s =
     (if online then s\<lparr>fi_hint_hidden := True, fi_content_hidden := False\<rparr>
      else s\<lparr>fi_content_hidden := True, fi_hint_hidden := False\<rparr>)"

definition RequestCurrentLevel :: "files_screen \<Rightarrow> kodi_call list \<times> files_screen" where
  "RequestCurrentLevel s =
     (let path = (if path_stack s = [] then [] else fst (List.last (path_stack s)));
          s1 = s\<lparr>requested_path := path,
                 fi_heading := (if path_stack s = [] then [] else label_text (snd (List.last (path_stack s)))),
                 fi_list := Loading, fi_back_hidden := (path_stack s = [])\<rparr>
      in ([Fetch (if path_stack s = [] then library_request kFileSources 0 0 [] else library_request kDirectory 0 0 path)], s1))"

definition file_row :: "kodi_file_item \<Rightarrow> file_icon \<times> string" where
  "file_row x = (if file_is_folder x then IconDirectory else IconFile, '' '' @ file_label x)"

definition RebuildList :: "kodi_file_item list \<Rightarrow> bool \<Rightarrow> files_screen \<Rightarrow> files_screen" where
  "RebuildList items truncated s = s\<lparr>fi_items := items, fi_list := Rows (map file_row items) truncated\<rparr>"

definition Enter :: "kodi_file_item \<Rightarrow> files_screen \<Rightarrow> kodi_call list \<times> files_screen" where
  "Enter x s =
     (if file_is_folder x then RequestCurrentLevel (s\<lparr>path_stack := path_stack s @ [(file_path x, file_label x)]\<rparr>)
      else ([OpenFile (file_path x), GoTo kKodiNowPlaying], s))"

definition GoBack :: "files_screen \<Rightarrow> kodi_call list \<times> files_screen" where
  "GoBack s = (if path_stack s = [] then ([], s) else RequestCurrentLevel (s\<lparr>path_stack := butlast (path_stack s)\<rparr>))"

definition files_load :: "bool \<times> bool \<Rightarrow> files_screen \<Rightarrow> kodi_call list \<times> files_screen" where
  "files_load taken s =
     (let s1 = s\<lparr>fi_stale := snd taken\<rparr> in if fst taken then RequestCurrentLevel s1 else ([], s1))"

fun files_step :: "browse_event \<Rightarrow> files_screen \<Rightarrow> kodi_call list \<times> files_screen" where
  "files_step (BState online event_connected screen_active) s =
     (let s1 = Files_Refresh online s
      in if event_connected then files_load (LazyLoad_OnConnected screen_active (fi_stale s1)) s1 else ([], s1))"
| "files_step (BShown online) s = files_load (LazyLoad_OnShown online (fi_stale s)) s"
| "files_step (BReply (KFilesFetched path items truncated)) s =
     (if path = requested_path s
      then ([], let s1 = RebuildList items truncated s in s1\<lparr>fi_stale := Loader_OnLoaded (length items) truncated (fi_stale s1)\<rparr>)
      else ([], s))"
| "files_step (BReply e) s = ([], s)"
| "files_step (BRow level row) s = (if row < row_count (fi_list s) then Enter (fi_items s ! row) s else ([], s))"
| "files_step (BBack online level) s = GoBack s"
| "files_step BPlay s = ([], s)"
| "files_step BResume s = ([], s)"

definition KodiFilesScreen_new :: "bool \<Rightarrow> files_screen" where
  "KodiFilesScreen_new online =
     Files_Refresh online
       \<lparr>fi_stale = True, fi_hint_hidden = False, fi_content_hidden = False, fi_back_hidden = True, fi_heading = [], fi_list = Loading,
        fi_items = [], path_stack = [], requested_path = []\<rparr>"

section \<open>Now playing and remote\<close>

definition kBarRange :: int where "kBarRange = 1000"

datatype play_pause_face = FacePlay | FacePause

record now_playing_screen =
  nps_content_hidden :: bool
  nps_hint_hidden :: bool
  nps_busy_hidden :: bool
  nps_subtitle :: string
  nps_bar :: int
  nps_time :: string
  nps_face :: play_pause_face
  nps_seek_disabled :: bool

text \<open>\<open>trunc32\<close> is the conversion of a double to \<^verbatim>\<open>int32_t\<close>, towards zero where the value fits.\<close>

definition bar_value :: "(real \<Rightarrow> int) \<Rightarrow> kodi_now_playing \<Rightarrow> int" where
  "bar_value trunc32 np =
     (if 0 < np_duration_ms np then clamp (trunc32 (np_percent np * 10)) 0 kBarRange else 0)"

definition NowPlaying_Refresh :: "(real \<Rightarrow> int) \<Rightarrow> kodi_snapshot \<Rightarrow> now_playing_screen \<Rightarrow> now_playing_screen" where
  "NowPlaying_Refresh trunc32 snapshot s =
     (if ks_state snapshot \<noteq> KConnected then s\<lparr>nps_content_hidden := True, nps_hint_hidden := False\<rparr>
      else
        (let np = now_playing snapshot
         in s\<lparr>nps_content_hidden := False, nps_hint_hidden := True, nps_busy_hidden := \<not> snap_library_busy snapshot,
              nps_subtitle := label_text (KodiNowPlayingSubtitle np), nps_bar := bar_value trunc32 np,
              nps_time := FormatKodiClock (np_position_ms np) @ '' / '' @ FormatKodiClock (np_duration_ms np),
              nps_face := (if np_playback np = kPlaying then FacePause else FacePlay), nps_seek_disabled := \<not> np_can_seek np\<rparr>))"

datatype now_playing_action =
    APlayPause | AStop | ASeekBack | ASeekForward | AVolumeDown | AVolumeUp | AMute
  | AOpenRemote | AOpenMovies | AOpenTvShows | AOpenMusic | AOpenFiles | AOpenLiveTv

fun OnActionClicked :: "now_playing_action \<Rightarrow> kodi_call list" where
  "OnActionClicked APlayPause = [DoPlayPause]"
| "OnActionClicked AStop = [DoStop]"
| "OnActionClicked ASeekBack = [DoSeekStep False]"
| "OnActionClicked ASeekForward = [DoSeekStep True]"
| "OnActionClicked AVolumeDown = [DoVolumeStep False]"
| "OnActionClicked AVolumeUp = [DoVolumeStep True]"
| "OnActionClicked AMute = [DoToggleMute]"
| "OnActionClicked AOpenRemote = [GoTo kKodiRemote]"
| "OnActionClicked AOpenMovies = [GoTo kKodiMovies]"
| "OnActionClicked AOpenTvShows = [GoTo kKodiTvShows]"
| "OnActionClicked AOpenMusic = [GoTo kKodiMusic]"
| "OnActionClicked AOpenFiles = [GoTo kKodiFiles]"
| "OnActionClicked AOpenLiveTv = [GoTo kKodiLiveTv]"

definition Remote_Refresh :: "kodi_snapshot \<Rightarrow> bool \<times> bool \<times> bool" where
  "Remote_Refresh snapshot =
     (\<not> snap_library_busy snapshot, ks_state snapshot \<noteq> KConnected, ks_state snapshot = KConnected)"

definition OnInputClicked :: "kodi_input \<Rightarrow> kodi_call list" where
  "OnInputClicked i = [DoInput i]"

text \<open>The bar stays within its range whatever position the player reports.\<close>

lemma bar_value_range: "0 \<le> bar_value t np \<and> bar_value t np \<le> 1000"
  using clamp_bounds [of 0 kBarRange] by (simp add: bar_value_def kBarRange_def)

section \<open>What can be touched\<close>

text \<open>A tap reaches what is visible.\<close>

fun movies_allowed :: "browse_event \<Rightarrow> movies_screen \<Rightarrow> bool" where
  "movies_allowed (BRow level row) s \<longleftrightarrow> \<not> mv_list_hidden s"
| "movies_allowed (BBack online level) s \<longleftrightarrow> \<not> mv_detail_hidden s"
| "movies_allowed BPlay s \<longleftrightarrow> \<not> mv_detail_hidden s"
| "movies_allowed BResume s \<longleftrightarrow> \<not> mv_detail_hidden s \<and> \<not> mv_resume_hidden s"
| "movies_allowed e s \<longleftrightarrow> True"

fun tv_visible :: "nat \<Rightarrow> tv_screen \<Rightarrow> bool" where
  "tv_visible level s \<longleftrightarrow>
     (if level = 0 then \<not> tv_shows_hidden s else if level = 1 then \<not> tv_seasons_hidden s
      else if level = 2 then \<not> tv_episodes_hidden s else if level = 3 then \<not> tv_detail_hidden s else False)"

fun tv_allowed :: "browse_event \<Rightarrow> tv_screen \<Rightarrow> bool" where
  "tv_allowed (BRow level row) s \<longleftrightarrow> tv_visible level s"
| "tv_allowed (BBack online level) s \<longleftrightarrow> tv_visible level s"
| "tv_allowed BPlay s \<longleftrightarrow> tv_visible 3 s"
| "tv_allowed BResume s \<longleftrightarrow> tv_visible 3 s \<and> \<not> tv_resume_hidden s"
| "tv_allowed e s \<longleftrightarrow> True"

fun music_visible :: "nat \<Rightarrow> music_screen \<Rightarrow> bool" where
  "music_visible level s \<longleftrightarrow>
     (if level = 0 then \<not> mu_artists_hidden s else if level = 1 then \<not> mu_albums_hidden s
      else if level = 2 then \<not> mu_songs_hidden s else False)"

fun music_allowed :: "browse_event \<Rightarrow> music_screen \<Rightarrow> bool" where
  "music_allowed (BRow level row) s \<longleftrightarrow> music_visible level s"
| "music_allowed (BBack online level) s \<longleftrightarrow> music_visible level s"
| "music_allowed e s \<longleftrightarrow> True"

fun live_allowed :: "browse_event \<Rightarrow> live_screen \<Rightarrow> bool" where
  "live_allowed (BRow level row) s \<longleftrightarrow>
     (if level = 0 then \<not> li_groups_hidden s else if level = 1 then \<not> li_channels_hidden s else False)"
| "live_allowed (BBack online level) s \<longleftrightarrow> \<not> li_channels_hidden s"
| "live_allowed e s \<longleftrightarrow> True"

fun files_allowed :: "browse_event \<Rightarrow> files_screen \<Rightarrow> bool" where
  "files_allowed (BRow level row) s \<longleftrightarrow> \<not> fi_content_hidden s"
| "files_allowed (BBack online level) s \<longleftrightarrow> \<not> fi_content_hidden s \<and> \<not> fi_back_hidden s"
| "files_allowed e s \<longleftrightarrow> True"

fun browse_ok :: "('e \<Rightarrow> 's \<Rightarrow> bool) \<Rightarrow> ('e \<Rightarrow> 's \<Rightarrow> 'c list \<times> 's) \<Rightarrow> 'e list \<Rightarrow> 's \<Rightarrow> bool" where
  "browse_ok allowed step [] s \<longleftrightarrow> True"
| "browse_ok allowed step (e # es) s \<longleftrightarrow> allowed e s \<and> browse_ok allowed step es (snd (step e s))"

definition browse_after :: "('e \<Rightarrow> 's \<Rightarrow> 'c list \<times> 's) \<Rightarrow> 'e list \<Rightarrow> 's \<Rightarrow> 's" where
  "browse_after step es s = fold (\<lambda>e s. snd (step e s)) es s"

lemma browse_after_simps [simp]:
  "browse_after step [] s = s" "browse_after step (e # es) s = browse_after step es (snd (step e s))"
  by (simp_all add: browse_after_def)

section \<open>A level of a browse screen\<close>

text \<open>
  What every level below the top of a browse screen promises: it has a key (what was opened), rows, and an
  open state; while it stays open its rows change only by being cleared or by a reply for its key, and it
  is empty when it opens. Then whatever is on offer was answered for what is open.
\<close>

locale browse_level =
  fixes step :: "browse_event \<Rightarrow> 's \<Rightarrow> kodi_call list \<times> 's"
    and allowed :: "browse_event \<Rightarrow> 's \<Rightarrow> bool"
    and inv :: "'s \<Rightarrow> bool"
    and is_open :: "'s \<Rightarrow> bool"
    and key :: "'s \<Rightarrow> 'k"
    and rows :: "'s \<Rightarrow> 'i list"
    and reply :: "browse_event \<Rightarrow> ('k \<times> 'i list) option"
  assumes inv_step: "inv s \<Longrightarrow> allowed e s \<Longrightarrow> inv (snd (step e s))"
    and opens_empty: "inv s \<Longrightarrow> allowed e s \<Longrightarrow> \<not> is_open s \<Longrightarrow> is_open (snd (step e s)) \<Longrightarrow> rows (snd (step e s)) = []"
    and stays: "inv s \<Longrightarrow> allowed e s \<Longrightarrow> is_open s \<Longrightarrow> is_open (snd (step e s)) \<Longrightarrow>
      key (snd (step e s)) = key s \<and> rows (snd (step e s)) = rows s \<or> rows (snd (step e s)) = [] \<or>
      reply e = Some (key (snd (step e s)), rows (snd (step e s)))"
begin

lemma rows_answered_from:
  assumes "browse_ok allowed step es s" "inv s" "is_open s \<longrightarrow> rows s = [] \<or> (\<exists>e \<in> set past. reply e = Some (key s, rows s))"
    and "is_open (browse_after step es s)"
  shows "rows (browse_after step es s) = [] \<or>
    (\<exists>e \<in> set (past @ es). reply e = Some (key (browse_after step es s), rows (browse_after step es s)))"
  using assms
proof (induction es arbitrary: s past)
  case (Cons e es)
  let ?s = "snd (step e s)"
  have "is_open ?s \<longrightarrow> rows ?s = [] \<or> (\<exists>e' \<in> set (past @ [e]). reply e' = Some (key ?s, rows ?s))"
    using Cons.prems(1-3) opens_empty [of s e] stays [of s e] by (cases "is_open s") auto
  from Cons.IH [OF _ _ this] Cons.prems inv_step [of s e] show ?case by simp
qed simp

lemma rows_answered:
  assumes "browse_ok allowed step es s" "inv s" "rows s = []" "is_open (browse_after step es s)"
  shows "rows (browse_after step es s) = [] \<or>
    (\<exists>e \<in> set es. reply e = Some (key (browse_after step es s), rows (browse_after step es s)))"
  using rows_answered_from [of es s "[]"] assms by simp

end

section \<open>The levels of the screens\<close>

text \<open>At most one container is visible, and a list shows the rows its handlers read.\<close>

fun one_visible :: "bool list \<Rightarrow> bool" where
  "one_visible [] \<longleftrightarrow> True"
| "one_visible (hidden # rest) \<longleftrightarrow> (hidden \<or> list_all (\<lambda>h. h) rest) \<and> one_visible rest"

fun list_shows :: "('i \<Rightarrow> 'l) \<Rightarrow> 'l list_view \<Rightarrow> 'i list \<Rightarrow> bool" where
  "list_shows f Loading xs \<longleftrightarrow> xs = []"
| "list_shows f (Rows ls t) xs \<longleftrightarrow> ls = map f xs"

lemma list_shows_count: "list_shows f l xs \<Longrightarrow> row_count l = length xs"
  by (cases l) auto

definition tv_inv :: "tv_screen \<Rightarrow> bool" where
  "tv_inv s \<longleftrightarrow>
     one_visible [tv_hint_hidden s, tv_shows_hidden s, tv_seasons_hidden s, tv_episodes_hidden s, tv_detail_hidden s] \<and>
     list_shows (\<lambda>x. title_year (show_name x) (show_year x)) (tv_shows_list s) (tv_shows s) \<and>
     list_shows season_label (tv_seasons_list s) (tv_seasons s) \<and>
     list_shows (\<lambda>x. to_string (episode_number x) @ ''. '' @ episode_title x) (tv_episodes_list s) (tv_episodes s)"

definition music_inv :: "music_screen \<Rightarrow> bool" where
  "music_inv s \<longleftrightarrow>
     one_visible [mu_hint_hidden s, mu_artists_hidden s, mu_albums_hidden s, mu_songs_hidden s] \<and>
     list_shows artist_name (mu_artists_list s) (mu_artists s) \<and>
     list_shows (\<lambda>a. title_year (album_title a) (album_year a)) (mu_albums_list s) (mu_albums s) \<and>
     list_shows song_label (mu_songs_list s) (mu_songs s)"

definition live_inv :: "live_screen \<Rightarrow> bool" where
  "live_inv s \<longleftrightarrow>
     one_visible [li_hint_hidden s, li_groups_hidden s, li_channels_hidden s] \<and>
     list_shows group_label (li_groups_list s) (li_groups s) \<and> list_shows channel_label (li_channels_list s) (li_channels s)"

definition files_rows :: "files_screen \<Rightarrow> kodi_file_item list" where
  "files_rows s = (if fi_list s = Loading then [] else fi_items s)"

definition files_inv :: "files_screen \<Rightarrow> bool" where
  "files_inv s \<longleftrightarrow> one_visible [fi_hint_hidden s, fi_content_hidden s] \<and> list_shows file_row (fi_list s) (files_rows s)"

fun seasons_reply :: "browse_event \<Rightarrow> (int \<times> kodi_season list) option" where
  "seasons_reply (BReply (KSeasonsFetched k xs t)) = Some (k, xs)"
| "seasons_reply e = None"

fun episodes_reply :: "browse_event \<Rightarrow> ((int \<times> int) \<times> kodi_episode list) option" where
  "episodes_reply (BReply (KEpisodesFetched k season xs t)) = Some ((k, season), xs)"
| "episodes_reply e = None"

fun albums_reply :: "browse_event \<Rightarrow> (int \<times> kodi_album list) option" where
  "albums_reply (BReply (KAlbumsFetched k xs t)) = Some (k, xs)"
| "albums_reply e = None"

fun songs_reply :: "browse_event \<Rightarrow> (int \<times> kodi_song list) option" where
  "songs_reply (BReply (KSongsFetched k xs t)) = Some (k, xs)"
| "songs_reply e = None"

fun channels_reply :: "browse_event \<Rightarrow> (int \<times> kodi_channel list) option" where
  "channels_reply (BReply (KChannelsFetched k xs t)) = Some (k, xs)"
| "channels_reply e = None"

fun files_reply :: "browse_event \<Rightarrow> (string \<times> kodi_file_item list) option" where
  "files_reply (BReply (KFilesFetched k xs t)) = Some (k, xs)"
| "files_reply e = None"

lemmas tv_screen_defs =
  Tv_Refresh_def RebuildShowList_def RebuildSeasonList_def RebuildEpisodeList_def ShowShowList_def ShowSeasonList_def
  ShowEpisodeList_def ShowEpisodeDetail_def tv_load_def tv_tap_def tv_back_def

lemmas music_screen_defs =
  Music_Refresh_def RebuildArtistList_def RebuildAlbumList_def RebuildSongList_def ShowArtistList_def ShowAlbumList_def
  ShowSongList_def music_load_def music_tap_def music_back_def

lemmas live_screen_defs =
  Live_Refresh_def RebuildGroupList_def RebuildChannelList_def ShowGroupList_def ShowChannelList_def live_load_def live_tap_def
 

lemmas files_screen_defs =
  Files_Refresh_def RequestCurrentLevel_def RebuildList_def Enter_def GoBack_def files_load_def files_rows_def

lemma browse_event_cases:
  obtains (State) online connected_event active where "e = BState online connected_event active"
  | (Shown) online where "e = BShown online"
  | (Reply) k where "e = BReply k"
  | (Row) level row where "e = BRow level row"
  | (Back) online level where "e = BBack online level"
  | (Play) "e = BPlay"
  | (Resume) "e = BResume"
  by (cases e) auto

lemma tv_inv_step: "tv_inv s \<Longrightarrow> tv_allowed e s \<Longrightarrow> tv_inv (snd (tv_step e s))"
proof (cases e rule: browse_event_cases)
  case (Reply k)
  assume "tv_inv s"
  then show ?thesis using Reply by (cases k) (auto simp: tv_inv_def tv_screen_defs)
qed (auto simp: tv_inv_def tv_screen_defs Let_def split: option.splits if_splits)

lemma music_inv_step: "music_inv s \<Longrightarrow> music_allowed e s \<Longrightarrow> music_inv (snd (music_step e s))"
proof (cases e rule: browse_event_cases)
  case (Reply k)
  assume "music_inv s"
  then show ?thesis using Reply by (cases k) (auto simp: music_inv_def music_screen_defs)
qed (auto simp: music_inv_def music_screen_defs Let_def split: option.splits if_splits)

lemma live_inv_step: "live_inv s \<Longrightarrow> live_allowed e s \<Longrightarrow> live_inv (snd (live_step e s))"
proof (cases e rule: browse_event_cases)
  case (Reply k)
  assume "live_inv s"
  then show ?thesis using Reply by (cases k) (auto simp: live_inv_def live_screen_defs)
qed (auto simp: live_inv_def live_screen_defs Let_def split: option.splits if_splits)

lemma files_inv_step: "files_inv s \<Longrightarrow> files_allowed e s \<Longrightarrow> files_inv (snd (files_step e s))"
proof (cases e rule: browse_event_cases)
  case (Reply k)
  assume "files_inv s"
  then show ?thesis using Reply by (cases k) (auto simp: files_inv_def files_screen_defs Let_def split: if_splits)
qed (auto simp: files_inv_def files_screen_defs Let_def split: option.splits if_splits)

abbreviation seasons_open :: "tv_screen \<Rightarrow> bool" where
  "seasons_open s \<equiv> \<not> tv_seasons_hidden s \<or> \<not> tv_episodes_hidden s \<or> \<not> tv_detail_hidden s"

abbreviation episodes_open :: "tv_screen \<Rightarrow> bool" where
  "episodes_open s \<equiv> \<not> tv_episodes_hidden s \<or> \<not> tv_detail_hidden s"

abbreviation albums_open :: "music_screen \<Rightarrow> bool" where
  "albums_open s \<equiv> \<not> mu_albums_hidden s \<or> \<not> mu_songs_hidden s"

interpretation seasons: browse_level tv_step tv_allowed tv_inv seasons_open selected_tvshowid tv_seasons seasons_reply
proof (unfold_locales, goal_cases)
  case (1 s e)
  then show ?case by (rule tv_inv_step)
next
  case (2 s e)
  then show ?case
  proof (cases e rule: browse_event_cases)
    case (Reply k)
    then show ?thesis using 2 by (cases k) (auto simp: tv_screen_defs split: if_splits)
  qed (auto simp: tv_screen_defs Let_def split: option.splits if_splits)
next
  case (3 s e)
  then show ?case
  proof (cases e rule: browse_event_cases)
    case (Reply k)
    then show ?thesis by (cases k) (auto simp: tv_screen_defs)
  qed (auto simp: tv_inv_def tv_screen_defs Let_def split: option.splits if_splits)
qed

interpretation episodes: browse_level tv_step tv_allowed tv_inv episodes_open "\<lambda>s. (selected_tvshowid s, selected_season s)"
  tv_episodes episodes_reply
proof (unfold_locales, goal_cases)
  case (1 s e)
  then show ?case by (rule tv_inv_step)
next
  case (2 s e)
  then show ?case
  proof (cases e rule: browse_event_cases)
    case (Reply k)
    then show ?thesis using 2 by (cases k) (auto simp: tv_screen_defs split: if_splits)
  qed (auto simp: tv_inv_def tv_screen_defs Let_def split: option.splits if_splits)
next
  case (3 s e)
  then show ?case
  proof (cases e rule: browse_event_cases)
    case (Reply k)
    then show ?thesis by (cases k) (auto simp: tv_screen_defs)
  qed (auto simp: tv_inv_def tv_screen_defs Let_def split: option.splits if_splits)
qed

interpretation albums: browse_level music_step music_allowed music_inv albums_open selected_artistid mu_albums albums_reply
proof (unfold_locales, goal_cases)
  case (1 s e)
  then show ?case by (rule music_inv_step)
next
  case (2 s e)
  then show ?case
  proof (cases e rule: browse_event_cases)
    case (Reply k)
    then show ?thesis using 2 by (cases k) (auto simp: music_screen_defs split: if_splits)
  qed (auto simp: music_screen_defs Let_def split: option.splits if_splits)
next
  case (3 s e)
  then show ?case
  proof (cases e rule: browse_event_cases)
    case (Reply k)
    then show ?thesis by (cases k) (auto simp: music_screen_defs)
  qed (auto simp: music_inv_def music_screen_defs Let_def split: option.splits if_splits)
qed

interpretation channels: browse_level live_step live_allowed live_inv "\<lambda>s. \<not> li_channels_hidden s" selected_channelgroupid li_channels
  channels_reply
proof (unfold_locales, goal_cases)
  case (1 s e)
  then show ?case by (rule live_inv_step)
next
  case (2 s e)
  then show ?case
  proof (cases e rule: browse_event_cases)
    case (Reply k)
    then show ?thesis using 2 by (cases k) (auto simp: live_screen_defs split: if_splits)
  qed (auto simp: live_screen_defs Let_def split: option.splits if_splits)
next
  case (3 s e)
  then show ?case
  proof (cases e rule: browse_event_cases)
    case (Reply k)
    then show ?thesis by (cases k) (auto simp: live_screen_defs)
  qed (auto simp: live_inv_def live_screen_defs Let_def split: option.splits if_splits)
qed

interpretation directories: browse_level files_step files_allowed files_inv "\<lambda>s. True" requested_path files_rows files_reply
proof (unfold_locales, goal_cases)
  case (1 s e)
  then show ?case by (rule files_inv_step)
next
  case (3 s e)
  show ?case
  proof (cases e rule: browse_event_cases)
    case (Reply k)
    then show ?thesis by (cases k) (auto simp: files_screen_defs Let_def)
  qed (auto simp: files_screen_defs Let_def split: option.splits if_splits)
qed simp

section \<open>What is offered and what is played\<close>

lemma browse_screens_start:
  "tv_inv (KodiTvShowsScreen_new o1)" "tv_seasons (KodiTvShowsScreen_new o1) = []" "tv_episodes (KodiTvShowsScreen_new o1) = []"
  "tv_detail_hidden (KodiTvShowsScreen_new o1)"
  "music_inv (KodiMusicScreen_new o2)" "mu_albums (KodiMusicScreen_new o2) = []"
  "live_inv (KodiLiveTvScreen_new o3)" "li_channels (KodiLiveTvScreen_new o3) = []"
  "files_inv (KodiFilesScreen_new o4)" "files_rows (KodiFilesScreen_new o4) = []"
  by (simp_all add: KodiTvShowsScreen_new_def KodiMusicScreen_new_def KodiLiveTvScreen_new_def KodiFilesScreen_new_def
      tv_inv_def music_inv_def live_inv_def files_inv_def Tv_Refresh_def Music_Refresh_def Live_Refresh_def Files_Refresh_def files_rows_def)

text \<open>
  C20: What the lists of seasons, episodes, albums, channels and files hold. However taps and back buttons on visible
  rows, connection changes and late or repeated replies interleave, such a list, while it is shown, is empty or
  is a reply the media centre gave for exactly the show, season, artist, channel group or folder that is
  open. The list of songs is not among them: the screen takes a reply for songs whatever album is open
  (kodi_music_screen.cpp, line 61), so it can show the songs of another album.
\<close>

theorem browse_lists_answer_what_is_open:
  assumes "browse_ok tv_allowed tv_step es1 (KodiTvShowsScreen_new o1)"
    and "browse_ok music_allowed music_step es2 (KodiMusicScreen_new o2)"
    and "browse_ok live_allowed live_step es3 (KodiLiveTvScreen_new o3)"
    and "browse_ok files_allowed files_step es4 (KodiFilesScreen_new o4)"
  defines "t \<equiv> browse_after tv_step es1 (KodiTvShowsScreen_new o1)"
    and "m \<equiv> browse_after music_step es2 (KodiMusicScreen_new o2)"
    and "l \<equiv> browse_after live_step es3 (KodiLiveTvScreen_new o3)"
    and "f \<equiv> browse_after files_step es4 (KodiFilesScreen_new o4)"
  shows "(tv_seasons_hidden t \<or> tv_seasons t = [] \<or> (\<exists>e \<in> set es1. seasons_reply e = Some (selected_tvshowid t, tv_seasons t))) \<and>
    (tv_episodes_hidden t \<or> tv_episodes t = [] \<or>
       (\<exists>e \<in> set es1. episodes_reply e = Some ((selected_tvshowid t, selected_season t), tv_episodes t))) \<and>
    (mu_albums_hidden m \<or> mu_albums m = [] \<or> (\<exists>e \<in> set es2. albums_reply e = Some (selected_artistid m, mu_albums m))) \<and>
    (li_channels_hidden l \<or> li_channels l = [] \<or> (\<exists>e \<in> set es3. channels_reply e = Some (selected_channelgroupid l, li_channels l))) \<and>
    (files_rows f = [] \<or> (\<exists>e \<in> set es4. files_reply e = Some (requested_path f, files_rows f)))"
  unfolding t_def m_def l_def f_def
  using seasons.rows_answered [OF assms(1)] episodes.rows_answered [OF assms(1)] albums.rows_answered [OF assms(2)]
    channels.rows_answered [OF assms(3)] directories.rows_answered [OF assms(4)] browse_screens_start
  by simp blast

text \<open>The episode behind the detail view: listed in a reply for the open season, and shown by its own title.\<close>

definition episode_shown :: "browse_event list \<Rightarrow> tv_screen \<Rightarrow> kodi_episode \<Rightarrow> bool" where
  "episode_shown past s x \<longleftrightarrow>
     (\<exists>e \<in> set past. \<exists>xs. episodes_reply e = Some ((selected_tvshowid s, selected_season s), xs) \<and> x \<in> set xs) \<and>
     selected_episode_id s = episodeid x \<and> tv_episode_title s = label_text (episode_title x) \<and>
     (tv_resume_hidden s \<longleftrightarrow> \<not> 0 < episode_resume_position_ms x)"

definition tv_detail_inv :: "browse_event list \<Rightarrow> tv_screen \<Rightarrow> bool" where
  "tv_detail_inv past s \<longleftrightarrow> tv_inv s \<and>
     (episodes_open s \<longrightarrow> tv_episodes s = [] \<or>
        (\<exists>e \<in> set past. episodes_reply e = Some ((selected_tvshowid s, selected_season s), tv_episodes s))) \<and>
     (\<not> tv_detail_hidden s \<longrightarrow> (\<exists>x. episode_shown past s x))"

lemma tv_detail_stays:
  assumes "tv_inv s" "tv_allowed e s" "\<not> tv_detail_hidden s" "\<not> tv_detail_hidden (snd (tv_step e s))" "episode_shown past s x"
  shows "episode_shown (past @ [e]) (snd (tv_step e s)) x"
proof (cases e rule: browse_event_cases)
  case (Reply k)
  then show ?thesis using assms by (cases k) (auto simp: episode_shown_def tv_screen_defs)
qed (use assms in \<open>auto simp: episode_shown_def tv_inv_def tv_screen_defs Let_def split: if_splits option.splits\<close>)

lemma tv_detail_opens:
  assumes "tv_inv s" "tv_allowed e s" "tv_detail_hidden s" "\<not> tv_detail_hidden (snd (tv_step e s))"
    and "tv_episodes s = [] \<or> (\<exists>e \<in> set past. episodes_reply e = Some ((selected_tvshowid s, selected_season s), tv_episodes s))"
  shows "\<exists>x. episode_shown (past @ [e]) (snd (tv_step e s)) x"
proof (cases e rule: browse_event_cases)
  case (Reply k)
  then show ?thesis using assms(3,4) by (cases k) (auto simp: tv_screen_defs split: if_splits)
next
  case (Row level row)
  have l: "level = 2" "row < row_count (tv_episodes_list s)" using assms(3,4) Row by (auto simp: tv_screen_defs split: if_splits option.splits)
  define item where "item = episodeid (tv_episodes s ! row)"
  obtain x where x: "List.find (\<lambda>x. episodeid x = item) (tv_episodes s) = Some x"
    using assms(3,4) Row l by (auto simp: tv_tap_def ShowEpisodeDetail_def item_def split: option.splits if_splits)
  then have "x \<in> set (tv_episodes s)" "episodeid x = item" by (auto simp: find_Some_iff)
  moreover have "snd (tv_step e s) = s\<lparr>selected_episode_id := item, tv_episode_title := label_text (episode_title x),
      tv_resume_hidden := \<not> 0 < episode_resume_position_ms x, tv_episodes_hidden := True, tv_detail_hidden := False\<rparr>"
    using Row l x by (simp add: tv_tap_def ShowEpisodeDetail_def item_def)
  ultimately show ?thesis using assms(5) by (intro exI [of _ x]) (auto simp: episode_shown_def)
qed (use assms(3,4) in \<open>auto simp: tv_screen_defs Let_def split: if_splits option.splits\<close>)

lemma tv_detail_from_episodes:
  assumes "tv_allowed e s" "\<not> episodes_open s"
  shows "tv_detail_hidden (snd (tv_step e s))"
proof (cases e rule: browse_event_cases)
  case (Reply k)
  then show ?thesis using assms by (cases k) (auto simp: tv_screen_defs)
qed (use assms in \<open>auto simp: tv_screen_defs Let_def split: if_splits option.splits\<close>)

lemma tv_detail_inv_step:
  assumes "tv_detail_inv past s" "tv_allowed e s"
  shows "tv_detail_inv (past @ [e]) (snd (tv_step e s))"
proof -
  let ?s = "snd (tv_step e s)"
  have i: "tv_inv s" "episodes_open s \<longrightarrow> tv_episodes s = [] \<or>
      (\<exists>e \<in> set past. episodes_reply e = Some ((selected_tvshowid s, selected_season s), tv_episodes s))"
    using assms(1) by (simp_all add: tv_detail_inv_def)
  have "\<exists>x. episode_shown (past @ [e]) ?s x" if v: "\<not> tv_detail_hidden ?s"
  proof (cases "tv_detail_hidden s")
    case True
    have "episodes_open s" using tv_detail_from_episodes [OF assms(2)] v by blast
    then show ?thesis using tv_detail_opens [OF i(1) assms(2) True v, of past] i(2) by blast
  next
    case False
    then show ?thesis using assms tv_detail_stays [OF i(1) assms(2) False v] by (auto simp: tv_detail_inv_def)
  qed
  moreover have "episodes_open ?s \<longrightarrow> tv_episodes ?s = [] \<or>
      (\<exists>e' \<in> set (past @ [e]). episodes_reply e' = Some ((selected_tvshowid ?s, selected_season ?s), tv_episodes ?s))"
    using episodes.rows_answered_from [of "[e]" s past] assms(2) i by simp
  ultimately show ?thesis using tv_inv_step [OF i(1) assms(2)] by (simp add: tv_detail_inv_def)
qed

lemma tv_detail_inv_run:
  "browse_ok tv_allowed tv_step es s \<Longrightarrow> tv_detail_inv past s \<Longrightarrow> tv_detail_inv (past @ es) (browse_after tv_step es s)"
proof (induction es arbitrary: s past)
  case (Cons e es)
  then show ?case using tv_detail_inv_step [of past s e] by (auto dest: Cons.IH)
qed simp

text \<open>
  C21: The episode that is played is the one on display. Whenever the detail view is visible, whatever
  happened before, there is an episode which the media centre listed for the show and season that are open,
  whose title is the one shown and which has a resume point exactly when the resume button is offered; and
  the buttons ask for this episode, from the start or from its resume point, and go to the player screen.
\<close>

theorem episode_shown_is_played:
  assumes "browse_ok tv_allowed tv_step es (KodiTvShowsScreen_new online)"
  defines "s \<equiv> browse_after tv_step es (KodiTvShowsScreen_new online)"
  assumes "\<not> tv_detail_hidden s"
  shows "\<exists>x e xs. e \<in> set es \<and> episodes_reply e = Some ((selected_tvshowid s, selected_season s), xs) \<and> x \<in> set xs \<and>
    tv_episode_title s = label_text (episode_title x) \<and> (tv_resume_hidden s \<longleftrightarrow> \<not> 0 < episode_resume_position_ms x) \<and>
    fst (tv_step BPlay s) = [OpenItem ''episodeid'' (episodeid x) False, GoTo ''kodi-now-playing''] \<and>
    fst (tv_step BResume s) = [OpenItem ''episodeid'' (episodeid x) True, GoTo ''kodi-now-playing'']"
proof -
  have "tv_detail_inv [] (KodiTvShowsScreen_new online)" using browse_screens_start by (simp add: tv_detail_inv_def)
  from tv_detail_inv_run [OF assms(1) this] obtain x where "episode_shown es s x"
    using assms(3) by (auto simp: tv_detail_inv_def s_def)
  then show ?thesis by (auto simp: episode_shown_def kKodiNowPlaying_def)
qed

section \<open>Sample runs\<close>

definition sample_tv_events :: "browse_event list" where
  "sample_tv_events =
     [BState True True True, BReply (KTvShowsFetched [\<lparr>tvshowid = 5, show_name = ''A'', show_year = 0, show_episode_count = 2,
        show_watched_episode_count = 0\<rparr>] False),
      BRow 0 0, BReply (KSeasonsFetched 5 [\<lparr>season_number = 1, season_label = ''One'', season_episode_count = 2,
        season_watched_episode_count = 0\<rparr>] False),
      BRow 1 0, BReply (KEpisodesFetched 5 2 [] False),
      BReply (KEpisodesFetched 5 1 [\<lparr>episodeid = 77, episode_number = 1, episode_title = ''Pilot'', episode_resume_position_ms = 0\<rparr>] False),
      BRow 2 0]"

lemma episode_shown_is_played_witness:
  "\<exists>x :: kodi_episode. tv_episode_title (browse_after tv_step sample_tv_events (KodiTvShowsScreen_new False)) = label_text (episode_title x) \<and>
    fst (tv_step BPlay (browse_after tv_step sample_tv_events (KodiTvShowsScreen_new False))) =
      [OpenItem ''episodeid'' (episodeid x) False, GoTo ''kodi-now-playing'']"
proof -
  have ok: "browse_ok tv_allowed tv_step sample_tv_events (KodiTvShowsScreen_new False)" by code_simp
  have v: "\<not> tv_detail_hidden (browse_after tv_step sample_tv_events (KodiTvShowsScreen_new False))" by code_simp
  from episode_shown_is_played [OF ok v] show ?thesis by blast
qed

definition sample_songs :: "browse_event list" where
  "sample_songs =
     [BState True True True, BReply (KArtistsFetched [\<lparr>artistid = 1, artist_name = ''Ann''\<rparr>] False), BRow 0 0,
      BReply (KAlbumsFetched 1 [\<lparr>albumid = 10, album_title = ''X'', album_year = 0\<rparr>, \<lparr>albumid = 11, album_title = ''Y'', album_year = 0\<rparr>] False),
      BRow 1 0, BBack True 2, BRow 1 1,
      BReply (KSongsFetched 10 [\<lparr>songid = 100, song_track = 1, song_title = ''old'', song_duration_seconds = 1\<rparr>] False)]"

text \<open>
  The list of songs is the exception: its reply is taken whatever album is open. After opening one album, going
  back and opening a second one, a late reply for the first fills the list, and a tap plays its song.
\<close>

lemma stale_songs_shown:
  "browse_ok music_allowed music_step sample_songs (KodiMusicScreen_new False) \<and>
   fst (music_step (BRow 1 1) (browse_after music_step (take 6 sample_songs) (KodiMusicScreen_new False))) =
     [Fetch (library_request kSongs 11 0 [])] \<and>
   \<not> mu_songs_hidden (browse_after music_step sample_songs (KodiMusicScreen_new False)) \<and>
   fst (music_step (BRow 2 0) (browse_after music_step sample_songs (KodiMusicScreen_new False))) =
     [OpenItem ''songid'' 100 False, GoTo ''kodi-now-playing'']"
  by code_simp

definition sample_files :: "browse_event list" where
  "sample_files =
     [BState True True True, BReply (KFilesFetched [] [\<lparr>file_path = ''/a'', file_label = ''a'', file_is_folder = True\<rparr>] False), BRow 0 0,
      BReply (KFilesFetched ''/b'' [] False),
      BReply (KFilesFetched ''/a'' [\<lparr>file_path = ''/a/x'', file_label = ''x'', file_is_folder = False\<rparr>] False)]"

lemma browse_lists_answer_what_is_open_witness:
  "\<exists>e \<in> set sample_files. files_reply e = Some (''/a'', [\<lparr>file_path = ''/a/x'', file_label = ''x'', file_is_folder = False\<rparr>])"
proof -
  have ok: "browse_ok tv_allowed tv_step sample_tv_events (KodiTvShowsScreen_new False)"
    "browse_ok music_allowed music_step sample_songs (KodiMusicScreen_new False)"
    "browse_ok live_allowed live_step [] (KodiLiveTvScreen_new False)"
    "browse_ok files_allowed files_step sample_files (KodiFilesScreen_new False)"
    by code_simp+
  have f: "requested_path (browse_after files_step sample_files (KodiFilesScreen_new False)) = ''/a''"
    "files_rows (browse_after files_step sample_files (KodiFilesScreen_new False)) =
       [\<lparr>file_path = ''/a/x'', file_label = ''x'', file_is_folder = False\<rparr>]"
    by code_simp+
  show ?thesis using browse_lists_answer_what_is_open [OF ok] unfolding f by blast
qed

end
