(* ===== verification/Ui_Shell.thy ===== *)
theory Ui_Shell
  imports Power_State Storage Ui_Navigation
begin

text \<open>
  What surrounds the screens: the quick settings panel (\<^verbatim>\<open>ui/quick_settings_panel.cpp\<close>) with the settings it
  stores and \<^verbatim>\<open>AppCore\<close>'s reading of them at start (\<^verbatim>\<open>ui/app_core.cpp\<close>). Layout and styling calls are left out.
\<close>

section \<open>Sliders\<close>

text \<open>\<^verbatim>\<open>lv_slider\<close>: its range and its value, which LVGL keeps within the range.\<close>

record slider =
  sl_min :: int
  sl_max :: int
  sl_value :: int

definition slider_set :: "int \<Rightarrow> slider \<Rightarrow> slider" where
  "slider_set v sl = sl\<lparr>sl_value := clamp v (sl_min sl) (sl_max sl)\<rparr>"

section \<open>Quick settings\<close>

definition kPowerModuleId :: string where "kPowerModuleId = ''power''"
definition kBrightnessKey :: string where "kBrightnessKey = ''brightness''"
definition kAudioModuleId :: string where "kAudioModuleId = ''audio''"
definition kVolumeKey :: string where "kVolumeKey = ''volume''"

record quick_settings =
  qs_hidden :: bool
  qs_brightness :: slider
  qs_volume :: slider

text \<open>The scrim is hidden together with the panel. A new slider is at the lower end of its range.\<close>

definition QuickSettingsPanel_new :: quick_settings where
  "QuickSettingsPanel_new =
     \<lparr>qs_hidden = True,
      qs_brightness = \<lparr>sl_min = kMinActiveBrightnessPercent, sl_max = 100, sl_value = kMinActiveBrightnessPercent\<rparr>,
      qs_volume = \<lparr>sl_min = 0, sl_max = 100, sl_value = 0\<rparr>\<rparr>"

definition QuickSettings_Show :: "power_manager \<Rightarrow> notification_sound \<Rightarrow> quick_settings \<Rightarrow> quick_settings" where
  "QuickSettings_Show p n q =
     q\<lparr>qs_brightness := slider_set (active_brightness_percent p) (qs_brightness q),
       qs_volume := slider_set (volume_percent n) (qs_volume q), qs_hidden := False\<rparr>"

definition QuickSettings_Hide :: "quick_settings \<Rightarrow> quick_settings" where
  "QuickSettings_Hide q = q\<lparr>qs_hidden := True\<rparr>"

definition OnBrightnessChanged :: "slider \<Rightarrow> power_manager \<Rightarrow> power_manager" where
  "OnBrightnessChanged sl p = SetActiveBrightnessPercent (sl_value sl) p"

definition OnBrightnessReleased :: "slider \<Rightarrow> storage \<Rightarrow> bool \<times> storage" where
  "OnBrightnessReleased sl st = SetSetting st kPowerModuleId kBrightnessKey 1 (to_string (sl_value sl))"

definition OnVolumeChanged :: "slider \<Rightarrow> notification_sound \<Rightarrow> notification_sound" where
  "OnVolumeChanged sl n = SetVolumePercent (sl_value sl) n"

definition OnVolumeReleased :: "slider \<Rightarrow> storage \<Rightarrow> bool \<times> storage" where
  "OnVolumeReleased sl st = SetSetting st kAudioModuleId kVolumeKey 1 (to_string (sl_value sl))"

section \<open>Reading them at start\<close>

definition ReadIntSetting :: "storage \<Rightarrow> string \<Rightarrow> string \<Rightarrow> int \<Rightarrow> int" where
  "ReadIntSetting st module_id key fallback =
     (case GetSetting st module_id key of
        None \<Rightarrow> fallback
      | Some setting \<Rightarrow>
          (case from_chars_int32 (vv_value setting) of
             None \<Rightarrow> fallback
           | Some (v, rest) \<Rightarrow> if rest \<noteq> [] then fallback else v))"

text \<open>The two members of \<^verbatim>\<open>AppCore\<close> that start from a stored setting.\<close>

definition app_sound :: "storage \<Rightarrow> notification_sound" where
  "app_sound st = NotificationSound_init (ReadIntSetting st ''audio'' ''volume'' 70)"

definition app_power :: "storage \<Rightarrow> power_manager" where
  "app_power st = PowerManager_init (ReadIntSetting st ''power'' ''brightness'' 100)"

section \<open>The panel in use\<close>

text \<open>
  The two booleans say that a finger is on the slider, the third that a write failed; they are for the
  statements below.
\<close>

record shell =
  sh_storage :: storage
  sh_power :: power_manager
  sh_sound :: notification_sound
  sh_quick :: quick_settings
  sh_brightness_held :: bool
  sh_volume_held :: bool
  sh_write_failed :: bool

definition shell_start :: "storage \<Rightarrow> shell" where
  "shell_start st =
     \<lparr>sh_storage = st, sh_power = app_power st, sh_sound = app_sound st, sh_quick = QuickSettingsPanel_new,
      sh_brightness_held = False, sh_volume_held = False, sh_write_failed = False\<rparr>"

datatype shell_event =
    SOpen
  | SScrim
  | SDragBrightness int
  | SReleaseBrightness
  | SDragVolume int
  | SReleaseVolume
  | SPower power_input
  | SNotify
  | SPlayed

fun not_slider :: "power_input \<Rightarrow> bool" where
  "not_slider (PSetBrightness n) \<longleftrightarrow> False"
| "not_slider _ \<longleftrightarrow> True"

text \<open>Sliders can be touched while the panel is shown. The panel and the sound task are not the only users of the power manager.\<close>

fun shell_step :: "shell_event \<Rightarrow> shell \<Rightarrow> shell" where
  "shell_step SOpen s = s\<lparr>sh_quick := QuickSettings_Show (sh_power s) (sh_sound s) (sh_quick s)\<rparr>"
| "shell_step SScrim s = s\<lparr>sh_quick := QuickSettings_Hide (sh_quick s)\<rparr>"
| "shell_step (SDragBrightness v) s =
     (if qs_hidden (sh_quick s) then s
      else
        (let sl = slider_set v (qs_brightness (sh_quick s))
         in s\<lparr>sh_quick := (sh_quick s)\<lparr>qs_brightness := sl\<rparr>, sh_power := OnBrightnessChanged sl (sh_power s),
              sh_brightness_held := True\<rparr>))"
| "shell_step SReleaseBrightness s =
     (if qs_hidden (sh_quick s) then s
      else
        (let (ok, st) = OnBrightnessReleased (qs_brightness (sh_quick s)) (sh_storage s)
         in s\<lparr>sh_storage := st, sh_brightness_held := False, sh_write_failed := sh_write_failed s \<or> \<not> ok\<rparr>))"
| "shell_step (SDragVolume v) s =
     (if qs_hidden (sh_quick s) then s
      else
        (let sl = slider_set v (qs_volume (sh_quick s))
         in s\<lparr>sh_quick := (sh_quick s)\<lparr>qs_volume := sl\<rparr>, sh_sound := OnVolumeChanged sl (sh_sound s), sh_volume_held := True\<rparr>))"
| "shell_step SReleaseVolume s =
     (if qs_hidden (sh_quick s) then s
      else
        (let (ok, st) = OnVolumeReleased (qs_volume (sh_quick s)) (sh_storage s)
         in s\<lparr>sh_storage := st, sh_volume_held := False, sh_write_failed := sh_write_failed s \<or> \<not> ok\<rparr>))"
| "shell_step (SPower i) s = (if not_slider i then s\<lparr>sh_power := power_step i (sh_power s)\<rparr> else s)"
| "shell_step SNotify s = s\<lparr>sh_sound := NotificationSound_on_event (sh_sound s)\<rparr>"
| "shell_step SPlayed s =
     (case PlayLoop_start (sh_sound s) of None \<Rightarrow> s | Some n \<Rightarrow> s\<lparr>sh_sound := PlayLoop_finish n\<rparr>)"

definition shell_run :: "shell_event list \<Rightarrow> shell \<Rightarrow> shell" where
  "shell_run es s = fold shell_step es s"

lemma read_back:
  assumes "SetSetting st m k 1 (to_string v) = (True, st')" "int32_range v"
  shows "ReadIntSetting st' m k d = v" "(m', k') \<noteq> (m, k) \<Longrightarrow> ReadIntSetting st' m' k' d = ReadIntSetting st m' k' d"
proof -
  have "int32_range 1" by (simp add: int32_range_def)
  note r = setting_round_trip [OF this assms(1)]
  have "from_chars_int32 (to_string v) = Some (v, [])"
    unfolding from_chars_int32_def using assms(2) by (intro from_chars_to_string) (auto simp: int32_range_def)
  then show "ReadIntSetting st' m k d = v" using r by (simp add: ReadIntSetting_def)
  show "(m', k') \<noteq> (m, k) \<Longrightarrow> ReadIntSetting st' m' k' d = ReadIntSetting st m' k' d"
    using r by (simp add: ReadIntSetting_def)
qed

text \<open>While the panel is shown its sliders stand at the live values; what is stored is what is live.\<close>

definition slider_ok :: "slider \<Rightarrow> int \<Rightarrow> bool" where
  "slider_ok sl low \<longleftrightarrow> sl_min sl = low \<and> sl_max sl = 100 \<and> low \<le> sl_value sl \<and> sl_value sl \<le> 100"

definition shell_inv :: "shell \<Rightarrow> bool" where
  "shell_inv s \<longleftrightarrow>
     slider_ok (qs_brightness (sh_quick s)) kMinActiveBrightnessPercent \<and> slider_ok (qs_volume (sh_quick s)) 0 \<and>
     kMinActiveBrightnessPercent \<le> active_brightness_percent (sh_power s) \<and> active_brightness_percent (sh_power s) \<le> 100 \<and>
     0 \<le> volume_percent (sh_sound s) \<and> volume_percent (sh_sound s) \<le> 100 \<and>
     (\<not> qs_hidden (sh_quick s) \<longrightarrow>
        sl_value (qs_brightness (sh_quick s)) = active_brightness_percent (sh_power s) \<and>
        sl_value (qs_volume (sh_quick s)) = volume_percent (sh_sound s)) \<and>
     (\<not> sh_write_failed s \<longrightarrow>
        (\<not> sh_brightness_held s \<longrightarrow>
           active_brightness_percent (app_power (sh_storage s)) = active_brightness_percent (sh_power s)) \<and>
        (\<not> sh_volume_held s \<longrightarrow> volume_percent (app_sound (sh_storage s)) = volume_percent (sh_sound s)))"

lemma shell_inv_start: "shell_inv (shell_start st)"
proof -
  have "kMinActiveBrightnessPercent \<le> clamp x kMinActiveBrightnessPercent 100 \<and> clamp x kMinActiveBrightnessPercent 100 \<le> 100"
    "0 \<le> clamp x 0 100 \<and> clamp x 0 100 \<le> 100" for x
    using clamp_bounds [of kMinActiveBrightnessPercent 100 x] clamp_bounds [of 0 100 x]
    by (simp_all add: kMinActiveBrightnessPercent_def)
  then show ?thesis
    by (simp add: shell_inv_def shell_start_def QuickSettingsPanel_new_def slider_ok_def app_power_def app_sound_def
        PowerManager_init_def NotificationSound_init_def) (simp add: kMinActiveBrightnessPercent_def)
qed

lemma slider_set_ok:
  assumes "slider_ok sl low" "low \<le> 100"
  shows "slider_ok (slider_set v sl) low" "sl_value (slider_set v sl) = clamp v low 100"
  using assms clamp_bounds [of low 100 v] by (auto simp: slider_ok_def slider_set_def)

lemma power_keeps_brightness: "not_slider i \<Longrightarrow> active_brightness_percent (power_step i p) = active_brightness_percent p"
  by (cases i) (simp_all add: TransitionTo_def OnTick_def OnOtaUpdateStateChanged_def OnCriticalBatteryStateChanged_def
      RequestSleepVeto_def Let_def)

lemma set_brightness: "active_brightness_percent (SetActiveBrightnessPercent v p) = clamp v kMinActiveBrightnessPercent 100"
  by (simp add: SetActiveBrightnessPercent_def Let_def)

lemma min_brightness: "0 \<le> kMinActiveBrightnessPercent" "kMinActiveBrightnessPercent \<le> 100"
  by (simp_all add: kMinActiveBrightnessPercent_def)

lemma restart_brightness:
  assumes "SetSetting st kPowerModuleId kBrightnessKey 1 (to_string v) = (True, st')" "kMinActiveBrightnessPercent \<le> v" "v \<le> 100"
  shows "active_brightness_percent (app_power st') = v" "volume_percent (app_sound st') = volume_percent (app_sound st)"
proof -
  have "int32_range v" using assms(2,3) min_brightness by (simp add: int32_range_def)
  note r = read_back [OF assms(1) this]
  show "active_brightness_percent (app_power st') = v"
    using r(1) assms(2,3) by (simp add: app_power_def PowerManager_init_def kPowerModuleId_def kBrightnessKey_def clamp_id)
  show "volume_percent (app_sound st') = volume_percent (app_sound st)"
    using r(2) [of "''audio''" "''volume''"] by (simp add: app_sound_def NotificationSound_init_def kPowerModuleId_def kBrightnessKey_def)
qed

lemma restart_volume:
  assumes "SetSetting st kAudioModuleId kVolumeKey 1 (to_string v) = (True, st')" "0 \<le> v" "v \<le> 100"
  shows "volume_percent (app_sound st') = v" "active_brightness_percent (app_power st') = active_brightness_percent (app_power st)"
proof -
  have "int32_range v" using assms(2,3) by (simp add: int32_range_def)
  note r = read_back [OF assms(1) this]
  show "volume_percent (app_sound st') = v"
    using r(1) assms(2,3) by (simp add: app_sound_def NotificationSound_init_def kAudioModuleId_def kVolumeKey_def clamp_id)
  show "active_brightness_percent (app_power st') = active_brightness_percent (app_power st)"
    using r(2) [of "''power''" "''brightness''"] by (simp add: app_power_def PowerManager_init_def kAudioModuleId_def kVolumeKey_def)
qed

lemma shell_inv_brightness:
  assumes "shell_inv s"
  shows "shell_inv (shell_step (SDragBrightness v) s)" "shell_inv (shell_step SReleaseBrightness s)"
proof -
  have sl: "slider_ok (qs_brightness (sh_quick s)) kMinActiveBrightnessPercent" using assms by (simp add: shell_inv_def)
  have c: "clamp (clamp v kMinActiveBrightnessPercent 100) kMinActiveBrightnessPercent 100 = clamp v kMinActiveBrightnessPercent 100"
    "kMinActiveBrightnessPercent \<le> clamp v kMinActiveBrightnessPercent 100" "clamp v kMinActiveBrightnessPercent 100 \<le> 100"
    using clamp_bounds [of kMinActiveBrightnessPercent 100 v] min_brightness by (simp_all add: clamp_id)
  show "shell_inv (shell_step (SDragBrightness v) s)"
    using assms slider_set_ok [OF sl min_brightness(2), of v] c
    by (simp add: shell_inv_def Let_def OnBrightnessChanged_def set_brightness)
  obtain ok st where r: "OnBrightnessReleased (qs_brightness (sh_quick s)) (sh_storage s) = (ok, st)" by fastforce
  have "shell_inv (s\<lparr>sh_storage := st, sh_brightness_held := False, sh_write_failed := sh_write_failed s \<or> \<not> ok\<rparr>)"
    if "\<not> qs_hidden (sh_quick s)"
  proof (cases ok)
    case True
    have "SetSetting (sh_storage s) kPowerModuleId kBrightnessKey 1 (to_string (sl_value (qs_brightness (sh_quick s)))) = (True, st)"
      using r True by (simp add: OnBrightnessReleased_def)
    from restart_brightness [OF this] show ?thesis using assms that sl by (simp add: shell_inv_def slider_ok_def)
  qed (use assms that in \<open>simp add: shell_inv_def\<close>)
  then show "shell_inv (shell_step SReleaseBrightness s)" using assms r by simp
qed

lemma shell_inv_volume:
  assumes "shell_inv s"
  shows "shell_inv (shell_step (SDragVolume v) s)" "shell_inv (shell_step SReleaseVolume s)"
proof -
  have sl: "slider_ok (qs_volume (sh_quick s)) 0" using assms by (simp add: shell_inv_def)
  have c: "clamp (clamp v 0 100) 0 100 = clamp v 0 100" "0 \<le> clamp v 0 100" "clamp v 0 100 \<le> 100"
    using clamp_bounds [of 0 100 v] by (simp_all add: clamp_id)
  show "shell_inv (shell_step (SDragVolume v) s)"
    using assms slider_set_ok [OF sl, of v] c by (simp add: shell_inv_def Let_def OnVolumeChanged_def SetVolumePercent_def)
  obtain ok st where r: "OnVolumeReleased (qs_volume (sh_quick s)) (sh_storage s) = (ok, st)" by fastforce
  have "shell_inv (s\<lparr>sh_storage := st, sh_volume_held := False, sh_write_failed := sh_write_failed s \<or> \<not> ok\<rparr>)"
    if "\<not> qs_hidden (sh_quick s)"
  proof (cases ok)
    case True
    have "SetSetting (sh_storage s) kAudioModuleId kVolumeKey 1 (to_string (sl_value (qs_volume (sh_quick s)))) = (True, st)"
      using r True by (simp add: OnVolumeReleased_def)
    from restart_volume [OF this] show ?thesis using assms that sl by (simp add: shell_inv_def slider_ok_def)
  qed (use assms that in \<open>simp add: shell_inv_def\<close>)
  then show "shell_inv (shell_step SReleaseVolume s)" using assms r by simp
qed

lemma shell_inv_step:
  assumes "shell_inv s"
  shows "shell_inv (shell_step e s)"
proof (cases e)
  case SOpen
  have sl: "slider_ok (qs_brightness (sh_quick s)) kMinActiveBrightnessPercent" "slider_ok (qs_volume (sh_quick s)) 0"
    using assms by (simp_all add: shell_inv_def)
  show ?thesis
    using assms SOpen slider_set_ok [OF sl(1) min_brightness(2), of "active_brightness_percent (sh_power s)"]
      slider_set_ok [OF sl(2), of "volume_percent (sh_sound s)"]
    by (simp add: shell_inv_def QuickSettings_Show_def clamp_id)
next
  case (SPower i)
  then show ?thesis using assms by (simp add: shell_inv_def power_keeps_brightness)
next
  case SNotify
  then show ?thesis using assms by (simp add: shell_inv_def NotificationSound_on_event_def)
next
  case SPlayed
  then show ?thesis using assms by (simp add: shell_inv_def PlayLoop_start_def PlayLoop_finish_def)
qed (use assms shell_inv_brightness shell_inv_volume in \<open>simp_all del: shell_step.simps(3-6)\<close>,
    simp_all add: shell_inv_def QuickSettings_Hide_def)

text \<open>
  What is set on the sliders is what the device comes back with. Start from any stored settings, valid
  or not, and let the panel be opened, closed, dragged and released in any order, with ticks, updates,
  battery alarms and notifications in between: as long as no write has failed and no finger is left on a
  slider, restarting from the storage gives exactly the brightness and the volume that are live, and both
  lie within their ranges.
\<close>

lemma sliders_survive_restart:
  fixes es :: "shell_event list" and st :: storage
  defines "s \<equiv> shell_run es (shell_start st)"
  assumes "\<not> sh_write_failed s" "\<not> sh_brightness_held s" "\<not> sh_volume_held s"
  shows "active_brightness_percent (app_power (sh_storage s)) = active_brightness_percent (sh_power s) \<and>
    volume_percent (app_sound (sh_storage s)) = volume_percent (sh_sound s) \<and>
    5 \<le> active_brightness_percent (sh_power s) \<and> active_brightness_percent (sh_power s) \<le> 100 \<and>
    0 \<le> volume_percent (sh_sound s) \<and> volume_percent (sh_sound s) \<le> 100"
proof -
  have "shell_inv (fold shell_step es t)" if "shell_inv t" for t
    using that by (induction es arbitrary: t) (simp_all add: shell_inv_step)
  then have "shell_inv s" using shell_inv_start by (simp add: s_def shell_run_def)
  then show ?thesis using assms(2-4) by (simp add: shell_inv_def kMinActiveBrightnessPercent_def)
qed

text \<open>Brightness dragged below the lowest level and to 40, volume to 0.\<close>

definition sample_slides :: "shell_event list" where
  "sample_slides = [SOpen, SDragBrightness 2, SDragBrightness 40, SPower (PTick 100 0), SReleaseBrightness, SDragVolume (- 3), SReleaseVolume, SScrim]"

end
