(* ===== verification/Wifi_Screen.thy ===== *)
theory Wifi_Screen
  imports Wifi_Setup Ui_Navigation
begin

text \<open>
  \<^verbatim>\<open>ui/screens/wifi_setup_screen.cpp\<close> and its wiring in \<^verbatim>\<open>firmware/main/homedeck.cpp\<close>: the callbacks of
  \<^verbatim>\<open>BlockUntilWifiConnected\<close>, which reach the screen through the UI queue, and the two callbacks by which the
  screen reaches the Wi-Fi module. The panel is the three together: the module, the queue of closures not
  yet run, and the screen. The module runs in other tasks, so any number of its steps lie between the moment
  a request is posted, the moment it is shown and the moment a person taps.
\<close>

section \<open>The screen\<close>

definition kApplyFailedMessage :: string where
  "kApplyFailedMessage =
     ''Could not apply the Wi-Fi settings: the network name (SSID) is required, both fields must be within Wi-Fi's '' @
     ''length limits, and the Wi-Fi co-processor must respond.''"

record wifi_screen =
  ap_info_text :: string
  ssid_field :: string
  password_field :: string
  error_text :: string
  request_box_hidden :: bool
  request_text :: string
  has_pending_request :: bool
  pending_request_id :: u32

text \<open>A new label shows LVGL's default text.\<close>

definition WifiSetupScreen_new :: wifi_screen where
  "WifiSetupScreen_new =
     \<lparr>ap_info_text = ''Text'', ssid_field = [], password_field = [], error_text = [], request_box_hidden = True,
      request_text = ''Text'', has_pending_request = False, pending_request_id = 0\<rparr>"

definition SetApInfo :: "string \<Rightarrow> string \<Rightarrow> nat \<Rightarrow> wifi_screen \<Rightarrow> wifi_screen" where
  "SetApInfo ap_ssid ap_ip port s =
     s\<lparr>ap_info_text :=
        ''To configure Wi-Fi from a computer or phone, connect to Wi-Fi Network \"'' @ label_text ap_ssid @ ''\" and then '' @
        ''navigate to http://'' @ label_text ap_ip @ (if port = 80 then [] else CHR '':'' # to_string (int port)) @
        ''/ in a web browser.''\<rparr>"

definition pending_prompt :: "string \<Rightarrow> string" where
  "pending_prompt ssid =
     ''A device connected to this HomeDeck's Wi-Fi network asked it to switch to \"'' @ label_text ssid @ ''\". '' @
     ''Allow only if you asked for this.''"

definition ShowPendingRequest :: "string \<Rightarrow> u32 \<Rightarrow> wifi_screen \<Rightarrow> wifi_screen" where
  "ShowPendingRequest ssid request s =
     s\<lparr>request_text := pending_prompt ssid, pending_request_id := request, has_pending_request := True,
       request_box_hidden := False\<rparr>"

definition ClearPendingRequest :: "wifi_screen \<Rightarrow> wifi_screen" where
  "ClearPendingRequest s = s\<lparr>has_pending_request := False, request_box_hidden := True\<rparr>"

definition SetConnectError :: "string \<Rightarrow> wifi_screen \<Rightarrow> wifi_screen" where
  "SetConnectError message s = s\<lparr>error_text := label_text message\<rparr>"

text \<open>The callbacks change a world of their own; \<^const>\<open>None\<close> is an empty \<^verbatim>\<open>std::function\<close>.\<close>

definition Decide :: "(u32 \<Rightarrow> bool \<Rightarrow> 'v \<Rightarrow> bool \<times> 'v) option \<Rightarrow> bool \<Rightarrow> wifi_screen \<Rightarrow> 'v \<Rightarrow> wifi_screen \<times> 'v" where
  "Decide on_decision allow s v =
     (if \<not> has_pending_request s then (s, v)
      else
        (let request = pending_request_id s; s1 = ClearPendingRequest s
         in case on_decision of
              None \<Rightarrow> (s1, v)
            | Some f \<Rightarrow> (let (ok, v1) = f request allow v in (if \<not> ok then SetConnectError kApplyFailedMessage s1 else s1, v1))))"

definition OnConnectClicked :: "(string \<Rightarrow> string \<Rightarrow> 'v \<Rightarrow> bool \<times> 'v) option \<Rightarrow> wifi_screen \<Rightarrow> 'v \<Rightarrow> wifi_screen \<times> 'v" where
  "OnConnectClicked on_submit s v =
     (let s1 = s\<lparr>error_text := []\<rparr>
      in case on_submit of
           None \<Rightarrow> (s1, v)
         | Some f \<Rightarrow>
             (let (accepted, v1) = f (ssid_field s1) (password_field s1) v
              in (if \<not> accepted then SetConnectError kApplyFailedMessage s1 else s1, v1)))"

section \<open>The wiring\<close>

definition wifi_pending_decision :: "'w wifi_env \<Rightarrow> u32 \<Rightarrow> bool \<Rightarrow> 'w wifi \<Rightarrow> bool \<times> 'w wifi" where
  "wifi_pending_decision E request allow s =
     (if \<not> allow then (True, RejectRecoveryCredentials s)
      else (let (r, s1) = ApproveRecoveryCredentials E request s in (r \<noteq> kApplyFailed, s1)))"

text \<open>The closure each of the four callbacks posts.\<close>

fun run_ui_call :: "ui_call \<Rightarrow> wifi_screen \<times> navigation \<Rightarrow> wifi_screen \<times> navigation" where
  "run_ui_call (OnSetupNeeded ap_ssid ap_ip port) (s, n) = (SetApInfo ap_ssid ap_ip port s, snd (Navigation_GoTo kWifiSetup n))"
| "run_ui_call OnConnected (s, n) = (ClearPendingRequest s, snd (Navigation_GoHome n))"
| "run_ui_call (OnCredentialsPending ssid request) (s, n) =
     (ShowPendingRequest ssid request s, snd (Navigation_GoTo kWifiSetup n))"
| "run_ui_call OnConnectFailed (s, n) = (SetConnectError ''Couldn't connect - check the password and try again.'' s, n)"

text \<open>\<^verbatim>\<open>BlockUntilWifiConnected\<close> sets all four.\<close>

definition panel_callbacks :: wifi_ui_callbacks where
  "panel_callbacks = \<lparr>has_setup_needed = True, has_connected = True, has_connect_failed = True, has_credentials_pending = True\<rparr>"

section \<open>The panel\<close>

record 'w panel =
  pl_wifi :: "'w wifi"
  pl_queue :: "ui_call list"
  pl_screen :: wifi_screen
  pl_nav :: navigation

definition posted :: "wifi_log list \<Rightarrow> ui_call list" where
  "posted l = List.map_filter (\<lambda>e. case e of LUi c \<Rightarrow> Some c | _ \<Rightarrow> None) l"

text \<open>The module after a step, and what the step posted.\<close>

definition module_step :: "'w wifi_env \<Rightarrow> wifi_input \<Rightarrow> 'w \<Rightarrow> 'w panel \<Rightarrow> 'w panel" where
  "module_step E i w p =
     (let s = pl_wifi p; t = wifi_step E i (s\<lparr>w_world := w\<rparr>)
      in p\<lparr>pl_wifi := t, pl_queue := fold PostToUiThread (posted (drop (length (w_log s)) (w_log t))) (pl_queue p)\<rparr>)"

text \<open>The two callbacks as the screen calls them; what the module posts meanwhile is queued.\<close>

definition panel_decision :: "'w wifi_env \<Rightarrow> 'w \<Rightarrow> u32 \<Rightarrow> bool \<Rightarrow> 'w panel \<Rightarrow> bool \<times> 'w panel" where
  "panel_decision E w request allow p =
     (let i = (if allow then InApprove request else InReject)
      in (fst (wifi_pending_decision E request allow (note_log (LIn i) ((pl_wifi p)\<lparr>w_world := w\<rparr>))), module_step E i w p))"

definition panel_submit :: "'w wifi_env \<Rightarrow> 'w \<Rightarrow> string \<Rightarrow> string \<Rightarrow> 'w panel \<Rightarrow> bool \<times> 'w panel" where
  "panel_submit E w ssid password p =
     (fst (ApplyWifiCredentials E ssid password (note_log (LIn (InSubmit ssid password)) ((pl_wifi p)\<lparr>w_world := w\<rparr>))),
      module_step E (InSubmit ssid password) w p)"

datatype 'w panel_event =
    PModule wifi_input 'w
  | PDrain
  | PTap bool 'w
  | PType string string
  | PConnect 'w

text \<open>Inputs of the module that do not come from the screen.\<close>

fun from_outside :: "wifi_input \<Rightarrow> bool" where
  "from_outside (InSubmit ssid password) \<longleftrightarrow> False"
| "from_outside (InApprove request) \<longleftrightarrow> False"
| "from_outside InReject \<longleftrightarrow> False"
| "from_outside _ \<longleftrightarrow> True"

fun panel_step :: "'w wifi_env \<Rightarrow> 'w panel_event \<Rightarrow> 'w panel \<Rightarrow> 'w panel" where
  "panel_step E (PModule i w) p = (if from_outside i then module_step E i w p else p)"
| "panel_step E PDrain p =
     (case Queue_TryPop (pl_queue p) of
        (None, rest) \<Rightarrow> p
      | (Some c, rest) \<Rightarrow>
          (let (s, n) = run_ui_call c (pl_screen p, pl_nav p) in p\<lparr>pl_queue := rest, pl_screen := s, pl_nav := n\<rparr>))"
| "panel_step E (PTap allow w) p =
     (let (s, q) = Decide (Some (panel_decision E w)) allow (pl_screen p) p in q\<lparr>pl_screen := s\<rparr>)"
| "panel_step E (PType ssid password) p = p\<lparr>pl_screen := (pl_screen p)\<lparr>ssid_field := ssid, password_field := password\<rparr>\<rparr>"
| "panel_step E (PConnect w) p =
     (let (s, q) = OnConnectClicked (Some (panel_submit E w)) (pl_screen p) p in q\<lparr>pl_screen := s\<rparr>)"

text \<open>At boot the screen may show the access point's address, and the boot's own calls are queued.\<close>

definition panel_booted :: "'w wifi_env \<Rightarrow> 'w panel \<Rightarrow> bool" where
  "panel_booted E p \<longleftrightarrow>
     wifi_booted E panel_callbacks (pl_wifi p) \<and> pl_queue p = posted (w_log (pl_wifi p)) \<and>
     (\<exists>ssid ip port. pl_screen p = WifiSetupScreen_new \<or> pl_screen p = SetApInfo ssid ip port WifiSetupScreen_new)"

inductive panel_run :: "'w wifi_env \<Rightarrow> 'w panel \<Rightarrow> 'w panel \<Rightarrow> bool" for E where
  panel_refl: "panel_run E p p"
| panel_more: "panel_run E p q \<Longrightarrow> panel_run E p (panel_step E e q)"

lemma panel_decision_step:
  "snd (panel_decision E w request allow p) = module_step E (if allow then InApprove request else InReject) w p"
  by (simp add: panel_decision_def Let_def)

lemma wifi_pending_decision_step:
  "snd (wifi_pending_decision E request allow (note_log (LIn (if allow then InApprove request else InReject)) s)) =
     wifi_step E (if allow then InApprove request else InReject) s"
  by (simp add: wifi_pending_decision_def wifi_step_def case_prod_beta Let_def)

section \<open>The log only grows\<close>

definition grows :: "'w wifi \<Rightarrow> 'w wifi \<Rightarrow> bool" where
  "grows s t \<longleftrightarrow> (\<exists>l. w_log t = w_log s @ l)"

lemma grows_refl [simp]: "grows s s"
  by (simp add: grows_def)

lemma grows_trans: "grows s t \<Longrightarrow> grows t u \<Longrightarrow> grows s u"
  by (auto simp: grows_def)

lemma grows_basic [simp]:
  "grows s (snd (esp_do E c s))" "grows s (ui_do b u s)" "grows s (note_log l s)" "grows s (CancelReconnectTimer E s)"
  "grows s (start_reconnect_timer E d s)"
  by (simp_all add: grows_def CancelReconnectTimer_def start_reconnect_timer_def)

lemma grows_world [simp]: "grows (s\<lparr>w_world := w\<rparr>) t \<longleftrightarrow> grows s t" "grows s (t\<lparr>w_world := w\<rparr>) \<longleftrightarrow> grows s t"
  by (simp_all add: grows_def)

lemma w_log_timer [simp]:
  "\<exists>l. w_log (CancelReconnectTimer E s) = w_log s @ l" "\<exists>l. w_log (start_reconnect_timer E d s) = w_log s @ l"
  using grows_basic(4,5) unfolding grows_def by blast+

lemma grows_clients: "grows s (on_ap_client_joined E s)" "grows s (on_ap_client_left E s)"
  by (simp_all add: on_ap_client_joined_def on_ap_client_left_def Let_def grows_def CancelReconnectTimer_def
      start_reconnect_timer_def del: max_0_1 split: option.split)

lemma grows_got_ip: "grows s (on_got_ip E ip s)"
  by (simp add: on_got_ip_def Let_def grows_def CancelReconnectTimer_def)

lemma grows_disconnected: "grows s (on_disconnected E s)"
  unfolding on_disconnected_def Let_def case_prod_beta
  by (simp add: grows_def CancelReconnectTimer_def start_reconnect_timer_def split: option.split)

lemma grows_recovery: "grows s (StartRecoveryAccessPoint E s)"
  by (simp add: StartRecoveryAccessPoint_def bring_up_ap_def StartSetupHttpServer_def Let_def case_prod_beta grows_def)

lemma grows_apply: "grows s (snd (ApplyWifiCredentials E ssid password s))"
  by (simp add: ApplyWifiCredentials_def CancelReconnectTimer_def Let_def case_prod_beta grows_def)

lemma grows_approve: "grows s (snd (ApproveRecoveryCredentials E r s))"
proof -
  have "grows s (snd (ApplyWifiCredentials E a b (s\<lparr>w_pending := x\<rparr>)))" for a b x
    using grows_apply [of "s\<lparr>w_pending := x\<rparr>" E a b] by (simp add: grows_def)
  then show ?thesis
    by (simp add: ApproveRecoveryCredentials_def Let_def case_prod_beta split: option.split) (simp add: grows_def)
qed

lemma grows_form: "grows s (snd (HandlePostConnect E n s))"
proof -
  have "grows s (snd (ApplyWifiCredentials E a b (s\<lparr>w_world := x\<rparr>)))" for a b x
    using grows_apply [of "s\<lparr>w_world := x\<rparr>" E a b] by simp
  moreover have "grows s (snd (HandleRecoveryRequest a b (s\<lparr>w_world := x\<rparr>)))" for a b x
    by (simp add: HandleRecoveryRequest_def Let_def case_prod_beta grows_def split: option.split)
  ultimately show ?thesis
    by (simp add: HandlePostConnect_def Let_def case_prod_beta split: option.split)
qed

lemma grows_step: "grows s (wifi_step E i s)"
proof -
  have "grows t (wifi_react E i t)" for t :: "'a wifi"
  proof (cases i)
    case (InEvent e)
    then show ?thesis by (cases e) (simp_all add: grows_clients grows_got_ip grows_disconnected)
  qed (simp_all add: grows_recovery grows_apply grows_approve grows_form ReconnectTimerCallback_def Let_def case_prod_beta,
      simp_all add: grows_def start_reconnect_timer_def CancelReconnectTimer_def RejectRecoveryCredentials_def)
  then show ?thesis unfolding wifi_step_def by (rule grows_trans [OF grows_basic(3)])
qed

lemma posted_shown: "OnCredentialsPending ssid r \<in> set (posted l) \<longleftrightarrow> (ssid, r) \<in> set (shown l)"
  by (induction l rule: shown.induct) (auto simp: posted_def map_filter_simps)

text \<open>What a step posts and what was shown before are among what has been shown after it.\<close>

lemma module_step_shown:
  fixes p E i w
  defines "q \<equiv> module_step E i w p"
  shows "set (shown (w_log (pl_wifi p))) \<subseteq> set (shown (w_log (pl_wifi q)))"
    and "OnCredentialsPending ssid r \<in> set (pl_queue q) \<Longrightarrow>
      OnCredentialsPending ssid r \<in> set (pl_queue p) \<or> (ssid, r) \<in> set (shown (w_log (pl_wifi q)))"
proof -
  obtain l where l: "w_log (wifi_step E i ((pl_wifi p)\<lparr>w_world := w\<rparr>)) = w_log (pl_wifi p) @ l"
    using grows_step [of "(pl_wifi p)\<lparr>w_world := w\<rparr>" E i] by (auto simp: grows_def)
  show "set (shown (w_log (pl_wifi p))) \<subseteq> set (shown (w_log (pl_wifi q)))" by (simp add: q_def module_step_def Let_def l)
  show "OnCredentialsPending ssid r \<in> set (pl_queue q) \<Longrightarrow>
      OnCredentialsPending ssid r \<in> set (pl_queue p) \<or> (ssid, r) \<in> set (shown (w_log (pl_wifi q)))"
    by (auto simp: q_def module_step_def Let_def l posted_shown)
qed

section \<open>What a tap on Allow does\<close>

definition panel_inv :: "'w panel \<Rightarrow> bool" where
  "panel_inv p \<longleftrightarrow>
     request_inv (pl_wifi p) \<and>
     (\<forall>ssid r. OnCredentialsPending ssid r \<in> set (pl_queue p) \<longrightarrow> (ssid, r) \<in> set (shown (w_log (pl_wifi p)))) \<and>
     (has_pending_request (pl_screen p) \<longrightarrow>
        \<not> request_box_hidden (pl_screen p) \<and>
        (\<exists>ssid. request_text (pl_screen p) = pending_prompt ssid \<and>
                (ssid, pending_request_id (pl_screen p)) \<in> set (shown (w_log (pl_wifi p)))))"

lemma panel_inv_booted: "panel_booted E p \<Longrightarrow> panel_inv p"
proof -
  assume b: "panel_booted E p"
  have "has_credentials_pending panel_callbacks" by (simp add: panel_callbacks_def)
  then have "request_inv (pl_wifi p)" using b wifi_booted_request by (auto simp: panel_booted_def)
  moreover have "\<not> has_pending_request (pl_screen p)"
    using b by (auto simp: panel_booted_def WifiSetupScreen_new_def SetApInfo_def simp del: list.inject char.inject)
  moreover have "pl_queue p = posted (w_log (pl_wifi p))" using b by (simp add: panel_booted_def)
  ultimately show "panel_inv p" by (simp add: panel_inv_def posted_shown)
qed

lemma panel_inv_screen:
  "panel_inv p \<Longrightarrow>
   (has_pending_request s \<Longrightarrow> has_pending_request (pl_screen p) \<and> \<not> request_box_hidden s \<and>
      request_text s = request_text (pl_screen p) \<and> pending_request_id s = pending_request_id (pl_screen p)) \<Longrightarrow>
   panel_inv (p\<lparr>pl_screen := s\<rparr>)"
  by (auto simp: panel_inv_def)

lemma pl_screen_module [simp]: "pl_screen (module_step E i w p) = pl_screen p"
  by (simp add: module_step_def Let_def)

lemma panel_inv_module:
  assumes "panel_inv p"
  shows "panel_inv (module_step E i w p)"
proof -
  have "request_inv ((pl_wifi p)\<lparr>w_world := w\<rparr>)" using assms by (simp add: panel_inv_def request_inv_def)
  then have "request_inv (pl_wifi (module_step E i w p))" by (simp add: module_step_def Let_def wifi_step_request)
  moreover have "set (shown (w_log (pl_wifi p))) \<subseteq> set (shown (w_log (pl_wifi (module_step E i w p))))"
    by (rule module_step_shown(1))
  moreover have "OnCredentialsPending ssid r \<in> set (pl_queue p) \<or> (ssid, r) \<in> set (shown (w_log (pl_wifi (module_step E i w p))))"
    if "OnCredentialsPending ssid r \<in> set (pl_queue (module_step E i w p))" for ssid r
    using that by (rule module_step_shown(2))
  ultimately show ?thesis using assms unfolding panel_inv_def pl_screen_module by blast
qed

lemma panel_inv_drain:
  assumes "panel_inv p"
  shows "panel_inv (panel_step E PDrain p)"
proof (cases "pl_queue p")
  case (Cons c rest)
  then show ?thesis
    using assms
    by (cases c) (auto simp: Queue_TryPop_def panel_inv_def SetApInfo_def ClearPendingRequest_def SetConnectError_def
        ShowPendingRequest_def)
qed (use assms in \<open>simp add: Queue_TryPop_def\<close>)

lemma panel_inv_step:
  assumes "panel_inv p"
  shows "panel_inv (panel_step E e p)"
proof (cases e)
  case (PTap allow w)
  have "panel_inv (module_step E i w p)" for i by (rule panel_inv_module [OF assms])
  then show ?thesis
    using PTap assms
    by (auto simp: Decide_def Let_def case_prod_beta panel_decision_step ClearPendingRequest_def SetConnectError_def
        intro!: panel_inv_screen)
next
  case (PType a b)
  show ?thesis unfolding PType panel_step.simps by (rule panel_inv_screen [OF assms]) (use assms in \<open>simp_all add: panel_inv_def\<close>)
next
  case (PConnect w)
  have "panel_inv (module_step E (InSubmit a b) w p)" for a b by (rule panel_inv_module [OF assms])
  then show ?thesis
    using PConnect assms
    by (auto simp: OnConnectClicked_def Let_def case_prod_beta panel_submit_def SetConnectError_def intro!: panel_inv_screen)
      (simp_all add: panel_inv_def)
qed (use assms in \<open>simp_all add: panel_inv_module panel_inv_drain del: panel_step.simps(2)\<close>)

lemma panel_inv_run: "panel_run E p q \<Longrightarrow> panel_inv p \<Longrightarrow> panel_inv q"
  by (induction rule: panel_run.induct) (simp_all add: panel_inv_step del: panel_step.simps)

lemma driver_gets_label_text:
  "IsValidWifiCredentials ssid pw \<Longrightarrow> c_string 32 ssid = label_text ssid \<and> c_string 64 pw = label_text pw"
  by (auto simp: IsValidWifiCredentials_def c_string_def label_text_def kMaxWifiSsidBytes_def kMaxWifiPasswordBytes_def
      intro!: take_all order_trans [OF length_takeWhile_le])

lemma prompt_label_text: "pending_prompt (label_text ssid) = pending_prompt ssid"
  by (simp add: pending_prompt_def label_text_def takeWhile_takeWhile)

text \<open>
  C15: Allow joins the network named on the screen. Whatever the Wi-Fi module, the access point's visitors and
  the UI queue have done since boot, and however late the queue is, a tap on one of the two buttons changes
  the credentials in the driver only if it is a tap on Allow while the prompt is visible, and then the name
  the driver receives is, byte for byte, the name in the prompt the person was looking at: a request that
  replaced it in the meantime is not applied (until \<open>2 ^ 32\<close> requests have been made).
\<close>

theorem allow_joins_the_network_shown:
  assumes "panel_booted E p0" "panel_run E p0 p" "length (shown (w_log (pl_wifi p))) < 2 ^ 32"
    and "configs (w_log (pl_wifi (panel_step E (PTap allow w) p))) \<noteq> configs (w_log (pl_wifi p))"
  shows "\<exists>ssid pw. allow \<and> \<not> request_box_hidden (pl_screen p) \<and> request_text (pl_screen p) = pending_prompt ssid \<and>
    configs (w_log (pl_wifi (panel_step E (PTap allow w) p))) = configs (w_log (pl_wifi p)) @ [(ssid, pw)]"
proof -
  let ?s = "pl_wifi p" and ?r = "pending_request_id (pl_screen p)"
  let ?t = "note_log (LIn (InApprove ?r)) (?s\<lparr>w_world := w\<rparr>)"
  have inv: "panel_inv p" by (rule panel_inv_run [OF assms(2) panel_inv_booted [OF assms(1)]])
  have tap: "pl_wifi (panel_step E (PTap allow w) p) =
      (if has_pending_request (pl_screen p)
       then wifi_step E (if allow then InApprove ?r else InReject) (?s\<lparr>w_world := w\<rparr>) else ?s)"
    by (simp add: Decide_def Let_def case_prod_beta panel_decision_step module_step_def)
  then have on: "allow" "has_pending_request (pl_screen p)"
    using assms(4) by (auto simp: wifi_step_def RejectRecoveryCredentials_def split: if_splits)
  obtain c where c: "fst (Take ?r (w_pending ?t)) = Some c" and v: "IsValidWifiCredentials (wc_ssid c) (wc_password c)"
    and new: "configs (w_log (pl_wifi (panel_step E (PTap allow w) p))) =
      configs (w_log ?s) @ [(c_string 32 (wc_ssid c), c_string 64 (wc_password c))]"
    using assms(4) on unfolding tap by (auto simp: wifi_step_def Approve_configs split: option.splits if_splits)
  have "request_inv ?t" using inv by (simp add: panel_inv_def request_inv_def)
  from approved_was_shown [OF this c]
  have one: "ssid' = wc_ssid c" if "(ssid', ?r) \<in> set (shown (w_log ?s))" for ssid' using assms(3) that by simp
  obtain ssid' where "request_text (pl_screen p) = pending_prompt ssid'" "(ssid', ?r) \<in> set (shown (w_log ?s))"
    using inv on(2) by (auto simp: panel_inv_def)
  then have "request_text (pl_screen p) = pending_prompt (label_text (wc_ssid c))"
    using one by (simp add: prompt_label_text)
  then show ?thesis
    using on inv new driver_gets_label_text [OF v] by (auto simp: panel_inv_def)
qed

text \<open>Deny names no request: it drops the pending one even when that is newer than the prompt and not shown yet.\<close>

lemma deny_drops_any_request:
  "has_pending_request (pl_screen p) \<Longrightarrow> pending (w_pending (pl_wifi (panel_step E (PTap False w) p))) = None"
  by (simp add: Decide_def Let_def case_prod_beta panel_decision_step module_step_def wifi_step_def RejectRecoveryCredentials_def
      PendingWifi_Clear_def)

text \<open>A tap that could not be applied says so; one whose request is gone says nothing.\<close>

lemma failed_allow_reported:
  assumes "has_pending_request s" "fst (f (pending_request_id s) allow v) = ok"
  shows "error_text (fst (Decide (Some f) allow s v)) = (if ok then error_text s else label_text kApplyFailedMessage)"
  using assms by (simp add: Decide_def Let_def case_prod_beta ClearPendingRequest_def SetConnectError_def)

lemma gone_request_silent:
  "fst (Take r (w_pending s)) = None \<Longrightarrow> fst (wifi_pending_decision E r True s)"
  by (simp add: wifi_pending_decision_def ApproveRecoveryCredentials_def case_prod_beta Let_def)

text \<open>A visitor of the recovery access point asks for \<open>cafe\<close>; the prompt comes up; Allow is tapped.\<close>

definition sample_panel :: "string panel" where
  "sample_panel =
     \<lparr>pl_wifi = sample_boot, pl_queue = [], pl_screen = WifiSetupScreen_new,
      pl_nav = Navigation_Register kWifiSetup 1 (Navigation_new kDashboard 0)\<rparr>"

definition sample_prompted :: "string panel" where
  "sample_prompted =
     panel_step sample_wifi_env PDrain
       (panel_step sample_wifi_env (PModule (InForm (int (length (wifi_form ''cafe'' ''pw'')))) (wifi_form ''cafe'' ''pw'')) sample_panel)"

lemma sample_asked_log: "posted (drop (length (w_log sample_boot)) (w_log sample_asked)) = [OnCredentialsPending ''cafe'' 1]"
proof -
  have v: "IsValidWifiCredentials ''cafe'' ''pw''"
    by (simp add: IsValidWifiCredentials_def kMaxWifiSsidBytes_def kMaxWifiPasswordBytes_def)
  note f = wifi_form_fits [OF v] recv_whole_form [of "wifi_form ''cafe'' ''pw''"]
  have asked: "sample_asked =
      snd (HandleRecoveryRequest ''cafe'' ''pw''
        ((note_log (LIn (InForm (int (length (wifi_form ''cafe'' ''pw''))))) (sample_boot\<lparr>w_world := wifi_form ''cafe'' ''pw''\<rparr>))\<lparr>w_world := []\<rparr>))"
    using f by (simp add: sample_asked_def wifi_step_def HandlePostConnect_def wifi_form_fields)
  show ?thesis
    unfolding asked using v
    by (simp add: HandleRecoveryRequest_def Submit_def PendingWifi_new_def all_callbacks_def posted_def map_filter_simps)
qed

lemma sample_prompted_simps:
  "pl_wifi sample_prompted = sample_asked"
  "pl_screen sample_prompted = ShowPendingRequest ''cafe'' 1 WifiSetupScreen_new"
proof -
  have q: "module_step sample_wifi_env (InForm (int (length (wifi_form ''cafe'' ''pw'')))) (wifi_form ''cafe'' ''pw'') sample_panel =
      sample_panel\<lparr>pl_wifi := sample_asked, pl_queue := [OnCredentialsPending ''cafe'' 1]\<rparr>"
    using sample_asked_log by (simp add: module_step_def sample_panel_def sample_asked_def Let_def)
  show "pl_wifi sample_prompted = sample_asked"
    "pl_screen sample_prompted = ShowPendingRequest ''cafe'' 1 WifiSetupScreen_new"
    by (simp_all add: sample_prompted_def q Queue_TryPop_def) (simp add: sample_panel_def)
qed

theorem allow_joins_the_network_shown_witness:
  "\<exists>ssid pw. request_text (pl_screen sample_prompted) = pending_prompt ssid \<and>
     configs (w_log (pl_wifi (panel_step sample_wifi_env (PTap True []) sample_prompted))) = [(ssid, pw)]"
proof -
  let ?E = sample_wifi_env
  have "panel_callbacks = all_callbacks" by (simp add: panel_callbacks_def all_callbacks_def)
  then have boot: "panel_booted ?E sample_panel"
    using sample_boot_booted by (simp add: panel_booted_def sample_panel_def posted_def map_filter_simps)
  have run: "panel_run ?E sample_panel sample_prompted" unfolding sample_prompted_def by (intro panel_more panel_refl)
  have few: "length (shown (w_log (pl_wifi sample_prompted))) < 2 ^ 32" by (simp add: sample_prompted_simps sample_asked_simps)
  have tap: "pl_wifi (panel_step ?E (PTap True []) sample_prompted) = wifi_step ?E (InApprove 1) (sample_asked\<lparr>w_world := []\<rparr>)"
    by (simp add: Decide_def Let_def case_prod_beta panel_decision_step module_step_def sample_prompted_simps ShowPendingRequest_def)
  have "configs (w_log (wifi_step ?E (InApprove 1) (sample_asked\<lparr>w_world := []\<rparr>))) \<noteq> []"
    by (simp add: wifi_step_def Approve_configs Take_def sample_asked_simps IsValidWifiCredentials_def kMaxWifiSsidBytes_def
        kMaxWifiPasswordBytes_def)
  then show ?thesis
    using allow_joins_the_network_shown [OF boot run few, of True "[]"]
    unfolding tap by (simp add: sample_prompted_simps sample_asked_simps)
qed

end
