(* ===== verification/Firmware_Battery.thy ===== *)
theory Firmware_Battery
  imports Power_State Complex_Main
begin

text \<open>
  \<^verbatim>\<open>platform/firmware/battery_reader.cpp\<close>: the gauge, the battery detection and the charger's pins, and its
  use by the monitors and the update gate through \<^verbatim>\<open>platform/battery_reader.h\<close>. The sensor and the I/O expander
  are parameters over an arbitrary world; a reading is \<^const>\<open>None\<close> when the bus fails. A \<^verbatim>\<open>float\<close> is a real, and
  \<open>fl\<close> rounds a result to one; NaN and infinities, which the sensor's integer registers cannot yield, are left
  out. Reading changes state: the presence check remembers the last voltage it saw.
\<close>

section \<open>Interface\<close>

record 'w battery_reader =
  br_percent :: "'w \<Rightarrow> int \<times> 'w"
  br_external :: "'w \<Rightarrow> bool \<times> 'w"
  br_present :: "'w \<Rightarrow> bool \<times> 'w"

text \<open>\<^verbatim>\<open>LatchedThresholdMonitor\<close>'s tick, asking the reader in the source's order, and the three users of a reader.\<close>

definition monitor_tick ::
  "'w battery_reader \<Rightarrow> ('w \<Rightarrow> bool \<times> 'w) \<Rightarrow> bool \<Rightarrow> 'w \<Rightarrow> (edge list \<times> bool) \<times> 'w" where
  "monitor_tick R is_bad already w =
     (let (present, w1) = br_present R w
      in if \<not> present then (latched_tick False False already, w1)
         else (let (bad, w2) = is_bad w1 in (latched_tick True bad already, w2)))"

definition low_is_bad :: "'w battery_reader \<Rightarrow> 'w \<Rightarrow> bool \<times> 'w" where
  "low_is_bad R w = (let (p, w1) = br_percent R w in (p < kThresholdPercent, w1))"

definition critical_is_bad :: "'w battery_reader \<Rightarrow> 'w \<Rightarrow> bool \<times> 'w" where
  "critical_is_bad R w =
     (let (p, w1) = br_percent R w
      in if \<not> p < kCriticalThresholdPercent then (False, w1)
         else (let (e, w2) = br_external R w1 in (\<not> e, w2)))"

definition ota_gate_open :: "'w battery_reader \<Rightarrow> 'w \<Rightarrow> bool \<times> 'w" where
  "ota_gate_open R w =
     (let (p, w1) = br_percent R w in if kMinBatteryPercent \<le> p then (True, w1) else br_external R w1)"

section \<open>The INA226 reader\<close>

datatype expander_call =
    SetDirOutput u32
  | SetPushPull u32
  | SetLevel u32 bool
  | SetDirInput u32
  | SetPullDown u32

text \<open>\<open>IO_EXPANDER_PIN_NUM_7\<close> and \<open>_6\<close>, the masks of the expander's library.\<close>

definition kChargeEnablePin :: u32 where "kChargeEnablePin = 128"
definition kChargeStatusPin :: u32 where "kChargeStatusPin = 64"

record 'w ina_env =
  bus_voltage :: "'w \<Rightarrow> real option \<times> 'w"
  current_amps :: "'w \<Rightarrow> real option \<times> 'w"
  io_expander :: "'w \<Rightarrow> bool \<times> 'w"
  charge_level :: "u32 \<Rightarrow> 'w \<Rightarrow> u32 option \<times> 'w"
  expander_do :: "expander_call \<Rightarrow> 'w \<Rightarrow> bool \<times> 'w"
  fl :: "real \<Rightarrow> real"

record 'w ina226 =
  last_voltage_volts :: real
  has_last_voltage :: bool
  ina_world :: 'w

definition kMinVoltage :: "'w ina_env \<Rightarrow> real" where "kMinVoltage E = fl E 6.4"
definition kMaxVoltage :: "'w ina_env \<Rightarrow> real" where "kMaxVoltage E = fl E 8.4"
definition kBatteryPresentCurrentThresholdAmps :: "'w ina_env \<Rightarrow> real" where "kBatteryPresentCurrentThresholdAmps E = fl E 0.005"
definition kVoltageStabilityThresholdVolts :: "'w ina_env \<Rightarrow> real" where "kVoltageStabilityThresholdVolts E = fl E 0.5"

text \<open>Both groups of pin calls are made to the end whatever fails, which is only logged.\<close>

definition Ina226BatteryReader_new :: "'w ina_env \<Rightarrow> 'w \<Rightarrow> expander_call list \<times> 'w ina226" where
  "Ina226BatteryReader_new E w =
     (let (found, w1) = io_expander E w;
          calls = (if found then [SetDirOutput kChargeEnablePin, SetPushPull kChargeEnablePin, SetLevel kChargeEnablePin True,
                                  SetDirInput kChargeStatusPin, SetPullDown kChargeStatusPin] else [])
      in (calls, \<lparr>last_voltage_volts = 0, has_last_voltage = False, ina_world = fold (\<lambda>c w. snd (expander_do E c w)) calls w1\<rparr>))"

definition gauge :: "'w ina_env \<Rightarrow> real \<Rightarrow> int" where
  "gauge E voltage =
     (let fraction = fl E (fl E (voltage - kMinVoltage E) / fl E (kMaxVoltage E - kMinVoltage E));
          clamped = (if fraction < 0 then 0 else if 1 < fraction then 1 else fraction)
      in \<lfloor>fl E (fl E (clamped * 100) + 0.5)\<rfloor>)"

definition Ina226_ReadPercent :: "'w ina_env \<Rightarrow> 'w ina226 \<Rightarrow> int \<times> 'w ina226" where
  "Ina226_ReadPercent E s =
     (let (reading, w) = bus_voltage E (ina_world s); s1 = s\<lparr>ina_world := w\<rparr>
      in case reading of None \<Rightarrow> (0, s1) | Some voltage \<Rightarrow> (gauge E voltage, s1))"

definition Ina226_IsBatteryPresent :: "'w ina_env \<Rightarrow> 'w ina226 \<Rightarrow> bool \<times> 'w ina226" where
  "Ina226_IsBatteryPresent E s =
     (let (current, w) = current_amps E (ina_world s); s1 = s\<lparr>ina_world := w\<rparr>
      in case current of
           None \<Rightarrow> (False, s1)
         | Some amps \<Rightarrow>
             if kBatteryPresentCurrentThresholdAmps E \<le> \<bar>amps\<bar> then (True, s1)
             else
               (let (reading, w2) = bus_voltage E (ina_world s1); s2 = s1\<lparr>ina_world := w2\<rparr>
                in case reading of
                     None \<Rightarrow> (False, s2)
                   | Some voltage \<Rightarrow>
                       (has_last_voltage s2 \<and>
                          \<bar>fl E (voltage - last_voltage_volts s2)\<bar> < kVoltageStabilityThresholdVolts E,
                        s2\<lparr>last_voltage_volts := voltage, has_last_voltage := True\<rparr>)))"

definition Ina226_IsExternalPowerConnected :: "'w ina_env \<Rightarrow> 'w ina226 \<Rightarrow> bool \<times> 'w ina226" where
  "Ina226_IsExternalPowerConnected E s =
     (let (found, w) = io_expander E (ina_world s);
          (level, w1) = (if found then charge_level E kChargeStatusPin w else (None, w));
          s1 = s\<lparr>ina_world := w1\<rparr>;
          charging = (case level of None \<Rightarrow> False | Some level_mask \<Rightarrow> and level_mask kChargeStatusPin \<noteq> 0)
      in if charging then (True, s1) else (let (present, s2) = Ina226_IsBatteryPresent E s1 in (\<not> present, s2)))"

definition ina226_reader :: "'w ina_env \<Rightarrow> 'w ina226 battery_reader" where
  "ina226_reader E =
     \<lparr>br_percent = Ina226_ReadPercent E, br_external = Ina226_IsExternalPowerConnected E, br_present = Ina226_IsBatteryPresent E\<rparr>"

lemma ina226_reader_simps [simp]:
  "br_percent (ina226_reader E) = Ina226_ReadPercent E" "br_external (ina226_reader E) = Ina226_IsExternalPowerConnected E"
  "br_present (ina226_reader E) = Ina226_IsBatteryPresent E"
  by (simp_all add: ina226_reader_def)

text \<open>For the pure monitors: a tick is \<^const>\<open>latched_tick\<close> on what the reader answered.\<close>

lemma monitor_tick_latched:
  "\<exists>present bad. fst (monitor_tick R is_bad already w) = latched_tick present bad already \<and>
     present = fst (br_present R w) \<and> (present \<longrightarrow> bad = fst (is_bad (snd (br_present R w))))"
  by (cases "br_present R w") (auto simp: monitor_tick_def Let_def case_prod_beta)

section \<open>The gauge\<close>

text \<open>What is used of rounding to single precision.\<close>

definition rounds :: "(real \<Rightarrow> real) \<Rightarrow> bool" where
  "rounds r \<longleftrightarrow> mono r \<and> r 0 = 0 \<and> r (1/2) = 1/2 \<and> r 100 = 100 \<and> r (201/2) = 201/2"

lemma gauge_range:
  assumes "rounds (fl E)"
  shows "0 \<le> gauge E v \<and> gauge E v \<le> 100"
proof -
  have le: "fl E x \<le> fl E y" if "x \<le> y" for x y using assms that by (simp add: rounds_def monoD)
  have exact: "fl E 0 = 0" "fl E (1/2) = 1/2" "fl E 100 = 100" "fl E (201/2) = 201/2" using assms by (simp_all add: rounds_def)
  define c where "c = (let f = fl E (fl E (v - kMinVoltage E) / fl E (kMaxVoltage E - kMinVoltage E))
    in if f < 0 then 0 else if 1 < f then 1 else f)"
  have c: "0 \<le> c * 100" "c * 100 \<le> 100" by (simp_all add: c_def Let_def)
  have "0 \<le> fl E (c * 100)" "fl E (c * 100) \<le> 100" using le [OF c(1)] le [OF c(2)] exact by simp_all
  then have "fl E (1/2) \<le> fl E (fl E (c * 100) + 1/2)" "fl E (fl E (c * 100) + 1/2) \<le> fl E (201/2)" by (auto intro!: le)
  moreover have "gauge E v = \<lfloor>fl E (fl E (c * 100) + 1/2)\<rfloor>" by (simp add: gauge_def c_def Let_def)
  ultimately show ?thesis using exact by (simp add: le_floor_iff floor_le_iff)
qed

lemma gauge_mono:
  assumes "rounds (fl E)" "kMinVoltage E \<le> kMaxVoltage E" "v \<le> w"
  shows "gauge E v \<le> gauge E w"
proof -
  have le: "fl E x \<le> fl E y" if "x \<le> y" for x y using assms(1) that by (simp add: rounds_def monoD)
  have "0 \<le> fl E (kMaxVoltage E - kMinVoltage E)" using le [of 0] assms(1,2) by (simp add: rounds_def)
  then have "fl E (fl E (v - kMinVoltage E) / fl E (kMaxVoltage E - kMinVoltage E)) \<le>
      fl E (fl E (w - kMinVoltage E) / fl E (kMaxVoltage E - kMinVoltage E))"
    using assms(3) by (intro le divide_right_mono) simp_all
  then show ?thesis unfolding gauge_def Let_def by (intro floor_mono le add_right_mono mult_right_mono) auto
qed
text \<open>What rounding keeps of the constants: the gauge's range is not turned round.\<close>

lemma voltage_bounds: "rounds (fl E) \<Longrightarrow> kMinVoltage E \<le> kMaxVoltage E"
  by (simp add: rounds_def kMinVoltage_def kMaxVoltage_def monoD)

lemma ReadPercent_range: "rounds (fl E) \<Longrightarrow> 0 \<le> fst (Ina226_ReadPercent E s) \<and> fst (Ina226_ReadPercent E s) \<le> 100"
  using gauge_range by (auto simp: Ina226_ReadPercent_def Let_def case_prod_beta split: option.splits)

section \<open>Presence\<close>

text \<open>A reading in the ambiguous zone is answered by the voltage remembered from the call before, whoever made it.\<close>

lemma IsBatteryPresent_ambiguous:
  assumes "current_amps E (ina_world s) = (Some a, w1)" "\<bar>a\<bar> < kBatteryPresentCurrentThresholdAmps E"
    and "bus_voltage E w1 = (Some v, w2)"
  shows "Ina226_IsBatteryPresent E s =
    (has_last_voltage s \<and> \<bar>fl E (v - last_voltage_volts s)\<bar> < kVoltageStabilityThresholdVolts E,
     s\<lparr>ina_world := w2, last_voltage_volts := v, has_last_voltage := True\<rparr>)"
  using assms by (simp add: Ina226_IsBatteryPresent_def)

text \<open>
  So a second call is answered by how far the voltage has moved since the first one, not since the last tick:
  on an empty charge path, the second of two users of one tick finds a battery.
\<close>

lemma second_call_finds_a_battery:
  assumes "current_amps E (ina_world s) = (Some a, w1)" "\<bar>a\<bar> < kBatteryPresentCurrentThresholdAmps E"
    and "bus_voltage E w1 = (Some v, w2)"
    and "current_amps E w2 = (Some a', w3)" "\<bar>a'\<bar> < kBatteryPresentCurrentThresholdAmps E"
    and "bus_voltage E w3 = (Some v', w4)" "\<bar>fl E (v' - v)\<bar> < kVoltageStabilityThresholdVolts E"
  shows "fst (Ina226_IsBatteryPresent E (snd (Ina226_IsBatteryPresent E s)))"
proof -
  have "Ina226_IsBatteryPresent E s = (has_last_voltage s \<and> \<bar>fl E (v - last_voltage_volts s)\<bar> < kVoltageStabilityThresholdVolts E,
      s\<lparr>ina_world := w2, last_voltage_volts := v, has_last_voltage := True\<rparr>)"
    by (rule IsBatteryPresent_ambiguous [OF assms(1-3)])
  then show ?thesis using assms(4-7) by (simp add: Ina226_IsBatteryPresent_def)
qed

lemma unreadable_current_absent:
  "fst (current_amps E (ina_world s)) = None \<Longrightarrow> \<not> fst (Ina226_IsBatteryPresent E s)"
  by (auto simp: Ina226_IsBatteryPresent_def Let_def case_prod_beta)

text \<open>A dead sensor is external power, whatever the charger says.\<close>

lemma unreadable_current_external:
  assumes "\<And>w. fst (current_amps E w) = None"
  shows "fst (Ina226_IsExternalPowerConnected E s)"
proof -
  have "\<not> fst (Ina226_IsBatteryPresent E t)" for t by (rule unreadable_current_absent) (rule assms)
  then show ?thesis by (simp add: Ina226_IsExternalPowerConnected_def Let_def case_prod_beta)
qed

section \<open>The gauge and the update gate\<close>

text \<open>
  the battery level is a percentage whatever the sensor reports, never falls as the voltage rises, and is
  0 when the bus cannot be read; and nothing
  the gauge does touches what the presence check remembers.
\<close>

lemma battery_level_is_a_percentage:
  assumes "rounds (fl E)"
  shows "0 \<le> fst (Ina226_ReadPercent E s) \<and> fst (Ina226_ReadPercent E s) \<le> 100 \<and>
    (\<forall>v w. v \<le> w \<longrightarrow> gauge E v \<le> gauge E w) \<and>
    (fst (bus_voltage E (ina_world s)) = None \<longrightarrow> fst (Ina226_ReadPercent E s) = 0) \<and>
    last_voltage_volts (snd (Ina226_ReadPercent E s)) = last_voltage_volts s \<and>
    has_last_voltage (snd (Ina226_ReadPercent E s)) = has_last_voltage s"
  using ReadPercent_range [OF assms] gauge_mono [OF assms voltage_bounds [OF assms]]
  by (auto simp: Ina226_ReadPercent_def Let_def case_prod_beta split: option.splits)

definition bench_env :: "real option \<Rightarrow> real option \<Rightarrow> unit ina_env" where
  "bench_env v a = \<lparr>bus_voltage = Pair v, current_amps = Pair a, io_expander = Pair True,
     charge_level = \<lambda>_. Pair (Some 0), expander_do = \<lambda>_. Pair True, fl = id\<rparr>"

lemma rounds_bench: "rounds (fl (bench_env v a))"
  by (simp add: rounds_def bench_env_def mono_def)

text \<open>
  C33: when the current sensor cannot be read, the reader says that no battery is present and that external power
  is connected: the update gate is open at any battery level and both low battery alarms stay silent and latched
  off. The fallback the source calls conservative is so for the alarms of a unit without a battery, not for the
  gate.
\<close>

theorem unreadable_current_opens_update_gate:
  fixes E :: "'w ina_env"
  assumes "\<And>w. fst (current_amps E w) = None"
  shows "fst (ota_gate_open (ina226_reader E) s) \<and>
    \<not> fst (Ina226_IsBatteryPresent E s) \<and> fst (Ina226_IsExternalPowerConnected E s) \<and>
    fst (monitor_tick (ina226_reader E) (critical_is_bad (ina226_reader E)) already s) = latched_tick False False already \<and>
    fst (monitor_tick (ina226_reader E) (low_is_bad (ina226_reader E)) already s) = latched_tick False False already"
proof -
  have absent: "\<not> fst (Ina226_IsBatteryPresent E t)" for t by (rule unreadable_current_absent) (rule assms)
  then have absent_eq: "Ina226_IsBatteryPresent E t = (False, snd (Ina226_IsBatteryPresent E t))" for t
    by (metis (full_types) prod.collapse)
  have ext: "fst (Ina226_IsExternalPowerConnected E t)" for t by (rule unreadable_current_external) (rule assms)
  have "fst (monitor_tick (ina226_reader E) f already s) = latched_tick False False already" for f
    using absent by (simp add: monitor_tick_def case_prod_beta)
  moreover have "fst (ota_gate_open (ina226_reader E) s)"
    using ext by (simp add: ota_gate_open_def case_prod_beta)
  ultimately show ?thesis using absent ext by blast
qed

theorem unreadable_current_opens_update_gate_witness:
  "fst (ota_gate_open (ina226_reader (bench_env (Some 6) None)) (snd (Ina226BatteryReader_new (bench_env (Some 6) None) ()))) \<and>
   fst (Ina226_ReadPercent (bench_env (Some 6) None) (snd (Ina226BatteryReader_new (bench_env (Some 6) None) ()))) = 0"
proof -
  have "fst (current_amps (bench_env (Some 6) None) w) = None" for w by (simp add: bench_env_def)
  note unreadable_current_opens_update_gate [OF this, of "snd (Ina226BatteryReader_new (bench_env (Some 6) None) ())" False]
  moreover have "fst (Ina226_ReadPercent (bench_env (Some 6) None) (snd (Ina226BatteryReader_new (bench_env (Some 6) None) ()))) = 0"
    by (simp add: Ina226_ReadPercent_def Ina226BatteryReader_new_def bench_env_def gauge_def kMinVoltage_def kMaxVoltage_def)
  ultimately show ?thesis by blast
qed

end
