(* ===== verification/Ui_Widgets.thy ===== *)
theory Ui_Widgets
  imports Firmware_Battery Weather Harmony Ui_Kodi
begin

text \<open>
  What the dashboard shows outside its grid arithmetic: the status bar (\<^verbatim>\<open>ui/status_bar.cpp\<close>), the notification
  banner (\<^verbatim>\<open>ui/notification_banner.cpp\<close>), the on-screen keyboard (\<^verbatim>\<open>ui/keyboard_input.cpp\<close>) and the six tiles
  (\<^verbatim>\<open>ui/clock_widget.cpp\<close>, \<^verbatim>\<open>ui/network_status_widget.cpp\<close>, \<^verbatim>\<open>ui/weather_widget.cpp\<close>,
  \<^verbatim>\<open>ui/notification_widget.cpp\<close>, \<^verbatim>\<open>ui/harmony_widget.cpp\<close>, \<^verbatim>\<open>ui/kodi_widget.cpp\<close>). A widget is the texts of its
  labels and what is hidden; layout and styling are left out. A symbol of LVGL's font is a constructor, three bytes
  long in a text.
\<close>

section \<open>Texts\<close>

datatype symbol =
    SYMBOL_WIFI | SYMBOL_USB | SYMBOL_CHARGE
  | SYMBOL_BATTERY_EMPTY | SYMBOL_BATTERY_1 | SYMBOL_BATTERY_2 | SYMBOL_BATTERY_3 | SYMBOL_BATTERY_FULL

datatype piece = Symbol symbol | Plain string

fun piece_bytes :: "piece \<Rightarrow> nat" where
  "piece_bytes (Symbol s) = 3"
| "piece_bytes (Plain t) = length t"

text \<open>
  \<^verbatim>\<open>strftime\<close> in the local time zone is a parameter; a result that does not fit leaves the buffer unspecified,
  \<^const>\<open>None\<close>.
\<close>

definition FormatLocalTime :: "(string \<Rightarrow> int \<Rightarrow> string) \<Rightarrow> int \<Rightarrow> string \<Rightarrow> nat \<Rightarrow> string option" where
  "FormatLocalTime strftime time format buffer_size =
     (let t = strftime format time in if length t < buffer_size then Some t else None)"

section \<open>Status bar\<close>

definition BatteryLevelIcon :: "int \<Rightarrow> symbol" where
  "BatteryLevelIcon percent =
     (if percent < kThresholdPercent then SYMBOL_BATTERY_EMPTY
      else if percent < 40 then SYMBOL_BATTERY_1
      else if percent < 65 then SYMBOL_BATTERY_2
      else if percent < 90 then SYMBOL_BATTERY_3
      else SYMBOL_BATTERY_FULL)"

text \<open>The buffer of 32 bytes holds every text of a percentage, \<open>status_text_fits\<close> below.\<close>

definition RefreshStatusLabel :: "'w battery_reader \<Rightarrow> bool \<Rightarrow> 'w \<Rightarrow> piece list \<times> 'w" where
  "RefreshStatusLabel R wifi_connected w =
     (let (present, w1) = br_present R w;
          (percent, w2) = br_percent R w1;
          (external, w3) = (if present then br_external R w2 else (False, w2));
          charging = (present \<and> external \<and> percent < 100);
          wifi_prefix = (if wifi_connected then [Symbol SYMBOL_WIFI, Plain ''  ''] else []);
          label = (if \<not> present then wifi_prefix @ [Symbol SYMBOL_USB]
                   else if charging then wifi_prefix @ [Symbol SYMBOL_CHARGE, Plain (''  '' @ to_string percent @ ''%'')]
                   else wifi_prefix @ [Symbol (BatteryLevelIcon percent), Plain (''  '' @ to_string percent @ ''%'')])
      in (label, w3))"

record status_bar =
  sb_clock :: "string option"
  sb_battery :: "piece list"
  sb_wifi_connected :: bool

definition StatusBar_new :: "'w battery_reader \<Rightarrow> bool \<Rightarrow> 'w \<Rightarrow> status_bar \<times> 'w" where
  "StatusBar_new R connected_now w =
     (let (label, w1) = RefreshStatusLabel R connected_now w
      in (\<lparr>sb_clock = Some [], sb_battery = label, sb_wifi_connected = connected_now\<rparr>, w1))"

definition StatusBar_on_tick :: "(string \<Rightarrow> int \<Rightarrow> string) \<Rightarrow> 'w battery_reader \<Rightarrow> int \<Rightarrow> status_bar \<Rightarrow> 'w \<Rightarrow> status_bar \<times> 'w" where
  "StatusBar_on_tick strftime R time b w =
     (let (label, w1) = RefreshStatusLabel R (sb_wifi_connected b) w
      in (b\<lparr>sb_clock := FormatLocalTime strftime time ''%H:%M  %a %d %b'' 32, sb_battery := label\<rparr>, w1))"

definition StatusBar_on_wifi :: "'w battery_reader \<Rightarrow> bool \<Rightarrow> status_bar \<Rightarrow> 'w \<Rightarrow> status_bar \<times> 'w" where
  "StatusBar_on_wifi R now_connected b w =
     (let (label, w1) = RefreshStatusLabel R now_connected w in (b\<lparr>sb_wifi_connected := now_connected, sb_battery := label\<rparr>, w1))"

section \<open>Notifications\<close>

text \<open>The one-shot timer is the time left on it; paused, and after it has fired, it is \<^const>\<open>None\<close>.\<close>

record notification_banner =
  nb_text :: string
  nb_hidden :: bool
  nb_timer :: "ms option"

definition kAutoDismissMs :: ms where "kAutoDismissMs = 4000"

definition NotificationBanner_new :: notification_banner where
  "NotificationBanner_new = \<lparr>nb_text = [], nb_hidden = True, nb_timer = None\<rparr>"

definition NotificationBanner_Show :: "string \<Rightarrow> notification_banner \<Rightarrow> notification_banner" where
  "NotificationBanner_Show message b = b\<lparr>nb_text := label_text message, nb_hidden := False, nb_timer := Some kAutoDismissMs\<rparr>"

definition OnAutoDismiss :: "notification_banner \<Rightarrow> notification_banner" where
  "OnAutoDismiss b = b\<lparr>nb_hidden := True\<rparr>"

text \<open>LVGL's timers once some time has passed.\<close>

definition banner_elapse :: "ms \<Rightarrow> notification_banner \<Rightarrow> notification_banner" where
  "banner_elapse d b =
     (case nb_timer b of
        None \<Rightarrow> b
      | Some left \<Rightarrow> if d < left then b\<lparr>nb_timer := Some (left - d)\<rparr> else OnAutoDismiss (b\<lparr>nb_timer := None\<rparr>))"

definition NotificationWidget_new :: string where
  "NotificationWidget_new = ''No notifications yet''"

definition NotificationWidget_on_notification :: "notification_event \<Rightarrow> string" where
  "NotificationWidget_on_notification e = label_text (ne_message e)"

section \<open>Keyboard\<close>

record keyboard =
  kb_textarea :: "nat option"
  kb_hidden :: bool

definition OnScreenKeyboard_new :: keyboard where
  "OnScreenKeyboard_new = \<lparr>kb_textarea = None, kb_hidden = True\<rparr>"

definition OnTextAreaFocused :: "nat \<Rightarrow> keyboard \<Rightarrow> keyboard" where
  "OnTextAreaFocused textarea k = k\<lparr>kb_textarea := Some textarea, kb_hidden := False\<rparr>"

definition OnKeyboardReadyOrCancel :: "keyboard \<Rightarrow> keyboard" where
  "OnKeyboardReadyOrCancel k = k\<lparr>kb_textarea := None, kb_hidden := True\<rparr>"

section \<open>Clock, network and weather\<close>

record clock_widget =
  cw_time :: "string option"
  cw_date :: "string option"

definition ClockWidget_new :: clock_widget where
  "ClockWidget_new = \<lparr>cw_time = Some [], cw_date = Some []\<rparr>"

definition ClockWidget_on_tick :: "(string \<Rightarrow> int \<Rightarrow> string) \<Rightarrow> int \<Rightarrow> clock_widget" where
  "ClockWidget_on_tick strftime time =
     \<lparr>cw_time = FormatLocalTime strftime time ''%H:%M'' 16, cw_date = FormatLocalTime strftime time ''%a %d %b'' 32\<rparr>"

record network_state =
  ns_connected :: bool
  ns_ssid :: string
  ns_ip_address :: string

record network_widget =
  nw_state :: "piece list"
  nw_ssid :: string
  nw_ip :: string
  nw_details_hidden :: bool

definition RefreshNetworkLabels :: "network_state \<Rightarrow> network_widget \<Rightarrow> network_widget" where
  "RefreshNetworkLabels st n =
     (if ns_connected st
      then \<lparr>nw_state = [Symbol SYMBOL_WIFI, Plain ''  Connected''], nw_ssid = label_text (ns_ssid st),
            nw_ip = label_text (ns_ip_address st), nw_details_hidden = False\<rparr>
      else n\<lparr>nw_state := [Symbol SYMBOL_WIFI, Plain ''  Disconnected''], nw_details_hidden := True\<rparr>)"

text \<open>A new label of LVGL says \<open>Text\<close>.\<close>

definition NetworkStatusWidget_new :: "network_state \<Rightarrow> network_widget" where
  "NetworkStatusWidget_new st =
     RefreshNetworkLabels st \<lparr>nw_state = [], nw_ssid = ''Text'', nw_ip = ''Text'', nw_details_hidden = False\<rparr>"

definition WeatherCodeText :: "int \<Rightarrow> string" where
  "WeatherCodeText code =
     (if code = 0 then ''Clear sky''
      else if code \<in> {1, 2, 3} then ''Partly cloudy''
      else if code \<in> {45, 48} then ''Fog''
      else if code \<in> {51, 53, 55, 56, 57} then ''Drizzle''
      else if code \<in> {61, 63, 65, 66, 67} then ''Rain''
      else if code \<in> {71, 73, 75, 77} then ''Snow''
      else if code \<in> {80, 81, 82} then ''Rain showers''
      else if code \<in> {85, 86} then ''Snow showers''
      else if code \<in> {95, 96, 99} then ''Thunderstorm''
      else ''Unknown'')"

text \<open>\<^verbatim>\<open>%.0f\<close>: to the nearest integer, ties to the even one, a negative value that rounds to zero as \<open>-0\<close>.\<close>

definition round_even :: "real \<Rightarrow> int" where
  "round_even x =
     (let f = \<lfloor>x\<rfloor>; d = x - of_int f
      in if d < 1/2 then f else if d > 1/2 then f + 1 else if even f then f else f + 1)"

definition fmt_0f :: "real \<Rightarrow> string" where
  "fmt_0f x = (if x < 0 \<and> round_even x = 0 then ''-0'' else to_string (round_even x))"

definition kDegree :: string where "kDegree = [CHR 0xC2, CHR 0xB0]"

text \<open>The condition and the location. \<^verbatim>\<open>snprintf\<close> keeps 47 bytes.\<close>

definition RefreshWeatherLabels :: "weather_state \<Rightarrow> string \<times> string" where
  "RefreshWeatherLabels st =
     (if \<not> configured st then (''Weather'', ''Set a location in Settings'')
      else if \<not> has_reading st then (''Fetching...'', label_text (display_name st))
      else (take 47 (fmt_0f (temperature_c st) @ kDegree @ ''C  '' @ WeatherCodeText (weather_code st) @
              (if live st then [] else '' (cached)'')),
            label_text (display_name st)))"

section \<open>Harmony and Kodi\<close>

definition Harmony_StatusLine :: "'w harmony \<Rightarrow> string" where
  "Harmony_StatusLine s =
     (case hc_state s of
        kDisconnected \<Rightarrow> ''Not connected''
      | kConnecting \<Rightarrow> ''Connecting...''
      | kHubError \<Rightarrow> ''Connection error''
      | kConnected \<Rightarrow>
          if \<not> has_config s then ''Connected''
          else (case find (\<lambda>a. act_id a = current_activity_id s) (hc_activities s) of
                  Some activity \<Rightarrow> act_label activity
                | None \<Rightarrow> ''Connected''))"

definition HarmonyWidget_Refresh :: "'w harmony \<Rightarrow> string" where
  "HarmonyWidget_Refresh s = label_text (Harmony_StatusLine s)"

definition HarmonyWidget_OnTap :: "navigation \<Rightarrow> nat option \<times> navigation" where
  "HarmonyWidget_OnTap n = Navigation_GoTo kHarmonyActivities n"

definition KodiWidget_Refresh :: "kodi_snapshot \<Rightarrow> string" where
  "KodiWidget_Refresh s = label_text (KodiWidgetLine s)"

definition KodiWidget_OnTap :: "navigation \<Rightarrow> nat option \<times> navigation" where
  "KodiWidget_OnTap n = Navigation_GoTo kKodiNowPlaying n"
section \<open>Small facts\<close>

lemma nat_text_length:
  assumes "0 \<le> p" "p \<le> 100"
  shows "length (to_string p) \<le> 3"
proof -
  have "length (dec_of_nat n) \<le> 3" if "n < 1000" for n
    using that by (subst dec_of_nat.simps, subst dec_of_nat.simps, subst dec_of_nat.simps) (simp add: div_mult2_eq [symmetric])
  from this [of "nat p"] show ?thesis using assms by (simp add: to_string_def)
qed

text \<open>The text and its final zero fit the buffer of 32 bytes.\<close>

lemma status_text_fits:
  assumes "\<And>w. 0 \<le> fst (br_percent R w) \<and> fst (br_percent R w) \<le> 100"
  shows "sum_list (map piece_bytes (fst (RefreshStatusLabel R b w))) < 32"
proof -
  have le: "length (to_string (fst (br_percent R v))) \<le> 3" for v using assms [of v] by (intro nat_text_length) auto
  have "length (to_string (fst (br_percent R v))) < 21" "length (to_string (fst (br_percent R v))) < 26" for v
    using le [of v] by linarith+
  then show ?thesis by (auto simp: RefreshStatusLabel_def Let_def case_prod_beta)
qed

text \<open>Without a battery no level is shown, and the icon is empty exactly when the low battery alarm would be on.\<close>

lemma status_without_battery:
  "\<not> fst (br_present R w) \<Longrightarrow>
     fst (RefreshStatusLabel R b w) = (if b then [Symbol SYMBOL_WIFI, Plain ''  ''] else []) @ [Symbol SYMBOL_USB]"
  by (simp add: RefreshStatusLabel_def Let_def case_prod_beta)

lemma icon_empty: "BatteryLevelIcon p = SYMBOL_BATTERY_EMPTY \<longleftrightarrow> p < kThresholdPercent"
  by (simp add: BatteryLevelIcon_def)

text \<open>A temperature just below zero is shown as \<open>-0\<close>.\<close>

lemma minus_zero_shown:
  "RefreshWeatherLabels \<lparr>configured = True, has_reading = True, live = True, temperature_c = - (3/10), weather_code = 0, display_name = ''Oslo''\<rparr> =
     (''-0'' @ kDegree @ ''C  Clear sky'', ''Oslo'')"
proof -
  have "round_even (- (3/10)) = 0" by (simp add: round_even_def Let_def) 
  then show ?thesis by (simp add: RefreshWeatherLabels_def fmt_0f_def kDegree_def WeatherCodeText_def label_text_def)
qed

section \<open>The banner in time\<close>

text \<open>A notification or a stretch of time without one.\<close>

datatype banner_event = BShow string | BElapse ms

fun banner_step :: "banner_event \<Rightarrow> notification_banner \<Rightarrow> notification_banner" where
  "banner_step (BShow message) b = NotificationBanner_Show message b"
| "banner_step (BElapse d) b = banner_elapse d b"

definition banner_run :: "banner_event list \<Rightarrow> notification_banner" where
  "banner_run es = fold banner_step es NotificationBanner_new"

text \<open>What the banner ought to show: the last message and the time since it came.\<close>

fun last_shown :: "banner_event list \<Rightarrow> (string \<times> ms) option \<Rightarrow> (string \<times> ms) option" where
  "last_shown [] m = m"
| "last_shown (BShow message # es) m = last_shown es (Some (message, 0))"
| "last_shown (BElapse d # es) m = last_shown es (map_option (\<lambda>(message, t). (message, t + d)) m)"

definition banner_shows :: "(string \<times> ms) option \<Rightarrow> notification_banner \<Rightarrow> bool" where
  "banner_shows m b \<longleftrightarrow>
     (case m of
        None \<Rightarrow> b = NotificationBanner_new
      | Some (message, t) \<Rightarrow>
          nb_text b = label_text message \<and> nb_hidden b = (kAutoDismissMs \<le> t) \<and>
          nb_timer b = (if t < kAutoDismissMs then Some (kAutoDismissMs - t) else None))"

lemma banner_step_shows:
  assumes "banner_shows m b" "case e of BElapse d \<Rightarrow> 0 \<le> d | _ \<Rightarrow> True"
  shows "banner_shows (last_shown [e] m) (banner_step e b)"
proof (cases e)
  case (BShow message)
  then show ?thesis by (simp add: banner_shows_def NotificationBanner_Show_def kAutoDismissMs_def)
next
  case (BElapse d)
  then show ?thesis using assms
    by (cases m) (auto simp: banner_shows_def banner_elapse_def OnAutoDismiss_def NotificationBanner_new_def)
qed

lemma last_shown_append: "last_shown (es @ fs) m = last_shown fs (last_shown es m)"
  by (induction es m rule: last_shown.induct) simp_all

text \<open>
  the banner shows the last notification for four seconds from the moment it came, and then nothing: a newer
  one replaces the text and starts the four seconds again, and no other event hides or shows it.
\<close>

lemma banner_shows_last_notification:
  assumes "\<And>d. BElapse d \<in> set es \<Longrightarrow> 0 \<le> d"
  shows "case last_shown es None of
      None \<Rightarrow> nb_hidden (banner_run es)
    | Some (message, t) \<Rightarrow> nb_text (banner_run es) = label_text message \<and> (nb_hidden (banner_run es) \<longleftrightarrow> kAutoDismissMs \<le> t)"
proof -
  have "banner_shows (last_shown es None) (banner_run es)" using assms
  proof (induction es rule: rev_induct)
    case Nil
    then show ?case by (simp add: banner_shows_def banner_run_def)
  next
    case (snoc e es)
    have "case e of BElapse d \<Rightarrow> 0 \<le> d | _ \<Rightarrow> True" using snoc.prems by (cases e) auto
    with snoc have "banner_shows (last_shown [e] (last_shown es None)) (banner_step e (banner_run es))"
      by (intro banner_step_shows) auto
    then show ?case by (simp add: last_shown_append banner_run_def)
  qed
  then show ?thesis by (auto simp: banner_shows_def NotificationBanner_new_def split: option.splits)
qed

lemma keyboard_focused:
  "kb_hidden OnScreenKeyboard_new = (kb_textarea OnScreenKeyboard_new = None)"
  "kb_hidden (OnTextAreaFocused t k) = (kb_textarea (OnTextAreaFocused t k) = None)"
  "kb_hidden (OnKeyboardReadyOrCancel k) = (kb_textarea (OnKeyboardReadyOrCancel k) = None)"
  by (simp_all add: OnScreenKeyboard_new_def OnTextAreaFocused_def OnKeyboardReadyOrCancel_def)
section \<open>Who hears of the network\<close>

text \<open>
  The monitor, the bar and the network tile together: at a tick the clock's event is queued for the bar, and the
  monitor publishes a change; the queue is drained by the UI thread some time later, when the network may have
  changed again. The battery is a world of its own.
\<close>

datatype ui_event = UTick int | UWifi bool

record 'w desk =
  dk_network :: network_state
  dk_last :: bool
  dk_queue :: "ui_event list"
  dk_bar :: status_bar
  dk_tile :: network_widget
  dk_world :: 'w

fun desk_handle :: "(string \<Rightarrow> int \<Rightarrow> string) \<Rightarrow> 'w battery_reader \<Rightarrow> ui_event \<Rightarrow> 'w desk \<Rightarrow> 'w desk" where
  "desk_handle strftime R (UTick t) d =
     (let (b, w) = StatusBar_on_tick strftime R t (dk_bar d) (dk_world d) in d\<lparr>dk_bar := b, dk_world := w\<rparr>)"
| "desk_handle strftime R (UWifi c) d =
     (let (b, w) = StatusBar_on_wifi R c (dk_bar d) (dk_world d)
      in d\<lparr>dk_bar := b, dk_world := w, dk_tile := RefreshNetworkLabels (dk_network d) (dk_tile d)\<rparr>)"

datatype 'w desk_event = DNetwork network_state | DTick int | DRun | DWorld 'w

fun desk_step :: "(string \<Rightarrow> int \<Rightarrow> string) \<Rightarrow> 'w battery_reader \<Rightarrow> 'w desk_event \<Rightarrow> 'w desk \<Rightarrow> 'w desk" where
  "desk_step strftime R (DNetwork st) d = d\<lparr>dk_network := st\<rparr>"
| "desk_step strftime R (DTick t) d =
     (let (es, now_connected) = NetworkStatusMonitor_tick (ns_connected (dk_network d)) (dk_last d)
      in d\<lparr>dk_last := now_connected,
           dk_queue := dk_queue d @ UTick t # concat (map (\<lambda>e. case e of WifiConnectivityChanged c \<Rightarrow> [UWifi c] | _ \<Rightarrow> []) es)\<rparr>)"
| "desk_step strftime R DRun d =
     (case Queue_TryPop (dk_queue d) of
        (None, rest) \<Rightarrow> d
      | (Some e, rest) \<Rightarrow> desk_handle strftime R e (d\<lparr>dk_queue := rest\<rparr>))"
| "desk_step strftime R (DWorld w) d = d\<lparr>dk_world := w\<rparr>"

definition desk_start :: "'w battery_reader \<Rightarrow> network_state \<Rightarrow> 'w \<Rightarrow> 'w desk" where
  "desk_start R st w =
     (let (b, w1) = StatusBar_new R (ns_connected st) w
      in \<lparr>dk_network = st, dk_last = ns_connected st, dk_queue = [], dk_bar = b, dk_tile = NetworkStatusWidget_new st, dk_world = w1\<rparr>)"

definition desk_run :: "(string \<Rightarrow> int \<Rightarrow> string) \<Rightarrow> 'w battery_reader \<Rightarrow> 'w desk_event list \<Rightarrow> 'w desk \<Rightarrow> 'w desk" where
  "desk_run strftime R es d = fold (desk_step strftime R) es d"

text \<open>The symbol on the bar.\<close>

definition wifi_symbol_shown :: "status_bar \<Rightarrow> bool" where
  "wifi_symbol_shown b \<longleftrightarrow> Symbol SYMBOL_WIFI \<in> set (sb_battery b)"

definition desk_inv :: "'w desk \<Rightarrow> bool" where
  "desk_inv d \<longleftrightarrow>
     fold (\<lambda>e c. case e of UWifi b \<Rightarrow> b | UTick t \<Rightarrow> c) (dk_queue d) (sb_wifi_connected (dk_bar d)) = dk_last d \<and>
     wifi_symbol_shown (dk_bar d) = sb_wifi_connected (dk_bar d)"

lemma BatteryLevelIcon_not_wifi [simp]: "SYMBOL_WIFI \<noteq> BatteryLevelIcon p"
  by (simp add: BatteryLevelIcon_def)

lemma Refresh_symbol: "Symbol SYMBOL_WIFI \<in> set (fst (RefreshStatusLabel R b w)) \<longleftrightarrow> b"
  by (simp add: RefreshStatusLabel_def Let_def case_prod_beta)

lemma bar_simps [simp]:
  "sb_wifi_connected (fst (StatusBar_on_tick f R t b w)) = sb_wifi_connected b"
  "sb_wifi_connected (fst (StatusBar_on_wifi R c b w)) = c"
  "wifi_symbol_shown (fst (StatusBar_on_tick f R t b w)) = sb_wifi_connected b"
  "wifi_symbol_shown (fst (StatusBar_on_wifi R c b w)) = c"
  "sb_wifi_connected (fst (StatusBar_new R c w)) = c" "wifi_symbol_shown (fst (StatusBar_new R c w)) = c"
  by (simp_all add: StatusBar_on_tick_def StatusBar_on_wifi_def StatusBar_new_def case_prod_beta wifi_symbol_shown_def Refresh_symbol)

lemma desk_step_inv: "desk_inv d \<Longrightarrow> desk_inv (desk_step f R e d)"
proof (cases e)
  case DRun
  assume inv: "desk_inv d"
  show ?thesis
  proof (cases "dk_queue d")
    case Nil
    then show ?thesis using inv DRun by (simp add: Queue_TryPop_def)
  next
    case (Cons u us)
    then show ?thesis using inv DRun by (cases u) (simp_all add: Queue_TryPop_def desk_inv_def case_prod_beta Let_def)
  qed
qed (auto simp: desk_inv_def NetworkStatusMonitor_tick_def Let_def)

lemma desk_run_inv: "desk_inv d \<Longrightarrow> desk_inv (desk_run f R es d)"
  unfolding desk_run_def by (induction es arbitrary: d) (auto intro: desk_step_inv)

lemma desk_start_inv: "desk_inv (desk_start R st w)"
  by (simp add: desk_start_def desk_inv_def Let_def case_prod_beta)

text \<open>
  whenever the UI thread has caught up, the status bar's Wi-Fi symbol agrees with what the network monitor saw
  at its last tick, whatever happened in between; and a tick at which the network is up or down is enough for it.
\<close>

lemma wifi_symbol_follows_network:
  assumes "dk_queue (desk_run f R es (desk_start R st w)) = []"
  shows "wifi_symbol_shown (dk_bar (desk_run f R es (desk_start R st w))) = dk_last (desk_run f R es (desk_start R st w)) \<and>
    (\<forall>t. dk_last (desk_step f R (DTick t) (desk_run f R es (desk_start R st w))) =
      ns_connected (dk_network (desk_run f R es (desk_start R st w))))"
  using desk_run_inv [OF desk_start_inv, of f R es R st w] assms
  by (simp add: desk_inv_def NetworkStatusMonitor_tick_def)

definition bench_reader :: "unit battery_reader" where
  "bench_reader = \<lparr>br_percent = Pair 80, br_external = Pair False, br_present = Pair True\<rparr>"

definition no_network :: network_state where "no_network = \<lparr>ns_connected = False, ns_ssid = [], ns_ip_address = []\<rparr>"
definition home_network :: network_state where
  "home_network = \<lparr>ns_connected = True, ns_ssid = ''home'', ns_ip_address = ''10.0.0.2''\<rparr>"

text \<open>
  The network tile is redrawn by the same event, but from the network's state at that later moment, and only by
  it. A loss of the network between a tick and the drain that is over by the next tick leaves the tile saying
  \<open>Disconnected\<close> for as long as the network stays up; and a change of the address or of the name alone is
  never shown.
\<close>

lemma network_tile_stays_wrong:
  defines "d \<equiv> desk_run (\<lambda>_ _. []) bench_reader
    [DNetwork home_network, DTick 1, DNetwork no_network, DRun, DRun, DNetwork home_network] (desk_start bench_reader no_network ())"
  shows "nw_details_hidden (dk_tile (desk_run (\<lambda>_ _. []) bench_reader (concat (replicate n [DTick t, DRun])) d)) \<and>
    ns_connected (dk_network (desk_run (\<lambda>_ _. []) bench_reader (concat (replicate n [DTick t, DRun])) d))"
proof -
  have start: "dk_queue d = [] \<and> dk_last d \<and> dk_network d = home_network \<and> nw_details_hidden (dk_tile d)"
    by (simp add: d_def desk_run_def desk_start_def no_network_def home_network_def NetworkStatusMonitor_tick_def Queue_TryPop_def
        Let_def case_prod_beta NetworkStatusWidget_new_def RefreshNetworkLabels_def)
  have "dk_queue (desk_run f bench_reader (concat (replicate n [DTick t, DRun])) e) = [] \<and>
      dk_last (desk_run f bench_reader (concat (replicate n [DTick t, DRun])) e) \<and>
      dk_network (desk_run f bench_reader (concat (replicate n [DTick t, DRun])) e) = home_network \<and>
      nw_details_hidden (dk_tile (desk_run f bench_reader (concat (replicate n [DTick t, DRun])) e))"
    if "dk_queue e = [] \<and> dk_last e \<and> dk_network e = home_network \<and> nw_details_hidden (dk_tile e)" for f e
    using that
  proof (induction n arbitrary: e)
    case (Suc n)
    define e' where "e' = desk_step f bench_reader DRun (desk_step f bench_reader (DTick t) e)"
    have "dk_queue e' = [] \<and> dk_last e' \<and> dk_network e' = home_network \<and> nw_details_hidden (dk_tile e')"
      using Suc.prems by (simp add: e'_def NetworkStatusMonitor_tick_def home_network_def Queue_TryPop_def Let_def case_prod_beta)
    from Suc.IH [OF this] show ?case by (simp add: desk_run_def e'_def)
  qed (simp add: desk_run_def)
  from this [OF start] show ?thesis by (simp add: home_network_def)
qed

end
