(* ===== verification/Firmware_Boot.thy ===== *)
theory Firmware_Boot
  imports Wifi_Screen Routes Firmware_Stores
begin

text \<open>
  \<^verbatim>\<open>firmware/main/homedeck.cpp\<close> and \<^verbatim>\<open>firmware/main/crash_diagnostics.cpp\<close>: the boot of the device from \<^verbatim>\<open>app_main\<close>
  to the heartbeat loop, and the callbacks it hands to the application core. Every call into ESP-IDF whose result
  the code looks at is recorded with that result; the results are a parameter. A boot ends running, halted for
  want of a display, aborted by \<^verbatim>\<open>ESP_ERROR_CHECK\<close>, or still waiting for Wi-Fi when the events given run out.
  The display, \<^verbatim>\<open>AppCore\<close>'s constructor and its \<^verbatim>\<open>Start\<close>, which other theories model, the lines printed to the
  console and the endless heartbeat are left out.
\<close>

section \<open>State\<close>

datatype esp_err = ESP_OK | ESP_ERR_NVS_NO_FREE_PAGES | ESP_ERR_NVS_NEW_VERSION_FOUND | ESP_FAIL string

datatype idf_call =
    RegisterShutdownHandler
  | DisplayStart
  | NvsInit "string option"
  | NvsErase "string option"
  | NetifInit
  | EventLoopCreate
  | MdnsInit
  | MdnsHostnameSet string
  | MdnsInstanceNameSet string
  | MdnsServiceAdd string string nat
  | SntpInit string
  | MarkAppValid
  | OtaBegin nat nat nat
  | OtaWrite nat string
  | OtaEnd nat
  | SetBootPartition nat
  | TimerCreate string
  | TimerStart string nat
  | TimerDelete string
  | WifiRestore
  | Restart
  | CoreDumpCheck

text \<open>
  What ESP-IDF answers: the update partition with its size, the handle of a begun update, the place of a core
  dump and the flash at that place, the clock chip's driver with the conversion between a time and its calendar
  fields (\<^verbatim>\<open>mktime\<close>, \<^verbatim>\<open>gmtime_r\<close>), the system's clock, the reset reason.
\<close>

datatype reset_reason =
    RST_UNKNOWN | RST_POWERON | RST_EXT | RST_SW | RST_PANIC | RST_INT_WDT | RST_TASK_WDT | RST_WDT | RST_DEEPSLEEP
  | RST_BROWNOUT | RST_SDIO | RST_USB | RST_JTAG | RST_EFUSE | RST_PWR_GLITCH | RST_CPU_LOCKUP

record ('w, 'h) boot_env =
  idf :: "idf_call \<Rightarrow> 'w \<Rightarrow> esp_err \<times> 'w"
  esp_err_to_name :: "esp_err \<Rightarrow> string"
  next_update_partition :: "'w \<Rightarrow> (nat \<times> nat) option"
  ota_handle :: "'w \<Rightarrow> nat"
  app_desc_version :: "string option"
  core_dump_image :: "'w \<Rightarrow> (nat \<times> nat) option"
  flash_read :: "nat \<Rightarrow> nat \<Rightarrow> 'w \<Rightarrow> string option"
  rtc_get_time :: "'w \<Rightarrow> int option \<times> 'w"
  rtc_set_time :: "int \<Rightarrow> 'w \<Rightarrow> bool \<times> 'w"
  system_clock :: "'w \<Rightarrow> int"
  esp_reset_reason :: reset_reason
  log_time :: "'w \<Rightarrow> int"
  httpd_start :: "nat \<Rightarrow> nat \<Rightarrow> 'h option"
  httpd_register :: "'h \<Rightarrow> (http_method \<times> string) list \<Rightarrow> http_method \<times> string \<Rightarrow> bool"
  handler_keys :: "(http_method \<times> string) list"

record ('w, 'h) boot =
  b_world :: 'w
  b_calls :: "(idf_call \<times> esp_err) list"
  b_logger :: logger
  b_panel :: "'w panel"
  b_server :: "'h firmware_server"
  b_sntp_set :: bool

definition idf_do :: "('w, 'h) boot_env \<Rightarrow> idf_call \<Rightarrow> ('w, 'h) boot \<Rightarrow> esp_err \<times> ('w, 'h) boot" where
  "idf_do E c s = (let (err, w) = idf E c (b_world s) in (err, s\<lparr>b_world := w, b_calls := b_calls s @ [(c, err)]\<rparr>))"

definition boot_log :: "('w, 'h) boot_env \<Rightarrow> log_level \<Rightarrow> string \<Rightarrow> string \<Rightarrow> ('w, 'h) boot \<Rightarrow> ('w, 'h) boot" where
  "boot_log E level component message s = s\<lparr>b_logger := Log (log_time E (b_world s)) level component message (b_logger s)\<rparr>"

datatype boot_end = Running | Halted | Aborted | WaitingForWifi

type_synonym ('w, 'h) booting = "boot_end \<times> ('w, 'h) boot"

fun then_boot :: "('w, 'h) booting \<Rightarrow> (('w, 'h) boot \<Rightarrow> ('w, 'h) booting) \<Rightarrow> ('w, 'h) booting" where
  "then_boot (Running, s) f = f s"
| "then_boot (e, s) f = (e, s)"

text \<open>\<^verbatim>\<open>ESP_ERROR_CHECK\<close>.\<close>

definition error_check :: "esp_err \<times> ('w, 'h) boot \<Rightarrow> ('w, 'h) booting" where
  "error_check r = (if fst r = ESP_OK then (Running, snd r) else (Aborted, snd r))"

section \<open>Storage partitions\<close>

definition InitNvsPartition :: "('w, 'h) boot_env \<Rightarrow> string option \<Rightarrow> ('w, 'h) boot \<Rightarrow> ('w, 'h) booting" where
  "InitNvsPartition E part s =
     (let (result, s1) = idf_do E (NvsInit part) s
      in if result = ESP_ERR_NVS_NO_FREE_PAGES \<or> result = ESP_ERR_NVS_NEW_VERSION_FOUND
         then then_boot (error_check (idf_do E (NvsErase part) s1)) (\<lambda>s2. error_check (idf_do E (NvsInit part) s2))
         else error_check (result, s1))"

definition InitNvs :: "('w, 'h) boot_env \<Rightarrow> ('w, 'h) boot \<Rightarrow> ('w, 'h) booting" where
  "InitNvs E s = then_boot (InitNvsPartition E None s) (InitNvsPartition E (Some kSecretPartitionName))"

section \<open>Deferred restarts\<close>

definition RunOnceAfterResponseDelay :: "('w, 'h) boot_env \<Rightarrow> string \<Rightarrow> ('w, 'h) boot \<Rightarrow> bool \<times> ('w, 'h) boot" where
  "RunOnceAfterResponseDelay E name s =
     (let (created, s1) = idf_do E (TimerCreate name) s
      in if created \<noteq> ESP_OK then (False, s1)
         else
           (let (started, s2) = idf_do E (TimerStart name (500 * 1000)) s1
            in if started \<noteq> ESP_OK then (False, snd (idf_do E (TimerDelete name) s2)) else (True, s2)))"

definition ScheduleReboot :: "('w, 'h) boot_env \<Rightarrow> ('w, 'h) boot \<Rightarrow> ('w, 'h) boot" where
  "ScheduleReboot E s = snd (RunOnceAfterResponseDelay E ''ota_reboot'' s)"

definition ScheduleWifiResetAndReboot :: "('w, 'h) boot_env \<Rightarrow> ('w, 'h) boot \<Rightarrow> bool \<times> ('w, 'h) boot" where
  "ScheduleWifiResetAndReboot E s = RunOnceAfterResponseDelay E ''wifi_reset_reboot'' s"

text \<open>What the two timers do when they fire.\<close>

definition ota_reboot_fired :: "('w, 'h) boot_env \<Rightarrow> ('w, 'h) boot \<Rightarrow> ('w, 'h) boot" where
  "ota_reboot_fired E s = snd (idf_do E Restart s)"

definition wifi_reset_fired :: "('w, 'h) boot_env \<Rightarrow> ('w, 'h) boot \<Rightarrow> ('w, 'h) boot" where
  "wifi_reset_fired E s = snd (idf_do E Restart (snd (idf_do E WifiRestore s)))"

definition wifi_reset :: "('w, 'h) boot_env \<Rightarrow> string \<Rightarrow> ('w, 'h) boot \<Rightarrow> string option \<times> ('w, 'h) boot" where
  "wifi_reset E ap_ssid s =
     (let (scheduled, s1) = ScheduleWifiResetAndReboot E s in (if \<not> scheduled then None else Some ap_ssid, s1))"

section \<open>Firmware updates and core dumps\<close>

definition ota_max_image_size :: "('w, 'h) boot_env \<Rightarrow> ('w, 'h) boot \<Rightarrow> nat" where
  "ota_max_image_size E s = (case next_update_partition E (b_world s) of None \<Rightarrow> 0 | Some (p, partition_size) \<Rightarrow> partition_size)"

definition ota_write_image :: "('w, 'h) boot_env \<Rightarrow> string \<Rightarrow> ('w, 'h) boot \<Rightarrow> bool \<times> ('w, 'h) boot" where
  "ota_write_image E img s =
     (case next_update_partition E (b_world s) of
        None \<Rightarrow> (False, s)
      | Some (part, partition_size) \<Rightarrow>
          (let handle = ota_handle E (b_world s);
               (begun, s1) = idf_do E (OtaBegin part (length img) handle) s
           in if begun \<noteq> ESP_OK then (False, s1)
              else
                (let (written, s2) = idf_do E (OtaWrite handle img) s1
                 in if written \<noteq> ESP_OK then (False, snd (idf_do E (OtaEnd handle) s2))
                    else
                      (let (ended, s3) = idf_do E (OtaEnd handle) s2
                       in if ended \<noteq> ESP_OK then (False, s3)
                          else (let (set_boot, s4) = idf_do E (SetBootPartition part) s3 in (set_boot = ESP_OK, s4))))))"

definition ota_running_version :: "('w, 'h) boot_env \<Rightarrow> string" where
  "ota_running_version E = (case app_desc_version E of None \<Rightarrow> ''unknown'' | Some version \<Rightarrow> version)"

definition read_core_dump :: "('w, 'h) boot_env \<Rightarrow> ('w, 'h) boot \<Rightarrow> string option \<times> ('w, 'h) boot" where
  "read_core_dump E s =
     (let (check, s1) = idf_do E CoreDumpCheck s
      in if check \<noteq> ESP_OK then (None, s1)
         else case core_dump_image E (b_world s1) of
                None \<Rightarrow> (None, s1)
              | Some (addr, dump_size) \<Rightarrow> if dump_size = 0 then (None, s1) else (flash_read E addr dump_size (b_world s1), s1))"

section \<open>Name and time\<close>

definition ResolveDeviceName :: "storage \<Rightarrow> string" where
  "ResolveDeviceName s = (case GetSetting s auth_kModuleId ''device_name'' of None \<Rightarrow> ''homedeck'' | Some v \<Rightarrow> vv_value v)"

definition StartMdns :: "('w, 'h) boot_env \<Rightarrow> ('w, 'h) boot \<Rightarrow> ('w, 'h) boot" where
  "StartMdns E s =
     (let (err, s1) = idf_do E MdnsInit s
      in if err \<noteq> ESP_OK then boot_log E kError ''mdns'' (''Init failed: '' @ esp_err_to_name E err) s1 else s1)"

definition RegisterMdns :: "('w, 'h) boot_env \<Rightarrow> string \<Rightarrow> ('w, 'h) boot \<Rightarrow> ('w, 'h) boot" where
  "RegisterMdns E device_name s =
     (let (err, s1) = idf_do E MdnsInit s
      in if err = ESP_OK then
           (let (e1, s2) = idf_do E (MdnsHostnameSet device_name) s1;
                (e2, s3) = idf_do E (MdnsInstanceNameSet ''HomeDeck'') s2;
                (e3, s4) = idf_do E (MdnsServiceAdd ''_http'' ''_tcp'' 80) s3
            in if e1 = ESP_OK \<and> e2 = ESP_OK \<and> e3 = ESP_OK
               then boot_log E kInfo ''mdns'' (''Advertising as '' @ device_name @ ''.local'') s4
               else boot_log E kWarning ''mdns''
                      (''Setup for '' @ device_name @ ''.local partially failed - it may not be reachable there'') s4)
         else boot_log E kError ''mdns'' (''Init failed: '' @ esp_err_to_name E err) s1)"

definition device_name_validate :: "string \<Rightarrow> bool" where
  "device_name_validate name = IsValidHostnameLabel name"

definition device_name_committed :: "('w, 'h) boot_env \<Rightarrow> string \<Rightarrow> ('w, 'h) boot \<Rightarrow> ('w, 'h) boot" where
  "device_name_committed E name s =
     (let (err, s1) = idf_do E (MdnsHostnameSet name) s
      in if err = ESP_OK then boot_log E kInfo ''mdns'' (''Re-announced as '' @ name @ ''.local'') s1
         else boot_log E kWarning ''mdns'' (''Failed to re-announce as '' @ name @ ''.local'') s1)"

text \<open>\<^verbatim>\<open>platform/firmware/time_source.cpp\<close>.\<close>

definition Rx8130_Now :: "('w, 'h) boot_env \<Rightarrow> 'w \<Rightarrow> int \<times> 'w" where
  "Rx8130_Now E w = (let (t, w1) = rtc_get_time E w in (case t of None \<Rightarrow> system_clock E w1 | Some now \<Rightarrow> now, w1))"

definition Rx8130_SetTime :: "('w, 'h) boot_env \<Rightarrow> int \<Rightarrow> 'w \<Rightarrow> bool \<times> 'w" where
  "Rx8130_SetTime E utc_time w = rtc_set_time E utc_time w"

text \<open>\<^const>\<open>b_sntp_set\<close> says that the two pointers \<^verbatim>\<open>OnSntpTimeSync\<close> goes through are set.\<close>

definition OnSntpTimeSync :: "('w, 'h) boot_env \<Rightarrow> int \<Rightarrow> ('w, 'h) boot \<Rightarrow> ('w, 'h) boot" where
  "OnSntpTimeSync E tv_sec s =
     (if b_sntp_set s then boot_log E kInfo ''time_sync'' ''RTC corrected via SNTP'' (s\<lparr>b_world := snd (Rx8130_SetTime E tv_sec (b_world s))\<rparr>)
      else s)"

definition StartTimeSync :: "('w, 'h) boot_env \<Rightarrow> ('w, 'h) boot \<Rightarrow> ('w, 'h) boot" where
  "StartTimeSync E s = snd (idf_do E (SntpInit ''pool.ntp.org'') (s\<lparr>b_sntp_set := True\<rparr>))"
section \<open>Crash diagnostics\<close>

fun ResetReasonToString :: "reset_reason \<Rightarrow> string" where
  "ResetReasonToString RST_POWERON = ''power-on''"
| "ResetReasonToString RST_EXT = ''external-pin''"
| "ResetReasonToString RST_SW = ''software''"
| "ResetReasonToString RST_PANIC = ''panic''"
| "ResetReasonToString RST_INT_WDT = ''interrupt-watchdog''"
| "ResetReasonToString RST_TASK_WDT = ''task-watchdog''"
| "ResetReasonToString RST_WDT = ''other-watchdog''"
| "ResetReasonToString RST_DEEPSLEEP = ''deep-sleep-wake''"
| "ResetReasonToString RST_BROWNOUT = ''brownout''"
| "ResetReasonToString RST_SDIO = ''sdio''"
| "ResetReasonToString RST_USB = ''usb''"
| "ResetReasonToString RST_JTAG = ''jtag''"
| "ResetReasonToString RST_EFUSE = ''efuse-error''"
| "ResetReasonToString RST_PWR_GLITCH = ''power-glitch''"
| "ResetReasonToString RST_CPU_LOCKUP = ''cpu-lockup''"
| "ResetReasonToString RST_UNKNOWN = ''unknown''"

text \<open>A failed write is printed only; so are the registers of the dump's summary, which is left out.\<close>

definition LogCrashDiagnostics :: "('w, 'h) boot_env \<Rightarrow> ('w, 'h) boot \<Rightarrow> ('w, 'h) boot" where
  "LogCrashDiagnostics E s =
     (let logger = b_logger s;
          st1 = snd (SetSetting (log_storage logger) ''core'' ''reset_reason'' 1 (ResetReasonToString (esp_reset_reason E)));
          (check, s1) = idf_do E CoreDumpCheck (s\<lparr>b_logger := logger\<lparr>log_storage := st1\<rparr>\<rparr>);
          has_core_dump = (check = ESP_OK);
          st2 = snd (SetSetting st1 ''core'' ''has_core_dump'' 1 (if has_core_dump then ''true'' else ''false''))
      in s1\<lparr>b_logger := (b_logger s1)\<lparr>log_storage := st2\<rparr>\<rparr>)"

section \<open>Wi-Fi and the end of the boot\<close>

text \<open>The wait for the connected bit, which the events of the panel go on through.\<close>

fun wait_for_wifi :: "'w wifi_env \<Rightarrow> 'w panel_event list \<Rightarrow> 'w panel \<Rightarrow> bool \<times> 'w panel" where
  "wait_for_wifi W [] p = (w_connected_bit (pl_wifi p), p)"
| "wait_for_wifi W (e # es) p = (if w_connected_bit (pl_wifi p) then (True, p) else wait_for_wifi W es (panel_step W e p))"

definition BlockUntilWifiConnected ::
  "('w, 'h) boot_env \<Rightarrow> 'w wifi_env \<Rightarrow> 'w panel_event list \<Rightarrow> ('w, 'h) boot \<Rightarrow> ('w, 'h) booting" where
  "BlockUntilWifiConnected E W es s =
     (let p = b_panel s; before = (pl_wifi p)\<lparr>w_world := b_world s\<rparr>
      in case ConnectToWifi W panel_callbacks before of
           None \<Rightarrow> (Aborted, s)
         | Some wifi \<Rightarrow>
             (let calls = posted (drop (length (w_log before)) (w_log wifi));
                  (up, p1) = wait_for_wifi W es (p\<lparr>pl_wifi := wifi, pl_queue := fold PostToUiThread calls (pl_queue p)\<rparr>);
                  s1 = s\<lparr>b_panel := p1, b_world := w_world (pl_wifi p1)\<rparr>
              in if \<not> up then (WaitingForWifi, s1) else (Running, boot_log E kInfo ''wifi'' ''Connected to Wi-Fi'' s1)))"

definition FinalizeBootAfterWifiConnected :: "('w, 'h) boot_env \<Rightarrow> ('w, 'h) boot \<Rightarrow> ('w, 'h) boot" where
  "FinalizeBootAfterWifiConnected E s =
     (let s1 = StartTimeSync E s;
          device_name = ResolveDeviceName (log_storage (b_logger s1));
          s2 = RegisterMdns E device_name s1;
          (web_server_started, server) = FirmwareStart (httpd_start E) (httpd_register E) 80 (handler_keys E) (b_server s2);
          s3 = s2\<lparr>b_server := server\<rparr>;
          s4 = (if web_server_started then boot_log E kInfo ''web_server'' ''Listening on port 80'' s3
                else boot_log E kError ''web_server'' ''Failed to start'' s3)
      in if web_server_started then
           (let (rollback_result, s5) = idf_do E MarkAppValid s4
            in if rollback_result \<noteq> ESP_OK
               then boot_log E kWarning ''ota'' (''Failed to cancel rollback: '' @ esp_err_to_name E rollback_result) s5 else s5)
         else boot_log E kWarning ''ota'' ''Web UI failed to start - leaving OTA rollback unconfirmed'' s4)"

text \<open>The screen shown first, once the module has said whether credentials are stored.\<close>

definition first_screen :: "bool \<times> string \<times> string \<Rightarrow> 'w wifi \<Rightarrow> (string \<Rightarrow> nat) \<Rightarrow> 'w panel" where
  "first_screen check wifi roots =
     (let (has_stored_credentials, ap_ssid, ap_ip) = check; nav = AppCore_navigation roots
      in if \<not> has_stored_credentials
         then \<lparr>pl_wifi = wifi, pl_queue = [], pl_screen = SetApInfo ap_ssid ap_ip 80 WifiSetupScreen_new,
               pl_nav = snd (Navigation_GoTo kWifiSetup nav)\<rparr>
         else \<lparr>pl_wifi = wifi, pl_queue = [], pl_screen = WifiSetupScreen_new, pl_nav = nav\<rparr>)"

definition check_wifi_and_show :: "('w, 'h) boot_env \<Rightarrow> 'w wifi_env \<Rightarrow> (string \<Rightarrow> nat) \<Rightarrow> ('w, 'h) boot \<Rightarrow> ('w, 'h) booting" where
  "check_wifi_and_show E W roots s =
     (case InitWifiAndCheckStoredCredentials W (b_world s) of
        None \<Rightarrow> (Aborted, s)
      | Some (check, wifi) \<Rightarrow>
          (Running, boot_log E kInfo ''boot'' (if fst check then ''Dashboard loaded'' else ''Wi-Fi setup screen loaded'')
             (s\<lparr>b_panel := first_screen check wifi roots\<rparr>)))"

definition app_main ::
  "('w, 'h) boot_env \<Rightarrow> 'w wifi_env \<Rightarrow> (string \<Rightarrow> nat) \<Rightarrow> 'w panel_event list \<Rightarrow> ('w, 'h) boot \<Rightarrow> ('w, 'h) booting" where
  "app_main E W roots es s =
     (let s1 = snd (idf_do E RegisterShutdownHandler s);
          (display, s2) = idf_do E DisplayStart s1
      in if display \<noteq> ESP_OK then (Halted, s2)
         else
           then_boot (InitNvs E s2) (\<lambda>s3.
           then_boot (error_check (idf_do E NetifInit s3)) (\<lambda>s4.
           then_boot (error_check (idf_do E EventLoopCreate s4)) (\<lambda>s5.
           then_boot (check_wifi_and_show E W roots s5) (\<lambda>s6.
           then_boot (BlockUntilWifiConnected E W es (LogCrashDiagnostics E (StartMdns E s6))) (\<lambda>s7.
             (Running, FinalizeBootAfterWifiConnected E s7)))))))"

definition boot_start :: "'w \<Rightarrow> logger \<Rightarrow> ('w, 'h) boot" where
  "boot_start w logger =
     \<lparr>b_world = w, b_calls = [], b_logger = logger,
      b_panel = \<lparr>pl_wifi = WifiSetupState_new w, pl_queue = [], pl_screen = WifiSetupScreen_new, pl_nav = AppCore_navigation (\<lambda>_. 0)\<rparr>,
      b_server = \<lparr>server_handle = None, registered = []\<rparr>, b_sntp_set = False\<rparr>"
section \<open>What a boot can have confirmed\<close>

text \<open>The running image is confirmed by one call only, so each part of the boot is judged by whether it makes it.\<close>

definition unconfirmed :: "('w, 'h) boot \<Rightarrow> bool" where
  "unconfirmed s \<longleftrightarrow> MarkAppValid \<notin> fst ` set (b_calls s)"

lemma idf_do_frame [simp]:
  "b_logger (snd (idf_do E c s)) = b_logger s" "b_panel (snd (idf_do E c s)) = b_panel s" "b_server (snd (idf_do E c s)) = b_server s"
  "b_calls (snd (idf_do E c s)) = b_calls s @ [(c, fst (idf_do E c s))]"
  by (simp_all add: idf_do_def case_prod_beta)

lemma boot_log_frame [simp]:
  "b_world (boot_log E l c m s) = b_world s" "b_calls (boot_log E l c m s) = b_calls s"
  "b_panel (boot_log E l c m s) = b_panel s" "b_server (boot_log E l c m s) = b_server s"
  "log_storage (b_logger (boot_log E l c m s)) = log_storage (b_logger s)"
  by (simp_all add: boot_log_def Log_def)

lemma unconfirmed_simps [simp]:
  "unconfirmed (snd (idf_do E c s)) \<longleftrightarrow> unconfirmed s \<and> c \<noteq> MarkAppValid"
  "unconfirmed (boot_log E l c' m s) \<longleftrightarrow> unconfirmed s"
  "unconfirmed (s\<lparr>b_logger := g\<rparr>) \<longleftrightarrow> unconfirmed s" "unconfirmed (s\<lparr>b_panel := p\<rparr>) \<longleftrightarrow> unconfirmed s"
  "unconfirmed (s\<lparr>b_server := f\<rparr>) \<longleftrightarrow> unconfirmed s" "unconfirmed (s\<lparr>b_world := w\<rparr>) \<longleftrightarrow> unconfirmed s"
  "unconfirmed (s\<lparr>b_sntp_set := b\<rparr>) \<longleftrightarrow> unconfirmed s"
  by (auto simp: unconfirmed_def)

text \<open>A part of the boot that neither confirms the image nor starts the web server.\<close>

definition keeps :: "('w, 'h) boot \<Rightarrow> ('w, 'h) booting \<Rightarrow> bool" where
  "keeps s r \<longleftrightarrow> (unconfirmed s \<longrightarrow> unconfirmed (snd r)) \<and> b_server (snd r) = b_server s"

lemma keeps_then [intro]:
  "keeps s r \<Longrightarrow> (\<And>t. r = (Running, t) \<Longrightarrow> keeps t (f t)) \<Longrightarrow> keeps s (then_boot r f)"
  by (cases "(r, f)" rule: then_boot.cases) (auto simp: keeps_def)

lemma keeps_check [simp]: "c \<noteq> MarkAppValid \<Longrightarrow> keeps s (error_check (idf_do E c s))"
  by (simp add: keeps_def error_check_def)

lemma keeps_first: "keeps s (Running, t) \<Longrightarrow> keeps t r \<Longrightarrow> keeps s r"
  by (simp add: keeps_def)

lemma keeps_InitNvsPartition: "keeps s (InitNvsPartition E part s)"
proof -
  define t where "t = snd (idf_do E (NvsInit part) s)"
  have start: "keeps s (Running, t)" by (simp add: keeps_def t_def)
  have "keeps t (then_boot (error_check (idf_do E (NvsErase part) t)) (\<lambda>s2. error_check (idf_do E (NvsInit part) s2)))"
    by (intro keeps_then) simp_all
  with start have "keeps s (then_boot (error_check (idf_do E (NvsErase part) t)) (\<lambda>s2. error_check (idf_do E (NvsInit part) s2)))"
    by (rule keeps_first)
  moreover have "keeps s (error_check (idf_do E (NvsInit part) s))" by simp
  ultimately show ?thesis
    unfolding InitNvsPartition_def case_prod_beta Let_def prod.collapse t_def by simp
qed

lemma keeps_InitNvs: "keeps s (InitNvs E s)"
  unfolding InitNvs_def by (intro keeps_then keeps_InitNvsPartition)

lemma keeps_check_wifi: "keeps s (check_wifi_and_show E W roots s)"
  by (simp add: check_wifi_and_show_def keeps_def split: option.split)

lemma keeps_StartMdns: "keeps s (Running, StartMdns E s)"
  by (simp add: keeps_def StartMdns_def case_prod_beta)

lemma keeps_crash: "keeps s (Running, LogCrashDiagnostics E s)"
  by (simp add: keeps_def LogCrashDiagnostics_def case_prod_beta Let_def)

lemma keeps_block: "keeps s (BlockUntilWifiConnected E W es s)"
  by (simp add: keeps_def BlockUntilWifiConnected_def case_prod_beta Let_def split: option.split)

text \<open>A boot up to Wi-Fi.\<close>

definition boot_to_wifi ::
  "('w, 'h) boot_env \<Rightarrow> 'w wifi_env \<Rightarrow> (string \<Rightarrow> nat) \<Rightarrow> 'w panel_event list \<Rightarrow> ('w, 'h) boot \<Rightarrow> ('w, 'h) booting" where
  "boot_to_wifi E W roots es s =
     then_boot (InitNvs E s) (\<lambda>s3.
     then_boot (error_check (idf_do E NetifInit s3)) (\<lambda>s4.
     then_boot (error_check (idf_do E EventLoopCreate s4)) (\<lambda>s5.
     then_boot (check_wifi_and_show E W roots s5) (\<lambda>s6.
     BlockUntilWifiConnected E W es (LogCrashDiagnostics E (StartMdns E s6))))))"

lemma then_boot_assoc: "then_boot (then_boot r f) g = then_boot r (\<lambda>s. then_boot (f s) g)"
  by (cases "(r, f)" rule: then_boot.cases) auto

lemma app_main_phases:
  "app_main E W roots es s =
     (let s1 = snd (idf_do E RegisterShutdownHandler s); (display, s2) = idf_do E DisplayStart s1
      in if display \<noteq> ESP_OK then (Halted, s2)
         else then_boot (boot_to_wifi E W roots es s2) (\<lambda>s7. (Running, FinalizeBootAfterWifiConnected E s7)))"
  unfolding app_main_def boot_to_wifi_def then_boot_assoc ..

lemma keeps_boot_to_wifi: "keeps s (boot_to_wifi E W roots es s)"
proof -
  have "keeps t (BlockUntilWifiConnected E W es (LogCrashDiagnostics E (StartMdns E t)))" for t
    using keeps_block [of "LogCrashDiagnostics E (StartMdns E t)" E W es] keeps_crash [of "StartMdns E t" E] keeps_StartMdns [of t E]
    by (simp add: keeps_def)
  then show ?thesis unfolding boot_to_wifi_def
    by (intro keeps_then keeps_InitNvs keeps_check_wifi) simp_all
qed

lemma RegisterMdns_frame [simp]:
  "unconfirmed (RegisterMdns E name s) \<longleftrightarrow> unconfirmed s" "b_server (RegisterMdns E name s) = b_server s"
  "b_panel (RegisterMdns E name s) = b_panel s"
  by (simp_all add: RegisterMdns_def case_prod_beta Let_def)

lemma StartTimeSync_frame [simp]:
  "unconfirmed (StartTimeSync E s) \<longleftrightarrow> unconfirmed s" "b_server (StartTimeSync E s) = b_server s"
  "b_panel (StartTimeSync E s) = b_panel s"
  by (simp_all add: StartTimeSync_def)

lemma Finalize_confirms:
  assumes "unconfirmed s" "server_handle (b_server s) = None"
  shows "unconfirmed (FinalizeBootAfterWifiConnected E s) \<longleftrightarrow> server_handle (b_server (FinalizeBootAfterWifiConnected E s)) = None"
    and "b_panel (FinalizeBootAfterWifiConnected E s) = b_panel s"
  using assms by (simp_all add: FinalizeBootAfterWifiConnected_def FirmwareStart_def Let_def case_prod_beta split: option.split)

text \<open>The results of the calls that ask the bootloader to confirm the running image.\<close>

definition confirm_results :: "('w, 'h) boot \<Rightarrow> esp_err list" where
  "confirm_results s = map snd (filter (\<lambda>(c, result). c = MarkAppValid) (b_calls s))"

lemma unconfirmed_results: "unconfirmed s \<longleftrightarrow> confirm_results s = []"
  by (auto simp: unconfirmed_def confirm_results_def filter_empty_conv image_iff)

lemma confirm_results_simps [simp]:
  "confirm_results (snd (idf_do E MarkAppValid s)) = confirm_results s @ [fst (idf_do E MarkAppValid s)]"
  "confirm_results (boot_log E l c m s) = confirm_results s"
  by (simp_all add: confirm_results_def idf_do_def boot_log_def Let_def case_prod_beta)

definition confirm_failure_logged :: "('w, 'h) boot_env \<Rightarrow> esp_err \<Rightarrow> ('w, 'h) boot \<Rightarrow> bool" where
  "confirm_failure_logged E result s \<longleftrightarrow>
     (\<exists>now. it_record (last (log_pending (b_logger s))) =
        Some \<lparr>timestamp = now, rec_level = kWarning, rec_component = ''ota'',
          rec_message = ''Failed to cancel rollback: '' @ esp_err_to_name E result\<rparr>)"

lemma Finalize_result:
  assumes "unconfirmed s" "server_handle (b_server s) = None" "server_handle (b_server (FinalizeBootAfterWifiConnected E s)) \<noteq> None"
  shows "\<exists>result. confirm_results (FinalizeBootAfterWifiConnected E s) = [result] \<and>
    (result \<noteq> ESP_OK \<longrightarrow> confirm_failure_logged E result (FinalizeBootAfterWifiConnected E s))"
proof -
  define s2 where "s2 = RegisterMdns E (ResolveDeviceName (log_storage (b_logger (StartTimeSync E s)))) (StartTimeSync E s)"
  define start where "start = FirmwareStart (httpd_start E) (httpd_register E) 80 (handler_keys E) (b_server s2)"
  define s4 where "s4 = boot_log E kInfo ''web_server'' ''Listening on port 80'' (s2\<lparr>b_server := snd start\<rparr>)"
  have fin: "FinalizeBootAfterWifiConnected E s =
      (if fst start then
         (let (result, s5) = idf_do E MarkAppValid s4
          in if result \<noteq> ESP_OK then boot_log E kWarning ''ota'' (''Failed to cancel rollback: '' @ esp_err_to_name E result) s5 else s5)
       else boot_log E kWarning ''ota'' ''Web UI failed to start - leaving OTA rollback unconfirmed''
         (boot_log E kError ''web_server'' ''Failed to start'' (s2\<lparr>b_server := snd start\<rparr>)))"
    by (simp add: FinalizeBootAfterWifiConnected_def s2_def start_def s4_def Let_def case_prod_beta)
  have s2: "unconfirmed s2" "server_handle (b_server s2) = None" using assms(1,2) by (simp_all add: s2_def)
  then have "unconfirmed s4" by (simp add: s4_def)
  have "fst start"
  proof (rule ccontr)
    assume "\<not> fst start"
    moreover from this have "server_handle (snd start) = None"
      using s2(2) by (auto simp: start_def FirmwareStart_def Let_def split: option.splits if_splits prod.splits)
    ultimately show False using assms(3) unfolding fin by (simp add: boot_log_def)
  qed
  then show ?thesis
    using \<open>unconfirmed s4\<close> unfolding fin unconfirmed_results
    by (auto simp: Let_def case_prod_beta confirm_failure_logged_def boot_log_def Log_def Queue_Push_def confirm_results_def idf_do_def)
qed

section \<open>When a boot is over\<close>

lemma then_boot_Running: "then_boot r f = (Running, t) \<Longrightarrow> \<exists>s. r = (Running, s) \<and> f s = (Running, t)"
  by (cases "(r, f)" rule: then_boot.cases) auto

lemma wait_for_wifi_up: "fst (wait_for_wifi W es p) \<longleftrightarrow> w_connected_bit (pl_wifi (snd (wait_for_wifi W es p)))"
  by (induction W es p rule: wait_for_wifi.induct) auto

lemma wait_for_wifi_run: "panel_run W p q \<Longrightarrow> panel_run W p (snd (wait_for_wifi W es q))"
  by (induction W es q rule: wait_for_wifi.induct) (auto intro: panel_more)

lemma block_connected:
  "BlockUntilWifiConnected E W es s = (Running, t) \<Longrightarrow> w_connected_bit (pl_wifi (b_panel t))"
  by (auto simp: BlockUntilWifiConnected_def Let_def case_prod_beta wait_for_wifi_up split: option.splits if_splits)

lemma boot_to_wifi_connected:
  "boot_to_wifi E W roots es s = (Running, t) \<Longrightarrow> w_connected_bit (pl_wifi (b_panel t))"
  unfolding boot_to_wifi_def by (blast dest!: then_boot_Running dest: block_connected)

lemma boot_to_wifi_end: "fst (then_boot (boot_to_wifi E W roots es s) (\<lambda>t. (Running, g t))) = fst (boot_to_wifi E W roots es s)"
  by (cases "(boot_to_wifi E W roots es s, \<lambda>t. (Running, g t))" rule: then_boot.cases) auto

lemma app_main_confirms:
  assumes "app_main E W roots es (boot_start w logger) = (e, t)"
  shows "if e = Running \<and> server_handle (b_server t) \<noteq> None
    then \<exists>result. confirm_results t = [result] \<and> (result \<noteq> ESP_OK \<longrightarrow> confirm_failure_logged E result t)
    else confirm_results t = []"
    and "e = Running \<Longrightarrow> w_connected_bit (pl_wifi (b_panel t))"
proof -
  define s where "s = snd (idf_do E DisplayStart (snd (idf_do E RegisterShutdownHandler (boot_start w logger))))"
  have start: "unconfirmed s" "server_handle (b_server s) = None"
    by (simp_all add: s_def) (simp_all add: unconfirmed_def boot_start_def)
  obtain f u where b: "boot_to_wifi E W roots es s = (f, u)" by (cases "boot_to_wifi E W roots es s") auto
  have u: "unconfirmed u" "server_handle (b_server u) = None"
    using keeps_boot_to_wifi [of s E W roots es] b start by (simp_all add: keeps_def)
  have "(e, t) = (if fst (idf_do E DisplayStart (snd (idf_do E RegisterShutdownHandler (boot_start w logger)))) \<noteq> ESP_OK then (Halted, s)
      else then_boot (f, u) (\<lambda>s7. (Running, FinalizeBootAfterWifiConnected E s7)))"
    unfolding assms [symmetric] app_main_phases Let_def case_prod_beta s_def [symmetric] b ..
  moreover have "then_boot (f, u) (\<lambda>s7. (Running, FinalizeBootAfterWifiConnected E s7)) =
      (if f = Running then (Running, FinalizeBootAfterWifiConnected E u) else (f, u))" by (cases f) simp_all
  ultimately consider (halted) "(e, t) = (Halted, s)"
    | (running) "f = Running" "(e, t) = (Running, FinalizeBootAfterWifiConnected E u)" | (ended) "f \<noteq> Running" "(e, t) = (f, u)"
    by (metis (full_types))
  note ends = this
  show "if e = Running \<and> server_handle (b_server t) \<noteq> None
    then \<exists>result. confirm_results t = [result] \<and> (result \<noteq> ESP_OK \<longrightarrow> confirm_failure_logged E result t)
    else confirm_results t = []"
    using ends
  proof cases
    case running
    then show ?thesis
      using Finalize_result [OF u, of E] Finalize_confirms(1) [OF u, of E] by (auto simp: unconfirmed_results)
  qed (use start u in \<open>simp_all add: unconfirmed_results\<close>)
  show "w_connected_bit (pl_wifi (b_panel t))" if "e = Running"
    using ends
  proof cases
    case running
    then show ?thesis using boot_to_wifi_connected [OF b [unfolded running(1)]] Finalize_confirms(2) [OF u, of E] by simp
  qed (use that in simp_all)
qed

text \<open>
  C16: A boot asks the bootloader to confirm the running image only when the device can be reached. If the boot has run to
  its end with the web interface listening, the call that confirms the image and cancels the rollback has
  been made exactly once, and when it failed the failure is logged and the image stays unconfirmed; in every
  other case it has not been made at all. And a boot has run to its end only once the device is on its
  Wi-Fi network. So whatever fails, an image that leaves the device unreachable is never confirmed.
\<close>

theorem update_confirmed_only_when_reachable:
  "case app_main E W roots es (boot_start w logger) of (e, t) \<Rightarrow>
     (if e = Running \<and> server_handle (b_server t) \<noteq> None
      then \<exists>result. confirm_results t = [result] \<and> (result \<noteq> ESP_OK \<longrightarrow> confirm_failure_logged E result t)
      else confirm_results t = []) \<and>
     (e = Running \<longrightarrow> w_connected_bit (pl_wifi (b_panel t)))"
proof -
  obtain e t where r: "app_main E W roots es (boot_start w logger) = (e, t)"
    by (cases "app_main E W roots es (boot_start w logger)") auto
  show ?thesis unfolding r prod.case using app_main_confirms [OF r] by blast
qed

section \<open>The booted panel\<close>

lemma post_all [simp]: "fold PostToUiThread calls queue = queue @ calls"
  by (induction calls arbitrary: queue) (simp_all add: PostToUiThread_def Queue_Push_def)

lemma block_panel:
  assumes "BlockUntilWifiConnected E W es s = (e, t)" "e = Running \<or> e = WaitingForWifi"
    and "InitWifiAndCheckStoredCredentials W w = Some (check, wifi)" "b_panel s = first_screen check wifi roots"
  shows "\<exists>p. panel_booted W p \<and> panel_run W p (b_panel t)"
proof -
  have new: "w_log wifi = []" using assms(3) by (auto simp: InitWifiAndCheckStoredCredentials_def WifiSetupState_new_def Let_def split: option.splits)
  have screen: "pl_wifi (first_screen check wifi roots) = wifi" "pl_queue (first_screen check wifi roots) = []"
    "\<exists>ssid ip port. pl_screen (first_screen check wifi roots) = WifiSetupScreen_new \<or>
       pl_screen (first_screen check wifi roots) = SetApInfo ssid ip port WifiSetupScreen_new"
    by (auto simp: first_screen_def case_prod_beta Let_def)
  obtain started where c: "ConnectToWifi W panel_callbacks (wifi\<lparr>w_world := b_world s\<rparr>) = Some started"
    using assms(1,2) by (cases "ConnectToWifi W panel_callbacks (wifi\<lparr>w_world := b_world s\<rparr>)")
      (auto simp: BlockUntilWifiConnected_def assms(4) screen Let_def)
  define p where "p = (first_screen check wifi roots)\<lparr>pl_wifi := started, pl_queue := posted (w_log started)\<rparr>"
  have "b_panel t = snd (wait_for_wifi W es p)"
    using assms(1) by (auto simp: BlockUntilWifiConnected_def assms(4) screen c Let_def case_prod_beta new p_def split: if_splits)
  moreover have "wifi_booted W panel_callbacks started" unfolding wifi_booted_def using assms(3) c by blast
  then have "panel_booted W p" using screen(3) by (simp add: panel_booted_def p_def)
  ultimately show ?thesis using wait_for_wifi_run [OF panel_refl] by metis
qed

text \<open>A boot that reached the wait for Wi-Fi leaves a panel of the kind the theory of the Wi-Fi screen is about.\<close>

lemma crash_panel [simp]: "b_panel (LogCrashDiagnostics E (StartMdns E s)) = b_panel s"
  by (simp add: LogCrashDiagnostics_def StartMdns_def Let_def case_prod_beta)

lemma then_boot_end:
  assumes "then_boot r f = (e, t)" "e = Running \<or> e = WaitingForWifi" "fst r \<noteq> WaitingForWifi"
  obtains s where "r = (Running, s)" "f s = (e, t)"
  using assms by (cases "(r, f)" rule: then_boot.cases) auto

lemma error_check_end [simp]: "fst (error_check r) \<noteq> WaitingForWifi"
  by (simp add: error_check_def)

lemma InitNvs_end [simp]: "fst (InitNvs E s) \<noteq> WaitingForWifi"
proof -
  have part: "fst (InitNvsPartition E part t) \<noteq> WaitingForWifi" for part t
    by (simp add: InitNvsPartition_def error_check_def case_prod_beta Let_def)
  show ?thesis using part unfolding InitNvs_def
    by (cases "(InitNvsPartition E None s, InitNvsPartition E (Some kSecretPartitionName))" rule: then_boot.cases)
      (auto simp del: then_boot.simps(1) simp: then_boot.simps dest: arg_cong [of _ _ fst])
qed

lemma booted_panel:
  assumes "boot_to_wifi E W roots es s = (e, t)" "e = Running \<or> e = WaitingForWifi"
  shows "\<exists>p. panel_booted W p \<and> panel_run W p (b_panel t)"
proof -
  obtain s6 s5 where s6: "check_wifi_and_show E W roots s5 = (Running, s6)"
    and block: "BlockUntilWifiConnected E W es (LogCrashDiagnostics E (StartMdns E s6)) = (e, t)"
    using assms unfolding boot_to_wifi_def
    by (elim then_boot_end) (auto simp: check_wifi_and_show_def split: option.splits elim!: then_boot_end)
  obtain check wifi where "InitWifiAndCheckStoredCredentials W (b_world s5) = Some (check, wifi)"
    and "b_panel s6 = first_screen check wifi roots"
    using s6 by (auto simp: check_wifi_and_show_def split: option.splits)
  then show ?thesis using block_panel [OF block assms(2)] by (metis crash_panel)
qed
section \<open>Single operations\<close>

text \<open>
  C17: writing an update succeeds exactly when the whole image was written to the next update partition and ended,
  which is where ESP-IDF validates it, and that very partition was then made the boot partition. An image that was
  not begun, not written or not validated never becomes bootable, and a begun update is always ended.
\<close>

theorem only_a_validated_image_boots:
  "case ota_write_image E img s of (ok, t) \<Rightarrow>
     (\<exists>new. b_calls t = b_calls s @ new \<and>
        (\<forall>p r. (SetBootPartition p, r) \<in> set new \<longrightarrow>
           map_option fst (next_update_partition E (b_world s)) = Some p \<and> ok = (r = ESP_OK) \<and>
           (\<exists>h. new = [(OtaBegin p (length img) h, ESP_OK), (OtaWrite h img, ESP_OK), (OtaEnd h, ESP_OK), (SetBootPartition p, r)])) \<and>
        (ok \<longrightarrow> (\<exists>p. (SetBootPartition p, ESP_OK) \<in> set new)) \<and>
        (\<forall>p n h. (OtaBegin p n h, ESP_OK) \<in> set new \<longrightarrow> OtaEnd h \<in> fst ` set new))"
proof (cases "next_update_partition E (b_world s)")
  case None
  then show ?thesis by (simp add: ota_write_image_def)
next
  case (Some pn)
  obtain p n where pn: "next_update_partition E (b_world s) = Some (p, n)" using Some by (cases pn) simp
  define h where "h = ota_handle E (b_world s)"
  obtain e1 s1 where b: "idf_do E (OtaBegin p (length img) h) s = (e1, s1)" by fastforce
  obtain e2 s2 where w: "idf_do E (OtaWrite h img) s1 = (e2, s2)" by fastforce
  obtain e3 s3 where d: "idf_do E (OtaEnd h) s2 = (e3, s3)" by fastforce
  obtain e4 s4 where m: "idf_do E (SetBootPartition p) s3 = (e4, s4)" by fastforce
  have calls: "b_calls s1 = b_calls s @ [(OtaBegin p (length img) h, e1)]" "b_calls s2 = b_calls s1 @ [(OtaWrite h img, e2)]"
    "b_calls s3 = b_calls s2 @ [(OtaEnd h, e3)]" "b_calls s4 = b_calls s3 @ [(SetBootPartition p, e4)]"
    using idf_do_frame(4) [of E "OtaBegin p (length img) h" s] idf_do_frame(4) [of E "OtaWrite h img" s1]
      idf_do_frame(4) [of E "OtaEnd h" s2] idf_do_frame(4) [of E "SetBootPartition p" s3] by (simp_all add: b w d m)
  have "ota_write_image E img s =
    (if e1 \<noteq> ESP_OK then (False, s1) else if e2 \<noteq> ESP_OK then (False, s3) else if e3 \<noteq> ESP_OK then (False, s3) else (e4 = ESP_OK, s4))"
    by (simp add: ota_write_image_def pn h_def [symmetric] b w d m Let_def)
  then show ?thesis using calls pn by (cases "e1 = ESP_OK"; cases "e2 = ESP_OK"; cases "e3 = ESP_OK"; cases "e4 = ESP_OK") auto
qed

text \<open>A partition is erased only when it could not be opened for one of the two reasons an erase cures.\<close>

lemma nvs_erased_only_when_unusable:
  assumes "(NvsErase q, r) \<in> set (drop (length (b_calls s)) (b_calls (snd (InitNvsPartition E part s))))"
  shows "q = part \<and> fst (idf_do E (NvsInit part) s) \<in> {ESP_ERR_NVS_NO_FREE_PAGES, ESP_ERR_NVS_NEW_VERSION_FOUND}"
proof -
  obtain e1 s1 where i: "idf_do E (NvsInit part) s = (e1, s1)" by fastforce
  obtain e2 s2 where d: "idf_do E (NvsErase part) s1 = (e2, s2)" by fastforce
  obtain e3 s3 where j: "idf_do E (NvsInit part) s2 = (e3, s3)" by fastforce
  have "b_calls s1 = b_calls s @ [(NvsInit part, e1)]" "b_calls s2 = b_calls s1 @ [(NvsErase part, e2)]" "b_calls s3 = b_calls s2 @ [(NvsInit part, e3)]"
    using idf_do_frame(4) [of E "NvsInit part" s] idf_do_frame(4) [of E "NvsErase part" s1] idf_do_frame(4) [of E "NvsInit part" s2]
    by (simp_all add: i d j)
  then show ?thesis using assms
    by (auto simp: InitNvsPartition_def i d j error_check_def Let_def split: if_splits)
qed

text \<open>A refused reset has not been scheduled, and leaves no timer behind.\<close>

lemma RunOnce_result:
  assumes "RunOnceAfterResponseDelay E name s = (ok, t)"
  obtains "ok" "b_calls t = b_calls s @ [(TimerCreate name, ESP_OK), (TimerStart name 500000, ESP_OK)]"
  | r where "\<not> ok" "r \<noteq> ESP_OK" "b_calls t = b_calls s @ [(TimerCreate name, r)]"
  | r r' where "\<not> ok" "r \<noteq> ESP_OK" "b_calls t = b_calls s @ [(TimerCreate name, ESP_OK), (TimerStart name 500000, r), (TimerDelete name, r')]"
proof -
  obtain e1 s1 where c: "idf_do E (TimerCreate name) s = (e1, s1)" by fastforce
  obtain e2 s2 where d: "idf_do E (TimerStart name 500000) s1 = (e2, s2)" by fastforce
  obtain e3 s3 where x: "idf_do E (TimerDelete name) s2 = (e3, s3)" by fastforce
  have "b_calls s1 = b_calls s @ [(TimerCreate name, e1)]" "b_calls s2 = b_calls s1 @ [(TimerStart name 500000, e2)]" "b_calls s3 = b_calls s2 @ [(TimerDelete name, e3)]"
    using idf_do_frame(4) [of E "TimerCreate name" s] idf_do_frame(4) [of E "TimerStart name 500000" s1] idf_do_frame(4) [of E "TimerDelete name" s2]
    by (simp_all add: c d x)
  then show thesis using assms that by (auto simp: RunOnceAfterResponseDelay_def c d x Let_def split: if_splits)
qed

text \<open>The clock chip is reported corrected whether or not the write to it succeeded.\<close>

lemma sync_logged_in_any_case:
  assumes "b_sntp_set s"
  shows "log_pending (b_logger (OnSntpTimeSync E tv s)) =
    Queue_Push \<lparr>it_record = Some \<lparr>timestamp = log_time E (snd (Rx8130_SetTime E tv (b_world s))), rec_level = kInfo,
      rec_component = ''time_sync'', rec_message = ''RTC corrected via SNTP''\<rparr>, it_flush_signal = None\<rparr> (log_pending (b_logger s))"
  using assms by (simp add: OnSntpTimeSync_def boot_log_def Log_def)

lemma core_setting_written:
  assumes "\<And>ns k. write_io (settings_store st) ns k = IoOk" "k \<in> {''reset_reason'', ''has_core_dump''}"
  shows "fst (SetSetting st ''core'' k 1 v)" "write_io (settings_store (snd (SetSetting st ''core'' k 1 v))) = write_io (settings_store st)"
  using assms(2)
  by (auto simp: SetSetting_def HostSettingsStore_Set_def WriteFile_def assms(1) IsReservedSettingsKey_def auth_kModuleId_def
      kPasswordKey_def IsValidStoreSegment_def kMaxStoreSegmentLength_def)

lemma fst_True: "fst p \<Longrightarrow> \<exists>s. p = (True, s)"
  by (cases p) simp

text \<open>
  what a boot finds out about the restart before it is what the diagnostics page then reports: the reason of
  the reset by its name and whether a core dump was found, on a settings store that can be written.
\<close>

lemma crash_report_reaches_diagnostics:
  assumes "\<And>ns k. write_io (settings_store (log_storage (b_logger s))) ns k = IoOk"
    and "auth_storage a = log_storage (b_logger (LogCrashDiagnostics E s))"
  shows "\<exists>rest. resp_body (fst (diagnostics_handler A request a)) = json_dump (ae_json A)
    (jobj ((''resetReason'', JStr (ResetReasonToString (esp_reset_reason E))) #
           (''hasCoreDump'', JBool (fst (idf E CoreDumpCheck (b_world s)) = ESP_OK)) # rest))"
proof -
  define v where "v = (if fst (idf E CoreDumpCheck (b_world s)) = ESP_OK then ''true'' else ''false'')"
  obtain st1 where 1: "SetSetting (log_storage (b_logger s)) ''core'' ''reset_reason'' 1 (ResetReasonToString (esp_reset_reason E)) = (True, st1)"
    using fst_True [OF core_setting_written(1)] assms(1) by blast
  obtain st2 where 2: "SetSetting st1 ''core'' ''has_core_dump'' 1 v = (True, st2)"
    using fst_True [OF core_setting_written(1)] core_setting_written(2) [where st = "log_storage (b_logger s)"] assms(1)
    by (metis 1 insertCI snd_conv)
  have a: "auth_storage a = st2"
    using assms(2) by (simp add: LogCrashDiagnostics_def Let_def case_prod_beta 1 idf_do_def 2 [unfolded v_def])
  have dump: "GetSetting st2 ''core'' ''has_core_dump'' = Some \<lparr>schema_version = 1, vv_value = v\<rparr>"
    by (rule GetSetting_SetSetting [OF _ 2]) (simp add: int32_range_def)
  have "GetSetting st2 ''core'' ''reset_reason'' = GetSetting st1 ''core'' ''reset_reason''"
    using GetSetting_SetSetting_other [of "''core''" "''reset_reason''" "''core''" "''has_core_dump''" st1 1 v] by (simp add: 2)
  also have "\<dots> = Some \<lparr>schema_version = 1, vv_value = ResetReasonToString (esp_reset_reason E)\<rparr>"
    by (rule GetSetting_SetSetting [OF _ 1]) (simp add: int32_range_def)
  finally have reason: "GetSetting st2 ''core'' ''reset_reason'' =
      Some \<lparr>schema_version = 1, vv_value = ResetReasonToString (esp_reset_reason E)\<rparr>" .
  have v: "(v = ''true'') = (fst (idf E CoreDumpCheck (b_world s)) = ESP_OK)" by (simp add: v_def)
  show ?thesis
    unfolding diagnostics_handler_def Let_def diagnostics_kModuleId_def a reason dump json_response_def
    by (simp only: fst_conv http_response.simps option.case versioned_value.simps v) (rule exI, rule refl)
qed
section \<open>A boot on the bench\<close>

definition bench_boot_env :: "(string, nat) boot_env" where
  "bench_boot_env =
     \<lparr>idf = (\<lambda>_. Pair ESP_OK), esp_err_to_name = (\<lambda>_. ''ESP_FAIL''), next_update_partition = (\<lambda>_. Some (16, 100)),
      ota_handle = (\<lambda>_. 1), app_desc_version = Some ''1.0'', core_dump_image = (\<lambda>_. None), flash_read = (\<lambda>_ _ _. None),
      rtc_get_time = Pair None, rtc_set_time = (\<lambda>_. Pair True), system_clock = (\<lambda>_. 0), esp_reset_reason = RST_PANIC,
      log_time = (\<lambda>_. 0), httpd_start = (\<lambda>port n. Some 7), httpd_register = (\<lambda>_ _ _. True), handler_keys = []\<rparr>"

lemma bench_idf_do [simp]: "idf_do bench_boot_env c s = (ESP_OK, s\<lparr>b_calls := b_calls s @ [(c, ESP_OK)]\<rparr>)"
  by (simp add: idf_do_def bench_boot_env_def)

lemma bench_frames [simp]:
  "b_world (LogCrashDiagnostics bench_boot_env (StartMdns bench_boot_env s)) = b_world s"
  "b_server (LogCrashDiagnostics bench_boot_env (StartMdns bench_boot_env s)) = b_server s"
  by (simp_all add: LogCrashDiagnostics_def StartMdns_def Let_def)

lemma bench_InitNvs [simp]:
  "InitNvs bench_boot_env s = (Running, s\<lparr>b_calls := b_calls s @ [(NvsInit None, ESP_OK), (NvsInit (Some kSecretPartitionName), ESP_OK)]\<rparr>)"
  by (simp add: InitNvs_def InitNvsPartition_def error_check_def)

lemma bench_connect:
  "ConnectToWifi sample_wifi_env cb (s\<lparr>w_world := ''home''\<rparr>) =
     Some (note_log (LCall WifiStart True) (note_log (LCall (WifiSetMode kModeSta) True)
       (s\<lparr>w_world := ''home'', w_callbacks := cb, w_pending_ssid := ''home''\<rparr>)))"
  by (simp add: ConnectToWifi_def esp_check_def Let_def)

text \<open>A part of the boot that runs to its end in the same world.\<close>

definition runs :: "(string, nat) booting \<Rightarrow> bool" where
  "runs r \<longleftrightarrow> fst r = Running \<and> b_world (snd r) = ''home''"

lemma runs_then: "runs r \<Longrightarrow> (\<And>t. b_world t = ''home'' \<Longrightarrow> fst (f t) = Running) \<Longrightarrow> fst (then_boot r f) = Running"
  by (cases "(r, f)" rule: then_boot.cases) (auto simp: runs_def)

lemma bench_steps [simp]:
  "b_world s = ''home'' \<Longrightarrow> runs (InitNvs bench_boot_env s)"
  "b_world s = ''home'' \<Longrightarrow> runs (error_check (idf_do bench_boot_env c s))"
  "b_world s = ''home'' \<Longrightarrow> runs (check_wifi_and_show bench_boot_env sample_wifi_env roots s)"
  by (simp_all add: runs_def error_check_def check_wifi_and_show_def InitWifiAndCheckStoredCredentials_def Let_def)

definition bench_events :: "string panel_event list" where
  "bench_events = [PModule (InEvent (GotIp ''10.0.0.2'')) ''home'']"

lemma bench_block:
  assumes "b_world s = ''home''"
  shows "fst (BlockUntilWifiConnected bench_boot_env sample_wifi_env bench_events s) = Running"
proof -
  have "w_connected_bit (on_got_ip sample_wifi_env ip u)" for ip u by (simp add: on_got_ip_def Let_def case_prod_beta)
  then have "w_connected_bit (pl_wifi (panel_step sample_wifi_env (PModule (InEvent (GotIp ''10.0.0.2'')) ''home'') p))" for p
    by (simp add: module_step_def wifi_step_def Let_def)
  then have "fst (wait_for_wifi sample_wifi_env bench_events p)" for p
    by (simp add: bench_events_def del: panel_step.simps)
  then show ?thesis
    by (simp add: BlockUntilWifiConnected_def assms bench_connect Let_def case_prod_beta del: wait_for_wifi.simps panel_step.simps)
qed

definition bench_boot :: "(string, nat) booting" where
  "bench_boot = app_main bench_boot_env sample_wifi_env (\<lambda>_. 0) bench_events (boot_start ''home'' sample_logger)"

lemma bench_boot_runs: "fst bench_boot = Running \<and> server_handle (b_server (snd bench_boot)) = Some 7"
proof -
  let ?s = "snd (idf_do bench_boot_env DisplayStart (snd (idf_do bench_boot_env RegisterShutdownHandler (boot_start ''home'' sample_logger))))"
  have "b_world ?s = ''home''" by (simp add: boot_start_def)
  then have "fst (boot_to_wifi bench_boot_env sample_wifi_env (\<lambda>_. 0) bench_events ?s) = Running"
    unfolding boot_to_wifi_def by (intro runs_then bench_steps bench_block) simp_all
  then obtain t where t: "boot_to_wifi bench_boot_env sample_wifi_env (\<lambda>_. 0) bench_events ?s = (Running, t)"
    by (cases "boot_to_wifi bench_boot_env sample_wifi_env (\<lambda>_. 0) bench_events ?s") simp
  have "server_handle (b_server (FinalizeBootAfterWifiConnected bench_boot_env t)) = Some 7"
    by (simp add: FinalizeBootAfterWifiConnected_def FirmwareStart_def Let_def case_prod_beta) (simp add: bench_boot_env_def)
  then show ?thesis
    unfolding bench_boot_def app_main_phases Let_def case_prod_beta t by simp
qed

theorem update_confirmed_only_when_reachable_witness:
  "fst bench_boot = Running \<and> w_connected_bit (pl_wifi (b_panel (snd bench_boot))) \<and> length (confirm_results (snd bench_boot)) = 1"
  using update_confirmed_only_when_reachable [of bench_boot_env sample_wifi_env "\<lambda>_. 0" bench_events "''home''" sample_logger]
    bench_boot_runs
  unfolding bench_boot_def [symmetric] by (auto simp: case_prod_beta)

theorem only_a_validated_image_boots_witness:
  "\<exists>h. b_calls (snd (ota_write_image bench_boot_env ''firmware'' (boot_start ''home'' sample_logger))) =
     [(OtaBegin 16 8 h, ESP_OK), (OtaWrite h ''firmware'', ESP_OK), (OtaEnd h, ESP_OK), (SetBootPartition 16, ESP_OK)]"
proof -
  let ?s = "boot_start ''home'' sample_logger :: (string, nat) boot"
  have update: "next_update_partition bench_boot_env w = Some (16, 100)" for w by (simp add: bench_boot_env_def)
  obtain t where t: "ota_write_image bench_boot_env ''firmware'' ?s = (True, t)"
    by (simp add: ota_write_image_def update Let_def)
  obtain new p where "b_calls t = b_calls ?s @ new" "(SetBootPartition p, ESP_OK) \<in> set new"
    and new: "\<forall>p r. (SetBootPartition p, r) \<in> set new \<longrightarrow>
      map_option fst (next_update_partition bench_boot_env (b_world ?s)) = Some p \<and> True = (r = ESP_OK) \<and>
      (\<exists>h. new = [(OtaBegin p (length ''firmware'') h, ESP_OK), (OtaWrite h ''firmware'', ESP_OK), (OtaEnd h, ESP_OK), (SetBootPartition p, r)])"
    using only_a_validated_image_boots [where E = bench_boot_env and img = "''firmware''" and s = ?s] unfolding t prod.case by blast
  moreover from this have "p = 16" by (auto simp: update)
  moreover have "b_calls ?s = []" by (simp add: boot_start_def)
  ultimately show ?thesis unfolding t snd_conv by fastforce
qed

end
