(* ===== verification/Mdns_Browser.thy ===== *)
theory Mdns_Browser
  imports Kodi_Client "HOL-Library.Multiset"
begin

text \<open>
  The two back ends of \<^verbatim>\<open>platform/mdns_browser.h\<close>: \<^verbatim>\<open>platform/firmware/mdns_browser.cpp\<close>, one query of the ESP-IDF
  component, and \<^verbatim>\<open>platform/host/mdns_browser.cpp\<close>, a loop over Avahi's callbacks. The libraries are parameters:
  what a query answers, and the events of each turn of the poll. A resolver is known by a number the library gives
  it; which were made and freed is recorded.
\<close>

section \<open>Firmware\<close>

datatype mdns_addr = AddrV4 "string option" | AddrV6

text \<open>One answer of \<^verbatim>\<open>mdns_query_ptr\<close>; null pointers are \<^const>\<open>None\<close>, as is an address that cannot be printed.\<close>

record mdns_answer =
  ma_instance :: "string option"
  ma_host :: "string option"
  ma_port :: nat
  ma_addrs :: "mdns_addr list"
  ma_txt :: "(string option \<times> string option) list"

record 'w mdns_env =
  me_init :: "'w \<Rightarrow> bool \<times> 'w"
  me_query :: "string \<Rightarrow> string \<Rightarrow> int \<Rightarrow> nat \<Rightarrow> 'w \<Rightarrow> mdns_answer list option \<times> 'w"

definition kMaxResults :: nat where "kMaxResults = 20"

text \<open>\<^verbatim>\<open>rfind\<close> of a character.\<close>

definition rfind_char :: "char \<Rightarrow> string \<Rightarrow> nat option" where
  "rfind_char c s = map_option (\<lambda>i. length s - 1 - i) (find_char c (rev s))"

definition split_service_type :: "string \<Rightarrow> (string \<times> string) option" where
  "split_service_type service_type =
     (case rfind_char (CHR ''.'') service_type of
        None \<Rightarrow> None
      | Some dot \<Rightarrow> if dot = 0 \<or> length service_type \<le> dot + 1 then None
                    else Some (take dot service_type, drop (dot + 1) service_type))"

fun first_ipv4 :: "mdns_addr list \<Rightarrow> string" where
  "first_ipv4 [] = []"
| "first_ipv4 (AddrV6 # rest) = first_ipv4 rest"
| "first_ipv4 (AddrV4 (Some t) # rest) = t"
| "first_ipv4 (AddrV4 None # rest) = first_ipv4 rest"

text \<open>\<^verbatim>\<open>std::map::emplace\<close>: a key already there keeps its value.\<close>

definition emplace :: "string \<Rightarrow> string \<Rightarrow> (string \<times> string) list \<Rightarrow> (string \<times> string) list" where
  "emplace k v m = (if map_of m k = None then m @ [(k, v)] else m)"

fun firmware_txt :: "(string option \<times> string option) list \<Rightarrow> (string \<times> string) list \<Rightarrow> (string \<times> string) list" where
  "firmware_txt [] m = m"
| "firmware_txt ((None, v) # rest) m = firmware_txt rest m"
| "firmware_txt ((Some k, v) # rest) m = firmware_txt rest (emplace k (case v of None \<Rightarrow> [] | Some t \<Rightarrow> t) m)"

definition or_empty :: "string option \<Rightarrow> string" where
  "or_empty t = (case t of None \<Rightarrow> [] | Some s \<Rightarrow> s)"

definition firmware_service :: "mdns_answer \<Rightarrow> mdns_service" where
  "firmware_service r =
     \<lparr>instance_name = or_empty (ma_instance r), hostname = or_empty (ma_host r), address = first_ipv4 (ma_addrs r),
      mdns_port = ma_port r, txt_records = firmware_txt (ma_txt r) []\<rparr>"

definition FirmwareMdns_Browse :: "'w mdns_env \<Rightarrow> string \<Rightarrow> ms \<Rightarrow> 'w \<Rightarrow> mdns_service list \<times> 'w" where
  "FirmwareMdns_Browse E service_type timeout w =
     (let (up, w1) = me_init E w
      in if \<not> up then ([], w1)
         else case split_service_type service_type of
                None \<Rightarrow> ([], w1)
              | Some (service, proto) \<Rightarrow>
                  (let (results, w2) = me_query E service proto (clamp timeout 1 60000) kMaxResults w1
                   in case results of None \<Rightarrow> ([], w2) | Some rs \<Rightarrow> (map firmware_service rs, w2)))"

section \<open>Host\<close>

record host_answer =
  ha_name :: "string option"
  ha_host :: "string option"
  ha_address :: "string option"
  ha_port :: nat
  ha_txt :: "(string option \<times> string option) option list"

datatype host_event =
    BrowserNew "nat option"
  | BrowserFailure
  | BrowserOther
  | ResolverFound nat host_answer
  | ResolverFailure nat
  | ClientFailure
  | ClientOther

record browse_context =
  bc_results :: "mdns_service list"
  bc_pending :: "nat set"
  bc_quit :: bool
  bc_made :: "nat list"
  bc_freed :: "nat list"

text \<open>A record that cannot be taken apart into a pair is skipped.\<close>

fun host_txt :: "(string option \<times> string option) option list \<Rightarrow> (string \<times> string) list \<Rightarrow> (string \<times> string) list" where
  "host_txt [] m = m"
| "host_txt (None # rest) m = host_txt rest m"
| "host_txt (Some (k, v) # rest) m = host_txt rest (emplace (or_empty k) (or_empty v) m)"

definition host_service :: "host_answer \<Rightarrow> mdns_service" where
  "host_service r =
     \<lparr>instance_name = or_empty (ha_name r), hostname = or_empty (ha_host r), address = or_empty (ha_address r),
      mdns_port = ha_port r, txt_records = host_txt (ha_txt r) []\<rparr>"

definition ResolveCallback :: "nat \<Rightarrow> host_answer option \<Rightarrow> browse_context \<Rightarrow> browse_context" where
  "ResolveCallback resolver found c =
     (let c1 = (case found of
                  None \<Rightarrow> c
                | Some r \<Rightarrow> if length (bc_results c) < kMaxResults then c\<lparr>bc_results := bc_results c @ [host_service r]\<rparr> else c)
      in c1\<lparr>bc_pending := bc_pending c1 - {resolver}, bc_freed := bc_freed c1 @ [resolver]\<rparr>)"

text \<open>\<open>made\<close> is what \<^verbatim>\<open>avahi_service_resolver_new\<close> would give.\<close>

definition BrowseCallback_new :: "nat option \<Rightarrow> browse_context \<Rightarrow> browse_context" where
  "BrowseCallback_new made c =
     (if kMaxResults \<le> card (bc_pending c) + length (bc_results c) then c
      else case made of
             None \<Rightarrow> c
           | Some resolver \<Rightarrow> c\<lparr>bc_pending := insert resolver (bc_pending c), bc_made := bc_made c @ [resolver]\<rparr>)"

fun host_callback :: "host_event \<Rightarrow> browse_context \<Rightarrow> browse_context" where
  "host_callback (BrowserNew made) c = BrowseCallback_new made c"
| "host_callback BrowserFailure c = c\<lparr>bc_quit := True\<rparr>"
| "host_callback BrowserOther c = c"
| "host_callback (ResolverFound resolver r) c = ResolveCallback resolver (Some r) c"
| "host_callback (ResolverFailure resolver) c = ResolveCallback resolver None c"
| "host_callback ClientFailure c = c\<lparr>bc_quit := True\<rparr>"
| "host_callback ClientOther c = c"

text \<open>
  The loop, over what each turn brings: the time at its start, the callbacks made by \<^verbatim>\<open>avahi_simple_poll_iterate\<close>
  and whether that fails by itself; after \<^verbatim>\<open>avahi_simple_poll_quit\<close> it fails in any case. The waits are
  recorded. \<^const>\<open>None\<close>: the turns given do not reach the end.
\<close>

fun browse_loop ::
  "ms \<Rightarrow> (ms \<times> host_event list \<times> bool) list \<Rightarrow> ms list \<Rightarrow> browse_context \<Rightarrow> (ms list \<times> browse_context) option" where
  "browse_loop deadline [] waits c = None"
| "browse_loop deadline ((now, events, fails) # turns) waits c =
     (if deadline \<le> now then Some (waits, c)
      else
        (let slice_ms = min (deadline - now) 250; c1 = fold host_callback events c
         in if fails \<or> bc_quit c1 then Some (waits @ [slice_ms], c1) else browse_loop deadline turns (waits @ [slice_ms]) c1))"

text \<open>The resolvers still pending are freed in the order of the set; \<open>order\<close> enumerates it.\<close>

definition HostMdns_Browse ::
  "(nat set \<Rightarrow> nat list) \<Rightarrow> bool \<Rightarrow> bool \<Rightarrow> bool \<Rightarrow> ms \<Rightarrow> ms \<Rightarrow> (ms \<times> host_event list \<times> bool) list \<Rightarrow> browse_context option" where
  "HostMdns_Browse order has_poll has_client has_browser start timeout turns =
     (let c = \<lparr>bc_results = [], bc_pending = {}, bc_quit = False, bc_made = [], bc_freed = []\<rparr>
      in if \<not> has_poll \<or> \<not> has_client \<or> \<not> has_browser then Some c
         else map_option (\<lambda>(waits, c1). c1\<lparr>bc_freed := bc_freed c1 @ order (bc_pending c1)\<rparr>)
                (browse_loop (start + timeout) turns [] c))"

section \<open>Firmware: what is asked and what is kept\<close>

lemma rfind_char_last:
  assumes "rfind_char c s = Some i"
  shows "i < length s \<and> s = take i s @ c # drop (Suc i) s \<and> c \<notin> set (drop (Suc i) s)"
proof -
  obtain j where j: "find_char c (rev s) = Some j" "i = length s - 1 - j" using assms by (auto simp: rfind_char_def)
  have f: "j < length s" "rev s ! j = c" "c \<notin> set (take j (rev s))" using find_char_Some [OF j(1)] by auto
  have "i < length s" "s ! i = c" using f j(2) by (simp_all add: rev_nth)
  moreover have "set (drop (Suc i) s) = set (take j (rev s))" using f(1) j(2) by (simp add: take_rev Suc_diff_Suc)
  ultimately show ?thesis using f(3) id_take_nth_drop [of i s] by simp
qed

lemma split_service_type_parts:
  "split_service_type t = Some (service, proto) \<Longrightarrow>
     t = service @ ''.'' @ proto \<and> service \<noteq> [] \<and> proto \<noteq> [] \<and> CHR ''.'' \<notin> set proto"
  by (auto simp: split_service_type_def split: option.splits if_splits dest!: rfind_char_last)

lemma kodi_service_type: "split_service_type kServiceType = Some (''_xbmc-jsonrpc'', ''_tcp'')"
  by (simp add: split_service_type_def kServiceType_def rfind_char_def)

lemma emplace_keeps: "map_of (emplace k v m) = (if map_of m k = None then (map_of m)(k \<mapsto> v) else map_of m)"
proof -
  have "map_of (m @ [(k, v)]) = (map_of m)(k \<mapsto> v)" if "map_of m k = None"
    using that by (auto simp: fun_eq_iff map_of_append map_add_def split: option.split)
  then show ?thesis by (simp add: emplace_def)
qed

text \<open>The first record of a key is the one kept.\<close>

lemma firmware_txt_first: "map_of m k = Some v \<Longrightarrow> map_of (firmware_txt rs m) k = Some v"
proof (induction rs m rule: firmware_txt.induct)
  case (3 k' x rest m)
  from 3(2) have "map_of (emplace k' (case x of None \<Rightarrow> [] | Some t \<Rightarrow> t) m) k = Some v" by (auto simp: emplace_keeps)
  from 3(1) [OF this] show ?case by simp
qed simp_all

section \<open>Host: bounds and resolvers\<close>

text \<open>
  What Avahi promises of its callbacks: a resolver calls back while it lives, and a new one has a number of its
  own.
\<close>

fun events_ok :: "host_event list \<Rightarrow> browse_context \<Rightarrow> bool" where
  "events_ok [] c \<longleftrightarrow> True"
| "events_ok (e # es) c \<longleftrightarrow>
     (case e of
        BrowserNew (Some r) \<Rightarrow> r \<notin> set (bc_made c)
      | ResolverFound r a \<Rightarrow> r \<in> bc_pending c
      | ResolverFailure r \<Rightarrow> r \<in> bc_pending c
      | _ \<Rightarrow> True) \<and> events_ok es (host_callback e c)"

definition browse_inv :: "browse_context \<Rightarrow> bool" where
  "browse_inv c \<longleftrightarrow>
     finite (bc_pending c) \<and> distinct (bc_made c) \<and> mset (bc_freed c) + mset_set (bc_pending c) = mset (bc_made c) \<and>
     card (bc_pending c) + length (bc_results c) \<le> kMaxResults"

lemma pending_made: "browse_inv c \<Longrightarrow> bc_pending c \<subseteq> set (bc_made c)"
proof -
  assume inv: "browse_inv c"
  then have "set_mset (mset_set (bc_pending c)) \<subseteq> set_mset (mset (bc_made c))"
    unfolding browse_inv_def by (metis mset_subset_eq_add_right set_mset_mono)
  then show ?thesis using inv by (simp add: browse_inv_def)
qed

lemma resolve_inv:
  assumes "browse_inv c" "r \<in> bc_pending c"
  shows "browse_inv (ResolveCallback r found c)"
proof -
  have fin: "finite (bc_pending c)" using assms(1) by (simp add: browse_inv_def)
  have card: "card (bc_pending c) = Suc (card (bc_pending c - {r}))" using fin assms(2) by (rule card.remove)
  have pending: "mset_set (bc_pending c) = add_mset r (mset_set (bc_pending c - {r}))" using fin assms(2) by (rule mset_set.remove)
  obtain rs where c1: "ResolveCallback r found c =
      c\<lparr>bc_results := rs, bc_pending := bc_pending c - {r}, bc_freed := bc_freed c @ [r]\<rparr>"
    and frame: "length rs \<le> Suc (length (bc_results c))"
  proof (cases "found = None \<or> kMaxResults \<le> length (bc_results c)")
    case True
    then show thesis using that [of "bc_results c"] by (cases found) (auto simp: ResolveCallback_def Let_def)
  next
    case False
    then obtain a where a: "found = Some a" "length (bc_results c) < kMaxResults" by auto
    then show thesis using that [of "bc_results c @ [host_service a]"] by (simp add: ResolveCallback_def Let_def)
  qed
  have "mset (bc_freed c) + mset_set (bc_pending c) = mset (bc_made c)" "distinct (bc_made c)"
    "card (bc_pending c) + length (bc_results c) \<le> kMaxResults" using assms(1) by (simp_all add: browse_inv_def)
  then show ?thesis using fin frame unfolding c1 browse_inv_def pending card by simp
qed

lemma callback_inv:
  assumes "browse_inv c" "events_ok (e # es) c"
  shows "browse_inv (host_callback e c)"
proof (cases e)
  case (BrowserNew made)
  show ?thesis
  proof (cases made)
    case (Some r)
    have "r \<notin> bc_pending c" using assms BrowserNew Some pending_made [OF assms(1)] by auto
    then show ?thesis using assms BrowserNew Some by (auto simp: browse_inv_def BrowseCallback_new_def)
  qed (use assms BrowserNew in \<open>simp add: BrowseCallback_new_def\<close>)
next
  case (ResolverFound r a)
  then show ?thesis using assms by (auto intro: resolve_inv)
next
  case (ResolverFailure r)
  then show ?thesis using assms by (auto intro: resolve_inv)
qed (use assms in \<open>auto simp: browse_inv_def\<close>)

lemma callbacks_inv:
  "browse_inv c \<Longrightarrow> events_ok (es @ fs) c \<Longrightarrow> browse_inv (fold host_callback es c) \<and> events_ok fs (fold host_callback es c)"
proof (induction es arbitrary: c)
  case (Cons e es)
  then show ?case using callback_inv [of c e "es @ fs"] by (cases e) auto
qed simp

lemma browse_loop_inv:
  "browse_loop deadline turns waits c = Some (waits', c') \<Longrightarrow> browse_inv c \<Longrightarrow>
     events_ok (concat (map (\<lambda>t. fst (snd t)) turns)) c \<Longrightarrow> browse_inv c'"
proof (induction deadline turns waits c rule: browse_loop.induct)
  case (2 deadline now events fails turns waits c)
  have "browse_inv (fold host_callback events c) \<and> events_ok (concat (map (\<lambda>t. fst (snd t)) turns)) (fold host_callback events c)"
    using 2(3,4) by (intro callbacks_inv) simp_all
  then show ?case using 2 by (auto simp: Let_def split: if_splits)
qed simp

text \<open>Every wait is positive and at most a quarter of a second, and the loop ends no later than at its deadline.\<close>

lemma browse_loop_waits:
  "browse_loop deadline turns waits c = Some (waits', c') \<Longrightarrow> \<forall>w \<in> set waits. 0 < w \<and> w \<le> 250 \<Longrightarrow> \<forall>w \<in> set waits'. 0 < w \<and> w \<le> 250"
proof (induction deadline turns waits c rule: browse_loop.induct)
  case (2 deadline now events fails turns waits c)
  show ?case
  proof (cases "deadline \<le> now \<or> fails \<or> bc_quit (fold host_callback events c)")
    case True
    then show ?thesis using 2(2,3) by (auto simp: Let_def split: if_splits)
  next
    case False
    then have "\<forall>w \<in> set (waits @ [min (deadline - now) 250]). 0 < w \<and> w \<le> 250" using 2(3) by auto
    with 2(1) [OF _ refl refl] 2(2) False show ?thesis by (simp add: Let_def)
  qed
qed simp

lemma browse_loop_ends: "(now, events, fails) \<in> set turns \<Longrightarrow> deadline \<le> now \<Longrightarrow> browse_loop deadline turns waits c \<noteq> None"
  by (induction deadline turns waits c rule: browse_loop.induct) (auto simp: Let_def)

text \<open>
  C36: a browse on the host returns at most twenty services whatever answers, and every resolver it made is freed
  exactly once: by its own callback, or at the end when it never called back. It returns as soon as a turn starts
  after its deadline.
  (Under Avahi's rules: a resolver calls back only while it lives, and a new one is distinct from those made
  before. The pending resolvers are freed at the end in some order.)
\<close>

theorem host_browse_bounded_and_clean:
  assumes "events_ok (concat (map (\<lambda>t. fst (snd t)) turns))
      \<lparr>bc_results = [], bc_pending = {}, bc_quit = False, bc_made = [], bc_freed = []\<rparr>"
    and "\<And>S. finite S \<Longrightarrow> mset (order S) = mset_set S"
    and "\<exists>turn \<in> set turns. start + timeout \<le> fst turn"
  shows "\<exists>c. HostMdns_Browse order has_poll has_client has_browser start timeout turns = Some c \<and>
    length (bc_results c) \<le> kMaxResults \<and> mset (bc_freed c) = mset (bc_made c) \<and> distinct (bc_freed c)"
proof -
  let ?c = "\<lparr>bc_results = [], bc_pending = {}, bc_quit = False, bc_made = [], bc_freed = []\<rparr>"
  have start: "browse_inv ?c" by (simp add: browse_inv_def)
  obtain waits c where loop: "browse_loop (start + timeout) turns [] ?c = Some (waits, c)"
    using assms(3) browse_loop_ends [of _ _ _ turns "start + timeout" "[]" ?c] by fastforce
  have inv: "browse_inv c" by (rule browse_loop_inv [OF loop start assms(1)])
  then have freed: "mset (bc_freed c @ order (bc_pending c)) = mset (bc_made c)"
    using assms(2) by (simp add: browse_inv_def)
  moreover have "distinct (bc_freed c @ order (bc_pending c))"
    using inv freed by (metis browse_inv_def mset_eq_imp_distinct_iff)
  ultimately show ?thesis using inv by (auto simp: HostMdns_Browse_def loop Let_def browse_inv_def kMaxResults_def)
qed

definition sample_turns :: "(ms \<times> host_event list \<times> bool) list" where
  "sample_turns =
     [(0, [BrowserNew (Some 1), BrowserNew (Some 2)], False),
      (200, [ResolverFound 1 \<lparr>ha_name = Some ''tv'', ha_host = None, ha_address = Some ''10.0.0.9'', ha_port = 9090, ha_txt = []\<rparr>], False),
      (3000, [], False)]"

theorem host_browse_bounded_and_clean_witness:
  "\<exists>c. HostMdns_Browse sorted_list_of_set True True True 0 3000 sample_turns = Some c \<and>
     length (bc_results c) = 1 \<and> mset (bc_freed c) = {#1, 2#}"
proof -
  have "events_ok (concat (map (\<lambda>t. fst (snd t)) sample_turns)) \<lparr>bc_results = [], bc_pending = {}, bc_quit = False, bc_made = [], bc_freed = []\<rparr>"
    by (simp add: sample_turns_def BrowseCallback_new_def kMaxResults_def)
  moreover have "mset (sorted_list_of_set S) = mset_set S" if "finite S" for S :: "nat set"
    using that by (metis mset_sorted_list_of_multiset sorted_list_of_mset_set)
  moreover have "\<exists>turn \<in> set sample_turns. 0 + 3000 \<le> fst turn" by (simp add: sample_turns_def)
  ultimately obtain c where c: "HostMdns_Browse sorted_list_of_set True True True 0 3000 sample_turns = Some c"
    and free: "mset (bc_freed c) = mset (bc_made c)"
    using host_browse_bounded_and_clean [of sample_turns sorted_list_of_set 0 3000 True True True] by blast
  have "map_option (\<lambda>c. (length (bc_results c), bc_made c)) (HostMdns_Browse sorted_list_of_set True True True 0 3000 sample_turns) =
      Some (1, [1, 2])"
    by (simp add: HostMdns_Browse_def sample_turns_def BrowseCallback_new_def ResolveCallback_def kMaxResults_def Let_def)
  then show ?thesis unfolding c using free by simp
qed

end
