(* ===== verification/Platform_Adapters.thy ===== *)
theory Platform_Adapters
  imports Prelude Complex_Main
begin

text \<open>
  The small back ends: tasks and timers on both platforms (\<^verbatim>\<open>platform/firmware/task.cpp\<close>,
  \<^verbatim>\<open>platform/firmware/timer.cpp\<close>, \<^verbatim>\<open>platform/host/task.cpp\<close>, \<^verbatim>\<open>platform/host/timer.cpp\<close>) as step relations between the
  owner, who destroys the object, and the thread that runs its function; \<^verbatim>\<open>core/clock.cpp\<close>; the display brightness
  and the audio outputs. FreeRTOS's timer service, its semaphores and \<^verbatim>\<open>std::jthread\<close> are modelled by their
  documented behaviour.
\<close>

section \<open>Lifetimes\<close>

text \<open>
  An object whose function runs on another thread: once its owner has freed it, the function must not be running
  and must not run again.
\<close>

locale lifetime =
  fixes start :: 's and step :: "'s \<Rightarrow> 's \<Rightarrow> bool" and freed running :: "'s \<Rightarrow> bool" and inv :: "'s \<Rightarrow> bool"
  assumes inv_start: "inv start"
    and inv_step: "inv s \<Longrightarrow> step s t \<Longrightarrow> inv t"
    and inv_safe: "inv s \<Longrightarrow> freed s \<Longrightarrow> \<not> running s"
    and freed_step: "freed s \<Longrightarrow> step s t \<Longrightarrow> freed t"
begin

lemma inv_reachable: "step\<^sup>*\<^sup>* start s \<Longrightarrow> inv s"
  by (induction rule: rtranclp_induct) (auto intro: inv_start inv_step)

lemma freed_stays: "step\<^sup>*\<^sup>* s t \<Longrightarrow> freed s \<Longrightarrow> freed t"
  by (induction rule: rtranclp_induct) (auto intro: freed_step)

lemma never_after: "step\<^sup>*\<^sup>* start s \<Longrightarrow> freed s \<Longrightarrow> step\<^sup>*\<^sup>* s t \<Longrightarrow> \<not> running t"
  by (metis freed_stays inv_reachable inv_safe rtranclp_trans)

end

section \<open>The firmware's timer\<close>

text \<open>
  Commands of a timer go through one queue of the timer service, which runs one thing at a time: a command, or a
  callback of a started timer.
\<close>

datatype timer_command = StartTimer | DeleteTimer | GiveDone

datatype owner = Alive | DeleteQueued | WaitingDone | Freed

record fw_timer =
  ft_queue :: "timer_command list"
  ft_active :: bool
  ft_in_callback :: bool
  ft_done :: bool
  ft_owner :: owner

definition FirmwareTimer_new :: fw_timer where
  "FirmwareTimer_new = \<lparr>ft_queue = [StartTimer], ft_active = False, ft_in_callback = False, ft_done = False, ft_owner = Alive\<rparr>"

text \<open>The statements of the destructor; the last one waits.\<close>

fun FirmwareTimer_destroy :: "fw_timer \<Rightarrow> fw_timer option" where
  "FirmwareTimer_destroy s =
     (case ft_owner s of
        Alive \<Rightarrow> Some (s\<lparr>ft_queue := ft_queue s @ [DeleteTimer], ft_owner := DeleteQueued\<rparr>)
      | DeleteQueued \<Rightarrow> Some (s\<lparr>ft_queue := ft_queue s @ [GiveDone], ft_owner := WaitingDone\<rparr>)
      | WaitingDone \<Rightarrow> if ft_done s then Some (s\<lparr>ft_owner := Freed\<rparr>) else None
      | Freed \<Rightarrow> None)"

fun timer_service :: "timer_command \<Rightarrow> fw_timer \<Rightarrow> fw_timer" where
  "timer_service StartTimer s = s\<lparr>ft_active := True\<rparr>"
| "timer_service DeleteTimer s = s\<lparr>ft_active := False\<rparr>"
| "timer_service GiveDone s = s\<lparr>ft_done := True\<rparr>"

inductive fw_timer_step :: "fw_timer \<Rightarrow> fw_timer \<Rightarrow> bool" where
  owner_step: "FirmwareTimer_destroy s = Some t \<Longrightarrow> fw_timer_step s t"
| service_step: "\<not> ft_in_callback s \<Longrightarrow> ft_queue s = c # rest \<Longrightarrow> fw_timer_step s (timer_service c (s\<lparr>ft_queue := rest\<rparr>))"
| expiry: "\<not> ft_in_callback s \<Longrightarrow> ft_active s \<Longrightarrow> fw_timer_step s (s\<lparr>ft_in_callback := True\<rparr>)"
| callback_returns: "ft_in_callback s \<Longrightarrow> fw_timer_step s (s\<lparr>ft_in_callback := False\<rparr>)"

text \<open>The queue, and what has been processed of it.\<close>

definition fw_timer_inv :: "fw_timer \<Rightarrow> bool" where
  "fw_timer_inv s \<longleftrightarrow>
     (ft_queue s, ft_active s, ft_done s) \<in>
       (case ft_owner s of
          Alive \<Rightarrow> {([StartTimer], False, False), ([], True, False)}
        | DeleteQueued \<Rightarrow> {([StartTimer, DeleteTimer], False, False), ([DeleteTimer], True, False), ([], False, False)}
        | WaitingDone \<Rightarrow> {([StartTimer, DeleteTimer, GiveDone], False, False), ([DeleteTimer, GiveDone], True, False),
                         ([GiveDone], False, False), ([], False, True)}
        | Freed \<Rightarrow> {([], False, True)}) \<and>
     (ft_in_callback s \<longrightarrow> ft_active s)"

lemma fw_timer_inv_step:
  assumes "fw_timer_inv s" "fw_timer_step s t"
  shows "fw_timer_inv t"
  using assms(2)
proof (cases rule: fw_timer_step.cases)
  case owner_step
  then show ?thesis using assms(1) by (cases "ft_owner s") (auto simp: fw_timer_inv_def split: if_splits)
next
  case (service_step c rest)
  then show ?thesis using assms(1) by (cases "ft_owner s"; cases c) (auto simp: fw_timer_inv_def)
next
  case expiry
  then show ?thesis using assms(1) by (simp add: fw_timer_inv_def)
next
  case callback_returns
  then show ?thesis using assms(1) by (cases "ft_owner s") (auto simp: fw_timer_inv_def)
qed

lemma timer_service_owner [simp]:
  "ft_owner (timer_service c s) = ft_owner s" "ft_queue (timer_service c s) = ft_queue s"
  "ft_in_callback (timer_service c s) = ft_in_callback s"
  by (cases c; simp)+

interpretation fw_timer: lifetime FirmwareTimer_new fw_timer_step "\<lambda>s. ft_owner s = Freed" ft_in_callback fw_timer_inv
proof
  show "fw_timer_inv FirmwareTimer_new" by (simp add: fw_timer_inv_def FirmwareTimer_new_def)
  show "fw_timer_inv s \<Longrightarrow> fw_timer_step s t \<Longrightarrow> fw_timer_inv t" for s t by (rule fw_timer_inv_step)
  show "fw_timer_inv s \<Longrightarrow> ft_owner s = Freed \<Longrightarrow> \<not> ft_in_callback s" for s by (auto simp: fw_timer_inv_def)
  show "ft_owner s = Freed \<Longrightarrow> fw_timer_step s t \<Longrightarrow> ft_owner t = Freed" for s t
    by (erule fw_timer_step.cases) auto
qed

text \<open>Once the destructor has begun it can always be brought to its end, by the service alone.\<close>

definition finished_from :: "fw_timer \<Rightarrow> bool" where
  "finished_from s \<longleftrightarrow> (\<exists>t. fw_timer_step\<^sup>*\<^sup>* s t \<and> ft_owner t = Freed)"

lemma finished_via: "fw_timer_step s t \<Longrightarrow> finished_from t \<Longrightarrow> finished_from s"
  unfolding finished_from_def by (meson converse_rtranclp_into_rtranclp)

lemma destructor_can_finish:
  assumes "fw_timer_inv s"
  shows "finished_from s"
proof -
  have freed: "finished_from s" if "ft_owner s = Freed" for s using that unfolding finished_from_def by blast
  have waiting: "finished_from s" if "fw_timer_inv s" "ft_owner s = WaitingDone" "\<not> ft_in_callback s" for s
    using that
  proof (induction "length (ft_queue s)" arbitrary: s rule: less_induct)
    case less
    show ?case
    proof (cases "ft_queue s")
      case Nil
      then have "ft_done s" using less.prems by (auto simp: fw_timer_inv_def)
      then have "fw_timer_step s (s\<lparr>ft_owner := Freed\<rparr>)" using less.prems by (intro owner_step) simp
      then show ?thesis by (rule finished_via) (simp add: freed)
    next
      case (Cons c rest)
      let ?t = "timer_service c (s\<lparr>ft_queue := rest\<rparr>)"
      have t: "fw_timer_step s ?t" by (rule service_step) (use less.prems Cons in auto)
      have f: "ft_queue ?t = rest" "ft_owner ?t = WaitingDone" "\<not> ft_in_callback ?t"
        using less.prems by simp_all
      show ?thesis
        by (rule finished_via [OF t], rule less.hyps) (use f Cons fw_timer_inv_step [OF less.prems(1) t] in auto)
    qed
  qed
  have idle: "finished_from s" if "fw_timer_inv s" "\<not> ft_in_callback s" for s
  proof -
    have queued: "finished_from s" if "fw_timer_inv s" "\<not> ft_in_callback s" "ft_owner s = DeleteQueued" for s
    proof -
      let ?t = "s\<lparr>ft_queue := ft_queue s @ [GiveDone], ft_owner := WaitingDone\<rparr>"
      have t: "fw_timer_step s ?t" by (rule owner_step) (use that in simp)
      show ?thesis by (rule finished_via [OF t], rule waiting) (use that fw_timer_inv_step [OF that(1) t] in auto)
    qed
    show ?thesis
    proof (cases "ft_owner s")
      case Alive
      let ?t = "s\<lparr>ft_queue := ft_queue s @ [DeleteTimer], ft_owner := DeleteQueued\<rparr>"
      have t: "fw_timer_step s ?t" by (rule owner_step) (use Alive in simp)
      show ?thesis by (rule finished_via [OF t], rule queued) (use that fw_timer_inv_step [OF that(1) t] in auto)
    qed (use that waiting queued freed in blast)+
  qed
  show ?thesis
  proof (cases "ft_in_callback s")
    case True
    have t: "fw_timer_step s (s\<lparr>ft_in_callback := False\<rparr>)" by (rule callback_returns) (rule True)
    show ?thesis by (rule finished_via [OF t], rule idle) (use fw_timer_inv_step [OF assms t] in auto)
  qed (use idle assms in blast)
qed
section \<open>The host's timer\<close>

text \<open>
  The loop of the timer's task: waiting, past the test of the stop token, in the callback, or left. Freeing the
  implementation joins the thread first.
\<close>

datatype host_pc = Looping | WaitEnded | InCallback | LoopLeft

datatype host_owner = HAlive | HStopRequested | HJoined

record host_timer =
  ht_pc :: host_pc
  ht_stop :: bool
  ht_owner :: host_owner

definition HostTimer_new :: host_timer where
  "HostTimer_new = \<lparr>ht_pc = Looping, ht_stop = False, ht_owner = HAlive\<rparr>"

fun HostTimer_loop :: "host_timer \<Rightarrow> host_timer" where
  "HostTimer_loop s =
     (case ht_pc s of
        Looping \<Rightarrow> s\<lparr>ht_pc := if ht_stop s then LoopLeft else WaitEnded\<rparr>
      | WaitEnded \<Rightarrow> s\<lparr>ht_pc := InCallback\<rparr>
      | InCallback \<Rightarrow> s\<lparr>ht_pc := if ht_stop s then LoopLeft else Looping\<rparr>
      | LoopLeft \<Rightarrow> s)"

fun HostTimer_destroy :: "host_timer \<Rightarrow> host_timer option" where
  "HostTimer_destroy s =
     (case ht_owner s of
        HAlive \<Rightarrow> Some (s\<lparr>ht_stop := True, ht_owner := HStopRequested\<rparr>)
      | HStopRequested \<Rightarrow> if ht_pc s = LoopLeft then Some (s\<lparr>ht_owner := HJoined\<rparr>) else None
      | HJoined \<Rightarrow> None)"

inductive host_timer_step :: "host_timer \<Rightarrow> host_timer \<Rightarrow> bool" where
  host_owner_step: "HostTimer_destroy s = Some t \<Longrightarrow> host_timer_step s t"
| host_loop_step: "host_timer_step s (HostTimer_loop s)"

definition host_timer_inv :: "host_timer \<Rightarrow> bool" where
  "host_timer_inv s \<longleftrightarrow> (ht_stop s \<longleftrightarrow> ht_owner s \<noteq> HAlive) \<and> (ht_owner s = HJoined \<longrightarrow> ht_pc s = LoopLeft)"

interpretation host_timer: lifetime HostTimer_new host_timer_step "\<lambda>s. ht_owner s = HJoined" "\<lambda>s. ht_pc s = InCallback" host_timer_inv
proof
  show "host_timer_inv HostTimer_new" by (simp add: host_timer_inv_def HostTimer_new_def)
  show "host_timer_inv s \<Longrightarrow> ht_owner s = HJoined \<Longrightarrow> \<not> ht_pc s = InCallback" for s by (simp add: host_timer_inv_def)
  show "host_timer_inv s \<Longrightarrow> host_timer_step s t \<Longrightarrow> host_timer_inv t" for s t
    by (erule host_timer_step.cases; cases "ht_pc s"; cases "ht_owner s") (auto simp: host_timer_inv_def split: if_splits)
  show "ht_owner s = HJoined \<Longrightarrow> host_timer_step s t \<Longrightarrow> ht_owner t = HJoined" for s t
    by (erule host_timer_step.cases; cases "ht_pc s") auto
qed

text \<open>After the stop at most the callback already decided on runs: three turns of the loop end it.\<close>

lemma host_loop_ends: "ht_stop s \<Longrightarrow> ht_pc (HostTimer_loop (HostTimer_loop s)) = LoopLeft"
  by (cases "ht_pc s") simp_all

section \<open>Tasks\<close>

text \<open>The firmware's trampoline: the function, then the semaphore; the destructor asks it to stop and takes the semaphore.\<close>

datatype task_pc = InFunction | FunctionDone | TaskDeleted

record fw_task =
  tk_pc :: task_pc
  tk_stop :: bool
  tk_finished :: bool
  tk_freed :: bool

definition FirmwareTask_new :: fw_task where
  "FirmwareTask_new = \<lparr>tk_pc = InFunction, tk_stop = False, tk_finished = False, tk_freed = False\<rparr>"

fun TaskTrampoline :: "fw_task \<Rightarrow> fw_task" where
  "TaskTrampoline s =
     (case tk_pc s of
        InFunction \<Rightarrow> s\<lparr>tk_pc := FunctionDone\<rparr>
      | FunctionDone \<Rightarrow> s\<lparr>tk_finished := True, tk_pc := TaskDeleted\<rparr>
      | TaskDeleted \<Rightarrow> s)"

definition FirmwareTask_destroy :: "fw_task \<Rightarrow> fw_task option" where
  "FirmwareTask_destroy s =
     (if \<not> tk_stop s then Some (s\<lparr>tk_stop := True\<rparr>)
      else if tk_finished s \<and> \<not> tk_freed s then Some (s\<lparr>tk_freed := True\<rparr>)
      else None)"

inductive fw_task_step :: "fw_task \<Rightarrow> fw_task \<Rightarrow> bool" where
  task_owner_step: "FirmwareTask_destroy s = Some t \<Longrightarrow> fw_task_step s t"
| task_runs: "fw_task_step s (TaskTrampoline s)"

definition fw_task_inv :: "fw_task \<Rightarrow> bool" where
  "fw_task_inv s \<longleftrightarrow> (tk_finished s \<longleftrightarrow> tk_pc s = TaskDeleted) \<and> (tk_freed s \<longrightarrow> tk_finished s)"

interpretation fw_task: lifetime FirmwareTask_new fw_task_step tk_freed "\<lambda>s. tk_pc s = InFunction" fw_task_inv
proof
  show "fw_task_inv FirmwareTask_new" by (simp add: fw_task_inv_def FirmwareTask_new_def)
  show "fw_task_inv s \<Longrightarrow> tk_freed s \<Longrightarrow> \<not> tk_pc s = InFunction" for s by (auto simp: fw_task_inv_def)
  show "fw_task_inv s \<Longrightarrow> fw_task_step s t \<Longrightarrow> fw_task_inv t" for s t
    by (erule fw_task_step.cases; cases "tk_pc s") (auto simp: fw_task_inv_def FirmwareTask_destroy_def split: if_splits)
  show "tk_freed s \<Longrightarrow> fw_task_step s t \<Longrightarrow> tk_freed t" for s t
    by (erule fw_task_step.cases; cases "tk_pc s") (auto simp: FirmwareTask_destroy_def split: if_splits)
qed

text \<open>
  C18: on both platforms a timer's callback and, on the device, a task's function are over before the destructor of
  the timer or task returns, and never run again: nothing they captured is used after it has been freed. The
  device's timer relies on the order of its command queue for this, and its destructor can always come to its end.
\<close>

theorem nothing_runs_after_destruction:
  "(fw_timer_step\<^sup>*\<^sup>* FirmwareTimer_new s \<longrightarrow> finished_from s \<and> (ft_owner s = Freed \<and> fw_timer_step\<^sup>*\<^sup>* s t \<longrightarrow> \<not> ft_in_callback t)) \<and>
   (host_timer_step\<^sup>*\<^sup>* HostTimer_new h \<and> ht_owner h = HJoined \<and> host_timer_step\<^sup>*\<^sup>* h h' \<longrightarrow> ht_pc h' \<noteq> InCallback) \<and>
   (fw_task_step\<^sup>*\<^sup>* FirmwareTask_new k \<and> tk_freed k \<and> fw_task_step\<^sup>*\<^sup>* k k' \<longrightarrow> tk_pc k' \<noteq> InFunction)"
proof (intro conjI impI)
  assume r: "fw_timer_step\<^sup>*\<^sup>* FirmwareTimer_new s"
  show "finished_from s" by (rule destructor_can_finish [OF fw_timer.inv_reachable [OF r]])
  assume "ft_owner s = Freed \<and> fw_timer_step\<^sup>*\<^sup>* s t"
  then show "\<not> ft_in_callback t" using fw_timer.never_after [OF r] by simp
next
  assume "host_timer_step\<^sup>*\<^sup>* HostTimer_new h \<and> ht_owner h = HJoined \<and> host_timer_step\<^sup>*\<^sup>* h h'"
  then show "ht_pc h' \<noteq> InCallback" by (auto dest: host_timer.never_after)
next
  assume "fw_task_step\<^sup>*\<^sup>* FirmwareTask_new k \<and> tk_freed k \<and> fw_task_step\<^sup>*\<^sup>* k k'"
  then show "tk_pc k' \<noteq> InFunction" by (auto dest: fw_task.never_after)
qed

text \<open>A timer destroyed while its callback is running: the callback ends first.\<close>

lemma destroyed_in_callback:
  "fw_timer_step\<^sup>*\<^sup>* FirmwareTimer_new \<lparr>ft_queue = [DeleteTimer, GiveDone], ft_active = True, ft_in_callback = True, ft_done = False, ft_owner = WaitingDone\<rparr>"
proof -
  let ?a = "\<lparr>ft_queue = [], ft_active = True, ft_in_callback = False, ft_done = False, ft_owner = Alive\<rparr>"
  let ?b = "?a\<lparr>ft_in_callback := True\<rparr>"
  let ?c = "?b\<lparr>ft_queue := [DeleteTimer], ft_owner := DeleteQueued\<rparr>"
  have "fw_timer_step FirmwareTimer_new ?a"
    using service_step [of FirmwareTimer_new StartTimer "[]"] by (simp add: FirmwareTimer_new_def)
  moreover have "fw_timer_step ?a ?b" by (rule expiry) simp_all
  moreover have "fw_timer_step ?b ?c" by (rule owner_step) simp
  moreover have "fw_timer_step ?c \<lparr>ft_queue = [DeleteTimer, GiveDone], ft_active = True, ft_in_callback = True, ft_done = False, ft_owner = WaitingDone\<rparr>"
    by (rule owner_step) simp
  ultimately show ?thesis
    by (intro rtranclp.rtrancl_into_rtrancl [OF rtranclp.rtrancl_into_rtrancl
        [OF rtranclp.rtrancl_into_rtrancl [OF rtranclp.rtrancl_into_rtrancl [OF rtranclp.rtrancl_refl]]]])
qed

theorem nothing_runs_after_destruction_witness:
  "finished_from \<lparr>ft_queue = [DeleteTimer, GiveDone], ft_active = True, ft_in_callback = True, ft_done = False, ft_owner = WaitingDone\<rparr>"
  using nothing_runs_after_destruction [THEN conjunct1, THEN mp, OF destroyed_in_callback] by (rule conjunct1)

section \<open>Clock\<close>

text \<open>The time of each tick published, by the timer and once by \<^verbatim>\<open>Start\<close>; the time source is a parameter.\<close>

definition Clock_tick :: "('w \<Rightarrow> int \<times> 'w) \<Rightarrow> int list \<times> 'w \<Rightarrow> int list \<times> 'w" where
  "Clock_tick now s = (let (t, w) = now (snd s) in (fst s @ [t], w))"

definition Clock_Start :: "('w \<Rightarrow> int \<times> 'w) \<Rightarrow> int list \<times> 'w \<Rightarrow> int list \<times> 'w" where
  "Clock_Start now s = (let (t, w) = now (snd s) in (fst s @ [t], w))"

section \<open>Brightness\<close>

definition ClampBrightnessPercent :: "int \<Rightarrow> int" where
  "ClampBrightnessPercent percent = clamp percent 0 100"

text \<open>\<^verbatim>\<open>LV_OPA_COVER\<close> is 255; an \<^verbatim>\<open>lv_opa_t\<close> is a byte.\<close>

definition HostBrightness_SetPercent :: "int \<Rightarrow> u8" where
  "HostBrightness_SetPercent percent = word_of_int ((100 - ClampBrightnessPercent percent) * 255 div 100)"

definition FirmwareBrightness_SetPercent :: "(int \<Rightarrow> 'w \<Rightarrow> 'w) \<Rightarrow> int \<Rightarrow> 'w \<Rightarrow> 'w" where
  "FirmwareBrightness_SetPercent brightness_set percent w = brightness_set (ClampBrightnessPercent percent) w"

text \<open>The overlay's opacity does not wrap, and is none exactly at full brightness.\<close>

lemma overlay_opacity:
  "uint (HostBrightness_SetPercent p) = (100 - ClampBrightnessPercent p) * 255 div 100"
  "HostBrightness_SetPercent p = 0 \<longleftrightarrow> 100 \<le> p"
proof -
  define c where "c = (100 - ClampBrightnessPercent p) * 255"
  have c: "0 \<le> c" "c \<le> 25500" by (simp_all add: c_def ClampBrightnessPercent_def clamp_def)
  then have b: "0 \<le> c div 100" "c div 100 < 256" using zdiv_mono1 [of c 25500 100] by simp_all
  have wrap: "uint (word_of_int k :: u8) = k mod 256" for k by (simp add: uint_word_of_int)
  show eq: "uint (HostBrightness_SetPercent p) = (100 - ClampBrightnessPercent p) * 255 div 100"
    unfolding HostBrightness_SetPercent_def wrap c_def [symmetric] using b by (rule mod_pos_pos_trivial)
  have "HostBrightness_SetPercent p = 0 \<longleftrightarrow> c div 100 = 0" 
    unfolding c_def eq [symmetric] by (simp add: unsigned_eq_0_iff)
  also have "\<dots> \<longleftrightarrow> c < 100" using c by (auto simp: zdiv_eq_0_iff)
  finally show "HostBrightness_SetPercent p = 0 \<longleftrightarrow> 100 \<le> p" by (auto simp: c_def ClampBrightnessPercent_def clamp_def)
qed

section \<open>Audio\<close>

text \<open>The host's scaling in double precision: \<open>rnd\<close> rounds a result; the conversion to \<^verbatim>\<open>int16_t\<close> truncates.\<close>

definition trunc :: "real \<Rightarrow> int" where
  "trunc x = (if 0 \<le> x then \<lfloor>x\<rfloor> else \<lceil>x\<rceil>)"

definition ScaleVolume :: "(real \<Rightarrow> real) \<Rightarrow> int list \<Rightarrow> int \<Rightarrow> int list" where
  "ScaleVolume rnd samples volume_percent =
     (let gain = rnd (of_int (clamp volume_percent 0 100) / 100) in map (\<lambda>s. trunc (rnd (of_int s * gain))) samples)"

text \<open>What is used of rounding: it keeps order and the numbers a sample can be.\<close>

lemma ScaleVolume_in_range:
  assumes "mono rnd" "\<And>n :: int. \<bar>n\<bar> \<le> 2 ^ 15 \<Longrightarrow> rnd (of_int n) = of_int n" "\<And>s. s \<in> set samples \<Longrightarrow> \<bar>s\<bar> \<le> 2 ^ 15"
  shows "list_all2 (\<lambda>s t. \<bar>t\<bar> \<le> \<bar>s\<bar> \<and> 0 \<le> s * t) samples (ScaleVolume rnd samples v)"
proof -
  define gain where "gain = rnd (of_int (clamp v 0 100) / 100)"
  have "0 \<le> clamp v 0 100" "clamp v 0 100 \<le> 100" by (simp_all add: clamp_def)
  then have "(0 :: real) \<le> of_int (clamp v 0 100) / 100" "of_int (clamp v 0 100) / 100 \<le> (1 :: real)" by simp_all
  then have g: "0 \<le> gain" "gain \<le> 1" unfolding gain_def
    using monoD [OF assms(1), of 0] monoD [OF assms(1), of _ 1] assms(2) [of 0] assms(2) [of 1] by fastforce+
  have "\<bar>trunc (rnd (of_int s * gain))\<bar> \<le> \<bar>s\<bar> \<and> 0 \<le> s * trunc (rnd (of_int s * gain))" if "s \<in> set samples" for s
  proof (cases "0 \<le> s")
    case True
    have "0 \<le> of_int s * gain" "of_int s * gain \<le> of_int s" using True g by (simp_all add: mult_left_le)
    then have "0 \<le> rnd (of_int s * gain)" "rnd (of_int s * gain) \<le> of_int s"
      using monoD [OF assms(1)] assms(2) [of 0] assms(2) [of s] assms(3) [OF that] by (metis of_int_0 abs_zero zero_le_numeral zero_le_power)+
    then show ?thesis using True by (simp add: trunc_def floor_le_iff)
  next
    case False
    have "of_int s * gain \<le> 0" "of_int s \<le> of_int s * gain" using False g by (simp_all add: mult_nonpos_nonneg mult_le_cancel_left2)
    then have "rnd (of_int s * gain) \<le> 0" "of_int s \<le> rnd (of_int s * gain)"
      using monoD [OF assms(1)] assms(2) [of 0] assms(2) [of s] assms(3) [OF that] by (metis of_int_0 abs_zero zero_le_numeral zero_le_power)+
    then have "of_int s \<le> \<lceil>rnd (of_int s * gain)\<rceil>" "\<lceil>rnd (of_int s * gain)\<rceil> \<le> 0" by (simp_all add: ceiling_le_iff le_ceiling_iff)
    then show ?thesis using False by (auto simp: trunc_def mult_nonpos_nonpos)
  qed
  then show ?thesis by (simp add: ScaleVolume_def gain_def [symmetric] list_all2_conv_all_nth)
qed

text \<open>The device's output: a failed open plays nothing, a failed close is only logged.\<close>

record 'w codec =
  codec_present :: bool
  codec_open :: "nat \<Rightarrow> 'w \<Rightarrow> bool \<times> 'w"
  codec_write :: "int list \<Rightarrow> 'w \<Rightarrow> bool \<times> 'w"
  codec_close :: "'w \<Rightarrow> bool \<times> 'w"
  codec_volume :: "int \<Rightarrow> 'w \<Rightarrow> bool \<times> 'w"

definition FirmwareAudio_Play :: "'w codec \<Rightarrow> int list \<Rightarrow> nat \<Rightarrow> 'w \<Rightarrow> bool \<times> 'w" where
  "FirmwareAudio_Play C samples sample_rate w =
     (if \<not> codec_present C then (False, w)
      else
        (let (opened, w1) = codec_open C sample_rate w
         in if \<not> opened then (False, w1)
            else (let (written, w2) = codec_write C samples w1; (closed, w3) = codec_close C w2 in (written, w3))))"

definition FirmwareAudio_SetVolume :: "'w codec \<Rightarrow> int \<Rightarrow> 'w \<Rightarrow> 'w" where
  "FirmwareAudio_SetVolume C percent w = (if \<not> codec_present C then w else snd (codec_volume C percent w))"

definition HostAudio_SetVolume :: "int \<Rightarrow> int" where
  "HostAudio_SetVolume percent = clamp percent 0 100"

end
