(* ===== verification/Simulator_Kodi.thy ===== *)
theory Simulator_Kodi
  imports Kodi_Client
begin

text \<open>
  The simulator's stand-in for a Kodi (\<^verbatim>\<open>simulator/debug_kodi_backend.cpp\<close>): the mDNS browser and the WebSocket client
  that are transparent until a debug button arms them, and then answer the JSON-RPC calls of the Kodi module with
  canned replies. Composed with the model of \<^verbatim>\<open>KodiClient\<close> it is an environment of that model which is code of the
  repository, on top of another environment (the host's browser and WebSocket client).
\<close>

section \<open>Canned answers\<close>

definition kFakeHost :: string where "kFakeHost = ''192.0.2.1''"
definition kFakePort :: nat where "kFakePort = 9090"
definition kFakeUuid :: string where "kFakeUuid = ''simulated-kodi''"

definition CannedResult :: "string \<Rightarrow> string" where
  "CannedResult meth =
     (if meth = ''Application.GetProperties'' then ''{\"volume\":45,\"muted\":false,\"version\":{\"major\":21,\"minor\":2}}''
      else if meth = ''Player.GetActivePlayers'' then ''[{\"playerid\":1,\"type\":\"video\"}]''
      else if meth = ''Player.GetProperties'' then
        ''{\"speed\":1,\"percentage\":37.0,'' @
        ''\"time\":{\"hours\":0,\"minutes\":16,\"seconds\":39,\"milliseconds\":0},'' @
        ''\"totaltime\":{\"hours\":0,\"minutes\":45,\"seconds\":0,\"milliseconds\":0},\"canseek\":true}''
      else if meth = ''Player.GetItem'' then
        ''{\"item\":{\"title\":\"The One With The Simulator\",\"showtitle\":\"Simulated Show\",'' @
        ''\"season\":3,\"episode\":7,\"type\":\"episode\"}}''
      else if meth = ''VideoLibrary.GetMovies'' then
        ''{\"movies\":['' @
        ''{\"movieid\":1,\"title\":\"Simulated Movie One\",\"year\":2021,\"resume\":{\"position\":0,\"total\":0}},'' @
        ''{\"movieid\":2,\"title\":\"Simulated Movie Two\",\"year\":2019,'' @
        ''\"resume\":{\"position\":1830.0,\"total\":5400.0}}]}''
      else if meth = ''VideoLibrary.GetTVShows'' then
        ''{\"tvshows\":[{\"tvshowid\":1,\"title\":\"Simulated Show\",\"year\":2020,'' @
        ''\"episode\":16,\"watchedepisodes\":7}]}''
      else if meth = ''VideoLibrary.GetSeasons'' then
        ''{\"seasons\":['' @
        ''{\"season\":1,\"label\":\"Season 1\",\"episode\":8,\"watchedepisodes\":8},'' @
        ''{\"season\":2,\"label\":\"Season 2\",\"episode\":8,\"watchedepisodes\":0}]}''
      else if meth = ''VideoLibrary.GetEpisodes'' then
        ''{\"episodes\":['' @
        ''{\"episodeid\":1,\"episode\":1,\"title\":\"Simulated Pilot\",\"resume\":{\"position\":0,\"total\":0}},'' @
        ''{\"episodeid\":2,\"episode\":2,\"title\":\"Simulated Episode Two\",'' @
        ''\"resume\":{\"position\":600.0,\"total\":1320.0}}]}''
      else if meth = ''AudioLibrary.GetArtists'' then
        ''{\"artists\":[{\"artistid\":1,\"artist\":\"Simulated Artist\",\"label\":\"Simulated Artist\"}]}''
      else if meth = ''AudioLibrary.GetAlbums'' then
        ''{\"albums\":[{\"albumid\":1,\"title\":\"Simulated Album\",\"label\":\"Simulated Album\",\"year\":2022}]}''
      else if meth = ''AudioLibrary.GetSongs'' then
        ''{\"songs\":['' @
        ''{\"songid\":1,\"track\":1,\"title\":\"Simulated Track One\",\"label\":\"Simulated Track One\",\"duration\":210},'' @
        ''{\"songid\":2,\"track\":2,\"title\":\"Simulated Track Two\",\"label\":\"Simulated Track Two\",\"duration\":185}]}''
      else if meth = ''Files.GetSources'' then
        ''{\"sources\":[{\"file\":\"/simulated/media/\",\"label\":\"Simulated Media\"}]}''
      else if meth = ''Files.GetDirectory'' then
        ''{\"files\":['' @
        ''{\"file\":\"/simulated/media/Simulated Folder/\",\"filetype\":\"directory\",\"label\":\"Simulated Folder\"},'' @
        ''{\"file\":\"/simulated/media/Simulated File.mkv\",\"filetype\":\"file\",\"label\":\"Simulated File\"}]}''
      else if meth = ''PVR.GetChannelGroups'' then
        ''{\"channelgroups\":[{\"channelgroupid\":1,\"channeltype\":\"tv\",\"label\":\"Simulated Channels\"}]}''
      else if meth = ''PVR.GetChannels'' then
        ''{\"channels\":[{\"channelid\":1,\"channeltype\":\"tv\",\"label\":\"Simulated Channel One\"},'' @
        ''{\"channelid\":2,\"channeltype\":\"tv\",\"label\":\"Simulated Channel Two\"}]}''
      else [])"

section \<open>The WebSocket client\<close>

text \<open>
  \<open>fc_real\<close> says that \<^verbatim>\<open>real_\<close> is set. The world of the Kodi module is the armed flag, the client its factory made
  last, and the world \<open>'r\<close> of the environment below, whose operations \<open>R\<close> are the host's.
\<close>

record fake_client =
  fc_fake :: bool
  fc_open :: bool
  fc_real :: bool
  fc_replies :: "string list"

record 'r sim_world =
  sw_armed :: bool
  sw_client :: fake_client
  sw_real :: 'r

definition MakeWebSocketClient :: fake_client where
  "MakeWebSocketClient = \<lparr>fc_fake = False, fc_open = False, fc_real = False, fc_replies = []\<rparr>"

definition sw_update :: "(fake_client \<Rightarrow> fake_client) \<Rightarrow> 'r sim_world \<Rightarrow> 'r sim_world" where
  "sw_update f w = w\<lparr>sw_client := f (sw_client w)\<rparr>"

text \<open>Replacing \<^verbatim>\<open>real_\<close> destroys the client it held, which closes it.\<close>

definition Debug_Connect :: "'r kodi_env \<Rightarrow> string \<Rightarrow> 'r sim_world \<Rightarrow> bool \<times> 'r sim_world" where
  "Debug_Connect R url w =
     (let fake = (sw_armed w \<and> has_infix ''/jsonrpc'' url);
          w1 = sw_update (\<lambda>c. c\<lparr>fc_fake := fake\<rparr>) w
      in if \<not> fake then
           (let r = (if fc_real (sw_client w1) then k_close R (sw_real w1) else sw_real w1);
                (ok, r') = k_connect R url r
            in (ok, (sw_update (\<lambda>c. c\<lparr>fc_real := True\<rparr>) w1)\<lparr>sw_real := r'\<rparr>))
         else (True, sw_update (\<lambda>c. c\<lparr>fc_open := True\<rparr>) w1))"

definition fake_reply :: "json \<Rightarrow> json \<Rightarrow> json" where
  "fake_reply ident result = json_set ''result'' result (jobj [(''jsonrpc'', JStr ''2.0''), (''id'', ident)])"

text \<open>
  \<^const>\<open>None\<close>: the method is not a string, or the library cannot read a canned text. The first throws, the second
  dumps a discarded value; neither occurs with the requests of \<^verbatim>\<open>KodiClient\<close> and the texts above.
\<close>

definition Debug_reply :: "json_lib \<Rightarrow> string \<Rightarrow> string list option" where
  "Debug_reply L text =
     (case json_parse L text of
        None \<Rightarrow> Some []
      | Some request \<Rightarrow>
          (if is_object request \<and> json_find ''id'' request \<noteq> None \<and> json_find ''method'' request \<noteq> None then
             (case (json_find ''id'' request, find_string ''method'' request) of
                (Some ident, Some meth) \<Rightarrow>
                  (let result = CannedResult meth in
                   if result = [] then Some []
                   else map_option (\<lambda>v. [json_dump L (fake_reply ident v)]) (json_parse L result))
              | _ \<Rightarrow> None)
           else Some []))"

definition Debug_SendText :: "'r kodi_env \<Rightarrow> json_lib \<Rightarrow> string \<Rightarrow> 'r sim_world \<Rightarrow> (bool \<times> 'r sim_world) option" where
  "Debug_SendText R L text w =
     (let c = sw_client w in
      if \<not> fc_fake c then
        (if fc_real c then (let (ok, r') = k_send R text (sw_real w) in Some (ok, w\<lparr>sw_real := r'\<rparr>)) else Some (False, w))
      else if \<not> fc_open c \<or> \<not> sw_armed w then Some (False, w)
      else map_option (\<lambda>replies. (True, sw_update (\<lambda>c. c\<lparr>fc_replies := fc_replies c @ replies\<rparr>) w)) (Debug_reply L text))"

definition Debug_ReceiveText :: "'r kodi_env \<Rightarrow> int \<Rightarrow> 'r sim_world \<Rightarrow> string option \<times> 'r sim_world" where
  "Debug_ReceiveText R timeout_ms w =
     (let c = sw_client w in
      if \<not> fc_fake c then
        (if fc_real c then (let (t, r') = k_recv R timeout_ms (sw_real w) in (t, w\<lparr>sw_real := r'\<rparr>)) else (None, w))
      else if \<not> fc_open c \<or> \<not> sw_armed w then (None, w)
      else if timeout_ms \<noteq> 0 then
        (case fc_replies c of
           [] \<Rightarrow> (None, w)
         | frame # rest \<Rightarrow> (Some frame, sw_update (\<lambda>c. c\<lparr>fc_replies := rest\<rparr>) w))
      else (None, w))"

definition Debug_IsOpen :: "'r kodi_env \<Rightarrow> 'r sim_world \<Rightarrow> bool" where
  "Debug_IsOpen R w =
     (let c = sw_client w in
      if \<not> fc_fake c then fc_real c \<and> k_is_open R (sw_real w) else fc_open c \<and> sw_armed w)"

definition Debug_Close :: "'r kodi_env \<Rightarrow> 'r sim_world \<Rightarrow> 'r sim_world" where
  "Debug_Close R w =
     (let w1 = (if fc_real (sw_client w) then w\<lparr>sw_real := k_close R (sw_real w)\<rparr> else w)
      in sw_update (\<lambda>c. c\<lparr>fc_open := False\<rparr>) w1)"

section \<open>The browser and the button\<close>

definition fake_service :: mdns_service where
  "fake_service =
     \<lparr>instance_name = ''Simulated Kodi'', hostname = [], address = kFakeHost, mdns_port = kFakePort,
      txt_records = [(''uuid'', kFakeUuid)]\<rparr>"

definition Debug_Browse :: "'r kodi_env \<Rightarrow> string \<Rightarrow> ms \<Rightarrow> 'r sim_world \<Rightarrow> mdns_service list \<times> 'r sim_world" where
  "Debug_Browse R service_type timeout w =
     (if sw_armed w \<and> service_type = kServiceType then ([fake_service], w)
      else (let (found, r') = k_browse R service_type timeout (sw_real w) in (found, w\<lparr>sw_real := r'\<rparr>)))"

text \<open>\<open>Toggle\<close>, once \<open>SetClient\<close> has run: the flag flips, and the client is asked to reconnect.\<close>

definition Toggle :: "'r sim_world \<Rightarrow> kodi_client_op list \<times> 'r sim_world" where
  "Toggle w = ([KTrigger], w\<lparr>sw_armed := \<not> sw_armed w\<rparr>)"

section \<open>The simulator's environment of the Kodi module\<close>

text \<open>
  The factory makes a client per connection. \<open>taps\<close> says whether the button was pressed while the module's thread
  was blocked, so the armed flag changes between any two of its calls.
\<close>

definition in_real :: "('r \<Rightarrow> 'a \<times> 'r) \<Rightarrow> 'r sim_world \<Rightarrow> 'a \<times> 'r sim_world" where
  "in_real f w = (let (x, r') = f (sw_real w) in (x, w\<lparr>sw_real := r'\<rparr>))"

definition sim_arrivals ::
  "'r kodi_env \<Rightarrow> ('r \<Rightarrow> bool \<times> 'r) \<Rightarrow> 'r sim_world \<Rightarrow> kodi_client_op list \<times> 'r sim_world" where
  "sim_arrivals R taps w =
     (let (ops, w1) = in_real (k_arrivals R) w;
          (tapped, w2) = in_real taps w1;
          (ops', w3) = (if tapped then Toggle w2 else ([], w2))
      in (ops @ ops', w3))"

definition sim_env :: "'r kodi_env \<Rightarrow> json_lib \<Rightarrow> ('r \<Rightarrow> bool \<times> 'r) \<Rightarrow> 'r sim_world kodi_env" where
  "sim_env R L taps =
     \<lparr>k_connect = \<lambda>url w. Debug_Connect R url (w\<lparr>sw_client := MakeWebSocketClient\<rparr>),
      k_send = \<lambda>text w. (case Debug_SendText R L text w of None \<Rightarrow> (False, w) | Some r \<Rightarrow> r),
      k_recv = Debug_ReceiveText R, k_close = Debug_Close R, k_is_open = Debug_IsOpen R,
      k_now = in_real (k_now R), k_wait = \<lambda>d w. w\<lparr>sw_real := k_wait R d (sw_real w)\<rparr>,
      k_stop = \<lambda>w. k_stop R (sw_real w), k_storage = \<lambda>w. k_storage R (sw_real w),
      k_browse = Debug_Browse R, k_arrivals = sim_arrivals R taps\<rparr>"

section \<open>What the four calls of a poll are answered\<close>

definition canned_value :: "string \<Rightarrow> json" where
  "canned_value meth =
     (if meth = ''Application.GetProperties'' then
        jobj [(''volume'', JInt 45), (''muted'', JBool False),
          (''version'', jobj [(''major'', JInt 21), (''minor'', JInt 2)])]
      else if meth = ''Player.GetActivePlayers'' then
        JArr [jobj [(''playerid'', JInt 1), (''type'', JStr ''video'')]]
      else if meth = ''Player.GetProperties'' then
        jobj [(''speed'', JInt 1), (''percentage'', JFloat 37),
          (''time'', jobj [(''hours'', JInt 0), (''minutes'', JInt 16), (''seconds'', JInt 39), (''milliseconds'', JInt 0)]),
          (''totaltime'', jobj [(''hours'', JInt 0), (''minutes'', JInt 45), (''seconds'', JInt 0), (''milliseconds'', JInt 0)]),
          (''canseek'', JBool True)]
      else
        jobj [(''item'', jobj [(''title'', JStr ''The One With The Simulator''), (''showtitle'', JStr ''Simulated Show''),
          (''season'', JInt 3), (''episode'', JInt 7), (''type'', JStr ''episode'')])])"

definition poll_calls :: "(string \<times> string) list" where
  "poll_calls =
     [(''Application.GetProperties'', ''{\"properties\":[\"volume\",\"muted\",\"version\"]}''),
      (''Player.GetActivePlayers'', []),
      (''Player.GetProperties'', properties_params 1),
      (''Player.GetItem'', item_params 1)]"

text \<open>
  What is asked of the JSON library: it reads the canned texts as the values they denote, and reads back the
  messages of one poll, whose identifiers follow \<open>n\<close>.
\<close>

definition call_reads_back :: "json_lib \<Rightarrow> int \<Rightarrow> string \<times> string \<Rightarrow> bool" where
  "call_reads_back L ident c \<longleftrightarrow>
     json_parse L (json_dump L (rpc_request L ident (fst c) (snd c))) = Some (rpc_request L ident (fst c) (snd c)) \<and>
     json_parse L (CannedResult (fst c)) = Some (canned_value (fst c)) \<and>
     json_reads_back L (fake_reply (JInt ident) (canned_value (fst c)))"

definition poll_reads_back :: "json_lib \<Rightarrow> int \<Rightarrow> bool" where
  "poll_reads_back L n \<longleftrightarrow>
     call_reads_back L (n + 1) (poll_calls ! 0) \<and> call_reads_back L (n + 2) (poll_calls ! 1) \<and>
     call_reads_back L (n + 3) (poll_calls ! 2) \<and> call_reads_back L (n + 4) (poll_calls ! 3)"

text \<open>
  A quiet spell: no stop request, no press of the button, and two readings of the clock one after the other are
  less than a call's timeout apart. Other threads may still queue commands.
\<close>

definition quiet :: "'r kodi_env \<Rightarrow> ('r \<Rightarrow> bool \<times> 'r) \<Rightarrow> bool" where
  "quiet R taps \<longleftrightarrow>
     (\<forall>r. \<not> k_stop R r \<and> \<not> fst (taps r) \<and> fst (k_now R (snd (k_now R r))) < fst (k_now R r) + kCallTimeoutMs)"

lemma fake_reply_fields:
  "is_object (fake_reply i v)" "json_find ''id'' (fake_reply i v) = Some i"
  "json_find ''result'' (fake_reply i v) = Some v"
  by (simp_all add: fake_reply_def jobj_def)

lemma canned_depth: "json_depth (fake_reply (JInt i) (canned_value m)) \<le> 32"
  by (simp add: fake_reply_def canned_value_def jobj_def)

lemma reply_reads_back:
  assumes "call_reads_back L i c"
  shows "TryParseJsonObject L (json_dump L (fake_reply (JInt i) (canned_value (fst c)))) =
           Some (fake_reply (JInt i) (canned_value (fst c)))"
    and "result_of L (json_dump L (fake_reply (JInt i) (canned_value (fst c)))) = Some (canned_value (fst c))"
proof -
  show parse: "TryParseJsonObject L (json_dump L (fake_reply (JInt i) (canned_value (fst c)))) =
           Some (fake_reply (JInt i) (canned_value (fst c)))"
    using assms by (intro TryParse_reads_back) (simp_all add: call_reads_back_def fake_reply_fields canned_depth)
  then show "result_of L (json_dump L (fake_reply (JInt i) (canned_value (fst c)))) = Some (canned_value (fst c))"
    by (auto simp: TryParseJsonObject_def result_of_def fake_reply_fields split: option.splits if_splits)
qed

lemma request_fields:
  "is_object (rpc_request L i m p)" "json_find ''id'' (rpc_request L i m p) = Some (JInt i)"
  "json_find ''method'' (rpc_request L i m p) = Some (JStr m)"
  by (auto simp: rpc_request_def jobj_def Let_def split: option.splits)

text \<open>The requests of the Kodi module never reach the cases in which the fake throws.\<close>

lemma Debug_reply_request:
  assumes "call_reads_back L i c" "CannedResult (fst c) \<noteq> []"
  shows "Debug_reply L (json_dump L (rpc_request L i (fst c) (snd c))) =
           Some [json_dump L (fake_reply (JInt i) (canned_value (fst c)))]"
  using assms by (simp add: Debug_reply_def call_reads_back_def request_fields find_string_def)

section \<open>One call\<close>

text \<open>What the dashboard and the loop read, and the rest of the state a poll depends on.\<close>

definition face :: "'w kodi \<Rightarrow> _" where
  "face s = (k_state s, k_published s, library_busy s, identity_from_notification s, player_stop_count s, k_ws_open s)"

definition on_fake :: "'r sim_world kodi \<Rightarrow> bool" where
  "on_fake s \<longleftrightarrow> k_ws_open s \<and> \<not> library_busy s \<and> sw_armed (k_world s) \<and>
     sw_client (k_world s) = \<lparr>fc_fake = True, fc_open = True, fc_real = False, fc_replies = []\<rparr>"

lemma client_step_face:
  "face (kodi_client_step op s) = face s \<and> next_rpc_id (kodi_client_step op s) = next_rpc_id s \<and>
   k_world (kodi_client_step op s) = k_world s"
  by (cases op) (simp_all add: face_def Kodi_EnqueueCommand_def EnqueueLibraryRequest_def Kodi_TriggerReconnect_def)

lemma client_steps_face:
  "face (fold kodi_client_step ops s) = face s \<and> next_rpc_id (fold kodi_client_step ops s) = next_rpc_id s \<and>
   k_world (fold kodi_client_step ops s) = k_world s"
  by (induction ops arbitrary: s) (simp_all add: client_step_face)

lemma absorb_face:
  assumes "quiet R taps"
  shows "face (k_absorb (sim_env R L taps) s) = face s"
    and "next_rpc_id (k_absorb (sim_env R L taps) s) = next_rpc_id s"
    and "sw_armed (k_world (k_absorb (sim_env R L taps) s)) = sw_armed (k_world s)"
    and "sw_client (k_world (k_absorb (sim_env R L taps) s)) = sw_client (k_world s)"
  using assms
  by (simp_all add: k_absorb_def sim_env_def sim_arrivals_def in_real_def client_steps_face case_prod_beta Let_def quiet_def)
     (simp_all add: face_def)

lemma face_iff:
  "face s' = face s \<longleftrightarrow> k_state s' = k_state s \<and> k_published s' = k_published s \<and> library_busy s' = library_busy s \<and>
     identity_from_notification s' = identity_from_notification s \<and> player_stop_count s' = player_stop_count s \<and>
     k_ws_open s' = k_ws_open s"
  by (auto simp: face_def)

text \<open>Sending a request to the armed fake leaves its reply waiting; receiving takes it.\<close>

lemma fake_send:
  assumes "quiet R taps" "on_fake s" "call_reads_back L i c" "CannedResult (fst c) \<noteq> []"
  obtains s' where "kdo_send (sim_env R L taps) (json_dump L (rpc_request L i (fst c) (snd c))) s = (True, s')"
    "face s' = face s" "next_rpc_id s' = next_rpc_id s" "sw_armed (k_world s')"
    "sw_client (k_world s') = \<lparr>fc_fake = True, fc_open = True, fc_real = False,
       fc_replies = [json_dump L (fake_reply (JInt i) (canned_value (fst c)))]\<rparr>"
proof
  let ?reply = "json_dump L (fake_reply (JInt i) (canned_value (fst c)))"
  let ?w = "sw_update (\<lambda>cl. cl\<lparr>fc_replies := fc_replies cl @ [?reply]\<rparr>) (k_world s)"
  let ?s' = "k_absorb (sim_env R L taps) (s\<lparr>k_world := ?w\<rparr>)"
  have "Debug_SendText R L (json_dump L (rpc_request L i (fst c) (snd c))) (k_world s) = Some (True, ?w)"
    using assms(2) by (simp add: Debug_SendText_def on_fake_def Debug_reply_request [OF assms(3,4)])
  then have "k_send (sim_env R L taps) (json_dump L (rpc_request L i (fst c) (snd c))) (k_world s) = (True, ?w)"
    by (simp add: sim_env_def)
  then show "kdo_send (sim_env R L taps) (json_dump L (rpc_request L i (fst c) (snd c))) s = (True, ?s')"
    by (simp add: kdo_send_def)
  show "face ?s' = face s" by (simp add: absorb_face [OF assms(1)]) (simp add: face_def)
  show "next_rpc_id ?s' = next_rpc_id s" by (simp add: absorb_face [OF assms(1)])
  show "sw_armed (k_world ?s')" using assms(2) by (simp add: absorb_face [OF assms(1)] on_fake_def sw_update_def)
  show "sw_client (k_world ?s') = \<lparr>fc_fake = True, fc_open = True, fc_real = False, fc_replies = [?reply]\<rparr>"
    using assms(2) by (simp add: absorb_face [OF assms(1)] on_fake_def sw_update_def)
qed

lemma fake_recv:
  assumes "quiet R taps" "sw_armed (k_world s)" "t \<noteq> 0"
    "sw_client (k_world s) = \<lparr>fc_fake = True, fc_open = True, fc_real = False, fc_replies = [reply]\<rparr>"
  obtains s' where "kdo_recv (sim_env R L taps) t s = (Some reply, s')"
    "face s' = face s" "next_rpc_id s' = next_rpc_id s" "sw_armed (k_world s')"
    "sw_client (k_world s') = \<lparr>fc_fake = True, fc_open = True, fc_real = False, fc_replies = []\<rparr>"
proof
  let ?w = "sw_update (\<lambda>cl. cl\<lparr>fc_replies := []\<rparr>) (k_world s)"
  let ?s' = "k_absorb (sim_env R L taps) (s\<lparr>k_world := ?w\<rparr>)"
  have "k_recv (sim_env R L taps) t (k_world s) = (Some reply, ?w)"
    using assms by (simp add: sim_env_def Debug_ReceiveText_def)
  then show "kdo_recv (sim_env R L taps) t s = (Some reply, ?s')" by (simp add: kdo_recv_def)
  show "face ?s' = face s" by (simp add: absorb_face [OF assms(1)]) (simp add: face_def)
  show "next_rpc_id ?s' = next_rpc_id s" by (simp add: absorb_face [OF assms(1)])
  show "sw_armed (k_world ?s')" using assms(2) by (simp add: absorb_face [OF assms(1)] sw_update_def)
  show "sw_client (k_world ?s') = \<lparr>fc_fake = True, fc_open = True, fc_real = False, fc_replies = []\<rparr>"
    using assms(4) by (simp add: absorb_face [OF assms(1)] sw_update_def)
qed

lemma sim_now:
  "kdo_now (sim_env R L taps) s =
     (fst (k_now R (sw_real (k_world s))),
      s\<lparr>k_world := (k_world s)\<lparr>sw_real := snd (k_now R (sw_real (k_world s)))\<rparr>\<rparr>)"
  by (simp add: kdo_now_def sim_env_def in_real_def case_prod_beta Let_def)

lemma own_reply:
  assumes "call_reads_back L i c" "- (2 ^ 31) \<le> i" "i < 2 ^ 31" "\<not> library_busy s"
  shows "handle_frame L i (json_dump L (fake_reply (JInt i) (canned_value (fst c)))) s = (True, s)"
  using assms by (simp add: handle_frame_def reply_reads_back find_int_def fake_reply_fields SetLibraryBusy_def)

lemma quiet_now:
  "quiet R taps \<Longrightarrow> fst (k_now R (snd (k_now R r))) < fst (k_now R r) + kCallTimeoutMs"
  by (simp add: quiet_def)

lemma quiet_stopping: "quiet R taps \<Longrightarrow> \<not> k_stopping (sim_env R L taps) s"
  by (simp add: quiet_def k_stopping_def sim_env_def)

lemma fake_call:
  assumes Q: "quiet R taps" and F: "on_fake s" and C: "call_reads_back L (next_rpc_id s + 1) c"
    and N: "CannedResult (fst c) \<noteq> []" and I: "0 \<le> next_rpc_id s" "next_rpc_id s + 1 < 2 ^ 31"
  obtains s' where
    "Call (sim_env R L taps) L cfg (fst c) (snd c) kCallTimeoutMs False s =
       Some (Some (json_dump L (fake_reply (JInt (next_rpc_id s + 1)) (canned_value (fst c)))), s')"
    "face s' = face s" "on_fake s'" "next_rpc_id s' = next_rpc_id s + 1"
proof -
  let ?E = "sim_env R L taps" and ?i = "next_rpc_id s + 1"
  let ?reply = "json_dump L (fake_reply (JInt ?i) (canned_value (fst c)))"
  let ?s1 = "s\<lparr>last_call_timed_out := False, next_rpc_id := ?i\<rparr>"
  have F1: "on_fake ?s1" using F by (simp add: on_fake_def)
  obtain s2 where s2: "kdo_send ?E (json_dump L (rpc_request L ?i (fst c) (snd c))) ?s1 = (True, s2)"
    "face s2 = face ?s1" "next_rpc_id s2 = next_rpc_id ?s1" "sw_armed (k_world s2)"
    "sw_client (k_world s2) = \<lparr>fc_fake = True, fc_open = True, fc_real = False, fc_replies = [?reply]\<rparr>"
    by (rule fake_send [OF Q F1 C N])
  define start s3 where "start = fst (kdo_now ?E s2)" and "s3 = snd (kdo_now ?E s2)"
  define now s4 where "now = fst (kdo_now ?E s3)" and "s4 = snd (kdo_now ?E s3)"
  have now3: "kdo_now ?E s2 = (start, s3)" and now4: "kdo_now ?E s3 = (now, s4)"
    by (simp_all add: start_def s3_def now_def s4_def)
  have before: "now < start + kCallTimeoutMs"
    using quiet_now [OF Q] by (simp add: start_def s3_def now_def sim_now)
  have s4: "face s4 = face s2" "next_rpc_id s4 = next_rpc_id s2" "sw_armed (k_world s4)"
    "sw_client (k_world s4) = \<lparr>fc_fake = True, fc_open = True, fc_real = False, fc_replies = [?reply]\<rparr>"
    using s2(4,5) by (simp_all add: s4_def s3_def sim_now face_def)
  have pos: "max (start + kCallTimeoutMs - now) 1 \<noteq> 0" by simp
  obtain s5 where s5: "kdo_recv ?E (max (start + kCallTimeoutMs - now) 1) s4 = (Some ?reply, s5)"
    "face s5 = face s4" "next_rpc_id s5 = next_rpc_id s4" "sw_armed (k_world s5)"
    "sw_client (k_world s5) = \<lparr>fc_fake = True, fc_open = True, fc_real = False, fc_replies = []\<rparr>"
    by (rule fake_recv [OF Q s4(3) pos s4(4)])
  have face5: "face s5 = face s" using s5(2) s4(1) s2(2) by (simp add: face_def)
  then have F5: "on_fake s5" using F s5(4,5) by (simp add: on_fake_def face_def)
  then have "handle_frame L ?i ?reply s5 = (True, s5)"
    using I by (intro own_reply [OF C]) (auto simp: on_fake_def)
  then have "call_loop ?E L ?i (start + kCallTimeoutMs) b False s3 = Some (Some ?reply, s5)" for b
    using before s5(1) now4 by (subst call_loop.simps) (simp add: quiet_stopping [OF Q])
  then have "Call ?E L cfg (fst c) (snd c) kCallTimeoutMs False s = Some (Some ?reply, s5)"
    using F s2(1) now3 by (simp add: Call_def on_fake_def)
  moreover have "next_rpc_id s5 = ?i" using s5(3) s4(2) s2(3) by simp
  ultimately show thesis using that face5 F5 by blast
qed

section \<open>One poll\<close>

definition simulated_now_playing :: kodi_now_playing where
  "simulated_now_playing =
     \<lparr>np_playback = kPlaying, np_speed = 1, np_title = ''The One With The Simulator'', np_show_title = ''Simulated Show'',
      np_season = 3, np_episode = 7, np_media_type = ''episode'', np_position_ms = 999000, np_duration_ms = 2700000,
      np_percent = 37, np_can_seek = True\<rparr>"

lemma canned_version: "to_string 21 @ ''.'' @ to_string 2 = ''21.2''"
  by code_simp

lemma canned_app:
  assumes "result_of L t = Some (canned_value ''Application.GetProperties'')"
  shows "snd (apply_app_properties L t s) =
           s\<lparr>k_state := (k_state s)\<lparr>volume := 45, muted := False, app_version := ''21.2''\<rparr>\<rparr>"
  using assms canned_version
  by (simp add: apply_app_properties_def canned_value_def jobj_def find_int_def find_bool_def find_object_def GetInt_def
      ClampVolume_def kMaxVolume_def Let_def)

lemma canned_players:
  "result_of L t = Some (canned_value ''Player.GetActivePlayers'') \<Longrightarrow> active_player_id L t = Some 1"
  by (simp add: active_player_id_def canned_value_def jobj_def GetInt_def find_int_def)

lemma canned_properties:
  assumes "result_of L t = Some (canned_value ''Player.GetProperties'')"
  shows "apply_player_properties rnd L t empty_now_playing =
           empty_now_playing\<lparr>np_speed := 1, np_playback := kPlaying, np_percent := 37, np_position_ms := 999000,
             np_duration_ms := 2700000, np_can_seek := True\<rparr>"
  using assms
  by (simp add: apply_player_properties_def canned_value_def jobj_def GetInt_def find_int_def ClampSpeed_def kMaxSpeed_def
      PlaybackFromSpeed_def GetDouble_def find_number_def object_or_empty_def MillisFromTimeObject_def GetBoundedInt_def
      clamp_def kMaxTimeFieldValue_def GetBool_def find_bool_def Let_def)

lemma canned_item:
  assumes "result_of L t = Some (canned_value ''Player.GetItem'')"
  shows "apply_player_item L t (empty_now_playing\<lparr>np_speed := 1, np_playback := kPlaying, np_percent := 37,
           np_position_ms := 999000, np_duration_ms := 2700000, np_can_seek := True\<rparr>) = simulated_now_playing"
  using assms
  by (simp add: apply_player_item_def canned_value_def jobj_def ApplyItemFields_def GetString_def find_string_def
      GetBoundedInt_def GetInt_def find_int_def clamp_def kMaxSeasonOrEpisode_def simulated_now_playing_def
      empty_now_playing_def Let_def)

lemma calls_have_answers: "c \<in> set poll_calls \<Longrightarrow> CannedResult (fst c) \<noteq> []"
  by (auto simp: poll_calls_def CannedResult_def)

lemma poll_calls_nth:
  "poll_calls ! 0 = (''Application.GetProperties'', ''{\"properties\":[\"volume\",\"muted\",\"version\"]}'')"
  "poll_calls ! 1 = (''Player.GetActivePlayers'', [])"
  "poll_calls ! 2 = (''Player.GetProperties'', properties_params 1)"
  "poll_calls ! 3 = (''Player.GetItem'', item_params 1)"
  "CannedResult (fst (poll_calls ! 0)) \<noteq> []" "CannedResult (fst (poll_calls ! 1)) \<noteq> []"
  "CannedResult (fst (poll_calls ! 2)) \<noteq> []" "CannedResult (fst (poll_calls ! 3)) \<noteq> []"
  "poll_calls ! Suc 0 = (''Player.GetActivePlayers'', [])"
  by (simp_all add: poll_calls_def CannedResult_def)

text \<open>The last two calls of the poll, and the publication.\<close>

lemma fake_poll_player:
  assumes Q: "quiet R taps" and F: "on_fake s" and I: "0 \<le> next_rpc_id s" "next_rpc_id s + 2 < 2 ^ 31"
    and C: "call_reads_back L (next_rpc_id s + 1) (poll_calls ! 2)" "call_reads_back L (next_rpc_id s + 2) (poll_calls ! 3)"
    and E: "now_playing (k_state s) = empty_now_playing" "\<not> identity_from_notification s"
  obtains s' where "poll_player rnd (sim_env R L taps) L cfg tolerate changed 1 s = Some (True, s')"
    "k_state s' = (k_state s)\<lparr>now_playing := simulated_now_playing\<rparr>"
    "k_published s' = k_published s @ [KNowPlayingChanged]" "on_fake s'"
proof -
  obtain s1 where s1: "Call (sim_env R L taps) L cfg (fst (poll_calls ! 2)) (snd (poll_calls ! 2)) kCallTimeoutMs False s =
       Some (Some (json_dump L (fake_reply (JInt (next_rpc_id s + 1)) (canned_value (fst (poll_calls ! 2))))), s1)"
    "face s1 = face s" "on_fake s1" "next_rpc_id s1 = next_rpc_id s + 1"
    using fake_call [OF Q F C(1) poll_calls_nth(7)] I by auto
  have C2: "call_reads_back L (next_rpc_id s1 + 1) (poll_calls ! 3)" using C(2) s1(4) by (simp add: add.assoc)
  obtain s2 where s2: "Call (sim_env R L taps) L cfg (fst (poll_calls ! 3)) (snd (poll_calls ! 3)) kCallTimeoutMs False s1 =
       Some (Some (json_dump L (fake_reply (JInt (next_rpc_id s1 + 1)) (canned_value (fst (poll_calls ! 3))))), s2)"
    "face s2 = face s1" "on_fake s2" "next_rpc_id s2 = next_rpc_id s1 + 1"
    using fake_call [OF Q s1(3) C2 poll_calls_nth(8)] I s1(4) by auto
  let ?props = "json_dump L (fake_reply (JInt (next_rpc_id s + 1)) (canned_value (fst (poll_calls ! 2))))"
  let ?item = "json_dump L (fake_reply (JInt (next_rpc_id s1 + 1)) (canned_value (fst (poll_calls ! 3))))"
  have f: "face s2 = face s" using s1(2) s2(2) by simp
  have props: "apply_player_properties rnd L ?props empty_now_playing =
      empty_now_playing\<lparr>np_speed := 1, np_playback := kPlaying, np_percent := 37, np_position_ms := 999000,
             np_duration_ms := 2700000, np_can_seek := True\<rparr>"
    by (rule canned_properties, unfold reply_reads_back(2) [OF C(1)]) (simp add: poll_calls_nth)
  have item: "apply_player_item L ?item (empty_now_playing\<lparr>np_speed := 1, np_playback := kPlaying, np_percent := 37,
             np_position_ms := 999000, np_duration_ms := 2700000, np_can_seek := True\<rparr>) = simulated_now_playing"
    by (rule canned_item, unfold reply_reads_back(2) [OF C2]) (simp add: poll_calls_nth)
  have new: "simulated_now_playing \<noteq> empty_now_playing"
    by (simp add: simulated_now_playing_def empty_now_playing_def)
  have tail: "apply_poll rnd L ?props ?item changed s2 = k_publish KNowPlayingChanged (with_np simulated_now_playing s2)"
    using f E props item new by (simp add: apply_poll_def face_iff publish_if_def Let_def)
  have "poll_player rnd (sim_env R L taps) L cfg tolerate changed 1 s =
          Some (True, k_publish KNowPlayingChanged (with_np simulated_now_playing s2))"
    using s1(1) s2(1) f tail by (simp add: poll_player_def poll_calls_nth face_iff)
  then show thesis
    by (rule that) (use f s2(3) in \<open>simp_all add: face_iff on_fake_def k_publish_def with_np_def\<close>)
qed

lemma fake_poll:
  assumes Q: "quiet R taps" and F: "on_fake s" and I: "0 \<le> next_rpc_id s" "next_rpc_id s + 4 < 2 ^ 31"
    and P: "poll_reads_back L (next_rpc_id s)"
    and E: "now_playing (k_state s) = empty_now_playing" "\<not> identity_from_notification s"
  obtains s' where "ReconcilePoll rnd (sim_env R L taps) L cfg tolerate s = Some (True, s')"
    "k_state s' = (k_state s)\<lparr>volume := 45, muted := False, app_version := ''21.2'', now_playing := simulated_now_playing\<rparr>"
    "k_published s' = k_published s @ [KNowPlayingChanged]" "on_fake s'"
proof -
  let ?E = "sim_env R L taps"
  have C: "call_reads_back L (next_rpc_id s + 1) (poll_calls ! 0)" "call_reads_back L (next_rpc_id s + 1 + 1) (poll_calls ! 1)"
    "call_reads_back L (next_rpc_id s + 2 + 1) (poll_calls ! 2)" "call_reads_back L (next_rpc_id s + 2 + 2) (poll_calls ! 3)"
    using P by (simp_all add: poll_reads_back_def add.assoc)
  obtain s1 where s1: "Call ?E L cfg (fst (poll_calls ! 0)) (snd (poll_calls ! 0)) kCallTimeoutMs False s =
       Some (Some (json_dump L (fake_reply (JInt (next_rpc_id s + 1)) (canned_value (fst (poll_calls ! 0))))), s1)"
    "face s1 = face s" "on_fake s1" "next_rpc_id s1 = next_rpc_id s + 1"
    using fake_call [OF Q F C(1) poll_calls_nth(5)] I by auto
  let ?app = "json_dump L (fake_reply (JInt (next_rpc_id s + 1)) (canned_value (fst (poll_calls ! 0))))"
  define changed s2 where "changed = fst (apply_app_properties L ?app (s1\<lparr>consecutive_poll_timeouts := 0\<rparr>))"
    and "s2 = snd (apply_app_properties L ?app (s1\<lparr>consecutive_poll_timeouts := 0\<rparr>))"
  have app: "apply_app_properties L ?app (s1\<lparr>consecutive_poll_timeouts := 0\<rparr>) = (changed, s2)"
    by (simp add: changed_def s2_def)
  have s2: "s2 = s1\<lparr>consecutive_poll_timeouts := 0,
      k_state := (k_state s1)\<lparr>volume := 45, muted := False, app_version := ''21.2''\<rparr>\<rparr>"
    unfolding s2_def
    by (subst canned_app, unfold reply_reads_back(2) [OF C(1)]) (simp_all add: poll_calls_nth)
  have F2: "on_fake s2" using s1(3) by (simp add: s2 on_fake_def)
  have C2: "call_reads_back L (next_rpc_id s2 + 1) (poll_calls ! 1)" using C(2) s1(4) by (simp add: s2)
  obtain s3 where s3: "Call ?E L cfg (fst (poll_calls ! 1)) (snd (poll_calls ! 1)) kCallTimeoutMs False s2 =
       Some (Some (json_dump L (fake_reply (JInt (next_rpc_id s2 + 1)) (canned_value (fst (poll_calls ! 1))))), s3)"
    "face s3 = face s2" "on_fake s3" "next_rpc_id s3 = next_rpc_id s2 + 1"
    using fake_call [OF Q F2 C2 poll_calls_nth(6)] I s1(4) by (auto simp: s2)
  let ?players = "json_dump L (fake_reply (JInt (next_rpc_id s2 + 1)) (canned_value (fst (poll_calls ! 1))))"
  have players: "active_player_id L ?players = Some 1"
    by (rule canned_players, unfold reply_reads_back(2) [OF C2]) (simp add: poll_calls_nth)
  have n3: "next_rpc_id s3 = next_rpc_id s + 2" using s3(4) s1(4) by (simp add: s2)
  have C3: "call_reads_back L (next_rpc_id s3 + 1) (poll_calls ! 2)" "call_reads_back L (next_rpc_id s3 + 2) (poll_calls ! 3)"
    using C(3,4) n3 by simp_all
  have E3: "now_playing (k_state s3) = empty_now_playing" "\<not> identity_from_notification s3"
    using E s3(2) s1(2) by (simp_all add: s2 face_iff)
  have I3: "0 \<le> next_rpc_id s3" "next_rpc_id s3 + 2 < 2 ^ 31" using I n3 by simp_all
  obtain s' where s': "poll_player rnd ?E L cfg tolerate changed 1 s3 = Some (True, s')"
    "k_state s' = (k_state s3)\<lparr>now_playing := simulated_now_playing\<rparr>"
    "k_published s' = k_published s3 @ [KNowPlayingChanged]" "on_fake s'"
    by (rule fake_poll_player [OF Q s3(3) I3 C3 E3])
  have "ReconcilePoll rnd ?E L cfg tolerate s = Some (True, s')"
    using s1(1) app s3(1) players s'(1) by (simp add: ReconcilePoll_def poll_calls_nth)
  then show thesis
    by (rule that) (use s'(2-4) s3(2) s1(2) in \<open>simp_all add: s2 face_iff\<close>)
qed

section \<open>From a press of the button to the screen\<close>

lemma has_infix_suffix: "has_infix n (a @ n)"
proof (induction a)
  case Nil
  show ?case by (cases n) simp_all
qed simp

lemma kodi_url_is_jsonrpc: "has_infix ''/jsonrpc'' (Kodi_WebSocketUrl host port)"
  using has_infix_suffix [of "''/jsonrpc''" "''ws://'' @ HostPortAuthority host port"] by (simp add: Kodi_WebSocketUrl_def)

definition selects_fake :: "'r kodi_env \<Rightarrow> bool" where
  "selects_fake R \<longleftrightarrow>
     (\<forall>r. case GetSetting (k_storage R r) kodi_kModuleId kInstanceUuidKey of
            None \<Rightarrow> True | Some v \<Rightarrow> vv_value v \<in> {[], kFakeUuid})"

lemma fake_service_chosen:
  "DeduplicateInstances (filter usable_service [fake_service]) = [fake_service]"
  "uuid \<in> {[], kFakeUuid} \<Longrightarrow> choose_instance uuid [fake_service] = Some fake_service"
proof -
  have "usable_service fake_service" by code_simp
  then show "DeduplicateInstances (filter usable_service [fake_service]) = [fake_service]"
    by (simp add: DeduplicateInstances_def)
qed (auto simp: choose_instance_def fake_service_def kFakeHost_def kFakeUuid_def)

text \<open>Armed, the module always finds a target: its manual host, or the fake the browser offers.\<close>

lemma armed_target:
  assumes Q: "quiet R taps" and A: "sw_armed (k_world s)" and U: "selects_fake R"
  obtains tgt s' where "ResolveTarget (sim_env R L taps) cfg s = (Some tgt, s')" "sw_armed (k_world s')"
    "library_busy s' = library_busy s" "next_rpc_id s' = next_rpc_id s" "k_published s' = k_published s"
proof (cases "\<exists>host. (case k_setting (sim_env R L taps) kHostKey s of
                      Some v \<Rightarrow> if vv_value v \<noteq> [] \<and> IsValidKodiHost (vv_value v) then Some (vv_value v) else None
                    | None \<Rightarrow> None) = Some host")
  case True
  then obtain host where "(case k_setting (sim_env R L taps) kHostKey s of
                      Some v \<Rightarrow> if vv_value v \<noteq> [] \<and> IsValidKodiHost (vv_value v) then Some (vv_value v) else None
                    | None \<Rightarrow> None) = Some host" ..
  then have "ResolveTarget (sim_env R L taps) cfg s =
      (Some \<lparr>target_host = host, target_port = kDefaultPort\<rparr>,
       s\<lparr>k_state := (k_state s)\<lparr>resolved_host := host, target_configured := True, selected_uuid := [], discovered := []\<rparr>\<rparr>)"
    by (simp add: ResolveTarget_def)
  then show thesis by (rule that) (use A in simp_all)
next
  case False
  let ?E = "sim_env R L taps" and ?s1 = "k_absorb (sim_env R L taps) s"
  have browse: "kdo_browse ?E (browse_timeout cfg) s = ([fake_service], ?s1)"
    using A by (simp add: kdo_browse_def sim_env_def Debug_Browse_def)
  define uuid where "uuid = (case k_setting ?E kInstanceUuidKey ?s1 of Some v \<Rightarrow> vv_value v | None \<Rightarrow> [])"
  have "uuid \<in> {[], kFakeUuid}"
    using U [unfolded selects_fake_def, rule_format, of "sw_real (k_world ?s1)"]
    by (auto simp: uuid_def k_setting_def sim_env_def split: option.splits)
  then have chosen: "choose_instance uuid [fake_service] = Some fake_service" by (rule fake_service_chosen)
  have frame: "library_busy ?s1 = library_busy s" "k_published ?s1 = k_published s"
    using absorb_face(1) [OF Q, of L s] by (simp_all add: face_iff)
  have none: "(case k_setting ?E kHostKey s of
                      Some v \<Rightarrow> if vv_value v \<noteq> [] \<and> IsValidKodiHost (vv_value v) then Some (vv_value v) else None
                    | None \<Rightarrow> None) = None"
    using False by simp
  have resolved: "ResolveTarget ?E cfg s =
      (Some \<lparr>target_host = address fake_service, target_port = mdns_port fake_service\<rparr>,
       ?s1\<lparr>k_state := (k_state ?s1)\<lparr>discovered := map discovered_entry [fake_service],
         resolved_host := HostPortAuthority (address fake_service) (mdns_port fake_service),
         target_configured := (uuid \<noteq> []), selected_uuid := uuid\<rparr>\<rparr>)"
    unfolding ResolveTarget_def none browse Let_def prod.case option.case fake_service_chosen(1)
      uuid_def [symmetric] chosen
    by simp
  show thesis using resolved by (rule that) (use A in \<open>simp_all add: absorb_face [OF Q] frame\<close>)
qed

text \<open>The fake accepts the connection.\<close>

lemma fake_connect:
  assumes Q: "quiet R taps" and A: "sw_armed (k_world s)" "has_infix ''/jsonrpc'' url" "\<not> library_busy s"
  obtains s' where "kdo_connect (sim_env R L taps) url s = (True, s')" "on_fake (s'\<lparr>k_ws_open := True\<rparr>)"
    "next_rpc_id s' = next_rpc_id s" "k_state s' = k_state s" "k_published s' = k_published s"
proof
  let ?w = "(k_world s)\<lparr>sw_client := \<lparr>fc_fake = True, fc_open = True, fc_real = False, fc_replies = []\<rparr>\<rparr>"
  let ?s' = "k_absorb (sim_env R L taps) (s\<lparr>k_world := ?w\<rparr>)"
  show "kdo_connect (sim_env R L taps) url s = (True, ?s')"
    using A by (simp add: kdo_connect_def sim_env_def Debug_Connect_def MakeWebSocketClient_def sw_update_def)
  have f: "face ?s' = face s" by (simp add: absorb_face [OF Q]) (simp add: face_def)
  have "library_busy ?s' = library_busy s" using f by (simp add: face_iff)
  then show "on_fake (?s'\<lparr>k_ws_open := True\<rparr>)"
    using A by (simp add: on_fake_def absorb_face [OF Q])
  show "next_rpc_id ?s' = next_rpc_id s" by (simp add: absorb_face [OF Q])
  show "k_state ?s' = k_state s" "k_published ?s' = k_published s" using f by (simp_all add: face_iff)
qed

text \<open>Connecting to the fake, from whatever target, and the first poll.\<close>

lemma fake_prime:
  assumes Q: "quiet R taps" and A: "sw_armed (k_world s)" "\<not> library_busy s"
    and I: "0 \<le> next_rpc_id s" "next_rpc_id s + 4 < 2 ^ 31" and P: "poll_reads_back L (next_rpc_id s)"
  obtains s' where "ConnectAndPrime rnd (sim_env R L taps) L cfg tgt s = Some (True, s')"
    "k_state s' = (k_state s)\<lparr>volume := 45, muted := False, app_version := ''21.2'', now_playing := simulated_now_playing\<rparr>"
    "k_published s' = k_published s @ [KNowPlayingChanged]" "on_fake s'"
proof -
  let ?E = "sim_env R L taps"
  obtain s1 where s1: "kdo_connect ?E (Kodi_WebSocketUrl (target_host tgt) (target_port tgt)) s = (True, s1)"
    "on_fake (s1\<lparr>k_ws_open := True\<rparr>)" "next_rpc_id s1 = next_rpc_id s" "k_state s1 = k_state s" "k_published s1 = k_published s"
    by (rule fake_connect [OF Q A(1) kodi_url_is_jsonrpc A(2)])
  let ?s2 = "(with_np empty_now_playing (s1\<lparr>k_ws_open := True\<rparr>))\<lparr>identity_from_notification := False\<rparr>"
  have F: "on_fake ?s2" using s1(2) by (simp add: on_fake_def with_np_def)
  have I2: "0 \<le> next_rpc_id ?s2" "next_rpc_id ?s2 + 4 < 2 ^ 31" "poll_reads_back L (next_rpc_id ?s2)"
    using I P s1(3) by (simp_all add: with_np_def)
  have E2: "now_playing (k_state ?s2) = empty_now_playing" "\<not> identity_from_notification ?s2"
    by (simp_all add: with_np_def)
  obtain s' where s': "ReconcilePoll rnd ?E L cfg False ?s2 = Some (True, s')"
    "k_state s' = (k_state ?s2)\<lparr>volume := 45, muted := False, app_version := ''21.2'', now_playing := simulated_now_playing\<rparr>"
    "k_published s' = k_published ?s2 @ [KNowPlayingChanged]" "on_fake s'"
    by (rule fake_poll [OF Q F I2 E2])
  have "ConnectAndPrime rnd ?E L cfg tgt s = Some (True, s')"
    using s1(1) s'(1) by (simp add: ConnectAndPrime_def quiet_stopping [OF Q])
  then show thesis
    by (rule that) (use s'(2-4) s1(4,5) in \<open>simp_all add: with_np_def\<close>)
qed

text \<open>
  C22: Armed, the simulator shows its Kodi. In a quiet spell (no stop request, no further press, a clock that does not
  jump by a call's timeout between two readings), with no other instance selected in the settings and a JSON library
  that reads back this exchange, one round of the connection loop resolves a target, connects and ends in the
  connected loop, with exactly the canned player on the snapshot (volume, mute, version, title, show, season, episode,
  position, duration, percentage, seekability), after announcing the changes. This holds from any state between two
  connections, whatever the manual host, whatever commands other threads queue, and however the host's own browser and
  sockets behave.
\<close>

theorem simulated_kodi_is_shown:
  assumes "quiet R taps" "sw_armed (k_world s)" "selects_fake R"
    and "\<not> library_busy s" "0 \<le> next_rpc_id s" "next_rpc_id s + 4 < 2 ^ 31" "poll_reads_back L (next_rpc_id s)"
  shows "\<exists>t s'. kodi_outer rnd (sim_env R L taps) L cfg s = Some (KInner t, s') \<and>
      ks_state (k_state s') = KConnected \<and> volume (k_state s') = 45 \<and> \<not> muted (k_state s') \<and>
      app_version (k_state s') = ''21.2'' \<and> now_playing (k_state s') = simulated_now_playing \<and>
      (\<exists>es. k_published s' = k_published s @ es @ [KNowPlayingChanged, KStateChanged KConnected])"
proof -
  let ?E = "sim_env R L taps"
  obtain tgt s1 where s1: "ResolveTarget ?E cfg s = (Some tgt, s1)" "sw_armed (k_world s1)"
    "library_busy s1 = library_busy s" "next_rpc_id s1 = next_rpc_id s" "k_published s1 = k_published s"
    by (rule armed_target [OF assms(1-3)])
  define s2 where
    "s2 = Kodi_SetState KConnecting (s1\<lparr>no_target_backoff := RetryBackoff_ResetAttempts (no_target_backoff s1)\<rparr>)"
  have s2: "sw_armed (k_world s2)" "\<not> library_busy s2" "next_rpc_id s2 = next_rpc_id s"
    "ks_state (k_state s2) = KConnecting" "\<exists>es. k_published s2 = k_published s @ es"
    using s1 assms(4) by (auto simp: s2_def Kodi_SetState_def k_publish_def)
  have I2: "0 \<le> next_rpc_id s2" "next_rpc_id s2 + 4 < 2 ^ 31" "poll_reads_back L (next_rpc_id s2)"
    using assms(5-7) by (simp_all add: s2(3))
  obtain s3 where s3: "ConnectAndPrime rnd ?E L cfg tgt s2 = Some (True, s3)"
    "k_state s3 = (k_state s2)\<lparr>volume := 45, muted := False, app_version := ''21.2'', now_playing := simulated_now_playing\<rparr>"
    "k_published s3 = k_published s2 @ [KNowPlayingChanged]" "on_fake s3"
    by (rule fake_prime [OF assms(1) s2(1,2) I2])
  define s4 where "s4 = Kodi_SetState KConnected (s3\<lparr>k_backoff := RetryBackoff_ResetAttempts (k_backoff s3)\<rparr>)"
  have s4: "k_state s4 = (k_state s3)\<lparr>ks_state := KConnected\<rparr>"
    "k_published s4 = k_published s3 @ [KStateChanged KConnected]"
    using s2(4) s3(2) by (simp_all add: s4_def Kodi_SetState_def k_publish_def)
  have "kodi_outer rnd ?E L cfg s = Some (KInner (fst (kdo_now ?E s4)), snd (kdo_now ?E s4))"
    using s1(1) s3(1) by (simp add: kodi_outer_def s2_def [symmetric] s4_def [symmetric] case_prod_beta)
  moreover have "k_state (snd (kdo_now ?E s4)) = k_state s4" "k_published (snd (kdo_now ?E s4)) = k_published s4"
    by (simp_all add: sim_now)
  ultimately show ?thesis using s4 s3(2,3) s2(5) by auto
qed

text \<open>
  Once it is disarmed, the next poll fails, whatever it tolerates, and the loop closes the socket: the send is
  refused, and a closed socket is no timeout.
\<close>

lemma disarmed_poll_fails:
  assumes "k_ws_open s" "fc_fake (sw_client (k_world s))" "\<not> sw_armed (k_world s)"
  shows "\<exists>s'. ReconcilePoll rnd (sim_env R L taps) L cfg tolerate s = Some (False, s')"
proof -
  let ?s1 = "s\<lparr>last_call_timed_out := False, next_rpc_id := next_rpc_id s + 1\<rparr>"
  have timed: "last_call_timed_out (fold kodi_client_step ops u) = last_call_timed_out u" for ops and u :: "'a sim_world kodi"
  proof (induction ops arbitrary: u)
    case (Cons op ops)
    then show ?case
      by (cases op) (simp_all add: Kodi_EnqueueCommand_def EnqueueLibraryRequest_def Kodi_TriggerReconnect_def)
  qed simp
  have refused: "\<exists>s2. kdo_send (sim_env R L taps) tx ?s1 = (False, s2) \<and> \<not> last_call_timed_out s2" for tx
    using assms
    by (simp add: kdo_send_def sim_env_def Debug_SendText_def Let_def k_absorb_def case_prod_beta timed)
  have "\<exists>s2. Call (sim_env R L taps) L cfg m p t b s = Some (None, s2) \<and> \<not> last_call_timed_out s2" for m p t b
  proof -
    obtain s2 where "kdo_send (sim_env R L taps) (json_dump L (rpc_request L (next_rpc_id s + 1) m p)) ?s1 = (False, s2)"
      "\<not> last_call_timed_out s2"
      using refused by blast
    then show ?thesis using assms(1) by (simp add: Call_def Let_def)
  qed
  then obtain s2 where "Call (sim_env R L taps) L cfg ''Application.GetProperties''
      ''{\"properties\":[\"volume\",\"muted\",\"version\"]}'' kCallTimeoutMs False s = Some (None, s2)" "\<not> last_call_timed_out s2"
    by blast
  then show ?thesis by (simp add: ReconcilePoll_def call_failed_def publish_if_def)
qed

section \<open>A concrete run\<close>

text \<open>A JSON library that writes the compact form and reads the texts of one poll.\<close>

definition sim_num :: "json \<Rightarrow> string" where
  "sim_num j = (case j of JInt i \<Rightarrow> to_string i | JFloat r \<Rightarrow> to_string \<lfloor>r\<rfloor> @ ''.0'' | _ \<Rightarrow> [])"

definition sim_params :: "string \<Rightarrow> json" where
  "sim_params p =
     (if p = snd (poll_calls ! 0) then jobj [(''properties'', jstrs [''volume'', ''muted'', ''version''])]
      else if p = snd (poll_calls ! 2) then
        jobj [(''playerid'', JInt 1), (''properties'', jstrs [''speed'', ''percentage'', ''time'', ''totaltime'', ''canseek''])]
      else jobj [(''playerid'', JInt 1), (''properties'', jstrs [''title'', ''showtitle'', ''season'', ''episode''])])"

definition sim_request :: "int \<Rightarrow> string \<times> string \<Rightarrow> json" where
  "sim_request i c =
     (let request = jobj [(''jsonrpc'', JStr ''2.0''), (''id'', JInt i), (''method'', JStr (fst c))]
      in if snd c = [] then request else json_set ''params'' (sim_params (snd c)) request)"

definition sim_table :: "(string \<times> json) list" where
  "sim_table =
     map (\<lambda>c. (CannedResult (fst c), canned_value (fst c))) poll_calls @
     map (\<lambda>c. (snd c, sim_params (snd c))) (filter (\<lambda>c. snd c \<noteq> []) poll_calls) @
     map (\<lambda>(i, c). (render sim_num (sim_request i c), sim_request i c)) (zip [1, 2, 3, 4] poll_calls) @
     map (\<lambda>(i, c). (render sim_num (fake_reply (JInt i) (canned_value (fst c))), fake_reply (JInt i) (canned_value (fst c))))
       (zip [1, 2, 3, 4] poll_calls)"

definition sim_json :: json_lib where
  "sim_json = \<lparr>json_parse = map_of sim_table, json_dump = render sim_num\<rparr>"

lemma sim_num_plain: "plain_text (sim_num j)"
proof -
  have "plain_text (to_string i)" for i
    using to_string_chars by (force simp: plain_text_def cpp_class byte_def)
  then show ?thesis by (simp add: sim_num_def plain_text_def split: json.split)
qed

lemma sim_table_distinct: "distinct (map fst sim_table)"
  by code_simp

lemma sim_reads: "(t, j) \<in> set sim_table \<Longrightarrow> json_parse sim_json t = Some j"
  by (simp add: sim_json_def map_of_is_SomeI [OF sim_table_distinct])

lemma sim_entries:
  assumes "(i, c) \<in> set (zip [1, 2, 3, 4] poll_calls)"
  shows "(CannedResult (fst c), canned_value (fst c)) \<in> set sim_table"
    "snd c \<noteq> [] \<Longrightarrow> (snd c, sim_params (snd c)) \<in> set sim_table"
    "(render sim_num (sim_request i c), sim_request i c) \<in> set sim_table"
    "(render sim_num (fake_reply (JInt i) (canned_value (fst c))), fake_reply (JInt i) (canned_value (fst c))) \<in> set sim_table"
  using assms set_zip_rightD [OF assms] unfolding sim_table_def by force+

lemma sim_call_reads_back:
  assumes "(i, c) \<in> set (zip [1, 2, 3, 4] poll_calls)"
  shows "call_reads_back sim_json i c"
proof -
  have "\<forall>c \<in> set poll_calls. \<not> ExceedsJsonNestingDepth (snd c) kMaxJsonNestingDepth"
    by code_simp
  then have "\<not> ExceedsJsonNestingDepth (snd c) kMaxJsonNestingDepth" using set_zip_rightD [OF assms] by blast
  then have "rpc_request sim_json i (fst c) (snd c) = sim_request i c"
    using sim_reads [OF sim_entries(2) [OF assms]]
    by (cases "snd c = []") (simp_all add: rpc_request_def sim_request_def ParseBoundedJson_def)
  then show ?thesis
    using sim_reads [OF sim_entries(1) [OF assms]] sim_reads [OF sim_entries(3) [OF assms]]
      sim_reads [OF sim_entries(4) [OF assms]] scans_to_render [of sim_num, OF sim_num_plain]
    by (simp add: call_reads_back_def json_reads_back_def) (simp add: sim_json_def)
qed

lemma sim_poll_reads_back: "poll_reads_back sim_json 0"
  unfolding poll_reads_back_def by (auto intro!: sim_call_reads_back simp: poll_calls_def)

definition pressed_once :: "nat sim_world" where
  "pressed_once = snd (Toggle \<lparr>sw_armed = False, sw_client = MakeWebSocketClient, sw_real = 0\<rparr>)"

theorem simulated_kodi_is_shown_witness:
  "case kodi_outer (\<lambda>x. x) (sim_env sample_kodi sim_json (\<lambda>r. (False, r))) sim_json sample_kodi_config
       (kodi_init 2000 60000 pressed_once) of
     Some (KInner t, s') \<Rightarrow> np_title (now_playing (k_state s')) = ''The One With The Simulator''
   | _ \<Rightarrow> False"
proof -
  have "quiet sample_kodi (\<lambda>r. (False, r))" by (simp add: quiet_def sample_kodi_def kCallTimeoutMs_def)
  moreover have "selects_fake sample_kodi"
    by (simp add: selects_fake_def sample_kodi_def GetSetting_def HostSettingsStore_Get_def ReadFile_def DecodeIfPresent_def
        kodi_kModuleId_def kInstanceUuidKey_def)
  ultimately have "\<exists>t s'. kodi_outer (\<lambda>x. x) (sim_env sample_kodi sim_json (\<lambda>r. (False, r))) sim_json sample_kodi_config
       (kodi_init 2000 60000 pressed_once) = Some (KInner t, s') \<and> now_playing (k_state s') = simulated_now_playing"
    using simulated_kodi_is_shown [of sample_kodi "\<lambda>r. (False, r)" "kodi_init 2000 60000 pressed_once" sim_json
        "\<lambda>x. x" sample_kodi_config] sim_poll_reads_back
    by (auto simp: kodi_init_def pressed_once_def Toggle_def)
  then show ?thesis by (auto simp: simulated_now_playing_def)
qed

end
