(* ===== verification/Simulator.thy ===== *)
theory Simulator
  imports Simulator_Kodi Routes Wifi_Screen Ui_Widgets Logger
begin

text \<open>
  The development host: the mock readings (\<^verbatim>\<open>platform/host/battery_reader.h\<close>, \<^verbatim>\<open>platform/host/network_status.h\<close>), the
  buttons of \<^verbatim>\<open>simulator/debug_panel.cpp\<close> that change them, and what \<^verbatim>\<open>simulator/main.cpp\<close> passes to the shared
  application. The buttons' layout and the test tone are left out.
\<close>

section \<open>Mock readings\<close>

definition HostBatteryReader_new :: battery_reading where
  "HostBatteryReader_new = \<lparr>battery_present = True, battery_percent = 76, external_power = False\<rparr>"

definition HostNetworkStatus_new :: network_state where
  "HostNetworkStatus_new = \<lparr>ns_connected = True, ns_ssid = ''Simulated-Network'', ns_ip_address = ''192.168.1.100''\<rparr>"

datatype forced_level = kNone | kForcedIdle | kForcedSleeping

definition kForcedIdleOnlyMs :: int where "kForcedIdleOnlyMs = 60000"
definition kForcedSleepingMs :: int where "kForcedSleepingMs = 24 * 60 * 60 * 1000"

text \<open>\<open>idle\<close> is the time since the last input that the display reports.\<close>

fun MillisecondsSinceLastActivity :: "forced_level \<Rightarrow> int \<Rightarrow> int" where
  "MillisecondsSinceLastActivity kForcedIdle idle = kForcedIdleOnlyMs"
| "MillisecondsSinceLastActivity kForcedSleeping idle = kForcedSleepingMs"
| "MillisecondsSinceLastActivity kNone idle = idle"

section \<open>The debug buttons\<close>

record 'r sim_panel =
  sp_battery :: battery_reading
  sp_network :: network_state
  sp_kodi :: "'r sim_world"
  sp_kodi_calls :: "kodi_client_op list"
  sp_nav :: navigation
  sp_wifi :: wifi_screen
  sp_next_request :: u32
  sp_forced :: forced_level
  sp_inactive :: int
  sp_force_ota :: bool
  sp_logger :: logger

named_theorems click_defs \<open>the click handlers\<close>

text \<open>The click handlers; \<open>now\<close> is the clock's reading, for the time stamp of the log.\<close>

definition OnTestBackToDashboardClicked :: "'r sim_panel \<Rightarrow> 'r sim_panel" where
  [click_defs]: "OnTestBackToDashboardClicked p = p\<lparr>sp_nav := snd (Navigation_GoHome (sp_nav p))\<rparr>"

definition OnTestWifiSetupNavClicked :: "'r sim_panel \<Rightarrow> 'r sim_panel" where
  [click_defs]: "OnTestWifiSetupNavClicked p = p\<lparr>sp_nav := snd (Navigation_GoTo kWifiSetup (sp_nav p))\<rparr>"

definition OnTestWifiChangeRequestClicked :: "'r sim_panel \<Rightarrow> 'r sim_panel" where
  [click_defs]: "OnTestWifiChangeRequestClicked p =
     (let request = sp_next_request p + 1
      in p\<lparr>sp_next_request := request, sp_wifi := ShowPendingRequest ''Example Network'' request (sp_wifi p),
           sp_nav := snd (Navigation_GoTo kWifiSetup (sp_nav p))\<rparr>)"

definition OnTestWifiDisconnectClicked :: "'r sim_panel \<Rightarrow> 'r sim_panel" where
  [click_defs]: "OnTestWifiDisconnectClicked p = p\<lparr>sp_network := (sp_network p)\<lparr>ns_connected := \<not> ns_connected (sp_network p)\<rparr>\<rparr>"

definition OnTestFakeKodiClicked :: "'r sim_panel \<Rightarrow> 'r sim_panel" where
  [click_defs]: "OnTestFakeKodiClicked p = (let (calls, w) = Toggle (sp_kodi p) in p\<lparr>sp_kodi := w, sp_kodi_calls := sp_kodi_calls p @ calls\<rparr>)"

definition OnTestLowBatteryClicked :: "'r sim_panel \<Rightarrow> 'r sim_panel" where
  [click_defs]: "OnTestLowBatteryClicked p = p\<lparr>sp_battery := (sp_battery p)\<lparr>battery_percent := 10\<rparr>\<rparr>"

definition OnTestCriticalBatteryClicked :: "'r sim_panel \<Rightarrow> 'r sim_panel" where
  [click_defs]: "OnTestCriticalBatteryClicked p = p\<lparr>sp_battery := (sp_battery p)\<lparr>battery_percent := 2\<rparr>\<rparr>"

definition OnTestExternalPowerClicked :: "'r sim_panel \<Rightarrow> 'r sim_panel" where
  [click_defs]: "OnTestExternalPowerClicked p = p\<lparr>sp_battery := (sp_battery p)\<lparr>external_power := \<not> external_power (sp_battery p)\<rparr>\<rparr>"

definition OnTestBatteryPresentClicked :: "'r sim_panel \<Rightarrow> 'r sim_panel" where
  [click_defs]: "OnTestBatteryPresentClicked p = p\<lparr>sp_battery := (sp_battery p)\<lparr>battery_present := \<not> battery_present (sp_battery p)\<rparr>\<rparr>"

definition OnTestForceOtaFailureClicked :: "'r sim_panel \<Rightarrow> 'r sim_panel" where
  [click_defs]: "OnTestForceOtaFailureClicked p = p\<lparr>sp_force_ota := \<not> sp_force_ota p\<rparr>"

definition OnTestTriggerIdleClicked :: "'r sim_panel \<Rightarrow> 'r sim_panel" where
  [click_defs]: "OnTestTriggerIdleClicked p = p\<lparr>sp_forced := kForcedIdle\<rparr>"

definition OnTestTriggerSleepingClicked :: "'r sim_panel \<Rightarrow> 'r sim_panel" where
  [click_defs]: "OnTestTriggerSleepingClicked p = p\<lparr>sp_forced := kForcedSleeping\<rparr>"

definition OnTestTriggerActiveClicked :: "'r sim_panel \<Rightarrow> 'r sim_panel" where
  [click_defs]: "OnTestTriggerActiveClicked p = p\<lparr>sp_forced := kNone, sp_inactive := 0\<rparr>"

definition OnTestLogEntryClicked :: "int \<Rightarrow> 'r sim_panel \<Rightarrow> 'r sim_panel" where
  [click_defs]: "OnTestLogEntryClicked now p = p\<lparr>sp_logger := Log now kInfo ''simulator'' ''Test log entry'' (sp_logger p)\<rparr>"

text \<open>A press of any of the buttons.\<close>

datatype debug_button =
    BackToDashboard | WifiSetupNav | WifiChangeRequest | WifiDisconnect | FakeKodi | LowBattery | CriticalBattery
  | ExternalPower | BatteryPresent | ForceOtaFailure | TriggerIdle | TriggerSleeping | TriggerActive | LogEntry

fun debug_click :: "int \<Rightarrow> debug_button \<Rightarrow> 'r sim_panel \<Rightarrow> 'r sim_panel" where
  "debug_click now BackToDashboard p = OnTestBackToDashboardClicked p"
| "debug_click now WifiSetupNav p = OnTestWifiSetupNavClicked p"
| "debug_click now WifiChangeRequest p = OnTestWifiChangeRequestClicked p"
| "debug_click now WifiDisconnect p = OnTestWifiDisconnectClicked p"
| "debug_click now FakeKodi p = OnTestFakeKodiClicked p"
| "debug_click now LowBattery p = OnTestLowBatteryClicked p"
| "debug_click now CriticalBattery p = OnTestCriticalBatteryClicked p"
| "debug_click now ExternalPower p = OnTestExternalPowerClicked p"
| "debug_click now BatteryPresent p = OnTestBatteryPresentClicked p"
| "debug_click now ForceOtaFailure p = OnTestForceOtaFailureClicked p"
| "debug_click now TriggerIdle p = OnTestTriggerIdleClicked p"
| "debug_click now TriggerSleeping p = OnTestTriggerSleepingClicked p"
| "debug_click now TriggerActive p = OnTestTriggerActiveClicked p"
| "debug_click now LogEntry p = OnTestLogEntryClicked now p"

text \<open>One clock tick of the power manager over the panel's readings.\<close>

definition panel_tick :: "'r sim_panel \<Rightarrow> ms \<Rightarrow> device_input" where
  "panel_tick p now = Other (PTick (MillisecondsSinceLastActivity (sp_forced p) (sp_inactive p)) now)"

section \<open>main\<close>

definition kDefaultWebPort :: int where "kDefaultWebPort = 8080"
definition kFakeApSsid :: string where "kFakeApSsid = ''HomeDeck-SIM01''"

text \<open>
  \<^verbatim>\<open>std::strtol\<close> in base 10 with a 64-bit \<^verbatim>\<open>long\<close>: white space, a sign, digits, saturating; the flag says whether
  anything was read.
\<close>

definition strtol :: "string \<Rightarrow> int \<times> bool" where
  "strtol s =
     (let t = dropWhile c_isspace s;
          neg = (t \<noteq> [] \<and> hd t = CHR ''-'');
          u = (if t \<noteq> [] \<and> (hd t = CHR ''-'' \<or> hd t = CHR ''+'') then tl t else t);
          ds = takeWhile c_isdigit u;
          v = int (nat_of_dec ds 0)
      in if ds = [] then (0, False) else (clamp (if neg then - v else v) (- (2 ^ 63)) (2 ^ 63 - 1), True))"

definition ResolveWebPort :: "string option \<Rightarrow> int" where
  "ResolveWebPort override =
     (case override of
        None \<Rightarrow> kDefaultWebPort
      | Some s \<Rightarrow>
          (let (v, read) = strtol s
           in if \<not> read \<or> v \<le> 0 \<or> 65535 < v then kDefaultWebPort else v))"

text \<open>The writer of updates: it ignores the image, and fails when the button says so.\<close>

definition sim_max_image_size :: nat where "sim_max_image_size = 4 * 1024 * 1024"

definition sim_write_image :: "bool \<Rightarrow> string \<Rightarrow> bool" where
  "sim_write_image force_ota_failure body = (\<not> force_ota_failure)"

text \<open>The callbacks handed to \<^verbatim>\<open>AppCore\<close>; there is no device-name callback.\<close>

definition simulator_env :: "'r sim_panel \<Rightarrow> app_env \<Rightarrow> app_env" where
  "simulator_env p E =
     E\<lparr>ae_battery := sp_battery p, ae_max_image_size := sim_max_image_size, ae_write_image := sim_write_image (sp_force_ota p),
       ae_running_version := ''simulator-dev'',
       ae_core_dump := Some (''This is a simulator-only stub core dump for Web UI development - '' @
         ''see docs/architecture/diagnostics.md.''),
       ae_memory := \<lparr>internal_free_bytes = 150000, internal_largest_block_bytes = 64000,
         internal_low_water_bytes = 140000, psram_free_bytes = 30000000\<rparr>,
       ae_wifi_reset := Some kFakeApSsid, ae_device_name_validate := None, ae_device_name_committed := False\<rparr>"

definition sim_wifi_submit :: "string \<Rightarrow> string \<Rightarrow> 'v \<Rightarrow> bool \<times> 'v" where
  "sim_wifi_submit ssid password v = (ssid \<noteq> [], v)"

definition sim_wifi_pending_decision :: "u32 \<Rightarrow> bool \<Rightarrow> 'v \<Rightarrow> bool \<times> 'v" where
  "sim_wifi_pending_decision request_id allow v = (True, v)"

text \<open>The mock values seeded for the diagnostics page.\<close>

definition seed_diagnostics :: "storage \<Rightarrow> storage" where
  "seed_diagnostics s =
     (let s1 = snd (SetSetting s ''core'' ''reset_reason'' 1 ''power-on'')
      in snd (SetSetting s1 ''core'' ''has_core_dump'' 1 ''true''))"

text \<open>The files of the web interface that can be read are served; \<open>read\<close> is \<^verbatim>\<open>ReadFile\<close> in its directory.\<close>

definition webui_assets :: "(string \<Rightarrow> string option) \<Rightarrow> static_asset list" where
  "webui_assets read =
     concat (map (\<lambda>(path, filename, ctype).
         case read filename of Some content \<Rightarrow> [\<lparr>asset_path = path, asset_content_type = ctype, asset_body = content\<rparr>]
                             | None \<Rightarrow> [])
       [(''/'', ''index.html'', ''text/html''), (''/app.js'', ''app.js'', ''text/javascript''),
        (''/app.css'', ''app.css'', ''text/css'')])"

text \<open>They are the files the device embeds, so the closure of the web surface holds for the simulator too.\<close>

lemma webui_assets_files: "webui_assets read = web_ui_files (read ''index.html'') (read ''app.js'') (read ''app.css'')"
  by (simp add: webui_assets_def web_ui_files_def map_filter_simps split: option.split)

section \<open>What the environment variable may say\<close>

text \<open>Whatever the variable holds, the port is one a server can bind; a port written in decimal is taken as it is.\<close>

lemma ResolveWebPort_range: "1 \<le> ResolveWebPort override \<and> ResolveWebPort override \<le> 65535"
  by (auto simp: ResolveWebPort_def kDefaultWebPort_def Let_def case_prod_beta split: option.splits)

lemma strtol_to_string:
  assumes "0 \<le> v" "v < 2 ^ 63"
  shows "strtol (to_string v) = (v, True)"
proof -
  have digits: "\<forall>c \<in> set (to_string v). c_isdigit c"
    using assms(1) dec_of_nat_digits by (simp add: to_string_def)
  have ne: "to_string v \<noteq> []" using assms(1) by (simp add: to_string_def)
  then have "c_isdigit (hd (to_string v))" using digits by simp
  then have hd: "\<not> c_isspace (hd (to_string v))" "hd (to_string v) \<noteq> CHR ''-''" "hd (to_string v) \<noteq> CHR ''+''"
    by (auto simp: cpp_class byte_def)
  have white: "dropWhile c_isspace (to_string v) = to_string v"
    using hd(1) ne by (cases "to_string v") simp_all
  have all: "takeWhile c_isdigit (to_string v) = to_string v" using digits by (simp add: takeWhile_eq_all_conv)
  have "nat_of_dec (to_string v) 0 = nat v" using assms(1) by (simp add: to_string_def nat_of_dec_of_nat)
  then show ?thesis using assms ne hd by (simp add: strtol_def white all Let_def)
qed

lemma ResolveWebPort_decimal: "1 \<le> p \<Longrightarrow> p \<le> 65535 \<Longrightarrow> ResolveWebPort (Some (to_string p)) = p"
  by (simp add: ResolveWebPort_def strtol_to_string)

section \<open>What the buttons do to the device\<close>

lemmas forced_defs = click_defs panel_tick_def OnTick_def TransitionTo_def kIdleTimeoutMs_def kSleepTimeoutMs_def
  kForcedIdleOnlyMs_def kForcedSleepingMs_def HasActiveSleepVeto_def

text \<open>
  Parked at idle: however many ticks follow the idle button, an awake device is idle and does not fall asleep; after
  the sleep button and two ticks it sleeps, unless a veto is in force; after the active button one tick wakes it.
\<close>

lemma idle_button_parks:
  assumes "pm_state (dv_power d) \<in> {kActive, kIdle}"
  shows "pm_state (dv_power (fold device_step (map (panel_tick (debug_click now TriggerIdle p)) (t # ts)) d)) = kIdle"
proof -
  let ?tick = "panel_tick (debug_click now TriggerIdle p)"
  have parked: "pm_state (dv_power (fold device_step (map ?tick us) d)) = kIdle" if "pm_state (dv_power d) = kIdle" for us d
    using that by (induction us) (simp_all add: forced_defs)
  show ?thesis using assms parked by (auto simp: forced_defs)
qed

lemma sleep_button_sleeps:
  assumes "pm_state (dv_power d) \<in> {kActive, kIdle, kSleeping}" "sleep_veto_until (dv_power d) = None"
  shows "pm_state (dv_power (fold device_step (map (panel_tick (debug_click now TriggerSleeping p)) (t # u # ts)) d)) = kSleeping"
proof -
  let ?tick = "panel_tick (debug_click now TriggerSleeping p)"
  have asleep: "pm_state (dv_power (fold device_step (map ?tick us) d)) = kSleeping" if "pm_state (dv_power d) = kSleeping" for us d
    using that by (induction us) (simp_all add: forced_defs)
  show ?thesis using assms asleep by (auto simp: forced_defs)
qed

lemma active_button_wakes:
  assumes "pm_state (dv_power d) \<in> {kActive, kIdle, kSleeping}"
  shows "pm_state (dv_power (device_step (panel_tick (debug_click now TriggerActive p) t) d)) = kActive"
  using assms by (auto simp: forced_defs)

text \<open>
  The critical button puts a device on battery into the error state once the next tick's event has been
  delivered, and the low-battery button takes it out; with a charger, or with no battery, nothing happens.
\<close>

lemma battery_buttons:
  fixes p :: "'r sim_panel"
  defines "on_battery \<equiv> battery_present (sp_battery p) \<and> \<not> external_power (sp_battery p)"
  assumes "pm_state (dv_power d) \<noteq> power_state.kError" "\<not> dv_latch d" "dv_calls d = []"
  shows "pm_state (dv_power (fold device_step [Battery (sp_battery (debug_click now CriticalBattery p)), RunUi] d)) =
           (if on_battery then power_state.kError else pm_state (dv_power d))"
    and "pm_state (dv_power (fold device_step [Battery (sp_battery (debug_click now CriticalBattery p)), RunUi,
            Battery (sp_battery (debug_click now LowBattery p)), RunUi] d)) \<noteq> power_state.kError"
  using assms
  by (auto simp: click_defs CriticalBatteryMonitor_tick_def latched_tick_def kCriticalThresholdPercent_def
      OnCriticalBatteryStateChanged_def TransitionTo_def Let_def)

text \<open>The low-battery notification is raised once, by the tick after the button.\<close>

lemma low_button_notifies:
  assumes "battery_present (sp_battery p)"
  shows "LowBatteryMonitor_tick (sp_battery (debug_click now LowBattery p)) False =
           ([Notification \<lparr>ne_message = ''Battery low'', ne_severity = kDeferred\<rparr>], True)"
    and "LowBatteryMonitor_tick (sp_battery (debug_click now LowBattery p)) True = ([], True)"
  using assms by (simp_all add: click_defs LowBatteryMonitor_tick_def latched_tick_def kThresholdPercent_def)

text \<open>The update route answers a forced failure with the error the web interface shows.\<close>

lemma forced_update_failure:
  assumes "\<not> upload_locked (app_ota s)" "gate_open (EvaluateOtaGate (sp_battery p))"
    "length (req_body request) \<le> 4 * 1024 * 1024"
  shows "status_code (fst (ota_upload_handler (simulator_env p E) request s)) = (if sp_force_ota p then 500 else 200)"
    and "\<not> upload_locked (app_ota (snd (ota_upload_handler (simulator_env p E) request s)))"
  using assms
  by (simp_all add: ota_upload_handler_def ota_upload_begin_def ota_upload_finish_def simulator_env_def sim_max_image_size_def
      sim_write_image_def json_response_def
      case_prod_beta Let_def)

text \<open>The request button shows a prompt with an identifier of its own, which either answer closes.\<close>

lemma request_button_prompts:
  fixes p :: "'r sim_panel" and now :: int
  defines "w \<equiv> sp_wifi (debug_click now WifiChangeRequest p)"
  shows "has_pending_request w" "\<not> request_box_hidden w" "pending_request_id w = sp_next_request p + 1"
    "request_text w = pending_prompt ''Example Network''"
    "has_pending_request (fst (Decide (Some sim_wifi_pending_decision) allow w v)) = False"
  by (simp_all add: w_def click_defs ShowPendingRequest_def Decide_def ClearPendingRequest_def sim_wifi_pending_decision_def Let_def)

text \<open>The diagnostics page shows the seeded values.\<close>

lemma seeds_read_back:
  assumes "settings_writable s"
  shows "GetSetting (seed_diagnostics s) diagnostics_kModuleId ''reset_reason'' =
           Some \<lparr>schema_version = 1, vv_value = ''power-on''\<rparr>"
    and "GetSetting (seed_diagnostics s) diagnostics_kModuleId ''has_core_dump'' =
           Some \<lparr>schema_version = 1, vv_value = ''true''\<rparr>"
proof -
  have names: "k \<in> {''reset_reason'', ''has_core_dump''} \<Longrightarrow> \<not> IsReservedSettingsKey ''core'' k" "k \<in> {''reset_reason'', ''has_core_dump''} \<Longrightarrow> \<not> InvalidKey ''core'' k" for k
    by (auto simp: IsReservedSettingsKey_def auth_kModuleId_def kPasswordKey_def InvalidKey_def IsValidStoreSegment_iff)
  let ?s1 = "snd (SetSetting s ''core'' ''reset_reason'' 1 ''power-on'')"
  have w: "fst (SetSetting s ''core'' ''reset_reason'' 1 ''power-on'')" "settings_writable ?s1"
    using SetSetting_writable [OF assms names, of "''reset_reason''"] by simp_all
  have w2: "fst (SetSetting ?s1 ''core'' ''has_core_dump'' 1 ''true'')"
    using SetSetting_writable(1) [OF w(2) names, of "''has_core_dump''"] by simp
  have "GetSetting ?s1 ''core'' ''reset_reason'' = Some \<lparr>schema_version = 1, vv_value = ''power-on''\<rparr>"
    by (rule GetSetting_SetSetting) (use w(1) in \<open>simp_all add: int32_range_def prod_eq_iff\<close>)
  then show "GetSetting (seed_diagnostics s) diagnostics_kModuleId ''reset_reason'' =
           Some \<lparr>schema_version = 1, vv_value = ''power-on''\<rparr>"
    by (simp add: seed_diagnostics_def diagnostics_kModuleId_def GetSetting_SetSetting_other)
  have "GetSetting (snd (SetSetting ?s1 ''core'' ''has_core_dump'' 1 ''true'')) ''core'' ''has_core_dump'' =
      Some \<lparr>schema_version = 1, vv_value = ''true''\<rparr>"
    by (rule GetSetting_SetSetting) (use w2 in \<open>simp_all add: int32_range_def prod_eq_iff\<close>)
  then show "GetSetting (seed_diagnostics s) diagnostics_kModuleId ''has_core_dump'' =
           Some \<lparr>schema_version = 1, vv_value = ''true''\<rparr>"
    by (simp add: seed_diagnostics_def diagnostics_kModuleId_def)
qed

text \<open>
  The fake-Kodi button: pressed on a disarmed panel it arms the fake Kodi, pressed again it disarms it, and
  each time the Kodi module is asked to reconnect.
\<close>

lemma fake_kodi_button:
  "sw_armed (sp_kodi (debug_click now FakeKodi p)) = (\<not> sw_armed (sp_kodi p))"
  "sp_kodi_calls (debug_click now FakeKodi p) = sp_kodi_calls p @ [KTrigger]"
  by (simp_all add: click_defs Toggle_def)

end
