(* ===== verification/Spec2Isabelle.thy ===== *)
theory Spec2Isabelle
  imports Prelude Json Url Storage Http Auth Auth_Concurrency Events Power_State Net Harmony Kodi_Json
    Kodi_Client Kodi_Progress Kodi_Discovery Ws_Codec Ws_Client Ws_Frames Ws_Handshake
    Logger Weather Settings_Routes Routes Http_Servers Wifi_Setup Firmware_Stores Firmware_Ws
    Ui_Grid Ui_List Ui_Navigation Ui_Harmony Ui_Kodi Ui_Shell Wifi_Screen Ui_Widgets
    Firmware_Battery Firmware_Boot Mdns_Browser Platform_Adapters Simulator_Kodi
    Simulator
begin

text \<open>
  HomeDeck: a verification library for the C++ core of the HomeDeck control panel.

  The program. HomeDeck is a wall panel (ESP32-P4 firmware and a desktop simulator sharing one code
  base) that controls a Logitech Harmony hub and Kodi media players. Its own logic is the
  platform-independent core under src/src/core, the host and device implementations of the platform
  interfaces under src/src/platform, the Wi-Fi provisioning under src/firmware/main and the touch
  screens under src/src/ui. A clock publishes ticks on an event bus; battery, network and
  power components react to them; two long-lived background tasks (the Harmony connection and the
  Kodi client) own one WebSocket each and take commands from the UI thread through bounded queues
  guarded by one mutex; an HTTP server with an administrator login serves the settings pages; all
  persistent data goes through one storage facade.

  Theories and sources, in dependency order:

  \<^item> Prelude: bytes, C character classes, fixed-width casts, std::to_string and std::from_chars,
    string search, bounded queues (the locale bounded_fifo states what every command queue of the
    program promises; the queue, Harmony and WebSocket models interpret it).
  \<^item> Json: the JSON values of the third-party library (its parse and dump are the fields of the
    record json_lib, a parameter everywhere), the nesting scan and the bounded parse of
    json_request.h.
  \<^item> Url: url_codec.cpp, host_validation.h, wifi_credentials.h and the percent encoder of
    weather_routes.cpp, with a reference URL splitter used to state that validated hosts cannot
    redirect a connection.
  \<^item> Storage: store_key_validation.h, the file-backed host stores and storage.cpp. The locale
    kv_writes is the contract of writing and reading a key-value store, kv_store extends it with
    erasing; the settings, secret and cache stores are interpretations, and the facade's round trips
    are proved from them. Firmware_Stores: the same stores on the device, over NVS partitions and a
    FAT volume whose failures are injected (src/src/platform/firmware/nvs_blob_store.cpp,
    settings_store.cpp, secret_store.cpp, cache_store.cpp).
  \<^item> Http: the request and response types of http_server.h and http_client.h, static_assets.cpp.
  \<^item> Auth: admin_auth_service.cpp (password record, PBKDF2 verification, lockout, sessions, cookies,
    the guard and the four routes). mbedtls (random generator, PBKDF2) is the record auth_env.
    Auth_Concurrency: the same service as a step relation in which the locked sections of Login of
    any number of requests interleave with every other request.
  \<^item> Events: event_bus.cpp, with an explicit queue of deferred UI calls that run in any order, each
    in two steps: the subscriber is looked up under the lock, and called once the lock is free.
  \<^item> Power_State: the latched battery monitors, network_status_monitor.cpp, ota_gate.h,
    power_manager.cpp, harmony_notification_bridge.cpp and notification_sound.cpp. The record device
    joins the critical-battery latch to the power manager through the queue of deferred UI calls.
  \<^item> Net: retry_backoff.h, connection_wake.h, wifi_reconnect_policy.h, pending_wifi_credentials.h,
    websocket_message_assembler.h, queue.h.
  \<^item> Harmony: harmony_connection.cpp as a whole. Its state is one record; hub, clock, stop token,
    storage and the calls of other threads are the record harmony_env over an arbitrary world.
    After every blocking call the commands other threads enqueued meanwhile are absorbed, also once
    the loop has returned.
  \<^item> Kodi_Json and Kodi_Client: kodi_json.cpp and kodi_client.cpp as a whole, in the same style.
    Kodi_Progress shows that no wait in it hangs; Kodi_Discovery is about mDNS discovery and the
    target dialled.
  \<^item> Ws_Codec, Ws_Client, Ws_Frames and Ws_Handshake: the host WebSocket client
    (src/src/platform/host/websocket_client.cpp): SHA-1 and base64, reading and writing frames over a
    byte stream that may stall or break at every read, the handshake. The socket and the random
    generator are the fields of a record over an arbitrary world.
  \<^item> Logger: logger.cpp, the two blobs of the log, their rotation and the batches written by the flush
    task. Each of the two cache writes of a batch may fail, and a reader reads the two blobs at two
    moments between which the task may write.
  \<^item> Weather: weather_provider.cpp and the search of weather_routes.cpp.
  \<^item> Settings_Routes and Routes: the web routes (settings, backup and restore, OTA upload, Wi-Fi,
    diagnostics, Harmony and Kodi), the order in which they are registered behind the guard, and the
    files of the web interface, which are served without it.
  \<^item> Http_Servers: both web servers and both HTTP clients (http_server.cpp and http_client.cpp under
    src/src/platform/host and src/src/platform/firmware): receiving a body under the timeout budgets,
    dispatching it, writing the response, bounding what a client keeps.
  \<^item> Firmware_Ws: src/src/platform/firmware/websocket_client.cpp, driven by the events of ESP-IDF's
    WebSocket client.
  \<^item> Wifi_Setup: src/firmware/main/wifi_setup.cpp: station events and the reconnect timer, the setup
    and the recovery access point with their form, the approval of new credentials. The Wi-Fi driver
    is a record of its answers.
  \<^item> Ui_Grid and Ui_List: the dashboard's placement (grid_occupancy.h, dashboard_grid.cpp) and the
    list that binds a few buttons to any number of rows (virtual_list_window.h, virtual_list.cpp).
  \<^item> Ui_Harmony: text_format.cpp, activity_start_tracker.cpp, command_button_press_tracker.cpp and the
    activities and devices screens. Ui_Navigation: routes.h, navigation.cpp, home_affordance.cpp,
    ui_dispatch.cpp (the queue to the UI thread) and the routes app_core.cpp registers. Ui_Kodi:
    kodi_display.cpp, lazy_load.h and the seven Kodi screens; the locale browse_level states what a level of a browse screen promises and
    is interpreted five times. A screen is what it shows and what its handlers read; a handler
    returns the calls it makes on the connection or client below.
  \<^item> Wifi_Screen: wifi_setup_screen.cpp with its wiring in homedeck.cpp: the Wi-Fi module of
    Wifi_Setup, the UI queue and the screen together, stepped in any interleaving.
  \<^item> Ui_Shell: quick_settings_panel.cpp and the settings app_core.cpp reads back at start.
    Ui_Widgets: status_bar.cpp, notification_banner.cpp, keyboard_input.cpp and the dashboard's
    tiles.
  \<^item> Firmware_Battery: src/src/platform/firmware/battery_reader.cpp and its use by the monitors and
    the update gate. Single precision is exact arithmetic followed by a rounding parameter.
  \<^item> Firmware_Boot: src/firmware/main/homedeck.cpp and crash_diagnostics.cpp: app_main as a sequence of
    parts that end running, halted, aborted or waiting, with every ESP-IDF call recorded, over the
    panel of Wifi_Screen, the web server of Http_Servers and the diagnostics of Routes.
  \<^item> Mdns_Browser: both mDNS back ends. Platform_Adapters: timers and tasks of both platforms as step
    relations (the locale lifetime says that nothing runs once its owner has freed it; both timers and
    the device's task are interpretations), the clock, brightness and audio.
  \<^item> Simulator_Kodi: src/simulator/debug_kodi_backend.cpp, the simulator's stand-in for a Kodi, as an
    environment of Kodi_Client on top of another one. Simulator: the mock readings, the click handlers of
    debug_panel.cpp, and the callbacks, port and seeds of src/simulator/main.cpp.

  What the theorems show. Security: throttled logins under any interleaving, the guard in front of
  protected routes, session lifetime, a password record that is written once and never exported,
  URLs that reach the validated host, credentials that cannot be swapped under a shown request id.
  Robustness against a hostile peer: bounded queues, buffers, numbers and recursion; loop
  invariants of both connection loops for an arbitrary environment; progress of the Kodi loop; no
  silent loss of a Harmony command and no held button left pressed. State machines: the power
  manager's states against the history of its inputs, edges that alternate, notifications that do
  not queue, Wi-Fi retries that never stop, network credentials that change only by a person's
  hand. Round trips: settings, form fields, cookies, WebSocket messages, setup and login, backup and
  restore. Screens: every command of a device is offered once, no key is left held down, a list
  shows the rows under its window, rows answer what is open (the songs of an album excepted, see
  Ui_Kodi), the episode shown is the one played,
  every widget is placed without overlap. Two implementations of one interface: both web servers
  answer alike, and the device's WebSocket client delivers the messages its peer sent, in order.
  The device as a whole: allowing a network change joins the network the prompt showed; an update is
  asked to be confirmed only once the device is on its network with its web interface up, and counts
  as confirmed only if that call succeeds; only a validated image becomes bootable; sliders survive a
  restart; an unreadable current sensor opens the update gate; destroyed timers and tasks run no more;
  an mDNS browse is bounded and leaks no resolver. The
  program against a peer of its own: with the simulator's Kodi armed, the Kodi module connects to it
  and shows exactly the player it describes.

  Conventions. Milliseconds are integers; byte strings are char lists; a std::map is an association
  list in insertion order where the order shows and a function otherwise; doubles are reals, with
  the rounding of the JSON number reader as a parameter. A loop bounded in the source is recursion;
  the reply loop of Call and the page loop of CallLibrary are partial functions with the value None
  for not returning, and Kodi_Progress proves that they return whenever the peer has only finitely
  many frames to deliver during a wait (finitely_many_frames). The connection loops are step
  functions between loop heads: ConnectionLoop n is the state at the n-th visit, with no bound on
  n. The JSON-RPC id counter is unbounded here (the source's int would overflow after two thousand
  million calls).

  Hypotheses. What a property assumes stands in the text before it. The recurring ones are the laws
  of the JSON library (a dumped value parses back), documented rules of mbedtls, Avahi, ESP-IDF and
  LVGL, random bytes of the length asked for, and counters that do not reach their 32- or 64-bit
  bound. A file write that fails is a branch of every model of a store; a write that fails and leaves
  part of the new bytes behind is excluded where a text says so.

  Not modelled: construction, layout and styling of LVGL objects; the bring-up of the display and of
  the Wi-Fi driver beyond their failure; SDL's audio playback and the I2C calls, which only pass
  arguments on; tone synthesis; console output; the window, zoom and LVGL configuration of
  the simulator; the board support package under
  src/firmware/components.
\<close>

end
